(* ===== verification/Go_Prelude.thy ===== *)
theory Go_Prelude
  imports Main "HOL-Library.AList" "HOL-Library.Char_ord" "HOL-Library.List_Lexorder"
    "HOL-Library.Monad_Syntax"
begin

text \<open>
  Shared vocabulary of the development: the Go types and library operations every
  component uses, and the generic lemmas about them.

  \<^item> A Go \<^verbatim>\<open>map[string]T\<close> is an association list with distinct keys, read by
    \<^const>\<open>map_of\<close> and changed by \<^const>\<open>AList.update\<close> and \<^const>\<open>AList.delete\<close>. Go
    ranges over a map in an unspecified order; the order of the list plays that role, and
    no theorem fixes it.
  \<^item> A \<^verbatim>\<open>time.Time\<close> is an integer: nanoseconds since Go's zero time, so
    \<^verbatim>\<open>IsZero\<close> is equality with 0. \<^verbatim>\<open>time.Now()\<close> is an argument of the
    operations that call it.
  \<^item> An operation that may fail returns a sum, \<^const>\<open>Inl\<close> for the error; a checker whose Go
    result is a bare \<^verbatim>\<open>error\<close> returns an option, \<^const>\<open>None\<close> for \<^verbatim>\<open>nil\<close>.
  \<^item> A loop with an early error return is \<open>fold_until\<close>.
\<close>

type_synonym go_time = int

named_theorems go_simps \<open>evaluation rules of the Go library model\<close>

section \<open>Loops with an early error return\<close>

fun fold_until :: "('s \<Rightarrow> 'e \<Rightarrow> 'err + 's) \<Rightarrow> 's \<Rightarrow> 'e list \<Rightarrow> 'err + 's" where
  "fold_until f s [] = Inr s"
| "fold_until f s (e # es) = (case f s e of Inl x \<Rightarrow> Inl x | Inr s' \<Rightarrow> fold_until f s' es)"

lemma fold_until_append:
  "fold_until f s (xs @ ys) =
     (case fold_until f s xs of Inl x \<Rightarrow> Inl x | Inr s' \<Rightarrow> fold_until f s' ys)"
  by (induction xs arbitrary: s) (auto split: sum.splits)

lemma fold_until_snoc_Inr:
  "fold_until f s (xs @ [e]) = Inr s2 \<longleftrightarrow> (\<exists>s1. fold_until f s xs = Inr s1 \<and> f s1 e = Inr s2)"
  by (auto simp: fold_until_append split: sum.splits)

lemma fold_until_prefix:
  "fold_until f s (xs @ ys) = Inr s2 \<Longrightarrow> \<exists>s1. fold_until f s xs = Inr s1 \<and> fold_until f s1 ys = Inr s2"
  by (auto simp: fold_until_append split: sum.splits)

lemma fold_until_invariant:
  assumes "fold_until f s xs = Inr s'" and "P s"
    and "\<And>s e s'. e \<in> set xs \<Longrightarrow> P s \<Longrightarrow> f s e = Inr s' \<Longrightarrow> P s'"
  shows "P s'"
  using assms
proof (induction xs arbitrary: s)
  case (Cons a xs)
  from Cons.prems(1) obtain s1 where a: "f s a = Inr s1" and r: "fold_until f s1 xs = Inr s'"
    by (auto split: sum.splits)
  have "P s1" using Cons.prems(2) a by (rule Cons.prems(3) [rotated]) simp
  show ?case
  proof (rule Cons.IH [OF r \<open>P s1\<close>])
    fix s e s' assume "e \<in> set xs" "P s" "f s e = Inr s'"
    then show "P s'" by (intro Cons.prems(3) [of e s s']) auto
  qed
qed simp

lemma fold_until_history:
  assumes "fold_until f s0 es = Inr s" and "R [] s0"
    and "\<And>es s e s'. R es s \<Longrightarrow> f s e = Inr s' \<Longrightarrow> R (es @ [e]) s'"
  shows "R es s"
  using assms(1)
proof (induction es arbitrary: s rule: rev_induct)
  case Nil
  then show ?case using assms(2) by simp
next
  case (snoc e es)
  then show ?case using assms(3) by (auto simp: fold_until_snoc_Inr)
qed

lemma fold_until_cong:
  assumes "\<And>s e. e \<in> set xs \<Longrightarrow> f s e = g s e"
  shows "fold_until f s xs = fold_until g s xs"
  using assms by (induction xs arbitrary: s) (auto split: sum.splits)

text \<open>
  The interface of an event fold that reads some of the events only: the laws under which
  a validator ignores what is not in its vocabulary.
\<close>

locale event_fold =
  fixes step :: "'s \<Rightarrow> 'e \<Rightarrow> 'err + 's"
    and relevant :: "'e \<Rightarrow> bool"
  assumes frame: "\<not> relevant e \<Longrightarrow> step s e = Inr s"
begin

lemma fold_filter: "fold_until step s (filter relevant es) = fold_until step s es"
  by (induction es arbitrary: s) (auto simp: frame split: sum.splits)

lemma fold_snoc_irrelevant:
  assumes "\<not> relevant e"
  shows "fold_until step s (es @ [e]) = fold_until step s es"
  using assms by (simp add: fold_until_append frame split: sum.splits)

lemma fold_append_irrelevant:
  assumes "\<forall>e \<in> set fs. \<not> relevant e"
  shows "fold_until step s (es @ fs) = fold_until step s es"
proof -
  have "filter relevant fs = []" using assms by (induction fs) auto
  then have "filter relevant (es @ fs) = filter relevant es" by simp
  then show ?thesis by (metis fold_filter)
qed

lemma fold_irrelevant_between:
  assumes "\<forall>e \<in> set ms. \<not> relevant e"
  shows "fold_until step s (es @ ms @ fs) = fold_until step s (es @ fs)"
proof -
  have "filter relevant ms = []" using assms by (induction ms) auto
  then have "filter relevant (es @ ms @ fs) = filter relevant (es @ fs)" by simp
  then show ?thesis by (metis fold_filter)
qed

end

section \<open>Checkers and their specifications\<close>

text \<open>
  A checker reads a sequence once, with a state; its specification says of each element what
  its predecessors must look like.
\<close>

definition each_after :: "('e list \<Rightarrow> 'e \<Rightarrow> bool) \<Rightarrow> 'e list \<Rightarrow> bool" where
  "each_after ok es \<longleftrightarrow> (\<forall>i < length es. ok (take i es) (es ! i))"

lemma each_after_Nil [simp]: "each_after ok []"
  by (simp add: each_after_def)

lemma each_after_snoc [simp]: "each_after ok (es @ [e]) \<longleftrightarrow> each_after ok es \<and> ok es e"
  by (auto simp: each_after_def nth_append less_Suc_eq)

lemma each_after_split: "each_after ok es \<Longrightarrow> es = pre @ e # post \<Longrightarrow> ok pre e"
  unfolding each_after_def by (metis append_eq_conv_conj length_append length_Cons
      less_add_same_cancel1 nth_append_length zero_less_Suc)

lemma each_after_prefix: "each_after ok (xs @ ys) \<Longrightarrow> each_after ok xs"
proof (induction ys rule: rev_induct)
  case (snoc y ys)
  then have "each_after ok ((xs @ ys) @ [y])" by simp
  then show ?case using snoc.IH by (simp only: each_after_snoc)
qed simp

text \<open>
  The contract between the two: a relation of the state to the elements read, kept by every
  accepting step, such that the step accepts exactly the admissible elements. \<open>wf\<close> is what the
  caller has established of the sequence; it holds of prefixes.
\<close>

locale event_checker =
  fixes step :: "'s \<Rightarrow> 'e \<Rightarrow> 'err + 's"
    and init :: 's
    and wf :: "'e list \<Rightarrow> bool"
    and rel :: "'e list \<Rightarrow> 's \<Rightarrow> bool"
    and ok :: "'e list \<Rightarrow> 'e \<Rightarrow> bool"
  assumes rel_init: "rel [] init"
    and wf_prefix: "wf (es @ [e]) \<Longrightarrow> wf es"
    and step_ok: "wf (es @ [e]) \<Longrightarrow> rel es s \<Longrightarrow> step s e = Inr s' \<Longrightarrow> ok es e \<and> rel (es @ [e]) s'"
    and step_err: "wf (es @ [e]) \<Longrightarrow> rel es s \<Longrightarrow> step s e = Inl x \<Longrightarrow> \<not> ok es e"
begin

lemma accepts:
  assumes "wf es"
  shows "(case fold_until step init es of Inl _ \<Rightarrow> \<not> each_after ok es
          | Inr s \<Rightarrow> each_after ok es \<and> rel es s)"
  using assms
proof (induction es rule: rev_induct)
  case Nil
  then show ?case by (simp add: rel_init)
next
  case (snoc e es)
  note IH = snoc.IH [OF wf_prefix [OF snoc.prems]]
  show ?case
  proof (cases "fold_until step init es")
    case (Inl x)
    with IH show ?thesis by (simp add: fold_until_append)
  next
    case (Inr s)
    with IH have r: "each_after ok es" "rel es s" by simp_all
    with Inr show ?thesis
      using step_ok [OF snoc.prems r(2)] step_err [OF snoc.prems r(2)]
      by (auto simp: fold_until_append split: sum.splits)
  qed
qed

lemma accept_iff: "wf es \<Longrightarrow> (\<exists>s. fold_until step init es = Inr s) \<longleftrightarrow> each_after ok es"
  using accepts [of es] by (auto split: sum.splits)

lemma accept_rel: "wf es \<Longrightarrow> fold_until step init es = Inr s \<Longrightarrow> rel es s"
  using accepts [of es] by simp

end

lemma checker_case:
  assumes "ok \<longleftrightarrow> Q" and "\<exists>x. r = (if Q then Inr s else Inl x)" and "Q \<Longrightarrow> R s"
  shows "case r of Inl _ \<Rightarrow> \<not> ok | Inr s' \<Rightarrow> ok \<and> R s'"
  using assms by (cases Q) auto

text \<open>The bare \<^verbatim>\<open>error\<close> result of a fold.\<close>

fun error_of :: "'err + 's \<Rightarrow> 'err option" where
  "error_of (Inl x) = Some x"
| "error_of (Inr s) = None"

lemma error_of_None [simp]: "error_of r = None \<longleftrightarrow> (\<exists>s. r = Inr s)"
  by (cases r) auto

section \<open>Sequences of checks\<close>

text \<open>A run of \<^verbatim>\<open>if err := ...; err != nil { return err }\<close> statements.\<close>

fun first_error :: "'err option list \<Rightarrow> 'err option" where
  "first_error [] = None"
| "first_error (Some e # cs) = Some e"
| "first_error (None # cs) = first_error cs"

definition check_that :: "'err \<Rightarrow> bool \<Rightarrow> 'err option" where
  "check_that e b = (if b then None else Some e)"

lemma first_error_None_iff: "first_error cs = None \<longleftrightarrow> (\<forall>c \<in> set cs. c = None)"
  by (induction cs rule: first_error.induct) auto

lemma first_error_Cons_None [simp]: "first_error (c # cs) = None \<longleftrightarrow> c = None \<and> first_error cs = None"
  by (cases c) auto

lemma first_error_append_None [simp]:
  "first_error (xs @ ys) = None \<longleftrightarrow> first_error xs = None \<and> first_error ys = None"
  by (induction xs rule: first_error.induct) auto

lemma check_that_None [simp]: "check_that e b = None \<longleftrightarrow> b"
  by (simp add: check_that_def)

section \<open>Maps\<close>

abbreviation keys :: "('k \<times> 'v) list \<Rightarrow> 'k set" where
  "keys m \<equiv> fst ` set m"

definition wf_map :: "('k \<times> 'v) list \<Rightarrow> bool" where
  "wf_map m \<longleftrightarrow> distinct (map fst m)"

abbreviation vals :: "('k \<times> 'v) list \<Rightarrow> 'v list" where
  "vals m \<equiv> map snd m"

lemma map_of_update [simp]: "map_of (AList.update k v m) = (map_of m)(k \<mapsto> v)"
  by (rule update_conv')

lemma map_of_delete [simp]: "map_of (AList.delete k m) = (map_of m)(k := None)"
  by (rule delete_conv')

lemma wf_map_Nil [simp]: "wf_map []"
  by (simp add: wf_map_def)

lemma wf_map_update [simp]: "wf_map m \<Longrightarrow> wf_map (AList.update k v m)"
  by (simp add: wf_map_def distinct_update)

lemma wf_map_delete [simp]: "wf_map m \<Longrightarrow> wf_map (AList.delete k m)"
  by (simp add: wf_map_def distinct_delete)

lemma wf_map_filter [simp]: "wf_map m \<Longrightarrow> wf_map (filter P m)"
  by (simp add: wf_map_def distinct_map_filter)

lemma in_keys_iff: "k \<in> keys m \<longleftrightarrow> (\<exists>v. map_of m k = Some v)"
  by (metis map_of_eq_None_iff not_None_eq)

lemma wf_map_in_set: "wf_map m \<Longrightarrow> (k, v) \<in> set m \<longleftrightarrow> map_of m k = Some v"
  by (auto simp: wf_map_def dest: map_of_SomeD)

lemma map_of_filter_wf:
  assumes "wf_map m"
  shows "map_of (filter P m) k = (case map_of m k of None \<Rightarrow> None | Some v \<Rightarrow> if P (k, v) then Some v else None)"
  using assms
proof (induction m)
  case (Cons a m)
  obtain k' v' where a: "a = (k', v')" by (cases a)
  show ?case
  proof (cases "k = k'")
    case True
    with Cons.prems a have "map_of m k = None"
      by (simp add: wf_map_def map_of_eq_None_iff image_iff)
    moreover have "wf_map m" using Cons.prems by (simp add: wf_map_def)
    ultimately show ?thesis using Cons.IH a True by auto
  next
    case False
    with Cons a show ?thesis by (auto simp: wf_map_def)
  qed
qed simp

lemma ex_vals_iff: "wf_map m \<Longrightarrow> (\<exists>v \<in> set (vals m). P v) \<longleftrightarrow> (\<exists>k v. map_of m k = Some v \<and> P v)"
  by (force simp: wf_map_in_set [symmetric])

lemma all_vals_iff: "wf_map m \<Longrightarrow> (\<forall>v \<in> set (vals m). P v) \<longleftrightarrow> (\<forall>k v. map_of m k = Some v \<longrightarrow> P v)"
  by (force simp: wf_map_in_set [symmetric])

lemma length_update_le: "length (AList.update k v m) \<le> Suc (length m)"
  by (induction m) auto

lemma update_new_key: "map_of m k = None \<Longrightarrow> AList.update k v m = m @ [(k, v)]"
  by (induction m) (auto split: if_splits)

lemma find_SomeD: "List.find P xs = Some x \<Longrightarrow> x \<in> set xs \<and> P x"
  by (induction xs) (auto split: if_splits)

section \<open>Strings\<close>

text \<open>
  Strings are lists of bytes. \<^verbatim>\<open>strings.TrimSpace\<close> and \<^verbatim>\<open>strings.Fields\<close> are
  modelled on the ASCII white space; the other Unicode spaces are not.
\<close>

definition is_space :: "char \<Rightarrow> bool" where
  "is_space c \<longleftrightarrow> c \<in> {CHR '' '', CHR 0x09, CHR 0x0A, CHR 0x0B, CHR 0x0C, CHR 0x0D}"

definition trim_space :: "string \<Rightarrow> string" where
  "trim_space s = rev (dropWhile is_space (rev (dropWhile is_space s)))"

definition has_prefix :: "string \<Rightarrow> string \<Rightarrow> bool" where
  "has_prefix s p \<longleftrightarrow> take (length p) s = p"

definition trim_prefix :: "string \<Rightarrow> string \<Rightarrow> string" where
  "trim_prefix p s = (if has_prefix s p then drop (length p) s else s)"

text \<open>\<^verbatim>\<open>strings.Split\<close> on a one-byte separator.\<close>

fun split_on :: "char \<Rightarrow> string \<Rightarrow> string list" where
  "split_on c [] = [[]]"
| "split_on c (x # xs) =
     (if x = c then [] # split_on c xs
      else (case split_on c xs of [] \<Rightarrow> [[x]] | w # ws \<Rightarrow> (x # w) # ws))"

text \<open>\<^verbatim>\<open>strings.Fields\<close>: the maximal runs of non-space bytes.\<close>

function fields :: "string \<Rightarrow> string list" where
  "fields s =
     (let t = dropWhile is_space s in
      if t = [] then [] else takeWhile (\<lambda>c. \<not> is_space c) t # fields (dropWhile (\<lambda>c. \<not> is_space c) t))"
  by pat_completeness auto
termination
proof (relation "measure length", goal_cases)
  case (2 s t)
  obtain a l where t: "t = a # l" using 2(2) by (meson neq_Nil_conv)
  have "\<not> is_space a" using 2(1) t by (metis hd_dropWhile list.distinct(1) list.sel(1))
  then have "length (dropWhile (\<lambda>c. \<not> is_space c) t) \<le> length l"
    using t by (simp add: length_dropWhile_le)
  moreover have "length t \<le> length s" using 2(1) by (simp add: length_dropWhile_le)
  ultimately show ?case using t by simp
qed simp

declare fields.simps [simp del]

lemma has_prefix_append [simp]: "has_prefix (p @ s) p"
  by (simp add: has_prefix_def)

lemma trim_prefix_append [simp]: "trim_prefix p (p @ s) = s"
  by (simp add: trim_prefix_def)

lemma trim_space_Nil [simp]: "trim_space [] = []"
  by (simp add: trim_space_def)

lemma trim_space_idem: "trim_space (trim_space s) = trim_space s"
proof -
  let ?t = "dropWhile is_space (rev (dropWhile is_space s))"
  have h: "dropWhile is_space ?t = ?t" 
    by (cases ?t) (auto dest: dropWhile_eq_Cons_conv [THEN iffD1])
  have "dropWhile is_space (rev ?t) = rev ?t"
  proof (cases "rev ?t")
    case (Cons c cs)
    then have l: "?t \<noteq> []" "c = last ?t" by (auto simp: last_rev dest: arg_cong [of _ _ rev])
    have ne: "dropWhile is_space s \<noteq> []"
    proof
      assume "dropWhile is_space s = []"
      with l(1) show False by (simp only: rev.simps dropWhile.simps)
    qed
    have "last ?t = last (rev (dropWhile is_space s))"
      using l(1) by (metis append_is_Nil_conv last_append takeWhile_dropWhile_id)
    also have "\<dots> = hd (dropWhile is_space s)" using ne by (simp only: last_rev)
    finally have "c = hd (dropWhile is_space s)" using l by simp
    then have "\<not> is_space c" using ne by (metis hd_dropWhile)
    then show ?thesis using Cons by simp
  next
    case Nil
    then show ?thesis by (simp only: dropWhile.simps)
  qed
  then show ?thesis using h by (simp only: trim_space_def rev_rev_ident)
qed

section \<open>Decimal numbers\<close>

definition digit_char :: "nat \<Rightarrow> char" where
  "digit_char d = char_of (48 + d)"

definition is_digit :: "char \<Rightarrow> bool" where
  "is_digit c \<longleftrightarrow> 48 \<le> (of_char c :: nat) \<and> (of_char c :: nat) \<le> 57"

definition digit_val :: "char \<Rightarrow> nat" where
  "digit_val c = of_char c - 48"

text \<open>\<^verbatim>\<open>strconv.Itoa\<close> and \<^verbatim>\<open>%d\<close> on a natural number.\<close>

fun itoa :: "nat \<Rightarrow> string" where
  "itoa n = (if n < 10 then [digit_char n] else itoa (n div 10) @ [digit_char (n mod 10)])"

declare itoa.simps [simp del]

fun digits_val :: "nat \<Rightarrow> string \<Rightarrow> nat" where
  "digits_val acc [] = acc"
| "digits_val acc (c # cs) = digits_val (10 * acc + digit_val c) cs"

definition max_int64 :: int where
  "max_int64 = 9223372036854775807"

definition min_int64 :: int where
  "min_int64 = -9223372036854775808"

definition max_uint64 :: int where
  "max_uint64 = 18446744073709551615"

text \<open>
  \<^verbatim>\<open>strconv.Atoi\<close> on a 64-bit platform: an optional sign, then at least one digit and
  nothing else, in the range of \<^verbatim>\<open>int\<close>.
\<close>

definition atoi :: "string \<Rightarrow> int option" where
  "atoi s =
     (let neg = (s \<noteq> [] \<and> hd s = CHR ''-'');
          body = (if s \<noteq> [] \<and> (hd s = CHR ''-'' \<or> hd s = CHR ''+'') then tl s else s)
      in if body = [] \<or> \<not> list_all is_digit body then None
         else let n = int (digits_val 0 body); v = (if neg then - n else n)
              in if min_int64 \<le> v \<and> v \<le> max_int64 then Some v else None)"

text \<open>\<^verbatim>\<open>strconv.ParseUint(s, 10, 64)\<close>.\<close>

definition parse_uint64 :: "string \<Rightarrow> nat option" where
  "parse_uint64 s =
     (if s = [] \<or> \<not> list_all is_digit s then None
      else let n = digits_val 0 s in if int n \<le> max_uint64 then Some n else None)"

lemma digit_char_props [simp]:
  assumes "d < 10"
  shows "is_digit (digit_char d)" "digit_val (digit_char d) = d"
proof -
  have "(of_char (digit_char d) :: nat) = 48 + d"
    using assms by (simp add: digit_char_def of_char_of)
  then show "is_digit (digit_char d)" "digit_val (digit_char d) = d"
    using assms by (simp_all add: is_digit_def digit_val_def)
qed

lemma digits_val_append: "digits_val acc (xs @ ys) = digits_val (digits_val acc xs) ys"
  by (induction xs arbitrary: acc) auto

lemma itoa_nonempty [simp]: "itoa n \<noteq> []"
  by (subst itoa.simps) simp

lemma itoa_digits [simp]: "list_all is_digit (itoa n)"
proof (induction n rule: itoa.induct)
  case (1 n)
  then show ?case by (subst itoa.simps) auto
qed

lemma digits_val_itoa [simp]: "digits_val 0 (itoa n) = n"
proof (induction n rule: itoa.induct)
  case (1 n)
  then show ?case by (subst itoa.simps) (auto simp: digits_val_append)
qed

lemma itoa_inj [simp]: "itoa m = itoa n \<longleftrightarrow> m = n"
  by (metis digits_val_itoa)

lemma hd_itoa_digit: "is_digit (hd (itoa n))"
  using itoa_digits [of n] by (cases "itoa n") auto

lemma hd_itoa_sign [simp]: "hd (itoa n) \<noteq> CHR ''-''" "hd (itoa n) \<noteq> CHR ''+''"
proof -
  show "hd (itoa n) \<noteq> CHR ''-''"
  proof
    assume "hd (itoa n) = CHR ''-''"
    with hd_itoa_digit [of n] show False by (simp add: is_digit_def)
  qed
  show "hd (itoa n) \<noteq> CHR ''+''"
  proof
    assume "hd (itoa n) = CHR ''+''"
    with hd_itoa_digit [of n] show False by (simp add: is_digit_def)
  qed
qed

lemma atoi_itoa: "int n \<le> max_int64 \<Longrightarrow> atoi (itoa n) = Some (int n)"
  by (simp add: atoi_def min_int64_def Let_def)

lemma parse_uint64_itoa: "int n \<le> max_uint64 \<Longrightarrow> parse_uint64 (itoa n) = Some n"
  by (simp add: parse_uint64_def)

end
