(* ===== verification/Json.thy ===== *)
theory Json
  imports Go_Prelude Complex_Main
begin

text \<open>
  The part of \<^verbatim>\<open>encoding/json\<close> the sources use. A payload (\<^verbatim>\<open>json.RawMessage\<close>) is
  \<^const>\<open>None\<close> when its bytes are not valid JSON and the parsed value otherwise.

  \<^item> \<open>jget\<close> is the lookup in a decoded \<^verbatim>\<open>map[string]any\<close>: of repeated keys the last
    one counts.
  \<^item> The \<open>dec_\<close> functions decode one struct field: \<^const>\<open>None\<close> is a type error, an absent
    key or \<^verbatim>\<open>null\<close> leaves the zero value.
  \<^item> Numbers keep the distinction the decoder makes: an integer literal decodes into
    \<^verbatim>\<open>int\<close> and \<^verbatim>\<open>uint64\<close> fields, a literal with a fraction or an exponent does not. Read as
    \<^verbatim>\<open>float64\<close> both are rationals; the rounding of integers beyond \<open>2 ^ 53\<close> is not
    modelled.
\<close>

datatype json =
    JNull
  | JBool bool
  | JInt int
  | JDec rat
  | JStr string
  | JArr "json list"
  | JObj "(string \<times> json) list"

type_synonym jobject = "(string \<times> json) list"
type_synonym 'a decoder = "json option \<Rightarrow> 'a option"

definition jget :: "jobject \<Rightarrow> string \<Rightarrow> json option" where
  "jget o1 k = map_of (rev o1) k"

text \<open>
  \<open>jfield\<close> is the lookup of a struct field: the decoder compares keys without regard to case
  (on the ASCII letters), and again the last matching key counts.
\<close>

fun to_lower :: "char \<Rightarrow> char" where
  "to_lower (Char b0 b1 b2 b3 b4 b5 b6 b7) =
     (if b6 \<and> \<not> b5 \<and> \<not> b7 \<and> (b0 \<or> b1 \<or> b2 \<or> b3 \<or> b4) \<and> \<not> (b4 \<and> b3 \<and> (b2 \<or> b1 \<and> b0))
      then Char b0 b1 b2 b3 b4 True b6 b7 else Char b0 b1 b2 b3 b4 b5 b6 b7)"

definition jfield :: "jobject \<Rightarrow> string \<Rightarrow> json option" where
  "jfield o1 k = map_of (rev (map (\<lambda>(k', v). (map to_lower k', v)) o1)) (map to_lower k)"

lemma jfield_Nil [simp]: "jfield [] k = None"
  by (simp add: jfield_def)

lemma jfield_in_set: "jfield o1 k = Some v \<Longrightarrow> \<exists>k'. (k', v) \<in> set o1"
  by (auto simp: jfield_def dest!: map_of_SomeD)

lemma size_JObj: "(k, v) \<in> set o1 \<Longrightarrow> size v < size (JObj o1)"
  by (induction o1) auto

lemma size_JArr: "x \<in> set xs \<Longrightarrow> size x < size (JArr xs)"
  by (induction xs) auto

lemma jfield_size: "jfield o1 k = Some v \<Longrightarrow> size v < size (JObj o1)"
  using jfield_in_set size_JObj by blast

section \<open>Struct fields\<close>

fun dec_string :: "string decoder" where
  "dec_string None = Some []"
| "dec_string (Some JNull) = Some []"
| "dec_string (Some (JStr s)) = Some s"
| "dec_string (Some _) = None"

fun dec_bool :: "bool decoder" where
  "dec_bool None = Some False"
| "dec_bool (Some JNull) = Some False"
| "dec_bool (Some (JBool b)) = Some b"
| "dec_bool (Some _) = None"

fun dec_int :: "int decoder" where
  "dec_int None = Some 0"
| "dec_int (Some JNull) = Some 0"
| "dec_int (Some (JInt i)) = (if min_int64 \<le> i \<and> i \<le> max_int64 then Some i else None)"
| "dec_int (Some _) = None"

fun dec_uint64 :: "nat decoder" where
  "dec_uint64 None = Some 0"
| "dec_uint64 (Some JNull) = Some 0"
| "dec_uint64 (Some (JInt i)) = (if 0 \<le> i \<and> i \<le> max_uint64 then Some (nat i) else None)"
| "dec_uint64 (Some _) = None"

text \<open>An \<^verbatim>\<open>any\<close> field: never a type error; \<^verbatim>\<open>nil\<close> for an absent key or null.\<close>

fun dec_any :: "json option decoder" where
  "dec_any None = Some None"
| "dec_any (Some JNull) = Some None"
| "dec_any (Some v) = Some (Some v)"

fun dec_ptr :: "'a decoder \<Rightarrow> 'a option decoder" where
  "dec_ptr d None = Some None"
| "dec_ptr d (Some JNull) = Some None"
| "dec_ptr d (Some v) = map_option Some (d (Some v))"

fun dec_slice :: "'a decoder \<Rightarrow> 'a list decoder" where
  "dec_slice d None = Some []"
| "dec_slice d (Some JNull) = Some []"
| "dec_slice d (Some (JArr xs)) = those (map (\<lambda>x. d (Some x)) xs)"
| "dec_slice d (Some _) = None"

fun dec_struct :: "(jobject \<Rightarrow> 'a option) \<Rightarrow> 'a decoder" where
  "dec_struct f None = f []"
| "dec_struct f (Some JNull) = f []"
| "dec_struct f (Some (JObj o1)) = f o1"
| "dec_struct f (Some _) = None"

text \<open>A \<^verbatim>\<open>map[string]string\<close> field.\<close>

fun dec_string_map :: "(string \<times> string) list decoder" where
  "dec_string_map None = Some []"
| "dec_string_map (Some JNull) = Some []"
| "dec_string_map (Some (JObj o1)) =
     those (map (\<lambda>(k, v). map_option (Pair k) (dec_string (Some v))) o1)"
| "dec_string_map (Some _) = None"

section \<open>Whole payloads\<close>

text \<open>\<^verbatim>\<open>json.Unmarshal(raw, &s)\<close> for a struct \<open>s\<close>; \<^const>\<open>None\<close> is a non-nil error.\<close>

fun unmarshal_struct :: "(jobject \<Rightarrow> 'a option) \<Rightarrow> json option \<Rightarrow> 'a option" where
  "unmarshal_struct f None = None"
| "unmarshal_struct f (Some v) = dec_struct f (Some v)"

text \<open>
  \<^verbatim>\<open>json.Unmarshal(raw, &m)\<close> for a \<^verbatim>\<open>map[string]any\<close>: null gives the nil map, in which
  every lookup fails.
\<close>

fun unmarshal_map :: "json option \<Rightarrow> jobject option" where
  "unmarshal_map (Some (JObj o1)) = Some o1"
| "unmarshal_map (Some JNull) = Some []"
| "unmarshal_map _ = None"

section \<open>Values of type any\<close>

fun as_string :: "json option \<Rightarrow> string option" where
  "as_string (Some (JStr s)) = Some s"
| "as_string _ = None"

text \<open>\<^verbatim>\<open>s, _ := v.(string)\<close>: the empty string when the assertion fails.\<close>

definition string_or_empty :: "json option \<Rightarrow> string" where
  "string_or_empty v = (case as_string v of None \<Rightarrow> [] | Some s \<Rightarrow> s)"

fun as_object :: "json option \<Rightarrow> jobject option" where
  "as_object (Some (JObj o1)) = Some o1"
| "as_object _ = None"

text \<open>\<^verbatim>\<open>m, _ := v.(map[string]any)\<close>: the nil map when the assertion fails.\<close>

definition object_or_nil :: "json option \<Rightarrow> jobject" where
  "object_or_nil v = (case as_object v of None \<Rightarrow> [] | Some o1 \<Rightarrow> o1)"

fun as_float :: "json option \<Rightarrow> rat option" where
  "as_float (Some (JInt i)) = Some (of_int i)"
| "as_float (Some (JDec r)) = Some r"
| "as_float _ = None"

definition trunc :: "rat \<Rightarrow> int" where
  "trunc r = (if 0 \<le> r then \<lfloor>r\<rfloor> else \<lceil>r\<rceil>)"

text \<open>
  \<^verbatim>\<open>int(x)\<close> for a \<^verbatim>\<open>float64\<close>: truncation, and the smallest integer out of range (the
  language leaves that case to the implementation; this is what amd64 does).
\<close>

definition int_of_float :: "rat \<Rightarrow> int" where
  "int_of_float r = (let t = trunc r in if min_int64 \<le> t \<and> t \<le> max_int64 then t else min_int64)"

lemma trunc_of_int [simp]: "trunc (of_int i) = i"
  by (simp add: trunc_def)

lemma int_of_float_of_int [simp]:
  "min_int64 \<le> i \<Longrightarrow> i \<le> max_int64 \<Longrightarrow> int_of_float (of_int i) = i"
  by (simp add: int_of_float_def)

lemma dec_uint64_le: "dec_uint64 v = Some n \<Longrightarrow> int n \<le> max_uint64"
  by (induction v rule: dec_uint64.induct) (auto simp: max_uint64_def split: if_splits)

lemma jget_Nil [simp]: "jget [] k = None"
  by (simp add: jget_def)

lemma jget_append: "jget (a @ b) k = (case jget b k of Some v \<Rightarrow> Some v | None \<Rightarrow> jget a k)"
  by (simp add: jget_def map_add_def split: option.split)

lemma jget_Cons:
  "jget ((k', v) # o1) k = (case jget o1 k of Some w \<Rightarrow> Some w | None \<Rightarrow> if k = k' then Some v else None)"
  using jget_append [of "[(k', v)]" o1 k] by (auto simp: jget_def split: option.splits)

section \<open>Encoding a struct\<close>

text \<open>Fields tagged \<^verbatim>\<open>omitempty\<close>.\<close>

definition omit_string :: "string \<Rightarrow> string \<Rightarrow> jobject" where
  "omit_string k s = (if s = [] then [] else [(k, JStr s)])"

definition omit_bool :: "string \<Rightarrow> bool \<Rightarrow> jobject" where
  "omit_bool k b = (if b then [(k, JBool True)] else [])"

definition omit_int :: "string \<Rightarrow> int \<Rightarrow> jobject" where
  "omit_int k i = (if i = 0 then [] else [(k, JInt i)])"

definition same_field :: "string \<Rightarrow> string \<Rightarrow> bool" where
  "same_field k k' \<longleftrightarrow> map to_lower k = map to_lower k'"

lemma jfield_append:
  "jfield (a @ b) k = (case jfield b k of Some v \<Rightarrow> Some v | None \<Rightarrow> jfield a k)"
  by (simp add: jfield_def map_add_def split: option.split)

lemma jfield_single: "jfield [(k', v)] k = (if same_field k' k then Some v else None)"
  by (simp add: jfield_def same_field_def eq_commute)

lemma jfield_Cons:
  "jfield ((k', v) # o1) k = (case jfield o1 k of Some w \<Rightarrow> Some w | None \<Rightarrow> if same_field k' k then Some v else None)"
  using jfield_append [of "[(k', v)]" o1 k] unfolding jfield_single by simp

lemma jfield_omit_string:
  "jfield (omit_string k' s) k = (if same_field k' k \<and> s \<noteq> [] then Some (JStr s) else None)"
  by (simp add: omit_string_def jfield_single)

lemma jfield_omit_bool:
  "jfield (omit_bool k' b) k = (if same_field k' k \<and> b then Some (JBool True) else None)"
  by (simp add: omit_bool_def jfield_single)

lemma jfield_omit_int:
  "jfield (omit_int k' i) k = (if same_field k' k \<and> i \<noteq> 0 then Some (JInt i) else None)"
  by (simp add: omit_int_def jfield_single)

lemmas jfield_encode = jfield_append jfield_Cons jfield_omit_string jfield_omit_bool jfield_omit_int

lemma jget_single: "jget [(k', v)] k = (if k = k' then Some v else None)"
  by (simp add: jget_def)

lemma jget_omit_string: "jget (omit_string k' s) k = (if k = k' \<and> s \<noteq> [] then Some (JStr s) else None)"
  by (simp add: omit_string_def jget_single)

lemma jget_omit_bool: "jget (omit_bool k' b) k = (if k = k' \<and> b then Some (JBool True) else None)"
  by (simp add: omit_bool_def jget_single)

lemma jget_omit_int: "jget (omit_int k' i) k = (if k = k' \<and> i \<noteq> 0 then Some (JInt i) else None)"
  by (simp add: omit_int_def jget_single)

lemmas jget_encode = jget_append jget_Cons jget_omit_string jget_omit_bool jget_omit_int

lemma dec_omitted [simp]:
  "dec_string (if s = [] then None else Some (JStr s)) = Some s"
  "dec_string (if s \<noteq> [] then Some (JStr s) else None) = Some s"
  "dec_bool (if b then Some (JBool True) else None) = Some b"
  by auto

definition in_int64 :: "int \<Rightarrow> bool" where
  "in_int64 i \<longleftrightarrow> min_int64 \<le> i \<and> i \<le> max_int64"

lemma dec_int_JInt [simp]: "in_int64 i \<Longrightarrow> dec_int (Some (JInt i)) = Some i"
  by (simp add: in_int64_def)

lemma those_map_Some: "(\<And>x. x \<in> set xs \<Longrightarrow> f x = Some (g x)) \<Longrightarrow> those (map f xs) = Some (map g xs)"
  by (induction xs) auto

end
