(* ===== verification/Event_Model.thy ===== *)
theory Event_Model
  imports Json
begin

text \<open>
  The row of the session log (\<^verbatim>\<open>internal/session/session.go\<close>): its discriminators, its
  fields and its positions. A discriminator is a string in the source; here each
  literal the code compares against is a constructor, and \<open>EventOther\<close> carries every other
  string.
\<close>

datatype (plugins only: size code) event_type =
    EventTurnStart | EventTurnEnd | EventStepStart | EventStepEnd
  | EventRequestHeader | EventRequestContext | EventSteeringMessage | EventTodoWrite
  | EventLLMRequestEnd | EventLLMRetry | EventLLMRetryStarted
  | EventUserMessage | EventAssistantChunk | EventAssistantReasoning | EventAssistantMessage
  | EventSessionTitle | EventToolCall | EventToolResult | EventLegacyToolError
  | EventFeedbackRecord | EventCommandRun | EventCommandDone
  | EventToolWorkflowRunStart | EventToolWorkflowAgentStart
  | EventToolWorkflowAgentEnd | EventToolWorkflowRunEnd
  | EventGoalRoundStart | EventGoalRoundEnd
  | EventPlanCreate | EventPlanUpdate | EventPlanDelete | EventPlanStatus | EventPlanList
  | EventPlanMode
  | EventInteractRequest | EventInteractResolve | EventInteractCancel
  | EventApprovalAsked | EventApprovalDecided | EventApprovalPolicy
  | EventPermissionPreset | EventSandboxMode
  | EventAgentInboxSpliced
  | EventTeamMember | EventTeamTask | EventTeamMessageQueued | EventTeamMessageDelivered
  | EventOther string

text \<open>The literals of the \<^verbatim>\<open>const\<close> block.\<close>

primrec event_literal :: "event_type \<Rightarrow> string" where
  "event_literal EventTurnStart = ''turn/start''"
| "event_literal EventTurnEnd = ''turn/end''"
| "event_literal EventStepStart = ''step/start''"
| "event_literal EventStepEnd = ''step/end''"
| "event_literal EventRequestHeader = ''request/header''"
| "event_literal EventRequestContext = ''request/context''"
| "event_literal EventSteeringMessage = ''steering/message''"
| "event_literal EventTodoWrite = ''todo/write''"
| "event_literal EventLLMRequestEnd = ''llm/request_end''"
| "event_literal EventLLMRetry = ''llm/retry''"
| "event_literal EventLLMRetryStarted = ''llm/retry-started''"
| "event_literal EventUserMessage = ''user/message''"
| "event_literal EventAssistantChunk = ''assistant/chunk''"
| "event_literal EventAssistantReasoning = ''assistant/reasoning''"
| "event_literal EventAssistantMessage = ''assistant/message''"
| "event_literal EventSessionTitle = ''session/title''"
| "event_literal EventToolCall = ''tool/call''"
| "event_literal EventToolResult = ''tool/result''"
| "event_literal EventLegacyToolError = ''tool/error''"
| "event_literal EventFeedbackRecord = ''feedback/record''"
| "event_literal EventCommandRun = ''command/run''"
| "event_literal EventCommandDone = ''command/done''"
| "event_literal EventToolWorkflowRunStart = ''tool-workflow/run-start''"
| "event_literal EventToolWorkflowAgentStart = ''tool-workflow/agent-start''"
| "event_literal EventToolWorkflowAgentEnd = ''tool-workflow/agent-end''"
| "event_literal EventToolWorkflowRunEnd = ''tool-workflow/run-end''"
| "event_literal EventGoalRoundStart = ''goal/round_start''"
| "event_literal EventGoalRoundEnd = ''goal/round_end''"
| "event_literal EventPlanCreate = ''plan/create''"
| "event_literal EventPlanUpdate = ''plan/update''"
| "event_literal EventPlanDelete = ''plan/delete''"
| "event_literal EventPlanStatus = ''plan/status''"
| "event_literal EventPlanList = ''plan/list''"
| "event_literal EventPlanMode = ''plan/mode''"
| "event_literal EventInteractRequest = ''interact/request''"
| "event_literal EventInteractResolve = ''interact/resolve''"
| "event_literal EventInteractCancel = ''interact/cancel''"
| "event_literal EventApprovalAsked = ''approval/asked''"
| "event_literal EventApprovalDecided = ''approval/decided''"
| "event_literal EventApprovalPolicy = ''approval/policy''"
| "event_literal EventPermissionPreset = ''permission/preset''"
| "event_literal EventSandboxMode = ''sandbox/mode''"
| "event_literal EventAgentInboxSpliced = ''agent/inbox/spliced''"
| "event_literal EventTeamMember = ''team/member''"
| "event_literal EventTeamTask = ''team/task''"
| "event_literal EventTeamMessageQueued = ''team/message/queued''"
| "event_literal EventTeamMessageDelivered = ''team/message/delivered''"
| "event_literal (EventOther s) = s"

record event =
  ev_Seq :: nat
  ev_Type :: event_type
  ev_At :: go_time
  ev_Version :: int
  ev_Data :: "json option"

definition EventVersion :: int where
  "EventVersion = 1"

text \<open>\<^verbatim>\<open>isSurfaceEventType\<close>\<close>

definition isSurfaceEventType :: "event_type \<Rightarrow> bool" where
  "isSurfaceEventType t \<longleftrightarrow> t \<in> {EventUserMessage, EventAssistantMessage, EventToolResult}"

text \<open>\<^verbatim>\<open>lifecycleObject\<close>: the payload as an object; null and every other value are errors.\<close>

definition lifecycleObject :: "json option \<Rightarrow> jobject option" where
  "lifecycleObject raw = as_object raw"

section \<open>Sequence numbers\<close>

text \<open>The rows of a log carry contiguous positions, starting where the namespace starts.\<close>

fun contiguous_from :: "nat \<Rightarrow> event list \<Rightarrow> bool" where
  "contiguous_from n [] = True"
| "contiguous_from n (e # es) = (ev_Seq e = n \<and> contiguous_from (Suc n) es)"

lemma contiguous_from_append:
  "contiguous_from n (xs @ ys) \<longleftrightarrow> contiguous_from n xs \<and> contiguous_from (n + length xs) ys"
  by (induction xs arbitrary: n) auto

lemma contiguous_from_nth:
  "contiguous_from n es \<Longrightarrow> i < length es \<Longrightarrow> ev_Seq (es ! i) = n + i"
  by (induction es arbitrary: n i) (auto simp: nth_Cons split: nat.splits)

lemma contiguous_from_distinct:
  assumes "contiguous_from n es"
  shows "distinct (map ev_Seq es)"
proof -
  have "map ev_Seq es = [n..<n + length es]"
    using assms by (intro nth_equalityI) (auto simp: contiguous_from_nth)
  then show ?thesis by simp
qed

lemma contiguous_from_last:
  assumes "contiguous_from n es" and "es \<noteq> []"
  shows "Suc (ev_Seq (last es)) = n + length es"
  using contiguous_from_nth [OF assms(1), of "length es - 1"] assms(2)
  by (cases es) (auto simp: last_conv_nth)

lemma contiguous_from_Seq_inj:
  assumes "contiguous_from n es" and "e \<in> set es" and "e' \<in> set es" and "ev_Seq e = ev_Seq e'"
  shows "e = e'"
  using assms contiguous_from_nth by (fastforce simp: in_set_conv_nth)

lemma contiguous_from_less:
  "contiguous_from n es \<Longrightarrow> e \<in> set es \<Longrightarrow> n \<le> ev_Seq e \<and> ev_Seq e < n + length es"
  by (auto simp: in_set_conv_nth contiguous_from_nth)

text \<open>A log is contiguous in one of the two namespaces the readers accept.\<close>

definition contiguous :: "event list \<Rightarrow> bool" where
  "contiguous es \<longleftrightarrow> (\<exists>n. contiguous_from n es)"

lemma contiguous_prefix: "contiguous (es @ fs) \<Longrightarrow> contiguous es"
  by (auto simp: contiguous_def contiguous_from_append)

lemma contiguous_snoc_less: "contiguous (es @ [e]) \<Longrightarrow> p \<in> set es \<Longrightarrow> ev_Seq p < ev_Seq e"
  by (auto simp: contiguous_def contiguous_from_append dest: contiguous_from_less)

lemma contiguous_Seq_inj:
  "contiguous es \<Longrightarrow> e \<in> set es \<Longrightarrow> e' \<in> set es \<Longrightarrow> ev_Seq e = ev_Seq e' \<Longrightarrow> e = e'"
  by (auto simp: contiguous_def intro: contiguous_from_Seq_inj)

text \<open>The index of a contiguous log by position, as the checkers build it.\<close>

lemma bySeq_snoc:
  assumes "contiguous (es @ [ev])"
    and "\<And>q e. map_of m q = Some e \<longleftrightarrow> e \<in> set es \<and> ev_Seq e = q"
  shows "map_of (AList.update (ev_Seq ev) ev m) q = Some e \<longleftrightarrow> e \<in> set (es @ [ev]) \<and> ev_Seq e = q"
  by (cases "q = ev_Seq ev") (auto simp: assms(2) dest: contiguous_snoc_less [OF assms(1)])

definition index_by_seq :: "event list \<Rightarrow> (nat \<times> event) list" where
  "index_by_seq es = fold (\<lambda>e m. AList.update (ev_Seq e) e m) es []"

lemma index_by_seq_iff:
  "contiguous es \<Longrightarrow> map_of (index_by_seq es) q = Some e \<longleftrightarrow> e \<in> set es \<and> ev_Seq e = q"
proof (induction es arbitrary: q e rule: rev_induct)
  case Nil
  then show ?case by (simp add: index_by_seq_def)
next
  case (snoc ev es)
  have "map_of (index_by_seq es) q = Some e \<longleftrightarrow> e \<in> set es \<and> ev_Seq e = q" for q e
    using snoc.IH [of q e] contiguous_prefix [OF snoc.prems] by simp
  from bySeq_snoc [OF snoc.prems this] show ?case
    by (simp add: index_by_seq_def)
qed

end
