(* ===== verification/Session_Commands.thy ===== *)
theory Session_Commands
  imports Event_Model
begin

text \<open>
  \<^verbatim>\<open>validateCommandLifecycle\<close> of \<^verbatim>\<open>internal/session/lifecycle.go\<close>: a command/run row
  reserves a command id, one command/done row may settle it and may cite an earlier row that is
  not a command row itself. The checker is one fold over the log; \<open>command_row_ok\<close> is what
  it promises of each row, and the theory proves that it accepts exactly the logs whose every row
  keeps the promise.
\<close>

datatype command_error =
    ErrRunMalformed nat | ErrRunFields nat | ErrRunRepeats string
  | ErrDoneMalformed nat | ErrDoneId nat | ErrDoneKind nat string
  | ErrDoneUnmatched nat string | ErrDoneRepeats string
  | ErrSourceOnError nat | ErrSourceNotEarlier nat nat
  | ErrSourceMissing nat nat | ErrSourceIsCommand nat nat

record commandRunData =
  cr_CommandID :: string
  cr_Name :: string
  cr_Args :: string
  cr_Source :: "(string \<times> string) list"

record commandDoneData =
  cd_CommandID :: string
  cd_Kind :: string
  cd_Text :: string
  cd_SourceEventSeq :: "nat option"

definition dec_commandRun :: "jobject \<Rightarrow> commandRunData option" where
  "dec_commandRun o1 = do {
     i \<leftarrow> dec_string (jfield o1 ''commandId'');
     n \<leftarrow> dec_string (jfield o1 ''name'');
     a \<leftarrow> dec_string (jfield o1 ''args'');
     s \<leftarrow> dec_string_map (jfield o1 ''source'');
     Some \<lparr>cr_CommandID = i, cr_Name = n, cr_Args = a, cr_Source = s\<rparr> }"

definition dec_commandDone :: "jobject \<Rightarrow> commandDoneData option" where
  "dec_commandDone o1 = do {
     i \<leftarrow> dec_string (jfield o1 ''commandId'');
     k \<leftarrow> dec_string (jfield o1 ''kind'');
     t \<leftarrow> dec_string (jfield o1 ''text'');
     q \<leftarrow> dec_ptr dec_uint64 (jfield o1 ''sourceEventSeq'');
     Some \<lparr>cd_CommandID = i, cd_Kind = k, cd_Text = t, cd_SourceEventSeq = q\<rparr> }"

record command_state =
  cl_runs :: "(string \<times> event) list"
  cl_dones :: "(string \<times> event) list"
  cl_bySeq :: "(nat \<times> event) list"

definition is_command_type :: "event_type \<Rightarrow> bool" where
  "is_command_type t \<longleftrightarrow> t = EventCommandRun \<or> t = EventCommandDone"

definition command_source_error :: "(nat \<times> event) list \<Rightarrow> event \<Rightarrow> commandDoneData \<Rightarrow> command_error option" where
  "command_source_error bySeq ev d =
     (case cd_SourceEventSeq d of
        None \<Rightarrow> None
      | Some sourceSeq \<Rightarrow>
          if cd_Kind d \<noteq> ''success'' then Some (ErrSourceOnError (ev_Seq ev))
          else if sourceSeq \<ge> ev_Seq ev then Some (ErrSourceNotEarlier (ev_Seq ev) sourceSeq)
          else (case map_of bySeq sourceSeq of
                  None \<Rightarrow> Some (ErrSourceMissing (ev_Seq ev) sourceSeq)
                | Some source \<Rightarrow>
                    check_that (ErrSourceIsCommand (ev_Seq ev) sourceSeq)
                      (\<not> is_command_type (ev_Type source))))"

definition command_run_step :: "command_state \<Rightarrow> event \<Rightarrow> command_error + command_state" where
  "command_run_step s ev =
     (case unmarshal_struct dec_commandRun (ev_Data ev) of
        None \<Rightarrow> Inl (ErrRunMalformed (ev_Seq ev))
      | Some d \<Rightarrow>
          if cr_CommandID d = [] \<or> cr_Name d = [] then Inl (ErrRunFields (ev_Seq ev))
          else if map_of (cl_runs s) (cr_CommandID d) \<noteq> None then Inl (ErrRunRepeats (cr_CommandID d))
          else Inr (s\<lparr>cl_runs := AList.update (cr_CommandID d) ev (cl_runs s)\<rparr>))"

definition command_done_step :: "command_state \<Rightarrow> event \<Rightarrow> command_error + command_state" where
  "command_done_step s ev =
     (case unmarshal_struct dec_commandDone (ev_Data ev) of
        None \<Rightarrow> Inl (ErrDoneMalformed (ev_Seq ev))
      | Some d \<Rightarrow>
          if cd_CommandID d = [] then Inl (ErrDoneId (ev_Seq ev))
          else if cd_Kind d \<noteq> ''success'' \<and> cd_Kind d \<noteq> ''error''
          then Inl (ErrDoneKind (ev_Seq ev) (cd_Kind d))
          else if map_of (cl_runs s) (cd_CommandID d) = None
          then Inl (ErrDoneUnmatched (ev_Seq ev) (cd_CommandID d))
          else if map_of (cl_dones s) (cd_CommandID d) \<noteq> None
          then Inl (ErrDoneRepeats (cd_CommandID d))
          else (case command_source_error (cl_bySeq s) ev d of
                  Some x \<Rightarrow> Inl x
                | None \<Rightarrow> Inr (s\<lparr>cl_dones := AList.update (cd_CommandID d) ev (cl_dones s)\<rparr>)))"

definition command_step :: "command_state \<Rightarrow> event \<Rightarrow> command_error + command_state" where
  "command_step s ev =
     (let s = s\<lparr>cl_bySeq := AList.update (ev_Seq ev) ev (cl_bySeq s)\<rparr>
      in if ev_Type ev = EventCommandRun then command_run_step s ev
         else if ev_Type ev = EventCommandDone then command_done_step s ev
         else Inr s)"

definition command_init :: command_state where
  "command_init = \<lparr>cl_runs = [], cl_dones = [], cl_bySeq = []\<rparr>"

definition validateCommandLifecycle :: "event list \<Rightarrow> command_error option" where
  "validateCommandLifecycle es = error_of (fold_until command_step command_init es)"

section \<open>What the checker promises\<close>

definition runs_command :: "event \<Rightarrow> string \<Rightarrow> bool" where
  "runs_command e i \<longleftrightarrow> ev_Type e = EventCommandRun \<and>
     (\<exists>d. unmarshal_struct dec_commandRun (ev_Data e) = Some d \<and> cr_CommandID d = i)"

definition settles_command :: "event \<Rightarrow> string \<Rightarrow> bool" where
  "settles_command e i \<longleftrightarrow> ev_Type e = EventCommandDone \<and>
     (\<exists>d. unmarshal_struct dec_commandDone (ev_Data e) = Some d \<and> cd_CommandID d = i)"

definition command_run_ok :: "event list \<Rightarrow> event \<Rightarrow> bool" where
  "command_run_ok pre e \<longleftrightarrow>
     (\<exists>d. unmarshal_struct dec_commandRun (ev_Data e) = Some d \<and> cr_CommandID d \<noteq> [] \<and> cr_Name d \<noteq> [] \<and>
          (\<forall>p \<in> set pre. \<not> runs_command p (cr_CommandID d)))"

definition command_done_ok :: "event list \<Rightarrow> event \<Rightarrow> bool" where
  "command_done_ok pre e \<longleftrightarrow>
     (\<exists>d. unmarshal_struct dec_commandDone (ev_Data e) = Some d \<and> cd_CommandID d \<noteq> [] \<and>
          cd_Kind d \<in> {''success'', ''error''} \<and>
          (\<exists>p \<in> set pre. runs_command p (cd_CommandID d)) \<and>
          (\<forall>p \<in> set pre. \<not> settles_command p (cd_CommandID d)) \<and>
          (\<forall>q. cd_SourceEventSeq d = Some q \<longrightarrow>
               cd_Kind d = ''success'' \<and>
               (\<exists>p \<in> set pre. ev_Seq p = q \<and> \<not> is_command_type (ev_Type p))))"

definition command_row_ok :: "event list \<Rightarrow> event \<Rightarrow> bool" where
  "command_row_ok pre e \<longleftrightarrow>
     (ev_Type e = EventCommandRun \<longrightarrow> command_run_ok pre e) \<and>
     (ev_Type e = EventCommandDone \<longrightarrow> command_done_ok pre e)"

definition command_rel :: "event list \<Rightarrow> command_state \<Rightarrow> bool" where
  "command_rel es s \<longleftrightarrow>
     (\<forall>i. map_of (cl_runs s) i = None \<longleftrightarrow> (\<forall>e \<in> set es. \<not> runs_command e i)) \<and>
     (\<forall>i. map_of (cl_dones s) i = None \<longleftrightarrow> (\<forall>e \<in> set es. \<not> settles_command e i)) \<and>
     (\<forall>q e. map_of (cl_bySeq s) q = Some e \<longleftrightarrow> e \<in> set es \<and> ev_Seq e = q)"

section \<open>The checker keeps its promise\<close>

lemma command_relD:
  assumes "command_rel es s"
  shows "map_of (cl_runs s) i = None \<longleftrightarrow> (\<forall>e \<in> set es. \<not> runs_command e i)"
    and "map_of (cl_dones s) i = None \<longleftrightarrow> (\<forall>e \<in> set es. \<not> settles_command e i)"
    and "map_of (cl_bySeq s) q = Some e \<longleftrightarrow> e \<in> set es \<and> ev_Seq e = q"
  using assms by (simp_all add: command_rel_def)

lemma command_relI:
  assumes "\<And>i. map_of (cl_runs s) i = None \<longleftrightarrow> (\<forall>e \<in> set es. \<not> runs_command e i)"
    and "\<And>i. map_of (cl_dones s) i = None \<longleftrightarrow> (\<forall>e \<in> set es. \<not> settles_command e i)"
    and "\<And>q e. map_of (cl_bySeq s) q = Some e \<longleftrightarrow> e \<in> set es \<and> ev_Seq e = q"
  shows "command_rel es s"
  using assms by (simp add: command_rel_def)

lemma command_rel_bySeq:
  assumes "contiguous (es @ [ev])" and "command_rel es s"
  shows "map_of (AList.update (ev_Seq ev) ev (cl_bySeq s)) q = Some e \<longleftrightarrow> e \<in> set (es @ [ev]) \<and> ev_Seq e = q"
  by (rule bySeq_snoc [OF assms(1)]) (use assms(2) in \<open>simp add: command_rel_def\<close>)

lemma command_source_ok:
  assumes wf: "contiguous (es @ [ev])" and rel: "command_rel es s"
  shows "command_source_error (AList.update (ev_Seq ev) ev (cl_bySeq s)) ev d = None \<longleftrightarrow>
     (\<forall>q. cd_SourceEventSeq d = Some q \<longrightarrow> cd_Kind d = ''success'' \<and>
          (\<exists>p \<in> set es. ev_Seq p = q \<and> \<not> is_command_type (ev_Type p)))"
proof (cases "cd_SourceEventSeq d")
  case (Some q)
  let ?m = "AList.update (ev_Seq ev) ev (cl_bySeq s)"
  have m: "map_of ?m q = Some e \<longleftrightarrow> e \<in> set (es @ [ev]) \<and> ev_Seq e = q" for q e
    by (rule command_rel_bySeq [OF wf rel])
  have less: "p \<in> set es \<Longrightarrow> ev_Seq p < ev_Seq ev" for p
    using contiguous_snoc_less [OF wf] .
  show ?thesis
  proof (cases "q < ev_Seq ev \<and> cd_Kind d = ''success''")
    case False
    with Some less show ?thesis by (force simp: command_source_error_def)
  next
    case True
    have own: "(\<exists>p \<in> set es. ev_Seq p = q \<and> P p) \<longleftrightarrow> (\<exists>p. map_of ?m q = Some p \<and> P p)" for P
      using True by (auto simp: m simp del: map_of_update)
    show ?thesis
    proof (cases "map_of ?m q")
      case None
      with True Some show ?thesis
        by (simp add: command_source_error_def own)
    next
      case (Some p)
      with True \<open>cd_SourceEventSeq d = _\<close> show ?thesis
        by (simp add: command_source_error_def own)
    qed
  qed
qed (simp add: command_source_error_def)

lemma command_rel_init: "command_rel [] command_init"
  by (simp add: command_rel_def command_init_def)

lemma command_run_step_spec:
  assumes wf: "contiguous (es @ [ev])" and rel: "command_rel es s" and t: "ev_Type ev = EventCommandRun"
  shows "case command_step s ev of Inl _ \<Rightarrow> \<not> command_row_ok es ev
           | Inr s' \<Rightarrow> command_row_ok es ev \<and> command_rel (es @ [ev]) s'"
proof (cases "unmarshal_struct dec_commandRun (ev_Data ev)")
  case None
  then show ?thesis using t by (simp add: command_step_def command_run_step_def command_row_ok_def command_run_ok_def)
next
  case (Some d)
  let ?s = "s\<lparr>cl_bySeq := AList.update (ev_Seq ev) ev (cl_bySeq s),
               cl_runs := AList.update (cr_CommandID d) ev (cl_runs s)\<rparr>"
  let ?ok = "cr_CommandID d \<noteq> [] \<and> cr_Name d \<noteq> [] \<and> (\<forall>p \<in> set es. \<not> runs_command p (cr_CommandID d))"
  have ok: "command_row_ok es ev \<longleftrightarrow> ?ok"
    using Some t by (simp add: command_row_ok_def command_run_ok_def)
  have step: "\<exists>x. command_step s ev = (if ?ok then Inr ?s else Inl x)"
    using t Some command_relD(1) [OF rel, of "cr_CommandID d"]
    by (simp add: command_step_def command_run_step_def Let_def)
  have "runs_command ev i \<longleftrightarrow> i = cr_CommandID d" "\<not> settles_command ev i" for i
    using Some t by (auto simp: runs_command_def settles_command_def)
  then have "command_rel (es @ [ev]) ?s"
    using command_relD(1,2) [OF rel] command_rel_bySeq [OF wf rel]
    by (intro command_relI) simp_all
  then show ?thesis by (rule checker_case [OF ok step])
qed

lemma command_done_step_spec:
  assumes wf: "contiguous (es @ [ev])" and rel: "command_rel es s" and t: "ev_Type ev = EventCommandDone"
  shows "case command_step s ev of Inl _ \<Rightarrow> \<not> command_row_ok es ev
           | Inr s' \<Rightarrow> command_row_ok es ev \<and> command_rel (es @ [ev]) s'"
proof (cases "unmarshal_struct dec_commandDone (ev_Data ev)")
  case None
  then show ?thesis using t by (simp add: command_step_def command_done_step_def command_row_ok_def command_done_ok_def)
next
  case (Some d)
  let ?i = "cd_CommandID d"
  let ?m = "AList.update (ev_Seq ev) ev (cl_bySeq s)"
  let ?s = "s\<lparr>cl_bySeq := ?m, cl_dones := AList.update ?i ev (cl_dones s)\<rparr>"
  let ?ok = "?i \<noteq> [] \<and> (cd_Kind d = ''success'' \<or> cd_Kind d = ''error'') \<and>
     (\<exists>p \<in> set es. runs_command p ?i) \<and> (\<forall>p \<in> set es. \<not> settles_command p ?i) \<and>
     command_source_error ?m ev d = None"
  have ok: "command_row_ok es ev \<longleftrightarrow> ?ok"
    using Some t command_source_ok [OF wf rel, of d]
    by (simp add: command_row_ok_def command_done_ok_def)
  have step: "\<exists>x. command_step s ev = (if ?ok then Inr ?s else Inl x)"
    using t Some command_relD(1,2) [OF rel, of ?i]
    by (simp add: command_step_def command_done_step_def Let_def split: option.split)
  have "settles_command ev i \<longleftrightarrow> i = ?i" "\<not> runs_command ev i" for i
    using Some t by (auto simp: runs_command_def settles_command_def)
  then have "command_rel (es @ [ev]) ?s"
    using command_relD(1,2) [OF rel] command_rel_bySeq [OF wf rel]
    by (intro command_relI) simp_all
  then show ?thesis by (rule checker_case [OF ok step])
qed

lemma command_step_spec:
  assumes wf: "contiguous (es @ [ev])" and rel: "command_rel es s"
  shows "case command_step s ev of Inl _ \<Rightarrow> \<not> command_row_ok es ev
           | Inr s' \<Rightarrow> command_row_ok es ev \<and> command_rel (es @ [ev]) s'"
proof (cases "is_command_type (ev_Type ev)")
  case True
  then show ?thesis
    using command_run_step_spec [OF assms] command_done_step_spec [OF assms] by (auto simp: is_command_type_def)
next
  case False
  then have "\<not> runs_command ev i" "\<not> settles_command ev i" for i
    by (simp_all add: runs_command_def settles_command_def is_command_type_def)
  then have "command_rel (es @ [ev]) (s\<lparr>cl_bySeq := AList.update (ev_Seq ev) ev (cl_bySeq s)\<rparr>)"
    using command_relD(1,2) [OF rel] command_rel_bySeq [OF wf rel]
    by (intro command_relI) simp_all
  with False show ?thesis
    by (simp add: command_step_def command_row_ok_def is_command_type_def Let_def)
qed

interpretation cmd: event_checker command_step command_init contiguous command_rel command_row_ok
proof (unfold_locales, goal_cases)
  case 1
  show ?case by (rule command_rel_init)
next
  case (2 es e)
  then show ?case by (rule contiguous_prefix)
next
  case (3 es e s s')
  then show ?case using command_step_spec [of es e s] by simp
next
  case (4 es e s x)
  then show ?case using command_step_spec [of es e s] by simp
qed

text \<open>
  C5: on a log with contiguous positions \<^verbatim>\<open>validateCommandLifecycle\<close> accepts exactly the logs
  in which every command/run row has a fresh non-empty id and a name, and every command/done row
  settles an id that an earlier run reserved and no earlier row settled, with a kind of success or
  error, citing at most one earlier row, only on success, and never a command row.
\<close>

theorem command_lifecycle_spec:
  assumes "contiguous es"
  shows "validateCommandLifecycle es = None \<longleftrightarrow> each_after command_row_ok es"
  using cmd.accept_iff [OF assms] by (simp add: validateCommandLifecycle_def)

definition sample_commands :: "event list" where
  "sample_commands =
     [\<lparr>ev_Seq = 1, ev_Type = EventCommandRun, ev_At = 5, ev_Version = 1,
       ev_Data = Some (JObj [(''commandId'', JStr ''c1''), (''name'', JStr ''goal''),
                             (''source'', JObj [(''kind'', JStr ''user'')])])\<rparr>,
      \<lparr>ev_Seq = 2, ev_Type = EventPlanCreate, ev_At = 6, ev_Version = 1, ev_Data = Some (JObj [])\<rparr>,
      \<lparr>ev_Seq = 3, ev_Type = EventCommandDone, ev_At = 7, ev_Version = 1,
       ev_Data = Some (JObj [(''commandId'', JStr ''c1''), (''kind'', JStr ''success''),
                             (''sourceEventSeq'', JInt 2)])\<rparr>]"

lemma command_lifecycle_spec_witness:
  "validateCommandLifecycle sample_commands = None \<and> each_after command_row_ok sample_commands"
proof -
  have c: "contiguous sample_commands"
    unfolding contiguous_def by (rule exI [of _ 1]) (simp add: sample_commands_def)
  have "validateCommandLifecycle sample_commands = None" by code_simp
  then show ?thesis using command_lifecycle_spec [OF c] by simp
qed

end
