(* ===== verification/Session_Workflow.thy ===== *)
theory Session_Workflow
  imports Event_Model
begin

text \<open>
  \<^verbatim>\<open>internal/session/workflow_record.go\<close>: the fold over the durable tool-workflow records.
  A run starts once, its members start and end once each inside it, and a run ends when none
  of its members is open. \<open>workflow_row_ok\<close> states this of a row and its predecessors; the
  theory proves that the fold accepts exactly the logs all of whose rows satisfy it.
\<close>

datatype workflow_error =
    ErrWfObject nat | ErrWfStartFields nat | ErrWfRunRepeats nat string
  | ErrWfRunId nat | ErrWfUnmatched nat string | ErrWfAfterEnd nat string
  | ErrWfSeq nat | ErrWfMemberFields nat | ErrWfPhase nat | ErrWfMemberRepeats nat int
  | ErrWfOutcome nat | ErrWfMemberUnmatched nat int | ErrWfStopReason nat | ErrWfMemberOpen nat

record workflow_run =
  wr_ended :: bool
  wr_members :: "(int \<times> bool) list"

type_synonym workflow_runs = "(string \<times> workflow_run) list"

definition wf_run_id :: "jobject \<Rightarrow> string" where
  "wf_run_id d = string_or_empty (jget d ''runId'')"

definition workflowRecordSeq :: "jobject \<Rightarrow> int option" where
  "workflowRecordSeq d =
     (case as_float (jget d ''seq'') of
        None \<Rightarrow> None
      | Some n \<Rightarrow> if n = of_int (trunc n) \<and> 1 \<le> n \<and> n \<le> 2147483647 then Some (int_of_float n) else None)"

definition is_workflow_type :: "event_type \<Rightarrow> bool" where
  "is_workflow_type t \<longleftrightarrow> t = EventToolWorkflowRunStart \<or> t = EventToolWorkflowAgentStart \<or>
     t = EventToolWorkflowAgentEnd \<or> t = EventToolWorkflowRunEnd"

definition nonempty_string :: "json option \<Rightarrow> bool" where
  "nonempty_string v \<longleftrightarrow> as_string v \<noteq> None \<and> as_string v \<noteq> Some []"

definition run_start_step :: "workflow_runs \<Rightarrow> event \<Rightarrow> jobject \<Rightarrow> workflow_error + workflow_runs" where
  "run_start_step runs ev d =
     (let runID = wf_run_id d in
      if runID = [] \<or> \<not> nonempty_string (jget d ''name'') then Inl (ErrWfStartFields (ev_Seq ev))
      else if map_of runs runID \<noteq> None then Inl (ErrWfRunRepeats (ev_Seq ev) runID)
      else Inr (AList.update runID \<lparr>wr_ended = False, wr_members = []\<rparr> runs))"

definition agent_start_step :: "workflow_run \<Rightarrow> event \<Rightarrow> jobject \<Rightarrow> workflow_error + workflow_run" where
  "agent_start_step run ev d =
     (case workflowRecordSeq d of
        None \<Rightarrow> Inl (ErrWfSeq (ev_Seq ev))
      | Some seq \<Rightarrow>
          if as_string (jget d ''label'') = None \<or> \<not> nonempty_string (jget d ''childId'')
          then Inl (ErrWfMemberFields (ev_Seq ev))
          else if jget d ''phase'' \<noteq> None \<and> as_string (jget d ''phase'') = None
          then Inl (ErrWfPhase (ev_Seq ev))
          else if map_of (wr_members run) seq \<noteq> None then Inl (ErrWfMemberRepeats (ev_Seq ev) seq)
          else Inr (run\<lparr>wr_members := AList.update seq False (wr_members run)\<rparr>))"

definition agent_outcomes :: "string list" where
  "agent_outcomes = [''completed'', ''failed'', ''cancelled'']"

definition agent_end_step :: "workflow_run \<Rightarrow> event \<Rightarrow> jobject \<Rightarrow> workflow_error + workflow_run" where
  "agent_end_step run ev d =
     (case workflowRecordSeq d of
        None \<Rightarrow> Inl (ErrWfSeq (ev_Seq ev))
      | Some seq \<Rightarrow>
          if string_or_empty (jget d ''outcome'') \<notin> set agent_outcomes then Inl (ErrWfOutcome (ev_Seq ev))
          else (case map_of (wr_members run) seq of
             None \<Rightarrow> Inl (ErrWfMemberUnmatched (ev_Seq ev) seq)
           | Some ended \<Rightarrow>
               if ended then Inl (ErrWfMemberRepeats (ev_Seq ev) seq)
               else Inr (run\<lparr>wr_members := AList.update seq True (wr_members run)\<rparr>)))"

definition run_stop_reasons :: "string list" where
  "run_stop_reasons = [''completed'', ''cancelled'', ''error'']"

definition run_end_step :: "workflow_run \<Rightarrow> event \<Rightarrow> jobject \<Rightarrow> workflow_error + workflow_run" where
  "run_end_step run ev d =
     (if string_or_empty (jget d ''stopReason'') \<notin> set run_stop_reasons
      then Inl (ErrWfStopReason (ev_Seq ev))
      else if \<not> list_all id (vals (wr_members run)) then Inl (ErrWfMemberOpen (ev_Seq ev))
      else Inr \<lparr>wr_ended = True, wr_members = []\<rparr>)"

definition workflow_step :: "workflow_runs \<Rightarrow> event \<Rightarrow> workflow_error + workflow_runs" where
  "workflow_step runs ev =
     (if \<not> is_workflow_type (ev_Type ev) then Inr runs
      else (case lifecycleObject (ev_Data ev) of
         None \<Rightarrow> Inl (ErrWfObject (ev_Seq ev))
       | Some d \<Rightarrow>
           let runID = wf_run_id d in
           if ev_Type ev = EventToolWorkflowRunStart then run_start_step runs ev d
           else if runID = [] then Inl (ErrWfRunId (ev_Seq ev))
           else (case map_of runs runID of
              None \<Rightarrow> Inl (ErrWfUnmatched (ev_Seq ev) runID)
            | Some run \<Rightarrow>
                if wr_ended run then Inl (ErrWfAfterEnd (ev_Seq ev) runID)
                else (case (if ev_Type ev = EventToolWorkflowAgentStart then agent_start_step run ev d
                            else if ev_Type ev = EventToolWorkflowAgentEnd then agent_end_step run ev d
                            else run_end_step run ev d) of
                   Inl x \<Rightarrow> Inl x
                 | Inr run' \<Rightarrow> Inr (AList.update runID run' runs)))))"

definition validateWorkflowRecordLifecycle :: "event list \<Rightarrow> workflow_error option" where
  "validateWorkflowRecordLifecycle es = error_of (fold_until workflow_step [] es)"

section \<open>What the fold promises\<close>

text \<open>The row \<open>e\<close> has type \<open>t\<close> and names the run \<open>i\<close>.\<close>

definition row_of_run :: "event_type \<Rightarrow> event \<Rightarrow> string \<Rightarrow> bool" where
  "row_of_run t e i \<longleftrightarrow> ev_Type e = t \<and> (\<exists>d. lifecycleObject (ev_Data e) = Some d \<and> wf_run_id d = i)"

definition row_of_member :: "event_type \<Rightarrow> event \<Rightarrow> string \<Rightarrow> int \<Rightarrow> bool" where
  "row_of_member t e i q \<longleftrightarrow> ev_Type e = t \<and>
     (\<exists>d. lifecycleObject (ev_Data e) = Some d \<and> wf_run_id d = i \<and> workflowRecordSeq d = Some q)"

definition agent_start_ok :: "event list \<Rightarrow> jobject \<Rightarrow> bool" where
  "agent_start_ok pre d \<longleftrightarrow>
     (\<exists>q. workflowRecordSeq d = Some q \<and> as_string (jget d ''label'') \<noteq> None \<and>
          nonempty_string (jget d ''childId'') \<and>
          (jget d ''phase'' = None \<or> as_string (jget d ''phase'') \<noteq> None) \<and>
          (\<forall>p \<in> set pre. \<not> row_of_member EventToolWorkflowAgentStart p (wf_run_id d) q))"

definition agent_end_ok :: "event list \<Rightarrow> jobject \<Rightarrow> bool" where
  "agent_end_ok pre d \<longleftrightarrow>
     (\<exists>q. workflowRecordSeq d = Some q \<and> string_or_empty (jget d ''outcome'') \<in> set agent_outcomes \<and>
          (\<exists>p \<in> set pre. row_of_member EventToolWorkflowAgentStart p (wf_run_id d) q) \<and>
          (\<forall>p \<in> set pre. \<not> row_of_member EventToolWorkflowAgentEnd p (wf_run_id d) q))"

definition run_end_ok :: "event list \<Rightarrow> jobject \<Rightarrow> bool" where
  "run_end_ok pre d \<longleftrightarrow>
     string_or_empty (jget d ''stopReason'') \<in> set run_stop_reasons \<and>
     (\<forall>q. (\<exists>p \<in> set pre. row_of_member EventToolWorkflowAgentStart p (wf_run_id d) q) \<longrightarrow>
          (\<exists>p \<in> set pre. row_of_member EventToolWorkflowAgentEnd p (wf_run_id d) q))"

definition workflow_row_ok :: "event list \<Rightarrow> event \<Rightarrow> bool" where
  "workflow_row_ok pre e \<longleftrightarrow> (is_workflow_type (ev_Type e) \<longrightarrow>
     (\<exists>d. lifecycleObject (ev_Data e) = Some d \<and> wf_run_id d \<noteq> [] \<and>
        (if ev_Type e = EventToolWorkflowRunStart
         then nonempty_string (jget d ''name'') \<and>
              (\<forall>p \<in> set pre. \<not> row_of_run EventToolWorkflowRunStart p (wf_run_id d))
         else (\<exists>p \<in> set pre. row_of_run EventToolWorkflowRunStart p (wf_run_id d)) \<and>
              (\<forall>p \<in> set pre. \<not> row_of_run EventToolWorkflowRunEnd p (wf_run_id d)) \<and>
              (ev_Type e = EventToolWorkflowAgentStart \<longrightarrow> agent_start_ok pre d) \<and>
              (ev_Type e = EventToolWorkflowAgentEnd \<longrightarrow> agent_end_ok pre d) \<and>
              (ev_Type e = EventToolWorkflowRunEnd \<longrightarrow> run_end_ok pre d))))"

section \<open>The state against the rows read\<close>

definition touches :: "event \<Rightarrow> string \<Rightarrow> bool" where
  "touches e i \<longleftrightarrow> is_workflow_type (ev_Type e) \<and>
     (\<exists>d. lifecycleObject (ev_Data e) = Some d \<and> wf_run_id d = i)"

definition members_rel :: "event list \<Rightarrow> string \<Rightarrow> (int \<times> bool) list \<Rightarrow> bool" where
  "members_rel es i m \<longleftrightarrow> wf_map m \<and>
     (\<forall>q. map_of m q =
        (if \<exists>e \<in> set es. row_of_member EventToolWorkflowAgentStart e i q
         then Some (\<exists>e \<in> set es. row_of_member EventToolWorkflowAgentEnd e i q) else None)) \<and>
     (\<forall>q. (\<exists>e \<in> set es. row_of_member EventToolWorkflowAgentEnd e i q) \<longrightarrow>
          (\<exists>e \<in> set es. row_of_member EventToolWorkflowAgentStart e i q))"

definition run_rel :: "event list \<Rightarrow> string \<Rightarrow> workflow_run \<Rightarrow> bool" where
  "run_rel es i r \<longleftrightarrow>
     (wr_ended r \<longleftrightarrow> (\<exists>e \<in> set es. row_of_run EventToolWorkflowRunEnd e i)) \<and>
     (\<not> wr_ended r \<longrightarrow> members_rel es i (wr_members r))"

definition workflow_rel :: "event list \<Rightarrow> workflow_runs \<Rightarrow> bool" where
  "workflow_rel es runs \<longleftrightarrow>
     (\<forall>i. case map_of runs i of
            None \<Rightarrow> \<forall>e \<in> set es. \<not> touches e i
          | Some r \<Rightarrow> (\<exists>e \<in> set es. row_of_run EventToolWorkflowRunStart e i) \<and> run_rel es i r)"

lemma touches_rows:
  "row_of_run EventToolWorkflowRunStart e i \<Longrightarrow> touches e i"
  "row_of_run EventToolWorkflowRunEnd e i \<Longrightarrow> touches e i"
  "row_of_member EventToolWorkflowAgentStart e i q \<Longrightarrow> touches e i"
  "row_of_member EventToolWorkflowAgentEnd e i q \<Longrightarrow> touches e i"
  by (auto simp: touches_def row_of_run_def row_of_member_def is_workflow_type_def)

lemma run_rel_frame:
  assumes "\<not> touches ev i"
  shows "run_rel (es @ [ev]) i r \<longleftrightarrow> run_rel es i r"
proof -
  have "\<not> row_of_run EventToolWorkflowRunEnd ev i" "\<not> row_of_member EventToolWorkflowAgentStart ev i q"
    "\<not> row_of_member EventToolWorkflowAgentEnd ev i q" for q
    using touches_rows(2-4) [of ev i] assms by blast+
  then show ?thesis by (simp add: run_rel_def members_rel_def)
qed

lemma workflow_rel_frame:
  assumes "workflow_rel es runs" and "\<And>i. \<not> touches ev i"
  shows "workflow_rel (es @ [ev]) runs"
  unfolding workflow_rel_def
proof
  fix i
  show "case map_of runs i of
          None \<Rightarrow> \<forall>e \<in> set (es @ [ev]). \<not> touches e i
        | Some r \<Rightarrow> (\<exists>e \<in> set (es @ [ev]). row_of_run EventToolWorkflowRunStart e i) \<and> run_rel (es @ [ev]) i r"
    using assms(1) [unfolded workflow_rel_def, THEN spec, of i] assms(2) [of i]
    by (auto simp: run_rel_frame split: option.splits)
qed

lemma workflow_rel_update:
  assumes rel: "workflow_rel es runs" and t: "\<And>j. touches ev j \<longleftrightarrow> j = i"
    and r: "\<exists>e \<in> set (es @ [ev]). row_of_run EventToolWorkflowRunStart e i" "run_rel (es @ [ev]) i r"
  shows "workflow_rel (es @ [ev]) (AList.update i r runs)"
  unfolding workflow_rel_def
proof
  fix j
  show "case map_of (AList.update i r runs) j of
          None \<Rightarrow> \<forall>e \<in> set (es @ [ev]). \<not> touches e j
        | Some r \<Rightarrow> (\<exists>e \<in> set (es @ [ev]). row_of_run EventToolWorkflowRunStart e j) \<and> run_rel (es @ [ev]) j r"
  proof (cases "j = i")
    case True
    then show ?thesis using r by simp
  next
    case False
    then have "\<not> touches ev j" using t by simp
    with False show ?thesis
      using rel [unfolded workflow_rel_def, THEN spec, of j]
      by (auto simp: run_rel_frame split: option.splits)
  qed
qed

lemma run_rel_start:
  assumes "\<forall>e \<in> set es. \<not> touches e i" and "ev_Type ev = EventToolWorkflowRunStart"
  shows "run_rel (es @ [ev]) i \<lparr>wr_ended = False, wr_members = []\<rparr>"
  using assms touches_rows
  by (auto simp: run_rel_def members_rel_def row_of_run_def row_of_member_def touches_def is_workflow_type_def)

lemma member_row_of:
  assumes "lifecycleObject (ev_Data ev) = Some d"
  shows "row_of_member t ev (wf_run_id d) q \<longleftrightarrow> ev_Type ev = t \<and> workflowRecordSeq d = Some q"
    and "row_of_run t ev (wf_run_id d) \<longleftrightarrow> ev_Type ev = t"
  using assms by (auto simp: row_of_member_def row_of_run_def)

lemma members_relD:
  assumes "members_rel es i m"
  shows "map_of m q = None \<longleftrightarrow> (\<forall>e \<in> set es. \<not> row_of_member EventToolWorkflowAgentStart e i q)"
    and "map_of m q = Some b \<longleftrightarrow> (\<exists>e \<in> set es. row_of_member EventToolWorkflowAgentStart e i q) \<and>
           b = (\<exists>e \<in> set es. row_of_member EventToolWorkflowAgentEnd e i q)"
  using assms by (auto simp: members_rel_def)

lemma members_all_ended:
  assumes "members_rel es i m"
  shows "list_all id (vals m) \<longleftrightarrow>
     (\<forall>q. (\<exists>p \<in> set es. row_of_member EventToolWorkflowAgentStart p i q) \<longrightarrow>
          (\<exists>p \<in> set es. row_of_member EventToolWorkflowAgentEnd p i q))"
proof -
  have "list_all id (vals m) \<longleftrightarrow> (\<forall>q b. map_of m q = Some b \<longrightarrow> b)"
    using all_vals_iff [of m id] assms by (simp add: members_rel_def list_all_iff)
  then show ?thesis using members_relD(2) [OF assms] by simp
qed

text \<open>Each step of an open run: what it accepts, and that its result describes the longer log.\<close>

lemma open_runD:
  assumes "\<not> wr_ended run" and "run_rel es i run"
  shows "members_rel es i (wr_members run)"
    and "\<forall>e \<in> set es. \<not> row_of_run EventToolWorkflowRunEnd e i"
  using assms by (auto simp: run_rel_def)

lemma open_run_relI:
  assumes "\<not> wr_ended run" and "run_rel es i run"
    and "ev_Type ev \<noteq> EventToolWorkflowRunEnd" and "members_rel (es @ [ev]) i m"
  shows "run_rel (es @ [ev]) i (run\<lparr>wr_members := m\<rparr>)"
  using assms open_runD(2) [OF assms(1,2)] by (auto simp: run_rel_def row_of_run_def)

lemma agent_start_step_spec:
  assumes d: "lifecycleObject (ev_Data ev) = Some d" and t: "ev_Type ev = EventToolWorkflowAgentStart"
    and run: "\<not> wr_ended run" "run_rel es (wf_run_id d) run"
  shows "case agent_start_step run ev d of Inl _ \<Rightarrow> \<not> agent_start_ok es d
           | Inr r \<Rightarrow> agent_start_ok es d \<and> run_rel (es @ [ev]) (wf_run_id d) r"
proof (cases "workflowRecordSeq d")
  case None
  then show ?thesis by (simp add: agent_start_step_def agent_start_ok_def)
next
  case (Some q)
  note m = open_runD(1) [OF run]
  let ?r = "run\<lparr>wr_members := AList.update q False (wr_members run)\<rparr>"
  let ?ok = "as_string (jget d ''label'') \<noteq> None \<and> nonempty_string (jget d ''childId'') \<and>
     (jget d ''phase'' = None \<or> as_string (jget d ''phase'') \<noteq> None) \<and>
     (\<forall>p \<in> set es. \<not> row_of_member EventToolWorkflowAgentStart p (wf_run_id d) q)"
  show ?thesis
  proof (rule checker_case)
    show "agent_start_ok es d \<longleftrightarrow> ?ok" using Some by (simp add: agent_start_ok_def)
    show "\<exists>x. agent_start_step run ev d = (if ?ok then Inr ?r else Inl x)"
      using Some members_relD(1) [OF m, of q] by (simp add: agent_start_step_def)
    assume fresh: ?ok
    have "members_rel (es @ [ev]) (wf_run_id d) (AList.update q False (wr_members run))"
      using m Some fresh t unfolding members_rel_def
      by (auto simp: member_row_of [OF d])
    then show "run_rel (es @ [ev]) (wf_run_id d) ?r"
      by (intro open_run_relI [OF run]) (simp_all add: t)
  qed
qed

lemma agent_end_step_spec:
  assumes d: "lifecycleObject (ev_Data ev) = Some d" and t: "ev_Type ev = EventToolWorkflowAgentEnd"
    and run: "\<not> wr_ended run" "run_rel es (wf_run_id d) run"
  shows "case agent_end_step run ev d of Inl _ \<Rightarrow> \<not> agent_end_ok es d
           | Inr r \<Rightarrow> agent_end_ok es d \<and> run_rel (es @ [ev]) (wf_run_id d) r"
proof (cases "workflowRecordSeq d")
  case None
  then show ?thesis by (simp add: agent_end_step_def agent_end_ok_def)
next
  case (Some q)
  note m = open_runD(1) [OF run]
  let ?r = "run\<lparr>wr_members := AList.update q True (wr_members run)\<rparr>"
  let ?ok = "string_or_empty (jget d ''outcome'') \<in> set agent_outcomes \<and> map_of (wr_members run) q = Some False"
  show ?thesis
  proof (rule checker_case)
    show "agent_end_ok es d \<longleftrightarrow> ?ok"
      using Some members_relD(2) [OF m, of q False] by (auto simp: agent_end_ok_def)
    show "\<exists>x. agent_end_step run ev d = (if ?ok then Inr ?r else Inl x)"
      using Some by (auto simp: agent_end_step_def split: option.split)
    assume ok: ?ok
    have "members_rel (es @ [ev]) (wf_run_id d) (AList.update q True (wr_members run))"
      using m Some ok members_relD(2) [OF m, of q False] t unfolding members_rel_def
      by (auto simp: member_row_of [OF d])
    then show "run_rel (es @ [ev]) (wf_run_id d) ?r"
      by (intro open_run_relI [OF run]) (simp_all add: t)
  qed
qed

lemma run_end_step_spec:
  assumes d: "lifecycleObject (ev_Data ev) = Some d" and t: "ev_Type ev = EventToolWorkflowRunEnd"
    and run: "\<not> wr_ended run" "run_rel es (wf_run_id d) run"
  shows "case run_end_step run ev d of Inl _ \<Rightarrow> \<not> run_end_ok es d
           | Inr r \<Rightarrow> run_end_ok es d \<and> run_rel (es @ [ev]) (wf_run_id d) r"
proof (rule checker_case)
  let ?ok = "string_or_empty (jget d ''stopReason'') \<in> set run_stop_reasons \<and>
     list_all id (vals (wr_members run))"
  show "run_end_ok es d \<longleftrightarrow> ?ok"
    unfolding run_end_ok_def members_all_ended [OF open_runD(1) [OF run]] ..
  show "\<exists>x. run_end_step run ev d =
      (if ?ok then Inr \<lparr>wr_ended = True, wr_members = []\<rparr> else Inl x)"
    by (simp add: run_end_step_def)
  show "run_rel (es @ [ev]) (wf_run_id d) \<lparr>wr_ended = True, wr_members = []\<rparr>"
    using t by (simp add: run_rel_def member_row_of [OF d])
qed

lemma workflow_step_spec:
  assumes rel: "workflow_rel es runs"
  shows "case workflow_step runs ev of Inl _ \<Rightarrow> \<not> workflow_row_ok es ev
           | Inr runs' \<Rightarrow> workflow_row_ok es ev \<and> workflow_rel (es @ [ev]) runs'"
proof (cases "is_workflow_type (ev_Type ev)")
  case False
  then show ?thesis
    using workflow_rel_frame [OF rel] by (simp add: workflow_step_def workflow_row_ok_def touches_def)
next
  case wft: True
  show ?thesis
  proof (cases "lifecycleObject (ev_Data ev)")
    case None
    then show ?thesis using wft by (simp add: workflow_step_def workflow_row_ok_def)
  next
    case (Some d)
    let ?i = "wf_run_id d"
    have touch: "touches ev j \<longleftrightarrow> j = ?i" for j using wft Some by (auto simp: touches_def)
    note rel_i = rel [unfolded workflow_rel_def, THEN spec, of ?i]
    show ?thesis
    proof (cases "ev_Type ev = EventToolWorkflowRunStart")
      case True
      let ?ok = "?i \<noteq> [] \<and> nonempty_string (jget d ''name'') \<and> map_of runs ?i = None"
      let ?r = "\<lparr>wr_ended = False, wr_members = []\<rparr>"
      show ?thesis
      proof (rule checker_case)
        have "map_of runs ?i = None \<longleftrightarrow> (\<forall>p \<in> set es. \<not> row_of_run EventToolWorkflowRunStart p ?i)"
          using rel_i touches_rows(1) by (auto split: option.splits)
        then show "workflow_row_ok es ev \<longleftrightarrow> ?ok"
          using True Some wft by (simp add: workflow_row_ok_def)
        show "\<exists>x. workflow_step runs ev = (if ?ok then Inr (AList.update ?i ?r runs) else Inl x)"
          using True Some wft by (simp add: workflow_step_def run_start_step_def Let_def)
        assume ?ok
        then have "\<forall>e \<in> set es. \<not> touches e ?i" using rel_i by simp
        then show "workflow_rel (es @ [ev]) (AList.update ?i ?r runs)"
          using True member_row_of(2) [OF Some]
          by (intro workflow_rel_update [OF rel touch] run_rel_start) auto
      qed
    next
      case nstart: False
      show ?thesis
      proof (cases "map_of runs ?i")
        case None
        then have "\<forall>e \<in> set es. \<not> row_of_run EventToolWorkflowRunStart e ?i"
          using rel_i touches_rows(1) by auto
        with None nstart Some wft show ?thesis
          by (cases "?i = []") (simp_all add: workflow_step_def workflow_row_ok_def)
      next
        case (Some run)
        note d = \<open>lifecycleObject (ev_Data ev) = Some d\<close>
        from rel_i Some have started: "\<exists>e \<in> set es. row_of_run EventToolWorkflowRunStart e ?i"
          and rr: "run_rel es ?i run" by simp_all
        let ?step = "if ev_Type ev = EventToolWorkflowAgentStart then agent_start_step run ev d
                     else if ev_Type ev = EventToolWorkflowAgentEnd then agent_end_step run ev d
                     else run_end_step run ev d"
        let ?row = "(ev_Type ev = EventToolWorkflowAgentStart \<longrightarrow> agent_start_ok es d) \<and>
              (ev_Type ev = EventToolWorkflowAgentEnd \<longrightarrow> agent_end_ok es d) \<and>
              (ev_Type ev = EventToolWorkflowRunEnd \<longrightarrow> run_end_ok es d)"
        have ended: "wr_ended run \<longleftrightarrow> (\<exists>e \<in> set es. row_of_run EventToolWorkflowRunEnd e ?i)"
          using rr by (simp add: run_rel_def)
        have ok: "workflow_row_ok es ev \<longleftrightarrow> ?i \<noteq> [] \<and> \<not> wr_ended run \<and> ?row"
          using d nstart wft started ended by (simp add: workflow_row_ok_def)
        show ?thesis
        proof (cases "?i \<noteq> [] \<and> \<not> wr_ended run")
          case False
          with ok have "\<not> workflow_row_ok es ev" by blast
          moreover have "\<exists>x. workflow_step runs ev = Inl x"
            using False Some d nstart wft by (cases "?i = []") (simp_all add: workflow_step_def)
          ultimately show ?thesis by auto
        next
          case True
          have "case ?step of Inl _ \<Rightarrow> \<not> ?row | Inr r \<Rightarrow> ?row \<and> run_rel (es @ [ev]) ?i r"
            using True rr wft nstart agent_start_step_spec [OF d, of run es]
              agent_end_step_spec [OF d, of run es] run_end_step_spec [OF d, of run es]
            by (auto simp: is_workflow_type_def split: sum.splits)
          moreover have "workflow_step runs ev =
              (case ?step of Inl x \<Rightarrow> Inl x | Inr run' \<Rightarrow> Inr (AList.update ?i run' runs))"
            using True Some d nstart wft by (simp add: workflow_step_def)
          ultimately show ?thesis
            using ok True started workflow_rel_update [OF rel touch]
            by (auto split: sum.splits)
        qed
      qed
    qed
  qed
qed

lemma workflow_rel_init: "workflow_rel [] []"
  by (simp add: workflow_rel_def)

interpretation wfl: event_checker workflow_step "[]" "\<lambda>_. True" workflow_rel workflow_row_ok
proof (unfold_locales, goal_cases)
  case 1
  show ?case by (rule workflow_rel_init)
next
  case (3 es e s s')
  then show ?case using workflow_step_spec [of es s e] by simp
next
  case (4 es e s x)
  then show ?case using workflow_step_spec [of es s e] by simp
qed simp

text \<open>
  Fact: \<^verbatim>\<open>validateWorkflowRecordLifecycle\<close> accepts exactly the logs in which every tool-workflow
  row is admissible after its predecessors: a run id starts once; member rows name a run that has
  started and not ended; a member starts once and ends once, after its start; a run ends when every
  started member has ended.
\<close>

theorem workflow_lifecycle_spec:
  "validateWorkflowRecordLifecycle es = None \<longleftrightarrow> each_after workflow_row_ok es"
  using wfl.accept_iff [of es] by (simp add: validateWorkflowRecordLifecycle_def)

end
