(* ===== verification/Session_Provenance.thy ===== *)
theory Session_Provenance
  imports Event_Model
begin

text \<open>
  \<^verbatim>\<open>validateEventProvenance\<close> of \<^verbatim>\<open>internal/session/session.go\<close>: a row may cite the rows it
  was produced from (\<^verbatim>\<open>sourceEventSeqs\<close>), and a user/message carrying
  \<^verbatim>\<open>surfaceOp.replace\<close> shadows a range of earlier surface rows. Old logs cite nothing and are
  left alone.
\<close>

datatype provenance_error =
    ErrSourceNotEarlier nat nat | ErrSourceRepeats nat nat | ErrSourceMissing nat nat
  | ErrSourceKind nat nat | ErrReplaceRange nat int int | ErrReplaceUncited nat nat

record SurfaceReplace =
  sr_Op :: string
  sr_Start :: int
  sr_End :: int

definition surfaceReplaceOp :: string where
  "surfaceReplaceOp = ''replace''"

definition dec_surface_replace :: "jobject \<Rightarrow> SurfaceReplace option" where
  "dec_surface_replace o1 = do {
     op \<leftarrow> dec_string (jfield o1 ''op'');
     s \<leftarrow> dec_int (jfield o1 ''start'');
     e \<leftarrow> dec_int (jfield o1 ''end'');
     Some \<lparr>sr_Op = op, sr_Start = s, sr_End = e\<rparr> }"

text \<open>The anonymous struct of the loop: the cited positions and the surface operation.\<close>

type_synonym provenance = "nat list option \<times> SurfaceReplace option"

definition dec_provenance :: "jobject \<Rightarrow> provenance option" where
  "dec_provenance o1 = do {
     qs \<leftarrow> dec_ptr (dec_slice dec_uint64) (jfield o1 ''sourceEventSeqs'');
     op \<leftarrow> dec_ptr (dec_struct dec_surface_replace) (jfield o1 ''surfaceOp'');
     Some (qs, op) }"

definition source_kind_ok :: "event_type \<Rightarrow> event_type \<Rightarrow> bool" where
  "source_kind_ok owner source =
     (if owner = EventAssistantMessage then source = EventAssistantChunk \<or> source = EventAssistantReasoning
      else if owner = EventToolResult then source = EventToolCall
      else True)"

text \<open>The loop over the cited positions, with the set of those already seen.\<close>

fun sources_error :: "(nat \<times> event) list \<Rightarrow> event \<Rightarrow> nat list \<Rightarrow> nat list \<Rightarrow> provenance_error option" where
  "sources_error bySeq ev seen [] = None"
| "sources_error bySeq ev seen (q # qs) =
     (if q \<ge> ev_Seq ev then Some (ErrSourceNotEarlier (ev_Seq ev) q)
      else if q \<in> set seen then Some (ErrSourceRepeats (ev_Seq ev) q)
      else (case map_of bySeq q of
         None \<Rightarrow> Some (ErrSourceMissing (ev_Seq ev) q)
       | Some source \<Rightarrow>
           if \<not> source_kind_ok (ev_Type ev) (ev_Type source) then Some (ErrSourceKind (ev_Seq ev) q)
           else sources_error bySeq ev (q # seen) qs))"

definition shadowed :: "SurfaceReplace \<Rightarrow> event \<Rightarrow> bool" where
  "shadowed op source \<longleftrightarrow> nat (sr_Start op) \<le> ev_Seq source \<and> ev_Seq source \<le> nat (sr_End op) \<and>
     isSurfaceEventType (ev_Type source)"

definition replacement_error :: "event list \<Rightarrow> event \<Rightarrow> nat list \<Rightarrow> SurfaceReplace \<Rightarrow> provenance_error option" where
  "replacement_error es ev qs op =
     (if sr_Start op < 0 \<or> sr_End op < sr_Start op
      then Some (ErrReplaceRange (ev_Seq ev) (sr_Start op) (sr_End op))
      else (case List.find (\<lambda>source. shadowed op source \<and> ev_Seq source \<notin> set qs) es of
         None \<Rightarrow> None
       | Some source \<Rightarrow> Some (ErrReplaceUncited (ev_Seq ev) (ev_Seq source))))"

definition row_provenance_error :: "event list \<Rightarrow> event \<Rightarrow> provenance_error option" where
  "row_provenance_error es ev =
     (case unmarshal_struct dec_provenance (ev_Data ev) of
        None \<Rightarrow> None
      | Some (None, _) \<Rightarrow> None
      | Some (Some qs, op) \<Rightarrow>
          first_error
            [sources_error (index_by_seq es) ev [] qs,
             (case op of
                None \<Rightarrow> None
              | Some r \<Rightarrow> if ev_Type ev = EventUserMessage \<and> sr_Op r = surfaceReplaceOp
                          then replacement_error es ev qs r else None)])"

definition validateEventProvenance :: "event list \<Rightarrow> provenance_error option" where
  "validateEventProvenance es = first_error (map (row_provenance_error es) es)"

definition isSurfaceReplacementEvent :: "event \<Rightarrow> bool" where
  "isSurfaceReplacementEvent ev \<longleftrightarrow>
     ev_Type ev = EventUserMessage \<and>
     (case unmarshal_struct (\<lambda>o1. dec_ptr (dec_struct dec_surface_replace) (jfield o1 ''surfaceOp'')) (ev_Data ev) of
        Some (Some op) \<Rightarrow> sr_Op op = surfaceReplaceOp
      | _ \<Rightarrow> False)"

section \<open>What the validator promises\<close>

definition cites_ok :: "event list \<Rightarrow> event \<Rightarrow> nat list \<Rightarrow> bool" where
  "cites_ok es ev qs \<longleftrightarrow> distinct qs \<and>
     (\<forall>q \<in> set qs. q < ev_Seq ev \<and>
        (\<exists>s \<in> set es. ev_Seq s = q \<and> source_kind_ok (ev_Type ev) (ev_Type s)))"

definition replaces_ok :: "event list \<Rightarrow> nat list \<Rightarrow> SurfaceReplace \<Rightarrow> bool" where
  "replaces_ok es qs op \<longleftrightarrow> 0 \<le> sr_Start op \<and> sr_Start op \<le> sr_End op \<and>
     (\<forall>s \<in> set es. shadowed op s \<longrightarrow> ev_Seq s \<in> set qs)"

definition provenance_ok :: "event list \<Rightarrow> event \<Rightarrow> bool" where
  "provenance_ok es ev \<longleftrightarrow>
     (\<forall>qs op. unmarshal_struct dec_provenance (ev_Data ev) = Some (Some qs, op) \<longrightarrow>
        cites_ok es ev qs \<and>
        (\<forall>r. op = Some r \<longrightarrow> ev_Type ev = EventUserMessage \<longrightarrow> sr_Op r = surfaceReplaceOp \<longrightarrow>
             replaces_ok es qs r))"

lemma sources_error_iff:
  assumes "contiguous es"
  shows "sources_error (index_by_seq es) ev seen qs = None \<longleftrightarrow>
    distinct qs \<and> set qs \<inter> set seen = {} \<and>
    (\<forall>q \<in> set qs. q < ev_Seq ev \<and> (\<exists>s \<in> set es. ev_Seq s = q \<and> source_kind_ok (ev_Type ev) (ev_Type s)))"
proof (induction qs arbitrary: seen)
  case (Cons q qs)
  have kind: "(\<exists>s \<in> set es. ev_Seq s = q \<and> P s) \<longleftrightarrow> (\<exists>s. map_of (index_by_seq es) q = Some s \<and> P s)" for P
    using index_by_seq_iff [OF assms, of q] by blast
  show ?case
    using Cons.IH [of "q # seen"]
    by (cases "map_of (index_by_seq es) q") (auto simp: kind)
qed simp

lemma replacement_error_iff: "replacement_error es ev qs op = None \<longleftrightarrow> replaces_ok es qs op"
proof (cases "List.find (\<lambda>source. shadowed op source \<and> ev_Seq source \<notin> set qs) es")
  case None
  then have "\<forall>s \<in> set es. shadowed op s \<longrightarrow> ev_Seq s \<in> set qs" by (auto simp: find_None_iff)
  with None show ?thesis by (simp add: replacement_error_def replaces_ok_def not_less)
next
  case (Some s)
  then have "s \<in> set es" "shadowed op s" "ev_Seq s \<notin> set qs"
    by (auto dest: find_SomeD)
  with Some show ?thesis by (auto simp: replacement_error_def replaces_ok_def)
qed

lemma row_provenance_error_iff:
  assumes "contiguous es"
  shows "row_provenance_error es ev = None \<longleftrightarrow> provenance_ok es ev"
  using sources_error_iff [OF assms, of ev "[]"] replacement_error_iff [of es ev]
  by (auto simp: row_provenance_error_def provenance_ok_def cites_ok_def split: option.split prod.split)

text \<open>
  C6: on a contiguous log \<^verbatim>\<open>validateEventProvenance\<close> accepts exactly the logs whose citing rows
  cite distinct earlier rows of the kinds that produce them, and whose citing replacements shadow a
  well-formed range of which every surface row is cited.
\<close>

theorem provenance_spec:
  assumes "contiguous es"
  shows "validateEventProvenance es = None \<longleftrightarrow> (\<forall>ev \<in> set es. provenance_ok es ev)"
  using row_provenance_error_iff [OF assms]
  by (simp add: validateEventProvenance_def first_error_None_iff)

text \<open>
  Fact: in an accepted contiguous log a replacement that cites its sources never shadows itself or a
  later surface row: everything it removes from the model history is a row it cites and precedes it.
\<close>

theorem replacement_shadows_past:
  assumes "contiguous es" and "validateEventProvenance es = None" and "ev \<in> set es"
    and "unmarshal_struct dec_provenance (ev_Data ev) = Some (Some qs, Some op)"
    and "ev_Type ev = EventUserMessage" and "sr_Op op = surfaceReplaceOp"
    and "s \<in> set es" and "shadowed op s"
  shows "ev_Seq s \<in> set qs \<and> ev_Seq s < ev_Seq ev"
proof -
  have "provenance_ok es ev"
    using assms(2,3) row_provenance_error_iff [OF assms(1)]
    by (simp add: validateEventProvenance_def first_error_None_iff)
  with assms show ?thesis by (simp add: provenance_ok_def cites_ok_def replaces_ok_def)
qed

definition sample_compaction :: "event list" where
  "sample_compaction =
     [\<lparr>ev_Seq = 1, ev_Type = EventUserMessage, ev_At = 5, ev_Version = 1,
       ev_Data = Some (JObj [(''text'', JStr ''hi'')])\<rparr>,
      \<lparr>ev_Seq = 2, ev_Type = EventAssistantChunk, ev_At = 5, ev_Version = 1,
       ev_Data = Some (JObj [(''text'', JStr ''yo'')])\<rparr>,
      \<lparr>ev_Seq = 3, ev_Type = EventAssistantMessage, ev_At = 5, ev_Version = 1,
       ev_Data = Some (JObj [(''text'', JStr ''yo''), (''sourceEventSeqs'', JArr [JInt 2])])\<rparr>,
      \<lparr>ev_Seq = 4, ev_Type = EventUserMessage, ev_At = 5, ev_Version = 1,
       ev_Data = Some (JObj [(''text'', JStr ''summary''), (''sourceEventSeqs'', JArr [JInt 1, JInt 3]),
         (''surfaceOp'', JObj [(''op'', JStr ''replace''), (''start'', JInt 1), (''end'', JInt 3)])])\<rparr>]"

lemma sample_compaction_contiguous: "contiguous sample_compaction"
  unfolding contiguous_def by (rule exI [of _ 1]) (simp add: sample_compaction_def)

lemma provenance_spec_witness:
  "validateEventProvenance sample_compaction = None \<and> list_all (provenance_ok sample_compaction) sample_compaction"
proof -
  have "validateEventProvenance sample_compaction = None" by code_simp
  then show ?thesis using provenance_spec [OF sample_compaction_contiguous] by (simp add: list_all_iff)
qed

lemma replacement_shadows_past_witness:
  "ev_Seq (sample_compaction ! 2) \<in> set [1, 3] \<and> ev_Seq (sample_compaction ! 2) < ev_Seq (sample_compaction ! 3)"
proof (rule replacement_shadows_past [OF sample_compaction_contiguous])
  show "validateEventProvenance sample_compaction = None" by code_simp
  show "unmarshal_struct dec_provenance (ev_Data (sample_compaction ! 3)) =
      Some (Some [1, 3], Some \<lparr>sr_Op = ''replace'', sr_Start = 1, sr_End = 3\<rparr>)" by code_simp
qed (simp_all add: sample_compaction_def surfaceReplaceOp_def shadowed_def isSurfaceEventType_def)

end
