(* ===== verification/Session_Contract.thy ===== *)
theory Session_Contract
  imports Event_Model
begin

text \<open>
  \<^verbatim>\<open>internal/session/contract.go\<close>: which event encodings the durable log and the native
  wire admit. A type outside the vocabulary, an obsolete encoding or a malformed payload is an
  error value; \<^const>\<open>None\<close> is the \<^verbatim>\<open>nil\<close> error.
\<close>

datatype vocab_error = ErrUnsupportedEvent | ErrUnknownRequiredEvent | ErrMalformedWireEvent

section \<open>The durable vocabulary\<close>

text \<open>The anonymous struct of the \<^verbatim>\<open>session/title\<close> case: title, source kind, source provider.\<close>

definition dec_title :: "jobject \<Rightarrow> (string \<times> string \<times> string) option" where
  "dec_title o1 = do {
     title \<leftarrow> dec_string (jfield o1 ''title'');
     _ \<leftarrow> dec_slice dec_any (jfield o1 ''messageSeqs'');
     source \<leftarrow> dec_struct (\<lambda>s. do {
         kind \<leftarrow> dec_string (jfield s ''kind'');
         provider \<leftarrow> dec_string (jfield s ''provider'');
         Some (kind, provider) }) (jfield o1 ''source'');
     Some (title, source) }"

definition ValidateEventVocabulary :: "event_type \<Rightarrow> json option \<Rightarrow> vocab_error option" where
  "ValidateEventVocabulary typ raw =
     (if typ = EventOther ''request/header-delta'' \<or> typ = EventOther ''mode/set''
      then Some ErrUnsupportedEvent
      else if typ = EventRequestHeader then
        (if unmarshal_struct (\<lambda>o1. dec_string (jfield o1 ''reason'')) raw = Some ''fallback''
         then Some ErrUnsupportedEvent else None)
      else if typ = EventSessionTitle then
        (case unmarshal_struct dec_title raw of
           None \<Rightarrow> Some ErrMalformedWireEvent
         | Some (title, kind, provider) \<Rightarrow>
             if trim_space title = [] then Some ErrMalformedWireEvent
             else if kind = ''fallback'' \<or> kind = ''user'' then None
             else if kind = ''provider'' then
               (if trim_space provider \<noteq> [] then None else Some ErrMalformedWireEvent)
             else Some ErrMalformedWireEvent)
      else None)"

text \<open>
  Every constructor of \<^typ>\<open>event_type\<close> is a literal of the vocabulary; the literals the
  code admits without comparing against them elsewhere are listed.
\<close>

definition other_log_literals :: "string list" where
  "other_log_literals =
     [''web/command-result'', ''web/deepseek-search-llm-request'',
      ''job/start'', ''job/status'', ''job/done'',
      ''terminal/start'', ''terminal/stop'', ''eval/run'', ''ralph/run'',
      ''workflow/run'', ''workflow/start'', ''workflow/phase'', ''workflow/log'',
      ''workflow/agent-start'', ''workflow/agent-end'', ''workflow/end'',
      ''subagent/start'', ''subagent/end'', ''subagent/report'',
      ''compaction/start'', ''compaction/summary'', ''compaction/end'', ''compaction/prune'',
      ''skill/catalog'', ''skill/load'',
      ''schedule/create'', ''schedule/list'', ''schedule/delete'', ''schedule/fire'',
      ''spill/write'', ''spill/recall'', ''spill/list'', ''spill/delete'',
      ''interact/deny'', ''interact/status'', ''team/snapshot'',
      ''code/run'', ''tool/code-dispatch-start'', ''tool/code-dispatch'',
      ''mcp/list'', ''mcp/call'', ''fs/read'', ''fs/write'', ''fs/list'',
      ''schedule/change'', ''tool/start'', ''llm/request_start'']"

definition knownLogEventType :: "event_type \<Rightarrow> bool" where
  "knownLogEventType typ = (case typ of EventOther s \<Rightarrow> s \<in> set other_log_literals | _ \<Rightarrow> True)"

definition validateLogEventVocabulary :: "event_type \<Rightarrow> json option \<Rightarrow> vocab_error option" where
  "validateLogEventVocabulary typ raw =
     first_error [ValidateEventVocabulary typ raw,
                  check_that ErrUnknownRequiredEvent (knownLogEventType typ)]"

definition ValidateDurableEvent :: "event_type \<Rightarrow> json option \<Rightarrow> vocab_error option" where
  "ValidateDurableEvent typ raw = validateLogEventVocabulary typ raw"

section \<open>The wire\<close>

definition wire_int_in :: "rat \<Rightarrow> rat \<Rightarrow> json option \<Rightarrow> bool" where
  "wire_int_in lo hi v =
     (case as_float v of None \<Rightarrow> False | Some n \<Rightarrow> n = of_int (trunc n) \<and> lo \<le> n \<and> n \<le> hi)"

text \<open>\<^verbatim>\<open>float64(maxInt())\<close> and \<^verbatim>\<open>float64(math.MaxInt64)\<close> both round to \<open>2 ^ 63\<close>.\<close>

definition float_max_int :: rat where
  "float_max_int = 9223372036854775808"

definition wirePositiveInt :: "json option \<Rightarrow> bool" where
  "wirePositiveInt v = (wire_int_in 0 float_max_int v \<and> as_float v \<noteq> Some 0)"

definition wireNonNegativeInt :: "json option \<Rightarrow> bool" where
  "wireNonNegativeInt v = wire_int_in 0 float_max_int v"

definition wireNonEmptyString :: "json option \<Rightarrow> bool" where
  "wireNonEmptyString v = (case as_string v of None \<Rightarrow> False | Some s \<Rightarrow> s \<noteq> [])"

definition wireStatus :: "json option \<Rightarrow> bool" where
  "wireStatus v = wire_int_in 100 599 v"

definition wirePositiveNumber :: "json option \<Rightarrow> bool" where
  "wirePositiveNumber v = (case as_float v of None \<Rightarrow> False | Some n \<Rightarrow> 0 < n)"

definition float_gt :: "json option \<Rightarrow> json option \<Rightarrow> bool" where
  "float_gt v w = (case (as_float v, as_float w) of (Some a, Some b) \<Rightarrow> b < a | _ \<Rightarrow> False)"

definition present_and_not :: "(json option \<Rightarrow> bool) \<Rightarrow> json option \<Rightarrow> bool" where
  "present_and_not P v \<longleftrightarrow> v \<noteq> None \<and> \<not> P v"

definition wire_check :: "bool \<Rightarrow> vocab_error option" where
  "wire_check b = check_that ErrMalformedWireEvent b"

definition require :: "jobject \<Rightarrow> string list \<Rightarrow> vocab_error option" where
  "require o1 fs = wire_check (list_all (\<lambda>f. jget o1 f \<noteq> None) fs)"

definition validateWireRetryFailure :: "jobject \<Rightarrow> vocab_error option" where
  "validateWireRetryFailure failure =
     first_error
       [wire_check (wireNonEmptyString (jget failure ''message'') \<and> wireNonEmptyString (jget failure ''code'')),
        wire_check (\<not> present_and_not wireStatus (jget failure ''status'')),
        wire_check (\<not> present_and_not wirePositiveNumber (jget failure ''providerRetryAfterMs'')),
        wire_check (\<not> present_and_not wireNonEmptyString (jget failure ''requestId''))]"

definition validateWireRetryData :: "jobject \<Rightarrow> vocab_error option" where
  "validateWireRetryData o1 =
     (let mode = string_or_empty (jget o1 ''mode'')
      in first_error
       [wire_check (wireNonEmptyString (jget o1 ''retryId'') \<and> wirePositiveInt (jget o1 ''turn'') \<and>
                    wirePositiveInt (jget o1 ''step'') \<and> wireNonEmptyString (jget o1 ''provider'') \<and>
                    wireNonEmptyString (jget o1 ''policyKey'') \<and> wirePositiveInt (jget o1 ''retry'')),
        wire_check (mode = ''normal'' \<or> mode = ''always''),
        wire_check (wireNonNegativeInt (jget o1 ''delayMs'') \<and>
                    \<not> float_gt (jget o1 ''delayMs'') (Some (JInt 2147483647))),
        (case as_object (jget o1 ''failure'') of
           None \<Rightarrow> Some ErrMalformedWireEvent
         | Some failure \<Rightarrow> validateWireRetryFailure failure),
        (if mode = ''normal'' then
           wire_check (wirePositiveInt (jget o1 ''maxRetries'') \<and>
                       \<not> float_gt (jget o1 ''retry'') (jget o1 ''maxRetries''))
         else wire_check (jget o1 ''maxRetries'' = None))])"

definition wire_turn_types :: "event_type list" where
  "wire_turn_types = [EventTurnStart, EventTurnEnd, EventStepStart, EventStepEnd,
     EventAssistantChunk, EventAssistantMessage, EventToolCall, EventToolResult]"

definition wire_step_types :: "event_type list" where
  "wire_step_types = [EventStepStart, EventStepEnd,
     EventAssistantChunk, EventAssistantMessage, EventToolCall, EventToolResult]"

text \<open>The \<^verbatim>\<open>switch\<close> of \<^verbatim>\<open>validateWireEventData\<close>.\<close>

definition validateWirePayload :: "event_type \<Rightarrow> jobject \<Rightarrow> vocab_error option" where
  "validateWirePayload typ o1 =
     (if typ = EventAgentInboxSpliced then require o1 [''target'', ''start'', ''inserted'']
      else if typ = EventTurnEnd then require o1 [''turn'', ''reason'']
      else if typ = EventUserMessage then require o1 [''role'', ''content'', ''source'']
      else if typ = EventAssistantChunk then require o1 [''chunk'']
      else if typ = EventAssistantMessage then require o1 [''message'']
      else if typ = EventToolCall then require o1 [''callId'', ''name'', ''arguments'']
      else if typ = EventToolResult then require o1 [''message'']
      else if typ = EventRequestHeader then require o1 [''header'', ''reason'']
      else if typ = EventRequestContext then
        first_error [require o1 [''provider'', ''model''],
          wire_check (wireNonEmptyString (jget o1 ''provider'') \<and> wireNonEmptyString (jget o1 ''model'')),
          wire_check (\<not> present_and_not wirePositiveInt (jget o1 ''contextWindow''))]
      else if typ = EventTodoWrite then
        first_error [require o1 [''todos''],
          wire_check (case jget o1 ''todos'' of Some (JArr _) \<Rightarrow> True | _ \<Rightarrow> False)]
      else if typ = EventFeedbackRecord then
        first_error [require o1 [''text''], wire_check (wireNonEmptyString (jget o1 ''text''))]
      else if typ = EventPlanCreate then
        first_error [require o1 [''scope'', ''id'', ''title''],
          wire_check (wireNonEmptyString (jget o1 ''scope'') \<and> wireNonEmptyString (jget o1 ''id'') \<and>
                      wireNonEmptyString (jget o1 ''title''))]
      else if typ = EventPlanUpdate \<or> typ = EventPlanDelete then
        first_error [require o1 [''scope'', ''id''],
          wire_check (wireNonEmptyString (jget o1 ''scope'') \<and> wireNonEmptyString (jget o1 ''id''))]
      else if typ = EventPlanStatus then
        first_error [require o1 [''scope'', ''id'', ''status''],
          wire_check (wireNonEmptyString (jget o1 ''scope'') \<and> wireNonEmptyString (jget o1 ''id'') \<and>
                      wireNonEmptyString (jget o1 ''status''))]
      else if typ = EventPlanList then
        first_error [require o1 [''count''], wire_check (wireNonNegativeInt (jget o1 ''count''))]
      else if typ = EventPlanMode then
        first_error [require o1 [''active''],
          wire_check (case jget o1 ''active'' of Some (JBool _) \<Rightarrow> True | _ \<Rightarrow> False)]
      else if typ = EventLLMRetry then
        first_error [require o1 [''retryId'', ''turn'', ''step'', ''provider'', ''mode'', ''policyKey'',
                                 ''retry'', ''delayMs'', ''failure''],
          validateWireRetryData o1]
      else if typ = EventLLMRetryStarted then
        first_error [require o1 [''retryId'', ''turn'', ''step'', ''retry''],
          wire_check (wireNonEmptyString (jget o1 ''retryId'') \<and> wirePositiveInt (jget o1 ''turn'') \<and>
                      wirePositiveInt (jget o1 ''step'') \<and> wirePositiveInt (jget o1 ''retry''))]
      else if typ = EventApprovalAsked then require o1 [''id'', ''toolName'']
      else if typ = EventApprovalDecided then require o1 [''id'', ''outcome'']
      else if typ = EventApprovalPolicy then require o1 [''policy'']
      else if typ = EventPermissionPreset then require o1 [''preset'']
      else if typ = EventSandboxMode then require o1 [''mode'']
      else if typ = EventCommandRun then require o1 [''commandId'', ''name'', ''source'']
      else if typ = EventCommandDone then require o1 [''commandId'', ''kind'']
      else None)"

definition validateWireEventData :: "event_type \<Rightarrow> json \<Rightarrow> vocab_error option" where
  "validateWireEventData typ raw =
     (case raw of
        JObj o1 \<Rightarrow>
          first_error
            [if typ \<in> set wire_turn_types then require o1 [''turn''] else None,
             if typ \<in> set wire_step_types then require o1 [''step''] else None,
             validateWirePayload typ o1]
      | _ \<Rightarrow> Some ErrMalformedWireEvent)"

definition wire_types :: "event_type list" where
  "wire_types =
     [EventTurnStart, EventTurnEnd, EventStepStart, EventStepEnd,
      EventUserMessage, EventAssistantChunk, EventAssistantMessage,
      EventToolCall, EventToolResult, EventRequestHeader, EventRequestContext, EventTodoWrite,
      EventLLMRetry, EventLLMRetryStarted,
      EventApprovalAsked, EventApprovalDecided, EventApprovalPolicy, EventPermissionPreset,
      EventSandboxMode, EventAgentInboxSpliced, EventCommandRun, EventCommandDone,
      EventFeedbackRecord, EventPlanCreate, EventPlanUpdate, EventPlanDelete,
      EventPlanStatus, EventPlanList, EventPlanMode, EventSessionTitle]"

definition knownWireEventType :: "event_type \<Rightarrow> bool" where
  "knownWireEventType typ \<longleftrightarrow> typ \<in> set wire_types"

record wire_envelope =
  we_Type :: event_type
  we_Seq :: "nat option"
  we_Time :: "int option"
  we_Data :: "json option"
  we_Ignorable :: "bool option"
  we_SurfaceOp :: "json option"

text \<open>
  \<^verbatim>\<open>ValidateWireEvent\<close> on the decoded envelope. \<^verbatim>\<open>event_type_of\<close> reads the type
  string; a \<^verbatim>\<open>json.RawMessage\<close> field is \<^const>\<open>None\<close> when its key is absent.
\<close>

definition event_types :: "event_type list" where
  "event_types = wire_types @
     [EventSteeringMessage, EventLLMRequestEnd, EventAssistantReasoning, EventLegacyToolError,
      EventToolWorkflowRunStart, EventToolWorkflowAgentStart, EventToolWorkflowAgentEnd,
      EventToolWorkflowRunEnd, EventGoalRoundStart, EventGoalRoundEnd,
      EventInteractRequest, EventInteractResolve, EventInteractCancel,
      EventTeamMember, EventTeamTask, EventTeamMessageQueued, EventTeamMessageDelivered]"

definition event_type_of :: "string \<Rightarrow> event_type" where
  "event_type_of s =
     (case List.find (\<lambda>t. event_literal t = s) event_types of Some t \<Rightarrow> t | None \<Rightarrow> EventOther s)"

definition dec_envelope :: "jobject \<Rightarrow> wire_envelope option" where
  "dec_envelope o1 = do {
     typ \<leftarrow> dec_string (jfield o1 ''type'');
     seq \<leftarrow> dec_ptr dec_uint64 (jfield o1 ''seq'');
     time \<leftarrow> dec_ptr dec_int (jfield o1 ''time'');
     ignorable \<leftarrow> dec_ptr dec_bool (jfield o1 ''ignorable'');
     Some \<lparr>we_Type = event_type_of typ, we_Seq = seq, we_Time = time,
           we_Data = jfield o1 ''data'', we_Ignorable = ignorable,
           we_SurfaceOp = jfield o1 ''surfaceOp''\<rparr> }"

definition validate_envelope :: "wire_envelope \<Rightarrow> vocab_error option" where
  "validate_envelope w =
     (case we_Data w of
        None \<Rightarrow> Some ErrMalformedWireEvent
      | Some data \<Rightarrow>
          if we_Type w = EventOther [] \<or> we_Seq w = None \<or> we_Time w = None
          then Some ErrMalformedWireEvent
          else (case ValidateEventVocabulary (we_Type w) (Some data) of
             Some e \<Rightarrow> Some e
           | None \<Rightarrow>
               if \<not> knownWireEventType (we_Type w) then
                 check_that ErrUnknownRequiredEvent (we_Ignorable w = Some True)
               else first_error
                 [wire_check (\<not> (isSurfaceEventType (we_Type w) \<and> we_SurfaceOp w = None)),
                  validateWireEventData (we_Type w) data]))"

definition ValidateWireEvent :: "json option \<Rightarrow> vocab_error option" where
  "ValidateWireEvent raw =
     (case unmarshal_struct dec_envelope raw of
        None \<Rightarrow> Some ErrMalformedWireEvent
      | Some w \<Rightarrow> validate_envelope w)"

end
