(* ===== verification/Session_Retry.thy ===== *)
theory Session_Retry
  imports Session_Contract
begin

text \<open>
  \<^verbatim>\<open>validateCanonicalRetryLifecycle\<close> of \<^verbatim>\<open>internal/session/lifecycle.go\<close>: the provider
  retry records. A scheduled retry belongs to a chain (turn, step, provider, policy), numbers of
  one chain are consecutive under one retry id, and a started row redeems one scheduled retry of
  its own turn and step, once.
\<close>

datatype retry_error =
    ErrRtObject | ErrRtCoordinate | ErrRtOutsideStep | ErrRtIdentity | ErrRtNumber | ErrRtDelay
  | ErrRtFailure | ErrRtStatus | ErrRtAfter | ErrRtRequestId | ErrRtMode | ErrRtMax | ErrRtAlwaysMax
  | ErrRtChain | ErrRtIdOwned | ErrRtProvider
  | ErrRtStartedIdentity | ErrRtStartedRepeats | ErrRtStartedUnmatched

record retryRecord =
  rr_id :: string
  rr_provider :: string
  rr_policy :: string
  rr_turn :: int
  rr_step :: int
  rr_retry :: int

record retry_state =
  rt_openTurn :: int
  rt_openStep :: int
  rt_scheduled :: "retryRecord list"
  rt_started :: "string list"
  rt_lastByChain :: "(string \<times> retryRecord) list"
  rt_requestProvider :: "(string \<times> string) list"

text \<open>The boolean of \<^verbatim>\<open>positiveInt\<close> is the option here; \<^verbatim>\<open>nonNegativeInt64\<close> too.\<close>

definition positiveInt :: "json option \<Rightarrow> int option" where
  "positiveInt v =
     (case as_float v of
        None \<Rightarrow> None
      | Some n \<Rightarrow> if n = of_int (trunc n) \<and> 0 < n \<and> n \<le> float_max_int then Some (int_of_float n) else None)"

definition nonNegativeInt64 :: "json option \<Rightarrow> int option" where
  "nonNegativeInt64 v =
     (case as_float v of
        None \<Rightarrow> None
      | Some n \<Rightarrow> if n = of_int (trunc n) \<and> 0 \<le> n \<and> n \<le> float_max_int then Some (int_of_float n) else None)"

text \<open>\<^verbatim>\<open>%d\<close>.\<close>

definition fmt_int :: "int \<Rightarrow> string" where
  "fmt_int i = (if i < 0 then CHR ''-'' # itoa (nat (- i)) else itoa (nat i))"

definition step_key :: "int \<Rightarrow> int \<Rightarrow> string" where
  "step_key turn step = fmt_int turn @ ''/'' @ fmt_int step"

definition chain_key :: "int \<Rightarrow> int \<Rightarrow> string \<Rightarrow> string \<Rightarrow> string" where
  "chain_key turn step provider policy = step_key turn step @ ''/'' @ provider @ ''/'' @ policy"

definition request_header_provider :: "jobject \<Rightarrow> string" where
  "request_header_provider d =
     (let provider = string_or_empty (jget d ''provider'') in
      if provider = [] then
        (case as_object (jget d ''header'') of
           None \<Rightarrow> []
         | Some header \<Rightarrow>
             (case as_object (jget header ''config'') of
                None \<Rightarrow> []
              | Some config \<Rightarrow> string_or_empty (jget config ''provider'')))
      else provider)"

definition retry_failure_error :: "jobject \<Rightarrow> retry_error option" where
  "retry_failure_error d =
     (case as_object (jget d ''failure'') of
        None \<Rightarrow> Some ErrRtFailure
      | Some failure \<Rightarrow> first_error
          [check_that ErrRtFailure (string_or_empty (jget failure ''message'') \<noteq> [] \<and>
                                    string_or_empty (jget failure ''code'') \<noteq> []),
           check_that ErrRtStatus (\<not> present_and_not wireStatus (jget failure ''status'')),
           check_that ErrRtAfter (\<not> present_and_not wirePositiveNumber (jget failure ''providerRetryAfterMs'')),
           check_that ErrRtRequestId (\<not> present_and_not wireNonEmptyString (jget failure ''requestId''))])"

definition retry_mode_error :: "jobject \<Rightarrow> int \<Rightarrow> retry_error option" where
  "retry_mode_error d retry =
     (let mode = string_or_empty (jget d ''mode'') in
      if mode \<noteq> ''normal'' \<and> mode \<noteq> ''always'' then Some ErrRtMode
      else if mode = ''normal'' then
        (case positiveInt (jget d ''maxRetries'') of
           None \<Rightarrow> Some ErrRtMax
         | Some mx \<Rightarrow> check_that ErrRtMax (retry \<le> mx))
      else check_that ErrRtAlwaysMax (jget d ''maxRetries'' = None))"

definition retry_chain_error :: "(string \<times> retryRecord) list \<Rightarrow> string \<Rightarrow> retryRecord \<Rightarrow> retry_error option" where
  "retry_chain_error lastByChain key r =
     (case map_of lastByChain key of
        Some previous \<Rightarrow>
          check_that ErrRtChain (rr_retry r = rr_retry previous + 1 \<and> rr_id r = rr_id previous)
      | None \<Rightarrow>
          check_that ErrRtIdOwned
            (list_all (\<lambda>(otherKey, other). otherKey = key \<or> rr_id other \<noteq> rr_id r) lastByChain))"

definition delay_ok :: "jobject \<Rightarrow> bool" where
  "delay_ok d = (case nonNegativeInt64 (jget d ''delayMs'') of None \<Rightarrow> False | Some delay \<Rightarrow> delay \<le> 2147483647)"

definition routed_ok :: "retry_state \<Rightarrow> int \<Rightarrow> int \<Rightarrow> string \<Rightarrow> bool" where
  "routed_ok s turn step provider =
     (case map_of (rt_requestProvider s) (step_key turn step) of
        None \<Rightarrow> True
      | Some routed \<Rightarrow> routed = [] \<or> routed = provider)"

text \<open>The \<^verbatim>\<open>llm/retry\<close> case: the record it schedules, or the first failing check.\<close>

definition retry_record :: "retry_state \<Rightarrow> jobject \<Rightarrow> retry_error + retryRecord" where
  "retry_record s d =
     (case (positiveInt (jget d ''turn''), positiveInt (jget d ''step'')) of
        (Some turn, Some step) \<Rightarrow>
          if rt_openTurn s \<noteq> turn \<or> rt_openStep s \<noteq> step then Inl ErrRtOutsideStep
          else
            let i = string_or_empty (jget d ''retryId'');
                provider = string_or_empty (jget d ''provider'');
                policy = string_or_empty (jget d ''policyKey'')
            in if i = [] \<or> provider = [] \<or> policy = [] then Inl ErrRtIdentity
               else (case positiveInt (jget d ''retry'') of
                  None \<Rightarrow> Inl ErrRtNumber
                | Some retry \<Rightarrow>
                    let r = \<lparr>rr_id = i, rr_provider = provider, rr_policy = policy,
                             rr_turn = turn, rr_step = step, rr_retry = retry\<rparr>
                    in (case first_error
                          [check_that ErrRtDelay (delay_ok d), retry_failure_error d, retry_mode_error d retry,
                           retry_chain_error (rt_lastByChain s) (chain_key turn step provider policy) r,
                           check_that ErrRtProvider (routed_ok s turn step provider)] of
                          Some x \<Rightarrow> Inl x
                        | None \<Rightarrow> Inr r))
      | _ \<Rightarrow> Inl ErrRtCoordinate)"

definition record_key :: "retryRecord \<Rightarrow> string" where
  "record_key r = chain_key (rr_turn r) (rr_step r) (rr_provider r) (rr_policy r)"

definition schedule_retry :: "retry_state \<Rightarrow> retryRecord \<Rightarrow> retry_state" where
  "schedule_retry s r =
     s\<lparr>rt_lastByChain := AList.update (record_key r) r (rt_lastByChain s),
       rt_scheduled := rt_scheduled s @ [r]\<rparr>"

definition started_key :: "string \<Rightarrow> int \<Rightarrow> string" where
  "started_key i retry = i @ ''/'' @ fmt_int retry"

definition retry_started_step :: "retry_state \<Rightarrow> jobject \<Rightarrow> retry_error + retry_state" where
  "retry_started_step s d =
     (case (positiveInt (jget d ''turn''), positiveInt (jget d ''step'')) of
        (Some turn, Some step) \<Rightarrow>
          let i = string_or_empty (jget d ''retryId'') in
          (case positiveInt (jget d ''retry'') of
             None \<Rightarrow> Inl ErrRtStartedIdentity
           | Some retry \<Rightarrow>
               if i = [] then Inl ErrRtStartedIdentity
               else if started_key i retry \<in> set (rt_started s) then Inl ErrRtStartedRepeats
               else (case List.find (\<lambda>r. rr_id r = i \<and> rr_retry r = retry) (rev (rt_scheduled s)) of
                  None \<Rightarrow> Inl ErrRtStartedUnmatched
                | Some match \<Rightarrow>
                    if rr_turn match \<noteq> turn \<or> rr_step match \<noteq> step then Inl ErrRtStartedUnmatched
                    else Inr (s\<lparr>rt_started := rt_started s @ [started_key i retry]\<rparr>)))
      | _ \<Rightarrow> Inl ErrRtCoordinate)"

definition retry_step :: "retry_state \<Rightarrow> event \<Rightarrow> retry_error + retry_state" where
  "retry_step s ev =
     (case lifecycleObject (ev_Data ev) of
        None \<Rightarrow> Inl ErrRtObject
      | Some d \<Rightarrow>
          if ev_Type ev = EventTurnStart then
            Inr (case positiveInt (jget d ''turn'') of
                   Some turn \<Rightarrow> s\<lparr>rt_openTurn := turn, rt_openStep := 0\<rparr> | None \<Rightarrow> s)
          else if ev_Type ev = EventTurnEnd then Inr (s\<lparr>rt_openTurn := 0, rt_openStep := 0\<rparr>)
          else if ev_Type ev = EventStepStart then
            Inr (case (positiveInt (jget d ''turn''), positiveInt (jget d ''step'')) of
                   (Some turn, Some step) \<Rightarrow> s\<lparr>rt_openTurn := turn, rt_openStep := step\<rparr> | _ \<Rightarrow> s)
          else if ev_Type ev = EventStepEnd then Inr (s\<lparr>rt_openStep := 0\<rparr>)
          else if ev_Type ev = EventRequestHeader then
            Inr (case (positiveInt (jget d ''turn''), positiveInt (jget d ''step'')) of
                   (Some turn, Some step) \<Rightarrow>
                     s\<lparr>rt_requestProvider :=
                         AList.update (step_key turn step) (request_header_provider d) (rt_requestProvider s)\<rparr>
                 | _ \<Rightarrow> s)
          else if ev_Type ev = EventLLMRetry then
            (case retry_record s d of Inl x \<Rightarrow> Inl x | Inr r \<Rightarrow> Inr (schedule_retry s r))
          else if ev_Type ev = EventLLMRetryStarted then retry_started_step s d
          else Inr s)"

definition retry_init :: retry_state where
  "retry_init = \<lparr>rt_openTurn = 0, rt_openStep = 0, rt_scheduled = [], rt_started = [],
                 rt_lastByChain = [], rt_requestProvider = []\<rparr>"

text \<open>The first loop: whether a retry row carries coordinates, up to the first that does.\<close>

fun retry_canonical :: "event list \<Rightarrow> retry_error + bool" where
  "retry_canonical [] = Inr False"
| "retry_canonical (ev # es) =
     (if ev_Type ev \<noteq> EventLLMRetry \<and> ev_Type ev \<noteq> EventLLMRetryStarted then retry_canonical es
      else (case lifecycleObject (ev_Data ev) of
         None \<Rightarrow> Inl ErrRtObject
       | Some d \<Rightarrow> if jget d ''turn'' \<noteq> None then Inr True else retry_canonical es))"

definition validateCanonicalRetryLifecycle :: "event list \<Rightarrow> retry_error option" where
  "validateCanonicalRetryLifecycle es =
     (case retry_canonical es of
        Inl x \<Rightarrow> Some x
      | Inr False \<Rightarrow> None
      | Inr True \<Rightarrow> error_of (fold_until retry_step retry_init es))"

section \<open>Chains\<close>

definition chain :: "string \<Rightarrow> retryRecord list \<Rightarrow> retryRecord list" where
  "chain k rs = filter (\<lambda>r. record_key r = k) rs"

text \<open>
  A record extends its chain by one, under the chain's id, or opens a chain under an id no record
  before it has.
\<close>

definition retry_follows :: "retryRecord list \<Rightarrow> retryRecord \<Rightarrow> bool" where
  "retry_follows pre r \<longleftrightarrow>
     (if chain (record_key r) pre = [] then \<forall>p \<in> set pre. rr_id p \<noteq> rr_id r
      else rr_retry r = rr_retry (last (chain (record_key r) pre)) + 1 \<and>
           rr_id r = rr_id (last (chain (record_key r) pre)))"

lemma chain_append [simp]: "chain k (xs @ ys) = chain k xs @ chain k ys"
  by (simp add: chain_def)

lemma chain_single [simp]: "chain k [r] = (if record_key r = k then [r] else [])"
  by (simp add: chain_def)

lemma in_chain: "r \<in> set (chain k rs) \<longleftrightarrow> r \<in> set rs \<and> record_key r = k"
  by (auto simp: chain_def)

lemma last_chain_in: "chain k rs \<noteq> [] \<Longrightarrow> last (chain k rs) \<in> set rs \<and> record_key (last (chain k rs)) = k"
  using last_in_set [of "chain k rs"] by (simp add: in_chain)

lemma schedule_ids:
  assumes "each_after retry_follows rs" and "p \<in> set rs" and "q \<in> set rs"
  shows "rr_id p = rr_id q \<longleftrightarrow> record_key p = record_key q"
  using assms
proof (induction rs arbitrary: p q rule: rev_induct)
  case (snoc r rs)
  have IH: "p \<in> set rs \<Longrightarrow> q \<in> set rs \<Longrightarrow> rr_id p = rr_id q \<longleftrightarrow> record_key p = record_key q" for p q
    using snoc by simp
  have f: "retry_follows rs r" using snoc.prems(1) by simp
  have key: "rr_id p = rr_id r \<longleftrightarrow> record_key p = record_key r" if p: "p \<in> set rs" for p
  proof (cases "chain (record_key r) rs = []")
    case True
    with f have "rr_id p \<noteq> rr_id r" using p by (simp add: retry_follows_def)
    moreover have "p \<notin> set (chain (record_key r) rs)" using True by simp
    ultimately show ?thesis using p by (simp add: in_chain)
  next
    case False
    let ?l = "last (chain (record_key r) rs)"
    from f False have "rr_id r = rr_id ?l" by (simp add: retry_follows_def)
    with IH [OF p, of ?l] last_chain_in [OF False] show ?thesis by simp
  qed
  show ?case using snoc.prems(2,3) IH [of p q] key [of p] key [of q] by auto
qed simp

text \<open>Numbers of a chain grow, so the last one is the greatest.\<close>

lemma chain_retry_le_last:
  assumes "each_after retry_follows rs" and "p \<in> set (chain k rs)"
  shows "rr_retry p \<le> rr_retry (last (chain k rs))"
  using assms
proof (induction rs rule: rev_induct)
  case (snoc r rs)
  show ?case
  proof (cases "record_key r = k")
    case True
    have f: "retry_follows rs r" using snoc.prems(1) by simp
    show ?thesis
    proof (cases "p \<in> set (chain k rs)")
      case old: True
      then have "chain k rs \<noteq> []" by auto
      with f True have "rr_retry r = rr_retry (last (chain k rs)) + 1"
        by (simp add: retry_follows_def)
      with old True snoc show ?thesis by simp
    next
      case False
      with snoc.prems True show ?thesis by simp
    qed
  next
    case False
    with snoc show ?thesis by simp
  qed
qed (simp add: chain_def)

lemma schedule_identity_distinct:
  "each_after retry_follows rs \<Longrightarrow> distinct (map (\<lambda>r. (rr_id r, rr_retry r)) rs)"
proof (induction rs rule: rev_induct)
  case (snoc r rs)
  have f: "retry_follows rs r" using snoc.prems by simp
  have "(rr_id p, rr_retry p) \<noteq> (rr_id r, rr_retry r)" if p: "p \<in> set rs" for p
  proof (cases "chain (record_key r) rs = []")
    case True
    with f p show ?thesis by (auto simp: retry_follows_def)
  next
    case False
    show ?thesis
    proof (cases "record_key p = record_key r")
      case True
      with p have "rr_retry p \<le> rr_retry (last (chain (record_key r) rs))"
        using chain_retry_le_last [of rs p "record_key r"] snoc.prems by (simp add: in_chain)
      with f False show ?thesis by (simp add: retry_follows_def)
    next
      case nk: False
      have "rr_id p \<noteq> rr_id r" using schedule_ids [OF snoc.prems, of p r] p nk by simp
      then show ?thesis by simp
    qed
  qed
  then have "(rr_id r, rr_retry r) \<notin> (\<lambda>r. (rr_id r, rr_retry r)) ` set rs" by force
  with snoc show ?case by simp
qed simp

section \<open>The invariant of the fold\<close>

definition retry_inv :: "retry_state \<Rightarrow> bool" where
  "retry_inv s \<longleftrightarrow>
     each_after retry_follows (rt_scheduled s) \<and> wf_map (rt_lastByChain s) \<and>
     (\<forall>k. map_of (rt_lastByChain s) k =
          (if chain k (rt_scheduled s) = [] then None else Some (last (chain k (rt_scheduled s))))) \<and>
     distinct (rt_started s) \<and>
     (\<forall>k \<in> set (rt_started s). \<exists>r \<in> set (rt_scheduled s). k = started_key (rr_id r) (rr_retry r))"

lemma retry_chain_follows:
  assumes inv: "retry_inv s" and ok: "retry_chain_error (rt_lastByChain s) (record_key r) r = None"
  shows "retry_follows (rt_scheduled s) r"
proof (cases "chain (record_key r) (rt_scheduled s) = []")
  case False
  with inv ok show ?thesis by (simp add: retry_inv_def retry_chain_error_def retry_follows_def)
next
  case True
  with inv have none: "map_of (rt_lastByChain s) (record_key r) = None" by (simp add: retry_inv_def)
  have "rr_id p \<noteq> rr_id r" if p: "p \<in> set (rt_scheduled s)" for p
  proof -
    let ?c = "chain (record_key p) (rt_scheduled s)"
    have pc: "p \<in> set ?c" using p by (simp add: in_chain)
    then have ne: "?c \<noteq> []" by auto
    with inv have "map_of (rt_lastByChain s) (record_key p) = Some (last ?c)" by (simp add: retry_inv_def)
    then have "(record_key p, last ?c) \<in> set (rt_lastByChain s)"
      using inv by (simp add: retry_inv_def wf_map_in_set)
    moreover have "record_key p \<noteq> record_key r" using True pc by auto
    ultimately have "rr_id (last ?c) \<noteq> rr_id r"
      using ok none by (auto simp: retry_chain_error_def list_all_iff)
    moreover have "rr_id p = rr_id (last ?c)"
      using schedule_ids [of "rt_scheduled s" p "last ?c"] inv p last_chain_in [OF ne]
      by (simp add: retry_inv_def)
    ultimately show ?thesis by simp
  qed
  with True show ?thesis by (simp add: retry_follows_def)
qed

lemma retry_record_chain:
  assumes "retry_record s d = Inr r"
  shows "retry_chain_error (rt_lastByChain s) (record_key r) r = None"
  using assms
  by (auto simp: retry_record_def record_key_def Let_def split: option.splits if_splits)

lemma schedule_retry_inv:
  assumes inv: "retry_inv s" and r: "retry_record s d = Inr r"
  shows "retry_inv (schedule_retry s r)"
proof -
  have f: "retry_follows (rt_scheduled s) r"
    by (rule retry_chain_follows [OF inv retry_record_chain [OF r]])
  with inv show ?thesis by (auto simp: retry_inv_def schedule_retry_def)
qed

lemma retry_started_inv:
  assumes inv: "retry_inv s" and r: "retry_started_step s d = Inr s'"
  shows "retry_inv s'"
proof -
  from r obtain i retry m where
    s': "s' = s\<lparr>rt_started := rt_started s @ [started_key i retry]\<rparr>"
    and new: "started_key i retry \<notin> set (rt_started s)"
    and m: "List.find (\<lambda>r. rr_id r = i \<and> rr_retry r = retry) (rev (rt_scheduled s)) = Some m"
    by (auto simp: retry_started_step_def Let_def split: option.splits if_splits)
  from m have "m \<in> set (rt_scheduled s)" "rr_id m = i" "rr_retry m = retry"
    by (auto dest: find_SomeD)
  then have "\<exists>r \<in> set (rt_scheduled s). started_key i retry = started_key (rr_id r) (rr_retry r)" by auto
  with inv new show ?thesis by (simp add: s' retry_inv_def)
qed

lemma retry_inv_frame [simp]:
  "retry_inv (s\<lparr>rt_openTurn := t, rt_openStep := p\<rparr>) = retry_inv s"
  "retry_inv (s\<lparr>rt_openTurn := t\<rparr>) = retry_inv s"
  "retry_inv (s\<lparr>rt_openStep := p\<rparr>) = retry_inv s"
  "retry_inv (s\<lparr>rt_requestProvider := m\<rparr>) = retry_inv s"
  by (simp_all add: retry_inv_def)

lemma retry_step_inv:
  assumes "retry_inv s" and "retry_step s ev = Inr s'"
  shows "retry_inv s'"
  using assms schedule_retry_inv [OF assms(1)] retry_started_inv [OF assms(1)]
  by (auto simp: retry_step_def split: option.splits if_splits sum.splits)

lemma retry_fold_inv:
  assumes "fold_until retry_step retry_init es = Inr s"
  shows "retry_inv s"
proof (rule fold_until_invariant [OF assms])
  show "retry_inv retry_init" by (simp add: retry_inv_def retry_init_def chain_def)
qed (rule retry_step_inv)

section \<open>The rows of the log\<close>

text \<open>The identity of a retry row: its id and its number in the chain.\<close>

definition retry_identity :: "event \<Rightarrow> string \<times> int option" where
  "retry_identity ev =
     (case lifecycleObject (ev_Data ev) of
        None \<Rightarrow> ([], None)
      | Some d \<Rightarrow> (string_or_empty (jget d ''retryId''), positiveInt (jget d ''retry'')))"

definition retry_rows :: "event_type \<Rightarrow> event list \<Rightarrow> (string \<times> int option) list" where
  "retry_rows t es = map retry_identity (filter (\<lambda>e. ev_Type e = t) es)"

definition retry_rel :: "event list \<Rightarrow> retry_state \<Rightarrow> bool" where
  "retry_rel es s \<longleftrightarrow>
     retry_rows EventLLMRetry es = map (\<lambda>r. (rr_id r, Some (rr_retry r))) (rt_scheduled s) \<and>
     rt_started s = map (\<lambda>(i, n). started_key i (the n)) (retry_rows EventLLMRetryStarted es) \<and>
     set (retry_rows EventLLMRetryStarted es) \<subseteq>
       (\<lambda>r. (rr_id r, Some (rr_retry r))) ` set (rt_scheduled s)"

lemma retry_rows_snoc [simp]:
  "retry_rows t (es @ [ev]) = retry_rows t es @ (if ev_Type ev = t then [retry_identity ev] else [])"
  by (simp add: retry_rows_def)

lemma retry_record_identity:
  assumes "retry_record s d = Inr r"
  shows "string_or_empty (jget d ''retryId'') = rr_id r \<and> positiveInt (jget d ''retry'') = Some (rr_retry r)"
  using assms by (auto simp: retry_record_def Let_def split: option.splits if_splits)

lemma retry_started_identity:
  assumes "retry_started_step s d = Inr s'"
  obtains n m where "positiveInt (jget d ''retry'') = Some n" and "m \<in> set (rt_scheduled s)"
    and "rr_id m = string_or_empty (jget d ''retryId'')" and "rr_retry m = n"
    and "s' = s\<lparr>rt_started := rt_started s @ [started_key (string_or_empty (jget d ''retryId'')) n]\<rparr>"
  using assms
  by (auto simp: retry_started_step_def Let_def split: option.splits if_splits dest!: find_SomeD)

lemma retry_rel_frame:
  assumes "retry_rel es s" and "rt_scheduled s' = rt_scheduled s" and "rt_started s' = rt_started s"
    and "ev_Type ev \<noteq> EventLLMRetry" and "ev_Type ev \<noteq> EventLLMRetryStarted"
  shows "retry_rel (es @ [ev]) s'"
  using assms by (simp add: retry_rel_def)

lemma retry_rel_step:
  assumes rel: "retry_rel es s" and step: "retry_step s ev = Inr s'"
  shows "retry_rel (es @ [ev]) s'"
proof -
  from step obtain d where d: "lifecycleObject (ev_Data ev) = Some d"
    by (auto simp: retry_step_def split: option.splits)
  consider (retry) "ev_Type ev = EventLLMRetry" | (start) "ev_Type ev = EventLLMRetryStarted"
    | (other) "ev_Type ev \<noteq> EventLLMRetry" "ev_Type ev \<noteq> EventLLMRetryStarted" by blast
  then show ?thesis
  proof cases
    case retry
    with step d obtain r where r: "retry_record s d = Inr r" and s': "s' = schedule_retry s r"
      by (auto simp: retry_step_def split: sum.splits)
    from retry_record_identity [OF r] d have "retry_identity ev = (rr_id r, Some (rr_retry r))"
      by (simp add: retry_identity_def)
    with rel retry show ?thesis by (auto simp: retry_rel_def s' schedule_retry_def)
  next
    case start
    with step d have "retry_started_step s d = Inr s'" by (simp add: retry_step_def)
    then obtain n m where *: "positiveInt (jget d ''retry'') = Some n" "m \<in> set (rt_scheduled s)"
      "rr_id m = string_or_empty (jget d ''retryId'')" "rr_retry m = n"
      "s' = s\<lparr>rt_started := rt_started s @ [started_key (string_or_empty (jget d ''retryId'')) n]\<rparr>"
      by (rule retry_started_identity)
    then have "retry_identity ev = (rr_id m, Some (rr_retry m))" using d by (simp add: retry_identity_def)
    moreover have "(rr_id m, Some (rr_retry m)) \<in> (\<lambda>r. (rr_id r, Some (rr_retry r))) ` set (rt_scheduled s)"
      using *(2) by (rule imageI)
    ultimately show ?thesis using rel start * by (auto simp: retry_rel_def)
  next
    case other
    have "rt_scheduled s' = rt_scheduled s \<and> rt_started s' = rt_started s"
      using step other d by (auto simp: retry_step_def split: option.splits if_splits)
    with rel other show ?thesis by (intro retry_rel_frame [OF rel]) simp_all
  qed
qed

lemma retry_fold_rel:
  assumes "fold_until retry_step retry_init es = Inr s"
  shows "retry_rel es s"
proof (rule fold_until_history [OF assms])
  show "retry_rel [] retry_init" by (simp add: retry_rel_def retry_init_def retry_rows_def)
qed (rule retry_rel_step)

text \<open>
  Fact: in a log with retry coordinates that the validator accepts, an attempt (a retry id and its
  number) is scheduled by at most one row and redeemed by at most one started row, and at every
  prefix each redeemed attempt has been scheduled before.
\<close>

theorem retry_attempts_unique:
  assumes "validateCanonicalRetryLifecycle es = None" and "retry_canonical es = Inr True"
  shows "distinct (retry_rows EventLLMRetry es) \<and> distinct (retry_rows EventLLMRetryStarted es) \<and>
    (\<forall>pre post. es = pre @ post \<longrightarrow>
       set (retry_rows EventLLMRetryStarted pre) \<subseteq> set (retry_rows EventLLMRetry pre))"
proof -
  from assms obtain s where f: "fold_until retry_step retry_init es = Inr s"
    by (auto simp: validateCanonicalRetryLifecycle_def)
  have rel: "retry_rel es s" by (rule retry_fold_rel [OF f])
  have inv: "retry_inv s" by (rule retry_fold_inv [OF f])
  have "distinct (map (\<lambda>r. (rr_id r, rr_retry r)) (rt_scheduled s))"
    using schedule_identity_distinct inv by (simp add: retry_inv_def)
  then have "distinct (map (\<lambda>r. (rr_id r, Some (rr_retry r))) (rt_scheduled s))"
    by (auto simp: distinct_map inj_on_def)
  moreover have "set (retry_rows EventLLMRetryStarted pre) \<subseteq> set (retry_rows EventLLMRetry pre)"
    if "es = pre @ post" for pre post
  proof -
    from f that obtain s1 where "fold_until retry_step retry_init pre = Inr s1"
      using fold_until_prefix by metis
    from retry_fold_rel [OF this] show ?thesis by (simp add: retry_rel_def)
  qed
  moreover have "distinct (retry_rows EventLLMRetryStarted es)"
    using rel inv by (auto simp: retry_rel_def retry_inv_def distinct_map)
  ultimately show ?thesis using rel by (simp add: retry_rel_def)
qed

definition sample_row :: "nat \<Rightarrow> event_type \<Rightarrow> jobject \<Rightarrow> event" where
  "sample_row n t o1 = \<lparr>ev_Seq = n, ev_Type = t, ev_At = 5, ev_Version = 1, ev_Data = Some (JObj o1)\<rparr>"

definition sample_retries :: "event list" where
  "sample_retries =
     [sample_row 1 EventTurnStart [(''turn'', JInt 1)],
      sample_row 2 EventStepStart [(''turn'', JInt 1), (''step'', JInt 1)],
      sample_row 3 EventLLMRetry
        [(''turn'', JInt 1), (''step'', JInt 1), (''retryId'', JStr ''r''), (''provider'', JStr ''p''),
         (''policyKey'', JStr ''k''), (''mode'', JStr ''normal''), (''maxRetries'', JInt 2),
         (''retry'', JInt 1), (''delayMs'', JInt 10),
         (''failure'', JObj [(''message'', JStr ''m''), (''code'', JStr ''c'')])],
      sample_row 4 EventLLMRetryStarted
        [(''turn'', JInt 1), (''step'', JInt 1), (''retryId'', JStr ''r''), (''retry'', JInt 1)]]"

lemma retry_attempts_unique_witness:
  "distinct (retry_rows EventLLMRetry sample_retries) \<and>
   distinct (retry_rows EventLLMRetryStarted sample_retries) \<and>
   set (retry_rows EventLLMRetryStarted (take 4 sample_retries)) \<subseteq> set (retry_rows EventLLMRetry (take 4 sample_retries))"
proof -
  have "validateCanonicalRetryLifecycle sample_retries = None" by code_simp
  moreover have "retry_canonical sample_retries = Inr True" by code_simp
  moreover have "sample_retries = take 4 sample_retries @ drop 4 sample_retries" by simp
  ultimately show ?thesis using retry_attempts_unique by blast
qed


end
