(* ===== verification/Session_Lifecycle.thy ===== *)
theory Session_Lifecycle
  imports Session_Commands Session_Workflow Session_Provenance Session_Retry
begin

text \<open>
  The turn/step grammar of the log: \<^verbatim>\<open>HasOpenTurn\<close> and \<^verbatim>\<open>ValidateLifecycle\<close> of
  \<^verbatim>\<open>internal/session/session.go\<close>, \<^verbatim>\<open>validateCanonicalLifecycle\<close> of
  \<^verbatim>\<open>lifecycle.go\<close>. The brackets are proved to be a regular language; with explicit
  coordinates the turns are numbered from 1 and a tool result answers a call of its own step.
\<close>

datatype lifecycle_error =
    ErrSeqNotMonotonic nat nat | ErrTurnStartWhileOpen nat | ErrTurnEndOpen | ErrStepStartOutside
  | ErrStepEndWithoutStart | ErrStepRemainsOpen nat | ErrTurnRemainsOpen nat
  | ErrNotObject | ErrCoordinate string | ErrNamesOther int int int int
  | ErrTurnExpected int int | ErrTurnEndMismatch int int | ErrStepExpected int int int int
  | ErrToolCallId | ErrToolResultId | ErrToolResultUnpaired string | ErrNamesClosedTurn int int

datatype session_error =
    SErrVocabulary vocab_error | SErrLifecycle lifecycle_error | SErrRetry retry_error
  | SErrWorkflow workflow_error | SErrCommand command_error | SErrProvenance provenance_error
  | SErrFirstSeq nat | SErrSeqGap nat nat | SErrPersistedSeq nat nat | SErrInvalidPersisted
  | SErrSink string | SErrMarshal | SErrNilCommit | SErrInvalidAtomic

definition HasOpenTurn :: "event list \<Rightarrow> bool" where
  "HasOpenTurn es =
     fold (\<lambda>ev opn. if ev_Type ev = EventTurnStart then True
                    else if ev_Type ev = EventTurnEnd then False else opn) es False"

section \<open>Brackets\<close>

record bracket_state =
  br_turn :: nat
  br_step :: nat
  br_last :: nat
  br_seen :: bool

definition bracket_anchor :: "bracket_state \<Rightarrow> event_type \<Rightarrow> lifecycle_error + bracket_state" where
  "bracket_anchor s t =
     (if t = EventTurnStart then
        (if br_turn s \<noteq> 0 then Inl (ErrTurnStartWhileOpen (br_turn s)) else Inr (s\<lparr>br_turn := br_turn s + 1\<rparr>))
      else if t = EventTurnEnd then
        (if br_turn s = 0 \<or> br_step s \<noteq> 0 then Inl ErrTurnEndOpen else Inr (s\<lparr>br_turn := 0\<rparr>))
      else if t = EventStepStart then
        (if br_turn s = 0 \<or> br_step s \<noteq> 0 then Inl ErrStepStartOutside else Inr (s\<lparr>br_step := br_step s + 1\<rparr>))
      else if t = EventStepEnd then
        (if br_turn s = 0 \<or> br_step s = 0 then Inl ErrStepEndWithoutStart else Inr (s\<lparr>br_step := 0\<rparr>))
      else Inr s)"

definition bracket_step :: "bracket_state \<Rightarrow> event \<Rightarrow> session_error + bracket_state" where
  "bracket_step s ev =
     (case validateLogEventVocabulary (ev_Type ev) (ev_Data ev) of
        Some x \<Rightarrow> Inl (SErrVocabulary x)
      | None \<Rightarrow>
          if br_seen s \<and> ev_Seq ev \<le> br_last s
          then Inl (SErrLifecycle (ErrSeqNotMonotonic (ev_Seq ev) (br_last s)))
          else (case bracket_anchor (s\<lparr>br_last := ev_Seq ev, br_seen := True\<rparr>) (ev_Type ev) of
                  Inl x \<Rightarrow> Inl (SErrLifecycle x) | Inr s' \<Rightarrow> Inr s'))"

definition bracket_init :: bracket_state where
  "bracket_init = \<lparr>br_turn = 0, br_step = 0, br_last = 0, br_seen = False\<rparr>"

definition bracket_error :: "event list \<Rightarrow> session_error option" where
  "bracket_error es =
     (case fold_until bracket_step bracket_init es of
        Inl x \<Rightarrow> Some x
      | Inr s \<Rightarrow> first_error
          [check_that (SErrLifecycle (ErrStepRemainsOpen (br_step s))) (br_step s = 0),
           check_that (SErrLifecycle (ErrTurnRemainsOpen (br_turn s))) (br_turn s = 0)])"

section \<open>Coordinates\<close>

definition canonicalLifecycle :: "event list \<Rightarrow> bool" where
  "canonicalLifecycle es =
     list_ex (\<lambda>ev. (ev_Type ev = EventTurnStart \<or> ev_Type ev = EventStepStart) \<and>
        (case unmarshal_map (ev_Data ev) of None \<Rightarrow> False | Some d \<Rightarrow> jget d ''turn'' \<noteq> None)) es"

definition coord :: "jobject \<Rightarrow> string \<Rightarrow> int option" where
  "coord d key =
     (case as_float (jget d key) of
        None \<Rightarrow> None
      | Some v \<Rightarrow> if v \<noteq> of_int (int_of_float v) \<or> int_of_float v \<le> 0 then None else Some (int_of_float v))"

record canon_state =
  cn_openTurn :: int
  cn_openStep :: int
  cn_nextTurn :: int
  cn_nextStep :: int
  cn_pending :: "string list"

definition toolResultCallID :: "jobject \<Rightarrow> string" where
  "toolResultCallID d =
     (let callID = string_or_empty (jget d ''callId'') in
      if callID \<noteq> [] then callID
      else let message = object_or_nil (jget d ''message'');
               source = object_or_nil (jget message ''source'')
           in string_or_empty (jget source ''callId''))"

definition toolResultErrorCode :: "jobject \<Rightarrow> string" where
  "toolResultErrorCode d = string_or_empty (jget (object_or_nil (jget d ''error'')) ''code'')"

definition requireOpen :: "canon_state \<Rightarrow> jobject \<Rightarrow> lifecycle_error option" where
  "requireOpen s d =
     (case coord d ''turn'' of
        None \<Rightarrow> Some (ErrCoordinate ''turn'')
      | Some turn \<Rightarrow>
          (case coord d ''step'' of
             None \<Rightarrow> Some (ErrCoordinate ''step'')
           | Some step \<Rightarrow>
               check_that (ErrNamesOther turn step (cn_openTurn s) (cn_openStep s))
                 (cn_openTurn s = turn \<and> cn_openStep s = step)))"

definition canon_turn_start :: "canon_state \<Rightarrow> jobject \<Rightarrow> lifecycle_error + canon_state" where
  "canon_turn_start s d =
     (case coord d ''turn'' of
        None \<Rightarrow> Inl (ErrCoordinate ''turn'')
      | Some turn \<Rightarrow>
          if cn_openTurn s \<noteq> 0 \<or> turn \<noteq> cn_nextTurn s then Inl (ErrTurnExpected (cn_nextTurn s) turn)
          else Inr (s\<lparr>cn_openTurn := turn, cn_openStep := 0, cn_nextStep := 1, cn_pending := []\<rparr>))"

definition canon_turn_end :: "canon_state \<Rightarrow> jobject \<Rightarrow> lifecycle_error + canon_state" where
  "canon_turn_end s d =
     (case coord d ''turn'' of
        None \<Rightarrow> Inl (ErrCoordinate ''turn'')
      | Some turn \<Rightarrow>
          if cn_openTurn s \<noteq> turn \<or> cn_openStep s \<noteq> 0 then Inl (ErrTurnEndMismatch turn (cn_openStep s))
          else Inr (s\<lparr>cn_openTurn := 0, cn_nextTurn := cn_nextTurn s + 1, cn_pending := []\<rparr>))"

definition canon_step_start :: "canon_state \<Rightarrow> jobject \<Rightarrow> lifecycle_error + canon_state" where
  "canon_step_start s d =
     (case coord d ''turn'' of
        None \<Rightarrow> Inl (ErrCoordinate ''turn'')
      | Some turn \<Rightarrow>
          (case coord d ''step'' of
             None \<Rightarrow> Inl (ErrCoordinate ''step'')
           | Some step \<Rightarrow>
               if cn_openTurn s \<noteq> turn \<or> cn_openStep s \<noteq> 0 \<or> step \<noteq> cn_nextStep s
               then Inl (ErrStepExpected (cn_openTurn s) (cn_nextStep s) turn step)
               else Inr (s\<lparr>cn_openStep := step\<rparr>)))"

definition canon_tool_call :: "canon_state \<Rightarrow> jobject \<Rightarrow> lifecycle_error + canon_state" where
  "canon_tool_call s d =
     (case requireOpen s d of
        Some x \<Rightarrow> Inl x
      | None \<Rightarrow>
          let callID = string_or_empty (jget d ''callId'') in
          if callID = [] then Inl ErrToolCallId
          else Inr (s\<lparr>cn_pending := List.insert callID (cn_pending s)\<rparr>))"

definition canon_tool_result :: "canon_state \<Rightarrow> jobject \<Rightarrow> lifecycle_error + canon_state" where
  "canon_tool_result s d =
     (case requireOpen s d of
        Some x \<Rightarrow> Inl x
      | None \<Rightarrow>
          let callID = toolResultCallID d in
          if callID = [] then Inl ErrToolResultId
          else if callID \<notin> set (cn_pending s) \<and> toolResultErrorCode d \<noteq> ''TOOL_NOT_STARTED''
          then Inl (ErrToolResultUnpaired callID)
          else Inr (s\<lparr>cn_pending := removeAll callID (cn_pending s)\<rparr>))"

definition canon_scoped :: "canon_state \<Rightarrow> jobject \<Rightarrow> lifecycle_error + canon_state" where
  "canon_scoped s d =
     (if jget d ''turn'' = None then Inr s
      else (case coord d ''turn'' of
         None \<Rightarrow> Inl (ErrCoordinate ''turn'')
       | Some turn \<Rightarrow>
           if cn_openTurn s \<noteq> turn then Inl (ErrNamesClosedTurn turn (cn_openTurn s)) else Inr s))"

definition scoped_types :: "event_type list" where
  "scoped_types = [EventRequestHeader, EventRequestContext, EventTodoWrite, EventLLMRetry, EventLLMRetryStarted]"

definition canon_step :: "canon_state \<Rightarrow> event \<Rightarrow> lifecycle_error + canon_state" where
  "canon_step s ev =
     (case lifecycleObject (ev_Data ev) of
        None \<Rightarrow> Inl ErrNotObject
      | Some d \<Rightarrow>
          let t = ev_Type ev in
          if t = EventTurnStart then canon_turn_start s d
          else if t = EventTurnEnd then canon_turn_end s d
          else if t = EventStepStart then canon_step_start s d
          else if t = EventStepEnd then
            (case requireOpen s d of
               Some x \<Rightarrow> Inl x
             | None \<Rightarrow> Inr (s\<lparr>cn_openStep := 0, cn_nextStep := cn_nextStep s + 1, cn_pending := []\<rparr>))
          else if t = EventToolCall then canon_tool_call s d
          else if t = EventAssistantChunk \<or> t = EventAssistantReasoning \<or> t = EventAssistantMessage then
            (case requireOpen s d of Some x \<Rightarrow> Inl x | None \<Rightarrow> Inr s)
          else if t = EventToolResult then canon_tool_result s d
          else if t \<in> set scoped_types then canon_scoped s d
          else Inr s)"

definition canon_init :: canon_state where
  "canon_init = \<lparr>cn_openTurn = 0, cn_openStep = 0, cn_nextTurn = 1, cn_nextStep = 1, cn_pending = []\<rparr>"

definition validateCanonicalLifecycle :: "event list \<Rightarrow> lifecycle_error option" where
  "validateCanonicalLifecycle es =
     (if \<not> canonicalLifecycle es then None else error_of (fold_until canon_step canon_init es))"

definition ValidateLifecycle :: "event list \<Rightarrow> session_error option" where
  "ValidateLifecycle es = first_error
     [bracket_error es,
      map_option SErrLifecycle (validateCanonicalLifecycle es),
      map_option SErrRetry (validateCanonicalRetryLifecycle es),
      map_option SErrWorkflow (validateWorkflowRecordLifecycle es),
      map_option SErrCommand (validateCommandLifecycle es)]"

section \<open>The language of the brackets\<close>

definition is_anchor :: "event_type \<Rightarrow> bool" where
  "is_anchor t \<longleftrightarrow> t \<in> {EventTurnStart, EventTurnEnd, EventStepStart, EventStepEnd}"

definition anchors :: "event list \<Rightarrow> event_type list" where
  "anchors es = filter is_anchor (map ev_Type es)"

inductive steps :: "event_type list \<Rightarrow> bool" where
  steps_Nil: "steps []"
| steps_Cons: "steps w \<Longrightarrow> steps (w @ [EventStepStart, EventStepEnd])"

inductive turns :: "event_type list \<Rightarrow> bool" where
  turns_Nil: "turns []"
| turns_Cons: "turns w \<Longrightarrow> steps v \<Longrightarrow> turns (w @ EventTurnStart # v @ [EventTurnEnd])"

text \<open>The words that lead to each state of the loop.\<close>

definition bracket_rel :: "event_type list \<Rightarrow> bracket_state \<Rightarrow> bool" where
  "bracket_rel w s \<longleftrightarrow>
     (br_turn s = 0 \<and> br_step s = 0 \<and> turns w) \<or>
     (br_turn s = 1 \<and> br_step s = 0 \<and> (\<exists>u v. w = u @ EventTurnStart # v \<and> turns u \<and> steps v)) \<or>
     (br_turn s = 1 \<and> br_step s = 1 \<and>
        (\<exists>u v. w = u @ EventTurnStart # v @ [EventStepStart] \<and> turns u \<and> steps v))"

lemma steps_types: "steps w \<Longrightarrow> set w \<subseteq> {EventStepStart, EventStepEnd}"
  by (induction rule: steps.induct) auto

lemma turns_last: "turns w \<Longrightarrow> w = [] \<or> last w = EventTurnEnd"
  by (induction rule: turns.induct) auto

lemma steps_last: "steps w \<Longrightarrow> w = [] \<or> last w = EventStepEnd"
  by (induction rule: steps.induct) auto

lemma bracket_rel_TurnStart:
  "bracket_rel w s \<Longrightarrow> br_turn s = 0 \<Longrightarrow> bracket_rel (w @ [EventTurnStart]) (s\<lparr>br_turn := Suc 0\<rparr>)"
  using steps_Nil by (fastforce simp: bracket_rel_def)

lemma bracket_rel_TurnEnd:
  assumes "bracket_rel w s" and "br_turn s \<noteq> 0" and "br_step s = 0"
  shows "bracket_rel (w @ [EventTurnEnd]) (s\<lparr>br_turn := 0\<rparr>)"
proof -
  from assms obtain u v where "w = u @ EventTurnStart # v" "turns u" "steps v"
    by (auto simp: bracket_rel_def)
  then have "turns (w @ [EventTurnEnd])" using turns_Cons [of u v] by simp
  with assms show ?thesis by (simp add: bracket_rel_def)
qed

lemma bracket_rel_StepStart:
  assumes "bracket_rel w s" and "br_turn s \<noteq> 0" and "br_step s = 0"
  shows "bracket_rel (w @ [EventStepStart]) (s\<lparr>br_step := Suc 0\<rparr>)"
  using assms by (auto simp: bracket_rel_def)

lemma bracket_rel_StepEnd:
  assumes "bracket_rel w s" and "br_turn s \<noteq> 0" and "br_step s \<noteq> 0"
  shows "bracket_rel (w @ [EventStepEnd]) (s\<lparr>br_step := 0\<rparr>)"
proof -
  from assms obtain u v where "w = u @ EventTurnStart # v @ [EventStepStart]" "turns u" "steps v"
    by (auto simp: bracket_rel_def)
  then have "w @ [EventStepEnd] = u @ EventTurnStart # (v @ [EventStepStart, EventStepEnd])"
    and "steps (v @ [EventStepStart, EventStepEnd])" by (simp_all add: steps_Cons)
  with assms \<open>turns u\<close> show ?thesis by (auto simp: bracket_rel_def)
qed

lemma bracket_anchor_rel:
  assumes "bracket_rel w s" and "bracket_anchor s t = Inr s'"
  shows "bracket_rel (w @ (if is_anchor t then [t] else [])) s'"
  using assms bracket_rel_TurnStart bracket_rel_TurnEnd bracket_rel_StepStart bracket_rel_StepEnd
  by (auto simp: bracket_anchor_def is_anchor_def split: if_splits)

lemma bracket_rel_frame [simp]: "bracket_rel w (s\<lparr>br_last := n, br_seen := b\<rparr>) = bracket_rel w s"
  by (simp add: bracket_rel_def)

lemma anchors_snoc: "anchors (es @ [ev]) = anchors es @ (if is_anchor (ev_Type ev) then [ev_Type ev] else [])"
  by (simp add: anchors_def)

lemma bracket_fold_rel:
  assumes "fold_until bracket_step bracket_init es = Inr s"
  shows "bracket_rel (anchors es) s"
proof (rule fold_until_history [OF assms])
  show "bracket_rel (anchors []) bracket_init"
    by (simp add: bracket_rel_def bracket_init_def anchors_def turns_Nil)
next
  fix es s e s' assume "bracket_rel (anchors es) s" and "bracket_step s e = Inr s'"
  then show "bracket_rel (anchors (es @ [e])) s'"
    unfolding anchors_snoc
    by (intro bracket_anchor_rel [of _ "s\<lparr>br_last := ev_Seq e, br_seen := True\<rparr>"])
       (auto simp: bracket_step_def split: option.splits if_splits sum.splits)
qed

lemma bracket_ok_turns:
  assumes "bracket_error es = None"
  shows "turns (anchors es)"
proof -
  from assms obtain s where "fold_until bracket_step bracket_init es = Inr s"
    and "br_step s = 0" "br_turn s = 0"
    by (auto simp: bracket_error_def split: sum.splits)
  with bracket_fold_rel [of es s] show ?thesis by (simp add: bracket_rel_def)
qed

text \<open>Conversely the loop runs through every word of the language.\<close>

lemma bracket_anchor_accepts:
  "br_turn s = 0 \<Longrightarrow> bracket_anchor s EventTurnStart = Inr (s\<lparr>br_turn := Suc 0\<rparr>)"
  "br_turn s \<noteq> 0 \<Longrightarrow> br_step s = 0 \<Longrightarrow> bracket_anchor s EventTurnEnd = Inr (s\<lparr>br_turn := 0\<rparr>)"
  "br_turn s \<noteq> 0 \<Longrightarrow> br_step s = 0 \<Longrightarrow> bracket_anchor s EventStepStart = Inr (s\<lparr>br_step := Suc 0\<rparr>)"
  "br_turn s \<noteq> 0 \<Longrightarrow> br_step s \<noteq> 0 \<Longrightarrow> bracket_anchor s EventStepEnd = Inr (s\<lparr>br_step := 0\<rparr>)"
  by (simp_all add: bracket_anchor_def)

lemma anchor_steps:
  "steps v \<Longrightarrow> br_turn s \<noteq> 0 \<Longrightarrow> br_step s = 0 \<Longrightarrow>
     \<exists>s'. fold_until bracket_anchor s v = Inr s' \<and> br_turn s' = br_turn s \<and> br_step s' = 0"
proof (induction arbitrary: s rule: steps.induct)
  case (steps_Cons w)
  then obtain s1 where "fold_until bracket_anchor s w = Inr s1" "br_turn s1 = br_turn s" "br_step s1 = 0"
    by blast
  with steps_Cons.prems show ?case by (simp add: fold_until_append bracket_anchor_accepts)
qed simp

lemma anchor_turns:
  "turns w \<Longrightarrow> br_turn s = 0 \<Longrightarrow> br_step s = 0 \<Longrightarrow>
     \<exists>s'. fold_until bracket_anchor s w = Inr s' \<and> br_turn s' = 0 \<and> br_step s' = 0"
proof (induction arbitrary: s rule: turns.induct)
  case (turns_Cons w v)
  then obtain s1 where s1: "fold_until bracket_anchor s w = Inr s1" "br_turn s1 = 0" "br_step s1 = 0"
    by blast
  let ?s2 = "s1\<lparr>br_turn := Suc 0\<rparr>"
  obtain s3 where "fold_until bracket_anchor ?s2 v = Inr s3" "br_turn s3 = Suc 0" "br_step s3 = 0"
    using anchor_steps [OF turns_Cons.hyps(2), of ?s2] s1 by auto
  with s1 show ?case by (simp add: fold_until_append bracket_anchor_accepts)
qed simp

lemma bracket_anchor_same:
  assumes "bracket_anchor t x = Inr t'" and "br_turn s = br_turn t" and "br_step s = br_step t"
  shows "\<exists>s'. bracket_anchor s x = Inr s' \<and> br_turn s' = br_turn t' \<and> br_step s' = br_step t' \<and>
           br_last s' = br_last s \<and> br_seen s' = br_seen s"
  using assms by (auto simp: bracket_anchor_def split: if_splits)

lemma anchor_other: "\<not> is_anchor t \<Longrightarrow> bracket_anchor s t = Inr s"
  by (simp add: bracket_anchor_def is_anchor_def)

definition vocabulary_ok :: "event list \<Rightarrow> bool" where
  "vocabulary_ok es \<longleftrightarrow> (\<forall>ev \<in> set es. validateLogEventVocabulary (ev_Type ev) (ev_Data ev) = None)"

lemma bracket_step_same:
  assumes "validateLogEventVocabulary (ev_Type ev) (ev_Data ev) = None"
    and "br_seen s \<longrightarrow> br_last s < ev_Seq ev"
    and "fold_until bracket_anchor t (anchors [ev]) = Inr t'"
    and "br_turn s = br_turn t" and "br_step s = br_step t"
  shows "\<exists>s'. bracket_step s ev = Inr s' \<and> br_turn s' = br_turn t' \<and> br_step s' = br_step t' \<and>
           br_last s' = ev_Seq ev \<and> br_seen s'"
proof -
  have "bracket_anchor t (ev_Type ev) = Inr t'"
    using assms(3) by (auto simp: anchors_def anchor_other split: if_splits sum.splits)
  from bracket_anchor_same [OF this, of "s\<lparr>br_last := ev_Seq ev, br_seen := True\<rparr>"] assms
  obtain s' where "bracket_anchor (s\<lparr>br_last := ev_Seq ev, br_seen := True\<rparr>) (ev_Type ev) = Inr s'"
    "br_turn s' = br_turn t'" "br_step s' = br_step t'" "br_last s' = ev_Seq ev" "br_seen s'" by auto
  with assms(1,2) show ?thesis by (auto simp: bracket_step_def)
qed

lemma anchors_Cons: "anchors (ev # es) = anchors [ev] @ anchors es"
  by (simp add: anchors_def)

lemma bracket_fold_same:
  assumes "vocabulary_ok es" and "contiguous_from n es" and "br_seen s \<longrightarrow> br_last s < n"
    and "fold_until bracket_anchor t (anchors es) = Inr t'"
    and "br_turn s = br_turn t" and "br_step s = br_step t"
  shows "\<exists>s'. fold_until bracket_step s es = Inr s' \<and> br_turn s' = br_turn t' \<and> br_step s' = br_step t'"
  using assms
proof (induction es arbitrary: n s t)
  case Nil
  then show ?case by (simp add: anchors_def)
next
  case (Cons ev es)
  from Cons.prems(4) obtain t1 where t1: "fold_until bracket_anchor t (anchors [ev]) = Inr t1"
    and rest: "fold_until bracket_anchor t1 (anchors es) = Inr t'"
    by (auto simp: anchors_Cons [of ev es] fold_until_append split: sum.splits)
  obtain s1 where s1: "bracket_step s ev = Inr s1" "br_turn s1 = br_turn t1" "br_step s1 = br_step t1"
    "br_last s1 = ev_Seq ev" "br_seen s1"
    using bracket_step_same [OF _ _ t1 Cons.prems(5,6)] Cons.prems(1-3)
    by (auto simp: vocabulary_ok_def)
  have "\<exists>s'. fold_until bracket_step s1 es = Inr s' \<and> br_turn s' = br_turn t' \<and> br_step s' = br_step t'"
    by (rule Cons.IH [OF _ _ _ rest s1(2,3), of "Suc n"])
       (use Cons.prems(1,2) s1 in \<open>auto simp: vocabulary_ok_def\<close>)
  with s1 show ?case by simp
qed

text \<open>
  C7: on a contiguous log of known rows the bracket loop of \<^verbatim>\<open>ValidateLifecycle\<close> accepts exactly
  the logs whose turn and step rows form a sequence of closed turns, each a sequence of closed steps.
\<close>

theorem lifecycle_brackets_spec:
  assumes "vocabulary_ok es" and "contiguous es"
  shows "bracket_error es = None \<longleftrightarrow> turns (anchors es)"
proof
  assume "turns (anchors es)"
  then obtain t where t: "fold_until bracket_anchor bracket_init (anchors es) = Inr t" "br_turn t = 0" "br_step t = 0"
    using anchor_turns [of "anchors es" bracket_init] by (auto simp: bracket_init_def)
  obtain n where "contiguous_from n es" using assms(2) by (auto simp: contiguous_def)
  from bracket_fold_same [OF assms(1) this _ t(1), of bracket_init] t
  obtain s where "fold_until bracket_step bracket_init es = Inr s" "br_turn s = 0" "br_step s = 0"
    by (auto simp: bracket_init_def)
  then show "bracket_error es = None" by (simp add: bracket_error_def)
qed (rule bracket_ok_turns)

definition sample_turn :: "event list" where
  "sample_turn =
     [sample_row 1 EventTurnStart [(''turn'', JInt 1)],
      sample_row 2 EventStepStart [(''turn'', JInt 1), (''step'', JInt 1)],
      sample_row 3 EventAssistantMessage [(''turn'', JInt 1), (''step'', JInt 1)],
      sample_row 4 EventToolCall [(''turn'', JInt 1), (''step'', JInt 1), (''callId'', JStr ''c'')],
      sample_row 5 EventToolResult [(''turn'', JInt 1), (''step'', JInt 1), (''callId'', JStr ''c'')],
      sample_row 6 EventStepEnd [(''turn'', JInt 1), (''step'', JInt 1)],
      sample_row 7 EventTurnEnd [(''turn'', JInt 1)]]"

lemma sample_turn_contiguous: "contiguous sample_turn"
  unfolding contiguous_def by (rule exI [of _ 1]) (simp add: sample_turn_def sample_row_def)

lemma lifecycle_brackets_spec_witness: "bracket_error sample_turn = None \<and> turns (anchors sample_turn)"
proof -
  have v: "vocabulary_ok sample_turn" by code_simp
  have "bracket_error sample_turn = None" by code_simp
  then show ?thesis using lifecycle_brackets_spec [OF v sample_turn_contiguous] by simp
qed

definition turn_toggle :: "event_type \<Rightarrow> bool \<Rightarrow> bool" where
  "turn_toggle t opn = (if t = EventTurnStart then True else if t = EventTurnEnd then False else opn)"

lemma HasOpenTurn_anchors: "HasOpenTurn es = fold turn_toggle (anchors es) False"
proof -
  have "fold (\<lambda>ev opn. if ev_Type ev = EventTurnStart then True
          else if ev_Type ev = EventTurnEnd then False else opn) es b = fold turn_toggle (anchors es) b" for b
    by (induction es arbitrary: b) (auto simp: anchors_def turn_toggle_def is_anchor_def)
  then show ?thesis by (simp add: HasOpenTurn_def)
qed

lemma turns_toggle: "turns w \<Longrightarrow> fold turn_toggle w False = False"
  by (induction rule: turns.induct) (simp_all add: turn_toggle_def)

text \<open>
  Fact: a log that \<^verbatim>\<open>ValidateLifecycle\<close> accepts has balanced brackets, no open turn, consistent
  command and workflow records and, with contiguous positions, every command row in order.
\<close>

theorem validated_log_closed:
  assumes "ValidateLifecycle es = None"
  shows "turns (anchors es) \<and> \<not> HasOpenTurn es \<and> each_after workflow_row_ok es \<and>
    (contiguous es \<longrightarrow> each_after command_row_ok es)"
proof -
  from assms have "bracket_error es = None" "validateWorkflowRecordLifecycle es = None"
    "validateCommandLifecycle es = None"
    by (simp_all add: ValidateLifecycle_def)
  then show ?thesis
    using bracket_ok_turns [of es] turns_toggle HasOpenTurn_anchors wfl.accept_iff [of es] cmd.accept_iff [of es]
    by (simp add: validateWorkflowRecordLifecycle_def validateCommandLifecycle_def)
qed

lemma validated_log_closed_witness:
  "turns (anchors sample_turn) \<and> \<not> HasOpenTurn sample_turn \<and> each_after command_row_ok sample_turn"
proof -
  have "ValidateLifecycle sample_turn = None" by code_simp
  from validated_log_closed [OF this] sample_turn_contiguous show ?thesis by blast
qed

section \<open>Numbering and pairing\<close>

definition row_coord :: "string \<Rightarrow> event \<Rightarrow> int option" where
  "row_coord key ev = (case lifecycleObject (ev_Data ev) of None \<Rightarrow> None | Some d \<Rightarrow> coord d key)"

definition turn_numbers :: "event list \<Rightarrow> int option list" where
  "turn_numbers es = map (row_coord ''turn'') (filter (\<lambda>ev. ev_Type ev = EventTurnStart) es)"

definition count_up :: "nat \<Rightarrow> int option list" where
  "count_up m = map (\<lambda>i. Some (int (Suc i))) [0..<m]"

lemma count_up_Suc: "count_up (Suc m) = count_up m @ [Some (int (Suc m))]"
  by (simp add: count_up_def)

lemma turn_numbers_snoc [simp]:
  "turn_numbers (es @ [ev]) = turn_numbers es @ (if ev_Type ev = EventTurnStart then [row_coord ''turn'' ev] else [])"
  by (simp add: turn_numbers_def)

definition calls_at :: "event \<Rightarrow> string \<Rightarrow> int \<Rightarrow> int \<Rightarrow> bool" where
  "calls_at p c turn step \<longleftrightarrow> ev_Type p = EventToolCall \<and>
     (\<exists>d. lifecycleObject (ev_Data p) = Some d \<and> string_or_empty (jget d ''callId'') = c \<and>
          coord d ''turn'' = Some turn \<and> coord d ''step'' = Some step)"

definition canon_rel :: "event list \<Rightarrow> canon_state \<Rightarrow> bool" where
  "canon_rel es s \<longleftrightarrow>
     (\<exists>m. cn_nextTurn s = int (Suc m) \<and>
        (cn_openTurn s = 0 \<and> turn_numbers es = count_up m \<or>
         cn_openTurn s = int (Suc m) \<and> turn_numbers es = count_up (Suc m))) \<and>
     (cn_openStep s = 0 \<longrightarrow> cn_pending s = []) \<and>
     (\<forall>c \<in> set (cn_pending s). \<exists>p \<in> set es. calls_at p c (cn_openTurn s) (cn_openStep s))"

lemma coord_pos: "coord d key = Some n \<Longrightarrow> 0 < n"
  by (auto simp: coord_def split: option.splits if_splits)

lemma requireOpen_None:
  "requireOpen s d = None \<longleftrightarrow> coord d ''turn'' = Some (cn_openTurn s) \<and> coord d ''step'' = Some (cn_openStep s)"
  by (auto simp: requireOpen_def split: option.split)

lemma canon_rel_keep:
  assumes "canon_rel es s" and "ev_Type ev \<noteq> EventTurnStart"
  shows "canon_rel (es @ [ev]) s"
  using assms by (auto simp: canon_rel_def)

lemma canon_rel_turn_start:
  assumes rel: "canon_rel es s" and d: "lifecycleObject (ev_Data ev) = Some d" and t: "ev_Type ev = EventTurnStart"
    and step: "canon_turn_start s d = Inr s'"
  shows "canon_rel (es @ [ev]) s'"
proof -
  from step have o: "cn_openTurn s = 0" and c: "coord d ''turn'' = Some (cn_nextTurn s)"
    and s': "s' = s\<lparr>cn_openTurn := cn_nextTurn s, cn_openStep := 0, cn_nextStep := 1, cn_pending := []\<rparr>"
    by (auto simp: canon_turn_start_def split: option.splits if_splits)
  from rel o obtain m where "cn_nextTurn s = int (Suc m)" "turn_numbers es = count_up m"
    by (auto simp: canon_rel_def)
  moreover have "row_coord ''turn'' ev = Some (cn_nextTurn s)" using d c by (simp add: row_coord_def)
  ultimately show ?thesis using t by (simp add: canon_rel_def s' count_up_Suc)
qed

lemma canon_rel_turn_end:
  assumes rel: "canon_rel es s" and t: "ev_Type ev = EventTurnEnd" and step: "canon_turn_end s d = Inr s'"
  shows "canon_rel (es @ [ev]) s'"
proof -
  from step obtain turn where c: "coord d ''turn'' = Some turn" and o: "cn_openTurn s = turn" "cn_openStep s = 0"
    and s': "s' = s\<lparr>cn_openTurn := 0, cn_nextTurn := cn_nextTurn s + 1, cn_pending := []\<rparr>"
    by (auto simp: canon_turn_end_def split: option.splits if_splits)
  have "0 < cn_openTurn s" using coord_pos [OF c] o by simp
  with rel obtain m where m: "cn_nextTurn s = int (Suc m)" "turn_numbers es = count_up (Suc m)"
    by (auto simp: canon_rel_def)
  have "cn_nextTurn s' = int (Suc (Suc m)) \<and> cn_openTurn s' = 0 \<and> turn_numbers (es @ [ev]) = count_up (Suc m)"
    using m t by (simp add: s')
  then have "\<exists>m. cn_nextTurn s' = int (Suc m) \<and>
     (cn_openTurn s' = 0 \<and> turn_numbers (es @ [ev]) = count_up m \<or>
      cn_openTurn s' = int (Suc m) \<and> turn_numbers (es @ [ev]) = count_up (Suc m))" by blast
  then show ?thesis unfolding canon_rel_def by (simp add: s')
qed

lemma canon_rel_pending:
  assumes rel: "canon_rel es s" and t: "ev_Type ev \<noteq> EventTurnStart" and opn: "cn_openStep s \<noteq> 0"
    and sub: "\<And>c. c \<in> set P \<Longrightarrow> c \<in> set (cn_pending s) \<or> calls_at ev c (cn_openTurn s) (cn_openStep s)"
  shows "canon_rel (es @ [ev]) (s\<lparr>cn_pending := P\<rparr>)"
  using rel t opn sub by (fastforce simp: canon_rel_def)

lemma canon_rel_tool_call:
  assumes rel: "canon_rel es s" and d: "lifecycleObject (ev_Data ev) = Some d" and t: "ev_Type ev = EventToolCall"
    and step: "canon_tool_call s d = Inr s'"
  shows "canon_rel (es @ [ev]) s'"
proof -
  from step have ro: "requireOpen s d = None"
    and s': "s' = s\<lparr>cn_pending := List.insert (string_or_empty (jget d ''callId'')) (cn_pending s)\<rparr>"
    by (auto simp: canon_tool_call_def Let_def split: option.splits if_splits)
  from ro have c: "coord d ''turn'' = Some (cn_openTurn s)" "coord d ''step'' = Some (cn_openStep s)"
    by (simp_all add: requireOpen_None)
  then have "cn_openStep s \<noteq> 0" using coord_pos by fastforce
  moreover have "calls_at ev (string_or_empty (jget d ''callId'')) (cn_openTurn s) (cn_openStep s)"
    using d t c by (simp add: calls_at_def)
  ultimately show ?thesis
    unfolding s' by (intro canon_rel_pending [OF rel]) (auto simp: t)
qed

lemma canon_rel_tool_result:
  assumes rel: "canon_rel es s" and t: "ev_Type ev = EventToolResult" and step: "canon_tool_result s d = Inr s'"
  shows "canon_rel (es @ [ev]) s'"
proof -
  from step have ro: "requireOpen s d = None"
    and s': "s' = s\<lparr>cn_pending := removeAll (toolResultCallID d) (cn_pending s)\<rparr>"
    by (auto simp: canon_tool_result_def Let_def split: option.splits if_splits)
  from ro have "cn_openStep s \<noteq> 0" using coord_pos by (fastforce simp: requireOpen_None)
  then show ?thesis
    unfolding s' by (intro canon_rel_pending [OF rel]) (auto simp: t)
qed

lemma canon_rel_step:
  assumes rel: "canon_rel es s" and step: "canon_step s ev = Inr s'"
  shows "canon_rel (es @ [ev]) s'"
proof -
  from step obtain d where d: "lifecycleObject (ev_Data ev) = Some d"
    by (auto simp: canon_step_def split: option.splits)
  consider "ev_Type ev = EventTurnStart" | "ev_Type ev = EventTurnEnd" | "ev_Type ev = EventStepStart"
    | "ev_Type ev = EventStepEnd" | "ev_Type ev = EventToolCall" | "ev_Type ev = EventToolResult"
    | (other) "ev_Type ev \<notin> {EventTurnStart, EventTurnEnd, EventStepStart, EventStepEnd, EventToolCall, EventToolResult}"
    by blast
  then show ?thesis
  proof cases
    case 1
    with step d show ?thesis by (intro canon_rel_turn_start [OF rel d]) (simp_all add: canon_step_def)
  next
    case 2
    with step d show ?thesis by (intro canon_rel_turn_end [OF rel, of ev d]) (simp_all add: canon_step_def)
  next
    case 3
    with step d obtain k where "cn_openStep s = 0" "s' = s\<lparr>cn_openStep := k\<rparr>"
      by (auto simp: canon_step_def canon_step_start_def split: option.splits if_splits)
    with rel 3 show ?thesis by (simp add: canon_rel_def)
  next
    case 4
    with step d have "s' = s\<lparr>cn_openStep := 0, cn_nextStep := cn_nextStep s + 1, cn_pending := []\<rparr>"
      by (auto simp: canon_step_def split: option.splits)
    with rel 4 show ?thesis by (simp add: canon_rel_def)
  next
    case 5
    with step d show ?thesis by (intro canon_rel_tool_call [OF rel d]) (simp_all add: canon_step_def)
  next
    case 6
    with step d show ?thesis by (intro canon_rel_tool_result [OF rel, of ev d]) (simp_all add: canon_step_def)
  next
    case other
    with step d have "s' = s"
      by (auto simp: canon_step_def canon_scoped_def Let_def split: option.splits if_splits)
    with rel other show ?thesis by (simp add: canon_rel_keep)
  qed
qed

lemma canon_fold_rel:
  assumes "fold_until canon_step canon_init es = Inr s"
  shows "canon_rel es s"
proof (rule fold_until_history [OF assms])
  show "canon_rel [] canon_init" by (simp add: canon_rel_def canon_init_def turn_numbers_def count_up_def)
qed (rule canon_rel_step)

text \<open>
  Fact: in an accepted log with turn coordinates the turn/start rows are numbered 1, 2, 3, ... without
  a gap or a repeat.
\<close>

theorem turns_numbered:
  assumes "validateCanonicalLifecycle es = None" and "canonicalLifecycle es"
  shows "turn_numbers es = map (\<lambda>i. Some (int (Suc i))) [0..<length (turn_numbers es)]"
proof -
  from assms obtain s where "fold_until canon_step canon_init es = Inr s"
    by (auto simp: validateCanonicalLifecycle_def)
  then have "canon_rel es s" by (rule canon_fold_rel)
  then obtain m where "turn_numbers es = count_up m" unfolding canon_rel_def by blast
  then show ?thesis by (simp add: count_up_def)
qed


lemma turns_numbered_witness:
  "turn_numbers sample_turn = map (\<lambda>i. Some (int (Suc i))) [0..<length (turn_numbers sample_turn)]"
proof (rule turns_numbered)
  show "validateCanonicalLifecycle sample_turn = None" by code_simp
  show "canonicalLifecycle sample_turn" by code_simp
qed


end
