(* ===== verification/Session_Content.thy ===== *)
theory Session_Content
  imports Session_Provenance
begin

text \<open>
  Message content: \<^verbatim>\<open>internal/llm/content.go\<close>, \<^verbatim>\<open>internal/llm/message.go\<close> and the
  payload structs of \<^verbatim>\<open>internal/session/session.go\<close> that carry it. A block of the wire is
  decoded with its compatibility forms; \<^verbatim>\<open>toWireContentBlocks\<close> and
  \<^verbatim>\<open>fromWireContentBlocks\<close> convert between the wire and the provider-neutral form, and the
  theory proves that a block survives the round trip.
\<close>

record ImageRef =
  im_ID :: string
  im_MediaType :: string
  im_Bytes :: int
  im_Width :: int
  im_Height :: int
  im_Name :: string
  im_Path :: string

definition no_image :: ImageRef where
  "no_image = \<lparr>im_ID = [], im_MediaType = [], im_Bytes = 0, im_Width = 0, im_Height = 0,
               im_Name = [], im_Path = []\<rparr>"

datatype ContentBlock = ContentBlock
  (cb_Kind: string) (cb_Text: string) (cb_Image: ImageRef) (cb_CallID: string) (cb_Name: string)
  (cb_Arguments: string) (cb_IsError: bool) (cb_Blocks: "ContentBlock list") (cb_Raw: "json option")

datatype wireContentBlock = WireBlock
  (wb_Type: string) (wb_Text: string) (wb_ID: string) (wb_ToolCallID: string) (wb_Name: string)
  (wb_Arguments: string) (wb_IsError: bool) (wb_Image: ImageRef) (wb_Content: "wireContentBlock list")
  (wb_Raw: "json option")

record ToolCall =
  tc_ID :: string
  tc_Name :: string
  tc_Arguments :: string

record llm_message =
  lm_Role :: string
  lm_Content :: "ContentBlock list"
  lm_ToolCallID :: string
  lm_ToolCalls :: "ToolCall list"

definition BlockText :: string where "BlockText = ''text''"
definition BlockReasoning :: string where "BlockReasoning = ''reasoning''"
definition BlockImage :: string where "BlockImage = ''image''"
definition BlockToolCall :: string where "BlockToolCall = ''tool-call''"
definition BlockToolResult :: string where "BlockToolResult = ''tool-result''"

definition known_block_kinds :: "string list" where
  "known_block_kinds = [BlockText, BlockReasoning, BlockImage, BlockToolCall, BlockToolResult]"

definition simple_block :: "string \<Rightarrow> string \<Rightarrow> ContentBlock" where
  "simple_block kind s = ContentBlock kind s no_image [] [] [] False [] None"

text \<open>\<^verbatim>\<open>llm.Text\<close>\<close>

definition Text :: "string \<Rightarrow> ContentBlock" where
  "Text s = simple_block BlockText s"

section \<open>Decoding a block\<close>

definition dec_wireImageRef :: "jobject \<Rightarrow> ImageRef option" where
  "dec_wireImageRef a = do {
     i \<leftarrow> dec_string (jfield a ''attachmentId'');
     m \<leftarrow> dec_string (jfield a ''mediaType'');
     b \<leftarrow> dec_int (jfield a ''bytes'');
     w \<leftarrow> dec_int (jfield a ''width'');
     h \<leftarrow> dec_int (jfield a ''height'');
     n \<leftarrow> dec_string (jfield a ''name'');
     Some \<lparr>im_ID = i, im_MediaType = m, im_Bytes = b, im_Width = w, im_Height = h,
           im_Name = n, im_Path = []\<rparr> }"

text \<open>An untagged \<^verbatim>\<open>llm.ImageRef\<close>: its keys are the field names.\<close>

definition dec_ImageRef :: "jobject \<Rightarrow> ImageRef option" where
  "dec_ImageRef a = do {
     i \<leftarrow> dec_string (jfield a ''ID'');
     m \<leftarrow> dec_string (jfield a ''MediaType'');
     b \<leftarrow> dec_int (jfield a ''Bytes'');
     w \<leftarrow> dec_int (jfield a ''Width'');
     h \<leftarrow> dec_int (jfield a ''Height'');
     n \<leftarrow> dec_string (jfield a ''Name'');
     p \<leftarrow> dec_string (jfield a ''Path'');
     Some \<lparr>im_ID = i, im_MediaType = m, im_Bytes = b, im_Width = w, im_Height = h,
           im_Name = n, im_Path = p\<rparr> }"

definition legacy_image :: "ImageRef \<Rightarrow> ImageRef" where
  "legacy_image r = r\<lparr>im_Name := [], im_Path := []\<rparr>"

definition block_image :: "json option \<Rightarrow> ImageRef \<Rightarrow> ImageRef option" where
  "block_image attachment legacy = do {
     image \<leftarrow> (case attachment of
        Some (JObj a) \<Rightarrow> do {
          w \<leftarrow> dec_wireImageRef a;
          if im_ID w = [] then map_option legacy_image (dec_ImageRef a) else Some w }
      | _ \<Rightarrow> Some no_image);
     Some (if im_ID image = [] \<and> im_ID legacy \<noteq> [] then legacy_image legacy else image) }"

text \<open>Everything of \<^verbatim>\<open>UnmarshalJSON\<close> but the nested blocks.\<close>

definition finish_block :: "jobject \<Rightarrow> wireContentBlock list \<Rightarrow> wireContentBlock option" where
  "finish_block o1 content = do {
     ty \<leftarrow> dec_string (jfield o1 ''type'');
     text \<leftarrow> dec_string (jfield o1 ''text'');
     i \<leftarrow> dec_string (jfield o1 ''id'');
     tcid \<leftarrow> dec_string (jfield o1 ''toolCallId'');
     name \<leftarrow> dec_string (jfield o1 ''name'');
     args \<leftarrow> dec_string (jfield o1 ''arguments'');
     iserr \<leftarrow> dec_bool (jfield o1 ''isError'');
     lkind \<leftarrow> dec_string (jfield o1 ''Kind'');
     limage \<leftarrow> dec_struct dec_ImageRef (jfield o1 ''Image'');
     (let kind = (if ty = [] then lkind else ty) in do {
        image \<leftarrow> (if kind = BlockImage then block_image (jfield o1 ''attachment'') limage else Some no_image);
        Some (WireBlock kind text i tcid name args iserr image content
                (if kind \<in> set known_block_kinds then None else Some (JObj o1))) }) }"

function dec_block :: "json \<Rightarrow> wireContentBlock option" where
  "dec_block JNull = Some (WireBlock [] [] [] [] [] [] False no_image [] (Some JNull))"
| "dec_block (JObj o1) =
     (case jfield o1 ''content'' of
        None \<Rightarrow> finish_block o1 []
      | Some v \<Rightarrow>
          (case v of
             JNull \<Rightarrow> finish_block o1 []
           | JArr xs \<Rightarrow> Option.bind (those (map dec_block xs)) (finish_block o1)
           | _ \<Rightarrow> None))"
| "dec_block (JBool b) = None"
| "dec_block (JInt i) = None"
| "dec_block (JDec r) = None"
| "dec_block (JStr s) = None"
| "dec_block (JArr ys) = None"
  by pat_completeness auto
termination
proof (relation "measure size", goal_cases)
  case (2 o1 v xs x)
  have "size v < size (JObj o1)" by (rule jfield_size [OF 2(1)])
  moreover have "size x < size (JArr xs)" by (rule size_JArr [OF 2(3)])
  ultimately show ?case using 2(2) by simp
qed simp

definition dec_blocks :: "json option \<Rightarrow> wireContentBlock list option" where
  "dec_blocks v =
     (case v of
        None \<Rightarrow> Some []
      | Some JNull \<Rightarrow> Some []
      | Some (JArr xs) \<Rightarrow> those (map dec_block xs)
      | Some _ \<Rightarrow> None)"

section \<open>The two forms of a block\<close>

text \<open>
  An image travels as the attachment object of the wire block; the model keeps it in the field the
  decoder fills from that object.
\<close>

function toWireBlock :: "ContentBlock \<Rightarrow> wireContentBlock" where
  "toWireBlock (ContentBlock kind text img callID name args isErr blocks raw) =
     WireBlock kind text callID
       (if kind = BlockToolResult then callID else [])
       name args isErr
       (if kind = BlockImage then img\<lparr>im_Path := []\<rparr> else no_image)
       (if kind = BlockToolResult then map toWireBlock blocks else [])
       raw"
  by pat_completeness auto
termination
  by (relation "measure size") (auto simp: less_Suc_eq_le size_list_estimation' trans_le_add1 trans_le_add2)

fun fromWireBlock :: "wireContentBlock \<Rightarrow> ContentBlock" where
  "fromWireBlock (WireBlock ty text i tcid name args isErr img content raw) =
     (let kind = (if ty = [] then BlockText else ty) in
      ContentBlock kind text
        (if kind = BlockImage then img else no_image)
        (if tcid \<noteq> [] then tcid else i)
        name args isErr
        (if kind = BlockToolResult then map fromWireBlock content else [])
        raw)"

definition toWireContentBlocks :: "ContentBlock list \<Rightarrow> wireContentBlock list" where
  "toWireContentBlocks bs = map toWireBlock bs"

definition fromWireContentBlocks :: "wireContentBlock list \<Rightarrow> ContentBlock list" where
  "fromWireContentBlocks bs = map fromWireBlock bs"

text \<open>\<^verbatim>\<open>resolveImages\<close>: the blocks and the blocks nested in them.\<close>

fun resolve_block :: "(ImageRef \<Rightarrow> ImageRef) \<Rightarrow> ContentBlock \<Rightarrow> ContentBlock" where
  "resolve_block f (ContentBlock kind text img callID name args isErr blocks raw) =
     ContentBlock kind text (if kind = BlockImage then f img else img) callID name args isErr
       (map (resolve_block f) blocks) raw"

definition resolveImages :: "(ImageRef \<Rightarrow> ImageRef) option \<Rightarrow> llm_message list \<Rightarrow> llm_message list" where
  "resolveImages resolve msgs =
     (case resolve of
        None \<Rightarrow> msgs
      | Some f \<Rightarrow> map (\<lambda>m. m\<lparr>lm_Content := map (resolve_block f) (lm_Content m)\<rparr>) msgs)"

section \<open>Encoding a block\<close>

definition encode_image :: "ImageRef \<Rightarrow> json" where
  "encode_image r = JObj ([(''attachmentId'', JStr (im_ID r)), (''mediaType'', JStr (im_MediaType r)),
     (''bytes'', JInt (im_Bytes r)), (''width'', JInt (im_Width r)), (''height'', JInt (im_Height r))]
     @ omit_string ''name'' (im_Name r))"

function encode_block :: "wireContentBlock \<Rightarrow> json" where
  "encode_block (WireBlock ty text i tcid name args isErr img content raw) =
     (case raw of
        Some r \<Rightarrow> r
      | None \<Rightarrow> JObj ([(''type'', JStr ty)] @ omit_string ''text'' text @ omit_string ''id'' i
          @ omit_string ''toolCallId'' tcid @ omit_string ''name'' name @ omit_string ''arguments'' args
          @ omit_bool ''isError'' isErr
          @ (if ty = BlockImage then [(''attachment'', encode_image img)] else [])
          @ (if content = [] then [] else [(''content'', JArr (map encode_block content))])))"
  by pat_completeness auto
termination
  by (relation "measure size") (auto simp: less_Suc_eq_le size_list_estimation' trans_le_add1 trans_le_add2)

text \<open>
  A block of the runtime as it comes back from the log: known kinds only keep what their kind
  carries, and the local path of an image is never stored.
\<close>

fun durable_block :: "ContentBlock \<Rightarrow> ContentBlock" where
  "durable_block (ContentBlock kind text img callID name args isErr blocks raw) =
     ContentBlock kind text
       (if kind = BlockImage then img\<lparr>im_Path := []\<rparr> else no_image)
       callID name args isErr
       (if kind = BlockToolResult then map durable_block blocks else [])
       raw"

fun plain_block :: "ContentBlock \<Rightarrow> bool" where
  "plain_block (ContentBlock kind text img callID name args isErr blocks raw) \<longleftrightarrow>
     kind \<in> set known_block_kinds \<and> raw = None \<and>
     (kind = BlockImage \<longrightarrow> im_ID img \<noteq> [] \<and> in_int64 (im_Bytes img) \<and> in_int64 (im_Width img) \<and>
        in_int64 (im_Height img)) \<and>
     list_all plain_block blocks"

lemma known_kind_nonempty: "k \<in> set known_block_kinds \<Longrightarrow> k \<noteq> []"
  by (auto simp: known_block_kinds_def BlockText_def BlockReasoning_def BlockImage_def BlockToolCall_def
      BlockToolResult_def)

lemma fromWire_toWire: "plain_block b \<Longrightarrow> fromWireBlock (toWireBlock b) = durable_block b"
proof (induction b rule: durable_block.induct)
  case (1 kind s img callID name args isErr blocks raw)
  then have "kind \<noteq> []" using known_kind_nonempty by simp
  with 1 show ?case by (auto simp: list_all_iff BlockImage_def BlockToolResult_def)
qed

lemma block_image_encode:
  assumes "im_ID img \<noteq> []" "in_int64 (im_Bytes img)" "in_int64 (im_Width img)" "in_int64 (im_Height img)"
    and "im_Path img = []"
  shows "block_image (Some (encode_image img)) r = Some img"
  using assms by (simp add: block_image_def encode_image_def dec_wireImageRef_def jfield_encode same_field_def
      in_int64_def)

lemma finish_block_encode:
  assumes "kind \<in> set known_block_kinds"
    and "kind = BlockImage \<longrightarrow> block_image (Some (encode_image img)) no_image = Some img"
    and "kind \<noteq> BlockImage \<longrightarrow> img = no_image"
  shows "finish_block ([(''type'', JStr kind)] @ omit_string ''text'' text @ omit_string ''id'' i
          @ omit_string ''toolCallId'' tcid @ omit_string ''name'' name @ omit_string ''arguments'' args
          @ omit_bool ''isError'' isErr
          @ (if kind = BlockImage then [(''attachment'', encode_image img)] else [])
          @ (if content = [] then [] else [(''content'', js)])) content =
     Some (WireBlock kind text i tcid name args isErr img content None)"
proof -
  have "dec_ImageRef [] = Some no_image" by (simp add: dec_ImageRef_def no_image_def)
  then show ?thesis
    using assms known_kind_nonempty [OF assms(1)]
    by (cases "content = []"; cases "kind = BlockImage")
      (simp_all add: finish_block_def jfield_encode same_field_def)
qed

lemma content_field:
  "jfield ([(''type'', JStr kind)] @ omit_string ''text'' text @ omit_string ''id'' i
          @ omit_string ''toolCallId'' tcid @ omit_string ''name'' name @ omit_string ''arguments'' args
          @ omit_bool ''isError'' isErr
          @ (if kind = BlockImage then [(''attachment'', encode_image img)] else [])
          @ (if content = [] then [] else [(''content'', js)])) ''content'' =
     (if content = [] then None else Some js)"
  by (simp add: jfield_encode same_field_def)

lemma dec_encode_toWire:
  "plain_block b \<Longrightarrow> dec_block (encode_block (toWireBlock b)) = Some (toWireBlock b)"
proof (induction b rule: toWireBlock.induct)
  case (1 kind s img callID name args isErr blocks raw)
  let ?content = "if kind = BlockToolResult then map toWireBlock blocks else []"
  let ?img = "if kind = BlockImage then img\<lparr>im_Path := []\<rparr> else no_image"
  have known: "kind \<in> set known_block_kinds" using 1 by simp
  have nested: "those (map dec_block (map encode_block ?content)) = Some ?content"
  proof (cases "kind = BlockToolResult")
    case True
    have "those (map (\<lambda>b. dec_block (encode_block (toWireBlock b))) blocks) = Some (map toWireBlock blocks)"
      using 1 True by (intro those_map_Some) (auto simp: list_all_iff)
    then show ?thesis using True by (simp add: comp_def)
  qed simp
  have image: "kind = BlockImage \<longrightarrow> block_image (Some (encode_image ?img)) no_image = Some ?img"
    using 1 block_image_encode [of "img\<lparr>im_Path := []\<rparr>" no_image] by simp
  have "finish_block ([(''type'', JStr kind)] @ omit_string ''text'' s @ omit_string ''id'' callID
          @ omit_string ''toolCallId'' (if kind = BlockToolResult then callID else [])
          @ omit_string ''name'' name @ omit_string ''arguments'' args @ omit_bool ''isError'' isErr
          @ (if kind = BlockImage then [(''attachment'', encode_image ?img)] else [])
          @ (if ?content = [] then [] else [(''content'', JArr (map encode_block ?content))])) ?content =
     Some (WireBlock kind s callID (if kind = BlockToolResult then callID else []) name args isErr ?img ?content None)"
    by (rule finish_block_encode [OF known]) (use image in simp_all)
  then show ?case
    using 1 nested content_field [of kind s callID "if kind = BlockToolResult then callID else []" name args isErr
        ?img ?content "JArr (map encode_block ?content)"]
    by (cases "?content = []") simp_all
qed

text \<open>
  Fact: content survives the log: blocks of known kinds that are encoded, stored and decoded again come
  back as they were, less the local path of an image and what their kind does not carry.
\<close>

theorem content_roundtrip:
  assumes "list_all plain_block bs"
  shows "map_option fromWireContentBlocks (dec_blocks (Some (JArr (map encode_block (toWireContentBlocks bs)))))
    = Some (map durable_block bs)"
proof -
  have "those (map (\<lambda>b. dec_block (encode_block (toWireBlock b))) bs) = Some (map toWireBlock bs)"
    using assms dec_encode_toWire by (intro those_map_Some) (auto simp: list_all_iff)
  moreover have "map (\<lambda>b. fromWireBlock (toWireBlock b)) bs = map durable_block bs"
    using assms fromWire_toWire by (simp add: list_all_iff)
  ultimately show ?thesis
    by (simp add: dec_blocks_def toWireContentBlocks_def fromWireContentBlocks_def comp_def)
qed

definition sample_blocks :: "ContentBlock list" where
  "sample_blocks =
     [Text ''hi'',
      ContentBlock BlockImage [] \<lparr>im_ID = ''a'', im_MediaType = ''image/png'', im_Bytes = 3, im_Width = 1,
        im_Height = 1, im_Name = ''n'', im_Path = ''/tmp/a''\<rparr> [] [] [] False [] None,
      ContentBlock BlockToolResult [] no_image ''c1'' [] [] True [Text ''out''] None]"

lemma content_roundtrip_witness:
  "map_option fromWireContentBlocks
     (dec_blocks (Some (JArr (map encode_block (toWireContentBlocks sample_blocks)))))
   = Some (map durable_block sample_blocks)"
  by (rule content_roundtrip) code_simp

end
