(* ===== verification/Session_History.thy ===== *)
theory Session_History
  imports Session_Content
begin

text \<open>
  The fold of the log into the model-visible history: \<^verbatim>\<open>derive\<close>,
  \<^verbatim>\<open>DeriveHistoryEvents\<close> and \<^verbatim>\<open>DeriveEventMessage\<close> of
  \<^verbatim>\<open>internal/session/session.go\<close>, with the payload structs they decode. The fold keeps the
  messages with the position of their row and the end of the last replaced range.
\<close>

definition RoleUser :: string where "RoleUser = ''user''"
definition RoleAssistant :: string where "RoleAssistant = ''assistant''"
definition RoleTool :: string where "RoleTool = ''tool''"

section \<open>Payloads\<close>

text \<open>
  \<^verbatim>\<open>messageSource\<close> is ignored by the fold, but a field of the wrong type makes the whole
  payload fail to decode.
\<close>

definition source_string_fields :: "string list" where
  "source_string_fields = [''kind'', ''rpcId'', ''clientTimeZone'', ''form'', ''plugin'', ''name'', ''summary'',
     ''senderSessionId'', ''baselineIdentity'', ''teamId'', ''messageId'', ''senderId'', ''senderName'']"

definition dec_messageSource :: "jobject \<Rightarrow> unit option" where
  "dec_messageSource o1 =
     (if list_all (\<lambda>k. dec_string (jfield o1 k) \<noteq> None) source_string_fields \<and>
         list_all (\<lambda>k. dec_bool (jfield o1 k) \<noteq> None) [''update'', ''baseline'']
      then Some () else None)"

record userMessageData =
  um_Text :: string
  um_Content :: "wireContentBlock list"
  um_SurfaceOp :: "SurfaceReplace option"

definition dec_userMessage :: "jobject \<Rightarrow> userMessageData option" where
  "dec_userMessage o1 = do {
     _ \<leftarrow> dec_string (jfield o1 ''id'');
     _ \<leftarrow> dec_string (jfield o1 ''role'');
     t \<leftarrow> dec_string (jfield o1 ''text'');
     c \<leftarrow> dec_blocks (jfield o1 ''content'');
     _ \<leftarrow> dec_ptr (dec_struct dec_messageSource) (jfield o1 ''source'');
     op \<leftarrow> dec_ptr (dec_struct dec_surface_replace) (jfield o1 ''surfaceOp'');
     _ \<leftarrow> dec_ptr (dec_slice dec_uint64) (jfield o1 ''sourceEventSeqs'');
     Some \<lparr>um_Text = t, um_Content = c, um_SurfaceOp = op\<rparr> }"

definition dec_ToolCall :: "jobject \<Rightarrow> ToolCall option" where
  "dec_ToolCall o1 = do {
     i \<leftarrow> dec_string (jfield o1 ''ID'');
     n \<leftarrow> dec_string (jfield o1 ''Name'');
     a \<leftarrow> dec_string (jfield o1 ''Arguments'');
     Some \<lparr>tc_ID = i, tc_Name = n, tc_Arguments = a\<rparr> }"

definition usage_fields :: "string list" where
  "usage_fields = [''inputTokens'', ''outputTokens'', ''totalTokens'', ''reasoningTokens'', ''cacheReadTokens'',
     ''cacheWriteTokens'', ''cachedInputTokens'']"

definition dec_TokenUsage :: "jobject \<Rightarrow> unit option" where
  "dec_TokenUsage o1 = (if list_all (\<lambda>k. dec_int (jfield o1 k) \<noteq> None) usage_fields then Some () else None)"

record assistantMessageData =
  am_Message :: "json option"
  am_Text :: string
  am_Reasoning :: string
  am_ToolCalls :: "ToolCall list"

definition dec_assistantMessage :: "jobject \<Rightarrow> assistantMessageData option" where
  "dec_assistantMessage o1 = do {
     _ \<leftarrow> dec_int (jfield o1 ''turn'');
     _ \<leftarrow> dec_int (jfield o1 ''step'');
     m \<leftarrow> dec_any (jfield o1 ''message'');
     t \<leftarrow> dec_string (jfield o1 ''text'');
     r \<leftarrow> dec_string (jfield o1 ''reasoning'');
     tc \<leftarrow> dec_slice (dec_struct dec_ToolCall) (jfield o1 ''toolCalls'');
     _ \<leftarrow> dec_string (jfield o1 ''finishReason'');
     _ \<leftarrow> dec_bool (jfield o1 ''interrupted'');
     _ \<leftarrow> dec_ptr (dec_struct dec_TokenUsage) (jfield o1 ''usage'');
     _ \<leftarrow> dec_ptr (dec_slice dec_uint64) (jfield o1 ''sourceEventSeqs'');
     Some \<lparr>am_Message = m, am_Text = t, am_Reasoning = r, am_ToolCalls = tc\<rparr> }"

record toolResultMessageData =
  tm_CallID :: string
  tm_Content :: "wireContentBlock list"

definition dec_toolResultMessage :: "jobject \<Rightarrow> toolResultMessageData option" where
  "dec_toolResultMessage o1 = do {
     i \<leftarrow> dec_struct (\<lambda>s. dec_string (jfield s ''callId'')) (jfield o1 ''source'');
     c \<leftarrow> dec_blocks (jfield o1 ''content'');
     Some \<lparr>tm_CallID = i, tm_Content = c\<rparr> }"

definition dec_toolResultError :: "jobject \<Rightarrow> (string \<times> string) option" where
  "dec_toolResultError o1 = do {
     n \<leftarrow> dec_string (jfield o1 ''name'');
     c \<leftarrow> dec_string (jfield o1 ''code'');
     Some (n, c) }"

definition dec_SpillSource :: "jobject \<Rightarrow> unit option" where
  "dec_SpillSource o1 =
     (if list_all (\<lambda>k. dec_string (jfield o1 k) \<noteq> None) [''toolName'', ''callId'', ''label''] then Some () else None)"

definition dec_SpillRef :: "jobject \<Rightarrow> unit option" where
  "dec_SpillRef o1 = do {
     _ \<leftarrow> dec_string (jfield o1 ''locator'');
     _ \<leftarrow> dec_int (jfield o1 ''bytes'');
     _ \<leftarrow> dec_string (jfield o1 ''retrievalHint'');
     _ \<leftarrow> dec_ptr (dec_struct dec_SpillSource) (jfield o1 ''source'');
     Some () }"

record toolResultData =
  td_Message :: "toolResultMessageData option"
  td_CallID :: string
  td_Output :: string
  td_Content :: "wireContentBlock list"

definition dec_toolResult :: "jobject \<Rightarrow> toolResultData option" where
  "dec_toolResult o1 = do {
     _ \<leftarrow> dec_int (jfield o1 ''turn'');
     _ \<leftarrow> dec_int (jfield o1 ''step'');
     m \<leftarrow> dec_ptr (dec_struct dec_toolResultMessage) (jfield o1 ''message'');
     _ \<leftarrow> dec_ptr (dec_struct dec_toolResultError) (jfield o1 ''error'');
     _ \<leftarrow> dec_slice dec_uint64 (jfield o1 ''sourceEventSeqs'');
     i \<leftarrow> dec_string (jfield o1 ''callId'');
     _ \<leftarrow> dec_string (jfield o1 ''name'');
     out \<leftarrow> dec_string (jfield o1 ''output'');
     _ \<leftarrow> dec_ptr (dec_struct dec_SpillRef) (jfield o1 ''spill'');
     _ \<leftarrow> dec_string (jfield o1 ''code'');
     c \<leftarrow> dec_blocks (jfield o1 ''content'');
     Some \<lparr>td_Message = m, td_CallID = i, td_Output = out, td_Content = c\<rparr> }"

text \<open>\<^verbatim>\<open>toolErrorData\<close>: the call id and the error text.\<close>

definition dec_toolError :: "jobject \<Rightarrow> (string \<times> string) option" where
  "dec_toolError o1 = do {
     i \<leftarrow> dec_string (jfield o1 ''callId'');
     _ \<leftarrow> dec_string (jfield o1 ''name'');
     e \<leftarrow> dec_string (jfield o1 ''error'');
     Some (i, e) }"

definition dec_steering :: "jobject \<Rightarrow> string option" where
  "dec_steering o1 = do {
     t \<leftarrow> dec_string (jfield o1 ''text'');
     _ \<leftarrow> dec_string (jfield o1 ''source'');
     Some t }"

section \<open>One message\<close>

definition user_text :: "string \<Rightarrow> llm_message" where
  "user_text s = \<lparr>lm_Role = RoleUser, lm_Content = [Text s], lm_ToolCallID = [], lm_ToolCalls = []\<rparr>"

definition tool_message :: "string \<Rightarrow> ContentBlock list \<Rightarrow> llm_message" where
  "tool_message callID content =
     \<lparr>lm_Role = RoleTool, lm_Content = content, lm_ToolCallID = callID, lm_ToolCalls = []\<rparr>"

definition toolResultMessageContent :: "wireContentBlock list \<Rightarrow> ContentBlock list" where
  "toolResultMessageContent blocks =
     (case fromWireContentBlocks blocks of
        [b] \<Rightarrow> if cb_Kind b = BlockToolResult \<and> cb_Blocks b \<noteq> [] then cb_Blocks b else [b]
      | content \<Rightarrow> content)"

definition blocks_text :: "string \<Rightarrow> wireContentBlock list \<Rightarrow> string" where
  "blocks_text ty blocks = concat (map wb_Text (filter (\<lambda>b. wb_Type b = ty) blocks))"

definition blocks_calls :: "wireContentBlock list \<Rightarrow> ToolCall list" where
  "blocks_calls blocks =
     map (\<lambda>b. \<lparr>tc_ID = wb_ID b, tc_Name = wb_Name b, tc_Arguments = wb_Arguments b\<rparr>)
       (filter (\<lambda>b. wb_Type b = ''tool-call'') blocks)"

text \<open>\<^verbatim>\<open>assistantFields\<close>: text, tool calls, reasoning and the rich content.\<close>

definition assistantFields :: "assistantMessageData \<Rightarrow> string \<times> ToolCall list \<times> string \<times> ContentBlock list" where
  "assistantFields d =
     (case am_Message d of
        None \<Rightarrow> (am_Text d, am_ToolCalls d, am_Reasoning d, [])
      | Some m \<Rightarrow>
          (case unmarshal_struct (\<lambda>o1. dec_blocks (jfield o1 ''content'')) (Some m) of
             None \<Rightarrow> (am_Text d, am_ToolCalls d, am_Reasoning d, [])
           | Some blocks \<Rightarrow>
               (blocks_text ''text'' blocks, blocks_calls blocks, blocks_text ''reasoning'' blocks,
                fromWireContentBlocks blocks)))"

definition assistant_message :: "assistantMessageData \<Rightarrow> llm_message" where
  "assistant_message d =
     (case assistantFields d of (text, toolCalls, reasoning, richContent) \<Rightarrow>
        \<lparr>lm_Role = RoleAssistant,
         lm_Content =
           (if richContent \<noteq> [] then richContent
            else (if reasoning \<noteq> [] then [simple_block BlockReasoning reasoning] else []) @
                 (if text \<noteq> [] then [Text text] else [])),
         lm_ToolCallID = [], lm_ToolCalls = toolCalls\<rparr>)"

definition tool_result_message :: "toolResultData \<Rightarrow> llm_message" where
  "tool_result_message d =
     (let direct = fromWireContentBlocks (td_Content d);
          nested = (if direct \<noteq> [] then direct
                    else case td_Message d of None \<Rightarrow> [] | Some m \<Rightarrow> toolResultMessageContent (tm_Content m));
          content = (if nested \<noteq> [] then nested else [Text (td_Output d)]);
          callID = (if td_CallID d \<noteq> [] then td_CallID d
                    else case td_Message d of None \<Rightarrow> [] | Some m \<Rightarrow> tm_CallID m)
      in tool_message callID content)"

text \<open>The messages of a row that does not replace anything: none or one.\<close>

definition user_message :: "userMessageData \<Rightarrow> llm_message" where
  "user_message d =
     (let content = fromWireContentBlocks (um_Content d)
      in \<lparr>lm_Role = RoleUser, lm_Content = (if content = [] then [Text (um_Text d)] else content),
          lm_ToolCallID = [], lm_ToolCalls = []\<rparr>)"

definition plain_messages :: "event \<Rightarrow> llm_message list" where
  "plain_messages ev =
     (if ev_Type ev = EventSteeringMessage then
        (case unmarshal_struct dec_steering (ev_Data ev) of
           None \<Rightarrow> [] | Some t \<Rightarrow> if t \<noteq> [] then [user_text t] else [])
      else if ev_Type ev = EventUserMessage then
        (case unmarshal_struct dec_userMessage (ev_Data ev) of
           None \<Rightarrow> [] | Some d \<Rightarrow> [user_message d])
      else if ev_Type ev = EventAssistantMessage then
        (case unmarshal_struct dec_assistantMessage (ev_Data ev) of
           None \<Rightarrow> [] | Some d \<Rightarrow> [assistant_message d])
      else if ev_Type ev = EventToolResult then
        (case unmarshal_struct dec_toolResult (ev_Data ev) of
           Some d \<Rightarrow> [tool_result_message d]
         | None \<Rightarrow>
             (case unmarshal_struct dec_toolError (ev_Data ev) of
                None \<Rightarrow> []
              | Some (callID, e) \<Rightarrow> if callID \<noteq> [] then [tool_message callID [Text (''Error: '' @ e)]] else []))
      else if ev_Type ev = EventLegacyToolError then
        (case unmarshal_struct dec_toolError (ev_Data ev) of
           None \<Rightarrow> [] | Some (callID, e) \<Rightarrow> [tool_message callID [Text (''Error: '' @ e)]])
      else [])"

section \<open>The fold\<close>

text \<open>The replacement a row carries, when its range is well formed.\<close>

definition row_replacement :: "event \<Rightarrow> (SurfaceReplace \<times> string) option" where
  "row_replacement ev =
     (if ev_Type ev \<noteq> EventUserMessage then None
      else case unmarshal_struct dec_userMessage (ev_Data ev) of
        None \<Rightarrow> None
      | Some d \<Rightarrow>
          (case um_SurfaceOp d of
             None \<Rightarrow> None
           | Some op \<Rightarrow>
               if sr_Op op = surfaceReplaceOp \<and> 0 \<le> sr_Start op \<and> sr_Start op \<le> sr_End op
               then Some (op, um_Text d) else None))"

type_synonym tagged = "llm_message \<times> nat"

record derive_state =
  dv_out :: "tagged list"
  dv_skipUntil :: nat

definition in_range :: "SurfaceReplace \<Rightarrow> tagged \<Rightarrow> bool" where
  "in_range op t \<longleftrightarrow> sr_Start op \<le> int (snd t) \<and> int (snd t) \<le> sr_End op"

text \<open>The messages from the first to the last of the range give way to the summary.\<close>

definition replace_range :: "SurfaceReplace \<Rightarrow> tagged list \<Rightarrow> tagged \<Rightarrow> tagged list" where
  "replace_range op out summary =
     (if list_ex (in_range op) out then
        takeWhile (\<lambda>t. \<not> in_range op t) out @ [summary] @ rev (takeWhile (\<lambda>t. \<not> in_range op t) (rev out))
      else out @ [summary])"

definition derive_step :: "event \<Rightarrow> derive_state \<Rightarrow> derive_state" where
  "derive_step ev s =
     (if dv_skipUntil s \<noteq> 0 \<and> ev_Seq ev \<le> dv_skipUntil s then s
      else (case row_replacement ev of
         Some (op, t) \<Rightarrow>
           \<lparr>dv_out = replace_range op (dv_out s) (user_text t, ev_Seq ev), dv_skipUntil = nat (sr_End op)\<rparr>
       | None \<Rightarrow> s\<lparr>dv_out := dv_out s @ map (\<lambda>m. (m, ev_Seq ev)) (plain_messages ev)\<rparr>))"

definition derive_state_of :: "event list \<Rightarrow> derive_state" where
  "derive_state_of es = fold derive_step es \<lparr>dv_out = [], dv_skipUntil = 0\<rparr>"

definition derive :: "event list \<Rightarrow> llm_message list" where
  "derive es = map fst (dv_out (derive_state_of es))"

definition DeriveHistoryEvents :: "event list \<Rightarrow> (ImageRef \<Rightarrow> ImageRef) option \<Rightarrow> llm_message list" where
  "DeriveHistoryEvents es resolve = resolveImages resolve (derive es)"

definition DeriveEventMessage :: "event \<Rightarrow> llm_message option" where
  "DeriveEventMessage ev = (case derive [ev] of [] \<Rightarrow> None | m # _ \<Rightarrow> Some m)"

section \<open>Appending a row\<close>

definition tag_messages :: "event \<Rightarrow> tagged list" where
  "tag_messages ev = map (\<lambda>m. (m, ev_Seq ev)) (plain_messages ev)"

lemma map_fst_tag [simp]: "map fst (tag_messages ev) = plain_messages ev"
  by (simp add: tag_messages_def comp_def)

lemma derive_state_snoc: "derive_state_of (es @ [ev]) = derive_step ev (derive_state_of es)"
  by (simp add: derive_state_of_def)

lemma derive_state_Nil: "derive_state_of [] = \<lparr>dv_out = [], dv_skipUntil = 0\<rparr>"
  by (simp add: derive_state_of_def)

lemma derive_step_plain:
  "dv_skipUntil s < ev_Seq ev \<or> dv_skipUntil s = 0 \<Longrightarrow> row_replacement ev = None \<Longrightarrow>
     derive_step ev s = s\<lparr>dv_out := dv_out s @ tag_messages ev\<rparr>"
  by (auto simp: derive_step_def tag_messages_def)

lemma derive_single: "row_replacement ev = None \<Longrightarrow> derive [ev] = plain_messages ev"
  using derive_state_snoc [of "[]" ev] by (simp add: derive_def derive_state_Nil derive_step_plain)

lemma replacement_event:
  assumes "\<not> isSurfaceReplacementEvent ev"
  shows "row_replacement ev = None"
proof (rule ccontr)
  assume "row_replacement ev \<noteq> None"
  then obtain d op where t: "ev_Type ev = EventUserMessage"
    and d: "unmarshal_struct dec_userMessage (ev_Data ev) = Some d"
    and op: "um_SurfaceOp d = Some op" "sr_Op op = surfaceReplaceOp"
    by (auto simp: row_replacement_def split: if_splits option.splits)
  let ?f = "\<lambda>o1. dec_ptr (dec_struct dec_surface_replace) (jfield o1 ''surfaceOp'')"
  have sub: "dec_userMessage o1 = Some d \<Longrightarrow> ?f o1 = Some (um_SurfaceOp d)" for o1
    by (auto simp: dec_userMessage_def split: bind_splits)
  have "unmarshal_struct ?f (ev_Data ev) = Some (um_SurfaceOp d)"
    using d sub [of "[]"] sub by (cases "ev_Data ev"; cases "the (ev_Data ev)") auto
  with assms t op show False by (simp add: isSurfaceReplacementEvent_def)
qed

text \<open>The markers the code expects: a replacement ends before its own row.\<close>

definition replacements_past :: "event list \<Rightarrow> bool" where
  "replacements_past es \<longleftrightarrow>
     (\<forall>ev \<in> set es. \<forall>op t. row_replacement ev = Some (op, t) \<longrightarrow> nat (sr_End op) < ev_Seq ev)"

lemma skip_in_past:
  "replacements_past es \<Longrightarrow> dv_skipUntil (derive_state_of es) = 0 \<or>
     (\<exists>ev \<in> set es. dv_skipUntil (derive_state_of es) < ev_Seq ev)"
proof (induction es rule: rev_induct)
  case (snoc ev es)
  then have IH: "dv_skipUntil (derive_state_of es) = 0 \<or>
      (\<exists>ev \<in> set es. dv_skipUntil (derive_state_of es) < ev_Seq ev)"
    and ev: "\<And>op t. row_replacement ev = Some (op, t) \<Longrightarrow> nat (sr_End op) < ev_Seq ev"
    by (auto simp: replacements_past_def)
  then show ?case by (auto simp: derive_state_snoc derive_step_def split: option.split)
qed (simp add: derive_state_Nil)

lemma skip_before_next:
  assumes "contiguous (es @ [ev])" and "replacements_past es"
  shows "dv_skipUntil (derive_state_of es) < ev_Seq ev \<or> dv_skipUntil (derive_state_of es) = 0"
  using skip_in_past [OF assms(2)]
proof (elim disjE bexE)
  fix e assume "e \<in> set es" and l: "dv_skipUntil (derive_state_of es) < ev_Seq e"
  then have "ev_Seq e < ev_Seq ev" using contiguous_snoc_less [OF assms(1)] by blast
  with l show ?thesis by simp
qed simp

lemma derive_snoc_plain:
  assumes "contiguous (es @ [ev])" and "replacements_past es" and "row_replacement ev = None"
  shows "derive (es @ [ev]) = derive es @ plain_messages ev"
  using derive_step_plain [OF skip_before_next [OF assms(1,2)] assms(3)]
  by (simp add: derive_def derive_state_snoc)

text \<open>
  Fact: over a contiguous log whose replacements end before their own rows the history is incremental:
  a further row that is not a replacement adds its own message, if any, to what was derived before.
\<close>

theorem derive_incremental:
  assumes "contiguous (es @ [ev])" and "replacements_past es" and "\<not> isSurfaceReplacementEvent ev"
  shows "derive (es @ [ev]) = derive es @ derive [ev]"
  using derive_snoc_plain [OF assms(1,2) replacement_event [OF assms(3)]]
    derive_single [OF replacement_event [OF assms(3)]] by simp

section \<open>Compaction\<close>

definition plain_log :: "event list \<Rightarrow> bool" where
  "plain_log es \<longleftrightarrow> (\<forall>ev \<in> set es. row_replacement ev = None)"

lemma plain_log_replacements_past: "plain_log es \<Longrightarrow> replacements_past es"
  by (simp add: plain_log_def replacements_past_def)

lemma derive_state_plain:
  "plain_log es \<Longrightarrow> derive_state_of es = \<lparr>dv_out = concat (map tag_messages es), dv_skipUntil = 0\<rparr>"
proof (induction es rule: rev_induct)
  case (snoc ev es)
  then show ?case by (simp add: plain_log_def derive_state_snoc derive_step_plain)
qed (simp add: derive_state_Nil)

lemma plain_log_filter: "plain_log es \<Longrightarrow> plain_log (filter P es)"
  by (simp add: plain_log_def)

lemma concat_tags_filter:
  "filter (\<lambda>t. Q (snd t)) (concat (map tag_messages es)) = concat (map tag_messages (filter (\<lambda>ev. Q (ev_Seq ev)) es))"
  by (induction es) (auto simp: tag_messages_def filter_empty_conv)

lemma in_concat_tags: "t \<in> set (concat (map tag_messages es)) \<Longrightarrow> \<exists>ev \<in> set es. snd t = ev_Seq ev"
  by (auto simp: tag_messages_def)

lemma sorted_tags: "contiguous_from n es \<Longrightarrow> sorted (map snd (concat (map tag_messages es)))"
proof (induction es arbitrary: n)
  case (Cons ev es)
  have c: "contiguous_from (Suc n) es" and n: "ev_Seq ev = n" using Cons.prems by simp_all
  have "\<forall>t \<in> set (concat (map tag_messages es)). n \<le> snd t"
    using in_concat_tags contiguous_from_less [OF c] by fastforce
  then show ?case
    using Cons.IH [OF c] n by (auto simp: sorted_append tag_messages_def comp_def map_replicate_const)
qed simp

text \<open>On sorted tags the range is one stretch, and what remains is what lies before and after it.\<close>

lemma takeWhile_filter_sorted:
  fixes lo :: int
  assumes "sorted (map snd (out :: tagged list))" and "list_ex (in_range op) out"
  shows "takeWhile (\<lambda>t. \<not> in_range op t) out = filter (\<lambda>t. int (snd t) < sr_Start op) out"
  using assms
proof (induction out)
  case (Cons t out)
  show ?case
  proof (cases "in_range op t")
    case True
    then have "\<forall>u \<in> set (t # out). \<not> int (snd u) < sr_Start op"
      using Cons.prems(1) by (fastforce simp: in_range_def)
    then have "filter (\<lambda>t. int (snd t) < sr_Start op) (t # out) = []" by (simp only: filter_empty_conv)
    with True show ?thesis by simp
  next
    case False
    then have ex: "list_ex (in_range op) out" using Cons.prems(2) by simp
    then obtain u where "u \<in> set out" "in_range op u" by (auto simp: list_ex_iff)
    then have "int (snd t) < sr_Start op"
      using Cons.prems(1) False by (fastforce simp: in_range_def)
    with False Cons.IH ex Cons.prems(1) show ?thesis by simp
  qed
qed simp

lemma takeWhile_rev_filter_sorted:
  assumes "sorted (map snd (out :: tagged list))" and "list_ex (in_range op) out"
  shows "rev (takeWhile (\<lambda>t. \<not> in_range op t) (rev out)) = filter (\<lambda>t. sr_End op < int (snd t)) out"
  using assms
proof (induction out rule: rev_induct)
  case (snoc t out)
  show ?case
  proof (cases "in_range op t")
    case True
    then have "\<forall>u \<in> set (out @ [t]). \<not> sr_End op < int (snd u)"
      using snoc.prems(1) by (fastforce simp: in_range_def sorted_append)
    then have "filter (\<lambda>t. sr_End op < int (snd t)) (out @ [t]) = []" by (simp only: filter_empty_conv)
    with True show ?thesis by simp
  next
    case False
    then have ex: "list_ex (in_range op) out" using snoc.prems(2) by simp
    then obtain u where "u \<in> set out" "in_range op u" by (auto simp: list_ex_iff)
    then have "sr_End op < int (snd t)"
      using snoc.prems(1) False by (fastforce simp: in_range_def sorted_append)
    with False snoc.IH ex snoc.prems(1) show ?thesis by (simp add: sorted_append)
  qed
qed simp

lemma marker_on_plain:
  assumes "contiguous (es @ [marker])" and "plain_log es" and "row_replacement marker = Some (op, summary)"
  shows "derive (es @ [marker]) =
    (if \<exists>ev \<in> set es. sr_Start op \<le> int (ev_Seq ev) \<and> int (ev_Seq ev) \<le> sr_End op \<and> plain_messages ev \<noteq> []
     then derive (filter (\<lambda>ev. int (ev_Seq ev) < sr_Start op) es) @ [user_text summary] @
          derive (filter (\<lambda>ev. sr_End op < int (ev_Seq ev)) es)
     else derive es @ [user_text summary])"
proof -
  let ?out = "concat (map tag_messages es)"
  obtain n where "contiguous_from n es" using contiguous_prefix [OF assms(1)] by (auto simp: contiguous_def)
  then have sorted: "sorted (map snd ?out)" by (rule sorted_tags)
  have ex: "list_ex (in_range op) ?out \<longleftrightarrow>
      (\<exists>ev \<in> set es. sr_Start op \<le> int (ev_Seq ev) \<and> int (ev_Seq ev) \<le> sr_End op \<and> plain_messages ev \<noteq> [])"
    by (auto simp: list_ex_iff in_range_def tag_messages_def set_empty2 [symmetric] ex_in_conv [symmetric]
        simp del: set_empty2)
  have out: "dv_out (derive_state_of (filter P es)) = concat (map tag_messages (filter P es))" for P
    using derive_state_plain [OF plain_log_filter [OF assms(2)]] by simp
  have step: "derive (es @ [marker]) = map fst (replace_range op ?out (user_text summary, ev_Seq marker))"
    using assms(3) derive_state_plain [OF assms(2)] by (simp add: derive_def derive_state_snoc derive_step_def)
  show ?thesis
  proof (cases "list_ex (in_range op) ?out")
    case True
    have l: "takeWhile (\<lambda>t. \<not> in_range op t) ?out =
        dv_out (derive_state_of (filter (\<lambda>ev. int (ev_Seq ev) < sr_Start op) es))"
      unfolding out takeWhile_filter_sorted [OF sorted True] by (rule concat_tags_filter)
    have r: "rev (takeWhile (\<lambda>t. \<not> in_range op t) (rev ?out)) =
        dv_out (derive_state_of (filter (\<lambda>ev. sr_End op < int (ev_Seq ev)) es))"
      unfolding out takeWhile_rev_filter_sorted [OF sorted True] by (rule concat_tags_filter)
    have "replace_range op ?out m =
        dv_out (derive_state_of (filter (\<lambda>ev. int (ev_Seq ev) < sr_Start op) es)) @ [m] @
        dv_out (derive_state_of (filter (\<lambda>ev. sr_End op < int (ev_Seq ev)) es))" for m
      by (simp only: replace_range_def True if_True l r)
    then have "derive (es @ [marker]) =
        derive (filter (\<lambda>ev. int (ev_Seq ev) < sr_Start op) es) @ [user_text summary] @
        derive (filter (\<lambda>ev. sr_End op < int (ev_Seq ev)) es)"
      by (simp add: step derive_def [of "filter _ es"])
    then show ?thesis using True ex by simp
  next
    case False
    then have "derive (es @ [marker]) = derive es @ [user_text summary]"
      using step derive_state_plain [OF assms(2)] by (simp add: replace_range_def derive_def)
    then show ?thesis unfolding if_not_P [OF False [unfolded ex]] .
  qed
qed

text \<open>
  Fact: a compaction marker appended to a log without earlier markers leaves the messages of the rows
  before its range, the summary, and the messages of the rows after it; when no message falls in the
  range the summary is appended.
\<close>

theorem compaction_replaces_range:
  assumes "contiguous (es @ [marker])" and "plain_log es" and "row_replacement marker = Some (op, summary)"
  shows "derive (es @ [marker]) =
    (if \<exists>ev \<in> set es. sr_Start op \<le> int (ev_Seq ev) \<and> int (ev_Seq ev) \<le> sr_End op \<and> plain_messages ev \<noteq> []
     then derive (filter (\<lambda>ev. int (ev_Seq ev) < sr_Start op) es) @ [user_text summary] @
          derive (filter (\<lambda>ev. sr_End op < int (ev_Seq ev)) es)
     else derive es @ [user_text summary])"
  by (rule marker_on_plain [OF assms])

lemma sample_compaction_split: "take 3 sample_compaction @ [sample_compaction ! 3] = sample_compaction"
  by (simp add: sample_compaction_def)

lemma derive_incremental_witness:
  "derive (take 2 sample_compaction @ [sample_compaction ! 2]) =
   derive (take 2 sample_compaction) @ derive [sample_compaction ! 2]"
proof (rule derive_incremental)
  show "contiguous (take 2 sample_compaction @ [sample_compaction ! 2])"
    unfolding contiguous_def by (rule exI [of _ 1]) (simp add: sample_compaction_def)
  have "plain_log (take 2 sample_compaction)" by code_simp
  then show "replacements_past (take 2 sample_compaction)" by (rule plain_log_replacements_past)
  show "\<not> isSurfaceReplacementEvent (sample_compaction ! 2)" by code_simp
qed

lemma compaction_replaces_range_witness:
  "derive (take 3 sample_compaction @ [sample_compaction ! 3]) = [user_text ''summary'']"
proof -
  let ?op = "\<lparr>sr_Op = ''replace'', sr_Start = 1, sr_End = 3\<rparr>"
  let ?es = "take 3 sample_compaction"
  have "contiguous (?es @ [sample_compaction ! 3])"
    using sample_compaction_contiguous by (simp add: sample_compaction_split)
  moreover have "plain_log ?es" by code_simp
  moreover have "row_replacement (sample_compaction ! 3) = Some (?op, ''summary'')" by code_simp
  ultimately have "derive (?es @ [sample_compaction ! 3]) =
     (if \<exists>ev \<in> set ?es. sr_Start ?op \<le> int (ev_Seq ev) \<and> int (ev_Seq ev) \<le> sr_End ?op \<and> plain_messages ev \<noteq> []
      then derive (filter (\<lambda>ev. int (ev_Seq ev) < sr_Start ?op) ?es) @ [user_text ''summary''] @
           derive (filter (\<lambda>ev. sr_End ?op < int (ev_Seq ev)) ?es)
      else derive ?es @ [user_text ''summary''])"
    by (rule compaction_replaces_range)
  also have "\<dots> = [user_text ''summary'']" by code_simp
  finally show ?thesis .
qed

end
