(* ===== verification/Session_Log.thy ===== *)
theory Session_Log
  imports Session_Lifecycle Session_History
begin

text \<open>
  The append-only log of \<^verbatim>\<open>internal/session/session.go\<close>: \<^verbatim>\<open>Append\<close>,
  \<^verbatim>\<open>AppendPersisted\<close>, \<^verbatim>\<open>AppendAtomic\<close>, \<^verbatim>\<open>Restore\<close> and the readers. Each operation runs
  under the mutex of its log, so it is one function from state to state; a write that the code rolls
  back leaves the state it found. The durable sink is a parameter of the state (an error text or
  \<^const>\<open>None\<close> for \<^verbatim>\<open>nil\<close>), the observer a record of the rows it was given. A payload is the
  result of \<^verbatim>\<open>json.Marshal\<close>, \<^const>\<open>None\<close> when that fails.
\<close>

record session_log =
  lg_events :: "event list"
  lg_seq :: nat
  lg_turnStarts :: nat
  lg_sink :: "(event \<Rightarrow> string option) option"
  lg_observer :: "event list option"
  lg_imageResolver :: "(ImageRef \<Rightarrow> ImageRef) option"
  lg_derivedHistory :: "llm_message list"
  lg_derivedHistoryValid :: bool

text \<open>\<^verbatim>\<open>New\<close>\<close>

definition New :: session_log where
  "New = \<lparr>lg_events = [], lg_seq = 0, lg_turnStarts = 0, lg_sink = None, lg_observer = None,
          lg_imageResolver = None, lg_derivedHistory = [], lg_derivedHistoryValid = False\<rparr>"

definition SetSink :: "session_log \<Rightarrow> (event \<Rightarrow> string option) option \<Rightarrow> session_log" where
  "SetSink l sink = l\<lparr>lg_sink := sink\<rparr>"

definition SetObserver :: "session_log \<Rightarrow> bool \<Rightarrow> session_log" where
  "SetObserver l installed = l\<lparr>lg_observer := (if installed then Some [] else None)\<rparr>"

definition SetImageResolver :: "session_log \<Rightarrow> (ImageRef \<Rightarrow> ImageRef) option \<Rightarrow> session_log" where
  "SetImageResolver l resolve =
     l\<lparr>lg_imageResolver := resolve, lg_derivedHistory := [], lg_derivedHistoryValid := False\<rparr>"

definition Events :: "session_log \<Rightarrow> event list" where
  "Events l = lg_events l"

definition NextSeq :: "session_log \<Rightarrow> nat" where
  "NextSeq l = lg_seq l + 1"

definition NextTurn :: "session_log \<Rightarrow> nat" where
  "NextTurn l = lg_turnStarts l + 1"

section \<open>Committing a row\<close>

text \<open>
  The tail of every append once the row is accepted: the row, the position, the cached history, the
  turn count, the observer.
\<close>

definition extend_history :: "session_log \<Rightarrow> event \<Rightarrow> session_log" where
  "extend_history l ev =
     (if lg_derivedHistoryValid l then
        (if isSurfaceReplacementEvent ev then l\<lparr>lg_derivedHistory := [], lg_derivedHistoryValid := False\<rparr>
         else l\<lparr>lg_derivedHistory :=
                  lg_derivedHistory l @ resolveImages (lg_imageResolver l) (derive [ev])\<rparr>)
      else l)"

definition incorporate :: "session_log \<Rightarrow> event \<Rightarrow> session_log" where
  "incorporate l ev =
     (let l = l\<lparr>lg_events := lg_events l @ [ev], lg_seq := ev_Seq ev\<rparr>;
          l = extend_history l ev;
          l = (if ev_Type ev = EventTurnStart then l\<lparr>lg_turnStarts := lg_turnStarts l + 1\<rparr> else l)
      in l\<lparr>lg_observer := map_option (\<lambda>seen. seen @ [ev]) (lg_observer l)\<rparr>)"

definition retry_check :: "event_type \<Rightarrow> event list \<Rightarrow> session_error option" where
  "retry_check typ es =
     (if typ = EventLLMRetry \<or> typ = EventLLMRetryStarted
      then map_option SErrRetry (validateCanonicalRetryLifecycle es) else None)"

definition log_checks :: "event list \<Rightarrow> session_error option" where
  "log_checks es = first_error
     [map_option SErrProvenance (validateEventProvenance es),
      map_option SErrCommand (validateCommandLifecycle es),
      map_option SErrWorkflow (validateWorkflowRecordLifecycle es)]"

definition sink_error :: "session_log \<Rightarrow> event \<Rightarrow> session_error option" where
  "sink_error l ev =
     (case lg_sink l of None \<Rightarrow> None | Some sink \<Rightarrow> map_option SErrSink (sink ev))"

definition Append :: "session_log \<Rightarrow> go_time \<Rightarrow> event_type \<Rightarrow> json option \<Rightarrow>
    (session_error + event) \<times> session_log" where
  "Append l now typ data =
     (if data = None then (Inl SErrMarshal, l)
      else (case validateLogEventVocabulary typ data of
         Some x \<Rightarrow> (Inl (SErrVocabulary x), l)
       | None \<Rightarrow>
           let ev = \<lparr>ev_Seq = lg_seq l + 1, ev_Type = typ, ev_At = now, ev_Version = EventVersion, ev_Data = data\<rparr>;
               es = lg_events l @ [ev]
           in (case first_error [retry_check typ es, log_checks es, sink_error l ev] of
                 Some x \<Rightarrow> (Inl x, l)
               | None \<Rightarrow> (Inr ev, incorporate l ev))))"

definition AppendPersisted :: "session_log \<Rightarrow> event \<Rightarrow> session_error option \<times> session_log" where
  "AppendPersisted l ev =
     (let wantSeq = (if lg_events l = [] \<and> ev_Seq ev = 0 then 0 else lg_seq l + 1);
          es = lg_events l @ [ev]
      in if ev_Seq ev \<noteq> wantSeq then (Some (SErrPersistedSeq (ev_Seq ev) wantSeq), l)
         else if ev_Type ev = EventOther [] \<or> ev_Version ev \<le> 0 then (Some SErrInvalidPersisted, l)
         else (case first_error
                 [map_option SErrVocabulary (validateLogEventVocabulary (ev_Type ev) (ev_Data ev)),
                  log_checks es, retry_check (ev_Type ev) es] of
                 Some x \<Rightarrow> (Some x, l)
               | None \<Rightarrow> (None, incorporate l ev)))"

section \<open>Several logs at once\<close>

text \<open>Logs are shared by pointer: a store maps addresses to them.\<close>

type_synonym log_store = "(nat \<times> session_log) list"

record atomic_append =
  aa_Log :: "nat option"
  aa_Type :: event_type
  aa_Data :: "json option"

definition atomic_item_error :: "atomic_append \<Rightarrow> session_error option" where
  "atomic_item_error item =
     (if aa_Log item = None \<or> aa_Type item = EventOther [] then Some SErrInvalidAtomic
      else if aa_Data item = None then Some SErrMarshal
      else map_option SErrVocabulary (validateLogEventVocabulary (aa_Type item) (aa_Data item)))"

definition atomic_target :: "atomic_append \<Rightarrow> nat" where
  "atomic_target item = the (aa_Log item)"

definition store_log :: "log_store \<Rightarrow> nat \<Rightarrow> session_log" where
  "store_log st p = (case map_of st p of None \<Rightarrow> New | Some l \<Rightarrow> l)"

text \<open>Positions are assigned in the order of the request, per log; \<open>now i\<close> is the \<open>i\<close>th reading of the clock.\<close>

fun assign_events :: "(nat \<Rightarrow> nat) \<Rightarrow> (nat \<Rightarrow> go_time) \<Rightarrow> atomic_append list \<Rightarrow> (nat \<times> event) list" where
  "assign_events nxt now [] = []"
| "assign_events nxt now (item # items) =
     (let p = atomic_target item in
      (p, \<lparr>ev_Seq = nxt p, ev_Type = aa_Type item, ev_At = now 0, ev_Version = EventVersion, ev_Data = aa_Data item\<rparr>)
      # assign_events (nxt(p := nxt p + 1)) (\<lambda>i. now (Suc i)) items)"

definition events_of :: "nat \<Rightarrow> (nat \<times> event) list \<Rightarrow> event list" where
  "events_of p evs = map snd (filter (\<lambda>(q, _). q = p) evs)"

definition incorporate_in :: "log_store \<Rightarrow> nat \<times> event \<Rightarrow> log_store" where
  "incorporate_in st pe = AList.update (fst pe) (incorporate (store_log st (fst pe)) (snd pe)) st"

definition AppendAtomic :: "log_store \<Rightarrow> (nat \<Rightarrow> go_time) \<Rightarrow> atomic_append list \<Rightarrow>
    (event list \<Rightarrow> string option) option \<Rightarrow> session_error option \<times> log_store" where
  "AppendAtomic st now items commit =
     (if items = [] then (None, st)
      else (case commit of
         None \<Rightarrow> (Some SErrNilCommit, st)
       | Some com \<Rightarrow>
           (case first_error (map atomic_item_error items) of
              Some x \<Rightarrow> (Some x, st)
            | None \<Rightarrow>
                let evs = assign_events (\<lambda>p. lg_seq (store_log st p) + 1) now items;
                    logs = sort (remdups (map atomic_target items))
                in (case first_error (map (\<lambda>p. log_checks (lg_events (store_log st p) @ events_of p evs)) logs) of
                      Some x \<Rightarrow> (Some x, st)
                    | None \<Rightarrow>
                        (case com (map snd evs) of
                           Some e \<Rightarrow> (Some (SErrSink e), st)
                         | None \<Rightarrow> (None, foldl incorporate_in st evs))))))"

section \<open>Replay\<close>

record restore_state =
  rs_restored :: "event list"
  rs_turnStarts :: nat
  rs_canonical :: bool
  rs_last :: nat
  rs_seen :: bool

definition restore_anchor_types :: "event_type list" where
  "restore_anchor_types = [EventTurnStart, EventTurnEnd, EventStepStart, EventStepEnd, EventLLMRetry, EventLLMRetryStarted]"

definition has_turn_coordinate :: "event \<Rightarrow> bool" where
  "has_turn_coordinate ev \<longleftrightarrow> ev_Type ev \<in> set restore_anchor_types \<and>
     (case unmarshal_map (ev_Data ev) of None \<Rightarrow> False | Some d \<Rightarrow> jget d ''turn'' \<noteq> None)"

definition restore_step :: "restore_state \<Rightarrow> event \<Rightarrow> session_error + restore_state" where
  "restore_step s ev =
     (case validateLogEventVocabulary (ev_Type ev) (ev_Data ev) of
        Some x \<Rightarrow> Inl (SErrVocabulary x)
      | None \<Rightarrow>
          if \<not> rs_seen s \<and> ev_Seq ev \<noteq> 0 \<and> ev_Seq ev \<noteq> 1 then Inl (SErrFirstSeq (ev_Seq ev))
          else if rs_seen s \<and> ev_Seq ev \<noteq> rs_last s + 1 then Inl (SErrSeqGap (ev_Seq ev) (rs_last s))
          else Inr \<lparr>rs_restored = rs_restored s @ [ev],
                    rs_turnStarts = rs_turnStarts s + (if ev_Type ev = EventTurnStart then 1 else 0),
                    rs_canonical = (rs_canonical s \<or> has_turn_coordinate ev),
                    rs_last = ev_Seq ev, rs_seen = True\<rparr>)"

definition restore_init :: restore_state where
  "restore_init = \<lparr>rs_restored = [], rs_turnStarts = 0, rs_canonical = False, rs_last = 0, rs_seen = False\<rparr>"

definition Restore :: "session_log \<Rightarrow> event list \<Rightarrow> session_error option \<times> session_log" where
  "Restore l es =
     (case fold_until restore_step restore_init es of
        Inl x \<Rightarrow> (Some x, l)
      | Inr s \<Rightarrow>
          (case first_error
             [log_checks (rs_restored s),
              if rs_canonical s then ValidateLifecycle (rs_restored s) else None] of
             Some x \<Rightarrow> (Some x, l)
           | None \<Rightarrow> (None, l\<lparr>lg_events := rs_restored s, lg_seq := rs_last s, lg_turnStarts := rs_turnStarts s,
                              lg_derivedHistory := [], lg_derivedHistoryValid := False\<rparr>)))"

section \<open>Reading the history\<close>

definition DeriveHistory :: "session_log \<Rightarrow> llm_message list \<times> session_log" where
  "DeriveHistory l =
     (if lg_derivedHistoryValid l then (lg_derivedHistory l, l)
      else let msgs = DeriveHistoryEvents (lg_events l) (lg_imageResolver l)
           in (msgs,
               if lg_events l = [] \<or> ev_Seq (last (lg_events l)) = lg_seq l
               then l\<lparr>lg_derivedHistory := msgs, lg_derivedHistoryValid := True\<rparr> else l))"

section \<open>The invariant of a log\<close>

definition log_wf :: "session_log \<Rightarrow> bool" where
  "log_wf l \<longleftrightarrow>
     (\<exists>n \<le> 1. contiguous_from n (lg_events l)) \<and>
     lg_seq l = (if lg_events l = [] then 0 else ev_Seq (last (lg_events l))) \<and>
     lg_turnStarts l = length (filter (\<lambda>ev. ev_Type ev = EventTurnStart) (lg_events l)) \<and>
     vocabulary_ok (lg_events l) \<and> log_checks (lg_events l) = None"

lemma log_checks_None:
  "log_checks es = None \<longleftrightarrow> validateEventProvenance es = None \<and> validateCommandLifecycle es = None \<and>
     validateWorkflowRecordLifecycle es = None"
  by (simp add: log_checks_def)

lemma log_wf_New: "log_wf New"
proof -
  have "\<exists>n \<le> 1. contiguous_from n []" by auto
  moreover have "log_checks [] = None"
    by (simp add: log_checks_None validateEventProvenance_def validateCommandLifecycle_def
        validateWorkflowRecordLifecycle_def)
  ultimately show ?thesis by (simp add: log_wf_def New_def vocabulary_ok_def)
qed

lemma log_wf_contiguous: "log_wf l \<Longrightarrow> contiguous (lg_events l)"
  by (auto simp: log_wf_def contiguous_def)

text \<open>The position a log gives next keeps its positions contiguous.\<close>

definition next_position :: "session_log \<Rightarrow> nat \<Rightarrow> bool" where
  "next_position l q \<longleftrightarrow> q = lg_seq l + 1 \<or> lg_events l = [] \<and> q = 0"

lemma next_position_contiguous:
  assumes "log_wf l" and "next_position l (ev_Seq ev)"
  shows "\<exists>n \<le> 1. contiguous_from n (lg_events l @ [ev])"
proof (cases "lg_events l = []")
  case True
  with assms show ?thesis by (auto simp: log_wf_def next_position_def)
next
  case False
  with assms obtain n where n: "n \<le> 1" "contiguous_from n (lg_events l)"
    and seq: "lg_seq l = ev_Seq (last (lg_events l))" "ev_Seq ev = lg_seq l + 1"
    by (auto simp: log_wf_def next_position_def)
  have "ev_Seq ev = n + length (lg_events l)"
    using contiguous_from_last [OF n(2) False] seq by simp
  with n show ?thesis by (auto simp: contiguous_from_append)
qed

lemma incorporate_fields [simp]:
  "lg_events (incorporate l ev) = lg_events l @ [ev]"
  "lg_seq (incorporate l ev) = ev_Seq ev"
  "lg_turnStarts (incorporate l ev) = lg_turnStarts l + (if ev_Type ev = EventTurnStart then 1 else 0)"
  "lg_imageResolver (incorporate l ev) = lg_imageResolver l"
  "lg_sink (incorporate l ev) = lg_sink l"
  by (simp_all add: incorporate_def extend_history_def Let_def)

lemma incorporate_wf:
  assumes wf: "log_wf l" and pos: "next_position l (ev_Seq ev)"
    and voc: "validateLogEventVocabulary (ev_Type ev) (ev_Data ev) = None"
    and chk: "log_checks (lg_events l @ [ev]) = None"
  shows "log_wf (incorporate l ev)"
  using next_position_contiguous [OF wf pos] wf voc chk by (auto simp: log_wf_def vocabulary_ok_def)

section \<open>Append\<close>

text \<open>The outcomes of an append: an error and the same log, or the row and the log with it.\<close>

lemma Append_cases:
  obtains (error) x where "Append l now typ data = (Inl x, l)"
  | (committed) ev where "Append l now typ data = (Inr ev, incorporate l ev)"
      and "ev = \<lparr>ev_Seq = lg_seq l + 1, ev_Type = typ, ev_At = now, ev_Version = EventVersion, ev_Data = data\<rparr>"
      and "validateLogEventVocabulary typ data = None" and "data \<noteq> None"
      and "retry_check typ (lg_events l @ [ev]) = None" and "log_checks (lg_events l @ [ev]) = None"
      and "sink_error l ev = None"
proof (cases "data = None \<or> validateLogEventVocabulary typ data \<noteq> None")
  case True
  then have "\<exists>x. Append l now typ data = (Inl x, l)" by (auto simp: Append_def)
  then show ?thesis using error by blast
next
  case False
  let ?ev = "\<lparr>ev_Seq = lg_seq l + 1, ev_Type = typ, ev_At = now, ev_Version = EventVersion, ev_Data = data\<rparr>"
  show ?thesis
  proof (cases "first_error [retry_check typ (lg_events l @ [?ev]), log_checks (lg_events l @ [?ev]), sink_error l ?ev]")
    case None
    then have *: "retry_check typ (lg_events l @ [?ev]) = None" "log_checks (lg_events l @ [?ev]) = None"
      "sink_error l ?ev = None" by simp_all
    show ?thesis
      by (rule committed [of ?ev]) (use False None * in \<open>simp_all add: Append_def Let_def\<close>)
  next
    case (Some x)
    with False have "Append l now typ data = (Inl x, l)" by (auto simp: Append_def Let_def)
    then show ?thesis by (rule error)
  qed
qed


lemma append_wf:
  assumes "log_wf l"
  shows "log_wf (snd (Append l now typ data))"
proof (cases rule: Append_cases [of l now "typ" data])
  case (committed ev)
  then have "log_wf (incorporate l ev)" by (intro incorporate_wf [OF assms]) (simp_all add: next_position_def)
  with committed(1) show ?thesis by simp
qed (simp add: assms)

text \<open>
  Fact: every append keeps the invariant of the log: contiguous positions, the last one as its sequence,
  the count of turn starts, known rows only, and provenance, command and workflow records in order.
\<close>

theorem append_preserves_wf:
  assumes "log_wf l"
  shows "log_wf (snd (Append l now typ data))"
  by (rule append_wf [OF assms])

lemma AppendPersisted_cases:
  obtains (error) x where "AppendPersisted l ev = (Some x, l)"
  | (committed) "AppendPersisted l ev = (None, incorporate l ev)" and "next_position l (ev_Seq ev)"
      and "validateLogEventVocabulary (ev_Type ev) (ev_Data ev) = None"
      and "retry_check (ev_Type ev) (lg_events l @ [ev]) = None" and "log_checks (lg_events l @ [ev]) = None"
proof (cases "first_error
         [map_option SErrVocabulary (validateLogEventVocabulary (ev_Type ev) (ev_Data ev)),
          log_checks (lg_events l @ [ev]), retry_check (ev_Type ev) (lg_events l @ [ev])]")
  case (Some x)
  then have "\<exists>x. AppendPersisted l ev = (Some x, l)" by (auto simp: AppendPersisted_def Let_def)
  then show ?thesis using error by blast
next
  case None
  then have *: "validateLogEventVocabulary (ev_Type ev) (ev_Data ev) = None"
      "log_checks (lg_events l @ [ev]) = None" "retry_check (ev_Type ev) (lg_events l @ [ev]) = None" by simp_all
  show ?thesis
  proof (cases "next_position l (ev_Seq ev) \<and> ev_Type ev \<noteq> EventOther [] \<and> 0 < ev_Version ev")
    case True
    then show ?thesis
      using None * by (intro committed) (auto simp: AppendPersisted_def Let_def next_position_def)
  next
    case False
    then have "\<exists>x. AppendPersisted l ev = (Some x, l)"
      by (auto simp: AppendPersisted_def Let_def next_position_def split: if_splits option.split)
    then show ?thesis using error by blast
  qed
qed

text \<open>
  Fact: incorporating a row that a durable transaction has already committed either fails and leaves the
  log as it was, or adds that row, whose position is the one the log expects, and keeps the invariant.
\<close>

theorem append_persisted_spec:
  assumes "log_wf l"
  shows "case AppendPersisted l ev of
     (Some x, l') \<Rightarrow> l' = l
   | (None, l') \<Rightarrow> log_wf l' \<and> lg_events l' = lg_events l @ [ev] \<and>
       (ev_Seq ev = lg_seq l + 1 \<or> lg_events l = [] \<and> ev_Seq ev = 0)"
proof (cases rule: AppendPersisted_cases [of l ev])
  case committed
  then show ?thesis using incorporate_wf [OF assms] by (simp add: next_position_def)
qed simp

section \<open>Restore\<close>

definition restore_rel :: "event list \<Rightarrow> restore_state \<Rightarrow> bool" where
  "restore_rel es s \<longleftrightarrow>
     rs_restored s = es \<and> vocabulary_ok es \<and> (\<exists>n \<le> 1. contiguous_from n es) \<and>
     rs_turnStarts s = length (filter (\<lambda>ev. ev_Type ev = EventTurnStart) es) \<and>
     rs_canonical s = list_ex has_turn_coordinate es \<and>
     rs_seen s = (es \<noteq> []) \<and> rs_last s = (if es = [] then 0 else ev_Seq (last es))"

lemma restore_rel_init: "restore_rel [] restore_init"
  by (auto simp: restore_rel_def restore_init_def vocabulary_ok_def)

lemma restore_rel_next:
  assumes "restore_rel es s"
  shows "(\<exists>n \<le> 1. contiguous_from n (es @ [ev])) \<longleftrightarrow>
    (if rs_seen s then ev_Seq ev = rs_last s + 1 else ev_Seq ev = 0 \<or> ev_Seq ev = 1)"
proof (cases "es = []")
  case True
  have "(\<exists>n \<le> 1. n = ev_Seq ev) \<longleftrightarrow> ev_Seq ev = 0 \<or> ev_Seq ev = 1" by auto
  with True assms show ?thesis by (auto simp: restore_rel_def)
next
  case False
  from assms obtain n where n: "n \<le> 1" "contiguous_from n es" by (auto simp: restore_rel_def)
  have l: "Suc (ev_Seq (last es)) = n + length es" by (rule contiguous_from_last [OF n(2) False])
  have "contiguous_from m es \<longleftrightarrow> m = n" for m using n(2) False by (cases es) auto
  then have "contiguous_from m (es @ [ev]) \<longleftrightarrow> m = n \<and> ev_Seq ev = n + length es" for m
    by (auto simp: contiguous_from_append)
  then have "(\<exists>n \<le> 1. contiguous_from n (es @ [ev])) \<longleftrightarrow> ev_Seq ev = n + length es"
    using n(1) by blast
  moreover have "rs_seen s" "rs_last s = ev_Seq (last es)" using assms False by (simp_all add: restore_rel_def)
  ultimately show ?thesis using l by simp
qed

lemma restore_step_spec:
  assumes "restore_rel es s"
  shows "(case restore_step s ev of
      Inl _ \<Rightarrow> \<not> (vocabulary_ok (es @ [ev]) \<and> (\<exists>n \<le> 1. contiguous_from n (es @ [ev])))
    | Inr s' \<Rightarrow> restore_rel (es @ [ev]) s')"
proof -
  note nxt = restore_rel_next [OF assms, of ev]
  show ?thesis
  proof (cases "restore_step s ev")
    case (Inl x)
    with nxt assms show ?thesis
      by (auto simp: restore_step_def vocabulary_ok_def split: option.splits if_splits)
  next
    case (Inr s')
    then have v: "validateLogEventVocabulary (ev_Type ev) (ev_Data ev) = None"
      and c: "if rs_seen s then ev_Seq ev = rs_last s + 1 else ev_Seq ev = 0 \<or> ev_Seq ev = 1"
      and s': "s' = \<lparr>rs_restored = rs_restored s @ [ev],
                    rs_turnStarts = rs_turnStarts s + (if ev_Type ev = EventTurnStart then 1 else 0),
                    rs_canonical = (rs_canonical s \<or> has_turn_coordinate ev),
                    rs_last = ev_Seq ev, rs_seen = True\<rparr>"
      by (auto simp: restore_step_def split: option.splits if_splits)
    have "\<exists>n \<le> 1. contiguous_from n (es @ [ev])" using c nxt by blast
    with v assms have "restore_rel (es @ [ev]) s'"
      by (simp add: restore_rel_def s' vocabulary_ok_def)
    with Inr show ?thesis by simp
  qed
qed

lemma restore_fold:
  "case fold_until restore_step restore_init es of
      Inl _ \<Rightarrow> \<not> (vocabulary_ok es \<and> (\<exists>n \<le> 1. contiguous_from n es))
    | Inr s \<Rightarrow> restore_rel es s"
proof (induction es rule: rev_induct)
  case Nil
  show ?case by (simp add: restore_rel_init)
next
  case (snoc ev es)
  show ?case
  proof (cases "fold_until restore_step restore_init es")
    case (Inl x)
    with snoc show ?thesis
      by (auto simp: fold_until_append vocabulary_ok_def contiguous_from_append)
  next
    case (Inr s)
    with snoc restore_step_spec [of es s ev] show ?thesis
      by (auto simp: fold_until_append split: sum.splits)
  qed
qed

lemma Restore_error:
  assumes "fst (Restore l es) = Some x"
  shows "snd (Restore l es) = l"
proof (cases "fold_until restore_step restore_init es")
  case (Inr s)
  then show ?thesis
    using assms
    by (cases "first_error [log_checks (rs_restored s),
          if rs_canonical s then ValidateLifecycle (rs_restored s) else None]")
       (simp_all add: Restore_def)
qed (simp add: Restore_def)

lemma Restore_ok:
  assumes "fst (Restore l es) = None"
  shows "log_wf (snd (Restore l es))"
proof (cases "fold_until restore_step restore_init es")
  case (Inr s)
  then have rel: "restore_rel es s" using restore_fold [of es] by simp
  show ?thesis
  proof (cases "first_error [log_checks (rs_restored s),
          if rs_canonical s then ValidateLifecycle (rs_restored s) else None]")
    case None
    then have "log_checks es = None" using rel by (simp add: restore_rel_def)
    with Inr None rel show ?thesis by (simp add: Restore_def restore_rel_def log_wf_def)
  next
    case (Some x)
    with Inr assms show ?thesis by (simp add: Restore_def)
  qed
qed (use assms in \<open>simp add: Restore_def\<close>)

text \<open>
  Fact: a replay either fails and leaves the live log untouched, or installs exactly the given rows as a
  log that satisfies the invariant, keeping its sink, observer and resolver.
\<close>

theorem restore_spec:
  "case Restore l es of
     (Some x, l') \<Rightarrow> l' = l
   | (None, l') \<Rightarrow> lg_events l' = es \<and> log_wf l' \<and> lg_sink l' = lg_sink l \<and> lg_observer l' = lg_observer l \<and>
       lg_imageResolver l' = lg_imageResolver l"
proof (cases "fold_until restore_step restore_init es")
  case (Inl x)
  then show ?thesis by (simp add: Restore_def)
next
  case (Inr s)
  then have "restore_rel es s" using restore_fold [of es] by simp
  with Inr show ?thesis
    by (auto simp: Restore_def restore_rel_def log_wf_def split: option.split)
qed


section \<open>AppendAtomic\<close>

lemma events_of_Cons [simp]: "events_of p ((q, ev) # evs) = (if q = p then ev # events_of p evs else events_of p evs)"
  by (simp add: events_of_def)

lemma events_of_Nil [simp]: "events_of p [] = []"
  by (simp add: events_of_def)

lemma store_log_incorporate_in:
  "store_log (incorporate_in st (q, ev)) p = (if q = p then incorporate (store_log st p) ev else store_log st p)"
  by (simp add: incorporate_in_def store_log_def)

lemma store_log_foldl:
  "store_log (foldl incorporate_in st evs) p = foldl incorporate (store_log st p) (events_of p evs)"
proof (induction evs arbitrary: st)
  case (Cons pe evs)
  obtain q ev where "pe = (q, ev)" by (cases pe)
  then show ?case by (simp add: Cons.IH store_log_incorporate_in)
qed simp

lemma assign_contiguous: "contiguous_from (nxt p) (events_of p (assign_events nxt now items))"
proof (induction items arbitrary: nxt now)
  case (Cons item items)
  show ?case
  proof (cases "atomic_target item = p")
    case True
    have "contiguous_from (nxt p + 1) (events_of p (assign_events (nxt(p := nxt p + 1)) (\<lambda>i. now (Suc i)) items))"
      using Cons.IH [of "nxt(p := nxt p + 1)" "\<lambda>i. now (Suc i)"] unfolding fun_upd_same .
    then show ?thesis using True by (simp add: Let_def)
  next
    case False
    then have ne: "p \<noteq> atomic_target item" by simp
    have "contiguous_from (nxt p)
        (events_of p (assign_events (nxt(atomic_target item := nxt (atomic_target item) + 1)) (\<lambda>i. now (Suc i)) items))"
      using Cons.IH [of "nxt(atomic_target item := nxt (atomic_target item) + 1)" "\<lambda>i. now (Suc i)"]
      unfolding fun_upd_other [OF ne] .
    then show ?thesis using False by (simp add: Let_def)
  qed
qed simp

lemma assign_vocabulary:
  "first_error (map atomic_item_error items) = None \<Longrightarrow> vocabulary_ok (events_of p (assign_events nxt now items))"
proof (induction items arbitrary: nxt now)
  case (Cons item items)
  have "validateLogEventVocabulary (aa_Type item) (aa_Data item) = None"
    using Cons.prems by (auto simp: atomic_item_error_def split: if_splits)
  then show ?case
    using Cons.IH Cons.prems by (simp add: Let_def vocabulary_ok_def)
qed (simp add: vocabulary_ok_def)

lemma foldl_incorporate:
  "lg_events (foldl incorporate l es) = lg_events l @ es \<and>
   lg_seq (foldl incorporate l es) = (if es = [] then lg_seq l else ev_Seq (last es)) \<and>
   lg_turnStarts (foldl incorporate l es) =
     lg_turnStarts l + length (filter (\<lambda>ev. ev_Type ev = EventTurnStart) es)"
  by (induction es arbitrary: l) auto

lemma foldl_incorporate_wf:
  assumes wf: "log_wf l" and pos: "contiguous_from (lg_seq l + 1) es" and voc: "vocabulary_ok es"
    and chk: "log_checks (lg_events l @ es) = None"
  shows "log_wf (foldl incorporate l es)"
proof (cases "es = []")
  case False
  have "\<exists>n \<le> 1. contiguous_from n (lg_events l @ es)"
  proof (cases "lg_events l = []")
    case True
    with wf pos show ?thesis by (auto simp: log_wf_def)
  next
    case ne: False
    with wf obtain n where n: "n \<le> 1" "contiguous_from n (lg_events l)"
      and seq: "lg_seq l = ev_Seq (last (lg_events l))" by (auto simp: log_wf_def)
    have "lg_seq l + 1 = n + length (lg_events l)" using contiguous_from_last [OF n(2) ne] seq by simp
    with n pos show ?thesis by (auto simp: contiguous_from_append)
  qed
  with False wf voc chk foldl_incorporate [of l es] show ?thesis
    by (auto simp: log_wf_def vocabulary_ok_def)
qed (simp add: wf)

lemma log_checks_targets:
  assumes "first_error (map (\<lambda>p. log_checks (es p @ events_of p evs)) (sort (remdups ps))) = None"
    and "p \<in> set ps"
  shows "log_checks (es p @ events_of p evs) = None"
  using assms by (simp add: first_error_None_iff)

lemma assign_other: "p \<notin> set (map atomic_target items) \<Longrightarrow> events_of p (assign_events nxt now items) = []"
  by (induction items arbitrary: nxt now) (auto simp: Let_def)

lemma append_atomic_store_raw:
  "case AppendAtomic st now items commit of
     (Some x, st') \<Rightarrow> st' = st
   | (None, st') \<Rightarrow>
       items = [] \<and> st' = st \<or>
       (\<exists>com evs. commit = Some com \<and> com (map snd evs) = None \<and> map fst evs = map atomic_target items \<and>
          (\<forall>p. lg_events (store_log st' p) = lg_events (store_log st p) @ events_of p evs \<and>
               contiguous_from (NextSeq (store_log st p)) (events_of p evs) \<and>
               (log_wf (store_log st p) \<longrightarrow> log_wf (store_log st' p))))"
proof (cases "fst (AppendAtomic st now items commit)")
  case (Some x)
  then show ?thesis by (auto simp: AppendAtomic_def Let_def split: option.splits if_splits)
next
  case None
  let ?evs = "assign_events (\<lambda>p. lg_seq (store_log st p) + 1) now items"
  show ?thesis
  proof (cases "items = []")
    case True
    then show ?thesis by (simp add: AppendAtomic_def)
  next
    case False
    with None obtain com where com: "commit = Some com" "com (map snd ?evs) = None"
      and items: "first_error (map atomic_item_error items) = None"
      and chk: "first_error (map (\<lambda>p. log_checks (lg_events (store_log st p) @ events_of p ?evs))
                  (sort (remdups (map atomic_target items)))) = None"
      by (auto simp: AppendAtomic_def Let_def split: option.splits if_splits)
    then have r: "AppendAtomic st now items commit = (None, foldl incorporate_in st ?evs)"
      using False by (simp add: AppendAtomic_def Let_def)
    have targets: "map fst ?evs = map atomic_target items"
    proof -
      have "map fst (assign_events nxt now items) = map atomic_target items" for nxt now
        by (induction items arbitrary: nxt now) (simp_all add: Let_def)
      then show ?thesis .
    qed
    have wf: "log_wf (store_log (foldl incorporate_in st ?evs) p)" if l: "log_wf (store_log st p)" for p
    proof (cases "p \<in> set (map atomic_target items)")
      case True
      show ?thesis
        unfolding store_log_foldl
        by (rule foldl_incorporate_wf [OF l assign_contiguous assign_vocabulary [OF items]
              log_checks_targets [OF chk True]])
    next
      case False
      with l show ?thesis by (simp add: store_log_foldl assign_other)
    qed
    have "\<forall>p. lg_events (store_log (foldl incorporate_in st ?evs) p) =
            lg_events (store_log st p) @ events_of p ?evs \<and>
          contiguous_from (NextSeq (store_log st p)) (events_of p ?evs) \<and>
          (log_wf (store_log st p) \<longrightarrow> log_wf (store_log (foldl incorporate_in st ?evs) p))"
      using wf assign_contiguous [of "\<lambda>p. lg_seq (store_log st p) + 1" _ now items]
      by (simp add: store_log_foldl foldl_incorporate NextSeq_def)
    with com targets r show ?thesis by auto
  qed
qed

text \<open>
  Fact: an atomic append over several logs is all or nothing. It fails and leaves every log as it was, or
  every log of the store gets exactly its rows of the request, in their order and at its next positions,
  the commit callback accepted the whole batch, and every well-formed log stays well formed.
\<close>

theorem append_atomic_store:
  "case AppendAtomic st now items commit of
     (Some x, st') \<Rightarrow> st' = st
   | (None, st') \<Rightarrow>
       items = [] \<and> st' = st \<or>
       (\<exists>com evs. commit = Some com \<and> com (map snd evs) = None \<and> map fst evs = map atomic_target items \<and>
          (\<forall>p. lg_events (store_log st' p) = lg_events (store_log st p) @ events_of p evs \<and>
               contiguous_from (NextSeq (store_log st p)) (events_of p evs) \<and>
               (log_wf (store_log st p) \<longrightarrow> log_wf (store_log st' p))))"
  by (rule append_atomic_store_raw)

section \<open>The history is a function of the log\<close>

inductive log_reachable :: "session_log \<Rightarrow> bool" where
  reach_New: "log_reachable New"
| reach_SetSink: "log_reachable l \<Longrightarrow> log_reachable (SetSink l sink)"
| reach_SetObserver: "log_reachable l \<Longrightarrow> log_reachable (SetObserver l b)"
| reach_SetImageResolver: "log_reachable l \<Longrightarrow> log_reachable (SetImageResolver l r)"
| reach_Append: "log_reachable l \<Longrightarrow> log_reachable (snd (Append l now typ data))"
| reach_AppendPersisted: "log_reachable l \<Longrightarrow> log_reachable (snd (AppendPersisted l ev))"
| reach_AppendAtomic: "(\<And>q. log_reachable (store_log st q)) \<Longrightarrow>
    log_reachable (store_log (snd (AppendAtomic st now' items commit)) p)"
| reach_Restore: "log_reachable l \<Longrightarrow> log_reachable (snd (Restore l es))"
| reach_DeriveHistory: "log_reachable l \<Longrightarrow> log_reachable (snd (DeriveHistory l))"

definition cache_ok :: "session_log \<Rightarrow> bool" where
  "cache_ok l \<longleftrightarrow> (lg_derivedHistoryValid l \<longrightarrow>
     lg_derivedHistory l = DeriveHistoryEvents (lg_events l) (lg_imageResolver l))"

definition log_inv :: "session_log \<Rightarrow> bool" where
  "log_inv l \<longleftrightarrow> log_wf l \<and> (replacements_past (lg_events l) \<longrightarrow> cache_ok l)"

lemma resolveImages_append: "resolveImages r (xs @ ys) = resolveImages r xs @ resolveImages r ys"
  by (simp add: resolveImages_def split: option.split)

lemma replacements_past_append: "replacements_past (xs @ ys) \<Longrightarrow> replacements_past xs"
  by (simp add: replacements_past_def)

lemma incorporate_cache:
  assumes c: "contiguous (lg_events l @ [ev])" and past: "replacements_past (lg_events l)" and ok: "cache_ok l"
  shows "cache_ok (incorporate l ev)"
proof (cases "lg_derivedHistoryValid l \<and> \<not> isSurfaceReplacementEvent ev")
  case True
  with ok derive_incremental [OF c past, of] show ?thesis
    by (simp add: cache_ok_def incorporate_def extend_history_def Let_def DeriveHistoryEvents_def resolveImages_append)
next
  case False
  then show ?thesis by (auto simp: cache_ok_def incorporate_def extend_history_def Let_def)
qed

lemma foldl_incorporate_cache:
  assumes "contiguous (lg_events l @ es)" and "replacements_past (lg_events l @ es)" and "cache_ok l"
  shows "cache_ok (foldl incorporate l es)"
  using assms
proof (induction es arbitrary: l)
  case (Cons ev es)
  have "cache_ok (incorporate l ev)"
  proof (rule incorporate_cache)
    show "contiguous (lg_events l @ [ev])" using Cons.prems(1) contiguous_prefix [of "lg_events l @ [ev]" es] by simp
    show "replacements_past (lg_events l)" using Cons.prems(2) by (rule replacements_past_append)
  qed (rule Cons.prems(3))
  then show ?case using Cons.IH [of "incorporate l ev"] Cons.prems by simp
qed simp

lemma incorporate_inv:
  assumes "log_inv l" and "log_wf (incorporate l ev)"
  shows "log_inv (incorporate l ev)"
  using assms incorporate_cache [of l ev] log_wf_contiguous [OF assms(2)] replacements_past_append [of "lg_events l" "[ev]"]
  by (auto simp: log_inv_def)

lemma AppendAtomic_log:
  "\<exists>es. store_log (snd (AppendAtomic st now items commit)) p = foldl incorporate (store_log st p) es"
  by (auto simp: AppendAtomic_def Let_def store_log_foldl intro: exI [of _ "[]"] split: option.split)

lemma AppendAtomic_inv:
  assumes "log_inv (store_log st p)"
  shows "log_inv (store_log (snd (AppendAtomic st now items commit)) p)"
proof -
  obtain es where es: "store_log (snd (AppendAtomic st now items commit)) p = foldl incorporate (store_log st p) es"
    using AppendAtomic_log by blast
  have wf: "log_wf (store_log (snd (AppendAtomic st now items commit)) p)"
    using append_atomic_store_raw [where st = st and now = now and items = items and commit = commit] assms
    by (auto simp: log_inv_def split: prod.splits option.splits)
  have ev: "lg_events (foldl incorporate (store_log st p) es) = lg_events (store_log st p) @ es"
    using foldl_incorporate by blast
  have "cache_ok (foldl incorporate (store_log st p) es)"
    if past: "replacements_past (lg_events (store_log st p) @ es)"
    using assms past log_wf_contiguous [OF wf] replacements_past_append [OF past]
    by (intro foldl_incorporate_cache) (auto simp: log_inv_def es ev)
  with wf show ?thesis by (simp add: log_inv_def es ev)
qed

lemma DeriveHistory_inv: "log_inv l \<Longrightarrow> log_inv (snd (DeriveHistory l))"
  by (auto simp: DeriveHistory_def log_inv_def log_wf_def cache_ok_def Let_def)

lemma Restore_inv:
  assumes "log_inv l"
  shows "log_inv (snd (Restore l es))"
proof (cases "fst (Restore l es)")
  case None
  then have "lg_derivedHistoryValid (snd (Restore l es)) = False"
    by (auto simp: Restore_def split: sum.splits option.splits)
  moreover have "log_wf (snd (Restore l es))"
    using None Restore_ok [of l es] by simp
  ultimately show ?thesis by (simp add: log_inv_def cache_ok_def)
next
  case (Some x)
  then have "snd (Restore l es) = l" by (rule Restore_error)
  with assms show ?thesis by simp
qed

lemma reachable_inv: "log_reachable l \<Longrightarrow> log_inv l"
proof (induction rule: log_reachable.induct)
  case reach_New
  then show ?case using log_wf_New by (simp add: log_inv_def cache_ok_def New_def)
next
  case (reach_Append l now t data)
  show ?case
  proof (cases rule: Append_cases [of l now t data])
    case (committed ev)
    have "log_wf (snd (Append l now t data))" using reach_Append.IH by (intro append_wf) (simp add: log_inv_def)
    with committed(1) reach_Append.IH show ?thesis by (simp add: incorporate_inv)
  qed (simp add: reach_Append.IH)
next
  case (reach_AppendPersisted l ev)
  show ?case
  proof (cases rule: AppendPersisted_cases [of l ev])
    case committed
    have "log_wf (incorporate l ev)"
      using reach_AppendPersisted.IH committed by (intro incorporate_wf) (simp_all add: log_inv_def)
    with committed(1) reach_AppendPersisted.IH show ?thesis by (simp add: incorporate_inv)
  qed (simp add: reach_AppendPersisted.IH)
next
  case (reach_AppendAtomic st now items commit p)
  then show ?case by (intro AppendAtomic_inv) blast
next
  case (reach_Restore l es)
  then show ?case by (intro Restore_inv)
next
  case (reach_DeriveHistory l)
  then show ?case by (intro DeriveHistory_inv)
qed (auto simp: log_inv_def log_wf_def cache_ok_def SetSink_def SetObserver_def SetImageResolver_def)

text \<open>
  C1: whatever sequence of writes, failed writes, batches, replays, resolver changes and reads a log has
  gone through, its positions are contiguous, its counters agree with its rows and its rows pass the
  provenance, command and workflow checks.
\<close>

theorem reachable_log_wf:
  assumes "log_reachable l"
  shows "log_wf l"
  using reachable_inv [OF assms] by (simp add: log_inv_def)


section \<open>Concrete logs\<close>

definition user_row :: "string \<Rightarrow> json option" where
  "user_row s = Some (JObj [(''text'', JStr s)])"

definition marker_row :: "string \<Rightarrow> int \<Rightarrow> int \<Rightarrow> json option" where
  "marker_row s lo hi = Some (JObj [(''text'', JStr s),
     (''surfaceOp'', JObj [(''op'', JStr ''replace''), (''start'', JInt lo), (''end'', JInt hi)])])"

definition append_all :: "session_log \<Rightarrow> (event_type \<times> json option) list \<Rightarrow> session_log" where
  "append_all l rows = foldl (\<lambda>l (t, d). snd (Append l 5 t d)) l rows"

lemma append_all_reachable: "log_reachable l \<Longrightarrow> log_reachable (append_all l rows)"
  unfolding append_all_def
  by (induction rows arbitrary: l) (auto intro: reach_Append)

definition sample_log :: session_log where
  "sample_log = append_all New
     [(EventUserMessage, user_row ''a''), (EventAssistantMessage, user_row ''b''),
      (EventUserMessage, marker_row ''s'' 1 2)]"

lemma sample_log_reachable: "log_reachable sample_log"
  unfolding sample_log_def by (rule append_all_reachable [OF reach_New])

lemma sample_log_wf: "log_wf sample_log"
  using reachable_inv [OF sample_log_reachable] by (simp add: log_inv_def)

lemma append_preserves_wf_witness: "log_wf (snd (Append sample_log 9 EventTurnStart (Some (JObj []))))"
  by (rule append_preserves_wf [OF sample_log_wf])

lemma append_persisted_spec_witness:
  "log_wf (snd (AppendPersisted sample_log (sample_row 4 EventTurnEnd []))) \<and>
   fst (AppendPersisted sample_log (sample_row 4 EventTurnEnd [])) = None"
proof -
  have "fst (AppendPersisted sample_log (sample_row 4 EventTurnEnd [])) = None" by code_simp
  then show ?thesis
    using append_persisted_spec [OF sample_log_wf, of "sample_row 4 EventTurnEnd []"] by (simp add: case_prod_beta)
qed

definition sample_batch :: "atomic_append list" where
  "sample_batch =
     [\<lparr>aa_Log = Some 1, aa_Type = EventTeamTask, aa_Data = Some (JObj [])\<rparr>,
      \<lparr>aa_Log = Some 2, aa_Type = EventUserMessage, aa_Data = user_row ''b''\<rparr>]"

lemma append_atomic_store_witness:
  "log_wf (store_log (snd (AppendAtomic [(1, sample_log)] int sample_batch (Some (\<lambda>_. None)))) 1)"
proof -
  have "fst (AppendAtomic [(1, sample_log)] int sample_batch (Some (\<lambda>_. None))) = None" by code_simp
  moreover have "sample_batch \<noteq> []" by (simp add: sample_batch_def)
  moreover have "log_wf (store_log [(1, sample_log)] 1)" by (simp add: store_log_def sample_log_wf)
  ultimately show ?thesis
    using append_atomic_store [where st = "[(1, sample_log)]" and now = int and items = sample_batch
        and commit = "Some (\<lambda>_. None)"]
    by (auto split: prod.splits)
qed


lemma reachable_log_wf_witness: "log_wf (snd (DeriveHistory sample_log))"
  by (rule reachable_log_wf) (rule reach_DeriveHistory [OF sample_log_reachable])

fun replacement_past :: "event \<Rightarrow> bool" where
  "replacement_past ev = (case row_replacement ev of None \<Rightarrow> True | Some (op, t) \<Rightarrow> nat (sr_End op) < ev_Seq ev)"

lemma replacements_past_code: "replacements_past es \<longleftrightarrow> list_all replacement_past es"
  by (auto simp: replacements_past_def list_all_iff split: option.splits)


text \<open>
  A log whose replacement reaches past its own row: it cites no sources, so nothing checks its range.
\<close>

definition stale_log :: session_log where
  "stale_log = append_all (snd (DeriveHistory (append_all New
     [(EventUserMessage, user_row ''a''), (EventUserMessage, marker_row ''s'' 1 3)])))
     [(EventUserMessage, user_row ''b'')]"

text \<open>
  Fact: without that condition the cache and the fold disagree: a replacement without sources whose range
  ends after its own row is accepted, the next row is added to a cached history, and a fresh fold
  of the same rows (after a restart, say) skips it.
\<close>

theorem stale_history_reachable:
  "\<exists>l. log_reachable l \<and> fst (DeriveHistory l) \<noteq> DeriveHistoryEvents (lg_events l) (lg_imageResolver l)"
proof (intro exI conjI)
  show "log_reachable stale_log"
    unfolding stale_log_def by (intro append_all_reachable reach_DeriveHistory reach_New)
  have "length (fst (DeriveHistory stale_log)) = 2" by code_simp
  moreover have "length (DeriveHistoryEvents (lg_events stale_log) (lg_imageResolver stale_log)) = 1" by code_simp
  ultimately show "fst (DeriveHistory stale_log) \<noteq> DeriveHistoryEvents (lg_events stale_log) (lg_imageResolver stale_log)"
    by auto
qed

end
