(* ===== verification/Session_Recovery.thy ===== *)
theory Session_Recovery
  imports Session_Lifecycle Session_History
begin

text \<open>
  Crash recovery: \<^verbatim>\<open>InterruptedTurnClosers\<close> of \<^verbatim>\<open>internal/session/recovery.go\<close> and the
  payload constructors of \<^verbatim>\<open>session.go\<close> it calls. The scan remembers the tool calls of the open
  step that have no result; the closers answer them and close the step and the turn. The theory
  proves that the extended log has balanced brackets, that recovering twice adds nothing, and that a
  log with coordinates is accepted again.
\<close>

section \<open>Payload constructors\<close>

definition toolErrorName :: "string \<Rightarrow> string" where
  "toolErrorName code =
     (if code = ''UNKNOWN_TOOL'' then ''ToolNotFoundError''
      else if code = ''INVALID_ARGS'' then ''ToolArgsError''
      else if code = ''TOOL_TIMEOUT'' then ''ToolTimeoutError''
      else if code = ''ABORTED'' \<or> code = ''ABORTED_BEFORE_DISPATCH'' then ''AbortError''
      else if code = ''TOOL_NOT_STARTED'' then ''ToolNotStartedError''
      else if code = ''TOOL_OUTCOME_UNKNOWN'' then ''ToolOutcomeUnknownError''
      else ''ToolError'')"

record tool_result =
  tr_Turn :: int
  tr_Step :: int
  tr_CallID :: string
  tr_Name :: string
  tr_Output :: string
  tr_Code :: string
  tr_Error :: "(string \<times> string) option"
  tr_Content :: "wireContentBlock list"
  tr_Block :: wireContentBlock
  tr_SourceEventSeqs :: "nat list"

text \<open>\<^verbatim>\<open>newToolResult\<close> without a spill reference.\<close>

definition newToolResult :: "int \<Rightarrow> int \<Rightarrow> string \<Rightarrow> string \<Rightarrow> string \<Rightarrow> ContentBlock list \<Rightarrow> bool \<Rightarrow> string \<Rightarrow> tool_result" where
  "newToolResult turn step callID name output content isError code =
     (let content = (if content = [] then [Text output] else content);
          blocks = toWireContentBlocks content;
          toolBlock = WireBlock BlockToolResult [] [] callID [] [] isError no_image blocks None
      in \<lparr>tr_Turn = turn, tr_Step = step, tr_CallID = callID, tr_Name = name, tr_Output = output, tr_Code = code,
          tr_Error = (if isError then Some (''ToolError'', code) else None),
          tr_Content = blocks, tr_Block = toolBlock, tr_SourceEventSeqs = []\<rparr>)"

definition NewToolErrorResultAtCode :: "int \<Rightarrow> int \<Rightarrow> string \<Rightarrow> string \<Rightarrow> string \<Rightarrow> string \<Rightarrow> tool_result" where
  "NewToolErrorResultAtCode turn step callID name output code =
     (newToolResult turn step callID name output [] True code)\<lparr>tr_Error := Some (toolErrorName code, code)\<rparr>"

definition addToolResultSource :: "tool_result \<Rightarrow> nat \<Rightarrow> tool_result" where
  "addToolResultSource r sourceSeq = (if sourceSeq = 0 then r else r\<lparr>tr_SourceEventSeqs := [sourceSeq]\<rparr>)"

definition NewToolErrorResultAtCodeWithSource ::
    "int \<Rightarrow> int \<Rightarrow> string \<Rightarrow> string \<Rightarrow> string \<Rightarrow> string \<Rightarrow> nat \<Rightarrow> tool_result" where
  "NewToolErrorResultAtCodeWithSource turn step callID name output code sourceSeq =
     addToolResultSource (NewToolErrorResultAtCode turn step callID name output code) sourceSeq"

text \<open>\<^verbatim>\<open>json.Marshal\<close> of a \<^verbatim>\<open>toolResultData\<close>.\<close>

definition encode_tool_result :: "tool_result \<Rightarrow> jobject" where
  "encode_tool_result r =
     omit_int ''turn'' (tr_Turn r) @ omit_int ''step'' (tr_Step r) @
     [(''message'', JObj [(''source'', JObj [(''callId'', JStr (tr_CallID r))]),
                         (''content'', JArr [encode_block (tr_Block r)])])] @
     (case tr_Error r of None \<Rightarrow> [] | Some (n, c) \<Rightarrow> [(''error'', JObj [(''name'', JStr n), (''code'', JStr c)])]) @
     (if tr_SourceEventSeqs r = [] then []
      else [(''sourceEventSeqs'', JArr (map (\<lambda>q. JInt (int q)) (tr_SourceEventSeqs r)))]) @
     omit_string ''callId'' (tr_CallID r) @ omit_string ''name'' (tr_Name r) @ omit_string ''output'' (tr_Output r) @
     omit_string ''code'' (tr_Code r) @
     (if tr_Content r = [] then [] else [(''content'', JArr (map encode_block (tr_Content r)))])"

definition turnEndReason :: "string \<Rightarrow> string \<Rightarrow> json" where
  "turnEndReason status errText =
     (if status = ''cancelled'' \<or> status = ''aborted''
      then JObj [(''kind'', JStr ''aborted''), (''reason'', JObj [(''kind'', JStr ''user'')])]
      else if status = ''failed'' \<or> status = ''error''
      then JObj [(''kind'', JStr ''error''), (''error'', JObj [(''message'', JStr errText), (''code'', JStr ''UNKNOWN'')])]
      else if status = ''max-tokens'' then JObj [(''kind'', JStr ''max-tokens'')]
      else if status = ''refusal'' then JObj [(''kind'', JStr ''refusal'')]
      else if status = ''interrupted'' then JObj [(''kind'', JStr ''interrupted'')]
      else if status = ''rejected'' \<or> status = ''blocked'' then JObj [(''kind'', JStr ''blocked'')]
      else JObj [(''kind'', JStr ''completed'')])"

definition NewTurnEndAt :: "int \<Rightarrow> string \<Rightarrow> string \<Rightarrow> jobject" where
  "NewTurnEndAt turn status errText =
     omit_int ''turn'' turn @ [(''status'', JStr status)] @ omit_string ''error'' errText @
     [(''reason'', turnEndReason status errText)]"

definition NewStepEndAt :: "int \<Rightarrow> int \<Rightarrow> string \<Rightarrow> string \<Rightarrow> jobject" where
  "NewStepEndAt turn step status errText =
     omit_int ''turn'' turn @ [(''step'', JInt step)] @ omit_string ''status'' status @ omit_string ''error'' errText"

section \<open>The scan\<close>

datatype recovery_error = ErrRcTurnStart int | ErrRcTurnEnd | ErrRcStepStart | ErrRcStepEnd

record pendingTool =
  pt_step :: int
  pt_name :: string
  pt_started :: nat

record recovery_state =
  rc_turn :: nat
  rc_step :: nat
  rc_turnNumber :: int
  rc_stepNumber :: int
  rc_anchored :: bool
  rc_pending :: "(string \<times> pendingTool) list"
  rc_order :: "string list"

definition positiveLifecycleNumber :: "json option \<Rightarrow> string \<Rightarrow> int \<Rightarrow> int" where
  "positiveLifecycleNumber raw key fallback =
     (case unmarshal_map raw of
        None \<Rightarrow> fallback
      | Some d \<Rightarrow>
          (case as_float (jget d key) of
             None \<Rightarrow> fallback
           | Some v \<Rightarrow> if 0 < int_of_float v then int_of_float v else fallback))"

definition addPending :: "string \<Rightarrow> pendingTool \<Rightarrow> recovery_state \<Rightarrow> recovery_state" where
  "addPending callID tool s =
     (if callID = [] then s
      else s\<lparr>rc_order := (if map_of (rc_pending s) callID = None then rc_order s @ [callID] else rc_order s),
             rc_pending := AList.update callID tool (rc_pending s)\<rparr>)"

definition clearPending :: "recovery_state \<Rightarrow> recovery_state" where
  "clearPending s = s\<lparr>rc_pending := [], rc_order := []\<rparr>"

text \<open>The assistant/message payload: its step, the legacy calls and the blocks (type, id, name).\<close>

definition dec_recovery_message ::
    "jobject \<Rightarrow> (int \<times> (string \<times> string) list \<times> (string \<times> string \<times> string) list) option" where
  "dec_recovery_message o1 = do {
     _ \<leftarrow> dec_int (jfield o1 ''turn'');
     step \<leftarrow> dec_int (jfield o1 ''step'');
     calls \<leftarrow> dec_slice (dec_struct (\<lambda>c. do {
         i \<leftarrow> dec_string (jfield c ''id'');
         n \<leftarrow> dec_string (jfield c ''name'');
         Some (i, n) })) (jfield o1 ''toolCalls'');
     blocks \<leftarrow> dec_ptr (dec_struct (\<lambda>m. dec_slice (dec_struct (\<lambda>b. do {
         t \<leftarrow> dec_string (jfield b ''type'');
         i \<leftarrow> dec_string (jfield b ''id'');
         n \<leftarrow> dec_string (jfield b ''name'');
         Some (t, i, n) })) (jfield m ''content''))) (jfield o1 ''message'');
     Some (step, calls, case blocks of None \<Rightarrow> [] | Some bs \<Rightarrow> bs) }"

definition recover_message :: "recovery_state \<Rightarrow> event \<Rightarrow> recovery_state" where
  "recover_message s ev =
     (if rc_turn s = 0 \<or> rc_step s = 0 then s
      else (case unmarshal_struct dec_recovery_message (ev_Data ev) of
         None \<Rightarrow> s
       | Some (step, calls, blocks) \<Rightarrow>
           let callStep = (if 0 < step then step else rc_stepNumber s);
               announced = calls @ map snd (filter (\<lambda>b. fst b = ''tool-call'') blocks)
           in fold (\<lambda>(i, n). addPending i \<lparr>pt_step = callStep, pt_name = n, pt_started = 0\<rparr>) announced s))"

definition dec_recovery_call :: "jobject \<Rightarrow> (string \<times> string \<times> int) option" where
  "dec_recovery_call o1 = do {
     i \<leftarrow> dec_string (jfield o1 ''callId'');
     n \<leftarrow> dec_string (jfield o1 ''name'');
     step \<leftarrow> dec_int (jfield o1 ''step'');
     Some (i, n, step) }"

definition recover_call :: "recovery_state \<Rightarrow> event \<Rightarrow> recovery_state" where
  "recover_call s ev =
     (case unmarshal_struct dec_recovery_call (ev_Data ev) of
        None \<Rightarrow> s
      | Some (i, n, step) \<Rightarrow>
          (case map_of (rc_pending s) i of
             None \<Rightarrow> s
           | Some call \<Rightarrow>
               let call = call\<lparr>pt_started := ev_Seq ev\<rparr>;
                   call = (if n \<noteq> [] then call\<lparr>pt_name := n\<rparr> else call);
                   call = (if 0 < step then call\<lparr>pt_step := step\<rparr> else call)
               in s\<lparr>rc_pending := AList.update i call (rc_pending s)\<rparr>))"

definition dec_recovery_result :: "jobject \<Rightarrow> string option" where
  "dec_recovery_result o1 = do {
     i \<leftarrow> dec_string (jfield o1 ''callId'');
     m \<leftarrow> dec_ptr (dec_struct (\<lambda>m. dec_struct (\<lambda>s. dec_string (jfield s ''callId'')) (jfield m ''source'')))
            (jfield o1 ''message'');
     Some (if i \<noteq> [] then i else case m of None \<Rightarrow> [] | Some j \<Rightarrow> j) }"

definition recover_result :: "recovery_state \<Rightarrow> event \<Rightarrow> recovery_state" where
  "recover_result s ev =
     (case unmarshal_struct dec_recovery_result (ev_Data ev) of
        None \<Rightarrow> s
      | Some i \<Rightarrow> s\<lparr>rc_pending := AList.delete i (rc_pending s)\<rparr>)"

definition recover_step :: "recovery_state \<Rightarrow> event \<Rightarrow> recovery_error + recovery_state" where
  "recover_step s ev =
     (if ev_Type ev = EventTurnStart then
        (if rc_turn s \<noteq> 0 then Inl (ErrRcTurnStart (rc_turnNumber s))
         else Inr ((clearPending s)\<lparr>rc_anchored := True, rc_turn := 1, rc_step := 0,
                     rc_turnNumber := positiveLifecycleNumber (ev_Data ev) ''turn'' (rc_turnNumber s)\<rparr>))
      else if ev_Type ev = EventTurnEnd then
        (if rc_turn s = 0 \<or> rc_step s \<noteq> 0 then Inl ErrRcTurnEnd
         else Inr ((clearPending s)\<lparr>rc_anchored := True, rc_turn := 0\<rparr>))
      else if ev_Type ev = EventStepStart then
        (if rc_turn s = 0 \<or> rc_step s \<noteq> 0 then Inl ErrRcStepStart
         else Inr (s\<lparr>rc_anchored := True, rc_step := 1,
                     rc_stepNumber := positiveLifecycleNumber (ev_Data ev) ''step'' (rc_stepNumber s)\<rparr>))
      else if ev_Type ev = EventStepEnd then
        (if rc_turn s = 0 \<or> rc_step s = 0 then Inl ErrRcStepEnd
         else Inr ((clearPending s)\<lparr>rc_anchored := True, rc_step := 0\<rparr>))
      else if ev_Type ev = EventAssistantMessage then Inr (recover_message s ev)
      else if ev_Type ev = EventToolCall then Inr (recover_call s ev)
      else if ev_Type ev = EventToolResult then Inr (recover_result s ev)
      else Inr s)"

definition recovery_init :: recovery_state where
  "recovery_init = \<lparr>rc_turn = 0, rc_step = 0, rc_turnNumber = 1, rc_stepNumber = 1, rc_anchored = False,
                    rc_pending = [], rc_order = []\<rparr>"

definition recover_scan :: "event list \<Rightarrow> recovery_error + recovery_state" where
  "recover_scan es = fold_until recover_step recovery_init es"

section \<open>The closers\<close>

definition not_started_text :: string where
  "not_started_text = ''The tool call was interrupted before the Harness recorded it as started. Retry it if it is still needed.''"

definition outcome_unknown_text :: string where
  "outcome_unknown_text = ''The tool call was interrupted after it was recorded, but no result was durably recorded. Its outcome is unknown. Decide whether to retry from the tool semantics: retry only if the operation is read-only or idempotent; if it may have side effects, first verify external state or ask the user. Do not retry blindly.''"

definition closer_event :: "nat \<Rightarrow> event_type \<Rightarrow> go_time \<Rightarrow> jobject \<Rightarrow> event" where
  "closer_event seq t ts payload =
     \<lparr>ev_Seq = seq, ev_Type = t, ev_At = ts, ev_Version = EventVersion, ev_Data = Some (JObj payload)\<rparr>"

definition result_payload :: "recovery_state \<Rightarrow> string \<Rightarrow> pendingTool \<Rightarrow> jobject" where
  "result_payload s callID call =
     (let step = (if pt_step call \<le> 0 then rc_stepNumber s else pt_step call);
          started = pt_started call \<noteq> 0
      in encode_tool_result
           (NewToolErrorResultAtCodeWithSource (rc_turnNumber s) step callID (pt_name call)
              (if started then outcome_unknown_text else not_started_text)
              (if started then ''TOOL_OUTCOME_UNKNOWN'' else ''TOOL_NOT_STARTED'')
              (pt_started call)))"

fun result_closers :: "recovery_state \<Rightarrow> nat \<Rightarrow> go_time \<Rightarrow> string list \<Rightarrow> event list" where
  "result_closers s seq ts [] = []"
| "result_closers s seq ts (callID # order) =
     (case map_of (rc_pending s) callID of
        None \<Rightarrow> result_closers s seq ts order
      | Some call \<Rightarrow>
          closer_event seq EventToolResult ts (result_payload s callID call)
          # result_closers s (seq + 1) ts order)"

definition closers :: "recovery_state \<Rightarrow> nat \<Rightarrow> go_time \<Rightarrow> event list" where
  "closers s seq ts =
     (let results = result_closers s seq ts (rc_order s);
          seq = seq + length results;
          steps = (if rc_step s \<noteq> 0
                   then [closer_event seq EventStepEnd ts
                           (NewStepEndAt (rc_turnNumber s) (rc_stepNumber s) ''interrupted'' ''recovered after crash'')]
                   else []);
          seq = seq + length steps
      in results @ steps @
         [closer_event seq EventTurnEnd ts (NewTurnEndAt (rc_turnNumber s) ''interrupted'' ''recovered after crash'')])"

definition InterruptedTurnClosers :: "event list \<Rightarrow> recovery_error + event list" where
  "InterruptedTurnClosers es =
     (if es = [] then Inr []
      else (case recover_scan es of
         Inl x \<Rightarrow> Inl x
       | Inr s \<Rightarrow>
           if \<not> rc_anchored s \<or> rc_turn s = 0 then Inr []
           else Inr (closers s (ev_Seq (last es) + 1) (ev_At (last es)))))"

section \<open>Brackets and positions\<close>

lemma addPending_fields [simp]:
  "rc_turn (addPending i t s) = rc_turn s" "rc_step (addPending i t s) = rc_step s"
  "rc_turnNumber (addPending i t s) = rc_turnNumber s" "rc_stepNumber (addPending i t s) = rc_stepNumber s"
  "rc_anchored (addPending i t s) = rc_anchored s"
  by (simp_all add: addPending_def)

lemma fold_addPending_fields:
  "rc_turn (fold (\<lambda>(i, n). addPending i (f n)) cs s) = rc_turn s \<and>
   rc_step (fold (\<lambda>(i, n). addPending i (f n)) cs s) = rc_step s \<and>
   rc_turnNumber (fold (\<lambda>(i, n). addPending i (f n)) cs s) = rc_turnNumber s \<and>
   rc_stepNumber (fold (\<lambda>(i, n). addPending i (f n)) cs s) = rc_stepNumber s \<and>
   rc_anchored (fold (\<lambda>(i, n). addPending i (f n)) cs s) = rc_anchored s"
  by (induction cs arbitrary: s) (auto simp: split_beta)

lemma recover_message_fields [simp]:
  "rc_turn (recover_message s ev) = rc_turn s" "rc_step (recover_message s ev) = rc_step s"
  "rc_turnNumber (recover_message s ev) = rc_turnNumber s" "rc_stepNumber (recover_message s ev) = rc_stepNumber s"
  "rc_anchored (recover_message s ev) = rc_anchored s"
  by (simp_all add: recover_message_def Let_def fold_addPending_fields split: option.split)

lemma recover_call_fields [simp]:
  "rc_turn (recover_call s ev) = rc_turn s" "rc_step (recover_call s ev) = rc_step s"
  "rc_turnNumber (recover_call s ev) = rc_turnNumber s" "rc_stepNumber (recover_call s ev) = rc_stepNumber s"
  "rc_anchored (recover_call s ev) = rc_anchored s"
  by (simp_all add: recover_call_def Let_def split: option.split)

lemma recover_result_fields [simp]:
  "rc_turn (recover_result s ev) = rc_turn s" "rc_step (recover_result s ev) = rc_step s"
  "rc_turnNumber (recover_result s ev) = rc_turnNumber s" "rc_stepNumber (recover_result s ev) = rc_stepNumber s"
  "rc_anchored (recover_result s ev) = rc_anchored s"
  by (simp_all add: recover_result_def split: option.split)

definition brackets_of :: "recovery_state \<Rightarrow> bracket_state" where
  "brackets_of s = \<lparr>br_turn = rc_turn s, br_step = rc_step s, br_last = 0, br_seen = False\<rparr>"

lemma recover_step_brackets:
  assumes "recover_step s ev = Inr s'" and "rc_turn s = 0 \<longrightarrow> rc_step s = 0"
  shows "bracket_anchor (brackets_of s) (ev_Type ev) = Inr (brackets_of s') \<and>
    (rc_anchored s' \<longleftrightarrow> rc_anchored s \<or> is_anchor (ev_Type ev))"
  using assms
  by (auto simp: recover_step_def bracket_anchor_def brackets_of_def is_anchor_def clearPending_def split: if_splits)

lemma recover_scan_brackets:
  assumes "recover_scan es = Inr s"
  shows "bracket_rel (anchors es) (brackets_of s) \<and> (rc_turn s \<noteq> 0 \<longrightarrow> rc_anchored s)"
  using assms [unfolded recover_scan_def]
proof (rule fold_until_history)
  show "bracket_rel (anchors []) (brackets_of recovery_init) \<and> (rc_turn recovery_init \<noteq> 0 \<longrightarrow> rc_anchored recovery_init)"
    by (simp add: bracket_rel_def brackets_of_def recovery_init_def anchors_def turns_Nil)
next
  fix es s ev s'
  assume *: "bracket_rel (anchors es) (brackets_of s) \<and> (rc_turn s \<noteq> 0 \<longrightarrow> rc_anchored s)"
    and step: "recover_step s ev = Inr s'"
  have anchored: "rc_turn s' \<noteq> 0 \<longrightarrow> rc_anchored s'"
    using * step by (auto simp: recover_step_def clearPending_def split: if_splits)
  have "rc_turn s = 0 \<longrightarrow> rc_step s = 0" using * by (auto simp: bracket_rel_def brackets_of_def)
  from recover_step_brackets [OF step this]
  have a: "bracket_anchor (brackets_of s) (ev_Type ev) = Inr (brackets_of s')" by (rule conjunct1)
  have "bracket_rel (anchors (es @ [ev])) (brackets_of s')"
    unfolding anchors_snoc by (rule bracket_anchor_rel [OF conjunct1 [OF *] a])
  with anchored show "bracket_rel (anchors (es @ [ev])) (brackets_of s') \<and> (rc_turn s' \<noteq> 0 \<longrightarrow> rc_anchored s')"
    by blast
qed

lemma result_closers_types: "ev \<in> set (result_closers s seq ts order) \<Longrightarrow> ev_Type ev = EventToolResult"
  by (induction s seq ts order rule: result_closers.induct) (auto simp: closer_event_def split: option.splits)

lemma result_closers_contiguous: "contiguous_from seq (result_closers s seq ts order)"
  by (induction s seq ts order rule: result_closers.induct) (auto simp: closer_event_def split: option.splits)

lemma closers_contiguous: "contiguous_from seq (closers s seq ts)"
  using result_closers_contiguous [of seq s ts "rc_order s"]
  by (auto simp: closers_def Let_def contiguous_from_append closer_event_def)

lemma anchors_append: "anchors (xs @ ys) = anchors xs @ anchors ys"
  by (simp add: anchors_def)

lemma anchors_closers:
  "anchors (closers s seq ts) = (if rc_step s \<noteq> 0 then [EventStepEnd] else []) @ [EventTurnEnd]"
proof -
  have "anchors (result_closers s seq ts (rc_order s)) = []"
    using result_closers_types [of _ s seq ts "rc_order s"] by (auto simp: anchors_def filter_empty_conv is_anchor_def)
  then show ?thesis
    by (simp add: closers_def Let_def anchors_append) (simp add: anchors_def is_anchor_def closer_event_def)
qed

lemma closed_after_closers:
  assumes rel: "bracket_rel w (brackets_of s)" and opn: "rc_turn s \<noteq> 0"
  shows "turns (w @ (if rc_step s \<noteq> 0 then [EventStepEnd] else []) @ [EventTurnEnd])"
proof (cases "rc_step s = 0")
  case True
  then show ?thesis
    using bracket_rel_TurnEnd [OF rel] opn by (simp add: brackets_of_def bracket_rel_def)
next
  case False
  then have "bracket_rel (w @ [EventStepEnd]) ((brackets_of s)\<lparr>br_step := 0\<rparr>)"
    using bracket_rel_StepEnd [OF rel] opn by (simp add: brackets_of_def)
  from bracket_rel_TurnEnd [OF this] opn False show ?thesis
    by (simp add: brackets_of_def bracket_rel_def)
qed

lemma InterruptedTurnClosers_cases:
  assumes "InterruptedTurnClosers es = Inr cs"
  obtains (empty) "es = []" "cs = []"
  | (closed) s where "recover_scan es = Inr s" "rc_turn s = 0" "cs = []"
  | (interrupted) s where "recover_scan es = Inr s" "rc_turn s \<noteq> 0" "es \<noteq> []"
      "cs = closers s (ev_Seq (last es) + 1) (ev_At (last es))"
proof (cases "es = []")
  case True
  with assms show ?thesis using empty by (simp add: InterruptedTurnClosers_def)
next
  case False
  with assms obtain s where s: "recover_scan es = Inr s"
    and cs: "cs = (if \<not> rc_anchored s \<or> rc_turn s = 0 then []
                   else closers s (ev_Seq (last es) + 1) (ev_At (last es)))"
    by (auto simp: InterruptedTurnClosers_def split: sum.splits if_splits)
  show ?thesis
  proof (cases "rc_turn s = 0")
    case True
    with s cs show ?thesis by (intro closed) simp_all
  next
    case ne: False
    with s cs False recover_scan_brackets [OF s] show ?thesis by (intro interrupted) simp_all
  qed
qed

lemma recovery_closes_raw:
  assumes "InterruptedTurnClosers es = Inr cs"
  shows "turns (anchors (es @ cs)) \<and> (contiguous_from n es \<longrightarrow> contiguous_from n (es @ cs))"
  using assms
proof (cases rule: InterruptedTurnClosers_cases)
  case empty
  then show ?thesis by (simp add: anchors_def turns_Nil)
next
  case (closed s)
  with recover_scan_brackets [OF closed(1)] show ?thesis by (simp add: bracket_rel_def brackets_of_def)
next
  case (interrupted s)
  have "turns (anchors (es @ cs))"
    unfolding anchors_append interrupted(4) anchors_closers
    using closed_after_closers recover_scan_brackets [OF interrupted(1)] interrupted(2) by blast
  moreover have "contiguous_from n (es @ cs)" if "contiguous_from n es"
    using that contiguous_from_last [OF that interrupted(3)]
      closers_contiguous [of "ev_Seq (last es) + 1" s "ev_At (last es)"] interrupted(4)
    by (simp add: contiguous_from_append)
  ultimately show ?thesis by blast
qed

text \<open>
  C10: recovery closes the log: whatever tail the scan accepts, the rows followed by the closers are a
  sequence of closed turns of closed steps, have no open turn, and continue the positions of the log.
\<close>

theorem recovery_closes:
  assumes "InterruptedTurnClosers es = Inr cs" and "contiguous_from n es"
  shows "turns (anchors (es @ cs)) \<and> \<not> HasOpenTurn (es @ cs) \<and> contiguous_from n (es @ cs)"
  using recovery_closes_raw [OF assms(1), of n] assms(2) turns_toggle HasOpenTurn_anchors by simp

section \<open>Recovering twice\<close>

lemma recover_results:
  "(\<And>ev. ev \<in> set rs \<Longrightarrow> ev_Type ev = EventToolResult) \<Longrightarrow>
     \<exists>s'. fold_until recover_step s rs = Inr s' \<and> rc_turn s' = rc_turn s \<and> rc_step s' = rc_step s"
proof (induction rs arbitrary: s)
  case (Cons ev rs)
  have "recover_step s ev = Inr (recover_result s ev)" using Cons.prems [of ev] by (simp add: recover_step_def)
  moreover obtain s' where "fold_until recover_step (recover_result s ev) rs = Inr s'"
    "rc_turn s' = rc_turn s" "rc_step s' = rc_step s"
    using Cons.IH [of "recover_result s ev"] Cons.prems by auto
  ultimately show ?case by simp
qed simp

lemma closer_event_fields [simp]:
  "ev_Type (closer_event q t ts p) = t" "ev_Data (closer_event q t ts p) = Some (JObj p)"
  "ev_Seq (closer_event q t ts p) = q"
  by (simp_all add: closer_event_def)

lemma recover_step_ends:
  "ev_Type ev = EventStepEnd \<Longrightarrow> rc_turn s \<noteq> 0 \<Longrightarrow> rc_step s \<noteq> 0 \<Longrightarrow>
     recover_step s ev = Inr ((clearPending s)\<lparr>rc_anchored := True, rc_step := 0\<rparr>)"
  "ev_Type ev = EventTurnEnd \<Longrightarrow> rc_turn s \<noteq> 0 \<Longrightarrow> rc_step s = 0 \<Longrightarrow>
     recover_step s ev = Inr ((clearPending s)\<lparr>rc_anchored := True, rc_turn := 0\<rparr>)"
  by (simp_all add: recover_step_def)

lemma recover_closers:
  assumes "rc_turn s \<noteq> 0"
  shows "\<exists>s'. fold_until recover_step s (closers s seq ts) = Inr s' \<and> rc_turn s' = 0"
proof -
  obtain s1 where s1: "fold_until recover_step s (result_closers s seq ts (rc_order s)) = Inr s1"
    "rc_turn s1 = rc_turn s" "rc_step s1 = rc_step s"
    using recover_results [of "result_closers s seq ts (rc_order s)" s] result_closers_types by blast
  with assms show ?thesis
    by (simp add: closers_def Let_def fold_until_append recover_step_ends clearPending_def)
qed

text \<open>
  Fact: recovery is idempotent: a recovered log needs no further closers, so a second crash during or
  after the repair does not close the turn again.
\<close>

theorem recovery_idempotent:
  assumes "InterruptedTurnClosers es = Inr cs"
  shows "InterruptedTurnClosers (es @ cs) = Inr []"
  using assms
proof (cases rule: InterruptedTurnClosers_cases)
  case (closed s)
  then show ?thesis by (simp add: InterruptedTurnClosers_def)
next
  case (interrupted s)
  then obtain s' where "recover_scan (es @ cs) = Inr s'" "rc_turn s' = 0"
    using recover_closers [of s] by (auto simp: recover_scan_def fold_until_append)
  then show ?thesis by (simp add: InterruptedTurnClosers_def)
qed (simp add: InterruptedTurnClosers_def)

section \<open>Coordinates after recovery\<close>

text \<open>
  The two readers agree on a row: the step, the call id and the answered call that the struct decoding
  of the scan finds are those the validator finds in the object. It holds of the rows the runtime
  writes, whose keys are exact and whose fields have their types.
\<close>

definition readers_agree :: "event \<Rightarrow> bool" where
  "readers_agree ev \<longleftrightarrow>
     (case lifecycleObject (ev_Data ev) of
        None \<Rightarrow> True
      | Some d \<Rightarrow>
          (ev_Type ev = EventToolResult \<longrightarrow> dec_recovery_result d = Some (toolResultCallID d)) \<and>
          (ev_Type ev = EventAssistantMessage \<longrightarrow>
             (case dec_recovery_message d of
                None \<Rightarrow> True
              | Some (step, _) \<Rightarrow> step \<le> 0 \<or> coord d ''step'' = Some step)) \<and>
          (ev_Type ev = EventToolCall \<longrightarrow>
             (case dec_recovery_call d of
                None \<Rightarrow> True
              | Some (i, n, step) \<Rightarrow> i = string_or_empty (jget d ''callId'') \<and>
                  (step \<le> 0 \<or> coord d ''step'' = Some step))))"

definition scans_agree :: "canon_state \<Rightarrow> recovery_state \<Rightarrow> bool" where
  "scans_agree c r \<longleftrightarrow>
     (cn_openTurn c = 0 \<longleftrightarrow> rc_turn r = 0) \<and> (rc_turn r \<noteq> 0 \<longrightarrow> rc_turnNumber r = cn_openTurn c) \<and>
     (cn_openStep c = 0 \<longleftrightarrow> rc_step r = 0) \<and> (rc_step r \<noteq> 0 \<longrightarrow> rc_stepNumber r = cn_openStep c) \<and>
     (rc_step r = 0 \<longrightarrow> rc_pending r = []) \<and>
     (\<forall>i call. map_of (rc_pending r) i = Some call \<longrightarrow>
        i \<noteq> [] \<and> pt_step call = cn_openStep c \<and> (pt_started call \<noteq> 0 \<longrightarrow> i \<in> set (cn_pending c)))"

lemma unmarshal_object: "lifecycleObject v = Some d \<Longrightarrow> v = Some (JObj d)"
  by (cases v; cases "the v") (auto simp: lifecycleObject_def)

lemma coord_number:
  assumes "lifecycleObject v = Some d" and "coord d key = Some n"
  shows "positiveLifecycleNumber v key m = n"
  using unmarshal_object [OF assms(1)] assms(2)
  by (auto simp: coord_def positiveLifecycleNumber_def split: option.splits if_splits)

lemma agree_addPending:
  assumes "scans_agree c r" and "pt_step t = cn_openStep c" and "pt_started t = 0" and "rc_step r \<noteq> 0"
  shows "scans_agree c (addPending i t r)"
  using assms by (auto simp: scans_agree_def addPending_def)

lemma agree_addPending_fold:
  assumes "scans_agree c r" and "\<And>n. pt_step (f n) = cn_openStep c \<and> pt_started (f n) = 0" and "rc_step r \<noteq> 0"
  shows "scans_agree c (fold (\<lambda>(i, n). addPending i (f n)) cs r)"
  using assms(1,3)
proof (induction cs arbitrary: r)
  case (Cons p cs)
  show ?case
    using Cons.IH [of "addPending (fst p) (f (snd p)) r"] agree_addPending [OF Cons.prems(1), of "f (snd p)" "fst p"]
      assms(2) Cons.prems(2) by (simp add: split_beta)
qed simp

lemma agree_message:
  assumes a: "scans_agree c r" and d: "lifecycleObject (ev_Data ev) = Some d" and ro: "requireOpen c d = None"
    and t: "ev_Type ev = EventAssistantMessage" and agree: "readers_agree ev"
  shows "scans_agree c (recover_message r ev)"
proof (cases "rc_turn r = 0 \<or> rc_step r = 0")
  case True
  with a show ?thesis by (simp add: recover_message_def)
next
  case open_step: False
  have ev: "ev_Data ev = Some (JObj d)" by (rule unmarshal_object [OF d])
  show ?thesis
  proof (cases "dec_recovery_message d")
    case None
    with a ev show ?thesis by (simp add: recover_message_def)
  next
    case (Some x)
    obtain step calls blocks where x: "x = (step, calls, blocks)" by (cases x)
    have "step \<le> 0 \<or> coord d ''step'' = Some step"
      using agree d t Some x by (simp add: readers_agree_def)
    then have "(if 0 < step then step else rc_stepNumber r) = cn_openStep c"
      using ro a open_step by (auto simp: requireOpen_None scans_agree_def)
    then have "recover_message r ev =
        fold (\<lambda>(i, n). addPending i ((\<lambda>n. \<lparr>pt_step = cn_openStep c, pt_name = n, pt_started = 0\<rparr>) n))
          (calls @ map snd (filter (\<lambda>b. fst b = ''tool-call'') blocks)) r"
      using Some x ev open_step by (simp add: recover_message_def Let_def del: fold_append)
    also have "scans_agree c \<dots>" by (rule agree_addPending_fold [OF a]) (use open_step in simp_all)
    finally show ?thesis .
  qed
qed

lemma agree_call:
  assumes a: "scans_agree c r" and d: "lifecycleObject (ev_Data ev) = Some d" and t: "ev_Type ev = EventToolCall"
    and step: "canon_tool_call c d = Inr c'" and agree: "readers_agree ev"
  shows "scans_agree c' (recover_call r ev)"
proof -
  have ev: "ev_Data ev = Some (JObj d)" by (rule unmarshal_object [OF d])
  let ?i = "string_or_empty (jget d ''callId'')"
  from step have ro: "requireOpen c d = None" and c': "c' = c\<lparr>cn_pending := List.insert ?i (cn_pending c)\<rparr>"
    by (auto simp: canon_tool_call_def Let_def split: option.splits if_splits)
  have keep: "scans_agree c' r" using a by (auto simp: scans_agree_def c')
  show ?thesis
  proof (cases "dec_recovery_call d")
    case None
    with keep ev show ?thesis by (simp add: recover_call_def)
  next
    case (Some x)
    obtain i n stp where x: "x = (i, n, stp)" by (cases x)
    then have i: "i = ?i" and s: "stp \<le> 0 \<or> coord d ''step'' = Some stp"
      using agree d t Some by (simp_all add: readers_agree_def)
    show ?thesis
    proof (cases "map_of (rc_pending r) i")
      case None
      with keep ev Some x show ?thesis by (simp add: recover_call_def)
    next
      case (Some call)
      then have ne: "rc_step r \<noteq> 0" "i \<noteq> []" "pt_step call = cn_openStep c"
        using a by (auto simp: scans_agree_def)
      have s': "0 < stp \<Longrightarrow> stp = cn_openStep c" using s ro by (simp add: requireOpen_None)
      let ?call = "(\<lambda>call. if 0 < stp then call\<lparr>pt_step := stp\<rparr> else call)
         ((\<lambda>call. if n \<noteq> [] then call\<lparr>pt_name := n\<rparr> else call) (call\<lparr>pt_started := ev_Seq ev\<rparr>))"
      have "recover_call r ev = r\<lparr>rc_pending := AList.update i ?call (rc_pending r)\<rparr>"
        using \<open>dec_recovery_call d = Some x\<close> x ev Some by (simp add: recover_call_def Let_def)
      moreover have "pt_step ?call = cn_openStep c" using ne s' by simp
      ultimately show ?thesis using keep ne i by (auto simp: scans_agree_def c')
    qed
  qed
qed

lemma agree_result:
  assumes a: "scans_agree c r" and d: "lifecycleObject (ev_Data ev) = Some d" and t: "ev_Type ev = EventToolResult"
    and step: "canon_tool_result c d = Inr c'" and agree: "readers_agree ev"
  shows "scans_agree c' (recover_result r ev)"
proof -
  have ev: "ev_Data ev = Some (JObj d)" by (rule unmarshal_object [OF d])
  from step have c': "c' = c\<lparr>cn_pending := removeAll (toolResultCallID d) (cn_pending c)\<rparr>"
    by (auto simp: canon_tool_result_def Let_def split: option.splits if_splits)
  have "dec_recovery_result d = Some (toolResultCallID d)" using agree d t by (simp add: readers_agree_def)
  with ev have "recover_result r ev = r\<lparr>rc_pending := AList.delete (toolResultCallID d) (rc_pending r)\<rparr>"
    by (simp add: recover_result_def)
  with a show ?thesis by (auto simp: scans_agree_def c')
qed

lemma agree_step:
  assumes a: "scans_agree c r" and c: "canon_step c ev = Inr c'" and r: "recover_step r ev = Inr r'"
    and agree: "readers_agree ev"
  shows "scans_agree c' r'"
proof -
  from c obtain d where d: "lifecycleObject (ev_Data ev) = Some d"
    by (auto simp: canon_step_def split: option.splits)
  consider "ev_Type ev = EventTurnStart" | "ev_Type ev = EventTurnEnd" | "ev_Type ev = EventStepStart"
    | "ev_Type ev = EventStepEnd" | "ev_Type ev = EventAssistantMessage" | "ev_Type ev = EventToolCall"
    | "ev_Type ev = EventToolResult"
    | (other) "ev_Type ev \<notin> {EventTurnStart, EventTurnEnd, EventStepStart, EventStepEnd, EventAssistantMessage,
        EventToolCall, EventToolResult}" by blast
  then show ?thesis
  proof cases
    case 1
    with c d obtain turn where turn: "coord d ''turn'' = Some turn"
      and c': "c' = c\<lparr>cn_openTurn := turn, cn_openStep := 0, cn_nextStep := 1, cn_pending := []\<rparr>"
      by (auto simp: canon_step_def canon_turn_start_def split: option.splits if_splits)
    have r': "r' = (clearPending r)\<lparr>rc_anchored := True, rc_turn := 1, rc_step := 0, rc_turnNumber := turn\<rparr>"
      using r 1 coord_number [OF d turn] by (simp add: recover_step_def split: if_splits)
    show ?thesis using coord_pos [OF turn] by (simp add: scans_agree_def c' r' clearPending_def)
  next
    case 2
    with c d have "cn_openStep c = 0"
      and c': "c' = c\<lparr>cn_openTurn := 0, cn_nextTurn := cn_nextTurn c + 1, cn_pending := []\<rparr>"
      by (auto simp: canon_step_def canon_turn_end_def split: option.splits if_splits)
    moreover have "r' = (clearPending r)\<lparr>rc_anchored := True, rc_turn := 0\<rparr>"
      using r 2 by (simp add: recover_step_def split: if_splits)
    ultimately show ?thesis using a by (simp add: scans_agree_def clearPending_def)
  next
    case 3
    with c d obtain step where step: "coord d ''step'' = Some step" and c': "c' = c\<lparr>cn_openStep := step\<rparr>"
      by (auto simp: canon_step_def canon_step_start_def split: option.splits if_splits)
    have r': "rc_step r = 0" "r' = r\<lparr>rc_anchored := True, rc_step := 1, rc_stepNumber := step\<rparr>"
      using r 3 coord_number [OF d step] by (simp_all add: recover_step_def split: if_splits)
    then have "rc_pending r = []" using a by (simp add: scans_agree_def)
    with a show ?thesis using coord_pos [OF step] by (simp add: scans_agree_def c' r')
  next
    case 4
    with c d have "c' = c\<lparr>cn_openStep := 0, cn_nextStep := cn_nextStep c + 1, cn_pending := []\<rparr>"
      by (auto simp: canon_step_def split: option.splits)
    moreover have "r' = (clearPending r)\<lparr>rc_anchored := True, rc_step := 0\<rparr>"
      using r 4 by (simp add: recover_step_def split: if_splits)
    ultimately show ?thesis using a by (simp add: scans_agree_def clearPending_def)
  next
    case 5
    with c d have "requireOpen c d = None" "c' = c"
      by (auto simp: canon_step_def split: option.splits)
    moreover have "r' = recover_message r ev" using r 5 by (simp add: recover_step_def)
    ultimately show ?thesis using agree_message [OF a d _ 5 agree] by simp
  next
    case 6
    with c d r show ?thesis
      using agree_call [OF a d 6 _ agree, of c'] by (simp add: canon_step_def recover_step_def)
  next
    case 7
    with c d r show ?thesis
      using agree_result [OF a d 7 _ agree, of c'] by (simp add: canon_step_def recover_step_def)
  next
    case other
    with c d have "c' = c"
      by (auto simp: canon_step_def canon_scoped_def Let_def split: option.splits if_splits)
    moreover have "r' = r" using other r by (simp add: recover_step_def)
    ultimately show ?thesis using a by simp
  qed
qed

lemma agree_fold:
  assumes "fold_until canon_step canon_init es = Inr c" and "recover_scan es = Inr r" and "list_all readers_agree es"
  shows "scans_agree c r"
  using assms
proof (induction es arbitrary: c r rule: rev_induct)
  case Nil
  then have "c = canon_init" "r = recovery_init" by (simp_all add: recover_scan_def)
  then show ?case by (simp add: canon_init_def recovery_init_def scans_agree_def)
next
  case (snoc ev es)
  then obtain c1 r1 where "fold_until canon_step canon_init es = Inr c1" "canon_step c1 ev = Inr c"
    "fold_until recover_step recovery_init es = Inr r1" "recover_step r1 ev = Inr r"
    by (auto simp: recover_scan_def fold_until_snoc_Inr)
  moreover have "list_all readers_agree es" "readers_agree ev" using snoc.prems(3) by simp_all
  ultimately show ?case using snoc.IH [of c1 r1] agree_step [of c1 r1 ev c r] by (simp add: recover_scan_def)
qed

lemma coord_JInt: "jget d key = Some (JInt n) \<Longrightarrow> 0 < n \<Longrightarrow> n \<le> max_int64 \<Longrightarrow> coord d key = Some n"
  by (simp add: coord_def int_of_float_def min_int64_def Let_def)

lemma coord_range: "coord d key = Some n \<Longrightarrow> 0 < n \<and> n \<le> max_int64"
  by (auto simp: coord_def int_of_float_def Let_def min_int64_def split: option.splits if_splits)

definition open_coords :: "canon_state \<Rightarrow> recovery_state \<Rightarrow> bool" where
  "open_coords c r \<longleftrightarrow> cn_openTurn c = rc_turnNumber r \<and> cn_openStep c = rc_stepNumber r \<and>
     0 < rc_turnNumber r \<and> rc_turnNumber r \<le> max_int64 \<and> 0 < rc_stepNumber r \<and> rc_stepNumber r \<le> max_int64"

lemma result_payload_fields:
  assumes "0 < rc_turnNumber r" and "0 < pt_step call" and "i \<noteq> []"
  shows "jget (result_payload r i call) ''turn'' = Some (JInt (rc_turnNumber r))"
    and "jget (result_payload r i call) ''step'' = Some (JInt (pt_step call))"
    and "jget (result_payload r i call) ''callId'' = Some (JStr i)"
    and "toolResultErrorCode (result_payload r i call) =
           (if pt_started call \<noteq> 0 then ''TOOL_OUTCOME_UNKNOWN'' else ''TOOL_NOT_STARTED'')"
  using assms
  by (simp_all add: result_payload_def Let_def encode_tool_result_def NewToolErrorResultAtCodeWithSource_def
      addToolResultSource_def NewToolErrorResultAtCode_def newToolResult_def jget_encode toolResultErrorCode_def
      object_or_nil_def string_or_empty_def not_le)

lemma canon_result_closer:
  assumes o: "open_coords c r" and call: "i \<noteq> []" "pt_step call = cn_openStep c"
    "pt_started call \<noteq> 0 \<longrightarrow> i \<in> set (cn_pending c)"
  shows "canon_step c (closer_event q EventToolResult ts (result_payload r i call)) =
    Inr (c\<lparr>cn_pending := removeAll i (cn_pending c)\<rparr>)"
proof -
  have pos: "0 < rc_turnNumber r" "0 < pt_step call" using o call(2) by (simp_all add: open_coords_def)
  note f = result_payload_fields [OF pos call(1)]
  have "requireOpen c (result_payload r i call) = None"
    using coord_JInt [OF f(1)] coord_JInt [OF f(2)] o call(2) by (simp add: requireOpen_None open_coords_def)
  moreover have "toolResultCallID (result_payload r i call) = i"
    using f(3) call(1) by (simp add: toolResultCallID_def string_or_empty_def)
  ultimately show ?thesis
    using f(4) call by (simp add: canon_step_def canon_tool_result_def lifecycleObject_def Let_def)
qed

lemma canon_result_closers:
  assumes "open_coords c r" and "distinct order"
    and "\<And>i call. i \<in> set order \<Longrightarrow> map_of (rc_pending r) i = Some call \<Longrightarrow>
           i \<noteq> [] \<and> pt_step call = cn_openStep c \<and> (pt_started call \<noteq> 0 \<longrightarrow> i \<in> set (cn_pending c))"
  shows "\<exists>c'. fold_until canon_step c (result_closers r seq ts order) = Inr c' \<and> open_coords c' r"
  using assms
proof (induction order arbitrary: c seq)
  case (Cons i order)
  show ?case
  proof (cases "map_of (rc_pending r) i")
    case None
    have "\<exists>c'. fold_until canon_step c (result_closers r seq ts order) = Inr c' \<and> open_coords c' r"
    proof (rule Cons.IH [OF Cons.prems(1)])
      show "distinct order" using Cons.prems(2) by simp
    next
      fix j call assume "j \<in> set order" "map_of (rc_pending r) j = Some call"
      then show "j \<noteq> [] \<and> pt_step call = cn_openStep c \<and> (pt_started call \<noteq> 0 \<longrightarrow> j \<in> set (cn_pending c))"
        by (intro Cons.prems(3)) simp_all
    qed
    with None show ?thesis by simp
  next
    case (Some call)
    let ?c = "c\<lparr>cn_pending := removeAll i (cn_pending c)\<rparr>"
    have "canon_step c (closer_event seq EventToolResult ts (result_payload r i call)) = Inr ?c"
      using canon_result_closer [OF Cons.prems(1)] Cons.prems(3) [of i call] Some by simp
    moreover have "\<exists>c'. fold_until canon_step ?c (result_closers r (seq + 1) ts order) = Inr c' \<and> open_coords c' r"
    proof (rule Cons.IH)
      show "open_coords ?c r" using Cons.prems(1) by (simp add: open_coords_def)
      show "distinct order" using Cons.prems(2) by simp
    next
      fix j call' assume j: "j \<in> set order" "map_of (rc_pending r) j = Some call'"
      then have "j \<noteq> i" using Cons.prems(2) by auto
      then show "j \<noteq> [] \<and> pt_step call' = cn_openStep ?c \<and> (pt_started call' \<noteq> 0 \<longrightarrow> j \<in> set (cn_pending ?c))"
        using Cons.prems(3) [of j call'] j by simp
    qed
    ultimately show ?thesis using Some by simp
  qed
qed simp

lemma end_payload_fields:
  assumes "0 < t"
  shows "jget (NewTurnEndAt t a b) ''turn'' = Some (JInt t)"
    and "jget (NewStepEndAt t q a b) ''turn'' = Some (JInt t)"
    and "jget (NewStepEndAt t q a b) ''step'' = Some (JInt q)"
  using assms by (simp_all add: NewTurnEndAt_def NewStepEndAt_def jget_encode)

lemma canon_closers:
  assumes a: "scans_agree c r" and opn: "rc_turn r \<noteq> 0" and dist: "distinct (rc_order r)"
    and rng: "0 < cn_openTurn c" "cn_openTurn c \<le> max_int64" "cn_openStep c \<le> max_int64" "0 \<le> cn_openStep c"
  shows "\<exists>c'. fold_until canon_step c (closers r seq ts) = Inr c'"
proof -
  let ?T = "rc_turnNumber r"
  have T: "cn_openTurn c = ?T" using a opn by (simp add: scans_agree_def)
  have turn_end: "\<exists>c'. canon_step c1 (closer_event q EventTurnEnd ts (NewTurnEndAt ?T x y)) = Inr c'"
    if "cn_openTurn c1 = ?T" "cn_openStep c1 = 0" for c1 q x y
    using that coord_JInt [OF end_payload_fields(1) [of ?T x y]] rng T
    by (simp add: canon_step_def canon_turn_end_def lifecycleObject_def)
  show ?thesis
  proof (cases "rc_step r = 0")
    case True
    then have "rc_pending r = []" "cn_openStep c = 0" using a by (simp_all add: scans_agree_def)
    moreover have "result_closers r seq ts order = []" if "rc_pending r = []" for order
      using that by (induction order) simp_all
    ultimately have "closers r seq ts = [closer_event seq EventTurnEnd ts
        (NewTurnEndAt ?T ''interrupted'' ''recovered after crash'')]" and "cn_openStep c = 0"
      using True by (simp_all add: closers_def Let_def)
    moreover obtain c3 where "canon_step c (closer_event seq EventTurnEnd ts
        (NewTurnEndAt ?T ''interrupted'' ''recovered after crash'')) = Inr c3"
      using turn_end [of c seq] T \<open>cn_openStep c = 0\<close> by blast
    ultimately show ?thesis by simp
  next
    case False
    then have S: "cn_openStep c = rc_stepNumber r" "cn_openStep c \<noteq> 0" using a by (auto simp: scans_agree_def)
    then have o: "open_coords c r" using T rng by (simp add: open_coords_def)
    obtain c1 where c1: "fold_until canon_step c (result_closers r seq ts (rc_order r)) = Inr c1" "open_coords c1 r"
      using canon_result_closers [OF o dist] a by (force simp: scans_agree_def)
    let ?c2 = "c1\<lparr>cn_openStep := 0, cn_nextStep := cn_nextStep c1 + 1, cn_pending := []\<rparr>"
    have "requireOpen c1 (NewStepEndAt ?T (rc_stepNumber r) x y) = None" for x y
      using coord_JInt [OF end_payload_fields(2) [of ?T "rc_stepNumber r" x y]]
        coord_JInt [OF end_payload_fields(3) [of ?T "rc_stepNumber r" x y]] c1(2)
      by (simp add: requireOpen_None open_coords_def)
    then have step_end: "canon_step c1 (closer_event q EventStepEnd ts (NewStepEndAt ?T (rc_stepNumber r) x y)) = Inr ?c2"
      for q x y by (simp add: canon_step_def lifecycleObject_def)
    let ?q = "seq + length (result_closers r seq ts (rc_order r)) + 1"
    obtain c3 where "canon_step ?c2 (closer_event ?q EventTurnEnd ts
        (NewTurnEndAt ?T ''interrupted'' ''recovered after crash'')) = Inr c3"
      using turn_end [of ?c2 ?q] c1(2) T by (auto simp: open_coords_def)
    with c1 False step_end show ?thesis
      by (simp add: closers_def Let_def fold_until_append)
  qed
qed

lemma canon_range:
  assumes "fold_until canon_step canon_init es = Inr c"
  shows "0 \<le> cn_openTurn c \<and> cn_openTurn c \<le> max_int64 \<and> 0 \<le> cn_openStep c \<and> cn_openStep c \<le> max_int64"
  using assms
proof (rule fold_until_history)
  show "0 \<le> cn_openTurn canon_init \<and> cn_openTurn canon_init \<le> max_int64 \<and>
      0 \<le> cn_openStep canon_init \<and> cn_openStep canon_init \<le> max_int64"
    by (simp add: canon_init_def max_int64_def)
next
  fix es c ev c'
  assume c: "0 \<le> cn_openTurn c \<and> cn_openTurn c \<le> max_int64 \<and> 0 \<le> cn_openStep c \<and> cn_openStep c \<le> max_int64"
    and step: "canon_step c ev = Inr c'"
  from step obtain d where d: "lifecycleObject (ev_Data ev) = Some d"
    by (auto simp: canon_step_def split: option.splits)
  have "cn_openTurn c' \<in> {cn_openTurn c, 0} \<or> coord d ''turn'' = Some (cn_openTurn c')"
    using step d
    by (auto simp: canon_step_def canon_turn_start_def canon_turn_end_def canon_step_start_def canon_tool_call_def
        canon_tool_result_def canon_scoped_def Let_def split: option.splits if_splits)
  moreover have "cn_openStep c' \<in> {cn_openStep c, 0} \<or> coord d ''step'' = Some (cn_openStep c')"
    using step d
    by (auto simp: canon_step_def canon_turn_start_def canon_turn_end_def canon_step_start_def canon_tool_call_def
        canon_tool_result_def canon_scoped_def Let_def split: option.splits if_splits)
  ultimately show "0 \<le> cn_openTurn c' \<and> cn_openTurn c' \<le> max_int64 \<and>
      0 \<le> cn_openStep c' \<and> cn_openStep c' \<le> max_int64"
    using c coord_range [of d "''turn''" "cn_openTurn c'"] coord_range [of d "''step''" "cn_openStep c'"] by auto
qed

text \<open>
  Fact: a recovered log passes the coordinate check again: when the rows so far satisfy the canonical
  turn, step and tool-pairing rules, the two readers agree on them and no call of the open step was
  announced twice, the closers of the scan carry the coordinates the validator expects.
\<close>

theorem recovered_canonical:
  assumes "InterruptedTurnClosers es = Inr cs" and "fold_until canon_step canon_init es = Inr c"
    and "list_all readers_agree es" and "recover_scan es = Inr r" and "distinct (rc_order r)"
  shows "validateCanonicalLifecycle (es @ cs) = None"
  using assms(1)
proof (cases rule: InterruptedTurnClosers_cases)
  case (interrupted s)
  have a: "scans_agree c r" by (rule agree_fold [OF assms(2,4,3)])
  have s: "s = r" using interrupted(1) assms(4) by simp
  then have "cn_openTurn c \<noteq> 0" using a interrupted(2) by (simp add: scans_agree_def)
  then obtain c' where "fold_until canon_step c cs = Inr c'"
    using canon_closers [OF a _ assms(5)] canon_range [OF assms(2)] interrupted(2,4) s by fastforce
  with assms(2) show ?thesis by (simp add: validateCanonicalLifecycle_def fold_until_append)
qed (use assms(2) in \<open>simp_all add: validateCanonicalLifecycle_def\<close>)

section \<open>Concrete logs\<close>

text \<open>A crash after the call was recorded as started, and after an earlier, unfinished announcement.\<close>

definition crashed_turn :: "event list" where
  "crashed_turn =
     [sample_row 1 EventTurnStart [(''turn'', JInt 1)],
      sample_row 2 EventStepStart [(''turn'', JInt 1), (''step'', JInt 1)],
      sample_row 3 EventAssistantMessage [(''turn'', JInt 1), (''step'', JInt 1),
        (''toolCalls'', JArr [JObj [(''id'', JStr ''c''), (''name'', JStr ''shell'')],
                              JObj [(''id'', JStr ''d''), (''name'', JStr ''shell'')]])],
      sample_row 4 EventToolCall [(''turn'', JInt 1), (''step'', JInt 1), (''callId'', JStr ''c'')]]"

definition crashed_scan :: recovery_state where
  "crashed_scan = \<lparr>rc_turn = 1, rc_step = 1, rc_turnNumber = 1, rc_stepNumber = 1, rc_anchored = True,
     rc_pending = [(''c'', \<lparr>pt_step = 1, pt_name = ''shell'', pt_started = 4\<rparr>),
                   (''d'', \<lparr>pt_step = 1, pt_name = ''shell'', pt_started = 0\<rparr>)], rc_order = [''c'', ''d'']\<rparr>"

lemma crashed_scan_value: "recover_scan crashed_turn = Inr crashed_scan"
  by code_simp

lemma crashed_closers: "InterruptedTurnClosers crashed_turn = Inr (closers crashed_scan 5 (ev_At (last crashed_turn)))"
  unfolding InterruptedTurnClosers_def crashed_scan_value
  by (simp add: crashed_scan_def) (simp add: crashed_turn_def sample_row_def)

lemma crashed_contiguous: "contiguous_from 1 crashed_turn"
  by (simp add: crashed_turn_def sample_row_def)

lemma recovery_closes_witness:
  "\<not> HasOpenTurn (crashed_turn @ closers crashed_scan 5 (ev_At (last crashed_turn)))"
  using recovery_closes [OF crashed_closers crashed_contiguous] by simp

lemma recovery_idempotent_witness:
  "InterruptedTurnClosers (crashed_turn @ closers crashed_scan 5 (ev_At (last crashed_turn))) = Inr []"
  by (rule recovery_idempotent [OF crashed_closers])

lemma recovered_canonical_witness:
  "validateCanonicalLifecycle (crashed_turn @ closers crashed_scan 5 (ev_At (last crashed_turn))) = None"
proof (rule recovered_canonical [OF crashed_closers _ _ crashed_scan_value])
  show "fold_until canon_step canon_init crashed_turn =
      Inr \<lparr>cn_openTurn = 1, cn_openStep = 1, cn_nextTurn = 1, cn_nextStep = 1, cn_pending = [''c'']\<rparr>"
    by code_simp
  show "list_all readers_agree crashed_turn" by code_simp
  show "distinct (rc_order crashed_scan)" by (simp add: crashed_scan_def)
qed

text \<open>
  A call id that is announced again in the same step after it was answered is twice in the order list
  (the answer leaves the list alone), so recovery answers it twice.
\<close>

definition reannounced_turn :: "event list" where
  "reannounced_turn =
     [sample_row 1 EventTurnStart [(''turn'', JInt 1)],
      sample_row 2 EventStepStart [(''turn'', JInt 1), (''step'', JInt 1)],
      sample_row 3 EventAssistantMessage [(''turn'', JInt 1), (''step'', JInt 1),
        (''toolCalls'', JArr [JObj [(''id'', JStr ''c''), (''name'', JStr ''shell'')]])],
      sample_row 4 EventToolCall [(''turn'', JInt 1), (''step'', JInt 1), (''callId'', JStr ''c'')],
      sample_row 5 EventToolResult [(''turn'', JInt 1), (''step'', JInt 1), (''callId'', JStr ''c'')],
      sample_row 6 EventAssistantMessage [(''turn'', JInt 1), (''step'', JInt 1),
        (''toolCalls'', JArr [JObj [(''id'', JStr ''c''), (''name'', JStr ''shell'')]])],
      sample_row 7 EventToolCall [(''turn'', JInt 1), (''step'', JInt 1), (''callId'', JStr ''c'')]]"

definition recovered :: "event list \<Rightarrow> event list" where
  "recovered es = (case InterruptedTurnClosers es of Inl _ \<Rightarrow> es | Inr cs \<Rightarrow> es @ cs)"

text \<open>
  Fact: the distinctness hypothesis cannot be dropped: when a provider reuses a call id within one step,
  the accepted rows get two closers for it, the second one answers a call that is no longer pending, and
  the recovered log is refused by the lifecycle check.
\<close>

theorem recovery_duplicate_answer:
  "(\<exists>c. fold_until canon_step canon_init reannounced_turn = Inr c) \<and>
   list_all readers_agree reannounced_turn \<and>
   map ev_Type (drop 7 (recovered reannounced_turn)) = [EventToolResult, EventToolResult, EventStepEnd, EventTurnEnd] \<and>
   validateCanonicalLifecycle (recovered reannounced_turn) \<noteq> None"
proof (intro conjI)
  have "fold_until canon_step canon_init reannounced_turn =
      Inr \<lparr>cn_openTurn = 1, cn_openStep = 1, cn_nextTurn = 1, cn_nextStep = 1, cn_pending = [''c'']\<rparr>"
    by code_simp
  then show "\<exists>c. fold_until canon_step canon_init reannounced_turn = Inr c" by blast
  show "list_all readers_agree reannounced_turn" by code_simp
  show "map ev_Type (drop 7 (recovered reannounced_turn)) = [EventToolResult, EventToolResult, EventStepEnd, EventTurnEnd]"
    by code_simp
  have "validateCanonicalLifecycle (recovered reannounced_turn) = None \<longleftrightarrow> False" by code_simp
  then show "validateCanonicalLifecycle (recovered reannounced_turn) \<noteq> None" by blast
qed

end
