(* ===== verification/Session_Projection.thy ===== *)
theory Session_Projection
  imports Session_Contract Session_History
begin

text \<open>
  The read-only projections of the log: the session-list metadata (\<^verbatim>\<open>internal/session/projection.go\<close>),
  the plan-mode fold, the wire form of a row (\<^verbatim>\<open>WireEvent\<close>, \<^verbatim>\<open>EventSourceEventSeqs\<close>,
  \<^verbatim>\<open>SurfaceReplacement\<close> of \<^verbatim>\<open>session.go\<close>) and the approval projection
  (\<^verbatim>\<open>approval.go\<close>). The theory proves what the two folds compute and that the wire form of a
  valid row passes the wire validator.
\<close>

section \<open>Session-list metadata\<close>

record SessionListMetadata =
  md_Blank :: bool
  md_LastPromptAt :: "int option"

definition NewSessionListMetadata :: SessionListMetadata where
  "NewSessionListMetadata = \<lparr>md_Blank = True, md_LastPromptAt = None\<rparr>"

text \<open>Milliseconds since 1970 of a time counted in nanoseconds since the year 1.\<close>

definition UnixMilli :: "go_time \<Rightarrow> int" where
  "UnixMilli t = (t - 62135596800000000000) div 1000000"

definition humanUserMessage :: "json option \<Rightarrow> bool" where
  "humanUserMessage data =
     (case unmarshal_struct (\<lambda>o1. dec_ptr (dec_struct (\<lambda>s. dec_string (jfield s ''kind''))) (jfield o1 ''source'')) data of
        None \<Rightarrow> True
      | Some None \<Rightarrow> True
      | Some (Some kind) \<Rightarrow> kind = [] \<or> kind = ''user'')"

definition Apply_metadata :: "SessionListMetadata \<Rightarrow> event \<Rightarrow> SessionListMetadata" where
  "Apply_metadata m ev =
     (let m = (if ev_Type ev = EventTurnStart then m\<lparr>md_Blank := False\<rparr> else m)
      in if ev_Type ev \<noteq> EventUserMessage \<or> \<not> humanUserMessage (ev_Data ev) then m
         else m\<lparr>md_LastPromptAt := Some (max 0 (UnixMilli (ev_At ev)))\<rparr>)"

definition ProjectSessionListMetadata :: "event list \<Rightarrow> SessionListMetadata" where
  "ProjectSessionListMetadata es = fold (\<lambda>ev m. Apply_metadata m ev) es NewSessionListMetadata"

section \<open>Plan mode\<close>

definition dec_planMode :: "jobject \<Rightarrow> bool option" where
  "dec_planMode o1 = dec_bool (jfield o1 ''active'')"

definition FoldPlanMode :: "event list \<Rightarrow> bool" where
  "FoldPlanMode es =
     fold (\<lambda>ev active. if ev_Type ev \<noteq> EventPlanMode then active
                      else case unmarshal_struct dec_planMode (ev_Data ev) of None \<Rightarrow> active | Some b \<Rightarrow> b)
       es False"

section \<open>The wire form\<close>

definition EventSourceEventSeqs :: "event \<Rightarrow> nat list option" where
  "EventSourceEventSeqs ev =
     (if \<not> isSurfaceEventType (ev_Type ev) then None
      else (case unmarshal_struct (\<lambda>o1. dec_ptr (dec_slice dec_uint64) (jfield o1 ''sourceEventSeqs'')) (ev_Data ev) of
         None \<Rightarrow> None
       | Some qs \<Rightarrow> qs))"

definition SurfaceReplacement :: "event \<Rightarrow> SurfaceReplace option" where
  "SurfaceReplacement ev =
     (if ev_Type ev \<noteq> EventUserMessage then None
      else (case unmarshal_struct dec_userMessage (ev_Data ev) of
         None \<Rightarrow> None
       | Some u \<Rightarrow>
           (case um_SurfaceOp u of
              None \<Rightarrow> None
            | Some op \<Rightarrow> if sr_Op op \<noteq> surfaceReplaceOp then None else Some op)))"

text \<open>The map that \<^verbatim>\<open>WireEvent\<close> builds; the last two keys are set for surface rows only.\<close>

record wire_map =
  wm_seq :: nat
  wm_type :: event_type
  wm_time :: int
  wm_data :: "json option"
  wm_surfaceOp :: "json option"
  wm_sourceEventSeqs :: "nat list option"

definition WireEvent :: "event \<Rightarrow> wire_map" where
  "WireEvent ev =
     (let wire = \<lparr>wm_seq = ev_Seq ev, wm_type = ev_Type ev, wm_time = UnixMilli (ev_At ev), wm_data = ev_Data ev,
                  wm_surfaceOp = None, wm_sourceEventSeqs = None\<rparr>
      in if \<not> isSurfaceEventType (ev_Type ev) then wire
         else wire\<lparr>
           wm_data := (case ev_Data ev of
               Some (JObj o1) \<Rightarrow> Some (JObj (filter (\<lambda>(k, _). k \<noteq> ''surfaceOp'' \<and> k \<noteq> ''sourceEventSeqs'') o1))
             | d \<Rightarrow> d),
           wm_surfaceOp := Some (case SurfaceReplacement ev of
               None \<Rightarrow> JStr ''append''
             | Some r \<Rightarrow> JObj [(''end'', JInt (sr_End r)), (''op'', JStr ''replace''), (''start'', JInt (sr_Start r))]),
           wm_sourceEventSeqs := EventSourceEventSeqs ev\<rparr>)"

text \<open>\<^verbatim>\<open>json.Marshal\<close> of the map, keys in order; it fails on a payload that is not JSON.\<close>

definition marshal_wire :: "wire_map \<Rightarrow> json option" where
  "marshal_wire w =
     (case wm_data w of
        None \<Rightarrow> None
      | Some d \<Rightarrow> Some (JObj (
          [(''data'', d), (''seq'', JInt (int (wm_seq w)))] @
          (case wm_sourceEventSeqs w of None \<Rightarrow> [] | Some qs \<Rightarrow> [(''sourceEventSeqs'', JArr (map (\<lambda>q. JInt (int q)) qs))]) @
          (case wm_surfaceOp w of None \<Rightarrow> [] | Some op \<Rightarrow> [(''surfaceOp'', op)]) @
          [(''time'', JInt (wm_time w)), (''type'', JStr (event_literal (wm_type w)))])))"

section \<open>Approvals\<close>

definition copy_nonempty :: "jobject \<Rightarrow> string \<Rightarrow> jobject" where
  "copy_nonempty raw k = (case jget raw k of None \<Rightarrow> [] | Some v \<Rightarrow> if v = JStr [] then [] else [(k, v)])"

definition copy_present :: "jobject \<Rightarrow> string \<Rightarrow> jobject" where
  "copy_present raw k = (case jget raw k of None \<Rightarrow> [] | Some v \<Rightarrow> [(k, v)])"

definition value_or_null :: "json option \<Rightarrow> json" where
  "value_or_null v = (case v of None \<Rightarrow> JNull | Some x \<Rightarrow> x)"

definition CanonicalApprovalEvent :: "event_type \<Rightarrow> json option \<Rightarrow> (event_type \<times> jobject) option" where
  "CanonicalApprovalEvent typ data =
     (case unmarshal_map data of
        None \<Rightarrow> None
      | Some raw \<Rightarrow>
          let i = (''id'', value_or_null (jget raw ''id''))
          in if typ = EventInteractRequest then
               Some (EventApprovalAsked,
                 [i, (''toolName'', value_or_null (jget raw ''toolName''))] @ copy_nonempty raw ''callId'' @
                 copy_nonempty raw ''prompt'' @ map (\<lambda>(_, v). (''reason'', v)) (copy_nonempty raw ''prompt'') @
                 copy_present raw ''args'' @ copy_present raw ''questions'')
             else if typ = EventInteractResolve then
               Some (EventApprovalDecided,
                 [i, (''outcome'', JStr (if jget raw ''approved'' = Some (JBool True) then ''allowed-once'' else ''rejected''))] @
                 copy_nonempty raw ''callId'' @ copy_nonempty raw ''answer'')
             else if typ = EventInteractCancel then
               Some (EventApprovalDecided, [i, (''outcome'', JStr ''cancelled'')] @ copy_nonempty raw ''callId'')
             else None)"

section \<open>What the folds compute\<close>

definition is_prompt :: "event \<Rightarrow> bool" where
  "is_prompt ev \<longleftrightarrow> ev_Type ev = EventUserMessage \<and> humanUserMessage (ev_Data ev)"

definition last_where :: "('a \<Rightarrow> bool) \<Rightarrow> 'a list \<Rightarrow> 'a option" where
  "last_where P xs = List.find P (rev xs)"

lemma last_where_Nil [simp]: "last_where P [] = None"
  by (simp add: last_where_def)

lemma last_where_snoc [simp]: "last_where P (xs @ [x]) = (if P x then Some x else last_where P xs)"
  by (simp add: last_where_def)

lemma metadata_snoc:
  "ProjectSessionListMetadata (es @ [ev]) = Apply_metadata (ProjectSessionListMetadata es) ev"
  by (simp add: ProjectSessionListMetadata_def)

text \<open>
  Fact: a session is blank exactly until its first turn starts, and its prompt time is the time of the
  last message a human wrote, never before the epoch; messages of other sources do not move it.
\<close>

theorem list_metadata_spec:
  "md_Blank (ProjectSessionListMetadata es) = (EventTurnStart \<notin> ev_Type ` set es) \<and>
   md_LastPromptAt (ProjectSessionListMetadata es) =
     map_option (\<lambda>ev. max 0 (UnixMilli (ev_At ev))) (last_where is_prompt es)"
proof (induction es rule: rev_induct)
  case Nil
  then show ?case by (simp add: ProjectSessionListMetadata_def NewSessionListMetadata_def)
next
  case (snoc ev es)
  then show ?case by (simp add: metadata_snoc Apply_metadata_def is_prompt_def Let_def)
qed

section \<open>The wire form is valid\<close>

lemma wire_literals: "list_all (\<lambda>t. event_type_of (event_literal t) = t \<and> event_literal t \<noteq> []) wire_types"
  by code_simp

lemma event_type_of_literal:
  "knownWireEventType t \<Longrightarrow> event_type_of (event_literal t) = t" "knownWireEventType t \<Longrightarrow> t \<noteq> EventOther []"
  using wire_literals by (auto simp: knownWireEventType_def list_all_iff)

lemma jget_filter: "P k \<Longrightarrow> jget (filter (\<lambda>(k, _). P k) o1) k = jget o1 k"
  by (induction o1) (auto simp: jget_Cons split: option.splits)

lemma require_filter:
  "list_all P fs \<Longrightarrow> require (filter (\<lambda>(k, _). P k) o1) fs = require o1 fs"
  unfolding require_def by (rule arg_cong [of _ _ wire_check]) (auto simp: list_all_iff jget_filter)

text \<open>Lifting the surface metadata out of the payload does not remove a key the validator asks for.\<close>

lemma validate_stripped:
  assumes "isSurfaceEventType t"
  shows "validateWireEventData t (JObj (filter (\<lambda>(k, _). k \<noteq> ''surfaceOp'' \<and> k \<noteq> ''sourceEventSeqs'') o1)) =
    validateWireEventData t (JObj o1)"
  using assms
  by (auto simp: isSurfaceEventType_def validateWireEventData_def validateWirePayload_def require_filter
      wire_turn_types_def wire_step_types_def)

lemma surface_vocabulary: "isSurfaceEventType t \<Longrightarrow> ValidateEventVocabulary t raw = None"
  by (auto simp: isSurfaceEventType_def ValidateEventVocabulary_def)

lemma dec_envelope_wire:
  assumes d: "wm_data w = Some d" and q: "int (wm_seq w) \<le> max_uint64" and t: "in_int64 (wm_time w)"
    and known: "knownWireEventType (wm_type w)"
  shows "\<exists>o1. marshal_wire w = Some (JObj o1) \<and>
    dec_envelope o1 = Some \<lparr>we_Type = wm_type w, we_Seq = Some (wm_seq w), we_Time = Some (wm_time w),
      we_Data = Some d, we_Ignorable = None, we_SurfaceOp = wm_surfaceOp w\<rparr>"
  using q t event_type_of_literal(1) [OF known]
  by (auto simp: marshal_wire_def d dec_envelope_def jfield_encode same_field_def in_int64_def split: option.split)

text \<open>
  Fact: the wire form of a row is valid: a row whose type the wire knows and whose payload passes the
  vocabulary and payload checks still passes \<^verbatim>\<open>ValidateWireEvent\<close> after its metadata was lifted
  to the envelope, and a surface row carries \<^verbatim>\<open>"append"\<close> or its own replacement range.
\<close>

theorem wire_event_valid:
  assumes "knownWireEventType (ev_Type ev)" and "ev_Data ev = Some d"
    and "ValidateEventVocabulary (ev_Type ev) (Some d) = None" and "validateWireEventData (ev_Type ev) d = None"
    and "int (ev_Seq ev) \<le> max_uint64" and "in_int64 (UnixMilli (ev_At ev))"
  shows "ValidateWireEvent (marshal_wire (WireEvent ev)) = None \<and>
    (wm_surfaceOp (WireEvent ev) = None \<longleftrightarrow> \<not> isSurfaceEventType (ev_Type ev))"
proof -
  obtain o1 where o1: "d = JObj o1" using assms(4) by (cases d) (simp_all add: validateWireEventData_def)
  let ?s = "\<lambda>o1. filter (\<lambda>(k, _). k \<noteq> ''surfaceOp'' \<and> k \<noteq> ''sourceEventSeqs'') o1"
  let ?d = "if isSurfaceEventType (ev_Type ev) then JObj (?s o1) else JObj o1"
  have w: "wm_data (WireEvent ev) = Some ?d" "wm_seq (WireEvent ev) = ev_Seq ev" "wm_type (WireEvent ev) = ev_Type ev"
    "wm_time (WireEvent ev) = UnixMilli (ev_At ev)"
    "wm_surfaceOp (WireEvent ev) = None \<longleftrightarrow> \<not> isSurfaceEventType (ev_Type ev)"
    by (simp_all add: WireEvent_def Let_def assms(2) o1)
  have "\<exists>o2. marshal_wire (WireEvent ev) = Some (JObj o2) \<and>
      dec_envelope o2 = Some \<lparr>we_Type = ev_Type ev, we_Seq = Some (ev_Seq ev), we_Time = Some (UnixMilli (ev_At ev)),
        we_Data = Some ?d, we_Ignorable = None, we_SurfaceOp = wm_surfaceOp (WireEvent ev)\<rparr>"
    using dec_envelope_wire [OF w(1)] assms(1,5,6) unfolding w(2,3,4) by blast
  then obtain o2 where o2: "marshal_wire (WireEvent ev) = Some (JObj o2)"
    "dec_envelope o2 = Some \<lparr>we_Type = ev_Type ev, we_Seq = Some (ev_Seq ev), we_Time = Some (UnixMilli (ev_At ev)),
        we_Data = Some ?d, we_Ignorable = None, we_SurfaceOp = wm_surfaceOp (WireEvent ev)\<rparr>" by blast
  have "ValidateEventVocabulary (ev_Type ev) (Some ?d) = None"
    using assms(3) o1 surface_vocabulary by simp
  moreover have "validateWireEventData (ev_Type ev) ?d = None"
    using assms(4) o1 validate_stripped by simp
  ultimately show ?thesis
    using o2 w(5) assms(1) event_type_of_literal(2) [OF assms(1)]
    by (simp add: ValidateWireEvent_def validate_envelope_def wire_check_def)
qed

definition sample_prompt :: event where
  "sample_prompt = \<lparr>ev_Seq = 4, ev_Type = EventUserMessage, ev_At = 63000000000000000000, ev_Version = 1,
     ev_Data = Some (JObj [(''role'', JStr ''user''), (''content'', JArr []),
       (''source'', JObj [(''kind'', JStr ''user'')]), (''sourceEventSeqs'', JArr [JInt 1, JInt 3]),
       (''surfaceOp'', JObj [(''op'', JStr ''replace''), (''start'', JInt 1), (''end'', JInt 3)])])\<rparr>"

lemma wire_event_valid_witness:
  "ValidateWireEvent (marshal_wire (WireEvent sample_prompt)) = None \<and> wm_surfaceOp (WireEvent sample_prompt) \<noteq> None"
  using wire_event_valid [of sample_prompt "the (ev_Data sample_prompt)"]
  by (simp add: sample_prompt_def knownWireEventType_def wire_types_def ValidateEventVocabulary_def
      validateWireEventData_def validateWirePayload_def require_def wire_check_def check_that_def jget_encode
      wire_turn_types_def wire_step_types_def max_uint64_def in_int64_def min_int64_def max_int64_def UnixMilli_def
      isSurfaceEventType_def)

end
