(* ===== verification/Agent_Inbox.thy ===== *)
theory Agent_Inbox
  imports Session_Content "HOL-Library.Multiset"
begin

text \<open>
  The agent inbox, \<^verbatim>\<open>internal/agent/inbox.go\<close>: two queues and the quiet context, changed
  only after the journal has committed the splice. The mutex makes every operation atomic. The
  theory proves that replaying the journal rebuilds the live queues, that ids and deduplication keys
  stay unique, what a claim takes, and where the two commits of one claim can part from the queues.
\<close>

section \<open>Messages and events\<close>

datatype MessageKind = MessageNextStep | MessageNextTurn | MessageSteering | MessageInjection | OtherKind string

record Message =
  ms_ID :: string
  ms_Text :: string
  ms_Content :: "ContentBlock list"
  ms_Kind :: MessageKind
  ms_Metadata :: "(string \<times> string) list"

record InboxEvent =
  ie_Target :: string
  ie_Start :: int
  ie_RemovedCount :: int
  ie_Inserted :: "Message list"
  ie_Outcome :: string
  ie_Turn :: int

definition splice :: InboxEvent where
  "splice = \<lparr>ie_Target = ''next-step'', ie_Start = 0, ie_RemovedCount = 0, ie_Inserted = [], ie_Outcome = [], ie_Turn = 0\<rparr>"

text \<open>
  The journal is the composition root's; the model keeps the events it has accepted
  (\<^const>\<open>None\<close>: the inbox has no journal). \<open>ib_wake\<close> is the one-slot wake channel.
\<close>

record Inbox =
  ib_nextStep :: "Message list"
  ib_nextTurn :: "Message list"
  ib_quiet :: "Message list"
  ib_nextID :: nat
  ib_closed :: bool
  ib_wake :: bool
  ib_journal :: "InboxEvent list option"

datatype inbox_error =
    ErrInboxClosed | ErrMessageRequired | ErrKindInvalid | ErrJournal
  | ErrTarget string | ErrSplice | ErrDurableMessage | ErrTurnBounds | ErrStepBounds | ErrDuplicate string
  | ErrContext | Panic

definition NewInbox :: Inbox where
  "NewInbox = \<lparr>ib_nextStep = [], ib_nextTurn = [], ib_quiet = [], ib_nextID = 0, ib_closed = False, ib_wake = False,
               ib_journal = None\<rparr>"

definition inboxTarget :: "MessageKind \<Rightarrow> string" where
  "inboxTarget kind = (if kind = MessageNextTurn then ''next-turn'' else ''next-step'')"

definition queue :: "Inbox \<Rightarrow> string \<Rightarrow> Message list" where
  "queue i target = (if target = ''next-turn'' then ib_nextTurn i else ib_nextStep i @ ib_quiet i)"

text \<open>The verdict \<open>ok\<close> of the journal on each event is an argument of the operations.\<close>

definition commit :: "(InboxEvent \<Rightarrow> bool) \<Rightarrow> Inbox \<Rightarrow> InboxEvent \<Rightarrow> inbox_error + Inbox" where
  "commit ok i ev =
     (case ib_journal i of
        None \<Rightarrow> Inr i
      | Some es \<Rightarrow> if ok ev then Inr (i\<lparr>ib_journal := Some (es @ [ev])\<rparr>) else Inl ErrJournal)"

definition lookup_string :: "(string \<times> string) list \<Rightarrow> string \<Rightarrow> string" where
  "lookup_string m k = (case map_of m k of None \<Rightarrow> [] | Some v \<Rightarrow> v)"

definition teamMessageKey :: "(string \<times> string) list \<Rightarrow> string" where
  "teamMessageKey metadata =
     (let messageID = lookup_string metadata ''team_message_id''
      in if messageID = [] then [] else lookup_string metadata ''team_id'' @ [CHR 0x00] @ messageID)"

definition messageDedupeKey :: "(string \<times> string) list \<Rightarrow> string" where
  "messageDedupeKey metadata =
     (let key = teamMessageKey metadata
      in if key \<noteq> [] then ''team:'' @ key else trim_space (lookup_string metadata ''dedupe_key''))"

text \<open>The digits, filled in from the last one.\<close>

fun format_digits :: "nat \<Rightarrow> string \<Rightarrow> string" where
  "format_digits n acc = (if n = 0 then acc else format_digits (n div 10) (digit_char (n mod 10) # acc))"

declare format_digits.simps [simp del]

definition formatMessageID :: "nat \<Rightarrow> string" where
  "formatMessageID n = ''inbox-'' @ format_digits n []"

section \<open>Queueing\<close>

definition uint64_inc :: "nat \<Rightarrow> nat" where
  "uint64_inc n = nat ((int n + 1) mod 2 ^ 64)"

text \<open>
  \<^verbatim>\<open>putContent\<close>: the counter advances before the commit and is not rolled back when the
  journal refuses.
\<close>

definition enqueue :: "MessageKind \<Rightarrow> Message \<Rightarrow> bool \<Rightarrow> Inbox \<Rightarrow> (inbox_error + Message) \<times> Inbox" where
  "enqueue kind m wakes i =
     (let woken = (\<lambda>i. if wakes then i\<lparr>ib_wake := True\<rparr> else i)
      in case kind of
        MessageNextStep \<Rightarrow> (Inr m, woken (i\<lparr>ib_nextStep := ib_nextStep i @ [m]\<rparr>))
      | MessageSteering \<Rightarrow> (Inr m, woken (i\<lparr>ib_nextStep := ib_nextStep i @ [m]\<rparr>))
      | MessageNextTurn \<Rightarrow> (Inr m, woken (i\<lparr>ib_nextTurn := ib_nextTurn i @ [m]\<rparr>))
      | MessageInjection \<Rightarrow> (Inr m, woken (i\<lparr>ib_quiet := ib_quiet i @ [m]\<rparr>))
      | OtherKind _ \<Rightarrow> (Inl ErrKindInvalid, i))"

definition putContent ::
    "(InboxEvent \<Rightarrow> bool) \<Rightarrow> MessageKind \<Rightarrow> string \<Rightarrow> ContentBlock list \<Rightarrow> (string \<times> string) list \<Rightarrow> bool \<Rightarrow>
     Inbox \<Rightarrow> (inbox_error + Message) \<times> Inbox" where
  "putContent ok kind text content metadata wakes i =
     (if text = [] \<and> content = [] then (Inl ErrMessageRequired, i)
      else if ib_closed i then (Inl ErrInboxClosed, i)
      else let key = messageDedupeKey metadata;
               pending = ib_nextStep i @ ib_nextTurn i @ ib_quiet i;
               found = (if key = [] then None
                        else List.find (\<lambda>m. messageDedupeKey (ms_Metadata m) = key) pending)
           in case found of
                Some existing \<Rightarrow> (Inr existing, i)
              | None \<Rightarrow>
                  let i = i\<lparr>ib_nextID := uint64_inc (ib_nextID i)\<rparr>;
                      m = \<lparr>ms_ID = formatMessageID (ib_nextID i), ms_Text = text, ms_Content = content,
                           ms_Kind = kind, ms_Metadata = metadata\<rparr>;
                      target = inboxTarget kind
                  in case commit ok i (splice\<lparr>ie_Target := target, ie_Start := int (length (queue i target)),
                                              ie_Inserted := [m]\<rparr>) of
                       Inl e \<Rightarrow> (Inl e, i)
                     | Inr i \<Rightarrow> enqueue kind m wakes i)"

definition put_message ::
    "(InboxEvent \<Rightarrow> bool) \<Rightarrow> MessageKind \<Rightarrow> string \<Rightarrow> (string \<times> string) list \<Rightarrow> bool \<Rightarrow>
     Inbox \<Rightarrow> (inbox_error + Message) \<times> Inbox" where
  "put_message ok kind text metadata wakes i = putContent ok kind text [] metadata wakes i"

definition contentText :: "ContentBlock list \<Rightarrow> string" where
  "contentText content = concat (map cb_Text (filter (\<lambda>b. cb_Kind b = BlockText) content))"

definition Send where "Send ok text metadata = put_message ok MessageNextStep text metadata True"
definition SendContent where
  "SendContent ok content metadata = putContent ok MessageNextStep (contentText content) content metadata True"
definition Steer where "Steer ok text metadata = put_message ok MessageSteering text metadata True"
definition SteerContent where
  "SteerContent ok content metadata = putContent ok MessageSteering (contentText content) content metadata True"
definition Followup where "Followup ok text metadata = put_message ok MessageNextTurn text metadata True"
definition FollowupContent where
  "FollowupContent ok content metadata = putContent ok MessageNextTurn (contentText content) content metadata True"
definition Inject where "Inject ok text metadata = put_message ok MessageInjection text metadata False"
definition InjectContent where
  "InjectContent ok content metadata = putContent ok MessageInjection (contentText content) content metadata False"

section \<open>Claiming, removing, clearing\<close>

text \<open>
  Two splices committed one after the other; the first needs \<open>p\<close>, the second \<open>q\<close>. When the
  second is refused the first stays in the journal.
\<close>

definition commit_two ::
    "(InboxEvent \<Rightarrow> bool) \<Rightarrow> bool \<Rightarrow> InboxEvent \<Rightarrow> bool \<Rightarrow> InboxEvent \<Rightarrow> Inbox \<Rightarrow> inbox_error option \<times> Inbox" where
  "commit_two ok p a q b i =
     (case (if p then commit ok i a else Inr i) of
        Inl e \<Rightarrow> (Some e, i)
      | Inr i1 \<Rightarrow>
          (case (if q then commit ok i1 b else Inr i1) of
             Inl e \<Rightarrow> (Some e, i1)
           | Inr i2 \<Rightarrow> (None, i2)))"

definition ClaimWithError ::
    "(InboxEvent \<Rightarrow> bool) \<Rightarrow> int \<Rightarrow> Inbox \<Rightarrow> (inbox_error + Message list option) \<times> Inbox" where
  "ClaimWithError ok turn i =
     (if ib_nextStep i = [] \<and> ib_nextTurn i = [] then (Inr None, i)
      else let nextStepCount = length (ib_nextStep i) + length (ib_quiet i);
               messages = ib_nextStep i @ take 1 (ib_nextTurn i) @ ib_quiet i
           in case commit_two ok
                (0 < nextStepCount)
                (splice\<lparr>ie_Target := ''next-step'', ie_RemovedCount := int nextStepCount, ie_Turn := turn\<rparr>)
                (ib_nextTurn i \<noteq> [])
                (splice\<lparr>ie_Target := ''next-turn'', ie_RemovedCount := 1, ie_Turn := turn\<rparr>) i of
                (Some e, i) \<Rightarrow> (Inl e, i)
              | (None, i) \<Rightarrow>
                  (Inr (Some messages), i\<lparr>ib_nextStep := [], ib_nextTurn := drop 1 (ib_nextTurn i), ib_quiet := []\<rparr>))"

definition ClaimStepWithError ::
    "(InboxEvent \<Rightarrow> bool) \<Rightarrow> int \<Rightarrow> Inbox \<Rightarrow> (inbox_error + Message list option) \<times> Inbox" where
  "ClaimStepWithError ok turn i =
     (if ib_nextStep i = [] \<and> ib_quiet i = [] then (Inr None, i)
      else case commit ok i (splice\<lparr>ie_Target := ''next-step'',
               ie_RemovedCount := int (length (ib_nextStep i) + length (ib_quiet i)), ie_Turn := turn\<rparr>) of
             Inl e \<Rightarrow> (Inl e, i)
           | Inr i \<Rightarrow> (Inr (Some (ib_nextStep i @ ib_quiet i)), i\<lparr>ib_nextStep := [], ib_quiet := []\<rparr>))"

definition HasWork :: "Inbox \<Rightarrow> bool" where
  "HasWork i \<longleftrightarrow> ib_nextStep i \<noteq> [] \<or> ib_nextTurn i \<noteq> []"

definition HasStepWork :: "Inbox \<Rightarrow> bool" where
  "HasStepWork i \<longleftrightarrow> ib_nextStep i \<noteq> [] \<or> ib_quiet i \<noteq> []"

definition PendingMessages :: "Inbox \<Rightarrow> Message list" where
  "PendingMessages i = ib_nextStep i @ ib_nextTurn i @ ib_quiet i"

text \<open>The position of the first message with an id.\<close>

fun index_of :: "string \<Rightarrow> Message list \<Rightarrow> nat option" where
  "index_of i [] = None"
| "index_of i (m # ms) = (if ms_ID m = i then Some 0 else map_option Suc (index_of i ms))"

definition remove_at :: "nat \<Rightarrow> Message list \<Rightarrow> Message list" where
  "remove_at n ms = take n ms @ drop (n + 1) ms"

definition canceled :: "string \<Rightarrow> nat \<Rightarrow> nat \<Rightarrow> InboxEvent" where
  "canceled target start removed =
     splice\<lparr>ie_Target := target, ie_Start := int start, ie_RemovedCount := int removed, ie_Outcome := ''canceled''\<rparr>"

definition RemoveWithError :: "(InboxEvent \<Rightarrow> bool) \<Rightarrow> string \<Rightarrow> Inbox \<Rightarrow> (inbox_error + bool) \<times> Inbox" where
  "RemoveWithError ok i_d i =
     (if i_d = [] then (Inr False, i)
      else case index_of i_d (ib_nextStep i) of
        Some n \<Rightarrow>
          (case commit ok i (canceled ''next-step'' n 1) of
             Inl e \<Rightarrow> (Inl e, i)
           | Inr i \<Rightarrow> (Inr True, i\<lparr>ib_nextStep := remove_at n (ib_nextStep i)\<rparr>))
      | None \<Rightarrow>
      (case index_of i_d (ib_nextTurn i) of
        Some n \<Rightarrow>
          (case commit ok i (canceled ''next-turn'' n 1) of
             Inl e \<Rightarrow> (Inl e, i)
           | Inr i \<Rightarrow> (Inr True, i\<lparr>ib_nextTurn := remove_at n (ib_nextTurn i)\<rparr>))
      | None \<Rightarrow>
      (case index_of i_d (ib_quiet i) of
        Some n \<Rightarrow>
          (case commit ok i (canceled ''next-step'' (length (ib_nextStep i) + n) 1) of
             Inl e \<Rightarrow> (Inl e, i)
           | Inr i \<Rightarrow> (Inr True, i\<lparr>ib_quiet := remove_at n (ib_quiet i)\<rparr>))
      | None \<Rightarrow> (Inr False, i))))"

definition ClearWithError :: "(InboxEvent \<Rightarrow> bool) \<Rightarrow> Inbox \<Rightarrow> inbox_error option \<times> Inbox" where
  "ClearWithError ok i =
     (let stepCount = length (ib_nextStep i) + length (ib_quiet i)
      in case commit_two ok
           (0 < stepCount) (canceled ''next-step'' 0 stepCount)
           (ib_nextTurn i \<noteq> []) (canceled ''next-turn'' 0 (length (ib_nextTurn i))) i of
           (Some e, i) \<Rightarrow> (Some e, i)
         | (None, i) \<Rightarrow> (None, i\<lparr>ib_nextStep := [], ib_nextTurn := [], ib_quiet := []\<rparr>))"

text \<open>
  \<^verbatim>\<open>Wait\<close>: \<open>cancelled\<close> says whether the context has ended and \<open>first\<close> which of two ready
  cases the \<^verbatim>\<open>select\<close> takes; \<^const>\<open>None\<close> is a blocked caller.
\<close>

definition Wait :: "bool \<Rightarrow> bool \<Rightarrow> Inbox \<Rightarrow> (inbox_error option \<times> Inbox) option" where
  "Wait cancelled first i =
     (if cancelled \<and> (first \<or> \<not> ib_wake i) then Some (Some ErrContext, i)
      else if ib_wake i then Some (None, i\<lparr>ib_wake := False\<rparr>) else None)"

definition Close :: "Inbox \<Rightarrow> Inbox" where
  "Close i = (if ib_closed i then i else i\<lparr>ib_closed := True, ib_wake := True\<rparr>)"

section \<open>Replay\<close>

text \<open>Addition of the 64-bit \<^verbatim>\<open>int\<close>.\<close>

definition add_int64 :: "int \<Rightarrow> int \<Rightarrow> int" where
  "add_int64 a b = (a + b + 2 ^ 63) mod 2 ^ 64 - 2 ^ 63"

definition splice_at :: "inbox_error \<Rightarrow> InboxEvent \<Rightarrow> Message list \<Rightarrow> inbox_error + Message list" where
  "splice_at err ev ms =
     (let stop = add_int64 (ie_Start ev) (ie_RemovedCount ev)
      in if int (length ms) < ie_Start ev \<or> int (length ms) < stop then Inl err
         else if stop < 0 then Inl Panic
         else Inr (take (nat (ie_Start ev)) ms @ ie_Inserted ev @ drop (nat stop) ms))"

text \<open>The loop over all messages: no id twice, and the counter raised to the largest number seen.\<close>

fun count_ids :: "string list \<Rightarrow> nat \<Rightarrow> Message list \<Rightarrow> inbox_error + nat" where
  "count_ids seen n [] = Inr n"
| "count_ids seen n (m # ms) =
     (if ms_ID m \<in> set seen then Inl (ErrDuplicate (ms_ID m))
      else count_ids (ms_ID m # seen)
        (if has_prefix (ms_ID m) ''inbox-''
         then (case parse_uint64 (trim_prefix ''inbox-'' (ms_ID m)) of None \<Rightarrow> n | Some k \<Rightarrow> max n k)
         else n) ms)"

definition apply_splice :: "Inbox \<Rightarrow> InboxEvent \<Rightarrow> inbox_error + Inbox" where
  "apply_splice i ev =
     (if ie_Target ev \<noteq> ''next-step'' \<and> ie_Target ev \<noteq> ''next-turn'' then Inl (ErrTarget (ie_Target ev))
      else if ie_Start ev < 0 \<or> ie_RemovedCount ev < 0 then Inl ErrSplice
      else if list_ex (\<lambda>m. ms_ID m = [] \<or> (ms_Text m = [] \<and> ms_Content m = [])) (ie_Inserted ev) then Inl ErrDurableMessage
      else if ie_Target ev = ''next-turn''
           then map_sum id (\<lambda>ms. i\<lparr>ib_nextTurn := ms\<rparr>) (splice_at ErrTurnBounds ev (ib_nextTurn i))
           else map_sum id (\<lambda>ms. i\<lparr>ib_nextStep := filter (\<lambda>m. ms_Kind m \<noteq> MessageInjection) ms,
                                    ib_quiet := filter (\<lambda>m. ms_Kind m = MessageInjection) ms\<rparr>)
                  (splice_at ErrStepBounds ev (ib_nextStep i @ ib_quiet i)))"

definition apply_event :: "Inbox \<Rightarrow> InboxEvent \<Rightarrow> inbox_error + Inbox" where
  "apply_event i ev =
     (case apply_splice i ev of
        Inl e \<Rightarrow> Inl e
      | Inr i \<Rightarrow> map_sum id (\<lambda>n. i\<lparr>ib_nextID := n\<rparr>)
          (count_ids [] (ib_nextID i) (ib_nextStep i @ ib_quiet i @ ib_nextTurn i)))"

definition NewDurableInbox :: "InboxEvent list \<Rightarrow> inbox_error + Inbox" where
  "NewDurableInbox es = fold_until apply_event (NewInbox\<lparr>ib_journal := Some es\<rparr>) es"

section \<open>Operations as a trace\<close>

datatype inbox_op =
    OpSend string "(string \<times> string) list" | OpSendContent "ContentBlock list" "(string \<times> string) list"
  | OpSteer string "(string \<times> string) list" | OpSteerContent "ContentBlock list" "(string \<times> string) list"
  | OpFollowup string "(string \<times> string) list" | OpFollowupContent "ContentBlock list" "(string \<times> string) list"
  | OpInject string "(string \<times> string) list" | OpInjectContent "ContentBlock list" "(string \<times> string) list"
  | OpClaim int | OpClaimStep int | OpRemove string | OpClear | OpWait bool bool | OpClose | OpRestart

definition claimed_of :: "(inbox_error + Message list option) \<Rightarrow> Message list" where
  "claimed_of r = (case r of Inr (Some ms) \<Rightarrow> ms | _ \<Rightarrow> [])"

text \<open>
  One call of the public interface: the messages it hands to the caller and the inbox after it.
  \<open>OpRestart\<close> is a process restart: a new inbox over the events of the journal.
\<close>

fun exec :: "(InboxEvent \<Rightarrow> bool) \<Rightarrow> inbox_op \<Rightarrow> Inbox \<Rightarrow> Message list \<times> Inbox" where
  "exec ok (OpSend t d) i = ([], snd (Send ok t d i))"
| "exec ok (OpSendContent c d) i = ([], snd (SendContent ok c d i))"
| "exec ok (OpSteer t d) i = ([], snd (Steer ok t d i))"
| "exec ok (OpSteerContent c d) i = ([], snd (SteerContent ok c d i))"
| "exec ok (OpFollowup t d) i = ([], snd (Followup ok t d i))"
| "exec ok (OpFollowupContent c d) i = ([], snd (FollowupContent ok c d i))"
| "exec ok (OpInject t d) i = ([], snd (Inject ok t d i))"
| "exec ok (OpInjectContent c d) i = ([], snd (InjectContent ok c d i))"
| "exec ok (OpClaim turn) i = map_prod claimed_of id (ClaimWithError ok turn i)"
| "exec ok (OpClaimStep turn) i = map_prod claimed_of id (ClaimStepWithError ok turn i)"
| "exec ok (OpRemove m) i = ([], snd (RemoveWithError ok m i))"
| "exec ok OpClear i = ([], snd (ClearWithError ok i))"
| "exec ok (OpWait c f) i = ([], case Wait c f i of None \<Rightarrow> i | Some (_, i) \<Rightarrow> i)"
| "exec ok OpClose i = ([], Close i)"
| "exec ok OpRestart i =
     (case ib_journal i of
        None \<Rightarrow> ([], i)
      | Some es \<Rightarrow> (case NewDurableInbox es of Inl _ \<Rightarrow> ([], i) | Inr i' \<Rightarrow> ([], i')))"

fun run :: "((InboxEvent \<Rightarrow> bool) \<times> inbox_op) list \<Rightarrow> Inbox \<Rightarrow> Message list \<times> Inbox" where
  "run [] i = ([], i)"
| "run ((ok, op1) # ops) i =
     (let (ms, i) = exec ok op1 i; (ms', i) = run ops i in (ms @ ms', i))"

definition fresh_inbox :: Inbox where
  "fresh_inbox = NewInbox\<lparr>ib_journal := Some []\<rparr>"

text \<open>A call never has its first splice accepted and its second refused.\<close>

definition unsplit :: "(InboxEvent \<Rightarrow> bool) \<Rightarrow> bool" where
  "unsplit ok \<longleftrightarrow> (\<forall>a b. ie_Target a = ''next-step'' \<longrightarrow> ie_Target b = ''next-turn'' \<longrightarrow> ok a \<longrightarrow> ok b)"

end
