(* ===== verification/Agent_Inbox_Replay.thy ===== *)
theory Agent_Inbox_Replay
  imports Agent_Inbox
begin

text \<open>
  The journal and the live queues agree: along every trace of inbox calls and restarts, replaying
  the journal gives the live queues, ids are never reused, and a message is handed out at most once.
\<close>

section \<open>Message ids\<close>

lemma format_digits_itoa: "format_digits n acc = (if n = 0 then acc else itoa n @ acc)"
proof (induction n arbitrary: acc rule: less_induct)
  case (less n)
  show ?case
  proof (cases "n < 10")
    case True
    then show ?thesis by (subst format_digits.simps, subst format_digits.simps, subst itoa.simps) simp
  next
    case False
    then have "format_digits (n div 10) acc = itoa (n div 10) @ acc" for acc
      using less.IH [of "n div 10" acc] by (simp add: div_eq_0_iff)
    with False show ?thesis by (subst format_digits.simps, subst itoa.simps) simp
  qed
qed

lemma formatMessageID_itoa: "0 < n \<Longrightarrow> formatMessageID n = ''inbox-'' @ itoa n"
  by (simp add: formatMessageID_def format_digits_itoa)

lemma formatMessageID_inj: "0 < m \<Longrightarrow> 0 < n \<Longrightarrow> formatMessageID m = formatMessageID n \<longleftrightarrow> m = n"
  by (simp add: formatMessageID_itoa)

lemma parse_formatMessageID:
  "0 < n \<Longrightarrow> n < 2 ^ 64 \<Longrightarrow> has_prefix (formatMessageID n) ''inbox-'' \<and>
     parse_uint64 (trim_prefix ''inbox-'' (formatMessageID n)) = Some n"
  using has_prefix_append [of "''inbox-''" "itoa n"] trim_prefix_append [of "''inbox-''" "itoa n"]
  by (simp add: formatMessageID_itoa parse_uint64_itoa max_uint64_def)

text \<open>The ids issued so far.\<close>

definition issued :: "nat \<Rightarrow> string \<Rightarrow> bool" where
  "issued n i \<longleftrightarrow> (\<exists>k. 0 < k \<and> k \<le> n \<and> i = formatMessageID k)"

lemma issued_mono: "issued n i \<Longrightarrow> n \<le> n' \<Longrightarrow> issued n' i"
  by (auto simp: issued_def)

lemma not_issued_next: "\<not> issued n (formatMessageID (Suc n))"
  by (auto simp: issued_def formatMessageID_inj)

lemma count_ids_ok:
  assumes "distinct (map ms_ID ms)" and "ms_ID ` set ms \<inter> set seen = {}"
    and "\<And>m. m \<in> set ms \<Longrightarrow> issued b (ms_ID m)" and "b < 2 ^ 64"
  shows "\<exists>n'. count_ids seen n ms = Inr n' \<and> n \<le> n' \<and> n' \<le> max n b \<and> (\<forall>m \<in> set ms. issued n' (ms_ID m))"
  using assms(1-3)
proof (induction ms arbitrary: seen n)
  case (Cons m ms)
  from Cons.prems(3) [of m] obtain k where k: "0 < k" "k \<le> b" "ms_ID m = formatMessageID k"
    by (auto simp: issued_def)
  have step: "count_ids seen n (m # ms) = count_ids (ms_ID m # seen) (max n k) ms"
    using Cons.prems(2) parse_formatMessageID [of k] k assms(4) by simp
  have ih: "\<exists>n'. count_ids (ms_ID m # seen) (max n k) ms = Inr n' \<and> max n k \<le> n' \<and> n' \<le> max (max n k) b \<and>
      (\<forall>m \<in> set ms. issued n' (ms_ID m))"
    by (rule Cons.IH) (use Cons.prems in auto)
  then obtain n' where n': "count_ids (ms_ID m # seen) (max n k) ms = Inr n'" "max n k \<le> n'"
    "n' \<le> max (max n k) b" "\<forall>m \<in> set ms. issued n' (ms_ID m)" by blast
  moreover have "issued n' (ms_ID m)" using k n'(2) by (auto simp: issued_def)
  ultimately show ?case using step k by (intro exI [of _ n']) auto
qed simp

section \<open>The journal rebuilds the queues\<close>

definition same_queues :: "Inbox \<Rightarrow> Inbox \<Rightarrow> bool" where
  "same_queues i j \<longleftrightarrow> ib_nextStep i = ib_nextStep j \<and> ib_nextTurn i = ib_nextTurn j \<and> ib_quiet i = ib_quiet j"

definition queues_ok :: "Inbox \<Rightarrow> bool" where
  "queues_ok i \<longleftrightarrow> (\<forall>m \<in> set (ib_nextStep i). ms_Kind m \<noteq> MessageInjection) \<and>
     (\<forall>m \<in> set (ib_quiet i). ms_Kind m = MessageInjection)"

text \<open>\<open>cl\<close> are the messages handed out so far; \<open>r\<close> is the replayed inbox.\<close>

definition durable_by :: "Message list \<Rightarrow> Inbox \<Rightarrow> InboxEvent list \<Rightarrow> Inbox \<Rightarrow> bool" where
  "durable_by cl i es r \<longleftrightarrow> ib_journal i = Some es \<and> NewDurableInbox es = Inr r \<and> same_queues i r \<and>
     ib_nextID r \<le> ib_nextID i \<and> queues_ok i \<and>
     (\<forall>m \<in> set (cl @ PendingMessages i). issued (ib_nextID r) (ms_ID m)) \<and>
     distinct (map ms_ID (cl @ PendingMessages i))"

definition durable :: "Message list \<Rightarrow> Inbox \<Rightarrow> bool" where
  "durable cl i \<longleftrightarrow> (\<exists>es r. durable_by cl i es r)"

text \<open>The replay of a longer journal continues the replay of the shorter one.\<close>

definition without_journal :: "Inbox \<Rightarrow> Inbox" where
  "without_journal i = i\<lparr>ib_journal := None\<rparr>"

lemma apply_event_journal:
  "apply_event (i\<lparr>ib_journal := J\<rparr>) ev = map_sum id (\<lambda>j. j\<lparr>ib_journal := J\<rparr>) (apply_event i ev)"
proof -
  have a: "apply_splice (i\<lparr>ib_journal := J\<rparr>) ev = map_sum id (\<lambda>j. j\<lparr>ib_journal := J\<rparr>) (apply_splice i ev)"
    by (cases "splice_at ErrTurnBounds ev (ib_nextTurn i)"; cases "splice_at ErrStepBounds ev (ib_nextStep i @ ib_quiet i)")
      (simp_all add: apply_splice_def)
  show ?thesis
  proof (cases "apply_splice i ev")
    case (Inr j)
    then show ?thesis
      by (cases "count_ids [] (ib_nextID j) (ib_nextStep j @ ib_quiet j @ ib_nextTurn j)") (simp_all add: apply_event_def a)
  qed (simp add: apply_event_def a)
qed

lemma replay_journal:
  "fold_until apply_event (i\<lparr>ib_journal := J\<rparr>) es =
     map_sum id (\<lambda>j. j\<lparr>ib_journal := J\<rparr>) (fold_until apply_event i es)"
proof (induction es arbitrary: i)
  case (Cons e es)
  then show ?case by (cases "apply_event i e") (simp_all add: apply_event_journal)
qed simp

lemma NewDurableInbox_journal: "NewDurableInbox es = Inr r \<Longrightarrow> ib_journal r = Some es"
  unfolding NewDurableInbox_def replay_journal by (cases "fold_until apply_event NewInbox es") auto

lemma replay_snoc:
  assumes "NewDurableInbox es = Inr r" and "apply_event r ev = Inr r'"
  shows "NewDurableInbox (es @ [ev]) = Inr (r'\<lparr>ib_journal := Some (es @ [ev])\<rparr>)"
proof -
  from assms(1) obtain r0 where r0: "fold_until apply_event NewInbox es = Inr r0" "r = r0\<lparr>ib_journal := Some es\<rparr>"
    unfolding NewDurableInbox_def replay_journal by (cases "fold_until apply_event NewInbox es") auto
  with assms(2) obtain r1 where "apply_event r0 ev = Inr r1" "r' = r1\<lparr>ib_journal := Some es\<rparr>"
    unfolding r0(2) apply_event_journal by (cases "apply_event r0 ev") auto
  with r0(1) show ?thesis by (simp add: NewDurableInbox_def replay_journal fold_until_append apply_event_journal)
qed

lemma apply_splice_same:
  assumes "apply_splice i ev = Inr j" and "same_queues i r"
  shows "\<exists>q. apply_splice r ev = Inr q \<and> same_queues j q \<and> ib_nextID q = ib_nextID r"
proof -
  have "ib_nextStep r = ib_nextStep i" "ib_nextTurn r = ib_nextTurn i" "ib_quiet r = ib_quiet i"
    using assms(2) by (simp_all add: same_queues_def)
  with assms(1) show ?thesis
    by (cases "splice_at ErrTurnBounds ev (ib_nextTurn i)"; cases "splice_at ErrStepBounds ev (ib_nextStep i @ ib_quiet i)")
      (auto simp: apply_splice_def same_queues_def split: if_splits)
qed

lemma distinct_map_mset:
  assumes "mset xs \<subseteq># mset ys" and "distinct (map f ys)"
  shows "distinct (map f xs)"
proof -
  obtain zs where "mset zs = mset ys - mset xs" using ex_mset by blast
  then have "mset (xs @ zs) = mset ys" using assms(1) by simp
  then have "mset (map f (xs @ zs)) = mset (map f ys)" by (metis mset_map)
  then have "distinct (map f (xs @ zs))" using assms(2) mset_eq_imp_distinct_iff by blast
  then show ?thesis by simp
qed

lemma durable_commit:
  assumes d: "durable_by cl i es r" and j: "apply_splice i ev = Inr j" "same_queues i2 j"
    and jn: "ib_journal i2 = Some (es @ [ev])" and ok: "queues_ok i2"
    and n: "ib_nextID i \<le> ib_nextID i2" "ib_nextID i2 < 2 ^ 63"
    and cl: "set cl2 \<subseteq> set cl \<union> set (PendingMessages i)"
    and pend: "\<And>m. m \<in> set (PendingMessages i2) \<Longrightarrow> issued (ib_nextID i2) (ms_ID m)"
    and dist: "distinct (map ms_ID (cl2 @ PendingMessages i2))"
  shows "durable cl2 i2"
proof -
  have r: "NewDurableInbox es = Inr r" "same_queues i r" "ib_nextID r \<le> ib_nextID i"
    using d by (simp_all add: durable_by_def)
  obtain q where q: "apply_splice r ev = Inr q" "same_queues j q" "ib_nextID q = ib_nextID r"
    using apply_splice_same [OF j(1) r(2)] by blast
  let ?ms = "ib_nextStep q @ ib_quiet q @ ib_nextTurn q"
  have ms: "mset ?ms = mset (PendingMessages i2)" "set ?ms = set (PendingMessages i2)"
    using j(2) q(2) by (auto simp: same_queues_def PendingMessages_def)
  have "\<exists>n'. count_ids [] (ib_nextID q) ?ms = Inr n' \<and> ib_nextID q \<le> n' \<and> n' \<le> max (ib_nextID q) (ib_nextID i2) \<and>
      (\<forall>m \<in> set ?ms. issued n' (ms_ID m))"
  proof (rule count_ids_ok)
    show "distinct (map ms_ID ?ms)"
      by (rule distinct_map_mset [of _ "PendingMessages i2"]) (use ms(1) dist in auto)
    show "ib_nextID i2 < 2 ^ 64" using n(2) by simp
  qed (use pend ms(2) in auto)
  then obtain n' where n': "count_ids [] (ib_nextID q) ?ms = Inr n'" "ib_nextID q \<le> n'"
    "n' \<le> max (ib_nextID q) (ib_nextID i2)" "\<forall>m \<in> set ?ms. issued n' (ms_ID m)" by blast
  then have "apply_event r ev = Inr (q\<lparr>ib_nextID := n'\<rparr>)" using q(1) by (simp add: apply_event_def)
  note r' = replay_snoc [OF r(1) this]
  have "issued n' (ms_ID m)" if "m \<in> set cl2" for m
  proof -
    have "issued (ib_nextID r) (ms_ID m)" using d cl that by (auto simp: durable_by_def)
    then show ?thesis by (rule issued_mono) (use n'(2) q(3) in simp)
  qed
  moreover have "n' \<le> ib_nextID i2" using n'(3) q(3) r(3) n(1) by simp
  ultimately have "durable_by cl2 i2 (es @ [ev]) (q\<lparr>ib_nextID := n', ib_journal := Some (es @ [ev])\<rparr>)"
    using r' j(2) q(2) ok n'(4) ms(2) dist jn by (auto simp: durable_by_def same_queues_def)
  then show ?thesis unfolding durable_def by blast
qed

section \<open>Splices of the live operations\<close>

lemma issued_length:
  assumes "\<forall>m \<in> set ms. issued n (ms_ID m)" and "distinct (map ms_ID ms)"
  shows "length ms \<le> n"
proof -
  have "set (map ms_ID ms) \<subseteq> formatMessageID ` {1..n}" using assms(1) by (auto simp: issued_def)
  then have "card (set (map ms_ID ms)) \<le> card {1..n}" by (meson card_image_le card_mono finite_atLeastAtMost finite_imageI le_trans)
  then show ?thesis using distinct_card [OF assms(2)] by simp
qed

lemma durable_small:
  assumes "durable_by cl i es r"
  shows "length (ib_nextStep i @ ib_quiet i) \<le> ib_nextID i" "length (ib_nextTurn i) \<le> ib_nextID i"
proof -
  have "length (PendingMessages i) \<le> ib_nextID r"
    using assms by (intro issued_length) (simp_all add: durable_by_def)
  then show "length (ib_nextStep i @ ib_quiet i) \<le> ib_nextID i" "length (ib_nextTurn i) \<le> ib_nextID i"
    using assms by (simp_all add: durable_by_def PendingMessages_def)
qed

lemma splice_at_in_bounds:
  assumes "ie_Start ev = int s" and "ie_RemovedCount ev = int c" and "s + c \<le> length ms" and "length ms < 2 ^ 63"
  shows "splice_at err ev ms = Inr (take s ms @ ie_Inserted ev @ drop (s + c) ms)"
proof -
  have "add_int64 (int s) (int c) = int (s + c)" using assms(3,4) by (simp add: add_int64_def)
  with assms show ?thesis by (simp add: splice_at_def Let_def nat_int_add)
qed

lemma filter_kinds:
  assumes "queues_ok i"
  shows "set xs \<subseteq> set (ib_nextStep i) \<Longrightarrow> filter (\<lambda>m. ms_Kind m \<noteq> MessageInjection) xs = xs"
    and "set xs \<subseteq> set (ib_nextStep i) \<Longrightarrow> filter (\<lambda>m. ms_Kind m = MessageInjection) xs = []"
    and "set xs \<subseteq> set (ib_quiet i) \<Longrightarrow> filter (\<lambda>m. ms_Kind m \<noteq> MessageInjection) xs = []"
    and "set xs \<subseteq> set (ib_quiet i) \<Longrightarrow> filter (\<lambda>m. ms_Kind m = MessageInjection) xs = xs"
  using assms by (auto simp: queues_ok_def filter_id_conv filter_empty_conv)

text \<open>Removing without inserting: the first case of the next-step target takes from the head of both queues.\<close>

lemma apply_splice_remove:
  assumes "queues_ok i" and "length (ib_nextStep i @ ib_quiet i) < 2 ^ 63" and "length (ib_nextTurn i) < 2 ^ 63"
    and "ie_Inserted ev = []" and "ie_Start ev = int s" and "ie_RemovedCount ev = int c"
  shows "ie_Target ev = ''next-step'' \<Longrightarrow> s = 0 \<Longrightarrow> c = length (ib_nextStep i) + length (ib_quiet i) \<Longrightarrow>
      apply_splice i ev = Inr (i\<lparr>ib_nextStep := [], ib_quiet := []\<rparr>)"
    and "ie_Target ev = ''next-step'' \<Longrightarrow> c = 1 \<Longrightarrow> s < length (ib_nextStep i) \<Longrightarrow>
      apply_splice i ev = Inr (i\<lparr>ib_nextStep := remove_at s (ib_nextStep i)\<rparr>)"
    and "ie_Target ev = ''next-step'' \<Longrightarrow> c = 1 \<Longrightarrow> s = length (ib_nextStep i) + n \<Longrightarrow> n < length (ib_quiet i) \<Longrightarrow>
      apply_splice i ev = Inr (i\<lparr>ib_quiet := remove_at n (ib_quiet i)\<rparr>)"
    and "ie_Target ev = ''next-turn'' \<Longrightarrow> s + c \<le> length (ib_nextTurn i) \<Longrightarrow>
      apply_splice i ev = Inr (i\<lparr>ib_nextTurn := take s (ib_nextTurn i) @ drop (s + c) (ib_nextTurn i)\<rparr>)"
proof -
  note k = filter_kinds [OF assms(1)]
  have turn: "splice_at e ev (ib_nextTurn i) = Inr (take s (ib_nextTurn i) @ drop (s + c) (ib_nextTurn i))"
    if "s + c \<le> length (ib_nextTurn i)" for e
    using splice_at_in_bounds [OF assms(5,6) that assms(3)] assms(4) by simp
  have step: "splice_at e ev (ib_nextStep i @ ib_quiet i) =
      Inr (take s (ib_nextStep i @ ib_quiet i) @ drop (s + c) (ib_nextStep i @ ib_quiet i))"
    if "s + c \<le> length (ib_nextStep i @ ib_quiet i)" for e
    using splice_at_in_bounds [OF assms(5,6) that assms(2)] assms(4) by simp
  show "apply_splice i ev = Inr (i\<lparr>ib_nextStep := [], ib_quiet := []\<rparr>)"
    if "ie_Target ev = ''next-step''" "s = 0" "c = length (ib_nextStep i) + length (ib_quiet i)"
    using that step assms(4,5,6) by (simp add: apply_splice_def)
  show "apply_splice i ev = Inr (i\<lparr>ib_nextStep := remove_at s (ib_nextStep i)\<rparr>)"
    if "ie_Target ev = ''next-step''" "c = 1" "s < length (ib_nextStep i)"
    using that step assms(4,5,6) k
    by (simp add: apply_splice_def remove_at_def set_take_subset set_drop_subset)
  show "apply_splice i ev = Inr (i\<lparr>ib_quiet := remove_at n (ib_quiet i)\<rparr>)"
    if "ie_Target ev = ''next-step''" "c = 1" "s = length (ib_nextStep i) + n" "n < length (ib_quiet i)"
    using that step assms(4,5,6) k
    by (simp add: apply_splice_def remove_at_def set_take_subset set_drop_subset)
  show "apply_splice i ev = Inr (i\<lparr>ib_nextTurn := take s (ib_nextTurn i) @ drop (s + c) (ib_nextTurn i)\<rparr>)"
    if "ie_Target ev = ''next-turn''" "s + c \<le> length (ib_nextTurn i)"
    using that turn assms(4,5,6) by (simp add: apply_splice_def)
qed

text \<open>An operation that commits a removal and takes messages out of the queues.\<close>

lemma durable_removal:
  assumes d: "durable_by cl i es r" and small: "ib_nextID i < 2 ^ 63"
    and j: "apply_splice i ev = Inr j" "same_queues i2 j"
    and jn: "ib_journal i2 = Some (es @ [ev])" and ok: "queues_ok i2" and n: "ib_nextID i2 = ib_nextID i"
    and sub: "mset (cl2 @ PendingMessages i2) \<subseteq># mset (cl @ PendingMessages i)"
  shows "durable cl2 i2"
proof (rule durable_commit [OF d j jn ok])
  have sub': "set (cl2 @ PendingMessages i2) \<subseteq> set (cl @ PendingMessages i)"
    using set_mset_mono [OF sub] by (simp only: set_mset_mset)
  then show "set cl2 \<subseteq> set cl \<union> set (PendingMessages i)" by simp
  show "distinct (map ms_ID (cl2 @ PendingMessages i2))"
    by (rule distinct_map_mset [OF sub]) (use d in \<open>simp add: durable_by_def\<close>)
  fix m assume "m \<in> set (PendingMessages i2)"
  then have "m \<in> set (cl @ PendingMessages i)" using sub' by auto
  then have "issued (ib_nextID r) (ms_ID m)" using d unfolding durable_by_def by blast
  then show "issued (ib_nextID i2) (ms_ID m)" by (rule issued_mono) (use d n in \<open>simp add: durable_by_def\<close>)
qed (use n small in simp_all)

lemma commit_Inr:
  assumes "commit ok i ev = Inr i1" and "ib_journal i = Some es"
  shows "i1 = i\<lparr>ib_journal := Some (es @ [ev])\<rparr> \<and> ok ev"
  using assms by (auto simp: commit_def split: if_splits)

section \<open>Every operation keeps the journal and the queues together\<close>

lemma durable_same:
  assumes "durable cl i" and "ib_nextStep i' = ib_nextStep i" and "ib_nextTurn i' = ib_nextTurn i"
    and "ib_quiet i' = ib_quiet i" and "ib_journal i' = ib_journal i" and "ib_nextID i \<le> ib_nextID i'"
  shows "durable cl i'"
proof -
  from assms(1) obtain es r where "durable_by cl i es r" by (auto simp: durable_def)
  moreover have "PendingMessages i' = PendingMessages i" "queues_ok i' = queues_ok i" "same_queues i' r = same_queues i r"
    using assms(2-4) by (simp_all add: same_queues_def queues_ok_def PendingMessages_def)
  ultimately have "durable_by cl i' es r"
    using assms(5,6) unfolding durable_by_def by simp
  then show ?thesis unfolding durable_def by blast
qed

lemma durable_put:
  assumes "durable cl i" and "ib_nextID i + 1 < 2 ^ 63" and "\<forall>s. kind \<noteq> OtherKind s"
  shows "durable cl (snd (putContent ok kind text content metadata wakes i)) \<and>
    ib_nextID (snd (putContent ok kind text content metadata wakes i)) \<le> ib_nextID i + 1"
proof -
  from assms(1) obtain es r where d: "durable_by cl i es r" by (auto simp: durable_def)
  let ?n = "Suc (ib_nextID i)"
  let ?i = "i\<lparr>ib_nextID := ?n\<rparr>"
  let ?m = "\<lparr>ms_ID = formatMessageID ?n, ms_Text = text, ms_Content = content, ms_Kind = kind, ms_Metadata = metadata\<rparr>"
  let ?ev = "splice\<lparr>ie_Target := inboxTarget kind, ie_Start := int (length (queue i (inboxTarget kind))),
      ie_Inserted := [?m]\<rparr>"
  have inc: "uint64_inc (ib_nextID i) = ?n" using assms(2) by (simp add: uint64_inc_def)
  have same: "durable cl ?i" by (rule durable_same [OF assms(1)]) simp_all
  have q: "queue ?i t = queue i t" for t by (simp add: queue_def)
  show ?thesis
  proof (cases "(text = [] \<and> content = []) \<or> ib_closed i \<or> (messageDedupeKey metadata \<noteq> [] \<and>
      List.find (\<lambda>m. messageDedupeKey (ms_Metadata m) = messageDedupeKey metadata)
        (ib_nextStep i @ ib_nextTurn i @ ib_quiet i) \<noteq> None)")
    case True
    then have "snd (putContent ok kind text content metadata wakes i) = i"
      by (auto simp: putContent_def Let_def)
    with assms(1) show ?thesis by simp
  next
    case False
    then have put: "putContent ok kind text content metadata wakes i =
        (case commit ok ?i ?ev of Inl e \<Rightarrow> (Inl e, ?i) | Inr i \<Rightarrow> enqueue kind ?m wakes i)"
      by (auto simp: putContent_def Let_def inc q cong: sum.case_cong)
    show ?thesis
    proof (cases "commit ok ?i ?ev")
      case (Inl e)
      with put same show ?thesis by simp
    next
      case (Inr i1)
      have i1: "i1 = ?i\<lparr>ib_journal := Some (es @ [?ev])\<rparr>"
        using commit_Inr [OF Inr, of es] d by (simp add: durable_by_def)
      let ?i2 = "snd (enqueue kind ?m wakes i1)"
      have ne: "\<not> (text = [] \<and> content = [])" using False by simp
      have qok: "queues_ok i" using d by (simp add: durable_by_def)
      note k = filter_kinds [OF qok]
      have small: "length (ib_nextStep i @ ib_quiet i) < 2 ^ 63" "length (ib_nextTurn i) < 2 ^ 63"
        using durable_small [OF d] assms(2) by simp_all
      have id_ne: "formatMessageID ?n \<noteq> []" by (simp add: formatMessageID_def)
      have turn: "splice_at e ?ev (ib_nextTurn i) = Inr (ib_nextTurn i @ [?m])" if "kind = MessageNextTurn" for e
        using splice_at_in_bounds [of ?ev "length (ib_nextTurn i)" 0 "ib_nextTurn i" e] that small(2)
        by (simp add: splice_def inboxTarget_def queue_def)
      have step: "splice_at e ?ev (ib_nextStep i @ ib_quiet i) = Inr (ib_nextStep i @ ib_quiet i @ [?m])"
        if "kind \<noteq> MessageNextTurn" for e
        using splice_at_in_bounds [of ?ev "length (ib_nextStep i @ ib_quiet i)" 0 "ib_nextStep i @ ib_quiet i" e] that small(1)
        by (simp add: splice_def inboxTarget_def queue_def)
      obtain j where j: "apply_splice i ?ev = Inr j" "same_queues ?i2 j"
      proof (cases kind)
        case MessageNextTurn
        then have a: "apply_splice i ?ev = Inr (i\<lparr>ib_nextTurn := ib_nextTurn i @ [?m]\<rparr>)"
          using turn ne id_ne by (simp add: apply_splice_def) (simp add: splice_def inboxTarget_def)
        with MessageNextTurn show ?thesis
          by (intro that [OF a]) (simp_all add: same_queues_def enqueue_def Let_def i1)
      next
        case MessageInjection
        then have a: "apply_splice i ?ev = Inr (i\<lparr>ib_quiet := ib_quiet i @ [?m]\<rparr>)"
          using step ne id_ne k by (simp add: apply_splice_def) (simp add: splice_def inboxTarget_def)
        with MessageInjection show ?thesis
          by (intro that [OF a]) (simp_all add: same_queues_def enqueue_def Let_def i1)
      next
        case MessageNextStep
        then have a: "apply_splice i ?ev = Inr (i\<lparr>ib_nextStep := ib_nextStep i @ [?m]\<rparr>)"
          using step ne id_ne k by (simp add: apply_splice_def) (simp add: splice_def inboxTarget_def)
        with MessageNextStep show ?thesis
          by (intro that [OF a]) (simp_all add: same_queues_def enqueue_def Let_def i1)
      next
        case MessageSteering
        then have a: "apply_splice i ?ev = Inr (i\<lparr>ib_nextStep := ib_nextStep i @ [?m]\<rparr>)"
          using step ne id_ne k by (simp add: apply_splice_def) (simp add: splice_def inboxTarget_def)
        with MessageSteering show ?thesis
          by (intro that [OF a]) (simp_all add: same_queues_def enqueue_def Let_def i1)
      qed (use assms(3) in simp)
      have i2: "ib_journal ?i2 = Some (es @ [?ev])" "ib_nextID ?i2 = ?n" "queues_ok ?i2"
        "mset (PendingMessages ?i2) = add_mset ?m (mset (PendingMessages i))"
        using qok assms(3)
        by (cases kind; simp add: enqueue_def Let_def i1 queues_ok_def PendingMessages_def)+
      have set2: "set (PendingMessages ?i2) = insert ?m (set (PendingMessages i))"
        using arg_cong [OF i2(4), of set_mset] by simp
      have old: "issued (ib_nextID i) (ms_ID m)" if "m \<in> set (cl @ PendingMessages i)" for m
        using d that issued_mono unfolding durable_by_def by blast
      have "durable cl ?i2"
      proof (rule durable_commit [OF d j i2(1,3)])
        have perm: "mset (cl @ PendingMessages ?i2) = mset (?m # cl @ PendingMessages i)" using i2(4) by simp
        have "formatMessageID ?n \<notin> ms_ID ` set (cl @ PendingMessages i)"
        proof
          assume "formatMessageID ?n \<in> ms_ID ` set (cl @ PendingMessages i)"
          then obtain m where "m \<in> set (cl @ PendingMessages i)" "ms_ID m = formatMessageID ?n" by (metis imageE)
          with old not_issued_next [of "ib_nextID i"] show False by metis
        qed
        then have "distinct (map ms_ID (?m # cl @ PendingMessages i))"
          using d by (auto simp: durable_by_def)
        then show "distinct (map ms_ID (cl @ PendingMessages ?i2))"
          by (rule distinct_map_mset [rotated]) (simp only: perm subset_mset.order_refl)
      next
        fix m assume "m \<in> set (PendingMessages ?i2)"
        then consider "m = ?m" | "m \<in> set (PendingMessages i)" using set2 by blast
        then show "issued (ib_nextID ?i2) (ms_ID m)"
        proof cases
          case 1
          then show ?thesis using i2(2) by (auto simp: issued_def)
        next
          case 2
          then show ?thesis using old [of m] issued_mono [of "ib_nextID i" _ ?n] i2(2) by simp
        qed
      qed (use i2(2) assms(2) in simp_all)
      with put Inr i2(2) show ?thesis by simp
    qed
  qed
qed

lemma durable_clear_step:
  assumes "durable_by cl i es r" and "ib_nextID i < 2 ^ 63"
    and "ie_Target ev = ''next-step''" and "ie_Inserted ev = []" and "ie_Start ev = 0"
    and "ie_RemovedCount ev = int (length (ib_nextStep i) + length (ib_quiet i))"
    and "mset cl2 \<subseteq># mset cl + mset (ib_nextStep i) + mset (ib_quiet i)"
  shows "durable cl2 (i\<lparr>ib_journal := Some (es @ [ev]), ib_nextStep := [], ib_quiet := []\<rparr>)"
proof -
  have qok: "queues_ok i" using assms(1) by (simp add: durable_by_def)
  have small: "length (ib_nextStep i @ ib_quiet i) < 2 ^ 63" "length (ib_nextTurn i) < 2 ^ 63"
    using durable_small [OF assms(1)] assms(2) by simp_all
  have j: "apply_splice i ev = Inr (i\<lparr>ib_nextStep := [], ib_quiet := []\<rparr>)"
    by (rule apply_splice_remove(1) [OF qok small assms(4), of 0]) (use assms in simp_all)
  have sub: "mset (cl2 @ ib_nextTurn i) \<subseteq># mset (cl @ PendingMessages i)"
    using subset_mset.add_right_mono [OF assms(7), of "mset (ib_nextTurn i)"]
    by (simp add: PendingMessages_def ac_simps)
  show ?thesis
    by (rule durable_removal [OF assms(1,2) j])
      (use qok sub in \<open>simp_all add: same_queues_def queues_ok_def PendingMessages_def\<close>)
qed

lemma durable_take_turn:
  assumes "durable_by cl i es r" and "ib_nextID i < 2 ^ 63"
    and "ie_Target ev = ''next-turn''" and "ie_Inserted ev = []" and "ie_Start ev = int s"
    and "ie_RemovedCount ev = int c" and "s + c \<le> length (ib_nextTurn i)"
    and "mset cl2 \<subseteq># mset cl + mset (take c (drop s (ib_nextTurn i)))"
  shows "durable cl2 (i\<lparr>ib_journal := Some (es @ [ev]),
    ib_nextTurn := take s (ib_nextTurn i) @ drop (s + c) (ib_nextTurn i)\<rparr>)"
proof -
  have qok: "queues_ok i" using assms(1) by (simp add: durable_by_def)
  have small: "length (ib_nextStep i @ ib_quiet i) < 2 ^ 63" "length (ib_nextTurn i) < 2 ^ 63"
    using durable_small [OF assms(1)] assms(2) by simp_all
  note j = apply_splice_remove(4) [OF qok small assms(4-6,3,7)]
  have split: "ib_nextTurn i = take s (ib_nextTurn i) @ take c (drop s (ib_nextTurn i)) @ drop (s + c) (ib_nextTurn i)"
    by (metis append_take_drop_id drop_drop add.commute)
  have "mset (cl2 @ ib_nextStep i @ (take s (ib_nextTurn i) @ drop (s + c) (ib_nextTurn i)) @ ib_quiet i)
      \<subseteq># mset cl + mset (take c (drop s (ib_nextTurn i))) +
        mset (ib_nextStep i @ (take s (ib_nextTurn i) @ drop (s + c) (ib_nextTurn i)) @ ib_quiet i)"
    unfolding mset_append [of cl2] by (rule subset_mset.add_right_mono [OF assms(8)])
  also have "\<dots> = mset (cl @ ib_nextStep i @
      (take s (ib_nextTurn i) @ take c (drop s (ib_nextTurn i)) @ drop (s + c) (ib_nextTurn i)) @ ib_quiet i)"
    by (simp add: ac_simps)
  also have "\<dots> = mset (cl @ PendingMessages i)" unfolding split [symmetric] PendingMessages_def ..
  finally have sub: "mset (cl2 @ PendingMessages (i\<lparr>ib_journal := Some (es @ [ev]),
      ib_nextTurn := take s (ib_nextTurn i) @ drop (s + c) (ib_nextTurn i)\<rparr>)) \<subseteq># mset (cl @ PendingMessages i)"
    by (simp add: PendingMessages_def)
  show ?thesis
    by (rule durable_removal [OF assms(1,2) j _ _ _ _ sub]) (use qok in \<open>simp_all add: same_queues_def queues_ok_def\<close>)
qed

lemma durable_claim_step:
  assumes "durable cl i" and "ib_nextID i < 2 ^ 63"
  shows "durable (cl @ claimed_of (fst (ClaimStepWithError ok turn i))) (snd (ClaimStepWithError ok turn i)) \<and>
    ib_nextID (snd (ClaimStepWithError ok turn i)) = ib_nextID i"
proof -
  from assms(1) obtain es r where d: "durable_by cl i es r" by (auto simp: durable_def)
  let ?ev = "splice\<lparr>ie_Target := ''next-step'', ie_RemovedCount := int (length (ib_nextStep i) + length (ib_quiet i)), ie_Turn := turn\<rparr>"
  show ?thesis
  proof (cases "ib_nextStep i = [] \<and> ib_quiet i = []")
    case True
    with assms(1) show ?thesis by (simp add: ClaimStepWithError_def claimed_of_def)
  next
    case False
    have c: "ClaimStepWithError ok turn i = (case commit ok i ?ev of Inl e \<Rightarrow> (Inl e, i)
        | Inr i \<Rightarrow> (Inr (Some (ib_nextStep i @ ib_quiet i)), i\<lparr>ib_nextStep := [], ib_quiet := []\<rparr>))"
      using False unfolding ClaimStepWithError_def by (rule if_not_P)
    show ?thesis
    proof (cases "commit ok i ?ev")
      case (Inl e)
      with c assms(1) show ?thesis by (simp add: claimed_of_def)
    next
      case (Inr i1)
      have i1: "i1 = i\<lparr>ib_journal := Some (es @ [?ev])\<rparr>" "ok ?ev"
        using commit_Inr [OF Inr, of es] d by (simp_all add: durable_by_def)
      have "durable (cl @ ib_nextStep i @ ib_quiet i) (i\<lparr>ib_journal := Some (es @ [?ev]), ib_nextStep := [], ib_quiet := []\<rparr>)"
        by (rule durable_clear_step [OF d assms(2)]) (simp_all add: splice_def)
      with c Inr i1(1) show ?thesis by (simp add: claimed_of_def)
    qed
  qed
qed

lemma durable_two:
  assumes d: "durable cl i" and small: "ib_nextID i < 2 ^ 63" and un: "unsplit ok"
    and a: "ie_Target a = ''next-step''" "ie_Inserted a = []" "ie_Start a = 0"
      "ie_RemovedCount a = int (length (ib_nextStep i) + length (ib_quiet i))"
    and b: "ie_Target b = ''next-turn''" "ie_Inserted b = []" "ie_Start b = 0" "ie_RemovedCount b = int c"
    and p: "p \<longleftrightarrow> 0 < length (ib_nextStep i) + length (ib_quiet i)" and q: "q \<longleftrightarrow> ib_nextTurn i \<noteq> []"
    and c: "q \<Longrightarrow> c \<le> length (ib_nextTurn i)"
    and cl: "mset cl2 \<subseteq># mset cl + mset (ib_nextStep i) + mset (ib_quiet i) + mset (take c (ib_nextTurn i))"
    and r: "commit_two ok p a q b i = (e, i2)"
  shows "(e \<noteq> None \<longrightarrow> i2 = i) \<and> ib_nextID i2 = ib_nextID i \<and> (e = None \<longrightarrow>
    durable cl2 (i2\<lparr>ib_nextStep := [], ib_nextTurn := drop c (ib_nextTurn i2), ib_quiet := []\<rparr>))"
proof -
  from d obtain es r where d: "durable_by cl i es r" by (auto simp: durable_def)
  then have j: "ib_journal i = Some es" by (simp add: durable_by_def)
  show ?thesis
  proof (cases p)
    case False
    then have empty: "ib_nextStep i = []" "ib_quiet i = []" using p by simp_all
    show ?thesis
    proof (cases "q \<and> ok b")
      case True
      then have "i2 = i\<lparr>ib_journal := Some (es @ [b])\<rparr>" "e = None" using r False j by (simp_all add: commit_two_def commit_def)
      moreover have "durable cl2 (i\<lparr>ib_journal := Some (es @ [b]),
          ib_nextTurn := take 0 (ib_nextTurn i) @ drop (0 + c) (ib_nextTurn i)\<rparr>)"
        by (rule durable_take_turn [OF d small b(1,2) _ b(4)]) (use True b(3) c cl empty in simp_all)
      ultimately show ?thesis using empty durable_same [of cl2] by (auto elim: durable_same)
    next
      case f: False
      show ?thesis
      proof (cases q)
        case True
        then show ?thesis using r False f j by (auto simp: commit_two_def commit_def)
      next
        case nq: False
        have i2: "i2 = i" "e = None" using nq r False by (simp_all add: commit_two_def)
        have "durable_by cl2 i es r"
        proof -
          have "mset cl2 \<subseteq># mset cl" using cl empty nq q by simp
          then have sub: "mset (cl2 @ PendingMessages i) \<subseteq># mset (cl @ PendingMessages i)" by simp
          then have "set (cl2 @ PendingMessages i) \<subseteq> set (cl @ PendingMessages i)"
            using set_mset_mono by (metis set_mset_mset)
          moreover have "distinct (map ms_ID (cl2 @ PendingMessages i))"
            by (rule distinct_map_mset [OF sub]) (use d in \<open>simp add: durable_by_def\<close>)
          ultimately show ?thesis using d unfolding durable_by_def by blast
        qed
        then have "durable cl2 i" unfolding durable_def by blast
        then show ?thesis using i2 empty nq q by (auto elim: durable_same)
      qed
    qed
  next
    case True
    show ?thesis
    proof (cases "ok a")
      case False
      then show ?thesis using r True j by (auto simp: commit_two_def commit_def)
    next
      case oka: True
      then have okb: "ok b" using un a(1) b(1) by (simp add: unsplit_def)
      let ?mid = "i\<lparr>ib_journal := Some (es @ [a]), ib_nextStep := [], ib_quiet := []\<rparr>"
      let ?cl = "cl @ ib_nextStep i @ ib_quiet i"
      show ?thesis
      proof (cases q)
        case nq: False
        then have "i2 = i\<lparr>ib_journal := Some (es @ [a])\<rparr>" "e = None" using r True oka j
          by (simp_all add: commit_two_def commit_def)
        moreover have "durable cl2 ?mid"
          by (rule durable_clear_step [OF d small a]) (use cl nq q in simp)
        ultimately show ?thesis using nq q by (auto elim: durable_same)
      next
        case qq: True
        then have i2: "i2 = i\<lparr>ib_journal := Some (es @ [a, b])\<rparr>" "e = None" using r True oka okb j
          by (simp_all add: commit_two_def commit_def)
        have "durable ?cl ?mid" by (rule durable_clear_step [OF d small a]) simp
        then obtain es' r' where mid: "durable_by ?cl ?mid es' r'" by (auto simp: durable_def)
        then have es': "es' = es @ [a]" by (simp add: durable_by_def)
        have "durable cl2 (?mid\<lparr>ib_journal := Some (es' @ [b]),
            ib_nextTurn := take 0 (ib_nextTurn ?mid) @ drop (0 + c) (ib_nextTurn ?mid)\<rparr>)"
          by (rule durable_take_turn [OF mid _ b(1,2) _ b(4)]) (use small b(3) c qq cl in \<open>simp_all add: ac_simps\<close>)
        then show ?thesis using i2 es' by (auto elim: durable_same)
      qed
    qed
  qed
qed

lemma durable_claim:
  assumes "durable cl i" and "ib_nextID i < 2 ^ 63" and "unsplit ok"
  shows "durable (cl @ claimed_of (fst (ClaimWithError ok turn i))) (snd (ClaimWithError ok turn i)) \<and>
    ib_nextID (snd (ClaimWithError ok turn i)) = ib_nextID i"
proof (cases "ib_nextStep i = [] \<and> ib_nextTurn i = []")
  case True
  with assms(1) show ?thesis by (simp add: ClaimWithError_def claimed_of_def)
next
  case False
  let ?a = "splice\<lparr>ie_Target := ''next-step'', ie_RemovedCount := int (length (ib_nextStep i) + length (ib_quiet i)), ie_Turn := turn\<rparr>"
  let ?b = "splice\<lparr>ie_Target := ''next-turn'', ie_RemovedCount := 1, ie_Turn := turn\<rparr>"
  let ?two = "commit_two ok (0 < length (ib_nextStep i) + length (ib_quiet i)) ?a (ib_nextTurn i \<noteq> []) ?b i"
  let ?ms = "ib_nextStep i @ take 1 (ib_nextTurn i) @ ib_quiet i"
  obtain e i2 where two: "?two = (e, i2)" by (cases ?two)
  have c: "ClaimWithError ok turn i = (case ?two of (Some e, i) \<Rightarrow> (Inl e, i) | (None, i) \<Rightarrow>
      (Inr (Some ?ms), i\<lparr>ib_nextStep := [], ib_nextTurn := drop 1 (ib_nextTurn i), ib_quiet := []\<rparr>))"
    using False unfolding ClaimWithError_def Let_def by (rule if_not_P)
  have "(e \<noteq> None \<longrightarrow> i2 = i) \<and> ib_nextID i2 = ib_nextID i \<and> (e = None \<longrightarrow>
      durable (cl @ ?ms) (i2\<lparr>ib_nextStep := [], ib_nextTurn := drop 1 (ib_nextTurn i2), ib_quiet := []\<rparr>))"
    by (rule durable_two [OF assms _ _ _ _ _ _ _ _ _ _ _ _ two])
      (simp_all add: splice_def ac_simps Suc_le_eq)
  with c two assms(1) show ?thesis by (cases e) (simp_all add: claimed_of_def)
qed

lemma durable_clear:
  assumes "durable cl i" and "ib_nextID i < 2 ^ 63" and "unsplit ok"
  shows "durable cl (snd (ClearWithError ok i)) \<and> ib_nextID (snd (ClearWithError ok i)) = ib_nextID i"
proof -
  let ?n = "length (ib_nextStep i) + length (ib_quiet i)"
  let ?a = "canceled ''next-step'' 0 ?n"
  let ?b = "canceled ''next-turn'' 0 (length (ib_nextTurn i))"
  let ?two = "commit_two ok (0 < ?n) ?a (ib_nextTurn i \<noteq> []) ?b i"
  obtain e i2 where two: "?two = (e, i2)" by (cases ?two)
  have "(e \<noteq> None \<longrightarrow> i2 = i) \<and> ib_nextID i2 = ib_nextID i \<and> (e = None \<longrightarrow>
      durable cl (i2\<lparr>ib_nextStep := [], ib_nextTurn := drop (length (ib_nextTurn i)) (ib_nextTurn i2), ib_quiet := []\<rparr>))"
    by (rule durable_two [OF assms _ _ _ _ _ _ _ _ _ _ _ _ two]) (simp_all add: splice_def canceled_def ac_simps)
  moreover have "ib_nextTurn i2 = ib_nextTurn i"
    using two by (auto simp: commit_two_def commit_def split: sum.splits option.splits if_splits)
  ultimately show ?thesis using two assms(1) by (cases e) (simp_all add: ClearWithError_def Let_def)
qed

lemma index_of_less: "index_of x ms = Some n \<Longrightarrow> n < length ms"
  by (induction x ms arbitrary: n rule: index_of.induct) (auto split: if_splits)

lemma mset_remove_at:
  assumes "n < length ms"
  shows "mset (remove_at n ms) \<subseteq># mset ms"
proof -
  have "mset ms = mset (take n ms @ ms ! n # drop (Suc n) ms)" using id_take_nth_drop [OF assms] by simp
  then show ?thesis by (simp add: remove_at_def)
qed

lemma set_remove_at: "set (remove_at n ms) \<subseteq> set ms"
  by (auto simp: remove_at_def dest: in_set_takeD in_set_dropD)

lemma durable_remove:
  assumes d': "durable cl i" and small: "ib_nextID i < 2 ^ 63"
  shows "durable cl (snd (RemoveWithError ok x i)) \<and> ib_nextID (snd (RemoveWithError ok x i)) = ib_nextID i"
proof -
  from d' obtain es r where d: "durable_by cl i es r" by (auto simp: durable_def)
  have j: "ib_journal i = Some es" and qok: "queues_ok i" using d by (simp_all add: durable_by_def)
  have len: "length (ib_nextStep i @ ib_quiet i) < 2 ^ 63" "length (ib_nextTurn i) < 2 ^ 63"
    using durable_small [OF d] small by simp_all
  note rem = apply_splice_remove [OF qok len]
  consider (none) "x = [] \<or> index_of x (ib_nextStep i) = None \<and> index_of x (ib_nextTurn i) = None \<and> index_of x (ib_quiet i) = None"
    | (step) n where "x \<noteq> []" "index_of x (ib_nextStep i) = Some n"
    | (turn) n where "x \<noteq> []" "index_of x (ib_nextStep i) = None" "index_of x (ib_nextTurn i) = Some n"
    | (quiet) n where "x \<noteq> []" "index_of x (ib_nextStep i) = None" "index_of x (ib_nextTurn i) = None"
        "index_of x (ib_quiet i) = Some n"
    by (metis not_None_eq)
  then show ?thesis
  proof cases
    case none
    then show ?thesis using d' by (auto simp: RemoveWithError_def)
  next
    case step
    let ?ev = "canceled ''next-step'' n 1" and ?i2 = "i\<lparr>ib_journal := Some (es @ [canceled ''next-step'' n 1]),
      ib_nextStep := remove_at n (ib_nextStep i)\<rparr>"
    have n: "n < length (ib_nextStep i)" using index_of_less step(2) by blast
    have a: "apply_splice i ?ev = Inr (i\<lparr>ib_nextStep := remove_at n (ib_nextStep i)\<rparr>)"
      by (rule rem(2) [of _ n 1]) (use n in \<open>simp_all add: canceled_def splice_def\<close>)
    have "durable cl ?i2"
      by (rule durable_removal [OF d small a])
        (use qok set_remove_at [of n "ib_nextStep i"] mset_remove_at [OF n] in
          \<open>auto simp: same_queues_def queues_ok_def PendingMessages_def\<close>)
    with step d' j show ?thesis by (simp add: RemoveWithError_def commit_def)
  next
    case turn
    let ?ev = "canceled ''next-turn'' n 1" and ?i2 = "i\<lparr>ib_journal := Some (es @ [canceled ''next-turn'' n 1]),
      ib_nextTurn := remove_at n (ib_nextTurn i)\<rparr>"
    have n: "n < length (ib_nextTurn i)" using index_of_less turn(3) by blast
    have a: "apply_splice i ?ev = Inr (i\<lparr>ib_nextTurn := remove_at n (ib_nextTurn i)\<rparr>)"
      unfolding remove_at_def by (rule rem(4)) (use n in \<open>simp_all add: canceled_def splice_def\<close>)
    have "durable cl ?i2"
      by (rule durable_removal [OF d small a])
        (use qok mset_remove_at [OF n] in \<open>auto simp: same_queues_def queues_ok_def PendingMessages_def\<close>)
    with turn d' j show ?thesis by (simp add: RemoveWithError_def commit_def)
  next
    case quiet
    let ?ev = "canceled ''next-step'' (length (ib_nextStep i) + n) 1"
      and ?i2 = "i\<lparr>ib_journal := Some (es @ [canceled ''next-step'' (length (ib_nextStep i) + n) 1]),
      ib_quiet := remove_at n (ib_quiet i)\<rparr>"
    have n: "n < length (ib_quiet i)" using index_of_less quiet(4) by blast
    have a: "apply_splice i ?ev = Inr (i\<lparr>ib_quiet := remove_at n (ib_quiet i)\<rparr>)"
      by (rule rem(3) [of _ "length (ib_nextStep i) + n" 1]) (use n in \<open>simp_all add: canceled_def splice_def\<close>)
    have "durable cl ?i2"
      by (rule durable_removal [OF d small a])
        (use qok set_remove_at [of n "ib_quiet i"] mset_remove_at [OF n] in
          \<open>auto simp: same_queues_def queues_ok_def PendingMessages_def\<close>)
    with quiet d' j show ?thesis by (simp add: RemoveWithError_def commit_def)
  qed
qed

lemma durable_restart:
  assumes "durable cl i" and "ib_journal i = Some es" and "NewDurableInbox es = Inr r"
  shows "durable cl r \<and> ib_nextID r \<le> ib_nextID i"
proof -
  from assms(1) obtain es' r' where d: "durable_by cl i es' r'" by (auto simp: durable_def)
  then have e: "es' = es" "r' = r" using assms(2,3) by (simp_all add: durable_by_def)
  have "PendingMessages r = PendingMessages i" "queues_ok r = queues_ok i" "same_queues r r"
    using d e by (simp_all add: durable_by_def same_queues_def queues_ok_def PendingMessages_def)
  then have "durable_by cl r es r"
    using d NewDurableInbox_journal [OF assms(3)] assms(3) unfolding durable_by_def e by simp
  then show ?thesis using d e unfolding durable_def durable_by_def by auto
qed

lemma durable_exec:
  assumes "durable cl i" and "ib_nextID i + 1 < 2 ^ 63" and "unsplit ok" and "exec ok op1 i = (ms, i')"
  shows "durable (cl @ ms) i' \<and> ib_nextID i' \<le> ib_nextID i + 1"
proof -
  have small: "ib_nextID i < 2 ^ 63" using assms(2) by simp
  note put = durable_put [OF assms(1,2)]
  show ?thesis
  proof (cases op1)
    case (OpClaim turn)
    then show ?thesis using assms(4) durable_claim [OF assms(1) small assms(3), of turn]
      by (cases "ClaimWithError ok turn i") simp
  next
    case (OpClaimStep turn)
    then show ?thesis using assms(4) durable_claim_step [OF assms(1) small, of ok turn]
      by (cases "ClaimStepWithError ok turn i") simp
  next
    case (OpRemove x)
    then show ?thesis using assms(4) durable_remove [OF assms(1) small, of ok x] by auto
  next
    case OpClear
    then show ?thesis using assms(4) durable_clear [OF assms(1) small assms(3)] by auto
  next
    case (OpWait c f)
    then show ?thesis using assms(1,4) by (auto simp: Wait_def elim: durable_same split: if_splits)
  next
    case OpClose
    then show ?thesis using assms(1,4) by (auto simp: Close_def elim: durable_same split: if_splits)
  next
    case OpRestart
    from assms(1) obtain es r where "ib_journal i = Some es" "NewDurableInbox es = Inr r"
      by (auto simp: durable_def durable_by_def)
    then show ?thesis using OpRestart assms(1,4) durable_restart [of cl i es r] by auto
  qed (use assms(4) put in
      \<open>auto simp: Send_def SendContent_def Steer_def SteerContent_def Followup_def FollowupContent_def
          Inject_def InjectContent_def put_message_def\<close>)
qed

lemma durable_run:
  assumes "durable cl i" and "ib_nextID i + length ops < 2 ^ 63" and "list_all (\<lambda>(ok, _). unsplit ok) ops"
    and "run ops i = (ms, i')"
  shows "durable (cl @ ms) i'"
  using assms
proof (induction ops arbitrary: cl i ms)
  case (Cons a ops)
  obtain ok op1 where a: "a = (ok, op1)" by (cases a)
  obtain ms1 i1 where e: "exec ok op1 i = (ms1, i1)" by (cases "exec ok op1 i")
  obtain ms2 where r: "run ops i1 = (ms2, i')" "ms = ms1 @ ms2"
    using Cons.prems(4) a e by (cases "run ops i1") simp
  have "durable (cl @ ms1) i1 \<and> ib_nextID i1 \<le> ib_nextID i + 1"
    by (rule durable_exec [OF Cons.prems(1) _ _ e]) (use Cons.prems(2,3) a in auto)
  then have "durable ((cl @ ms1) @ ms2) i'"
    by (intro Cons.IH [OF _ _ _ r(1)]) (use Cons.prems(2,3) in auto)
  with r(2) show ?case by simp
qed simp

lemma durable_fresh: "durable [] fresh_inbox"
  unfolding durable_def durable_by_def NewDurableInbox_def fresh_inbox_def
  by (simp add: NewInbox_def same_queues_def queues_ok_def PendingMessages_def)



definition sample_ops :: "((InboxEvent \<Rightarrow> bool) \<times> inbox_op) list" where
  "sample_ops =
     [(\<lambda>_. True, OpSend ''a'' []), (\<lambda>_. True, OpFollowup ''b'' []), (\<lambda>_. False, OpSend ''lost'' []),
      (\<lambda>_. True, OpInject ''c'' []), (\<lambda>_. True, OpRestart), (\<lambda>_. True, OpClaim 1)]"

lemma sample_ops_unsplit: "list_all (\<lambda>(ok, _). unsplit ok) sample_ops" "length sample_ops < 2 ^ 63"
  by (simp_all add: sample_ops_def unsplit_def)



section \<open>Claims\<close>

text \<open>
  Fact: a claim conserves messages: it takes all step and quiet work and one next-turn message, what it
  takes and what stays is what was pending, quiet context alone is never claimed, and a refused commit
  leaves the queues as they were.
\<close>

theorem claim_conserves:
  "case ClaimWithError ok turn i of
     (Inl e, i') \<Rightarrow> HasWork i \<and> same_queues i i'
   | (Inr None, i') \<Rightarrow> \<not> HasWork i \<and> i' = i
   | (Inr (Some ms), i') \<Rightarrow> HasWork i \<and> mset (PendingMessages i) = mset ms + mset (PendingMessages i') \<and>
       \<not> HasStepWork i' \<and> ib_nextTurn i' = tl (ib_nextTurn i) \<and>
       ms = ib_nextStep i @ take 1 (ib_nextTurn i) @ ib_quiet i"
proof (cases "HasWork i")
  case False
  then show ?thesis by (simp add: ClaimWithError_def HasWork_def)
next
  case True
  let ?a = "splice\<lparr>ie_Target := ''next-step'', ie_RemovedCount := int (length (ib_nextStep i) + length (ib_quiet i)), ie_Turn := turn\<rparr>"
  let ?b = "splice\<lparr>ie_Target := ''next-turn'', ie_RemovedCount := 1, ie_Turn := turn\<rparr>"
  let ?two = "commit_two ok (0 < length (ib_nextStep i) + length (ib_quiet i)) ?a (ib_nextTurn i \<noteq> []) ?b i"
  obtain e i2 where two: "?two = (e, i2)" by (cases ?two)
  have q: "same_queues i i2"
    using two by (auto simp: commit_two_def commit_def same_queues_def split: sum.splits option.splits if_splits)
  have w: "\<not> (ib_nextStep i = [] \<and> ib_nextTurn i = [])" using True by (auto simp: HasWork_def)
  have c: "ClaimWithError ok turn i = (case ?two of (Some e, i) \<Rightarrow> (Inl e, i) | (None, i) \<Rightarrow>
      (Inr (Some (ib_nextStep i @ take 1 (ib_nextTurn i) @ ib_quiet i)),
       i\<lparr>ib_nextStep := [], ib_nextTurn := drop 1 (ib_nextTurn i), ib_quiet := []\<rparr>))"
    using w two q unfolding ClaimWithError_def Let_def by (simp add: same_queues_def split: option.split)
  have "mset (take 1 (ib_nextTurn i)) + mset (tl (ib_nextTurn i)) = mset (ib_nextTurn i)"
    by (cases "ib_nextTurn i") simp_all
  then show ?thesis
    unfolding c two using True q
    by (cases e) (simp_all add: same_queues_def PendingMessages_def HasStepWork_def drop_Suc ac_simps)
qed

section \<open>Deduplication\<close>

definition pending_keys :: "Inbox \<Rightarrow> string list" where
  "pending_keys i = filter (\<lambda>k. k \<noteq> []) (map (\<lambda>m. messageDedupeKey (ms_Metadata m)) (PendingMessages i))"

lemma keys_subset:
  assumes "mset (PendingMessages i') \<subseteq># mset (PendingMessages i)" and "distinct (pending_keys i)"
  shows "distinct (pending_keys i')"
proof -
  let ?P = "\<lambda>m. messageDedupeKey (ms_Metadata m) \<noteq> []"
  have k: "pending_keys j = map (\<lambda>m. messageDedupeKey (ms_Metadata m)) (filter ?P (PendingMessages j))" for j
    by (simp add: pending_keys_def filter_map o_def)
  have "mset (filter ?P (PendingMessages i')) \<subseteq># mset (filter ?P (PendingMessages i))"
    using multiset_filter_mono [OF assms(1)] by simp
  from distinct_map_mset [OF this] assms(2) show ?thesis unfolding k by blast
qed

lemma keys_put:
  assumes "distinct (pending_keys i)"
  shows "distinct (pending_keys (snd (putContent ok kind text content metadata wakes i)))"
proof -
  let ?key = "messageDedupeKey metadata"
  let ?i = "i\<lparr>ib_nextID := uint64_inc (ib_nextID i)\<rparr>"
  let ?m = "\<lparr>ms_ID = formatMessageID (ib_nextID ?i), ms_Text = text, ms_Content = content, ms_Kind = kind, ms_Metadata = metadata\<rparr>"
  let ?r = "putContent ok kind text content metadata wakes i"
  consider (same) "PendingMessages (snd ?r) = PendingMessages i"
    | (new) "mset (PendingMessages (snd ?r)) = add_mset ?m (mset (PendingMessages i))"
        "?key = [] \<or> ?key \<notin> set (pending_keys i)"
  proof -
    have new_key: "?key = [] \<or> ?key \<notin> set (pending_keys i)"
      if "\<not> (?key \<noteq> [] \<and> List.find (\<lambda>m. messageDedupeKey (ms_Metadata m) = ?key)
            (ib_nextStep i @ ib_nextTurn i @ ib_quiet i) \<noteq> None)"
      using that by (auto simp: pending_keys_def PendingMessages_def find_None_iff)
    show thesis
    proof (cases "(text = [] \<and> content = []) \<or> ib_closed i \<or> (?key \<noteq> [] \<and>
        List.find (\<lambda>m. messageDedupeKey (ms_Metadata m) = ?key) (ib_nextStep i @ ib_nextTurn i @ ib_quiet i) \<noteq> None)")
      case True
      then have "snd ?r = i" by (auto simp: putContent_def Let_def)
      then show thesis by (intro same) simp
    next
      case False
      let ?ev = "splice\<lparr>ie_Target := inboxTarget kind, ie_Start := int (length (queue ?i (inboxTarget kind))),
          ie_Inserted := [?m]\<rparr>"
      have put: "?r = (case commit ok ?i ?ev of Inl e \<Rightarrow> (Inl e, ?i) | Inr i \<Rightarrow> enqueue kind ?m wakes i)"
        using False unfolding putContent_def Let_def by (auto split: option.split)
      show thesis
      proof (cases "commit ok ?i ?ev")
        case (Inl e)
        then show thesis using put by (intro same) (simp add: PendingMessages_def)
      next
        case (Inr i1)
        then have p: "ib_nextStep i1 = ib_nextStep i" "ib_nextTurn i1 = ib_nextTurn i" "ib_quiet i1 = ib_quiet i"
          by (auto simp: commit_def split: option.splits if_splits)
        show thesis
        proof (cases "\<exists>s. kind = OtherKind s")
          case True
          then show thesis using put Inr p by (intro same) (auto simp: enqueue_def Let_def PendingMessages_def)
        next
          case k: False
          have "mset (PendingMessages (snd ?r)) = add_mset ?m (mset (PendingMessages i))"
            unfolding put Inr sum.case using k p by (cases kind; simp add: enqueue_def Let_def PendingMessages_def)
          then show thesis using new_key False by (intro new) auto
        qed
      qed
    qed
  qed
  then show ?thesis
  proof cases
    case same
    then show ?thesis using assms by (simp add: pending_keys_def)
  next
    case new
    let ?P = "\<lambda>m. messageDedupeKey (ms_Metadata m) \<noteq> []"
    let ?f = "\<lambda>m. messageDedupeKey (ms_Metadata m)"
    have k: "pending_keys j = map ?f (filter ?P (PendingMessages j))" for j
      by (simp add: pending_keys_def filter_map o_def)
    have "mset (filter ?P (PendingMessages (snd ?r))) = mset (filter ?P (?m # PendingMessages i))"
      using arg_cong [OF new(1), of "filter_mset ?P"] by simp
    moreover have "distinct (map ?f (filter ?P (?m # PendingMessages i)))"
      using assms new(2) by (auto simp: k)
    ultimately show ?thesis
      unfolding k by (metis distinct_map_mset subset_mset.order_refl)
  qed
qed

lemma commit_queues:
  assumes "commit ok i ev = Inr j"
  shows "ib_nextStep j = ib_nextStep i" "ib_nextTurn j = ib_nextTurn i" "ib_quiet j = ib_quiet i"
  using assms by (auto simp: commit_def split: option.splits if_splits)

lemma commit_two_queues:
  assumes "commit_two ok p a q b i = (e, j)"
  shows "ib_nextStep j = ib_nextStep i" "ib_nextTurn j = ib_nextTurn i" "ib_quiet j = ib_quiet i"
  using assms by (auto simp: commit_two_def commit_queues split: sum.splits if_splits)

lemma removals_shrink:
  "mset (PendingMessages (snd (ClaimWithError ok turn i))) \<subseteq># mset (PendingMessages i)"
  "mset (PendingMessages (snd (ClaimStepWithError ok turn i))) \<subseteq># mset (PendingMessages i)"
  "mset (PendingMessages (snd (ClearWithError ok i))) \<subseteq># mset (PendingMessages i)"
proof -
  have d: "mset (drop (Suc 0) ms) \<subseteq># A + (mset ms + B)" for ms :: "Message list" and A B
  proof -
    have "mset (drop (Suc 0) ms) \<subseteq># mset ms" by (cases ms) simp_all
    also have "mset ms \<subseteq># A + (mset ms + B)" by simp
    finally show ?thesis .
  qed
  show "mset (PendingMessages (snd (ClaimWithError ok turn i))) \<subseteq># mset (PendingMessages i)"
    unfolding ClaimWithError_def Let_def
    by (auto simp: PendingMessages_def commit_two_queues split: prod.split option.split intro!: d)
  show "mset (PendingMessages (snd (ClaimStepWithError ok turn i))) \<subseteq># mset (PendingMessages i)"
    unfolding ClaimStepWithError_def by (auto simp: PendingMessages_def commit_queues split: sum.split)
  show "mset (PendingMessages (snd (ClearWithError ok i))) \<subseteq># mset (PendingMessages i)"
    unfolding ClearWithError_def Let_def
    by (auto simp: PendingMessages_def commit_two_queues split: prod.split option.split)
qed

lemma remove_shrinks: "mset (PendingMessages (snd (RemoveWithError ok x i))) \<subseteq># mset (PendingMessages i)"
proof -
  have "mset (remove_at n ms) \<subseteq># mset ms" if "index_of x ms = Some n" for n ms
    using mset_remove_at index_of_less that by blast
  then show ?thesis
    unfolding RemoveWithError_def
    by (auto simp: PendingMessages_def commit_queues split: sum.split option.split intro!: subset_mset.add_mono)
qed

lemma keys_exec:
  assumes "durable cl i" and "distinct (pending_keys i)" and "exec ok op1 i = (ms, i')"
  shows "distinct (pending_keys i')"
proof (cases op1)
  case (OpClaim turn)
  then have "i' = snd (ClaimWithError ok turn i)" using assms(3) by (cases "ClaimWithError ok turn i") simp
  then show ?thesis using keys_subset [OF removals_shrink(1) assms(2)] by simp
next
  case (OpClaimStep turn)
  then have "i' = snd (ClaimStepWithError ok turn i)" using assms(3) by (cases "ClaimStepWithError ok turn i") simp
  then show ?thesis using keys_subset [OF removals_shrink(2) assms(2)] by simp
next
  case (OpRemove x)
  then show ?thesis using assms(3) keys_subset [OF remove_shrinks assms(2)] by auto
next
  case OpClear
  then show ?thesis using assms(3) keys_subset [OF removals_shrink(3) assms(2)] by auto
next
  case (OpWait c f)
  then have "PendingMessages i' = PendingMessages i"
    using assms(3) by (auto simp: Wait_def PendingMessages_def split: if_splits)
  then show ?thesis using assms(2) by (simp add: pending_keys_def)
next
  case OpClose
  then have "PendingMessages i' = PendingMessages i"
    using assms(3) by (auto simp: Close_def PendingMessages_def split: if_splits)
  then show ?thesis using assms(2) by (simp add: pending_keys_def)
next
  case OpRestart
  from assms(1) obtain es r where d: "durable_by cl i es r" by (auto simp: durable_def)
  then have "PendingMessages r = PendingMessages i" by (simp add: durable_by_def same_queues_def PendingMessages_def)
  then show ?thesis using OpRestart assms(2,3) d by (simp add: durable_by_def pending_keys_def)
qed (use assms(2,3) keys_put in
    \<open>auto simp: Send_def SendContent_def Steer_def SteerContent_def Followup_def FollowupContent_def
        Inject_def InjectContent_def put_message_def\<close>)

lemma keys_run:
  assumes "durable cl i" and "distinct (pending_keys i)" and "ib_nextID i + length ops < 2 ^ 63"
    and "list_all (\<lambda>(ok, _). unsplit ok) ops" and "run ops i = (ms, i')"
  shows "distinct (pending_keys i')"
  using assms
proof (induction ops arbitrary: cl i ms)
  case (Cons a ops)
  obtain ok op1 where a: "a = (ok, op1)" by (cases a)
  obtain ms1 i1 where e: "exec ok op1 i = (ms1, i1)" by (cases "exec ok op1 i")
  obtain ms2 where r: "run ops i1 = (ms2, i')"
    using Cons.prems(5) a e by (cases "run ops i1") simp
  have d: "durable (cl @ ms1) i1 \<and> ib_nextID i1 \<le> ib_nextID i + 1"
    by (rule durable_exec [OF Cons.prems(1) _ _ e]) (use Cons.prems(3,4) a in auto)
  have "distinct (pending_keys i1)" by (rule keys_exec [OF Cons.prems(1,2) e])
  then show ?case
    by (intro Cons.IH [OF _ _ _ _ r, of "cl @ ms1"]) (use d Cons.prems(3,4) in auto)
qed simp

text \<open>
  Fact: no two queued messages share a deduplication key, whatever was sent: a message whose key is
  already pending is answered with the pending one, across restarts too.
\<close>

theorem dedupe_unique:
  assumes "list_all (\<lambda>(ok, _). unsplit ok) ops" and "length ops < 2 ^ 63" and "run ops fresh_inbox = (ms, i)"
  shows "distinct (pending_keys i)"
  by (rule keys_run [OF durable_fresh _ _ assms(1,3)])
    (use assms(2) in \<open>simp_all add: fresh_inbox_def NewInbox_def pending_keys_def PendingMessages_def\<close>)

definition dedupe_ops :: "((InboxEvent \<Rightarrow> bool) \<times> inbox_op) list" where
  "dedupe_ops = [(\<lambda>_. True, OpSend ''a'' [(''dedupe_key'', ''k'')]), (\<lambda>_. True, OpFollowup ''b'' [(''dedupe_key'', '' k'')])]"

lemma dedupe_unique_witness: "distinct (pending_keys (snd (run dedupe_ops fresh_inbox)))"
proof -
  obtain ms i where r: "run dedupe_ops fresh_inbox = (ms, i)" by (cases "run dedupe_ops fresh_inbox")
  have "list_all (\<lambda>(ok, _). unsplit ok) dedupe_ops" "length dedupe_ops < 2 ^ 63"
    by (simp_all add: dedupe_ops_def unsplit_def)
  from dedupe_unique [OF this r] r show ?thesis by simp
qed

section \<open>A claim torn in two\<close>

definition torn_ops :: "((InboxEvent \<Rightarrow> bool) \<times> inbox_op) list" where
  "torn_ops =
     [(\<lambda>_. True, OpSend ''a'' []), (\<lambda>_. True, OpFollowup ''b'' []),
      (\<lambda>ev. ie_Target ev = ''next-step'', OpClaim 1)]"

definition journal_of :: "Inbox \<Rightarrow> InboxEvent list" where
  "journal_of i = (case ib_journal i of None \<Rightarrow> [] | Some es \<Rightarrow> es)"

text \<open>
  Fact: the hypothesis on the two splices of a claim is needed: when the journal accepts the first and
  refuses the second, nothing is handed out and the live queue keeps both messages, but a restart at
  that point has lost the first one, and a later successful claim leaves a journal no inbox can be
  rebuilt from.
\<close>

theorem torn_claim_breaks_replay:
  "map ms_Text (PendingMessages (snd (run torn_ops fresh_inbox))) = [''a'', ''b''] \<and>
   fst (run torn_ops fresh_inbox) = [] \<and>
   map ms_Text (PendingMessages (snd (run (torn_ops @ [(\<lambda>_. True, OpRestart)]) fresh_inbox))) = [''b''] \<and>
   map_sum id PendingMessages (NewDurableInbox (journal_of (snd (run (torn_ops @ [(\<lambda>_. True, OpClaim 2)]) fresh_inbox)))) =
     Inl ErrStepBounds"
proof (intro conjI)
  show "map ms_Text (PendingMessages (snd (run torn_ops fresh_inbox))) = [''a'', ''b'']" by code_simp
  show "fst (run torn_ops fresh_inbox) = []" by code_simp
  show "map ms_Text (PendingMessages (snd (run (torn_ops @ [(\<lambda>_. True, OpRestart)]) fresh_inbox))) = [''b'']" by code_simp
  show "map_sum id PendingMessages (NewDurableInbox (journal_of (snd (run (torn_ops @ [(\<lambda>_. True, OpClaim 2)]) fresh_inbox)))) =
     Inl ErrStepBounds" by code_simp
qed

end
