(* ===== verification/Agent_Driver.thy ===== *)
theory Agent_Driver
  imports Agent_Inbox
begin

text \<open>
  The agent runtime, \<^verbatim>\<open>internal/agent/agent.go\<close>: the driver goroutine, its callers and the
  maintenance task as threads over one agent. A step is one section under the agent's mutex, or one
  action between two of them; the threads interleave freely. The inbox is the one of
  \<^verbatim>\<open>Agent_Inbox\<close>, whose journal answers as it likes. The runner, the maintenance task and the
  contexts of callers are free: what they return and when they end is the environment's choice. A
  channel a caller waits on is a number; what was sent, which registrations were replaced or taken back
  and the notified changes of status are kept as history.
\<close>

section \<open>State\<close>

datatype AgentStatus = StatusIdle | StatusRunning | StatusClosed

datatype turn_result = TurnDone | TurnCanceled | TurnError string | AgentClosed

datatype agent_error = ErrAgentClosed | ErrAgentStarted | ErrAgentBusy | ErrInbox inbox_error | ErrCanceled

text \<open>Where the driver is; a maintenance phase is known by its number.\<close>

datatype driver_pc =
    PcNone
  | PcTop
  | PcMaintenance nat
  | PcClaim
  | PcClaimMaintenance nat
  | PcWait
  | PcClaimed int "Message list"
  | PcRunning int "Message list"
  | PcSettled bool
  | PcExit
  | PcDrain "nat list" "nat option"
  | PcScope "nat option"
  | PcDispose
  | PcDone

text \<open>The threads of callers, by what they do next.\<close>

datatype thread =
    RunWait string nat
  | RunRemove string nat
  | RunForget string nat
  | CancelSteer "int option" "nat option"
  | CancelClear "int option" "nat option"
  | CancelDo "int option" "nat option"
  | CloseSettle "nat list" "nat option" bool
  | CloseWait
  | CloseDispose "nat option"
  | CloseScope
  | MaintenanceTask nat
  | MaintenanceClear nat
  | IdleWork bool

record Agent =
  ag_inbox :: Inbox
  ag_status :: AgentStatus
  ag_started :: bool
  ag_closed :: bool
  ag_disposed :: bool
  ag_runCanceled :: bool
  ag_turnCancel :: "int option"
  ag_canceledTurns :: "int list"
  ag_maintenance :: bool
  ag_phase :: nat
  ag_phaseDone :: nat
  ag_canceledPhases :: "nat list"
  ag_nextTurn :: int
  ag_activeTurn :: int
  ag_turnClaimed :: bool
  ag_steerPending :: bool
  ag_waiters :: "(string \<times> nat) list"
  ag_channels :: nat
  ag_settled :: "(nat \<times> turn_result) list"
  ag_lost :: "nat list"
  ag_lastErr :: "turn_result option"
  ag_scopeClosed :: nat
  ag_events :: "(AgentStatus \<times> AgentStatus) list"
  ag_pc :: driver_pc
  ag_threads :: "thread list"

definition newAgent :: "Inbox \<Rightarrow> int \<Rightarrow> Agent" where
  "newAgent inbox initialTurn =
     \<lparr>ag_inbox = inbox, ag_status = StatusIdle, ag_started = False, ag_closed = False, ag_disposed = False, ag_runCanceled = False,
      ag_turnCancel = None, ag_canceledTurns = [], ag_maintenance = False, ag_phase = 0, ag_phaseDone = 0, ag_canceledPhases = [],
      ag_nextTurn = (if initialTurn \<le> 0 then 1 else initialTurn), ag_activeTurn = 0, ag_turnClaimed = False,
      ag_steerPending = False, ag_waiters = [], ag_channels = 0, ag_settled = [], ag_lost = [], ag_lastErr = None, ag_scopeClosed = 0,
      ag_events = [], ag_pc = PcNone, ag_threads = []\<rparr>"

definition setStatusLocked :: "AgentStatus \<Rightarrow> Agent \<Rightarrow> Agent" where
  "setStatusLocked next a =
     (if ag_status a = next then a else a\<lparr>ag_status := next, ag_events := ag_events a @ [(ag_status a, next)]\<rparr>)"

definition spawn :: "thread \<Rightarrow> Agent \<Rightarrow> Agent" where
  "spawn t a = a\<lparr>ag_threads := t # ag_threads a\<rparr>"

definition send_all :: "nat list \<Rightarrow> turn_result \<Rightarrow> Agent \<Rightarrow> Agent" where
  "send_all chans r a = a\<lparr>ag_settled := ag_settled a @ map (\<lambda>c. (c, r)) chans\<rparr>"

definition maintenance_phase :: "Agent \<Rightarrow> nat option" where
  "maintenance_phase a = (if ag_maintenance a then Some (ag_phase a) else None)"

definition cancel_phase :: "nat option \<Rightarrow> Agent \<Rightarrow> Agent" where
  "cancel_phase p a = (case p of None \<Rightarrow> a | Some n \<Rightarrow> a\<lparr>ag_canceledPhases := n # ag_canceledPhases a\<rparr>)"

definition cancel_turn :: "int option \<Rightarrow> Agent \<Rightarrow> Agent" where
  "cancel_turn t a = (case t of None \<Rightarrow> a | Some n \<Rightarrow> a\<lparr>ag_canceledTurns := n # ag_canceledTurns a\<rparr>)"

section \<open>The driver\<close>

definition AgentStart :: "Agent \<Rightarrow> agent_error option \<times> Agent" where
  "AgentStart a =
     (if ag_closed a then (Some ErrAgentClosed, a)
      else if ag_started a then (Some ErrAgentStarted, a)
      else (None, a\<lparr>ag_started := True, ag_pc := PcTop\<rparr>))"

definition driver_gate :: "Agent \<Rightarrow> Agent" where
  "driver_gate a = (case maintenance_phase a of Some p \<Rightarrow> a\<lparr>ag_pc := PcMaintenance p\<rparr> | None \<Rightarrow> a\<lparr>ag_pc := PcClaim\<rparr>)"

text \<open>The section under both locks: maintenance cannot begin inside it.\<close>

definition driver_claim :: "(InboxEvent \<Rightarrow> bool) \<Rightarrow> Agent \<Rightarrow> Agent" where
  "driver_claim ok a =
     (if ag_maintenance a then a\<lparr>ag_pc := PcClaimMaintenance (ag_phase a)\<rparr>
      else case ClaimWithError ok (ag_nextTurn a) (ag_inbox a) of
        (Inl e, i) \<Rightarrow> a\<lparr>ag_inbox := i, ag_lastErr := Some (TurnError ''claim''), ag_pc := PcExit\<rparr>
      | (Inr None, i) \<Rightarrow> a\<lparr>ag_inbox := i, ag_pc := PcWait\<rparr>
      | (Inr (Some ms), i) \<Rightarrow>
          a\<lparr>ag_inbox := i, ag_nextTurn := ag_nextTurn a + 1, ag_turnClaimed := True, ag_pc := PcClaimed (ag_nextTurn a) ms\<rparr>)"

definition driver_begin :: "int \<Rightarrow> Message list \<Rightarrow> Agent \<Rightarrow> Agent" where
  "driver_begin turn ms a =
     (if ag_closed a then a\<lparr>ag_turnClaimed := False, ag_pc := PcExit\<rparr>
      else (setStatusLocked StatusRunning a)\<lparr>ag_turnCancel := Some turn, ag_activeTurn := turn, ag_pc := PcRunning turn ms\<rparr>)"

definition completeWaitersLocked :: "Message list \<Rightarrow> turn_result \<Rightarrow> Agent \<Rightarrow> Agent" where
  "completeWaitersLocked ms r a =
     fold (\<lambda>m a. case map_of (ag_waiters a) (ms_ID m) of
         None \<Rightarrow> a
       | Some c \<Rightarrow> send_all [c] r (a\<lparr>ag_waiters := AList.delete (ms_ID m) (ag_waiters a)\<rparr>)) ms a"

definition driver_settle :: "turn_result \<Rightarrow> Message list \<Rightarrow> Agent \<Rightarrow> Agent" where
  "driver_settle r ms a =
     (let a = completeWaitersLocked ms r (a\<lparr>ag_turnCancel := None, ag_activeTurn := 0, ag_turnClaimed := False, ag_steerPending := False\<rparr>);
          a = (if r \<noteq> TurnDone \<and> r \<noteq> TurnCanceled then a\<lparr>ag_lastErr := Some r\<rparr> else a);
          a = (if ag_closed a then a else setStatusLocked StatusIdle a)
      in a\<lparr>ag_pc := PcSettled (ag_closed a)\<rparr>)"

definition driver_next :: "bool \<Rightarrow> Agent \<Rightarrow> Agent" where
  "driver_next shut a = a\<lparr>ag_pc := (if shut \<or> ag_runCanceled a then PcExit else PcTop)\<rparr>"

text \<open>The deferred function: close, collect, drain, dispose.\<close>

definition driver_exit :: "Agent \<Rightarrow> Agent" where
  "driver_exit a =
     (let a = (if ag_closed a then a else setStatusLocked StatusClosed (a\<lparr>ag_closed := True\<rparr>))
      in a\<lparr>ag_waiters := [], ag_pc := PcDrain (vals (ag_waiters a)) (maintenance_phase a)\<rparr>)"

definition driver_drain :: "nat list \<Rightarrow> nat option \<Rightarrow> Agent \<Rightarrow> Agent" where
  "driver_drain chans p a =
     (let a = cancel_phase p a; a = a\<lparr>ag_inbox := Close (ag_inbox a)\<rparr>
      in (send_all chans AgentClosed a)\<lparr>ag_pc := PcScope p\<rparr>)"

definition phase_over :: "nat option \<Rightarrow> Agent \<Rightarrow> bool" where
  "phase_over p a = (case p of None \<Rightarrow> True | Some n \<Rightarrow> n \<le> ag_phaseDone a)"

section \<open>The callers\<close>

text \<open>\<^verbatim>\<open>Send\<close>, \<^verbatim>\<open>Followup\<close>, \<^verbatim>\<open>Inject\<close> and their rich forms: one inbox call under the lock.\<close>

definition agent_put ::
    "(InboxEvent \<Rightarrow> bool) \<Rightarrow> MessageKind \<Rightarrow> string \<Rightarrow> ContentBlock list \<Rightarrow> (string \<times> string) list \<Rightarrow> bool \<Rightarrow> Agent \<Rightarrow>
     (agent_error + Message) \<times> Agent" where
  "agent_put ok kind text content metadata wakes a =
     (if ag_closed a then (Inl ErrAgentClosed, a)
      else case putContent ok kind text content metadata wakes (ag_inbox a) of
        (Inl e, i) \<Rightarrow> (Inl (ErrInbox e), a\<lparr>ag_inbox := i\<rparr>)
      | (Inr m, i) \<Rightarrow> (Inr m, a\<lparr>ag_inbox := i\<rparr>))"

definition AgentSteer ::
    "(InboxEvent \<Rightarrow> bool) \<Rightarrow> string \<Rightarrow> ContentBlock list \<Rightarrow> (string \<times> string) list \<Rightarrow> Agent \<Rightarrow> agent_error option \<times> Agent" where
  "AgentSteer ok text content metadata a =
     (case agent_put ok MessageSteering text content metadata True a of
        (Inl e, a) \<Rightarrow> (Some e, a)
      | (Inr m, a) \<Rightarrow>
          (case ag_turnCancel a of
             None \<Rightarrow> (None, a)
           | Some turn \<Rightarrow> (None, spawn (CancelDo (Some turn) None) (a\<lparr>ag_steerPending := True\<rparr>))))"

definition AgentClaimStep :: "(InboxEvent \<Rightarrow> bool) \<Rightarrow> Agent \<Rightarrow> (inbox_error + Message list option) \<times> Agent" where
  "AgentClaimStep ok a =
     (case ClaimStepWithError ok (ag_activeTurn a) (ag_inbox a) of (r, i) \<Rightarrow> (r, a\<lparr>ag_inbox := i\<rparr>))"

definition ClaimSteerStep :: "(InboxEvent \<Rightarrow> bool) \<Rightarrow> Agent \<Rightarrow> (inbox_error + Message list option) \<times> Agent" where
  "ClaimSteerStep ok a =
     (if \<not> ag_steerPending a then (Inr None, a) else AgentClaimStep ok (a\<lparr>ag_steerPending := False\<rparr>))"

definition forget_waiter :: "string \<Rightarrow> Agent \<Rightarrow> Agent" where
  "forget_waiter i a = a\<lparr>ag_waiters := AList.delete i (ag_waiters a),
     ag_lost := ag_lost a @ (case map_of (ag_waiters a) i of None \<Rightarrow> [] | Some c \<Rightarrow> [c])\<rparr>"

text \<open>\<^verbatim>\<open>runSubmitted\<close>, the section that enqueues and registers the waiter.\<close>

definition runSubmitted ::
    "(InboxEvent \<Rightarrow> bool) \<Rightarrow> string \<Rightarrow> ContentBlock list \<Rightarrow> (string \<times> string) list \<Rightarrow> Agent \<Rightarrow> agent_error option \<times> Agent" where
  "runSubmitted ok text content metadata a =
     (case agent_put ok MessageNextTurn text content metadata True a of
        (Inl e, a) \<Rightarrow> (Some e, a)
      | (Inr m, a) \<Rightarrow>
          (None, spawn (RunWait (ms_ID m) (ag_channels a))
             ((forget_waiter (ms_ID m) a)\<lparr>ag_waiters := AList.update (ms_ID m) (ag_channels a) (ag_waiters (forget_waiter (ms_ID m) a)), ag_channels := ag_channels a + 1\<rparr>)))"

definition CancelWithOptions :: "bool \<Rightarrow> Agent \<Rightarrow> agent_error option \<times> Agent" where
  "CancelWithOptions keepInbox a =
     (if ag_closed a then (Some ErrAgentClosed, a)
      else (None, spawn (if keepInbox then CancelDo (ag_turnCancel a) (maintenance_phase a)
                         else CancelSteer (ag_turnCancel a) (maintenance_phase a)) a))"

definition cancel_clear :: "(InboxEvent \<Rightarrow> bool) \<Rightarrow> int option \<Rightarrow> nat option \<Rightarrow> Agent \<Rightarrow> Agent" where
  "cancel_clear ok turn p a =
     (case ClearWithError ok (ag_inbox a) of
        (Some e, i) \<Rightarrow> cancel_turn turn (a\<lparr>ag_inbox := i\<rparr>)
      | (None, i) \<Rightarrow> spawn (CancelDo turn p) (a\<lparr>ag_inbox := i\<rparr>))"

text \<open>A caller of Run whose context ended takes its message back, or cancels the agent once it is claimed.\<close>

definition run_remove :: "(InboxEvent \<Rightarrow> bool) \<Rightarrow> string \<Rightarrow> nat \<Rightarrow> Agent \<Rightarrow> Agent" where
  "run_remove ok i c a =
     (case RemoveWithError ok i (ag_inbox a) of
        (Inl e, ib) \<Rightarrow> a\<lparr>ag_inbox := ib\<rparr>
      | (Inr True, ib) \<Rightarrow> spawn (RunForget i c) (a\<lparr>ag_inbox := ib\<rparr>)
      | (Inr False, ib) \<Rightarrow> snd (CancelWithOptions False (a\<lparr>ag_inbox := ib\<rparr>)))"

definition RunMaintenance :: "Agent \<Rightarrow> agent_error option \<times> Agent" where
  "RunMaintenance a =
     (if ag_closed a then (Some ErrAgentClosed, a)
      else if ag_status a = StatusRunning \<or> ag_maintenance a then (Some ErrAgentBusy, a)
      else if HasWork (ag_inbox a) then (Some ErrAgentBusy, a)
      else (None, spawn (MaintenanceTask (ag_phase a + 1)) (a\<lparr>ag_maintenance := True, ag_phase := ag_phase a + 1\<rparr>)))"

definition AgentClose :: "Agent \<Rightarrow> Agent" where
  "AgentClose a =
     (if ag_disposed a then a
      else if ag_closed a then spawn CloseWait a
      else
        let a = setStatusLocked StatusClosed (a\<lparr>ag_closed := True\<rparr>);
            a = (cancel_turn (ag_turnCancel a) a)\<lparr>ag_runCanceled := ag_started a\<rparr>
        in spawn (CloseSettle (vals (ag_waiters a)) (maintenance_phase a) (ag_started a)) (a\<lparr>ag_waiters := []\<rparr>))"

definition close_settle :: "nat list \<Rightarrow> nat option \<Rightarrow> bool \<Rightarrow> Agent \<Rightarrow> Agent" where
  "close_settle chans p started a =
     (let a = a\<lparr>ag_inbox := Close (ag_inbox a)\<rparr>; a = send_all chans AgentClosed (cancel_phase p a)
      in spawn (if started then CloseWait else CloseDispose p) a)"

text \<open>\<^verbatim>\<open>WhenIdle\<close> reads the flags under the lock, and looks for work after it.\<close>

definition idle_flags :: "Agent \<Rightarrow> bool" where
  "idle_flags a \<longleftrightarrow> \<not> ag_maintenance a \<and> \<not> ag_turnClaimed a \<and> (ag_status a = StatusIdle \<or> ag_status a = StatusClosed)"

definition idle_returns :: "bool \<Rightarrow> Agent \<Rightarrow> bool" where
  "idle_returns flags a \<longleftrightarrow> flags \<and> \<not> HasWork (ag_inbox a)"

section \<open>Steps\<close>

inductive agent_step :: "Agent \<Rightarrow> Agent \<Rightarrow> bool" where
  start: "agent_step a (snd (AgentStart a))"
| gate: "ag_pc a = PcTop \<Longrightarrow> agent_step a (driver_gate a)"
| gate_over: "ag_pc a = PcMaintenance p \<Longrightarrow> p \<le> ag_phaseDone a \<Longrightarrow> agent_step a (a\<lparr>ag_pc := PcTop\<rparr>)"
| gate_canceled: "ag_pc a = PcMaintenance p \<Longrightarrow> ag_runCanceled a \<Longrightarrow> agent_step a (a\<lparr>ag_pc := PcExit\<rparr>)"
| claim: "ag_pc a = PcClaim \<Longrightarrow> agent_step a (driver_claim ok a)"
| claim_over: "ag_pc a = PcClaimMaintenance p \<Longrightarrow> p \<le> ag_phaseDone a \<Longrightarrow> agent_step a (a\<lparr>ag_pc := PcTop\<rparr>)"
| woken: "ag_pc a = PcWait \<Longrightarrow> Wait (ag_runCanceled a) first (ag_inbox a) = Some (None, i) \<Longrightarrow>
    agent_step a (a\<lparr>ag_inbox := i, ag_pc := PcTop\<rparr>)"
| unwoken: "ag_pc a = PcWait \<Longrightarrow> Wait (ag_runCanceled a) first (ag_inbox a) = Some (Some e, i) \<Longrightarrow>
    agent_step a (a\<lparr>ag_inbox := i, ag_pc := PcExit\<rparr>)"
| begin_turn: "ag_pc a = PcClaimed turn ms \<Longrightarrow> agent_step a (driver_begin turn ms a)"
| settle: "ag_pc a = PcRunning turn ms \<Longrightarrow> agent_step a (driver_settle r ms a)"
| settled: "ag_pc a = PcSettled shut \<Longrightarrow> agent_step a (driver_next shut a)"
| parent_canceled: "ag_started a \<Longrightarrow> agent_step a (a\<lparr>ag_runCanceled := True\<rparr>)"
| exit: "ag_pc a = PcExit \<Longrightarrow> agent_step a (driver_exit a)"
| drain: "ag_pc a = PcDrain chans p \<Longrightarrow> agent_step a (driver_drain chans p a)"
| scope: "ag_pc a = PcScope p \<Longrightarrow> phase_over p a \<Longrightarrow> agent_step a (a\<lparr>ag_scopeClosed := ag_scopeClosed a + 1, ag_pc := PcDispose\<rparr>)"
| dispose: "ag_pc a = PcDispose \<Longrightarrow> agent_step a (a\<lparr>ag_disposed := True, ag_pc := PcDone\<rparr>)"
| put: "agent_step a (snd (agent_put ok kind text_in content metadata wakes a))"
| steer: "agent_step a (snd (AgentSteer ok text_in content metadata a))"
| claim_step: "ag_pc a = PcRunning turn ms \<Longrightarrow> agent_step a (snd (AgentClaimStep ok a))"
| claim_steer: "ag_pc a = PcRunning turn ms \<Longrightarrow> agent_step a (snd (ClaimSteerStep ok a))"
| submit: "ag_started a \<Longrightarrow> agent_step a (snd (runSubmitted ok text_in content metadata a))"
| cancel: "agent_step a (snd (CancelWithOptions keep a))"
| maintain: "agent_step a (snd (RunMaintenance a))"
| close: "agent_step a (AgentClose a)"
| run_done: "ag_threads a = xs @ RunWait i c # ys \<Longrightarrow> c \<in> fst ` set (ag_settled a) \<Longrightarrow> agent_step a (a\<lparr>ag_threads := xs @ ys\<rparr>)"
| run_canceled: "ag_threads a = xs @ RunWait i c # ys \<Longrightarrow> agent_step a (a\<lparr>ag_threads := xs @ RunRemove i c # ys\<rparr>)"
| run_removed: "ag_threads a = xs @ RunRemove i c # ys \<Longrightarrow> agent_step a (run_remove ok i c (a\<lparr>ag_threads := xs @ ys\<rparr>))"
| run_forget: "ag_threads a = xs @ RunForget i c # ys \<Longrightarrow>
    agent_step a (forget_waiter i (a\<lparr>ag_threads := xs @ ys\<rparr>))"
| cancel_steer: "ag_threads a = xs @ CancelSteer t p # ys \<Longrightarrow>
    agent_step a (a\<lparr>ag_threads := xs @ CancelClear t p # ys, ag_steerPending := False\<rparr>)"
| cancel_clears: "ag_threads a = xs @ CancelClear t p # ys \<Longrightarrow> agent_step a (cancel_clear ok t p (a\<lparr>ag_threads := xs @ ys\<rparr>))"
| cancel_does: "ag_threads a = xs @ CancelDo t p # ys \<Longrightarrow> agent_step a (cancel_phase p (cancel_turn t (a\<lparr>ag_threads := xs @ ys\<rparr>)))"
| close_settles: "ag_threads a = xs @ CloseSettle chans p started # ys \<Longrightarrow>
    agent_step a (close_settle chans p started (a\<lparr>ag_threads := xs @ ys\<rparr>))"
| close_waited: "ag_threads a = xs @ CloseWait # ys \<Longrightarrow> ag_pc a = PcDone \<or> (ag_pc a = PcNone \<and> 0 < ag_scopeClosed a) \<Longrightarrow>
    agent_step a (a\<lparr>ag_threads := xs @ ys\<rparr>)"
| close_disposes: "ag_threads a = xs @ CloseDispose p # ys \<Longrightarrow> phase_over p a \<Longrightarrow>
    agent_step a (a\<lparr>ag_threads := xs @ CloseScope # ys, ag_disposed := True\<rparr>)"
| close_scope: "ag_threads a = xs @ CloseScope # ys \<Longrightarrow>
    agent_step a (a\<lparr>ag_threads := xs @ ys, ag_scopeClosed := ag_scopeClosed a + 1\<rparr>)"
| maintained: "ag_threads a = xs @ MaintenanceTask p # ys \<Longrightarrow>
    agent_step a (a\<lparr>ag_threads := xs @ MaintenanceClear p # ys, ag_phaseDone := p\<rparr>)"
| maintenance_clear: "ag_threads a = xs @ MaintenanceClear p # ys \<Longrightarrow>
    agent_step a (a\<lparr>ag_threads := xs @ ys, ag_maintenance := False\<rparr>)"
| idle_look: "agent_step a (spawn (IdleWork (idle_flags a)) a)"
| idle_return: "ag_threads a = xs @ IdleWork f # ys \<Longrightarrow> idle_returns f a \<Longrightarrow> agent_step a (a\<lparr>ag_threads := xs @ ys\<rparr>)"
| idle_again: "ag_threads a = xs @ IdleWork f # ys \<Longrightarrow> \<not> idle_returns f a \<Longrightarrow> agent_step a (a\<lparr>ag_threads := xs @ ys\<rparr>)"

abbreviation agent_reachable :: "Agent \<Rightarrow> bool" where
  "agent_reachable a \<equiv> \<exists>inbox turn. agent_step\<^sup>*\<^sup>* (newAgent inbox turn) a"

end
