(* ===== verification/Agent_Lifecycle.thy ===== *)
theory Agent_Lifecycle
  imports Agent_Driver "HOL-Library.Multiset"
begin

text \<open>
  What every interleaving of the driver, its callers and the maintenance task keeps, and the runs that
  show where the locks leave a gap.
\<close>

section \<open>Reading the parts\<close>

lemma setStatus_fields [simp]:
  "ag_inbox (setStatusLocked s a) = ag_inbox a" "ag_status (setStatusLocked s a) = s" "ag_started (setStatusLocked s a) = ag_started a"
  "ag_closed (setStatusLocked s a) = ag_closed a" "ag_disposed (setStatusLocked s a) = ag_disposed a"
  "ag_runCanceled (setStatusLocked s a) = ag_runCanceled a" "ag_turnCancel (setStatusLocked s a) = ag_turnCancel a"
  "ag_maintenance (setStatusLocked s a) = ag_maintenance a" "ag_phase (setStatusLocked s a) = ag_phase a"
  "ag_phaseDone (setStatusLocked s a) = ag_phaseDone a" "ag_turnClaimed (setStatusLocked s a) = ag_turnClaimed a"
  "ag_waiters (setStatusLocked s a) = ag_waiters a" "ag_channels (setStatusLocked s a) = ag_channels a"
  "ag_settled (setStatusLocked s a) = ag_settled a" "ag_lost (setStatusLocked s a) = ag_lost a"
  "ag_scopeClosed (setStatusLocked s a) = ag_scopeClosed a" "ag_pc (setStatusLocked s a) = ag_pc a"
  "ag_threads (setStatusLocked s a) = ag_threads a" "maintenance_phase (setStatusLocked s a) = maintenance_phase a"
  by (simp_all add: setStatusLocked_def maintenance_phase_def)

text \<open>What an invariant reads of an agent.\<close>

definition same_core :: "Agent \<Rightarrow> Agent \<Rightarrow> bool" where
  "same_core a b \<longleftrightarrow> ag_status b = ag_status a \<and> ag_started b = ag_started a \<and> ag_closed b = ag_closed a \<and>
     ag_maintenance b = ag_maintenance a \<and> ag_phase b = ag_phase a \<and> ag_phaseDone b = ag_phaseDone a \<and>
     ag_turnClaimed b = ag_turnClaimed a \<and> ag_scopeClosed b = ag_scopeClosed a"

definition same_channels :: "Agent \<Rightarrow> Agent \<Rightarrow> bool" where
  "same_channels a b \<longleftrightarrow> ag_waiters b = ag_waiters a \<and> ag_channels b = ag_channels a \<and> ag_settled b = ag_settled a \<and>
     ag_lost b = ag_lost a"

lemma cancel_fields [simp]:
  "same_core a (cancel_phase p b) = same_core a b" "same_core a (cancel_turn t b) = same_core a b"
  "same_channels a (cancel_phase p b) = same_channels a b" "same_channels a (cancel_turn t b) = same_channels a b"
  "ag_threads (cancel_phase p b) = ag_threads b" "ag_threads (cancel_turn t b) = ag_threads b"
  "ag_pc (cancel_phase p b) = ag_pc b" "ag_pc (cancel_turn t b) = ag_pc b"
  "ag_closed (cancel_phase p b) = ag_closed b" "ag_waiters (cancel_phase p b) = ag_waiters b" "ag_waiters (cancel_turn t b) = ag_waiters b"
  "maintenance_phase (cancel_turn t b) = maintenance_phase b" "ag_started (cancel_turn t b) = ag_started b"
  by (simp_all add: cancel_phase_def cancel_turn_def same_core_def same_channels_def maintenance_phase_def split: option.split)

lemma put_fields:
  "same_core a (snd (agent_put ok k s c d w a))" "same_channels a (snd (agent_put ok k s c d w a))"
  "ag_threads (snd (agent_put ok k s c d w a)) = ag_threads a" "ag_pc (snd (agent_put ok k s c d w a)) = ag_pc a"
  "ag_turnCancel (snd (agent_put ok k s c d w a)) = ag_turnCancel a" "ag_closed a \<Longrightarrow> snd (agent_put ok k s c d w a) = a"
  "agent_put ok k s c d w a = (Inr m, b) \<Longrightarrow> \<not> ag_closed a"
  by (auto simp: agent_put_def same_core_def same_channels_def split: prod.split sum.split if_splits)

lemma put_core [simp]:
  "ag_status (snd (agent_put ok k s c d w a)) = ag_status a" "ag_started (snd (agent_put ok k s c d w a)) = ag_started a"
  "ag_closed (snd (agent_put ok k s c d w a)) = ag_closed a" "ag_maintenance (snd (agent_put ok k s c d w a)) = ag_maintenance a"
  "ag_phase (snd (agent_put ok k s c d w a)) = ag_phase a" "ag_phaseDone (snd (agent_put ok k s c d w a)) = ag_phaseDone a"
  "ag_turnClaimed (snd (agent_put ok k s c d w a)) = ag_turnClaimed a" "ag_scopeClosed (snd (agent_put ok k s c d w a)) = ag_scopeClosed a"
  "ag_waiters (snd (agent_put ok k s c d w a)) = ag_waiters a" "ag_channels (snd (agent_put ok k s c d w a)) = ag_channels a"
  "ag_settled (snd (agent_put ok k s c d w a)) = ag_settled a" "ag_lost (snd (agent_put ok k s c d w a)) = ag_lost a"
  "ag_threads (snd (agent_put ok k s c d w a)) = ag_threads a" "ag_pc (snd (agent_put ok k s c d w a)) = ag_pc a"
  by (simp_all add: agent_put_def split: prod.split sum.split)

lemma steer_eq:
  "snd (AgentSteer ok s c d a) = snd (agent_put ok MessageSteering s c d True a) \<or>
   (\<exists>t. \<not> ag_closed a \<and> snd (AgentSteer ok s c d a) =
      spawn (CancelDo t None) ((snd (agent_put ok MessageSteering s c d True a))\<lparr>ag_steerPending := True\<rparr>))"
proof (cases "agent_put ok MessageSteering s c d True a")
  case (Pair r b)
  then show ?thesis using put_fields(7) [of ok MessageSteering s c d True a]
    by (cases r; cases "ag_turnCancel b") (auto simp: AgentSteer_def)
qed

lemma submit_eq:
  "snd (runSubmitted ok s c d a) = snd (agent_put ok MessageNextTurn s c d True a) \<or>
   (\<exists>i b. \<not> ag_closed a \<and> b = snd (agent_put ok MessageNextTurn s c d True a) \<and> snd (runSubmitted ok s c d a) =
      spawn (RunWait i (ag_channels b)) ((forget_waiter i b)\<lparr>ag_waiters := AList.update i (ag_channels b) (ag_waiters (forget_waiter i b)),
        ag_channels := ag_channels b + 1\<rparr>))"
proof (cases "agent_put ok MessageNextTurn s c d True a")
  case (Pair r b)
  then show ?thesis using put_fields(7) [of ok MessageNextTurn s c d True a]
    by (cases r) (auto simp: runSubmitted_def)
qed

text \<open>A step is one of these, as far as the invariants can tell; the inbox is left out.\<close>

fun in_turn :: "driver_pc \<Rightarrow> bool" where
  "in_turn (PcClaimed t ms) = True" | "in_turn (PcRunning t ms) = True" | "in_turn _ = False"

fun running :: "driver_pc \<Rightarrow> bool" where
  "running (PcRunning t ms) = True" | "running _ = False"

fun past_exit :: "driver_pc \<Rightarrow> bool" where
  "past_exit (PcDrain cs p) = True" | "past_exit (PcScope p) = True" | "past_exit PcDispose = True" | "past_exit PcDone = True" | "past_exit _ = False"

definition core_inv :: "Agent \<Rightarrow> bool" where
  "core_inv a \<longleftrightarrow> (ag_turnClaimed a \<longleftrightarrow> in_turn (ag_pc a)) \<and> (ag_closed a \<longleftrightarrow> ag_status a = StatusClosed) \<and>
     (ag_status a = StatusRunning \<longrightarrow> running (ag_pc a)) \<and> (running (ag_pc a) \<longrightarrow> ag_closed a \<or> ag_status a = StatusRunning) \<and>
     (ag_started a \<longleftrightarrow> ag_pc a \<noteq> PcNone) \<and> (past_exit (ag_pc a) \<longrightarrow> ag_closed a)"

lemma complete_fields [simp]:
  "ag_status (completeWaitersLocked ms r a) = ag_status a" "ag_started (completeWaitersLocked ms r a) = ag_started a"
  "ag_closed (completeWaitersLocked ms r a) = ag_closed a" "ag_maintenance (completeWaitersLocked ms r a) = ag_maintenance a"
  "ag_phase (completeWaitersLocked ms r a) = ag_phase a" "ag_phaseDone (completeWaitersLocked ms r a) = ag_phaseDone a"
  "ag_turnClaimed (completeWaitersLocked ms r a) = ag_turnClaimed a" "ag_scopeClosed (completeWaitersLocked ms r a) = ag_scopeClosed a"
  "ag_channels (completeWaitersLocked ms r a) = ag_channels a" "ag_lost (completeWaitersLocked ms r a) = ag_lost a"
  "ag_threads (completeWaitersLocked ms r a) = ag_threads a" "ag_pc (completeWaitersLocked ms r a) = ag_pc a"
  unfolding completeWaitersLocked_def by (induction ms arbitrary: a) (simp_all add: send_all_def split: option.split)

lemmas driver_defs = driver_gate_def driver_claim_def driver_begin_def driver_settle_def driver_next_def driver_exit_def
  driver_drain_def send_all_def spawn_def forget_waiter_def

lemmas caller_defs = AgentClaimStep_def ClaimSteerStep_def CancelWithOptions_def cancel_clear_def run_remove_def RunMaintenance_def
  AgentClose_def close_settle_def

lemmas cancel_defs = cancel_phase_def cancel_turn_def

lemma core_inv_step: "agent_step a b \<Longrightarrow> core_inv a \<Longrightarrow> core_inv b"
proof (induction rule: agent_step.induct)
  case (put a ok k s c d w)
  then show ?case by (auto simp: core_inv_def)
next
  case (steer a ok s c d)
  then show ?case using steer_eq [of ok s c d a] by (auto simp: core_inv_def spawn_def)
next
  case (submit a ok s c d)
  then show ?case using submit_eq [of ok s c d a] by (auto simp: core_inv_def spawn_def forget_waiter_def)
next
  case (claim a ok)
  then show ?case by (auto simp: driver_claim_def core_inv_def split: prod.split sum.split option.split)
next
  case (claim_step a t ms ok)
  then show ?case by (auto simp: AgentClaimStep_def core_inv_def split: prod.split)
next
  case (claim_steer a t ms ok)
  then show ?case by (auto simp: ClaimSteerStep_def AgentClaimStep_def core_inv_def split: prod.split)
next
  case (run_removed a xs i c ys ok)
  then show ?case by (auto simp: run_remove_def CancelWithOptions_def core_inv_def spawn_def split: prod.split sum.split bool.split)
next
  case (cancel_clears a xs t p ys ok)
  then show ?case by (auto simp: cancel_clear_def core_inv_def spawn_def cancel_turn_def split: prod.split option.split)
qed (auto simp: core_inv_def AgentStart_def driver_defs caller_defs cancel_defs maintenance_phase_def Let_def split: option.split)


section \<open>Every channel is in one place\<close>

fun pc_chans :: "driver_pc \<Rightarrow> nat list" where
  "pc_chans (PcDrain cs p) = cs" | "pc_chans _ = []"

fun thread_chans :: "thread \<Rightarrow> nat list" where
  "thread_chans (CloseSettle cs p s) = cs" | "thread_chans _ = []"

definition channel_places :: "Agent \<Rightarrow> nat list" where
  "channel_places a = vals (ag_waiters a) @ map fst (ag_settled a) @ pc_chans (ag_pc a) @ concat (map thread_chans (ag_threads a)) @ ag_lost a"

definition chan_inv :: "Agent \<Rightarrow> bool" where
  "chan_inv a \<longleftrightarrow> mset (channel_places a) = mset [0..<ag_channels a] \<and> distinct (map fst (ag_waiters a)) \<and>
     (ag_closed a \<longrightarrow> ag_waiters a = [])"

lemma delete_vals: "distinct (map fst xs) \<Longrightarrow>
  mset (vals (AList.delete k xs)) + mset (case map_of xs k of None \<Rightarrow> [] | Some c \<Rightarrow> [c]) = mset (vals xs)"
proof (induction xs)
  case (Cons x xs)
  then show ?case
    by (cases x; cases "map_of xs k") (auto simp: AList.delete_eq filter_id_conv dest!: map_of_SomeD intro: rev_image_eqI)
qed simp

lemma update_new_vals: "k \<notin> set (map fst ys) \<Longrightarrow> map snd (AList.update k v ys) = map snd ys @ [v]"
  by (induction ys) auto

lemma update_delete_vals: "map snd (AList.update k v (AList.delete k xs)) = map snd (AList.delete k xs) @ [v]"
  by (rule update_new_vals) (simp add: delete_keys)

lemma taken_vals: "distinct (map fst xs) \<Longrightarrow>
  image_mset snd (mset xs) = image_mset snd (mset (AList.delete k xs)) + mset (case map_of xs k of None \<Rightarrow> [] | Some c \<Rightarrow> [c])"
  using delete_vals [of xs k] by simp

lemma chan_put: "chan_inv (snd (agent_put ok k s c d w a)) = chan_inv a"
  by (simp add: chan_inv_def channel_places_def)

lemma chan_forget: "chan_inv a \<Longrightarrow> chan_inv (forget_waiter i a)"
  by (auto simp: chan_inv_def channel_places_def forget_waiter_def distinct_delete taken_vals [of "ag_waiters a" i] ac_simps)

lemma complete_one:
  assumes "chan_inv a" "map_of (ag_waiters a) i = Some c"
  shows "chan_inv (send_all [c] r (a\<lparr>ag_waiters := AList.delete i (ag_waiters a)\<rparr>))"
  using assms
  by (auto simp: chan_inv_def channel_places_def send_all_def distinct_delete taken_vals [of "ag_waiters a" i] ac_simps)

lemma chan_complete: "chan_inv a \<Longrightarrow> chan_inv (completeWaitersLocked ms r a)"
  unfolding completeWaitersLocked_def by (induction ms arbitrary: a) (simp_all add: complete_one split: option.split)

lemma chan_submit:
  assumes "chan_inv b" "\<not> ag_closed b"
  shows "chan_inv (spawn (RunWait i (ag_channels b)) ((forget_waiter i b)\<lparr>ag_waiters := AList.update i (ag_channels b) (ag_waiters (forget_waiter i b)),
    ag_channels := ag_channels b + 1\<rparr>))"
  using chan_forget [OF assms(1), of i] assms(2)
  by (auto simp: chan_inv_def channel_places_def forget_waiter_def spawn_def update_delete_vals distinct_update)

lemma put_inr: "agent_put ok k s c d w a = (Inr m, b) \<Longrightarrow> \<not> ag_closed b"
  by (auto simp: agent_put_def split: prod.splits sum.splits if_splits)

lemma chan_inv_step: "agent_step a b \<Longrightarrow> core_inv a \<Longrightarrow> chan_inv a \<Longrightarrow> chan_inv b"
proof (induction rule: agent_step.induct)
  case (start a)
  then show ?case by (auto simp: chan_inv_def channel_places_def AgentStart_def core_inv_def)
next
  case (put a ok k s c d w)
  then show ?case by (simp add: chan_put)
next
  case (steer a ok s c d)
  then show ?case using steer_eq [of ok s c d a] by (auto simp: chan_inv_def channel_places_def spawn_def)
next
  case (submit a ok s c d)
  then show ?case using submit_eq [of ok s c d a] chan_submit [of "snd (agent_put ok MessageNextTurn s c d True a)"]
    by (auto simp: chan_put)
next
  case (settle a t ms r)
  then have "chan_inv (a\<lparr>ag_turnCancel := None, ag_activeTurn := 0, ag_turnClaimed := False, ag_steerPending := False\<rparr>)"
    by (simp add: chan_inv_def channel_places_def)
  from chan_complete [OF this, of ms r] settle show ?case
    by (auto simp: chan_inv_def channel_places_def driver_settle_def Let_def)
next
  case (claim a ok)
  then show ?case by (auto simp: driver_claim_def chan_inv_def channel_places_def split: prod.split sum.split option.split)
next
  case (claim_step a t ms ok)
  then show ?case by (auto simp: AgentClaimStep_def chan_inv_def channel_places_def split: prod.split)
next
  case (claim_steer a t ms ok)
  then show ?case by (auto simp: ClaimSteerStep_def AgentClaimStep_def chan_inv_def channel_places_def split: prod.split)
next
  case (run_removed a xs i c ys ok)
  then show ?case by (auto simp: run_remove_def CancelWithOptions_def chan_inv_def channel_places_def spawn_def ac_simps split: prod.split sum.split bool.split)
next
  case (run_forget a xs i c ys)
  then have "chan_inv (a\<lparr>ag_threads := xs @ ys\<rparr>)" by (simp add: chan_inv_def channel_places_def)
  then show ?case by (rule chan_forget)
next
  case (cancel_clears a xs t p ys ok)
  then show ?case by (auto simp: cancel_clear_def chan_inv_def channel_places_def spawn_def cancel_turn_def ac_simps split: prod.split option.split)
next
  case (begin_turn a turn ms)
  then show ?case by (auto simp: chan_inv_def channel_places_def driver_begin_def ac_simps)
next
  case (exit a)
  then show ?case by (auto simp: chan_inv_def channel_places_def driver_exit_def Let_def ac_simps)
next
  case (drain a cs p)
  then show ?case by (cases p) (auto simp: chan_inv_def channel_places_def driver_drain_def Let_def cancel_phase_def send_all_def o_def ac_simps)
next
  case (close a)
  then show ?case by (auto simp: chan_inv_def channel_places_def AgentClose_def Let_def cancel_turn_def spawn_def ac_simps split: option.split)
next
  case (close_settles a xs cs p s ys)
  then show ?case by (cases p) (auto simp: chan_inv_def channel_places_def close_settle_def Let_def cancel_phase_def send_all_def spawn_def o_def ac_simps)
qed (auto simp: chan_inv_def channel_places_def AgentStart_def driver_gate_def driver_next_def CancelWithOptions_def RunMaintenance_def
  cancel_defs spawn_def ac_simps split: option.split)


section \<open>Phases and the scope\<close>

fun task_of :: "thread \<Rightarrow> (bool \<times> nat) list" where
  "task_of (MaintenanceTask p) = [(True, p)]" | "task_of (MaintenanceClear p) = [(False, p)]" | "task_of _ = []"

definition tasks :: "Agent \<Rightarrow> (bool \<times> nat) list" where
  "tasks a = concat (map task_of (ag_threads a))"

definition phase_inv :: "Agent \<Rightarrow> bool" where
  "phase_inv a \<longleftrightarrow> (\<not> ag_maintenance a \<and> tasks a = [] \<and> ag_phaseDone a = ag_phase a) \<or>
     (ag_maintenance a \<and> tasks a = [(True, ag_phase a)] \<and> Suc (ag_phaseDone a) = ag_phase a) \<or>
     (ag_maintenance a \<and> tasks a = [(False, ag_phase a)] \<and> ag_phaseDone a = ag_phase a)"

lemma steer_parts:
  "ag_maintenance (snd (AgentSteer ok s c d a)) = ag_maintenance a" "ag_phase (snd (AgentSteer ok s c d a)) = ag_phase a"
  "ag_phaseDone (snd (AgentSteer ok s c d a)) = ag_phaseDone a" "tasks (snd (AgentSteer ok s c d a)) = tasks a"
  using steer_eq [of ok s c d a] by (auto simp: spawn_def tasks_def)

lemma submit_parts:
  "ag_maintenance (snd (runSubmitted ok s c d a)) = ag_maintenance a" "ag_phase (snd (runSubmitted ok s c d a)) = ag_phase a"
  "ag_phaseDone (snd (runSubmitted ok s c d a)) = ag_phaseDone a" "tasks (snd (runSubmitted ok s c d a)) = tasks a"
  using submit_eq [of ok s c d a] by (auto simp: spawn_def tasks_def forget_waiter_def)

lemma phase_inv_step: "agent_step a b \<Longrightarrow> phase_inv a \<Longrightarrow> phase_inv b"
proof (induction rule: agent_step.induct)
  case (put a ok k s c d w)
  then show ?case by (simp add: phase_inv_def tasks_def)
next
  case (steer a ok s c d)
  then show ?case by (simp add: phase_inv_def steer_parts)
next
  case (submit a ok s c d)
  then show ?case by (simp add: phase_inv_def submit_parts)
next
  case (claim a ok)
  then show ?case by (auto simp: driver_claim_def phase_inv_def tasks_def split: prod.split sum.split option.split)
next
  case (claim_step a t ms ok)
  then show ?case by (auto simp: AgentClaimStep_def phase_inv_def tasks_def split: prod.split)
next
  case (claim_steer a t ms ok)
  then show ?case by (auto simp: ClaimSteerStep_def AgentClaimStep_def phase_inv_def tasks_def split: prod.split)
next
  case (run_removed a xs i c ys ok)
  then show ?case by (auto simp: run_remove_def CancelWithOptions_def phase_inv_def tasks_def spawn_def split: prod.split sum.split bool.split)
next
  case (cancel_clears a xs t p ys ok)
  then show ?case by (auto simp: cancel_clear_def phase_inv_def tasks_def spawn_def cancel_turn_def split: prod.split option.split)
qed (auto simp: phase_inv_def tasks_def AgentStart_def driver_defs caller_defs cancel_defs Let_def Cons_eq_append_conv append_eq_Cons_conv split: option.split)


fun closing_of :: "thread \<Rightarrow> (bool \<times> nat option) list" where
  "closing_of (CloseSettle cs p s) = [(s, p)]" | "closing_of (CloseDispose p) = [(False, p)]"
| "closing_of CloseScope = [(False, None)]" | "closing_of _ = []"

definition closings :: "Agent \<Rightarrow> (bool \<times> nat option) list" where
  "closings a = concat (map closing_of (ag_threads a))"

fun exit_phases :: "driver_pc \<Rightarrow> nat option list" where
  "exit_phases (PcDrain cs p) = [p]" | "exit_phases (PcScope p) = [p]" | "exit_phases _ = []"

fun scoped :: "driver_pc \<Rightarrow> bool" where
  "scoped PcDispose = True" | "scoped PcDone = True" | "scoped _ = False"

primrec safe_at :: "nat \<Rightarrow> nat \<Rightarrow> nat option \<Rightarrow> bool" where
  "safe_at ph over None = (over = ph)" | "safe_at ph over (Some n) = (n = ph)"

abbreviation safe_phase :: "Agent \<Rightarrow> nat option \<Rightarrow> bool" where
  "safe_phase a \<equiv> safe_at (ag_phase a) (ag_phaseDone a)"

fun closing_ok :: "bool \<Rightarrow> bool \<Rightarrow> nat \<Rightarrow> nat \<Rightarrow> thread \<Rightarrow> bool" where
  "closing_ok shut started ph over (CloseSettle cs p s) = (shut \<and> s = started \<and> safe_at ph over p)"
| "closing_ok shut started ph over (CloseDispose p) = (shut \<and> \<not> started \<and> safe_at ph over p)"
| "closing_ok shut started ph over CloseScope = (shut \<and> \<not> started \<and> over = ph)"
| "closing_ok shut started ph over _ = True"

definition close_inv :: "Agent \<Rightarrow> bool" where
  "close_inv a \<longleftrightarrow> (\<forall>t \<in> set (ag_threads a). closing_ok (ag_closed a) (ag_started a) (ag_phase a) (ag_phaseDone a) t) \<and>
     (\<forall>p \<in> set (exit_phases (ag_pc a)). ag_closed a \<and> safe_phase a p) \<and>
     (0 < ag_scopeClosed a \<longrightarrow> ag_closed a \<and> ag_phaseDone a = ag_phase a) \<and>
     (\<not> ag_started a \<longrightarrow> length (closings a) + ag_scopeClosed a \<le> 1) \<and>
     (ag_started a \<longrightarrow> ag_scopeClosed a = (if scoped (ag_pc a) then 1 else 0))"

lemma closing_ok_none: "closing_ok False st ph d t \<longleftrightarrow> closing_of t = []"
  by (cases t) auto

lemma closing_ok_nil: "closing_of t = [] \<Longrightarrow> closing_ok cl st ph d t"
  by (cases t) auto

lemma not_closed_quiet: "close_inv a \<Longrightarrow> \<not> ag_closed a \<Longrightarrow> closings a = [] \<and> ag_scopeClosed a = 0 \<and>
    exit_phases (ag_pc a) = [] \<and> (ag_started a \<longrightarrow> \<not> scoped (ag_pc a))"
  unfolding close_inv_def by (cases "exit_phases (ag_pc a)") (auto simp: closings_def closing_ok_none split: if_splits)

lemma quiet_ok: "closings a = [] \<Longrightarrow> t \<in> set (ag_threads a) \<Longrightarrow> closing_ok cl st ph d t"
  by (auto simp: closings_def intro: closing_ok_nil)

definition same_close :: "Agent \<Rightarrow> Agent \<Rightarrow> bool" where
  "same_close a b \<longleftrightarrow> closings b = closings a \<and> ag_closed b = ag_closed a \<and> ag_started b = ag_started a \<and>
    ag_phase b = ag_phase a \<and> ag_phaseDone b = ag_phaseDone a \<and> ag_scopeClosed b = ag_scopeClosed a \<and>
    exit_phases (ag_pc b) = exit_phases (ag_pc a) \<and> scoped (ag_pc b) = scoped (ag_pc a) \<and>
    (\<forall>cl st ph d. (\<forall>t \<in> set (ag_threads b). closing_ok cl st ph d t) = (\<forall>t \<in> set (ag_threads a). closing_ok cl st ph d t))"

lemma close_inv_frame: "close_inv a \<Longrightarrow> same_close a b \<Longrightarrow> close_inv b"
  by (simp add: close_inv_def same_close_def)

lemma steer_closings: "closings (snd (AgentSteer ok s c d a)) = closings a" "ag_pc (snd (AgentSteer ok s c d a)) = ag_pc a"
  "ag_closed (snd (AgentSteer ok s c d a)) = ag_closed a" "ag_started (snd (AgentSteer ok s c d a)) = ag_started a"
  "ag_scopeClosed (snd (AgentSteer ok s c d a)) = ag_scopeClosed a"
  "(\<forall>t \<in> set (ag_threads (snd (AgentSteer ok s c d a))). closing_ok cl st ph over t) = (\<forall>t \<in> set (ag_threads a). closing_ok cl st ph over t)"
  using steer_eq [of ok s c d a] by (auto simp: spawn_def closings_def)

lemma submit_closings: "closings (snd (runSubmitted ok s c d a)) = closings a" "ag_pc (snd (runSubmitted ok s c d a)) = ag_pc a"
  "ag_closed (snd (runSubmitted ok s c d a)) = ag_closed a" "ag_started (snd (runSubmitted ok s c d a)) = ag_started a"
  "ag_scopeClosed (snd (runSubmitted ok s c d a)) = ag_scopeClosed a"
  "(\<forall>t \<in> set (ag_threads (snd (runSubmitted ok s c d a))). closing_ok cl st ph over t) = (\<forall>t \<in> set (ag_threads a). closing_ok cl st ph over t)"
  using submit_eq [of ok s c d a] by (auto simp: spawn_def closings_def forget_waiter_def)

lemma safe_at_over: "safe_at ph d p \<Longrightarrow> safe_at ph ph p"
  by (cases p) auto

lemma closing_ok_over: "closing_ok cl st ph d t \<Longrightarrow> closing_ok cl st ph ph t"
  by (cases t) (auto intro: safe_at_over)

lemma exit_fields:
  "ag_closed (driver_exit a)" "ag_started (driver_exit a) = ag_started a" "ag_phase (driver_exit a) = ag_phase a"
  "ag_phaseDone (driver_exit a) = ag_phaseDone a" "ag_scopeClosed (driver_exit a) = ag_scopeClosed a"
  "ag_threads (driver_exit a) = ag_threads a" "exit_phases (ag_pc (driver_exit a)) = [maintenance_phase a]"
  "\<not> scoped (ag_pc (driver_exit a))"
  by (simp_all add: driver_exit_def Let_def maintenance_phase_def)

lemma close_inv_step: "agent_step a b \<Longrightarrow> core_inv a \<Longrightarrow> phase_inv a \<Longrightarrow> close_inv a \<Longrightarrow> close_inv b"
proof (induction rule: agent_step.induct)
  case (start a)
  show ?case
  proof (cases "ag_closed a \<or> ag_started a")
    case True
    then show ?thesis using start by (auto simp: AgentStart_def)
  next
    case False
    then show ?thesis using not_closed_quiet [OF start(3)] quiet_ok [of a]
      by (simp add: AgentStart_def close_inv_def closings_def)
  qed
next
  case (put a ok k s c d w)
  then show ?case
    by - (rule close_inv_frame [where a = a], simp_all add: same_close_def closings_def)
next
  case (steer a ok s c d)
  then show ?case
    by - (rule close_inv_frame [where a = a], simp_all add: same_close_def steer_parts steer_closings)
next
  case (submit a ok s c d)
  then show ?case
    by - (rule close_inv_frame [where a = a], simp_all add: same_close_def submit_parts submit_closings)
next
  case (claim a ok)
  then show ?case
    by - (rule close_inv_frame [where a = a], simp_all add: same_close_def driver_claim_def closings_def split: prod.split sum.split option.split)
next
  case (claim_step a t ms ok)
  then show ?case
    by - (rule close_inv_frame [where a = a], simp_all add: same_close_def AgentClaimStep_def closings_def split: prod.split)
next
  case (claim_steer a t ms ok)
  then show ?case
    by - (rule close_inv_frame [where a = a], simp_all add: same_close_def ClaimSteerStep_def AgentClaimStep_def closings_def split: prod.split)
next
  case (run_removed a xs i c ys ok)
  then show ?case
    by - (rule close_inv_frame [where a = a], simp_all add: same_close_def run_remove_def CancelWithOptions_def closings_def spawn_def split: prod.split sum.split bool.split)
next
  case (cancel_clears a xs t p ys ok)
  then show ?case
    by - (rule close_inv_frame [where a = a], simp_all add: same_close_def cancel_clear_def closings_def spawn_def cancel_turn_def split: prod.split option.split)
next
  case (maintain a)
  show ?case
  proof (cases "fst (RunMaintenance a) = None")
    case True
    then have "\<not> ag_closed a" by (auto simp: RunMaintenance_def)
    then show ?thesis using not_closed_quiet [OF maintain(3)] quiet_ok [of a] maintain
      by (simp add: RunMaintenance_def close_inv_def closings_def spawn_def)
  next
    case False
    then show ?thesis using maintain by (auto simp: RunMaintenance_def split: if_splits)
  qed
next
  case (close a)
  have safe: "safe_phase a (maintenance_phase a)" using close(2) by (auto simp: maintenance_phase_def phase_inv_def)
  show ?case
  proof (cases "ag_disposed a \<or> ag_closed a")
    case True
    then show ?thesis using close(3)
      by (auto simp: AgentClose_def spawn_def same_close_def closings_def intro: close_inv_frame)
  next
    case False
    then show ?thesis using not_closed_quiet [OF close(3)] quiet_ok [of a] safe
      by (auto simp: AgentClose_def close_inv_def closings_def spawn_def Let_def cancel_turn_def maintenance_phase_def
        split: option.split)
  qed
next
  case (exit a)
  have safe: "safe_phase a (maintenance_phase a)" using exit(3) by (auto simp: maintenance_phase_def phase_inv_def)
  show ?case
  proof (cases "ag_closed a")
    case True
    then show ?thesis using exit safe by (simp add: close_inv_def closings_def exit_fields)
  next
    case False
    have "ag_started a" using exit(1,2) by (simp add: core_inv_def)
    then show ?thesis using not_closed_quiet [OF exit(4) False] quiet_ok [of a] safe by (simp add: close_inv_def closings_def exit_fields)
  qed
next
  case (drain a cs p)
  then show ?case
    by (auto simp: driver_drain_def close_inv_def closings_def Let_def cancel_phase_def send_all_def core_inv_def split: option.split)
next
  case (scope a p)
  then show ?case by (cases p) (auto simp: close_inv_def closings_def phase_over_def phase_inv_def core_inv_def)
next
  case (close_settles a xs cs p s ys)
  then show ?case by (cases p)
    (auto simp: close_inv_def closings_def close_settle_def Let_def cancel_phase_def send_all_def spawn_def)
next
  case (close_disposes a xs p ys)
  then show ?case by (cases p) (auto simp: close_inv_def closings_def phase_over_def phase_inv_def)
next
  case (close_scope a xs ys)
  then show ?case by (auto simp: close_inv_def closings_def)
next
  case (maintained a xs p ys)
  then have p: "p = ag_phase a" by (auto simp: phase_inv_def tasks_def Cons_eq_append_conv append_eq_Cons_conv)
  have "\<forall>t \<in> set (xs @ ys). closing_ok (ag_closed a) (ag_started a) (ag_phase a) (ag_phase a) t"
    using maintained(1,4) closing_ok_over [of "ag_closed a" "ag_started a" "ag_phase a" "ag_phaseDone a"]
    by (simp add: close_inv_def)
  moreover have "\<forall>q \<in> set (exit_phases (ag_pc a)). ag_closed a \<and> safe_at (ag_phase a) (ag_phase a) q"
    using maintained(4) safe_at_over [of "ag_phase a" "ag_phaseDone a"] by (simp add: close_inv_def)
  ultimately show ?case using maintained(1,4) p by (simp add: close_inv_def closings_def)
qed (erule close_inv_frame; simp add: same_close_def closings_def driver_defs Let_def cancel_defs CancelWithOptions_def maintenance_phase_def split: option.split)+

end
