(* ===== verification/Agent_Runtime.thy ===== *)
theory Agent_Runtime
  imports Agent_Lifecycle
begin

text \<open>
  What every reachable state of the agent runtime keeps, that a close can always be finished, and the
  interleavings the locks do not exclude.
\<close>

section \<open>Every reachable state\<close>

definition drive_inv :: "Agent \<Rightarrow> bool" where
  "drive_inv a \<longleftrightarrow> (ag_closed a \<and> ag_started a \<longrightarrow> past_exit (ag_pc a) \<or> ag_runCanceled a) \<and>
     (\<forall>p. ag_pc a = PcClaimMaintenance p \<longrightarrow> p \<le> ag_phase a) \<and> (ag_pc a = PcDone \<longrightarrow> ag_disposed a)"

lemma drive_frame:
  "drive_inv a \<Longrightarrow> ag_closed b = ag_closed a \<Longrightarrow> ag_started b = ag_started a \<Longrightarrow> ag_pc b = ag_pc a \<Longrightarrow>
   ag_runCanceled b = ag_runCanceled a \<Longrightarrow> ag_phase b = ag_phase a \<Longrightarrow> ag_disposed b = ag_disposed a \<Longrightarrow> drive_inv b"
  by (simp add: drive_inv_def)

lemma put_drive: "ag_runCanceled (snd (agent_put ok k s c d w a)) = ag_runCanceled a"
    "ag_disposed (snd (agent_put ok k s c d w a)) = ag_disposed a"
  by (simp_all add: agent_put_def split: prod.split sum.split)

lemma steer_drive: "ag_runCanceled (snd (AgentSteer ok s c d a)) = ag_runCanceled a"
    "ag_disposed (snd (AgentSteer ok s c d a)) = ag_disposed a"
  using steer_eq [of ok s c d a] by (auto simp: spawn_def put_drive)

lemma submit_drive: "ag_runCanceled (snd (runSubmitted ok s c d a)) = ag_runCanceled a"
    "ag_disposed (snd (runSubmitted ok s c d a)) = ag_disposed a"
  using submit_eq [of ok s c d a] by (auto simp: spawn_def put_drive forget_waiter_def)

lemma complete_drive [simp]: "ag_runCanceled (completeWaitersLocked ms r a) = ag_runCanceled a"
    "ag_disposed (completeWaitersLocked ms r a) = ag_disposed a"
  unfolding completeWaitersLocked_def by (induction ms arbitrary: a) (simp_all add: send_all_def split: option.split)

lemma status_drive [simp]: "ag_runCanceled (setStatusLocked s a) = ag_runCanceled a" "ag_disposed (setStatusLocked s a) = ag_disposed a"
  by (simp_all add: setStatusLocked_def)

lemma drive_inv_step: "agent_step a b \<Longrightarrow> core_inv a \<Longrightarrow> drive_inv a \<Longrightarrow> drive_inv b"
proof (induction rule: agent_step.induct)
  case (put a ok k s c d w)
  then show ?case by (auto elim!: drive_frame simp: put_drive)
next
  case (steer a ok s c d)
  then show ?case by (auto elim!: drive_frame simp: steer_drive steer_closings steer_parts)
next
  case (submit a ok s c d)
  then show ?case by (auto elim!: drive_frame simp: submit_drive submit_closings submit_parts)
next
  case (claim a ok)
  then show ?case by (auto simp: driver_claim_def drive_inv_def split: prod.split sum.split option.split)
next
  case (claim_step a t ms ok)
  then show ?case by (auto elim!: drive_frame simp: AgentClaimStep_def split: prod.split)
next
  case (claim_steer a t ms ok)
  then show ?case by (auto elim!: drive_frame simp: ClaimSteerStep_def AgentClaimStep_def split: prod.split)
next
  case (run_removed a xs i c ys ok)
  then show ?case
    by (auto elim!: drive_frame simp: run_remove_def CancelWithOptions_def spawn_def split: prod.split sum.split bool.split)
next
  case (cancel_clears a xs t p ys ok)
  then show ?case
    by (auto elim!: drive_frame simp: cancel_clear_def spawn_def cancel_turn_def split: prod.split option.split)
qed (auto simp: core_inv_def drive_inv_def AgentStart_def driver_defs caller_defs cancel_defs Let_def split: option.split)

definition agent_inv :: "Agent \<Rightarrow> bool" where
  "agent_inv a \<longleftrightarrow> core_inv a \<and> chan_inv a \<and> phase_inv a \<and> close_inv a \<and> drive_inv a"

lemma agent_inv_step: "agent_step a b \<Longrightarrow> agent_inv a \<Longrightarrow> agent_inv b"
  unfolding agent_inv_def
  using core_inv_step chan_inv_step phase_inv_step close_inv_step drive_inv_step by blast

lemma agent_inv_new: "agent_inv (newAgent inbox turn)"
  by (simp add: agent_inv_def core_inv_def chan_inv_def phase_inv_def close_inv_def drive_inv_def newAgent_def channel_places_def
    tasks_def closings_def)

lemma agent_inv_steps: "agent_step\<^sup>*\<^sup>* a b \<Longrightarrow> agent_inv a \<Longrightarrow> agent_inv b"
  by (induction rule: rtranclp_induct) (blast intro: agent_inv_step)+

lemma agent_reachable_inv: "agent_reachable a \<Longrightarrow> agent_inv a"
  using agent_inv_steps agent_inv_new by blast

lemma tasks_mem: "MaintenanceTask p \<in> set (ag_threads a) \<Longrightarrow> (True, p) \<in> set (tasks a)"
  by (force simp: tasks_def)

lemma no_task: "phase_inv a \<Longrightarrow> ag_phaseDone a = ag_phase a \<Longrightarrow> MaintenanceTask p \<notin> set (ag_threads a)"
  using tasks_mem [of p a] by (auto simp: phase_inv_def)

section \<open>A close can be finished\<close>

lemma step_keeps:
  assumes "agent_step a b" "core_inv a"
  shows "ag_closed a \<Longrightarrow> ag_closed b" "ag_started a \<Longrightarrow> ag_started b"
proof -
  have "(ag_closed a \<longrightarrow> ag_closed b) \<and> (ag_started a \<longrightarrow> ag_started b)" using assms(1)
  proof (cases rule: agent_step.cases)
    case (claim ok)
    then show ?thesis by (auto simp: driver_claim_def split: prod.split sum.split option.split)
  next
    case (claim_step t ms ok)
    then show ?thesis by (auto simp: AgentClaimStep_def split: prod.split)
  next
    case (claim_steer t ms ok)
    then show ?thesis by (auto simp: ClaimSteerStep_def AgentClaimStep_def split: prod.split)
  next
    case (run_removed xs i c ys ok)
    then show ?thesis by (auto simp: run_remove_def CancelWithOptions_def spawn_def split: prod.split sum.split bool.split)
  next
    case (cancel_clears xs t p ys ok)
    then show ?thesis by (auto simp: cancel_clear_def spawn_def cancel_turn_def split: prod.split option.split)
  qed (auto simp: AgentStart_def steer_closings submit_closings driver_defs caller_defs cancel_defs Let_def split: option.split)
  then show "ag_closed a \<Longrightarrow> ag_closed b" "ag_started a \<Longrightarrow> ag_started b" by auto
qed

lemma steps_keep:
  assumes "agent_step\<^sup>*\<^sup>* a b" "agent_inv a" "ag_closed a" "ag_started a"
  shows "agent_inv b \<and> ag_closed b \<and> ag_started b"
  using assms
proof (induction rule: rtranclp_induct)
  case (step y z)
  then show ?case using agent_inv_step step_keeps [of y z] by (auto simp: agent_inv_def)
qed simp

lemma task_of_iff: "(True, p) \<in> set (task_of t) \<longleftrightarrow> t = MaintenanceTask p" "(False, p) \<in> set (task_of t) \<longleftrightarrow> t = MaintenanceClear p"
  by (cases t; auto)+

text \<open>The maintenance task, if there is one, ends and is forgotten.\<close>

lemma maintenance_ends:
  assumes "agent_inv a"
  shows "\<exists>b. agent_step\<^sup>*\<^sup>* a b \<and> \<not> ag_maintenance b"
proof -
  have clear: "\<exists>b. agent_step c b \<and> \<not> ag_maintenance b" if "(False, p) \<in> set (tasks c)" for c p
  proof -
    have "MaintenanceClear p \<in> set (ag_threads c)" using that by (auto simp: tasks_def task_of_iff)
    then obtain xs ys where "ag_threads c = xs @ MaintenanceClear p # ys" by (meson split_list)
    then show ?thesis using maintenance_clear by fastforce
  qed
  have task: "\<exists>b. agent_step c b \<and> (False, p) \<in> set (tasks b)" if "(True, p) \<in> set (tasks c)" for c p
  proof -
    have "MaintenanceTask p \<in> set (ag_threads c)" using that by (auto simp: tasks_def task_of_iff)
    then obtain xs ys where t: "ag_threads c = xs @ MaintenanceTask p # ys" by (meson split_list)
    show ?thesis by (rule exI, rule conjI, rule maintained [OF t]) (simp add: tasks_def)
  qed
  consider "\<not> ag_maintenance a" | "(False, ag_phase a) \<in> set (tasks a)" | "(True, ag_phase a) \<in> set (tasks a)"
    using assms by (auto simp: agent_inv_def phase_inv_def)
  then show ?thesis
  proof cases
    case 3
    obtain b where b: "agent_step a b" "(False, ag_phase a) \<in> set (tasks b)" using task [OF 3] by blast
    show ?thesis using clear [OF b(2)] b(1) by (meson converse_rtranclp_into_rtranclp r_into_rtranclp)
  qed (auto dest: clear)
qed

fun rank :: "driver_pc \<Rightarrow> nat" where
  "rank (PcMaintenance p) = 13" | "rank (PcClaimMaintenance p) = 14" | "rank PcTop = 13" | "rank PcClaim = 12"
| "rank PcWait = 10" | "rank (PcClaimed t ms) = 10" | "rank (PcRunning t ms) = 8" | "rank (PcSettled c) = 7" | "rank PcExit = 6"
| "rank (PcDrain cs p) = 5" | "rank (PcScope p) = 4" | "rank PcDispose = 3" | "rank PcDone = 0" | "rank PcNone = 15"

definition finishing :: "Agent \<Rightarrow> bool" where
  "finishing a \<longleftrightarrow> agent_inv a \<and> ag_closed a \<and> ag_started a \<and> \<not> ag_maintenance a"

lemma finishing_step:
  assumes "finishing a" "ag_pc a \<noteq> PcDone"
  shows "\<exists>b. agent_step a b \<and> \<not> ag_maintenance b \<and> rank (ag_pc b) < rank (ag_pc a)"
proof -
  have inv: "core_inv a" "phase_inv a" "close_inv a" "drive_inv a" and shut: "ag_closed a" "ag_started a" "\<not> ag_maintenance a"
    using assms(1) by (auto simp: finishing_def agent_inv_def)
  have phase: "ag_phaseDone a = ag_phase a" using inv(2) shut(3) by (auto simp: phase_inv_def)
  show ?thesis
  proof (cases "ag_pc a")
    case PcNone
    then show ?thesis using inv(1) shut by (simp add: core_inv_def)
  next
    case PcTop
    then show ?thesis by - (intro exI conjI, rule gate, simp_all add: driver_gate_def maintenance_phase_def shut)
  next
    case (PcMaintenance p)
    then show ?thesis using inv(4) shut by - (intro exI conjI, rule gate_canceled, simp_all add: drive_inv_def)
  next
    case PcClaim
    then show ?thesis by - (intro exI conjI, rule claim, auto simp: driver_claim_def shut split: prod.split sum.split option.split)
  next
    case (PcClaimMaintenance p)
    then show ?thesis using inv(4) phase shut by - (intro exI conjI, rule claim_over, auto simp: drive_inv_def)
  next
    case PcWait
    then have "Wait (ag_runCanceled a) True (ag_inbox a) = Some (Some ErrContext, ag_inbox a)"
      using inv(4) shut by (simp add: Wait_def drive_inv_def)
    from unwoken [OF PcWait this] show ?thesis using PcWait shut by - (intro exI conjI, assumption, simp_all)
  next
    case (PcClaimed t ms)
    then show ?thesis by - (intro exI conjI, rule begin_turn, simp_all add: driver_begin_def shut)
  next
    case (PcRunning t ms)
    then show ?thesis by - (intro exI conjI, rule settle, simp_all add: driver_settle_def Let_def shut)
  next
    case (PcSettled c)
    then show ?thesis using inv(4) shut by - (intro exI conjI, rule settled, simp_all add: driver_next_def drive_inv_def)
  next
    case PcExit
    then show ?thesis by - (intro exI conjI, rule exit, simp_all add: driver_exit_def Let_def shut)
  next
    case (PcDrain cs p)
    then show ?thesis by - (intro exI conjI, rule drain, simp_all add: driver_drain_def send_all_def Let_def cancel_phase_def shut split: option.split)
  next
    case (PcScope p)
    then have "phase_over p a" using inv(3) phase by (cases p) (auto simp: close_inv_def phase_over_def)
    then show ?thesis using PcScope shut by - (intro exI conjI, rule scope, simp_all)
  next
    case PcDispose
    then show ?thesis using shut by - (intro exI conjI, rule dispose, simp_all)
  qed (use assms(2) in simp)
qed

lemma finishing_ends: "finishing a \<Longrightarrow> \<exists>b. agent_step\<^sup>*\<^sup>* a b \<and> ag_pc b = PcDone"
proof (induction "rank (ag_pc a)" arbitrary: a rule: less_induct)
  case less
  show ?case
  proof (cases "ag_pc a = PcDone")
    case False
    then obtain b where b: "agent_step a b" "\<not> ag_maintenance b" "rank (ag_pc b) < rank (ag_pc a)"
      using finishing_step less.prems by blast
    moreover have "finishing b"
      using steps_keep [of a b] b(1,2) less.prems by (auto simp: finishing_def)
    ultimately show ?thesis using less.hyps by (meson converse_rtranclp_into_rtranclp)
  qed blast
qed

lemma settles_end:
  "ag_pc a = PcDone \<Longrightarrow> \<exists>b. agent_step\<^sup>*\<^sup>* a b \<and> ag_pc b = PcDone \<and> concat (map thread_chans (ag_threads b)) = []"
proof (induction "length (concat (map thread_chans (ag_threads a)))" arbitrary: a rule: less_induct)
  case less
  show ?case
  proof (cases "concat (map thread_chans (ag_threads a)) = []")
    case False
    then obtain t where t: "t \<in> set (ag_threads a)" "thread_chans t \<noteq> []" by auto
    from t(2) obtain cs p s where "t = CloseSettle cs p s" "cs \<noteq> []" by (cases t) auto
    moreover obtain xs ys where "ag_threads a = xs @ t # ys" using t(1) by (meson split_list)
    ultimately have th: "ag_threads a = xs @ CloseSettle cs p s # ys" "cs \<noteq> []" by auto
    define b where "b = close_settle cs p s (a\<lparr>ag_threads := xs @ ys\<rparr>)"
    have "ag_pc b = PcDone" "length (concat (map thread_chans (ag_threads b))) < length (concat (map thread_chans (ag_threads a)))"
      using th less.prems by (auto simp: b_def close_settle_def Let_def spawn_def send_all_def)
    moreover have "agent_step a b" unfolding b_def by (rule close_settles [OF th(1)])
    ultimately show ?thesis using less.hyps by (meson converse_rtranclp_into_rtranclp)
  qed (use less.prems in blast)
qed

definition released :: "Agent \<Rightarrow> bool" where
  "released b \<longleftrightarrow> ag_pc b = PcDone \<and> ag_disposed b \<and> ag_scopeClosed b = 1 \<and> (\<forall>c < ag_channels b. c \<in> fst ` set (ag_settled b) \<union> set (ag_lost b))"

lemma close_ends:
  assumes "agent_inv a" "ag_closed a" "ag_started a"
  shows "\<exists>b. agent_step\<^sup>*\<^sup>* a b \<and> released b"
proof -
  obtain b where b: "agent_step\<^sup>*\<^sup>* a b" "\<not> ag_maintenance b" using maintenance_ends assms(1) by blast
  then have "finishing b" using steps_keep assms by (simp add: finishing_def)
  then obtain c where c: "agent_step\<^sup>*\<^sup>* b c" "ag_pc c = PcDone" using finishing_ends by blast
  then obtain d where d: "agent_step\<^sup>*\<^sup>* c d" "ag_pc d = PcDone" "concat (map thread_chans (ag_threads d)) = []"
    using settles_end by blast
  have steps: "agent_step\<^sup>*\<^sup>* a d" using b(1) c(1) d(1) by simp
  then have inv: "agent_inv d" "ag_closed d" "ag_started d" using steps_keep assms by blast+
  have "mset (map fst (ag_settled d) @ ag_lost d) = mset [0..<ag_channels d]"
  proof -
    have "ag_waiters d = []" "mset (channel_places d) = mset [0..<ag_channels d]"
      using inv by (simp_all add: agent_inv_def chan_inv_def)
    moreover have "channel_places d = vals (ag_waiters d) @ map fst (ag_settled d) @ ag_lost d"
      unfolding channel_places_def d(2,3) by simp
    ultimately show ?thesis by simp
  qed
  from mset_eq_setD [OF this] have "fst ` set (ag_settled d) \<union> set (ag_lost d) = {0..<ag_channels d}" by simp
  then have "released d" using inv d(2) by (auto simp: released_def agent_inv_def drive_inv_def close_inv_def)
  then show ?thesis using steps by blast
qed

section \<open>Runs\<close>

text \<open>A schedule: the driver's next action, and the next action of the thread in front.\<close>

definition drive :: "Agent \<Rightarrow> Agent" where
  "drive a = (case ag_pc a of
     PcTop \<Rightarrow> driver_gate a
   | PcClaim \<Rightarrow> driver_claim (\<lambda>_. True) a
   | PcWait \<Rightarrow> (case Wait (ag_runCanceled a) True (ag_inbox a) of
         None \<Rightarrow> a
       | Some (None, i) \<Rightarrow> a\<lparr>ag_inbox := i, ag_pc := PcTop\<rparr>
       | Some (Some e, i) \<Rightarrow> a\<lparr>ag_inbox := i, ag_pc := PcExit\<rparr>)
   | PcClaimed t ms \<Rightarrow> driver_begin t ms a
   | PcRunning t ms \<Rightarrow> driver_settle TurnDone ms a
   | PcSettled c \<Rightarrow> driver_next c a
   | PcExit \<Rightarrow> driver_exit a
   | PcDrain cs p \<Rightarrow> driver_drain cs p a
   | PcScope p \<Rightarrow> if phase_over p a then a\<lparr>ag_scopeClosed := ag_scopeClosed a + 1, ag_pc := PcDispose\<rparr> else a
   | PcDispose \<Rightarrow> a\<lparr>ag_disposed := True, ag_pc := PcDone\<rparr>
   | _ \<Rightarrow> a)"

definition front :: "Agent \<Rightarrow> Agent" where
  "front a = (case ag_threads a of
     CancelSteer t p # ts \<Rightarrow> a\<lparr>ag_threads := CancelClear t p # ts, ag_steerPending := False\<rparr>
   | CancelClear t p # ts \<Rightarrow> cancel_clear (\<lambda>_. True) t p (a\<lparr>ag_threads := ts\<rparr>)
   | CancelDo t p # ts \<Rightarrow> cancel_phase p (cancel_turn t (a\<lparr>ag_threads := ts\<rparr>))
   | CloseSettle cs p s # ts \<Rightarrow> close_settle cs p s (a\<lparr>ag_threads := ts\<rparr>)
   | _ \<Rightarrow> a)"

lemma drive_steps: "agent_step\<^sup>*\<^sup>* a (drive a)"
proof -
  have "agent_step a (drive a) \<or> drive a = a"
  proof (cases "ag_pc a")
    case PcWait
    show ?thesis
    proof (cases "Wait (ag_runCanceled a) True (ag_inbox a)")
      case (Some r)
      obtain e i where "r = (e, i)" by (cases r)
      then show ?thesis using Some PcWait woken [OF PcWait, of True i] unwoken [OF PcWait, of True]
        by (cases e) (auto simp: drive_def)
    qed (simp add: drive_def PcWait)
  next
    case (PcScope p)
    then show ?thesis using scope [OF PcScope] by (simp add: drive_def)
  qed (auto simp: drive_def intro: gate claim begin_turn settle settled exit drain scope dispose)
  then show ?thesis by auto
qed

lemma front_steps: "agent_step\<^sup>*\<^sup>* a (front a)"
proof (cases "ag_threads a")
  case Nil
  then show ?thesis by (simp add: front_def)
next
  case (Cons t ts)
  then have th: "ag_threads a = [] @ t # ts" by simp
  have "agent_step a (front a) \<or> front a = a"
  proof (cases t)
    case (CancelSteer x p)
    then show ?thesis using cancel_steer [of a "[]" x p ts] Cons by (simp add: front_def)
  next
    case (CancelClear x p)
    then show ?thesis using cancel_clears [of a "[]" x p ts "\<lambda>_. True"] Cons by (simp add: front_def)
  next
    case (CancelDo x p)
    then show ?thesis using cancel_does [of a "[]" x p ts] Cons by (simp add: front_def)
  next
    case (CloseSettle cs p s)
    then show ?thesis using close_settles [of a "[]" cs p s ts] Cons by (simp add: front_def)
  qed (simp_all add: front_def Cons)
  then show ?thesis by auto
qed

lemma iterate_steps: "(\<And>a. agent_step\<^sup>*\<^sup>* a (f a)) \<Longrightarrow> agent_step\<^sup>*\<^sup>* a ((f ^^ n) a)"
  by (induction n) (auto intro: rtranclp_trans)

definition started_agent :: Agent where
  "started_agent = snd (AgentStart (newAgent NewInbox 1))"

definition waiting_caller :: Agent where
  "waiting_caller = snd (runSubmitted (\<lambda>_. True) ''go'' [] [(''dedupe_key'', ''k'')] started_agent)"

definition claimed_turn :: Agent where
  "claimed_turn = drive (drive (snd (agent_put (\<lambda>_. True) MessageNextTurn ''go'' [] [] True started_agent)))"

definition overlapping :: Agent where
  "overlapping = drive (snd (RunMaintenance claimed_turn))"

definition stranded_by_cancel :: Agent where
  "stranded_by_cancel = (front ^^ 3) (snd (CancelWithOptions False waiting_caller))"

definition stranded_by_dedupe :: Agent where
  "stranded_by_dedupe = (drive ^^ 4) ((drive ^^ 3) (front (AgentClose
     (snd (runSubmitted (\<lambda>_. True) ''go'' [] [(''dedupe_key'', ''k'')] waiting_caller)))))"

definition not_idle :: Agent where
  "not_idle = (let a = snd (agent_put (\<lambda>_. True) MessageNextTurn ''go'' [] [] True started_agent)
     in (drive ^^ 3) (spawn (IdleWork (idle_flags a)) a))"

lemma started_steps: "agent_step\<^sup>*\<^sup>* (newAgent NewInbox 1) started_agent"
  unfolding started_agent_def by (rule r_into_rtranclp, rule start)

lemma then_step: "agent_step\<^sup>*\<^sup>* a b \<Longrightarrow> agent_step b c \<Longrightarrow> agent_step\<^sup>*\<^sup>* a c"
  by (rule rtranclp.rtrancl_into_rtrancl)

lemma waiting_steps: "agent_step\<^sup>*\<^sup>* (newAgent NewInbox 1) waiting_caller"
  unfolding waiting_caller_def
  by (rule then_step [OF started_steps], rule submit) (simp add: started_agent_def AgentStart_def newAgent_def)

lemma cancel_steps: "agent_step\<^sup>*\<^sup>* (newAgent NewInbox 1) stranded_by_cancel"
  unfolding stranded_by_cancel_def
  by (rule rtranclp_trans [OF then_step [OF waiting_steps cancel] iterate_steps [OF front_steps]])

lemma dedupe_steps: "agent_step\<^sup>*\<^sup>* (newAgent NewInbox 1) stranded_by_dedupe"
proof -
  have "agent_step waiting_caller (snd (runSubmitted (\<lambda>_. True) ''go'' [] [(''dedupe_key'', ''k'')] waiting_caller))"
    by (rule submit) code_simp
  from then_step [OF then_step [OF waiting_steps this] close] show ?thesis
    unfolding stranded_by_dedupe_def by (rule rtranclp_trans [OF rtranclp_trans [OF rtranclp_trans [OF _ front_steps] iterate_steps [OF drive_steps]]
        iterate_steps [OF drive_steps]])
qed

lemma claimed_steps: "agent_step\<^sup>*\<^sup>* (newAgent NewInbox 1) claimed_turn"
  unfolding claimed_turn_def
  by (rule rtranclp_trans [OF rtranclp_trans [OF then_step [OF started_steps put] drive_steps] drive_steps])

lemma overlap_steps: "agent_step\<^sup>*\<^sup>* (newAgent NewInbox 1) overlapping"
  unfolding overlapping_def by (rule rtranclp_trans [OF then_step [OF claimed_steps maintain] drive_steps])

lemma not_idle_steps: "agent_step\<^sup>*\<^sup>* (newAgent NewInbox 1) not_idle"
  unfolding not_idle_def Let_def
  by (rule rtranclp_trans [OF then_step [OF then_step [OF started_steps put] idle_look] iterate_steps [OF drive_steps]])

lemma overlapping_values: "ag_threads overlapping = [MaintenanceTask 1]" "running (ag_pc overlapping)"
  by code_simp+

lemma canceled_values: "ag_threads stranded_by_cancel = [RunWait ''inbox-1'' 0]" "ag_settled stranded_by_cancel = []"
  "PendingMessages (ag_inbox stranded_by_cancel) = []" "ag_pc stranded_by_cancel = PcTop" "ag_status stranded_by_cancel = StatusIdle"
  by code_simp+

text \<open>The two callers after the close, with the driver at its exit.\<close>

definition left_behind :: Agent where
  "left_behind = (newAgent (NewInbox\<lparr>ib_nextID := 1, ib_closed := True, ib_wake := True\<rparr>) 2)
     \<lparr>ag_status := StatusClosed, ag_started := True, ag_closed := True, ag_runCanceled := True, ag_channels := 2,
      ag_settled := [(1, AgentClosed)], ag_lost := [0], ag_events := [(StatusIdle, StatusClosed)], ag_pc := PcExit,
      ag_threads := [CloseWait, RunWait ''inbox-1'' 1, RunWait ''inbox-1'' 0]\<rparr>"

lemma dedupe_exit: "(drive ^^ 3) (front (AgentClose
     (snd (runSubmitted (\<lambda>_. True) ''go'' [] [(''dedupe_key'', ''k'')] waiting_caller)))) = left_behind"
  by code_simp

lemma dedupe_values: "ag_threads stranded_by_dedupe = [CloseWait, RunWait ''inbox-1'' 1, RunWait ''inbox-1'' 0]"
  "ag_settled stranded_by_dedupe = [(1, AgentClosed)]" "ag_pc stranded_by_dedupe = PcDone"
  unfolding stranded_by_dedupe_def dedupe_exit
  by (simp_all add: left_behind_def newAgent_def NewInbox_def drive_def eval_nat_numeral driver_exit_def driver_drain_def Let_def send_all_def cancel_phase_def phase_over_def maintenance_phase_def Close_def)

lemma not_idle_values: "ag_threads not_idle = [IdleWork True]" "HasWork (ag_inbox not_idle) = False" "running (ag_pc not_idle)"
  by code_simp+

lemma claimed_values: "in_turn (ag_pc claimed_turn)" "ag_turnClaimed claimed_turn"
  by code_simp+

section \<open>What the runtime promises\<close>

text \<open>
  C26: the flags of an agent agree with its driver in every reachable state: a turn is marked claimed exactly
  while the driver holds one, the status is closed exactly when the agent is, and running only inside the
  runner.
\<close>

theorem flags_agree:
  assumes "agent_reachable a"
  shows "(ag_turnClaimed a \<longleftrightarrow> in_turn (ag_pc a)) \<and> (ag_closed a \<longleftrightarrow> ag_status a = StatusClosed) \<and>
     (ag_status a = StatusRunning \<longrightarrow> running (ag_pc a)) \<and> (ag_started a \<longleftrightarrow> ag_pc a \<noteq> PcNone)"
  using agent_reachable_inv [OF assms] by (simp add: agent_inv_def core_inv_def)

lemma flags_agree_witness: "ag_turnClaimed claimed_turn \<and> in_turn (ag_pc claimed_turn)"
proof -
  have "agent_reachable claimed_turn" using claimed_steps by blast
  from flags_agree [OF this] show ?thesis using claimed_values by simp
qed

text \<open>
  Fact: every channel a caller of Run waits on is in one place: registered, collected by a closer, sent one
  result, or lost to a registration that replaced or withdrew it. No channel is sent two results, and a
  closed agent has no registration left.
\<close>

theorem callers_settled_once:
  assumes "agent_reachable a"
  shows "mset (map fst (ag_settled a)) + mset (vals (ag_waiters a)) + mset (pc_chans (ag_pc a)) +
     mset (concat (map thread_chans (ag_threads a))) + mset (ag_lost a) = mset [0..<ag_channels a] \<and>
     distinct (map fst (ag_settled a)) \<and> (ag_closed a \<longrightarrow> ag_waiters a = [])"
proof -
  have inv: "mset (channel_places a) = mset [0..<ag_channels a]" "ag_closed a \<longrightarrow> ag_waiters a = []"
    using agent_reachable_inv [OF assms] by (simp_all add: agent_inv_def chan_inv_def)
  then have "distinct (channel_places a)" using mset_eq_imp_distinct_iff [OF inv(1)] by simp
  then show ?thesis using inv by (simp add: channel_places_def ac_simps)
qed

lemma callers_settled_once_witness: "distinct (map fst (ag_settled stranded_by_dedupe)) \<and> ag_settled stranded_by_dedupe \<noteq> []"
proof -
  have "agent_reachable stranded_by_dedupe" using dedupe_steps by blast
  from callers_settled_once [OF this] show ?thesis using dedupe_values by simp
qed


lemma dedupe_scope: "ag_scopeClosed stranded_by_dedupe = 1"
  unfolding stranded_by_dedupe_def dedupe_exit
  by (simp add: left_behind_def newAgent_def NewInbox_def drive_def eval_nat_numeral driver_exit_def driver_drain_def Let_def
      send_all_def cancel_phase_def phase_over_def maintenance_phase_def Close_def)


text \<open>
  C25: a started agent that is closed can be brought to its end from whatever state it is in: the driver
  ends, the scope is closed once, and every caller that was not lost before has its result.
\<close>

theorem close_finishes:
  assumes "agent_reachable a" "ag_closed a" "ag_started a"
  shows "\<exists>b. agent_step\<^sup>*\<^sup>* a b \<and> ag_pc b = PcDone \<and> ag_disposed b \<and> ag_scopeClosed b = 1 \<and>
     (\<forall>c < ag_channels b. c \<in> fst ` set (ag_settled b) \<union> set (ag_lost b))"
  using close_ends [OF agent_reachable_inv [OF assms(1)] assms(2,3)] by (simp add: released_def)

lemma close_finishes_witness: "\<exists>b. agent_step\<^sup>*\<^sup>* (AgentClose waiting_caller) b \<and> ag_pc b = PcDone \<and> ag_scopeClosed b = 1"
proof -
  have "agent_reachable (AgentClose waiting_caller)" using then_step [OF waiting_steps close] by blast
  moreover have "ag_closed (AgentClose waiting_caller)" "ag_started (AgentClose waiting_caller)" by code_simp+
  ultimately show ?thesis using close_finishes [of "AgentClose waiting_caller"] by blast
qed

section \<open>What the locks do not exclude\<close>

text \<open>
  Fact: a maintenance task and the runner can run at the same time: maintenance asks for the status, and the
  status changes only after the claim.
\<close>

theorem maintenance_overlaps_turn:
  "\<exists>a. agent_reachable a \<and> running (ag_pc a) \<and> ag_status a = StatusRunning \<and> (\<exists>p. MaintenanceTask p \<in> set (ag_threads a))"
proof -
  have r: "agent_reachable overlapping" using overlap_steps by blast
  moreover have "ag_status overlapping = StatusRunning" by code_simp
  ultimately show ?thesis using overlapping_values by (intro exI [of _ overlapping]) auto
qed

text \<open>
  Fact: a cancel empties the inbox and leaves the caller of Run whose message it dropped: the agent is idle,
  open and without work, and the caller still waits.
\<close>

theorem cancel_strands_run:
  "\<exists>a i c. agent_reachable a \<and> RunWait i c \<in> set (ag_threads a) \<and> c \<notin> fst ` set (ag_settled a) \<and> \<not> ag_closed a \<and>
     ag_status a = StatusIdle \<and> PendingMessages (ag_inbox a) = [] \<and> \<not> in_turn (ag_pc a)"
proof -
  have "agent_reachable stranded_by_cancel" using cancel_steps by blast
  moreover have "\<not> ag_closed stranded_by_cancel" by code_simp
  ultimately show ?thesis using canceled_values by (intro exI [of _ stranded_by_cancel] exI) auto
qed

text \<open>
  Fact: of two calls of Run that the inbox answers with one message, the first is never released: the driver
  has ended and its channel was sent nothing.
\<close>

theorem dedupe_strands_caller:
  "\<exists>a i c. agent_reachable a \<and> ag_pc a = PcDone \<and> RunWait i c \<in> set (ag_threads a) \<and> c \<notin> fst ` set (ag_settled a)"
proof -
  have "agent_reachable stranded_by_dedupe" using dedupe_steps by blast
  then show ?thesis using dedupe_values by (intro exI [of _ stranded_by_dedupe] exI [of _ "''inbox-1''"] exI [of _ 0]) auto
qed

text \<open>
  Fact: WhenIdle can report an idle agent while the runner is inside a turn: a claim between its two reads
  takes the work away.
\<close>

theorem idle_misses_claim:
  "\<exists>a. agent_reachable a \<and> IdleWork True \<in> set (ag_threads a) \<and> idle_returns True a \<and> running (ag_pc a)"
proof -
  have "agent_reachable not_idle" using not_idle_steps by blast
  then show ?thesis using not_idle_values by (intro exI [of _ not_idle]) (auto simp: idle_returns_def)
qed

end
