(* ===== verification/Plan_Engine.thy ===== *)
theory Plan_Engine
  imports Go_Prelude
begin

text \<open>
  The planning engine, \<^verbatim>\<open>internal/plan\<close>: the goal, plan and todo records of
  \<^verbatim>\<open>service.go\<close>, the in-memory provider of \<^verbatim>\<open>mem.go\<close> and the operations of
  \<^verbatim>\<open>engine.go\<close>. \<open>ctx k\<close> says whether the \<open>k\<close>-th \<^verbatim>\<open>ctx.Err()\<close> site of a call
  finds the context cancelled; \<open>now\<close> is \<^verbatim>\<open>time.Now()\<close>. The engine takes its own lock only for
  the counters, so an operation here is one uninterrupted call; the read and write phases of the
  revision fence are separate definitions.
\<close>

section \<open>Records\<close>

datatype Status =
    StatusPending | StatusInProgress | StatusPaused | StatusBlocked | StatusDone | StatusCancelled
  | OtherStatus string

definition DefaultMaxGoalRounds :: int where
  "DefaultMaxGoalRounds = 256"

record Todo =
  td_ID :: string
  td_Title :: string
  td_Status :: Status
  td_Details :: string
  td_Acceptance :: "string list"
  td_CreatedAt :: go_time
  td_CompletedAt :: "go_time option"

record Plan =
  pl_ID :: string
  pl_Title :: string
  pl_GoalID :: string
  pl_Status :: Status
  pl_Steps :: "Todo list"
  pl_CreatedAt :: go_time

record Goal =
  gl_ID :: string
  gl_Title :: string
  gl_Objective :: string
  gl_Status :: Status
  gl_Plans :: "string list"
  gl_Owner :: string
  gl_Revision :: int
  gl_MaxRounds :: int
  gl_RoundsStarted :: int
  gl_BlockedReason :: string
  gl_CreatedAt :: go_time
  gl_CompletedAt :: "go_time option"

datatype plan_error =
    ErrInvalidStatus | ErrInvalidTitle | ErrUnknownGoal string | ErrUnknownPlan string | ErrUnknownTodo string
  | ErrUnknownScope | ErrEngineClosed | ErrProviderClosed | ErrPlanContext | ErrInvalidID
  | ErrNoFields | ErrRoundsNotPositive | ErrStaleRevision int int | ErrNotBlocked string
  | ErrNotActive string Status | ErrRoundsExhausted string int | ErrDecode | ErrPayload

section \<open>Operations with state and errors\<close>

text \<open>An operation that fails keeps what it has already changed.\<close>

type_synonym ('s, 'a) plan_op = "'s \<Rightarrow> (plan_error + 'a) \<times> 's"

definition ret :: "'a \<Rightarrow> ('s, 'a) plan_op" where
  "ret x s = (Inr x, s)"

definition fail :: "plan_error \<Rightarrow> ('s, 'a) plan_op" where
  "fail e s = (Inl e, s)"

definition and_then :: "('s, 'a) plan_op \<Rightarrow> ('a \<Rightarrow> ('s, 'b) plan_op) \<Rightarrow> ('s, 'b) plan_op" where
  "and_then m f s = (case m s of (Inl e, s') \<Rightarrow> (Inl e, s') | (Inr x, s') \<Rightarrow> f x s')"

definition guard_op :: "plan_error \<Rightarrow> bool \<Rightarrow> ('s, unit) plan_op" where
  "guard_op e b = (if b then ret () else fail e)"

definition modify_op :: "('s \<Rightarrow> 's) \<Rightarrow> ('s, unit) plan_op" where
  "modify_op f s = (Inr (), f s)"

lemma plan_op_simps [simp]:
  "ret x s = (Inr x, s)" "fail e s = (Inl e, s)" "modify_op f s = (Inr (), f s)"
  "guard_op e True = ret ()" "guard_op e False = fail e"
  by (simp_all add: ret_def fail_def modify_op_def guard_op_def fun_eq_iff)

lemma and_then_Inr:
  "and_then m f s = (Inr y, s2) \<longleftrightarrow> (\<exists>x s1. m s = (Inr x, s1) \<and> f x s1 = (Inr y, s2))"
  by (auto simp: and_then_def split: prod.splits sum.splits)

lemma and_then_step [simp]:
  "m s = (Inr x, s1) \<Longrightarrow> and_then m f s = f x s1" "m s = (Inl e, s1) \<Longrightarrow> and_then m f s = (Inl e, s1)"
  by (simp_all add: and_then_def)

lemma guard_op_cases: "guard_op e b s = (if b then (Inr (), s) else (Inl e, s))"
  by simp

section \<open>The in-memory provider\<close>

record mem_provider =
  mp_goals :: "(string \<times> Goal) list"
  mp_plans :: "(string \<times> Plan) list"
  mp_closed :: bool

definition newMemProvider :: mem_provider where
  "newMemProvider = \<lparr>mp_goals = [], mp_plans = [], mp_closed = False\<rparr>"

definition provider_open :: "bool \<Rightarrow> (mem_provider, unit) plan_op" where
  "provider_open cancelled m =
     (if cancelled then (Inl ErrPlanContext, m) else if mp_closed m then (Inl ErrProviderClosed, m) else (Inr (), m))"

definition ListGoals :: "bool \<Rightarrow> (mem_provider, Goal list) plan_op" where
  "ListGoals cancelled = and_then (provider_open cancelled) (\<lambda>_ m. (Inr (sort_key gl_ID (vals (mp_goals m))), m))"

definition GetGoal :: "bool \<Rightarrow> string \<Rightarrow> (mem_provider, Goal) plan_op" where
  "GetGoal cancelled i = and_then (provider_open cancelled) (\<lambda>_ m.
     case map_of (mp_goals m) i of None \<Rightarrow> (Inl (ErrUnknownGoal i), m) | Some g \<Rightarrow> (Inr g, m))"

definition PutGoal :: "bool \<Rightarrow> Goal \<Rightarrow> (mem_provider, unit) plan_op" where
  "PutGoal cancelled g m =
     (if cancelled then (Inl ErrPlanContext, m)
      else if gl_ID g = [] then (Inl ErrInvalidID, m)
      else if mp_closed m then (Inl ErrProviderClosed, m)
      else (Inr (), m\<lparr>mp_goals := AList.update (gl_ID g) g (mp_goals m)\<rparr>))"

definition DeleteGoal :: "bool \<Rightarrow> string \<Rightarrow> (mem_provider, unit) plan_op" where
  "DeleteGoal cancelled i = and_then (provider_open cancelled) (\<lambda>_ m.
     if map_of (mp_goals m) i = None then (Inl (ErrUnknownGoal i), m)
     else (Inr (), m\<lparr>mp_goals := AList.delete i (mp_goals m),
                      mp_plans := filter (\<lambda>(_, p). pl_GoalID p \<noteq> i) (mp_plans m)\<rparr>))"

definition ListPlans :: "bool \<Rightarrow> (mem_provider, Plan list) plan_op" where
  "ListPlans cancelled = and_then (provider_open cancelled) (\<lambda>_ m. (Inr (sort_key pl_ID (vals (mp_plans m))), m))"

definition GetPlan :: "bool \<Rightarrow> string \<Rightarrow> (mem_provider, Plan) plan_op" where
  "GetPlan cancelled i = and_then (provider_open cancelled) (\<lambda>_ m.
     case map_of (mp_plans m) i of None \<Rightarrow> (Inl (ErrUnknownPlan i), m) | Some p \<Rightarrow> (Inr p, m))"

definition PutPlan :: "bool \<Rightarrow> Plan \<Rightarrow> (mem_provider, unit) plan_op" where
  "PutPlan cancelled p m =
     (if cancelled then (Inl ErrPlanContext, m)
      else if pl_ID p = [] then (Inl ErrInvalidID, m)
      else if mp_closed m then (Inl ErrProviderClosed, m)
      else (Inr (), m\<lparr>mp_plans := AList.update (pl_ID p) p (mp_plans m)\<rparr>))"

definition DeletePlan :: "bool \<Rightarrow> string \<Rightarrow> (mem_provider, unit) plan_op" where
  "DeletePlan cancelled i = and_then (provider_open cancelled) (\<lambda>_ m.
     if map_of (mp_plans m) i = None then (Inl (ErrUnknownPlan i), m)
     else (Inr (), m\<lparr>mp_plans := AList.delete i (mp_plans m)\<rparr>))"

definition CloseProvider :: "mem_provider \<Rightarrow> mem_provider" where
  "CloseProvider m = m\<lparr>mp_closed := True\<rparr>"

section \<open>The engine\<close>

record plan_engine =
  en_prov :: mem_provider
  en_goalSeq :: nat
  en_planSeq :: nat
  en_todoSeq :: nat
  en_closed :: bool

definition NewEngine :: plan_engine where
  "NewEngine = \<lparr>en_prov = newMemProvider, en_goalSeq = 0, en_planSeq = 0, en_todoSeq = 0, en_closed = False\<rparr>"

text \<open>A call to the provider.\<close>

definition on_prov :: "(mem_provider, 'a) plan_op \<Rightarrow> (plan_engine, 'a) plan_op" where
  "on_prov m e = (case m (en_prov e) of (r, p) \<Rightarrow> (r, e\<lparr>en_prov := p\<rparr>))"

definition checkOpen :: "(plan_engine, unit) plan_op" where
  "checkOpen e = (if en_closed e then (Inl ErrEngineClosed, e) else (Inr (), e))"

definition enter :: "bool \<Rightarrow> (plan_engine, unit) plan_op" where
  "enter cancelled = and_then (guard_op ErrPlanContext (\<not> cancelled)) (\<lambda>_. checkOpen)"

definition prefixed_id :: "string \<Rightarrow> nat \<Rightarrow> string" where
  "prefixed_id p n = p @ itoa n"

definition nextRevision :: "int \<Rightarrow> int" where
  "nextRevision current = (if current < 1 then 1 else current + 1)"

definition applyCompletedAt :: "go_time \<Rightarrow> Status \<Rightarrow> go_time option" where
  "applyCompletedAt now st = (if st = StatusDone then Some now else None)"

definition validStatus :: "Status \<Rightarrow> bool" where
  "validStatus s = (case s of OtherStatus _ \<Rightarrow> False | _ \<Rightarrow> True)"

definition createGoal :: "(nat \<Rightarrow> bool) \<Rightarrow> go_time \<Rightarrow> string \<Rightarrow> string \<Rightarrow> int \<Rightarrow> (plan_engine, Goal) plan_op" where
  "createGoal ctx now title objective maxRounds =
     and_then (enter (ctx 0)) (\<lambda>_.
     and_then (guard_op ErrInvalidTitle (title \<noteq> [])) (\<lambda>_.
     and_then (modify_op (\<lambda>e. e\<lparr>en_goalSeq := en_goalSeq e + 1\<rparr>)) (\<lambda>_ e.
       let g = \<lparr>gl_ID = prefixed_id ''goal-'' (en_goalSeq e), gl_Title = title, gl_Objective = objective,
                gl_Status = StatusPending, gl_Plans = [], gl_Owner = [], gl_Revision = 1, gl_MaxRounds = maxRounds,
                gl_RoundsStarted = 0, gl_BlockedReason = [], gl_CreatedAt = now, gl_CompletedAt = None\<rparr>
       in and_then (on_prov (PutGoal (ctx 1) g)) (\<lambda>_. ret g) e)))"

definition CreateGoal where
  "CreateGoal ctx now title objective = createGoal ctx now title objective DefaultMaxGoalRounds"

definition CreateGoalWithMaxRounds where
  "CreateGoalWithMaxRounds ctx now title objective maxRounds =
     createGoal ctx now title objective (if maxRounds \<le> 0 then DefaultMaxGoalRounds else maxRounds)"

definition UpdateGoal :: "(nat \<Rightarrow> bool) \<Rightarrow> string \<Rightarrow> string \<Rightarrow> string \<Rightarrow> (plan_engine, Goal) plan_op" where
  "UpdateGoal ctx i title objective =
     and_then (enter (ctx 0)) (\<lambda>_.
     and_then (guard_op ErrInvalidTitle (title \<noteq> [])) (\<lambda>_.
     and_then (on_prov (GetGoal (ctx 1) i)) (\<lambda>g.
       let g = g\<lparr>gl_Title := title, gl_Objective := objective, gl_Revision := nextRevision (gl_Revision g)\<rparr>
       in and_then (on_prov (PutGoal (ctx 2) g)) (\<lambda>_. ret g))))"

definition firstGoalTitle :: "string \<Rightarrow> string" where
  "firstGoalTitle objective = (case Go_Prelude.fields objective of [] \<Rightarrow> ''Goal'' | w # _ \<Rightarrow> w)"

text \<open>\<^verbatim>\<open>UpdateGoalIfRevision\<close> up to the write: the goal as it will be stored.\<close>

definition update_if_read ::
    "(nat \<Rightarrow> bool) \<Rightarrow> string \<Rightarrow> int \<Rightarrow> string option \<Rightarrow> int option \<Rightarrow> (plan_engine, Goal) plan_op" where
  "update_if_read ctx i revision objective maxRounds =
     and_then (enter (ctx 0)) (\<lambda>_.
     and_then (guard_op ErrNoFields (objective \<noteq> None \<or> maxRounds \<noteq> None)) (\<lambda>_.
     and_then (guard_op ErrRoundsNotPositive (case maxRounds of None \<Rightarrow> True | Some n \<Rightarrow> 0 < n)) (\<lambda>_.
     and_then (on_prov (GetGoal (ctx 1) i)) (\<lambda>g.
     and_then (guard_op (ErrStaleRevision revision (gl_Revision g)) (1 \<le> revision \<and> gl_Revision g = revision)) (\<lambda>_.
     and_then (guard_op ErrInvalidTitle (case objective of None \<Rightarrow> True | Some x \<Rightarrow> trim_space x \<noteq> [])) (\<lambda>_.
       let g = (case objective of None \<Rightarrow> g
                | Some x \<Rightarrow> g\<lparr>gl_Objective := trim_space x, gl_Title := firstGoalTitle (trim_space x)\<rparr>);
           g = (case maxRounds of None \<Rightarrow> g | Some n \<Rightarrow> g\<lparr>gl_MaxRounds := n\<rparr>)
       in ret (g\<lparr>gl_Revision := nextRevision (gl_Revision g)\<rparr>)))))))"

definition UpdateGoalIfRevision ::
    "(nat \<Rightarrow> bool) \<Rightarrow> string \<Rightarrow> int \<Rightarrow> string option \<Rightarrow> int option \<Rightarrow> (plan_engine, Goal) plan_op" where
  "UpdateGoalIfRevision ctx i revision objective maxRounds =
     and_then (update_if_read ctx i revision objective maxRounds) (\<lambda>g.
     and_then (on_prov (PutGoal (ctx 2) g)) (\<lambda>_. ret g))"

definition linkPlan :: "(nat \<Rightarrow> bool) \<Rightarrow> string \<Rightarrow> string \<Rightarrow> (plan_engine, unit) plan_op" where
  "linkPlan ctx goalID planID =
     and_then (on_prov (GetGoal (ctx 3) goalID)) (\<lambda>g.
       on_prov (PutGoal (ctx 4) (g\<lparr>gl_Plans := gl_Plans g @ [planID]\<rparr>)))"

fun new_steps :: "go_time \<Rightarrow> nat \<Rightarrow> string list \<Rightarrow> Todo list" where
  "new_steps now seq [] = []"
| "new_steps now seq (step # steps) =
     \<lparr>td_ID = prefixed_id ''todo-'' (seq + 1), td_Title = step, td_Status = StatusPending, td_Details = [],
      td_Acceptance = [], td_CreatedAt = now, td_CompletedAt = None\<rparr> # new_steps now (seq + 1) steps"

definition CreatePlan :: "(nat \<Rightarrow> bool) \<Rightarrow> go_time \<Rightarrow> string \<Rightarrow> string \<Rightarrow> string list \<Rightarrow> (plan_engine, Plan) plan_op" where
  "CreatePlan ctx now goalID title steps =
     and_then (enter (ctx 0)) (\<lambda>_.
     and_then (guard_op ErrInvalidTitle (title \<noteq> [])) (\<lambda>_.
     and_then (if goalID \<noteq> [] then and_then (on_prov (GetGoal (ctx 1) goalID)) (\<lambda>_. ret ()) else ret ()) (\<lambda>_ e.
       let e = e\<lparr>en_planSeq := en_planSeq e + 1\<rparr>;
           p = \<lparr>pl_ID = prefixed_id ''plan-'' (en_planSeq e), pl_Title = title, pl_GoalID = goalID,
                pl_Status = StatusPending, pl_Steps = new_steps now (en_todoSeq e) steps, pl_CreatedAt = now\<rparr>;
           e = e\<lparr>en_todoSeq := en_todoSeq e + length steps\<rparr>
       in and_then (on_prov (PutPlan (ctx 2) p)) (\<lambda>_.
          and_then (if goalID \<noteq> [] then linkPlan ctx goalID (pl_ID p) else ret ()) (\<lambda>_. ret p)) e)))"

definition AddTodo :: "(nat \<Rightarrow> bool) \<Rightarrow> go_time \<Rightarrow> string \<Rightarrow> string \<Rightarrow> string list \<Rightarrow> (plan_engine, Todo) plan_op" where
  "AddTodo ctx now planID title acceptance =
     and_then (enter (ctx 0)) (\<lambda>_.
     and_then (guard_op ErrInvalidTitle (title \<noteq> [])) (\<lambda>_.
     and_then (on_prov (GetPlan (ctx 1) planID)) (\<lambda>p.
     and_then (modify_op (\<lambda>e. e\<lparr>en_todoSeq := en_todoSeq e + 1\<rparr>)) (\<lambda>_ e.
       let todo = \<lparr>td_ID = prefixed_id ''todo-'' (en_todoSeq e), td_Title = title, td_Status = StatusPending,
                   td_Details = [], td_Acceptance = acceptance, td_CreatedAt = now, td_CompletedAt = None\<rparr>
       in and_then (on_prov (PutPlan (ctx 2) (p\<lparr>pl_Steps := pl_Steps p @ [todo]\<rparr>))) (\<lambda>_. ret todo) e))))"

text \<open>The first todo with an id, in the order of the sorted plans.\<close>

fun step_index :: "string \<Rightarrow> Todo list \<Rightarrow> nat option" where
  "step_index i [] = None"
| "step_index i (t # ts) = (if td_ID t = i then Some 0 else map_option Suc (step_index i ts))"

fun find_todo :: "string \<Rightarrow> Plan list \<Rightarrow> (Plan \<times> nat) option" where
  "find_todo i [] = None"
| "find_todo i (p # ps) = (case step_index i (pl_Steps p) of Some n \<Rightarrow> Some (p, n) | None \<Rightarrow> find_todo i ps)"

definition set_status :: "go_time \<Rightarrow> Status \<Rightarrow> Goal \<Rightarrow> Goal" where
  "set_status now st g = g\<lparr>gl_Status := st, gl_Revision := nextRevision (gl_Revision g),
     gl_BlockedReason := (if st \<noteq> StatusBlocked then [] else gl_BlockedReason g),
     gl_CompletedAt := applyCompletedAt now st\<rparr>"

definition setTodoStatus :: "(nat \<Rightarrow> bool) \<Rightarrow> go_time \<Rightarrow> string \<Rightarrow> Status \<Rightarrow> (plan_engine, unit) plan_op" where
  "setTodoStatus ctx now i st =
     and_then (on_prov (ListPlans (ctx 1))) (\<lambda>all.
       case find_todo i all of
         None \<Rightarrow> fail (ErrUnknownTodo i)
       | Some (p, n) \<Rightarrow>
           let t = (pl_Steps p ! n)\<lparr>td_Status := st, td_CompletedAt := applyCompletedAt now st\<rparr>
           in on_prov (PutPlan (ctx 2) (p\<lparr>pl_Steps := (pl_Steps p)[n := t]\<rparr>)))"

definition SetStatus :: "(nat \<Rightarrow> bool) \<Rightarrow> go_time \<Rightarrow> string \<Rightarrow> string \<Rightarrow> Status \<Rightarrow> (plan_engine, unit) plan_op" where
  "SetStatus ctx now scope i st =
     and_then (enter (ctx 0)) (\<lambda>_.
     and_then (guard_op ErrInvalidStatus (validStatus st)) (\<lambda>_.
       if scope = ''goal'' then
         and_then (on_prov (GetGoal (ctx 1) i)) (\<lambda>g. on_prov (PutGoal (ctx 2) (set_status now st g)))
       else if scope = ''plan'' then
         and_then (on_prov (GetPlan (ctx 1) i)) (\<lambda>p. on_prov (PutPlan (ctx 2) (p\<lparr>pl_Status := st\<rparr>)))
       else if scope = ''todo'' then setTodoStatus ctx now i st
       else fail ErrUnknownScope))"

definition SetGoalBlockedReason :: "(nat \<Rightarrow> bool) \<Rightarrow> string \<Rightarrow> string \<Rightarrow> (plan_engine, unit) plan_op" where
  "SetGoalBlockedReason ctx i reason =
     and_then (enter (ctx 0)) (\<lambda>_.
     and_then (on_prov (GetGoal (ctx 1) i)) (\<lambda>g.
     and_then (guard_op (ErrNotBlocked i) (gl_Status g = StatusBlocked)) (\<lambda>_.
       on_prov (PutGoal (ctx 2) (g\<lparr>gl_BlockedReason := reason\<rparr>)))))"

definition status_if_read ::
    "(nat \<Rightarrow> bool) \<Rightarrow> go_time \<Rightarrow> string \<Rightarrow> int \<Rightarrow> Status \<Rightarrow> (plan_engine, Goal) plan_op" where
  "status_if_read ctx now i revision st =
     and_then (enter (ctx 0)) (\<lambda>_.
     and_then (on_prov (GetGoal (ctx 1) i)) (\<lambda>g.
     and_then (guard_op (ErrStaleRevision revision (gl_Revision g)) (1 \<le> revision \<and> gl_Revision g = revision)) (\<lambda>_.
       ret (set_status now st g))))"

definition SetGoalStatusIfRevision ::
    "(nat \<Rightarrow> bool) \<Rightarrow> go_time \<Rightarrow> string \<Rightarrow> int \<Rightarrow> Status \<Rightarrow> (plan_engine, unit) plan_op" where
  "SetGoalStatusIfRevision ctx now i revision st =
     and_then (status_if_read ctx now i revision st) (\<lambda>g. on_prov (PutGoal (ctx 2) g))"

definition StartGoalRound :: "(nat \<Rightarrow> bool) \<Rightarrow> string \<Rightarrow> (plan_engine, Goal) plan_op" where
  "StartGoalRound ctx i =
     and_then (enter (ctx 0)) (\<lambda>_.
     and_then (on_prov (GetGoal (ctx 1) i)) (\<lambda>g.
       let g = (if gl_MaxRounds g \<le> 0 then g\<lparr>gl_MaxRounds := DefaultMaxGoalRounds\<rparr> else g)
       in and_then (guard_op (ErrNotActive i (gl_Status g))
                      (gl_Status g = StatusPending \<or> gl_Status g = StatusInProgress)) (\<lambda>_.
          and_then (guard_op (ErrRoundsExhausted i (gl_MaxRounds g)) (gl_RoundsStarted g < gl_MaxRounds g)) (\<lambda>_.
            let g = g\<lparr>gl_RoundsStarted := gl_RoundsStarted g + 1\<rparr>
            in and_then (on_prov (PutGoal (ctx 2) g)) (\<lambda>_. ret g)))))"

definition ListTree :: "(nat \<Rightarrow> bool) \<Rightarrow> (plan_engine, Goal list) plan_op" where
  "ListTree ctx = and_then (enter (ctx 0)) (\<lambda>_. on_prov (ListGoals (ctx 1)))"

definition removePlan :: "(nat \<Rightarrow> bool) \<Rightarrow> string \<Rightarrow> (plan_engine, unit) plan_op" where
  "removePlan ctx i =
     and_then (on_prov (GetPlan (ctx 1) i)) (\<lambda>p.
     and_then (on_prov (DeletePlan (ctx 2) i)) (\<lambda>_.
       if pl_GoalID p = [] then ret ()
       else and_then (on_prov (GetGoal (ctx 3) (pl_GoalID p))) (\<lambda>g.
         on_prov (PutGoal (ctx 4) (g\<lparr>gl_Plans := filter (\<lambda>pid. pid \<noteq> i) (gl_Plans g)\<rparr>)))))"

definition removeTodo_op :: "(nat \<Rightarrow> bool) \<Rightarrow> string \<Rightarrow> (plan_engine, unit) plan_op" where
  "removeTodo_op ctx i =
     and_then (on_prov (ListPlans (ctx 1))) (\<lambda>all.
       case find_todo i all of
         None \<Rightarrow> fail (ErrUnknownTodo i)
       | Some (p, n) \<Rightarrow> on_prov (PutPlan (ctx 2) (p\<lparr>pl_Steps := take n (pl_Steps p) @ drop (n + 1) (pl_Steps p)\<rparr>)))"

definition RemoveRecord :: "(nat \<Rightarrow> bool) \<Rightarrow> string \<Rightarrow> string \<Rightarrow> (plan_engine, unit) plan_op" where
  "RemoveRecord ctx scope i =
     and_then (enter (ctx 0)) (\<lambda>_.
       if scope = ''goal'' then on_prov (DeleteGoal (ctx 1) i)
       else if scope = ''plan'' then removePlan ctx i
       else if scope = ''todo'' then removeTodo_op ctx i
       else fail ErrUnknownScope)"

definition CloseEngine :: "plan_engine \<Rightarrow> plan_engine" where
  "CloseEngine e = (if en_closed e then e else e\<lparr>en_closed := True, en_prov := CloseProvider (en_prov e)\<rparr>)"

end
