(* ===== verification/Plan_Invariant.thy ===== *)
theory Plan_Invariant
  imports Plan_Engine
begin

text \<open>
  The invariant of the planning engine: the links between goals and plans agree in both directions,
  ids are the engine's own and unique, completion times match statuses. Every operation whose context
  does not change while it runs keeps it. The read-modify-write the engine performs on its provider is
  proved once, against the interface of a record store.
\<close>

section \<open>The store interface\<close>

locale record_store =
  fixes lookup :: "'s \<Rightarrow> string \<Rightarrow> 'r option"
    and get :: "string \<Rightarrow> ('s, 'r) plan_op"
    and put :: "'r \<Rightarrow> ('s, unit) plan_op"
    and ident :: "'r \<Rightarrow> string"
    and ready :: "'s \<Rightarrow> bool"
    and rest :: "'s \<Rightarrow> 'f"
  assumes get_keeps: "snd (get k s) = s"
    and get_found: "fst (get k s) = Inr r \<longleftrightarrow> ready s \<and> lookup s k = Some r"
    and put_stores: "ready s \<Longrightarrow> ident r \<noteq> [] \<Longrightarrow> \<exists>s'. put r s = (Inr (), s') \<and>
        lookup s' = (lookup s)(ident r \<mapsto> r) \<and> ready s' \<and> rest s' = rest s"
    and put_refuses: "fst (put r s) = Inl e \<Longrightarrow> snd (put r s) = s"
begin

definition rewrite :: "string \<Rightarrow> ('r \<Rightarrow> plan_error + 'r) \<Rightarrow> ('s, 'r) plan_op" where
  "rewrite k f = and_then (get k) (\<lambda>r. case f r of Inl e \<Rightarrow> fail e | Inr r' \<Rightarrow> and_then (put r') (\<lambda>_. ret r'))"

text \<open>A rewrite either changes nothing or replaces exactly the record it read.\<close>

lemma rewrite_cases:
  assumes "\<And>r r'. lookup s k = Some r \<Longrightarrow> f r = Inr r' \<Longrightarrow> ident r' = k" and "k \<noteq> []"
  shows "(\<exists>e. rewrite k f s = (Inl e, s)) \<or>
    (\<exists>r r' s'. rewrite k f s = (Inr r', s') \<and> lookup s k = Some r \<and> f r = Inr r' \<and>
       lookup s' = (lookup s)(k \<mapsto> r') \<and> rest s' = rest s \<and> ready s \<and> ready s')"
proof (cases "fst (get k s)")
  case (Inl e)
  then have "get k s = (Inl e, s)" using get_keeps [of k s] by (metis prod.collapse)
  then have "rewrite k f s = (Inl e, s)" by (simp add: rewrite_def)
  then show ?thesis by blast
next
  case (Inr r)
  then have g: "get k s = (Inr r, s)" using get_keeps [of k s] by (metis prod.collapse)
  have r: "ready s" "lookup s k = Some r" using Inr get_found by blast+
  show ?thesis
  proof (cases "f r")
    case (Inl e)
    then have "rewrite k f s = (Inl e, s)" using g by (simp add: rewrite_def)
    then show ?thesis by blast
  next
    case i: (Inr r')
    then have "ident r' = k" using assms(1) r(2) by blast
    then obtain s' where "put r' s = (Inr (), s')" "lookup s' = (lookup s)(k \<mapsto> r')" "ready s'" "rest s' = rest s"
      using put_stores [OF r(1)] assms(2) by metis
    then show ?thesis using g i r by (simp add: rewrite_def)
  qed
qed

end

interpretation goals: record_store "\<lambda>m. map_of (mp_goals m)" "GetGoal False" "PutGoal False" gl_ID
    "\<lambda>m. \<not> mp_closed m" mp_plans
  by unfold_locales (auto simp: GetGoal_def PutGoal_def provider_open_def and_then_def split: option.splits)

interpretation plans: record_store "\<lambda>m. map_of (mp_plans m)" "GetPlan False" "PutPlan False" pl_ID
    "\<lambda>m. \<not> mp_closed m" mp_goals
  by unfold_locales (auto simp: GetPlan_def PutPlan_def provider_open_def and_then_def split: option.splits)

section \<open>The invariant\<close>

definition issued_id :: "string \<Rightarrow> nat \<Rightarrow> string \<Rightarrow> bool" where
  "issued_id p n i \<longleftrightarrow> (\<exists>k. 0 < k \<and> k \<le> n \<and> i = prefixed_id p k)"

definition goal_ok :: "Goal \<Rightarrow> bool" where
  "goal_ok g \<longleftrightarrow> (gl_Status g = StatusDone \<longleftrightarrow> gl_CompletedAt g \<noteq> None) \<and>
     (gl_Status g \<noteq> StatusBlocked \<longrightarrow> gl_BlockedReason g = []) \<and>
     1 \<le> gl_Revision g \<and> 1 \<le> gl_MaxRounds g \<and> 0 \<le> gl_RoundsStarted g"

definition todo_ok :: "Todo \<Rightarrow> bool" where
  "todo_ok t \<longleftrightarrow> (td_Status t = StatusDone \<longleftrightarrow> td_CompletedAt t \<noteq> None)"

definition goals_inv :: "nat \<Rightarrow> (string \<rightharpoonup> Goal) \<Rightarrow> (string \<rightharpoonup> Plan) \<Rightarrow> bool" where
  "goals_inv n G P \<longleftrightarrow> (\<forall>i g. G i = Some g \<longrightarrow>
     gl_ID g = i \<and> issued_id ''goal-'' n i \<and> goal_ok g \<and> distinct (gl_Plans g) \<and>
     (\<forall>j \<in> set (gl_Plans g). \<exists>p. P j = Some p \<and> pl_GoalID p = i))"

definition plan_ok :: "nat \<Rightarrow> nat \<Rightarrow> string \<Rightarrow> Plan \<Rightarrow> bool" where
  "plan_ok n t i p \<longleftrightarrow> pl_ID p = i \<and> issued_id ''plan-'' n i \<and> (\<forall>x \<in> set (pl_Steps p). todo_ok x) \<and>
     (\<forall>x \<in> set (pl_Steps p). issued_id ''todo-'' t (td_ID x)) \<and> distinct (map td_ID (pl_Steps p))"

definition plans_inv :: "nat \<Rightarrow> nat \<Rightarrow> (string \<rightharpoonup> Goal) \<Rightarrow> (string \<rightharpoonup> Plan) \<Rightarrow> bool" where
  "plans_inv n t G P \<longleftrightarrow> (\<forall>i p. P i = Some p \<longrightarrow> plan_ok n t i p \<and>
     (pl_GoalID p \<noteq> [] \<longrightarrow> (\<exists>g. G (pl_GoalID p) = Some g \<and> i \<in> set (gl_Plans g))))"

definition todos_apart :: "(string \<rightharpoonup> Plan) \<Rightarrow> bool" where
  "todos_apart P \<longleftrightarrow> (\<forall>i j p q. P i = Some p \<longrightarrow> P j = Some q \<longrightarrow> i \<noteq> j \<longrightarrow>
     td_ID ` set (pl_Steps p) \<inter> td_ID ` set (pl_Steps q) = {})"

definition tree_ok :: "nat \<Rightarrow> nat \<Rightarrow> nat \<Rightarrow> (string \<rightharpoonup> Goal) \<Rightarrow> (string \<rightharpoonup> Plan) \<Rightarrow> bool" where
  "tree_ok n m t G P \<longleftrightarrow> goals_inv n G P \<and> plans_inv m t G P \<and> todos_apart P"

definition engine_ok :: "plan_engine \<Rightarrow> bool" where
  "engine_ok e \<longleftrightarrow> wf_map (mp_goals (en_prov e)) \<and> wf_map (mp_plans (en_prov e)) \<and>
     tree_ok (en_goalSeq e) (en_planSeq e) (en_todoSeq e) (map_of (mp_goals (en_prov e))) (map_of (mp_plans (en_prov e)))"

lemma issued_id_mono: "issued_id p n i \<Longrightarrow> n \<le> n' \<Longrightarrow> issued_id p n' i"
  by (auto simp: issued_id_def)

lemma prefixed_id_inj [simp]: "prefixed_id p m = prefixed_id p n \<longleftrightarrow> m = n"
  by (simp add: prefixed_id_def)

lemma prefixed_id_ne [simp]: "prefixed_id p n \<noteq> []"
  by (simp add: prefixed_id_def)

lemma issued_id_ne: "issued_id p n i \<Longrightarrow> i \<noteq> []"
  by (auto simp: issued_id_def)

lemma not_issued: "n < k \<Longrightarrow> \<not> issued_id p n (prefixed_id p k)"
  by (auto simp: issued_id_def)

lemma issued_self: "0 < k \<Longrightarrow> k \<le> n \<Longrightarrow> issued_id p n (prefixed_id p k)"
  by (auto simp: issued_id_def)

lemma fresh_goal: "goals_inv n G P \<Longrightarrow> G (prefixed_id ''goal-'' (Suc n)) = None"
  using not_issued [of n "Suc n" "''goal-''"] by (cases "G (prefixed_id ''goal-'' (Suc n))") (auto simp: goals_inv_def)

lemma fresh_plan: "plans_inv n t G P \<Longrightarrow> P (prefixed_id ''plan-'' (Suc n)) = None"
  using not_issued [of n "Suc n" "''plan-''"]
  by (cases "P (prefixed_id ''plan-'' (Suc n))") (auto simp: plans_inv_def plan_ok_def)

section \<open>The kinds of writes\<close>

lemma tree_put_goal:
  assumes "tree_ok n m t G P" and "G i = Some g" and "gl_ID g' = i" and "gl_Plans g' = gl_Plans g" and "goal_ok g'"
  shows "tree_ok n m t (G(i \<mapsto> g')) P"
proof -
  have "goals_inv n (G(i \<mapsto> g')) P" using assms by (auto simp: tree_ok_def goals_inv_def)
  moreover have "plans_inv m t (G(i \<mapsto> g')) P"
    using assms unfolding tree_ok_def plans_inv_def by (auto split: if_splits) fastforce
  ultimately show ?thesis using assms(1) by (simp add: tree_ok_def)
qed

lemma tree_new_goal:
  assumes "tree_ok n m t G P" and "gl_ID g = prefixed_id ''goal-'' (Suc n)" and "gl_Plans g = []" and "goal_ok g"
  shows "tree_ok (Suc n) m t (G(gl_ID g \<mapsto> g)) P"
proof -
  have f: "G (gl_ID g) = None" using fresh_goal [of n G P] assms(1,2) by (simp add: tree_ok_def)
  have "goals_inv (Suc n) (G(gl_ID g \<mapsto> g)) P"
    using assms by (auto simp: tree_ok_def goals_inv_def intro: issued_id_mono [OF _ le_SucI [OF order_refl]] issued_self)
  moreover have "plans_inv m t (G(gl_ID g \<mapsto> g)) P"
    using assms(1) f unfolding tree_ok_def plans_inv_def by (metis fun_upd_apply option.distinct(1))
  ultimately show ?thesis using assms(1) by (simp add: tree_ok_def)
qed

text \<open>A plan rewritten in place: the steps may change, their ids come from its own or are new.\<close>

lemma tree_put_plan:
  assumes tree: "tree_ok n m t G P" and p: "P i = Some p" and g: "pl_GoalID p' = pl_GoalID p"
    and ok: "plan_ok m t' i p'" and t: "t \<le> t'"
    and ids: "\<forall>x \<in> set (pl_Steps p'). td_ID x \<in> td_ID ` set (pl_Steps p) \<or> \<not> issued_id ''todo-'' t (td_ID x)"
  shows "tree_ok n m t' G (P(i \<mapsto> p'))"
proof -
  have old: "issued_id ''todo-'' t (td_ID x)" if "P j = Some q" "x \<in> set (pl_Steps q)" for j q x
    using tree that unfolding tree_ok_def plans_inv_def plan_ok_def by blast
  have gi: "goals_inv n G (P(i \<mapsto> p'))"
    using tree p g unfolding tree_ok_def goals_inv_def by fastforce
  have pi: "plans_inv m t' G (P(i \<mapsto> p'))"
    using tree p g ok t unfolding tree_ok_def plans_inv_def
    by (auto simp: plan_ok_def intro: issued_id_mono split: if_splits)
  have "td_ID ` set (pl_Steps p') \<inter> td_ID ` set (pl_Steps q) = {}" if q: "P j = Some q" "j \<noteq> i" for j q
  proof -
    have "td_ID ` set (pl_Steps p) \<inter> td_ID ` set (pl_Steps q) = {}"
      using tree p q unfolding tree_ok_def todos_apart_def by blast
    then show ?thesis using ids old [OF q(1)] by fastforce
  qed
  then have "todos_apart (P(i \<mapsto> p'))"
    using tree unfolding tree_ok_def todos_apart_def by (auto split: if_splits; blast)
  with gi pi show ?thesis by (simp add: tree_ok_def)
qed

lemma tree_new_plan:
  assumes tree: "tree_ok n m t G P" and i: "pl_ID p = prefixed_id ''plan-'' (Suc m)"
    and ok: "plan_ok (Suc m) t' (pl_ID p) p" and t: "t \<le> t'"
    and ids: "\<forall>x \<in> set (pl_Steps p). \<not> issued_id ''todo-'' t (td_ID x)"
    and link: "pl_GoalID p = [] \<and> G' = G \<or>
      (\<exists>g. G (pl_GoalID p) = Some g \<and> G' = G(pl_GoalID p \<mapsto> g\<lparr>gl_Plans := gl_Plans g @ [pl_ID p]\<rparr>))"
  shows "tree_ok n (Suc m) t' G' (P(pl_ID p \<mapsto> p))"
proof -
  let ?i = "pl_ID p"
  have f: "P ?i = None" using fresh_plan [of m t G P] tree i by (simp add: tree_ok_def)
  have not_linked: "?i \<notin> set (gl_Plans g)" if "G k = Some g" for k g
    using tree that f unfolding tree_ok_def goals_inv_def by fastforce
  have gi: "goals_inv n G' (P(?i \<mapsto> p))"
    using link
  proof
    assume "pl_GoalID p = [] \<and> G' = G"
    then show ?thesis using tree f unfolding tree_ok_def goals_inv_def by fastforce
  next
    assume "\<exists>g. G (pl_GoalID p) = Some g \<and> G' = G(pl_GoalID p \<mapsto> g\<lparr>gl_Plans := gl_Plans g @ [?i]\<rparr>)"
    then obtain g where g: "G (pl_GoalID p) = Some g" "G' = G(pl_GoalID p \<mapsto> g\<lparr>gl_Plans := gl_Plans g @ [?i]\<rparr>)" by blast
    have "goal_ok (g\<lparr>gl_Plans := x\<rparr>) = goal_ok g" for x by (simp add: goal_ok_def)
    with g tree f not_linked [OF g(1)] show ?thesis
      unfolding tree_ok_def goals_inv_def by (auto split: if_splits) fastforce+
  qed
  have grow: "\<exists>g'. G' k = Some g' \<and> set (gl_Plans g) \<subseteq> set (gl_Plans g')" if "G k = Some g" for k g
    using link that by auto
  have "plans_inv (Suc m) t' G' (P(?i \<mapsto> p))"
    unfolding plans_inv_def
  proof (intro allI impI)
    fix j q assume q: "(P(?i \<mapsto> p)) j = Some q"
    show "plan_ok (Suc m) t' j q \<and> (pl_GoalID q \<noteq> [] \<longrightarrow> (\<exists>g. G' (pl_GoalID q) = Some g \<and> j \<in> set (gl_Plans g)))"
    proof (cases "j = ?i")
      case True
      then show ?thesis using q ok link by auto
    next
      case False
      then have "P j = Some q" using q by simp
      then have "plan_ok m t j q" "pl_GoalID q \<noteq> [] \<Longrightarrow> \<exists>g. G (pl_GoalID q) = Some g \<and> j \<in> set (gl_Plans g)"
        using tree unfolding tree_ok_def plans_inv_def by blast+
      then show ?thesis using t grow by (auto simp: plan_ok_def intro: issued_id_mono) blast
    qed
  qed
  moreover have "todos_apart (P(?i \<mapsto> p))"
  proof -
    have "td_ID ` set (pl_Steps p) \<inter> td_ID ` set (pl_Steps q) = {}" if "P j = Some q" for j q
    proof -
      have "\<forall>x \<in> set (pl_Steps q). issued_id ''todo-'' t (td_ID x)"
        using tree that unfolding tree_ok_def plans_inv_def plan_ok_def by blast
      then show ?thesis using ids by fastforce
    qed
    then show ?thesis using tree f unfolding tree_ok_def todos_apart_def by (auto split: if_splits; blast)
  qed
  ultimately show ?thesis using gi by (simp add: tree_ok_def)
qed

lemma tree_delete_goal:
  assumes tree: "tree_ok n m t G P" and i: "i \<noteq> []"
  shows "tree_ok n m t (G(i := None)) (\<lambda>j. case P j of None \<Rightarrow> None | Some p \<Rightarrow> if pl_GoalID p \<noteq> i then Some p else None)"
    (is "tree_ok n m t _ ?P")
proof -
  have P: "?P j = Some p \<longleftrightarrow> P j = Some p \<and> pl_GoalID p \<noteq> i" for j p by (auto split: option.splits)
  have "goals_inv n (G(i := None)) ?P" using tree unfolding tree_ok_def goals_inv_def P by (auto split: if_splits) metis
  moreover have "plans_inv m t (G(i := None)) ?P" using tree unfolding tree_ok_def plans_inv_def P by auto
  moreover have "todos_apart ?P" using tree unfolding tree_ok_def todos_apart_def P by blast
  ultimately show ?thesis by (simp add: tree_ok_def)
qed

lemma tree_remove_plan:
  assumes tree: "tree_ok n m t G P" and p: "P i = Some p"
    and G': "G' = (if pl_GoalID p = [] then G else
      G(pl_GoalID p := map_option (\<lambda>g. g\<lparr>gl_Plans := filter (\<lambda>j. j \<noteq> i) (gl_Plans g)\<rparr>) (G (pl_GoalID p))))"
  shows "tree_ok n m t G' (P(i := None))"
proof -
  have ok: "goal_ok (g\<lparr>gl_Plans := x\<rparr>) = goal_ok g" for g x by (simp add: goal_ok_def)
  have G: "\<exists>g. G k = Some g \<and> (g' = g \<and> (k \<noteq> pl_GoalID p \<or> pl_GoalID p = []) \<or>
      k = pl_GoalID p \<and> g' = g\<lparr>gl_Plans := filter (\<lambda>j. j \<noteq> i) (gl_Plans g)\<rparr>)" if "G' k = Some g'" for k g'
    using that G' by (auto split: if_splits)
  have nonempty: "G k = Some g \<Longrightarrow> k \<noteq> []" for k g
    using tree issued_id_ne unfolding tree_ok_def goals_inv_def by blast
  have gi: "goals_inv n G' (P(i := None))"
    unfolding goals_inv_def
  proof (intro allI impI)
    fix k g' assume "G' k = Some g'"
    then obtain g where g: "G k = Some g" and cases: "g' = g \<and> (k \<noteq> pl_GoalID p \<or> pl_GoalID p = []) \<or>
      k = pl_GoalID p \<and> g' = g\<lparr>gl_Plans := filter (\<lambda>j. j \<noteq> i) (gl_Plans g)\<rparr>" using G by blast
    have inv: "gl_ID g = k" "issued_id ''goal-'' n k" "goal_ok g" "distinct (gl_Plans g)"
      "\<forall>j \<in> set (gl_Plans g). \<exists>p. P j = Some p \<and> pl_GoalID p = k"
      using tree g unfolding tree_ok_def goals_inv_def by blast+
    have "i \<notin> set (gl_Plans g)" if "k \<noteq> pl_GoalID p" using inv(5) p that by fastforce
    then show "gl_ID g' = k \<and> issued_id ''goal-'' n k \<and> goal_ok g' \<and> distinct (gl_Plans g') \<and>
        (\<forall>j \<in> set (gl_Plans g'). \<exists>q. (P(i := None)) j = Some q \<and> pl_GoalID q = k)"
      using cases inv ok nonempty [OF g] by (elim disjE) auto
  qed
  have "plans_inv m t G' (P(i := None))"
    unfolding plans_inv_def
  proof (intro allI impI)
    fix j q assume "(P(i := None)) j = Some q"
    then have q: "P j = Some q" "j \<noteq> i" by (auto split: if_splits)
    then have inv: "plan_ok m t j q" "pl_GoalID q \<noteq> [] \<Longrightarrow> \<exists>g. G (pl_GoalID q) = Some g \<and> j \<in> set (gl_Plans g)"
      using tree unfolding tree_ok_def plans_inv_def by blast+
    then show "plan_ok m t j q \<and> (pl_GoalID q \<noteq> [] \<longrightarrow> (\<exists>g. G' (pl_GoalID q) = Some g \<and> j \<in> set (gl_Plans g)))"
      using q(2) G' by auto
  qed
  moreover have "todos_apart (P(i := None))"
    using tree unfolding tree_ok_def todos_apart_def by (auto split: if_splits)
  ultimately show ?thesis using gi by (simp add: tree_ok_def)
qed

section \<open>Every operation keeps the invariant\<close>

lemma tree_mono: "tree_ok n m t G P \<Longrightarrow> n \<le> n' \<Longrightarrow> m \<le> m' \<Longrightarrow> t \<le> t' \<Longrightarrow> tree_ok n' m' t' G P"
  unfolding tree_ok_def goals_inv_def plans_inv_def plan_ok_def
  by (meson issued_id_mono)

lemma engine_seq:
  assumes "engine_ok e" and "en_goalSeq e \<le> n" and "en_planSeq e \<le> m" and "en_todoSeq e \<le> t"
  shows "engine_ok (e\<lparr>en_goalSeq := n, en_planSeq := m, en_todoSeq := t\<rparr>)"
  using assms tree_mono unfolding engine_ok_def by fastforce

lemma GetGoal_engine:
  "on_prov (GetGoal False i) e =
     (if mp_closed (en_prov e) then (Inl ErrProviderClosed, e)
      else case map_of (mp_goals (en_prov e)) i of None \<Rightarrow> (Inl (ErrUnknownGoal i), e) | Some g \<Rightarrow> (Inr g, e))"
  by (simp add: on_prov_def GetGoal_def and_then_def provider_open_def split: option.split)

lemma GetPlan_engine:
  "on_prov (GetPlan False i) e =
     (if mp_closed (en_prov e) then (Inl ErrProviderClosed, e)
      else case map_of (mp_plans (en_prov e)) i of None \<Rightarrow> (Inl (ErrUnknownPlan i), e) | Some p \<Rightarrow> (Inr p, e))"
  by (simp add: on_prov_def GetPlan_def and_then_def provider_open_def split: option.split)

lemma ListPlans_engine:
  "on_prov (ListPlans False) e =
     (if mp_closed (en_prov e) then (Inl ErrProviderClosed, e)
      else (Inr (sort_key pl_ID (vals (mp_plans (en_prov e)))), e))"
  by (simp add: on_prov_def ListPlans_def and_then_def provider_open_def)

definition store_goal :: "Goal \<Rightarrow> plan_engine \<Rightarrow> plan_engine" where
  "store_goal g e = e\<lparr>en_prov := (en_prov e)\<lparr>mp_goals := AList.update (gl_ID g) g (mp_goals (en_prov e))\<rparr>\<rparr>"

definition store_plan :: "Plan \<Rightarrow> plan_engine \<Rightarrow> plan_engine" where
  "store_plan p e = e\<lparr>en_prov := (en_prov e)\<lparr>mp_plans := AList.update (pl_ID p) p (mp_plans (en_prov e))\<rparr>\<rparr>"

lemma PutGoal_engine:
  "gl_ID g \<noteq> [] \<Longrightarrow> on_prov (PutGoal False g) e =
     (if mp_closed (en_prov e) then (Inl ErrProviderClosed, e) else (Inr (), store_goal g e))"
  by (simp add: on_prov_def PutGoal_def store_goal_def)

lemma PutPlan_engine:
  "pl_ID p \<noteq> [] \<Longrightarrow> on_prov (PutPlan False p) e =
     (if mp_closed (en_prov e) then (Inl ErrProviderClosed, e) else (Inr (), store_plan p e))"
  by (simp add: on_prov_def PutPlan_def store_plan_def)

lemmas engine_calls = GetGoal_engine GetPlan_engine ListPlans_engine PutGoal_engine PutPlan_engine

lemma engine_put_goal:
  assumes "engine_ok e" and "map_of (mp_goals (en_prov e)) i = Some g"
    and "gl_ID g' = i" and "gl_Plans g' = gl_Plans g" and "goal_ok g'"
  shows "engine_ok (store_goal g' e)"
proof -
  from assms(1) have "tree_ok (en_goalSeq e) (en_planSeq e) (en_todoSeq e)
      (map_of (mp_goals (en_prov e))) (map_of (mp_plans (en_prov e)))" by (simp add: engine_ok_def)
  from tree_put_goal [OF this assms(2-5)] assms(1,3) show ?thesis by (simp add: engine_ok_def store_goal_def)
qed

lemma engine_put_plan:
  assumes "engine_ok e" and "map_of (mp_plans (en_prov e)) i = Some p" and "pl_GoalID p' = pl_GoalID p"
    and "plan_ok (en_planSeq e) t' i p'" and "en_todoSeq e \<le> t'"
    and "\<forall>x \<in> set (pl_Steps p'). td_ID x \<in> td_ID ` set (pl_Steps p) \<or> \<not> issued_id ''todo-'' (en_todoSeq e) (td_ID x)"
  shows "engine_ok (store_plan p' (e\<lparr>en_todoSeq := t'\<rparr>))"
proof -
  from assms(1) have "tree_ok (en_goalSeq e) (en_planSeq e) (en_todoSeq e)
      (map_of (mp_goals (en_prov e))) (map_of (mp_plans (en_prov e)))" by (simp add: engine_ok_def)
  note tree_put_plan [OF this assms(2-6)]
  moreover have "pl_ID p' = i" using assms(4) by (simp add: plan_ok_def)
  ultimately show ?thesis using assms(1) by (simp add: engine_ok_def store_plan_def)
qed

lemma engine_goal:
  assumes "engine_ok e" and "map_of (mp_goals (en_prov e)) i = Some g"
  shows "gl_ID g = i \<and> i \<noteq> [] \<and> goal_ok g \<and> distinct (gl_Plans g)"
  using assms issued_id_ne unfolding engine_ok_def tree_ok_def goals_inv_def by blast

lemma engine_plan:
  assumes "engine_ok e" and "map_of (mp_plans (en_prov e)) i = Some p"
  shows "pl_ID p = i \<and> i \<noteq> [] \<and> plan_ok (en_planSeq e) (en_todoSeq e) i p"
  using assms issued_id_ne unfolding engine_ok_def tree_ok_def plans_inv_def plan_ok_def by blast

text \<open>A goal rewritten by an operation.\<close>

lemma rewrite_goal:
  assumes e: "engine_ok e"
    and F: "\<And>g. map_of (mp_goals (en_prov e)) i = Some g \<Longrightarrow> gl_ID g = i \<Longrightarrow> i \<noteq> [] \<Longrightarrow> goal_ok g \<Longrightarrow>
      snd (F g e) = e \<or> (\<exists>g'. snd (F g e) = store_goal g' e \<and> gl_ID g' = i \<and> gl_Plans g' = gl_Plans g \<and> goal_ok g')"
  shows "engine_ok (snd (and_then (on_prov (GetGoal False i)) F e))"
proof (cases "mp_closed (en_prov e) \<or> map_of (mp_goals (en_prov e)) i = None")
  case True
  then show ?thesis using e by (auto simp: GetGoal_engine and_then_def)
next
  case False
  then obtain g where g: "map_of (mp_goals (en_prov e)) i = Some g" and o: "\<not> mp_closed (en_prov e)" by blast
  have "and_then (on_prov (GetGoal False i)) F e = F g e" using g o by (simp add: GetGoal_engine and_then_def)
  moreover have "engine_ok (snd (F g e))"
    using F [OF g] engine_goal [OF e g] e engine_put_goal [OF e g] by metis
  ultimately show ?thesis by simp
qed

lemma rewrite_plan:
  assumes e: "engine_ok e"
    and F: "\<And>p. map_of (mp_plans (en_prov e)) i = Some p \<Longrightarrow> pl_ID p = i \<Longrightarrow> i \<noteq> [] \<Longrightarrow>
      plan_ok (en_planSeq e) (en_todoSeq e) i p \<Longrightarrow> engine_ok (snd (F p e))"
  shows "engine_ok (snd (and_then (on_prov (GetPlan False i)) F e))"
proof (cases "mp_closed (en_prov e) \<or> map_of (mp_plans (en_prov e)) i = None")
  case True
  then show ?thesis using e by (auto simp: GetPlan_engine and_then_def)
next
  case False
  then obtain p where p: "map_of (mp_plans (en_prov e)) i = Some p" and o: "\<not> mp_closed (en_prov e)" by blast
  have "and_then (on_prov (GetPlan False i)) F e = F p e" using p o by (simp add: GetPlan_engine and_then_def)
  then show ?thesis using F [OF p] engine_plan [OF e p] by simp
qed

lemma enter_keeps:
  assumes "engine_ok e" and "engine_ok (snd (F () e))"
  shows "engine_ok (snd (and_then (enter c) F e))"
  using assms by (cases "c \<or> en_closed e") (auto simp: enter_def and_then_def checkOpen_def guard_op_cases)

lemma guard_keeps:
  assumes "engine_ok e" and "b \<Longrightarrow> engine_ok (snd (F () e))"
  shows "engine_ok (snd (and_then (guard_op x b) F e))"
  using assms by (cases b) (auto simp: and_then_def)

lemma goal_ok_status: "goal_ok g \<Longrightarrow> goal_ok (set_status now st g)"
  by (auto simp: goal_ok_def set_status_def applyCompletedAt_def nextRevision_def)

lemma goal_ok_revision:
  "goal_ok g \<Longrightarrow> goal_ok (g\<lparr>gl_Title := a, gl_Objective := b, gl_Revision := nextRevision (gl_Revision g)\<rparr>)"
  by (simp add: goal_ok_def nextRevision_def)

lemma keeps_UpdateGoal: "engine_ok e \<Longrightarrow> engine_ok (snd (UpdateGoal (\<lambda>_. False) i title objective e))"
  unfolding UpdateGoal_def
  by (intro enter_keeps guard_keeps rewrite_goal)
    (auto simp: and_then_def Let_def PutGoal_engine goal_ok_def nextRevision_def split: if_splits)

lemma keeps_StartGoalRound: "engine_ok e \<Longrightarrow> engine_ok (snd (StartGoalRound (\<lambda>_. False) i e))"
  unfolding StartGoalRound_def
  by (intro enter_keeps rewrite_goal)
    (auto simp: and_then_def Let_def PutGoal_engine goal_ok_def guard_op_cases split: if_splits)

lemma keeps_SetGoalBlockedReason: "engine_ok e \<Longrightarrow> engine_ok (snd (SetGoalBlockedReason (\<lambda>_. False) i reason e))"
  unfolding SetGoalBlockedReason_def
  by (intro enter_keeps rewrite_goal)
    (auto simp: and_then_def Let_def PutGoal_engine goal_ok_def guard_op_cases split: if_splits)

lemma and_then_assoc: "and_then (and_then m f) h = and_then m (\<lambda>x. and_then (f x) h)"
  by (auto simp: fun_eq_iff and_then_def split: prod.splits sum.splits)

lemma keeps_SetGoalStatusIfRevision:
  "engine_ok e \<Longrightarrow> engine_ok (snd (SetGoalStatusIfRevision (\<lambda>_. False) now i revision st e))"
  unfolding SetGoalStatusIfRevision_def status_if_read_def and_then_assoc
  by (intro enter_keeps rewrite_goal)
    (auto simp: and_then_def PutGoal_engine guard_op_cases set_status_def goal_ok_def applyCompletedAt_def nextRevision_def
      split: if_splits)

lemma keeps_UpdateGoalIfRevision:
  "engine_ok e \<Longrightarrow> engine_ok (snd (UpdateGoalIfRevision (\<lambda>_. False) i revision objective maxRounds e))"
  unfolding UpdateGoalIfRevision_def update_if_read_def and_then_assoc
  by (intro enter_keeps guard_keeps rewrite_goal)
    (auto simp: and_then_def Let_def PutGoal_engine guard_op_cases goal_ok_def nextRevision_def
      split: if_splits option.splits)

lemma keeps_createGoal:
  assumes "engine_ok e" and "1 \<le> maxRounds"
  shows "engine_ok (snd (createGoal (\<lambda>_. False) now title objective maxRounds e))"
  unfolding createGoal_def
proof (intro enter_keeps guard_keeps assms(1))
  let ?e = "e\<lparr>en_goalSeq := Suc (en_goalSeq e)\<rparr>"
  let ?g = "\<lparr>gl_ID = prefixed_id ''goal-'' (Suc (en_goalSeq e)), gl_Title = title, gl_Objective = objective,
    gl_Status = StatusPending, gl_Plans = [], gl_Owner = [], gl_Revision = 1, gl_MaxRounds = maxRounds,
    gl_RoundsStarted = 0, gl_BlockedReason = [], gl_CreatedAt = now, gl_CompletedAt = None\<rparr>"
  from assms(1) have t: "tree_ok (en_goalSeq e) (en_planSeq e) (en_todoSeq e)
      (map_of (mp_goals (en_prov e))) (map_of (mp_plans (en_prov e)))" by (simp add: engine_ok_def)
  have "engine_ok ?e" using engine_seq [OF assms(1), of "Suc (en_goalSeq e)" "en_planSeq e" "en_todoSeq e"] by simp
  moreover have "engine_ok (store_goal ?g ?e)"
    using tree_new_goal [OF t, of ?g] assms by (simp add: engine_ok_def store_goal_def goal_ok_def)
  ultimately show "engine_ok (snd (and_then (modify_op (\<lambda>e. e\<lparr>en_goalSeq := en_goalSeq e + 1\<rparr>)) (\<lambda>_ e.
       let g = \<lparr>gl_ID = prefixed_id ''goal-'' (en_goalSeq e), gl_Title = title, gl_Objective = objective,
                gl_Status = StatusPending, gl_Plans = [], gl_Owner = [], gl_Revision = 1, gl_MaxRounds = maxRounds,
                gl_RoundsStarted = 0, gl_BlockedReason = [], gl_CreatedAt = now, gl_CompletedAt = None\<rparr>
       in and_then (on_prov (PutGoal False g)) (\<lambda>_. ret g) e) e))"
    by (simp add: Let_def and_then_def PutGoal_engine)
qed

lemma keeps_AddTodo: "engine_ok e \<Longrightarrow> engine_ok (snd (AddTodo (\<lambda>_. False) now planID title acceptance e))"
  unfolding AddTodo_def
proof (intro enter_keeps guard_keeps rewrite_plan)
  fix p :: Plan
  let ?t = "\<lparr>td_ID = prefixed_id ''todo-'' (Suc (en_todoSeq e)), td_Title = title, td_Status = StatusPending,
    td_Details = [], td_Acceptance = acceptance, td_CreatedAt = now, td_CompletedAt = None\<rparr>"
  let ?p = "p\<lparr>pl_Steps := pl_Steps p @ [?t]\<rparr>" and ?e = "e\<lparr>en_todoSeq := Suc (en_todoSeq e)\<rparr>"
  assume e: "engine_ok e" and p: "map_of (mp_plans (en_prov e)) planID = Some p" and i: "pl_ID p = planID" "planID \<noteq> []"
    and ok: "plan_ok (en_planSeq e) (en_todoSeq e) planID p"
  have "engine_ok ?e" using engine_seq [OF e, of "en_goalSeq e" "en_planSeq e" "Suc (en_todoSeq e)"] by simp
  moreover have "engine_ok (store_plan ?p ?e)"
  proof (rule engine_put_plan [OF e p])
    have "prefixed_id ''todo-'' (Suc (en_todoSeq e)) \<notin> td_ID ` set (pl_Steps p)"
    proof
      assume "prefixed_id ''todo-'' (Suc (en_todoSeq e)) \<in> td_ID ` set (pl_Steps p)"
      then obtain x where "x \<in> set (pl_Steps p)" "td_ID x = prefixed_id ''todo-'' (Suc (en_todoSeq e))" by (metis imageE)
      then have "issued_id ''todo-'' (en_todoSeq e) (prefixed_id ''todo-'' (Suc (en_todoSeq e)))"
        using ok unfolding plan_ok_def by metis
      then show False using not_issued [of "en_todoSeq e" "Suc (en_todoSeq e)"] by simp
    qed
    then show "plan_ok (en_planSeq e) (Suc (en_todoSeq e)) planID ?p"
      using ok issued_id_mono [of _ "en_todoSeq e" _ "Suc (en_todoSeq e)"] by (auto simp: plan_ok_def todo_ok_def issued_self)
    show "\<forall>x \<in> set (pl_Steps ?p). td_ID x \<in> td_ID ` set (pl_Steps p) \<or> \<not> issued_id ''todo-'' (en_todoSeq e) (td_ID x)"
      using not_issued [of "en_todoSeq e" "Suc (en_todoSeq e)"] by auto
  qed simp_all
  ultimately show "engine_ok (snd (and_then (modify_op (\<lambda>e. e\<lparr>en_todoSeq := en_todoSeq e + 1\<rparr>)) (\<lambda>_ e.
       let todo = \<lparr>td_ID = prefixed_id ''todo-'' (en_todoSeq e), td_Title = title, td_Status = StatusPending,
                   td_Details = [], td_Acceptance = acceptance, td_CreatedAt = now, td_CompletedAt = None\<rparr>
       in and_then (on_prov (PutPlan False (p\<lparr>pl_Steps := pl_Steps p @ [todo]\<rparr>))) (\<lambda>_. ret todo) e) e))"
    using i by (simp add: Let_def and_then_def PutPlan_engine)
qed

lemma step_index_Some:
  "step_index i ts = Some n \<Longrightarrow> n < length ts \<and> td_ID (ts ! n) = i"
  by (induction i ts arbitrary: n rule: step_index.induct) (auto split: if_splits)

lemma find_todo_Some:
  "find_todo i ps = Some (p, n) \<Longrightarrow> p \<in> set ps \<and> n < length (pl_Steps p) \<and> td_ID (pl_Steps p ! n) = i"
  by (induction i ps rule: find_todo.induct) (auto split: option.splits dest: step_index_Some)

lemma listed_plan:
  assumes "engine_ok e" and "p \<in> set (sort_key pl_ID (vals (mp_plans (en_prov e))))"
  shows "map_of (mp_plans (en_prov e)) (pl_ID p) = Some p"
proof -
  from assms(2) obtain i where "(i, p) \<in> set (mp_plans (en_prov e))" by auto
  then have "map_of (mp_plans (en_prov e)) i = Some p" using assms(1) by (simp add: engine_ok_def wf_map_in_set)
  then show ?thesis using engine_plan [OF assms(1)] by fastforce
qed

text \<open>A plan found by one of its todos and rewritten.\<close>

lemma put_steps:
  assumes e: "engine_ok e" and p: "map_of (mp_plans (en_prov e)) (pl_ID p) = Some p"
    and ts: "distinct (map td_ID ts)" "\<And>x. x \<in> set ts \<Longrightarrow> todo_ok x \<and> td_ID x \<in> td_ID ` set (pl_Steps p)"
  shows "engine_ok (snd (on_prov (PutPlan False (p\<lparr>pl_Steps := ts\<rparr>)) e))"
proof -
  have ok: "plan_ok (en_planSeq e) (en_todoSeq e) (pl_ID p) p" "pl_ID p \<noteq> []" using engine_plan [OF e p] by simp_all
  have "engine_ok (store_plan (p\<lparr>pl_Steps := ts\<rparr>) (e\<lparr>en_todoSeq := en_todoSeq e\<rparr>))"
  proof (rule engine_put_plan [OF e p])
    have "issued_id ''todo-'' (en_todoSeq e) (td_ID x)" if "x \<in> set ts" for x
      using ts(2) [OF that] ok(1) by (auto simp: plan_ok_def)
    then show "plan_ok (en_planSeq e) (en_todoSeq e) (pl_ID p) (p\<lparr>pl_Steps := ts\<rparr>)"
      using ok(1) ts by (auto simp: plan_ok_def)
    show "\<forall>x \<in> set (pl_Steps (p\<lparr>pl_Steps := ts\<rparr>)). td_ID x \<in> td_ID ` set (pl_Steps p) \<or>
        \<not> issued_id ''todo-'' (en_todoSeq e) (td_ID x)" using ts(2) by simp
  qed simp_all
  then show ?thesis using ok(2) e by (simp add: PutPlan_engine)
qed

lemma keeps_setTodoStatus: 
  assumes e: "engine_ok e"
  shows "engine_ok (snd (setTodoStatus (\<lambda>_. False) now i st e))"
proof (cases "find_todo i (sort_key pl_ID (vals (mp_plans (en_prov e))))")
  case None
  with e show ?thesis by (simp add: setTodoStatus_def and_then_def ListPlans_engine)
next
  case (Some x)
  then obtain p n where x: "find_todo i (sort_key pl_ID (vals (mp_plans (en_prov e)))) = Some (p, n)" by (cases x) auto
  let ?t = "(pl_Steps p ! n)\<lparr>td_Status := st, td_CompletedAt := applyCompletedAt now st\<rparr>"
  note f = find_todo_Some [OF x]
  have p: "map_of (mp_plans (en_prov e)) (pl_ID p) = Some p" using listed_plan [OF e] f by blast
  have ok: "\<forall>x \<in> set (pl_Steps p). todo_ok x" "distinct (map td_ID (pl_Steps p))"
    using engine_plan [OF e p] by (simp_all add: plan_ok_def)
  have ids: "map td_ID ((pl_Steps p)[n := ?t]) = map td_ID (pl_Steps p)"
    using f by (simp add: map_update list_update_same_conv)
  have "todo_ok ?t" by (simp add: todo_ok_def applyCompletedAt_def)
  then have ts: "todo_ok y \<and> td_ID y \<in> td_ID ` set (pl_Steps p)" if "y \<in> set ((pl_Steps p)[n := ?t])" for y
    using that ok(1) set_update_subset_insert [of "pl_Steps p" n ?t] f by (metis (no_types, lifting) ids image_eqI insertE list.set_map subsetD)
  have "engine_ok (snd (on_prov (PutPlan False (p\<lparr>pl_Steps := (pl_Steps p)[n := ?t]\<rparr>)) e))"
    by (rule put_steps [OF e p _ ts]) (use ids ok(2) in simp_all)
  then show ?thesis using x e by (simp add: setTodoStatus_def and_then_def ListPlans_engine Let_def)
qed

lemma keeps_removeTodo:
  assumes e: "engine_ok e"
  shows "engine_ok (snd (removeTodo_op (\<lambda>_. False) i e))"
proof (cases "find_todo i (sort_key pl_ID (vals (mp_plans (en_prov e))))")
  case None
  with e show ?thesis by (simp add: removeTodo_op_def and_then_def ListPlans_engine)
next
  case (Some x)
  then obtain p n where x: "find_todo i (sort_key pl_ID (vals (mp_plans (en_prov e)))) = Some (p, n)" by (cases x) auto
  let ?ts = "take n (pl_Steps p) @ drop (n + 1) (pl_Steps p)"
  note f = find_todo_Some [OF x]
  have p: "map_of (mp_plans (en_prov e)) (pl_ID p) = Some p" using listed_plan [OF e] f by blast
  have ok: "\<forall>x \<in> set (pl_Steps p). todo_ok x" "distinct (map td_ID (pl_Steps p))"
    using engine_plan [OF e p] by (simp_all add: plan_ok_def)
  have split: "pl_Steps p = take n (pl_Steps p) @ pl_Steps p ! n # drop (n + 1) (pl_Steps p)"
    using f id_take_nth_drop by fastforce
  have "distinct (map td_ID (take n (pl_Steps p) @ pl_Steps p ! n # drop (n + 1) (pl_Steps p)))"
    using ok(2) unfolding split [symmetric] .
  then have d: "distinct (map td_ID ?ts)" by auto
  have "set ?ts \<subseteq> set (pl_Steps p)" using set_take_subset set_drop_subset by (metis le_sup_iff set_append)
  then have "engine_ok (snd (on_prov (PutPlan False (p\<lparr>pl_Steps := ?ts\<rparr>)) e))"
    by (intro put_steps [OF e p d]) (use ok(1) in auto)
  then show ?thesis using x e by (simp add: removeTodo_op_def and_then_def ListPlans_engine)
qed

lemma keeps_SetStatus: "engine_ok e \<Longrightarrow> engine_ok (snd (SetStatus (\<lambda>_. False) now scope i st e))"
  unfolding SetStatus_def
proof (intro enter_keeps guard_keeps)
  assume e: "engine_ok e"
  have g: "engine_ok (snd (and_then (on_prov (GetGoal False i)) (\<lambda>g. on_prov (PutGoal False (set_status now st g))) e))"
    by (rule rewrite_goal [OF e])
      (auto simp: PutGoal_engine set_status_def goal_ok_def applyCompletedAt_def nextRevision_def)
  have p: "engine_ok (snd (and_then (on_prov (GetPlan False i)) (\<lambda>p. on_prov (PutPlan False (p\<lparr>pl_Status := st\<rparr>))) e))"
  proof (rule rewrite_plan [OF e])
    fix p :: Plan assume p: "map_of (mp_plans (en_prov e)) i = Some p" "pl_ID p = i" "i \<noteq> []"
      "plan_ok (en_planSeq e) (en_todoSeq e) i p"
    have "engine_ok (store_plan (p\<lparr>pl_Status := st\<rparr>) (e\<lparr>en_todoSeq := en_todoSeq e\<rparr>))"
      by (rule engine_put_plan [OF e p(1)]) (use p(4) in \<open>simp_all add: plan_ok_def\<close>)
    then show "engine_ok (snd (on_prov (PutPlan False (p\<lparr>pl_Status := st\<rparr>)) e))" using p e by (simp add: PutPlan_engine)
  qed
  show "engine_ok (snd ((if scope = ''goal'' then
         and_then (on_prov (GetGoal False i)) (\<lambda>g. on_prov (PutGoal False (set_status now st g)))
       else if scope = ''plan'' then
         and_then (on_prov (GetPlan False i)) (\<lambda>p. on_prov (PutPlan False (p\<lparr>pl_Status := st\<rparr>)))
       else if scope = ''todo'' then setTodoStatus (\<lambda>_. False) now i st
       else fail ErrUnknownScope) e))"
    using e g p keeps_setTodoStatus [OF e] by simp
qed

lemma new_steps_ids: "map td_ID (new_steps now seq steps) = map (prefixed_id ''todo-'') [Suc seq..<Suc seq + length steps]"
  by (induction now seq steps rule: new_steps.induct) (simp_all add: upt_conv_Cons del: upt_Suc)

lemma new_steps_ok:
  "plan_ok n (seq + length steps) i \<lparr>pl_ID = i, pl_Title = a, pl_GoalID = g, pl_Status = st,
     pl_Steps = new_steps now seq steps, pl_CreatedAt = now\<rparr> \<longleftrightarrow> issued_id ''plan-'' n i"
  "x \<in> set (new_steps now seq steps) \<Longrightarrow> \<not> issued_id ''todo-'' seq (td_ID x)"
proof -
  have ids: "td_ID ` set (new_steps now seq steps) = prefixed_id ''todo-'' ` {Suc seq..<Suc seq + length steps}"
    using arg_cong [OF new_steps_ids [of now seq steps], of set] by (simp only: set_map set_upt)
  have "distinct (map td_ID (new_steps now seq steps))"
    unfolding new_steps_ids by (simp add: distinct_map inj_on_def)
  moreover have "todo_ok y" if "y \<in> set (new_steps now seq steps)" for y
    using that by (induction now seq steps rule: new_steps.induct) (auto simp: todo_ok_def)
  moreover have "issued_id ''todo-'' (seq + length steps) (td_ID y)" if "y \<in> set (new_steps now seq steps)" for y
  proof -
    have "td_ID y \<in> prefixed_id ''todo-'' ` {Suc seq..<Suc seq + length steps}" using that ids by blast
    then show ?thesis by (auto simp: issued_id_def)
  qed
  ultimately show "plan_ok n (seq + length steps) i \<lparr>pl_ID = i, pl_Title = a, pl_GoalID = g, pl_Status = st,
     pl_Steps = new_steps now seq steps, pl_CreatedAt = now\<rparr> \<longleftrightarrow> issued_id ''plan-'' n i"
    by (auto simp: plan_ok_def)
  show "\<not> issued_id ''todo-'' seq (td_ID x)" if "x \<in> set (new_steps now seq steps)"
  proof -
    have "td_ID x \<in> prefixed_id ''todo-'' ` {Suc seq..<Suc seq + length steps}" using that ids by blast
    then show ?thesis using not_issued by force
  qed
qed

lemma keeps_CreatePlan: "engine_ok e \<Longrightarrow> engine_ok (snd (CreatePlan (\<lambda>_. False) now goalID title steps e))"
  unfolding CreatePlan_def
proof (intro enter_keeps guard_keeps)
  assume e: "engine_ok e"
  let ?i = "prefixed_id ''plan-'' (Suc (en_planSeq e))" and ?t = "en_todoSeq e + length steps"
  let ?p = "\<lparr>pl_ID = ?i, pl_Title = title, pl_GoalID = goalID, pl_Status = StatusPending,
    pl_Steps = new_steps now (en_todoSeq e) steps, pl_CreatedAt = now\<rparr>"
  let ?e = "e\<lparr>en_planSeq := Suc (en_planSeq e), en_todoSeq := ?t\<rparr>"
  let ?G = "map_of (mp_goals (en_prov e))" and ?P = "map_of (mp_plans (en_prov e))"
  from e have t: "tree_ok (en_goalSeq e) (en_planSeq e) (en_todoSeq e) ?G ?P" by (simp add: engine_ok_def)
  have seq: "engine_ok ?e" using engine_seq [OF e, of "en_goalSeq e" "Suc (en_planSeq e)" ?t] by simp
  have new: "tree_ok (en_goalSeq e) (Suc (en_planSeq e)) ?t G' (?P(?i \<mapsto> ?p))"
    if "goalID = [] \<and> G' = ?G \<or> (\<exists>g. ?G goalID = Some g \<and> G' = ?G(goalID \<mapsto> g\<lparr>gl_Plans := gl_Plans g @ [?i]\<rparr>))" for G'
    using tree_new_plan [OF t, of ?p ?t G'] that new_steps_ok
    by (simp add: issued_self)
  let ?body = "\<lambda>_ e. let e = e\<lparr>en_planSeq := en_planSeq e + 1\<rparr>;
           p = \<lparr>pl_ID = prefixed_id ''plan-'' (en_planSeq e), pl_Title = title, pl_GoalID = goalID,
                pl_Status = StatusPending, pl_Steps = new_steps now (en_todoSeq e) steps, pl_CreatedAt = now\<rparr>;
           e = e\<lparr>en_todoSeq := en_todoSeq e + length steps\<rparr>
       in and_then (on_prov (PutPlan False p)) (\<lambda>_.
          and_then (if goalID \<noteq> [] then linkPlan (\<lambda>_. False) goalID (pl_ID p) else ret ()) (\<lambda>_. ret p)) e"
  have body: "engine_ok (snd (?body () e))" if found: "goalID = [] \<or> (\<exists>g. ?G goalID = Some g)"
  proof (cases "mp_closed (en_prov e)")
    case True
    then show ?thesis using seq by (simp add: Let_def and_then_def PutPlan_engine)
  next
    case unclosed: False
    show ?thesis
    proof (cases "goalID = []")
      case True
      then have "engine_ok (store_plan ?p ?e)" using new [of ?G] e by (simp add: engine_ok_def store_plan_def)
      then show ?thesis using True unclosed by (simp add: Let_def and_then_def PutPlan_engine)
    next
      case False
      then obtain g where g: "?G goalID = Some g" using found by blast
      then have gid: "gl_ID g = goalID" using engine_goal [OF e] by blast
      have "engine_ok (store_goal (g\<lparr>gl_Plans := gl_Plans g @ [?i]\<rparr>) (store_plan ?p ?e))"
        using new [of "?G(goalID \<mapsto> g\<lparr>gl_Plans := gl_Plans g @ [?i]\<rparr>)"] g gid e
        by (simp add: engine_ok_def store_plan_def store_goal_def)
      then show ?thesis using False unclosed g gid
        by (simp add: Let_def and_then_def PutPlan_engine linkPlan_def GetGoal_engine PutGoal_engine store_plan_def)
    qed
  qed
  show "engine_ok (snd (and_then (if goalID \<noteq> [] then and_then (on_prov (GetGoal False goalID)) (\<lambda>_. ret ()) else ret ()) ?body e))"
  proof (cases "goalID = []")
    case True
    then show ?thesis using body by (simp add: and_then_def)
  next
    case False
    show ?thesis
    proof (cases "mp_closed (en_prov e) \<or> ?G goalID = None")
      case True
      then show ?thesis using False e by (auto simp: and_then_def GetGoal_engine)
    next
      case f: False
      then obtain g where "?G goalID = Some g" by blast
      then show ?thesis using False f body by (simp add: and_then_def GetGoal_engine)
    qed
  qed
qed

lemma keeps_RemoveRecord: "engine_ok e \<Longrightarrow> engine_ok (snd (RemoveRecord (\<lambda>_. False) scope i e))"
  unfolding RemoveRecord_def
proof (intro enter_keeps)
  assume e: "engine_ok e"
  let ?G = "map_of (mp_goals (en_prov e))" and ?P = "map_of (mp_plans (en_prov e))"
  from e have t: "tree_ok (en_goalSeq e) (en_planSeq e) (en_todoSeq e) ?G ?P" by (simp add: engine_ok_def)
  have g: "engine_ok (snd (on_prov (DeleteGoal False i) e))"
  proof (cases "mp_closed (en_prov e) \<or> ?G i = None")
    case True
    then show ?thesis using e by (auto simp: on_prov_def DeleteGoal_def and_then_def provider_open_def)
  next
    case False
    then have "i \<noteq> []" using engine_goal [OF e] by blast
    have f: "map_of (filter (\<lambda>(_, p). pl_GoalID p \<noteq> i) (mp_plans (en_prov e))) =
        (\<lambda>j. case ?P j of None \<Rightarrow> None | Some p \<Rightarrow> if pl_GoalID p \<noteq> i then Some p else None)"
      using e by (intro ext) (simp add: engine_ok_def map_of_filter_wf split: option.split)
    from tree_delete_goal [OF t \<open>i \<noteq> []\<close>] False e show ?thesis
      by (simp add: on_prov_def DeleteGoal_def and_then_def provider_open_def engine_ok_def f)
  qed
  have p: "engine_ok (snd (removePlan (\<lambda>_. False) i e))"
    unfolding removePlan_def
  proof (rule rewrite_plan [OF e])
    fix p :: Plan assume p: "?P i = Some p" "pl_ID p = i" "i \<noteq> []"
    let ?e = "e\<lparr>en_prov := (en_prov e)\<lparr>mp_plans := AList.delete i (mp_plans (en_prov e))\<rparr>\<rparr>"
    note rm = tree_remove_plan [OF t p(1), OF refl]
    show "engine_ok (snd (and_then (on_prov (DeletePlan False i)) (\<lambda>_.
       if pl_GoalID p = [] then ret ()
       else and_then (on_prov (GetGoal False (pl_GoalID p))) (\<lambda>g.
         on_prov (PutGoal False (g\<lparr>gl_Plans := filter (\<lambda>pid. pid \<noteq> i) (gl_Plans g)\<rparr>)))) e))"
    proof (cases "mp_closed (en_prov e)")
      case True
      then show ?thesis using e by (simp add: on_prov_def DeletePlan_def and_then_def provider_open_def)
    next
      case unclosed: False
      then have del: "on_prov (DeletePlan False i) e = (Inr (), ?e)"
        using p by (simp add: on_prov_def DeletePlan_def and_then_def provider_open_def)
      show ?thesis
      proof (cases "pl_GoalID p = []")
        case True
        then show ?thesis using rm e by (simp add: and_then_def del engine_ok_def)
      next
        case False
        then obtain g where G: "?G (pl_GoalID p) = Some g"
          using t p(1) unfolding tree_ok_def plans_inv_def by blast
        then have "gl_ID g = pl_GoalID p" using engine_goal [OF e] by blast
        then have "engine_ok (store_goal (g\<lparr>gl_Plans := filter (\<lambda>pid. pid \<noteq> i) (gl_Plans g)\<rparr>) ?e)"
          using rm False G e by (simp add: engine_ok_def store_goal_def)
        then show ?thesis
          using False G unclosed \<open>gl_ID g = pl_GoalID p\<close>
          by (simp add: and_then_def del GetGoal_engine PutGoal_engine)
      qed
    qed
  qed
  show "engine_ok (snd ((if scope = ''goal'' then on_prov (DeleteGoal False i)
       else if scope = ''plan'' then removePlan (\<lambda>_. False) i
       else if scope = ''todo'' then removeTodo_op (\<lambda>_. False) i
       else fail ErrUnknownScope) e))"
    using e g p keeps_removeTodo [OF e] by simp
qed

section \<open>Runs\<close>

datatype plan_call =
    CallCreateGoal string string int | CallUpdateGoal string string string
  | CallUpdateGoalIf string int "string option" "int option"
  | CallCreatePlan string string "string list" | CallAddTodo string string "string list"
  | CallSetStatus string string Status | CallBlockedReason string string
  | CallStatusIf string int Status | CallStartRound string | CallList | CallRemove string string | CallClose

fun plan_exec :: "bool \<Rightarrow> go_time \<Rightarrow> plan_call \<Rightarrow> plan_engine \<Rightarrow> plan_engine" where
  "plan_exec c now (CallCreateGoal t d n) e = snd (CreateGoalWithMaxRounds (\<lambda>_. c) now t d n e)"
| "plan_exec c now (CallUpdateGoal i t d) e = snd (UpdateGoal (\<lambda>_. c) i t d e)"
| "plan_exec c now (CallUpdateGoalIf i r d n) e = snd (UpdateGoalIfRevision (\<lambda>_. c) i r d n e)"
| "plan_exec c now (CallCreatePlan g t ss) e = snd (CreatePlan (\<lambda>_. c) now g t ss e)"
| "plan_exec c now (CallAddTodo p t a) e = snd (AddTodo (\<lambda>_. c) now p t a e)"
| "plan_exec c now (CallSetStatus s i st) e = snd (SetStatus (\<lambda>_. c) now s i st e)"
| "plan_exec c now (CallBlockedReason i r) e = snd (SetGoalBlockedReason (\<lambda>_. c) i r e)"
| "plan_exec c now (CallStatusIf i r st) e = snd (SetGoalStatusIfRevision (\<lambda>_. c) now i r st e)"
| "plan_exec c now (CallStartRound i) e = snd (StartGoalRound (\<lambda>_. c) i e)"
| "plan_exec c now CallList e = snd (ListTree (\<lambda>_. c) e)"
| "plan_exec c now (CallRemove s i) e = snd (RemoveRecord (\<lambda>_. c) s i e)"
| "plan_exec c now CallClose e = CloseEngine e"

definition plan_run :: "(bool \<times> go_time \<times> plan_call) list \<Rightarrow> plan_engine \<Rightarrow> plan_engine" where
  "plan_run calls e = fold (\<lambda>(c, now, call). plan_exec c now call) calls e"

lemma cancelled_enter: "and_then (enter True) F e = (Inl ErrPlanContext, e)"
  by (simp add: enter_def and_then_def guard_op_cases)

lemma plan_exec_cancelled: "call \<noteq> CallClose \<Longrightarrow> plan_exec True now call e = e"
  by (cases call)
    (simp_all add: CreateGoalWithMaxRounds_def createGoal_def UpdateGoal_def UpdateGoalIfRevision_def update_if_read_def
      CreatePlan_def AddTodo_def SetStatus_def SetGoalBlockedReason_def SetGoalStatusIfRevision_def status_if_read_def
      StartGoalRound_def ListTree_def RemoveRecord_def and_then_assoc cancelled_enter)

lemma keeps_exec:
  assumes "engine_ok e"
  shows "engine_ok (plan_exec c now call e)"
proof (cases "c \<and> call \<noteq> CallClose")
  case True
  then show ?thesis using assms plan_exec_cancelled [of call now e] by simp
next
  case False
  show ?thesis
  proof (cases call)
    case CallClose
    then show ?thesis using assms by (simp add: CloseEngine_def CloseProvider_def engine_ok_def)
  next
    case (CallCreateGoal t d n)
    then show ?thesis
      using assms False keeps_createGoal [OF assms, of "if n \<le> 0 then DefaultMaxGoalRounds else n" now t d]
      by (simp add: CreateGoalWithMaxRounds_def DefaultMaxGoalRounds_def split: if_splits)
  next
    case CallList
    then show ?thesis using assms False
      by (auto simp: ListTree_def and_then_def enter_def checkOpen_def on_prov_def ListGoals_def provider_open_def)
  qed (use assms False in \<open>simp_all add: keeps_UpdateGoal keeps_UpdateGoalIfRevision keeps_CreatePlan keeps_AddTodo
      keeps_SetStatus keeps_SetGoalBlockedReason keeps_SetGoalStatusIfRevision keeps_StartGoalRound keeps_RemoveRecord\<close>)
qed

lemma engine_ok_new: "engine_ok NewEngine"
  by (simp add: engine_ok_def NewEngine_def newMemProvider_def tree_ok_def goals_inv_def plans_inv_def todos_apart_def)


end
