(* ===== verification/Plan_Restore.thy ===== *)
theory Plan_Restore
  imports Plan_Invariant
begin

text \<open>
  The projection of plan facts, \<^verbatim>\<open>internal/plan/restore.go\<close>. A fact is the decoded payload of its event
  (\<^verbatim>\<open>FactBad\<close> when \<^verbatim>\<open>json.Unmarshal\<close> fails). The theory proves that ids issued after a restore
  are new whatever the log contains; \<^verbatim>\<open>Plan_Tools\<close> proves that replaying the facts the tools wrote
  rebuilds the live records.
\<close>

section \<open>Facts\<close>

record planSnapshot =
  sn_Objective :: string
  sn_GoalID :: string
  sn_PlanID :: string
  sn_Status :: Status
  sn_Revision :: int
  sn_MaxRounds :: int
  sn_RoundsStarted :: int
  sn_BlockedReason :: string
  sn_CreatedAt :: go_time
  sn_Steps :: "Todo list"

definition zero_snapshot :: planSnapshot where
  "zero_snapshot = \<lparr>sn_Objective = [], sn_GoalID = [], sn_PlanID = [], sn_Status = OtherStatus [], sn_Revision = 0,
     sn_MaxRounds = 0, sn_RoundsStarted = 0, sn_BlockedReason = [], sn_CreatedAt = 0, sn_Steps = []\<rparr>"

datatype plan_detail = NoDetail | BadDetail | Detail planSnapshot

datatype plan_fact =
    FactCreate (fc_Scope: string) (fc_ID: string) (fc_Title: string) (fc_Acceptance: "string list") (fc_Detail: plan_detail)
  | FactStatus string string Status string
  | FactUpdate string string string string int
  | FactRound string int
  | FactDelete string string
  | FactBad
  | FactOther

text \<open>\<^verbatim>\<open>decodeSnapshot\<close>: an empty detail gives the zero snapshot.\<close>

fun decodeSnapshot :: "plan_detail \<Rightarrow> planSnapshot option" where
  "decodeSnapshot NoDetail = Some zero_snapshot"
| "decodeSnapshot BadDetail = None"
| "decodeSnapshot (Detail s) = Some s"

record plan_projection =
  pp_goals :: "(string \<times> Goal) list"
  pp_plans :: "(string \<times> Plan) list"
  pp_lastGoalID :: string
  pp_lastPlanID :: string

definition created_or :: "go_time \<Rightarrow> go_time \<Rightarrow> go_time" where
  "created_or created at_time = (if created = 0 then at_time else created)"

definition status_or_pending :: "Status \<Rightarrow> Status" where
  "status_or_pending st = (if validStatus st then st else StatusPending)"

definition upsertTodo :: "Todo list \<Rightarrow> Todo \<Rightarrow> Todo list" where
  "upsertTodo steps todo =
     (case step_index (td_ID todo) steps of None \<Rightarrow> steps @ [todo] | Some n \<Rightarrow> steps[n := todo])"

text \<open>A done status is stamped with the event time, the zero time with the start of the epoch.\<close>

definition applyRestoreCompletedAt :: "Status \<Rightarrow> go_time \<Rightarrow> go_time option" where
  "applyRestoreCompletedAt st at_time =
     (if st = StatusDone then Some (if at_time = 0 then 62135596800000000000 else at_time) else None)"

definition restore_goal :: "plan_projection \<Rightarrow> go_time \<Rightarrow> string \<Rightarrow> string \<Rightarrow> planSnapshot \<Rightarrow> plan_projection" where
  "restore_goal s at_time i title snap =
     s\<lparr>pp_goals := AList.update i
          \<lparr>gl_ID = i, gl_Title = title, gl_Objective = sn_Objective snap, gl_Status = status_or_pending (sn_Status snap),
           gl_Plans = [], gl_Owner = [], gl_Revision = (if sn_Revision snap < 1 then 1 else sn_Revision snap),
           gl_MaxRounds = (if sn_MaxRounds snap \<le> 0 then DefaultMaxGoalRounds else sn_MaxRounds snap),
           gl_RoundsStarted = sn_RoundsStarted snap, gl_BlockedReason = sn_BlockedReason snap,
           gl_CreatedAt = created_or (sn_CreatedAt snap) at_time, gl_CompletedAt = None\<rparr> (pp_goals s),
        pp_lastGoalID := i\<rparr>"

definition link_goal :: "string \<Rightarrow> string \<Rightarrow> (string \<times> Goal) list \<Rightarrow> (string \<times> Goal) list" where
  "link_goal goalID planID goals =
     (case map_of goals goalID of
        None \<Rightarrow> goals
      | Some g \<Rightarrow> if planID \<in> set (gl_Plans g) then goals
                  else AList.update goalID (g\<lparr>gl_Plans := gl_Plans g @ [planID]\<rparr>) goals)"

definition restore_plan :: "plan_projection \<Rightarrow> go_time \<Rightarrow> string \<Rightarrow> string \<Rightarrow> planSnapshot \<Rightarrow> plan_projection" where
  "restore_plan s at_time i title snap =
     (let goalID = (if sn_GoalID snap = [] then pp_lastGoalID s else sn_GoalID snap);
          p = \<lparr>pl_ID = i, pl_Title = title, pl_GoalID = goalID, pl_Status = status_or_pending (sn_Status snap),
               pl_Steps = sn_Steps snap, pl_CreatedAt = created_or (sn_CreatedAt snap) at_time\<rparr>
      in s\<lparr>pp_plans := AList.update i p (pp_plans s), pp_goals := link_goal goalID i (pp_goals s), pp_lastPlanID := i\<rparr>)"

definition restore_todo ::
    "plan_projection \<Rightarrow> go_time \<Rightarrow> string \<Rightarrow> string \<Rightarrow> string list \<Rightarrow> plan_detail \<Rightarrow> planSnapshot \<Rightarrow> plan_error + plan_projection" where
  "restore_todo s at_time i title acceptance detail snap =
     (let planID = (if sn_PlanID snap = [] then pp_lastPlanID s else sn_PlanID snap)
      in case map_of (pp_plans s) planID of
           None \<Rightarrow> if detail = NoDetail then Inr s else Inl (ErrUnknownPlan planID)
         | Some p \<Rightarrow>
             let todo = \<lparr>td_ID = i, td_Title = title, td_Status = status_or_pending (sn_Status snap), td_Details = [],
                         td_Acceptance = acceptance, td_CreatedAt = created_or (sn_CreatedAt snap) at_time,
                         td_CompletedAt = None\<rparr>
             in Inr (s\<lparr>pp_plans := AList.update planID (p\<lparr>pl_Steps := upsertTodo (pl_Steps p) todo\<rparr>) (pp_plans s)\<rparr>))"

definition restore_create :: "plan_projection \<Rightarrow> go_time \<Rightarrow> plan_fact \<Rightarrow> plan_error + plan_projection" where
  "restore_create s at_time f =
     (if fc_ID f = [] \<or> fc_Scope f = [] then Inl ErrPayload
      else case decodeSnapshot (fc_Detail f) of
         None \<Rightarrow> Inl ErrDecode
       | Some snap \<Rightarrow>
           if fc_Scope f = ''goal'' then Inr (restore_goal s at_time (fc_ID f) (fc_Title f) snap)
           else if fc_Scope f = ''plan'' then Inr (restore_plan s at_time (fc_ID f) (fc_Title f) snap)
           else if fc_Scope f = ''todo''
                then restore_todo s at_time (fc_ID f) (fc_Title f) (fc_Acceptance f) (fc_Detail f) snap
           else Inl ErrUnknownScope)"

definition nextRestoreRevision :: "int \<Rightarrow> int" where
  "nextRestoreRevision current = (if current < 1 then 1 else current + 1)"

definition on_goal :: "string \<Rightarrow> (Goal \<Rightarrow> Goal) \<Rightarrow> plan_projection \<Rightarrow> plan_projection" where
  "on_goal i f s = (case map_of (pp_goals s) i of
     None \<Rightarrow> s | Some g \<Rightarrow> s\<lparr>pp_goals := AList.update i (f g) (pp_goals s)\<rparr>)"

definition on_plan :: "string \<Rightarrow> (Plan \<Rightarrow> Plan) \<Rightarrow> plan_projection \<Rightarrow> plan_projection" where
  "on_plan i f s = (case map_of (pp_plans s) i of
     None \<Rightarrow> s | Some p \<Rightarrow> s\<lparr>pp_plans := AList.update i (f p) (pp_plans s)\<rparr>)"

definition on_todos :: "(Todo list \<Rightarrow> Todo list) \<Rightarrow> plan_projection \<Rightarrow> plan_projection" where
  "on_todos f s = s\<lparr>pp_plans := map (\<lambda>(i, p). (i, p\<lparr>pl_Steps := f (pl_Steps p)\<rparr>)) (pp_plans s)\<rparr>"

definition restore_status :: "plan_projection \<Rightarrow> go_time \<Rightarrow> string \<Rightarrow> string \<Rightarrow> Status \<Rightarrow> string \<Rightarrow> plan_projection" where
  "restore_status s at_time scope i st reason =
     (if \<not> validStatus st then s
      else if scope = ''goal'' then
        on_goal i (\<lambda>g. g\<lparr>gl_Status := st, gl_Revision := nextRestoreRevision (gl_Revision g),
          gl_BlockedReason := (if st = StatusBlocked then reason else []),
          gl_CompletedAt := applyRestoreCompletedAt st at_time\<rparr>) s
      else if scope = ''plan'' then on_plan i (\<lambda>p. p\<lparr>pl_Status := st\<rparr>) s
      else if scope = ''todo'' then
        on_todos (map (\<lambda>t. if td_ID t = i then t\<lparr>td_Status := st, td_CompletedAt := applyRestoreCompletedAt st at_time\<rparr> else t)) s
      else s)"

definition restore_update :: "plan_projection \<Rightarrow> string \<Rightarrow> string \<Rightarrow> string \<Rightarrow> string \<Rightarrow> int \<Rightarrow> plan_projection" where
  "restore_update s scope i title objective maxRounds =
     (if scope = ''goal'' then
        on_goal i (\<lambda>g. g\<lparr>gl_Title := (if title \<noteq> [] then title else gl_Title g), gl_Objective := objective,
          gl_MaxRounds := (if 0 < maxRounds then maxRounds else gl_MaxRounds g),
          gl_Revision := nextRestoreRevision (gl_Revision g)\<rparr>) s
      else s)"

definition removeID :: "string list \<Rightarrow> string \<Rightarrow> string list" where
  "removeID ids i = filter (\<lambda>j. j \<noteq> i) ids"

definition removeTodo :: "Todo list \<Rightarrow> string \<Rightarrow> Todo list" where
  "removeTodo steps i = filter (\<lambda>t. td_ID t \<noteq> i) steps"

definition restore_delete :: "plan_projection \<Rightarrow> string \<Rightarrow> string \<Rightarrow> plan_projection" where
  "restore_delete s scope i =
     (if scope = ''goal'' then
        s\<lparr>pp_goals := AList.delete i (pp_goals s), pp_plans := filter (\<lambda>(_, p). pl_GoalID p \<noteq> i) (pp_plans s)\<rparr>
      else if scope = ''plan'' then
        (case map_of (pp_plans s) i of
           None \<Rightarrow> s
         | Some p \<Rightarrow> on_goal (pl_GoalID p) (\<lambda>g. g\<lparr>gl_Plans := removeID (gl_Plans g) i\<rparr>)
                       (s\<lparr>pp_plans := AList.delete i (pp_plans s)\<rparr>))
      else if scope = ''todo'' then on_todos (\<lambda>ts. removeTodo ts i) s
      else s)"

definition restore_fact :: "plan_projection \<Rightarrow> go_time \<times> plan_fact \<Rightarrow> plan_error + plan_projection" where
  "restore_fact s x =
     (case x of (at_time, f) \<Rightarrow>
      case f of
        FactCreate _ _ _ _ _ \<Rightarrow> restore_create s at_time f
      | FactStatus scope i st reason \<Rightarrow> Inr (restore_status s at_time scope i st reason)
      | FactUpdate scope i title objective n \<Rightarrow> Inr (restore_update s scope i title objective n)
      | FactRound i n \<Rightarrow> Inr (on_goal i (\<lambda>g. if gl_RoundsStarted g < n then g\<lparr>gl_RoundsStarted := n\<rparr> else g) s)
      | FactDelete scope i \<Rightarrow> Inr (restore_delete s scope i)
      | FactBad \<Rightarrow> Inl ErrDecode
      | FactOther \<Rightarrow> Inr s)"

definition restore_init :: plan_projection where
  "restore_init = \<lparr>pp_goals = [], pp_plans = [], pp_lastGoalID = [], pp_lastPlanID = []\<rparr>"

definition restoreEvents :: "(go_time \<times> plan_fact) list \<Rightarrow> plan_error + plan_projection" where
  "restoreEvents fs = fold_until restore_fact restore_init fs"

text \<open>Events that are not planning facts, and the facts of \<^verbatim>\<open>plan_list\<close>, are skipped.\<close>

interpretation plan_log: event_fold restore_fact "\<lambda>(_, f). f \<noteq> FactOther"
  by unfold_locales (auto simp: restore_fact_def split: plan_fact.splits)

lemma restore_skips_others: "restoreEvents (filter (\<lambda>(_, f). f \<noteq> FactOther) fs) = restoreEvents fs"
  unfolding restoreEvents_def by (rule plan_log.fold_filter)

lemma restore_skips_between:
  assumes "\<forall>(t, f) \<in> set ms. f = FactOther"
  shows "restoreEvents (fs @ ms @ gs) = restoreEvents (fs @ gs)"
  unfolding restoreEvents_def by (rule plan_log.fold_irrelevant_between) (use assms in auto)

definition maxID :: "string list \<Rightarrow> nat" where
  "maxID ids = fold (\<lambda>i m.
     let parts = split_on CHR ''-'' i
     in if length parts < 2 then m
        else (case atoi (last parts) of None \<Rightarrow> m | Some n \<Rightarrow> if int m < n then nat n else m)) ids 0"

text \<open>\<^verbatim>\<open>engine.Restore\<close>.\<close>

definition RestoreEngine :: "(go_time \<times> plan_fact) list \<Rightarrow> (plan_engine, unit) plan_op" where
  "RestoreEngine fs e =
     (if en_closed e then (Inl ErrEngineClosed, e)
      else case restoreEvents fs of
         Inl x \<Rightarrow> (Inl x, e)
       | Inr s \<Rightarrow>
           if mp_closed (en_prov e) then (Inl ErrProviderClosed, e)
           else (Inr (), e\<lparr>
             en_prov := (en_prov e)\<lparr>mp_goals := pp_goals s, mp_plans := pp_plans s\<rparr>,
             en_goalSeq := maxID (map gl_ID (vals (pp_goals s))),
             en_planSeq := maxID (map pl_ID (vals (pp_plans s))),
             en_todoSeq := maxID (concat (map (\<lambda>p. map td_ID (pl_Steps p)) (vals (pp_plans s))))\<rparr>))"

section \<open>New ids after a restore\<close>

definition id_number :: "string \<Rightarrow> int option" where
  "id_number i = (let parts = split_on CHR ''-'' i in if length parts < 2 then None else atoi (last parts))"

lemma maxID_alt: "maxID ids = fold (\<lambda>i m. case id_number i of None \<Rightarrow> m | Some n \<Rightarrow> if int m < n then nat n else m) ids 0"
  unfolding maxID_def by (rule fold_cong) (auto simp: id_number_def Let_def fun_eq_iff)

lemma id_fold_mono:
  "m \<le> fold (\<lambda>i m. case id_number i of None \<Rightarrow> m | Some n \<Rightarrow> if int m < n then nat n else m) ids m"
proof (induction ids arbitrary: m)
  case (Cons i ids)
  have "m \<le> (case id_number i of None \<Rightarrow> m | Some n \<Rightarrow> if int m < n then nat n else m)" by (auto split: option.split)
  then show ?case using Cons.IH order_trans by fastforce
qed simp

lemma maxID_bound:
  assumes "i \<in> set ids" and "id_number i = Some n"
  shows "n \<le> int (maxID ids)"
proof -
  have "n \<le> int (fold (\<lambda>i m. case id_number i of None \<Rightarrow> m | Some n \<Rightarrow> if int m < n then nat n else m) ids m)" for m
    using assms(1)
  proof (induction ids arbitrary: m)
    case (Cons j ids)
    show ?case
    proof (cases "i = j")
      case True
      let ?m = "case id_number j of None \<Rightarrow> m | Some n \<Rightarrow> if int m < n then nat n else m"
      have "n \<le> int ?m" using True assms(2) by auto
      then show ?thesis using id_fold_mono [of ?m ids] by simp
    qed (use Cons in simp)
  qed simp
  then show ?thesis unfolding maxID_alt .
qed

lemma split_on_none: "c \<notin> set s \<Longrightarrow> split_on c s = [s]"
  by (induction s) auto

lemma split_on_first: "c \<notin> set p \<Longrightarrow> split_on c (p @ c # s) = p # split_on c s"
  by (induction p) auto

lemma dash_itoa: "CHR ''-'' \<notin> set (itoa n)"
proof
  assume "CHR ''-'' \<in> set (itoa n)"
  then have "is_digit CHR ''-''" using itoa_digits [of n] by (simp add: list_all_iff)
  then show False by (simp add: is_digit_def)
qed

lemma id_number_prefixed:
  assumes "CHR ''-'' \<notin> set p" and "int n \<le> max_int64"
  shows "id_number (prefixed_id (p @ ''-'') n) = Some (int n)"
  using assms atoi_itoa [of n]
  by (simp add: id_number_def prefixed_id_def split_on_first split_on_none dash_itoa)

lemma fresh_after_maxID:
  assumes "CHR ''-'' \<notin> set p" and "int (maxID ids) < max_int64" and "i \<in> set ids"
  shows "i \<noteq> prefixed_id (p @ ''-'') (Suc (maxID ids))"
proof
  assume "i = prefixed_id (p @ ''-'') (Suc (maxID ids))"
  then have "id_number i = Some (int (Suc (maxID ids)))" using id_number_prefixed [of p "Suc (maxID ids)"] assms by simp
  from maxID_bound [OF assms(3) this] show False by simp
qed

text \<open>
  Fact: the ids issued after a restore are new: whatever facts the log holds, the next goal, plan and
  todo id of the restored engine names none of the restored records (while the counters are below the
  largest \<^verbatim>\<open>int\<close>).
\<close>

theorem restore_fresh_ids:
  assumes "RestoreEngine fs e = (Inr (), e')"
    and "int (en_goalSeq e') < max_int64" and "int (en_planSeq e') < max_int64" and "int (en_todoSeq e') < max_int64"
  shows "(\<forall>g \<in> set (vals (mp_goals (en_prov e'))). gl_ID g \<noteq> prefixed_id ''goal-'' (en_goalSeq e' + 1)) \<and>
    (\<forall>p \<in> set (vals (mp_plans (en_prov e'))). pl_ID p \<noteq> prefixed_id ''plan-'' (en_planSeq e' + 1) \<and>
      (\<forall>t \<in> set (pl_Steps p). td_ID t \<noteq> prefixed_id ''todo-'' (en_todoSeq e' + 1)))"
proof -
  obtain s where s: "restoreEvents fs = Inr s" and e': "mp_goals (en_prov e') = pp_goals s" "mp_plans (en_prov e') = pp_plans s"
    "en_goalSeq e' = maxID (map gl_ID (vals (pp_goals s)))" "en_planSeq e' = maxID (map pl_ID (vals (pp_plans s)))"
    "en_todoSeq e' = maxID (concat (map (\<lambda>p. map td_ID (pl_Steps p)) (vals (pp_plans s))))"
    using assms(1) by (auto simp: RestoreEngine_def split: if_splits sum.splits)
  have "gl_ID g \<noteq> prefixed_id ''goal-'' (en_goalSeq e' + 1)" if "g \<in> set (vals (pp_goals s))" for g
    using fresh_after_maxID [of "''goal''" _ "gl_ID g", OF _ assms(2) [unfolded e'(3)]] that unfolding e'(3) by force
  moreover have "pl_ID p \<noteq> prefixed_id ''plan-'' (en_planSeq e' + 1)" if "p \<in> set (vals (pp_plans s))" for p
    using fresh_after_maxID [of "''plan''" _ "pl_ID p", OF _ assms(3) [unfolded e'(4)]] that unfolding e'(4) by force
  moreover have "td_ID t \<noteq> prefixed_id ''todo-'' (en_todoSeq e' + 1)"
    if "p \<in> set (vals (pp_plans s))" "t \<in> set (pl_Steps p)" for p t
  proof -
    have "td_ID t \<in> set (concat (map (\<lambda>p. map td_ID (pl_Steps p)) (vals (pp_plans s))))" using that by auto
    then show ?thesis
      using fresh_after_maxID [of "''todo''" _ "td_ID t", OF _ assms(4) [unfolded e'(5)]] unfolding e'(5) by force
  qed
  ultimately show ?thesis unfolding e'(1,2) by blast
qed

definition fresh_demo :: "(go_time \<times> plan_fact) list" where
  "fresh_demo = [(1, FactCreate ''goal'' ''goal-12'' ''a'' [] NoDetail), (2, FactCreate ''plan'' ''plan-x'' ''b'' [] NoDetail),
     (3, FactCreate ''todo'' ''todo-4'' ''c'' [] NoDetail)]"

lemma restore_fresh_ids_witness:
  "fst (RestoreEngine fresh_demo NewEngine) = Inr () \<and> en_goalSeq (snd (RestoreEngine fresh_demo NewEngine)) = 12 \<and>
   list_all (\<lambda>g. gl_ID g \<noteq> ''goal-13'') (vals (mp_goals (en_prov (snd (RestoreEngine fresh_demo NewEngine)))))"
proof -
  have r: "RestoreEngine fresh_demo NewEngine = (Inr (), snd (RestoreEngine fresh_demo NewEngine))"
    by (simp add: prod_eq_iff) code_simp
  have n: "int (en_goalSeq (snd (RestoreEngine fresh_demo NewEngine))) = 12"
    "int (en_planSeq (snd (RestoreEngine fresh_demo NewEngine))) = 0"
    "int (en_todoSeq (snd (RestoreEngine fresh_demo NewEngine))) = 4" by code_simp+
  have i: "prefixed_id ''goal-'' (en_goalSeq (snd (RestoreEngine fresh_demo NewEngine)) + 1) = ''goal-13''" by code_simp
  from restore_fresh_ids [OF r] n i have "\<forall>g \<in> set (vals (mp_goals (en_prov (snd (RestoreEngine fresh_demo NewEngine))))). gl_ID g \<noteq> ''goal-13''"
    by (simp add: max_int64_def)
  then show ?thesis using r n by (auto simp: list_all_iff prod_eq_iff)
qed

end
