(* ===== verification/Plan_Fence.thy ===== *)
theory Plan_Fence
  imports Plan_Invariant
begin

text \<open>
  The revision fence and the round budget of the planning engine: what a fenced edit and a round
  admission do on every branch, that a revision is spent by the first sequential edit, and that two
  edits whose reads both come before the first write are both accepted.
\<close>

section \<open>Reading a goal\<close>

definition goal_of :: "plan_engine \<Rightarrow> string \<Rightarrow> Goal option" where
  "goal_of e i = map_of (mp_goals (en_prov e)) i"

text \<open>The engine answers: neither it nor its provider is closed.\<close>

definition is_open :: "plan_engine \<Rightarrow> bool" where
  "is_open e \<longleftrightarrow> \<not> en_closed e \<and> \<not> mp_closed (en_prov e)"

abbreviation running :: "nat \<Rightarrow> bool" where
  "running \<equiv> \<lambda>_. False"

lemma enter_running: "and_then (enter False) F e = (if en_closed e then (Inl ErrEngineClosed, e) else F () e)"
  by (simp add: enter_def and_then_def checkOpen_def)

lemma get_running:
  "\<not> en_closed e \<Longrightarrow> and_then (on_prov (GetGoal False i)) F e =
     (if \<not> is_open e then (Inl ErrProviderClosed, e)
      else case goal_of e i of None \<Rightarrow> (Inl (ErrUnknownGoal i), e) | Some g \<Rightarrow> F g e)"
  by (simp add: GetGoal_engine and_then_def is_open_def goal_of_def split: option.split)

lemma guard_running: "and_then (guard_op x b) F e = (if b then F () e else (Inl x, e))"
  by (simp add: and_then_def)

lemma store_goal_fields [simp]:
  "is_open (store_goal g e) = is_open e" "goal_of (store_goal g e) i = (if i = gl_ID g then Some g else goal_of e i)"
  "en_closed (store_goal g e) = en_closed e"
  by (simp_all add: is_open_def goal_of_def store_goal_def)

lemma put_running: "is_open e \<Longrightarrow> gl_ID g \<noteq> [] \<Longrightarrow> on_prov (PutGoal False g) e = (Inr (), store_goal g e)"
  by (simp add: PutGoal_engine is_open_def)

lemma put_then: "is_open e \<Longrightarrow> gl_ID g \<noteq> [] \<Longrightarrow> and_then (on_prov (PutGoal False g)) F e = F () (store_goal g e)"
  by (simp add: put_running and_then_def)

definition edit_fields :: "string option \<Rightarrow> int option \<Rightarrow> bool" where
  "edit_fields objective maxRounds \<longleftrightarrow> (objective \<noteq> None \<or> maxRounds \<noteq> None) \<and>
     (case maxRounds of None \<Rightarrow> True | Some n \<Rightarrow> 0 < n) \<and> (case objective of None \<Rightarrow> True | Some x \<Rightarrow> trim_space x \<noteq> [])"

definition edited :: "string option \<Rightarrow> int option \<Rightarrow> Goal \<Rightarrow> Goal" where
  "edited objective maxRounds g =
     (let g = (case objective of None \<Rightarrow> g
               | Some x \<Rightarrow> g\<lparr>gl_Objective := trim_space x, gl_Title := firstGoalTitle (trim_space x)\<rparr>);
          g = (case maxRounds of None \<Rightarrow> g | Some n \<Rightarrow> g\<lparr>gl_MaxRounds := n\<rparr>)
      in g\<lparr>gl_Revision := nextRevision (gl_Revision g)\<rparr>)"

lemma edited_fields [simp]:
  "gl_ID (edited a n g) = gl_ID g" "gl_Revision (edited a n g) = nextRevision (gl_Revision g)"
  "gl_Plans (edited a n g) = gl_Plans g" "gl_Status (edited a n g) = gl_Status g"
  by (simp_all add: edited_def Let_def split: option.split)

text \<open>The read phase, on an open engine.\<close>

lemma update_if_read_eq:
  assumes "is_open e"
  shows "update_if_read running i r a n e =
    (if a = None \<and> n = None then (Inl ErrNoFields, e)
     else if \<not> (case n of None \<Rightarrow> True | Some k \<Rightarrow> 0 < k) then (Inl ErrRoundsNotPositive, e)
     else case goal_of e i of
       None \<Rightarrow> (Inl (ErrUnknownGoal i), e)
     | Some g \<Rightarrow>
         if \<not> (1 \<le> r \<and> gl_Revision g = r) then (Inl (ErrStaleRevision r (gl_Revision g)), e)
         else if \<not> (case a of None \<Rightarrow> True | Some x \<Rightarrow> trim_space x \<noteq> []) then (Inl ErrInvalidTitle, e)
         else (Inr (edited a n g), e))"
proof -
  have "\<not> en_closed e" using assms by (simp add: is_open_def)
  then show ?thesis
    using assms
    by (cases a; cases n; cases "goal_of e i")
      (simp_all add: update_if_read_def enter_running get_running guard_running edited_def Let_def)
qed

lemma UpdateGoalIfRevision_eq:
  assumes e: "engine_ok e" and o: "is_open e"
  shows "UpdateGoalIfRevision running i r a n e =
    (case update_if_read running i r a n e of (Inl x, e') \<Rightarrow> (Inl x, e') | (Inr g, e') \<Rightarrow> (Inr g, store_goal g e'))"
proof (cases "update_if_read running i r a n e")
  case (Pair x e')
  show ?thesis
  proof (cases x)
    case (Inl y)
    then show ?thesis using Pair by (simp add: UpdateGoalIfRevision_def and_then_def)
  next
    case (Inr g)
    from Pair Inr obtain g0 where g: "goal_of e i = Some g0" "g = edited a n g0" "e' = e"
      unfolding update_if_read_eq [OF o] by (auto split: if_splits option.splits)
    have "gl_ID g \<noteq> []" using engine_goal [OF e] g(1,2) by (auto simp: goal_of_def)
    then show ?thesis using Pair Inr g(3) o by (simp add: UpdateGoalIfRevision_def and_then_def put_running)
  qed
qed

section \<open>The fence\<close>


lemma fenced_edit:
  assumes "engine_ok e" and "is_open e" and "UpdateGoalIfRevision running i r a n e = (Inr g', e')"
  shows "\<exists>g. goal_of e i = Some g \<and> 1 \<le> r \<and> gl_Revision g = r \<and> g' = edited a n g \<and> e' = store_goal g' e \<and> gl_ID g = i"
proof -
  have "\<exists>g. goal_of e i = Some g \<and> 1 \<le> r \<and> gl_Revision g = r \<and> g' = edited a n g \<and> e' = store_goal g' e"
    using assms(3) unfolding UpdateGoalIfRevision_eq [OF assms(1,2)] update_if_read_eq [OF assms(2)]
    by (auto split: if_splits option.splits)
  then show ?thesis using engine_goal [OF assms(1)] unfolding goal_of_def by blast
qed

text \<open>
  Fact: a revision is spent by the first edit: after a fenced edit succeeded, a second edit and a status
  change that name the same revision are refused as stale and change nothing.
\<close>

theorem revision_spent:
  assumes "engine_ok e" and "is_open e" and "UpdateGoalIfRevision running i r a n e = (Inr g', e')"
    and "edit_fields b m"
  shows "UpdateGoalIfRevision running i r b m e' = (Inl (ErrStaleRevision r (r + 1)), e') \<and>
    SetGoalStatusIfRevision running now i r st e' = (Inl (ErrStaleRevision r (r + 1)), e')"
proof -
  obtain g where g: "goal_of e i = Some g" "1 \<le> r" "gl_Revision g = r" "g' = edited a n g" "e' = store_goal g' e" "gl_ID g = i"
    using fenced_edit [OF assms(1-3)] by blast
  have o: "is_open e'" using assms(2) g(5) by simp
  have g': "goal_of e' i = Some g'" "gl_Revision g' = r + 1" using g by (simp_all add: nextRevision_def)
  have "UpdateGoalIfRevision running i r b m e' = (Inl (ErrStaleRevision r (r + 1)), e')"
    using assms(4) g' unfolding UpdateGoalIfRevision_def and_then_def update_if_read_eq [OF o]
    by (auto simp: edit_fields_def split: option.splits)
  moreover have "SetGoalStatusIfRevision running now i r st e' = (Inl (ErrStaleRevision r (r + 1)), e')"
    using g' o
    by (simp add: SetGoalStatusIfRevision_def status_if_read_def and_then_assoc enter_running get_running guard_running
        is_open_def)
  ultimately show ?thesis by blast
qed

text \<open>
  Two callers, each a read phase and a write; the engine lock is not held between the two phases, so
  the second read may come before the first write.
\<close>

definition race :: "string \<Rightarrow> int \<Rightarrow> string option \<Rightarrow> int option \<Rightarrow> string option \<Rightarrow> int option \<Rightarrow> plan_engine \<Rightarrow>
    (plan_error + Goal) \<times> (plan_error + Goal) \<times> plan_engine" where
  "race i r a n b m e =
     (case update_if_read running i r a n e of (r1, e1) \<Rightarrow>
      case update_if_read running i r b m e1 of (r2, e2) \<Rightarrow>
      case (case r1 of Inl x \<Rightarrow> (Inl x, e2) | Inr g \<Rightarrow> and_then (on_prov (PutGoal False g)) (\<lambda>_. ret g) e2) of (r1, e3) \<Rightarrow>
      case (case r2 of Inl x \<Rightarrow> (Inl x, e3) | Inr g \<Rightarrow> and_then (on_prov (PutGoal False g)) (\<lambda>_. ret g) e3) of (r2, e4) \<Rightarrow>
        (r1, r2, e4))"

text \<open>
  Fact: the fence does not hold between concurrent callers: whenever two edits that name the current
  revision are each valid, the schedule read, read, write, write accepts both, the stored goal is the
  second one computed from the state before the first, so the first edit is lost, and the revision has
  moved by one only.
\<close>

theorem fence_race:
  assumes "engine_ok e" and "is_open e" and "goal_of e i = Some g" and "1 \<le> gl_Revision g"
    and "edit_fields a n" and "edit_fields b m"
  shows "race i (gl_Revision g) a n b m e =
      (Inr (edited a n g), Inr (edited b m g), store_goal (edited b m g) (store_goal (edited a n g) e)) \<and>
    goal_of (store_goal (edited b m g) (store_goal (edited a n g) e)) i = Some (edited b m g)"
proof -
  have i: "gl_ID g = i" "i \<noteq> []" using engine_goal [OF assms(1)] assms(3) by (simp_all add: goal_of_def)
  have r: "update_if_read running i (gl_Revision g) x y e = (Inr (edited x y g), e)" if "edit_fields x y" for x y
    using that assms(3,4) unfolding update_if_read_eq [OF assms(2)]
    by (auto simp: edit_fields_def split: option.splits)
  show ?thesis
    using i assms(2) by (simp add: race_def r [OF assms(5)] r [OF assms(6)] and_then_def put_running)
qed

section \<open>Rounds\<close>

definition round_ready :: "Goal \<Rightarrow> bool" where
  "round_ready g \<longleftrightarrow> (gl_Status g = StatusPending \<or> gl_Status g = StatusInProgress) \<and> gl_RoundsStarted g < gl_MaxRounds g"

lemma StartGoalRound_eq:
  assumes e: "engine_ok e" and o: "is_open e" and g: "goal_of e i = Some g"
  shows "StartGoalRound running i e =
    (if gl_Status g \<noteq> StatusPending \<and> gl_Status g \<noteq> StatusInProgress then (Inl (ErrNotActive i (gl_Status g)), e)
     else if gl_MaxRounds g \<le> gl_RoundsStarted g then (Inl (ErrRoundsExhausted i (gl_MaxRounds g)), e)
     else (Inr (g\<lparr>gl_RoundsStarted := gl_RoundsStarted g + 1\<rparr>),
           store_goal (g\<lparr>gl_RoundsStarted := gl_RoundsStarted g + 1\<rparr>) e))"
proof -
  have i: "gl_ID g = i" "i \<noteq> []" "goal_ok g" using engine_goal [OF e] g by (simp_all add: goal_of_def)
  then have "0 < gl_MaxRounds g" by (simp add: goal_ok_def)
  then show ?thesis
    using i o g
    by (simp add: StartGoalRound_def enter_running get_running guard_running put_then is_open_def Let_def)
qed

fun start_rounds :: "string \<Rightarrow> nat \<Rightarrow> plan_engine \<Rightarrow> (plan_error + Goal) \<times> plan_engine" where
  "start_rounds i 0 e = StartGoalRound running i e"
| "start_rounds i (Suc k) e = start_rounds i k (snd (StartGoalRound running i e))"

text \<open>
  Fact: a goal has exactly its budget of rounds: an active goal with \<open>k\<close> rounds left admits \<open>k\<close> more
  rounds one by one and refuses the next one as exhausted.
\<close>

theorem rounds_exhausted:
  assumes "engine_ok e" and "is_open e" and "goal_of e i = Some g"
    and "gl_Status g = StatusPending \<or> gl_Status g = StatusInProgress" and "gl_MaxRounds g = gl_RoundsStarted g + int k"
  shows "fst (start_rounds i k e) = Inl (ErrRoundsExhausted i (gl_MaxRounds g)) \<and>
    list_all (\<lambda>j. \<exists>g'. fst (start_rounds i j e) = Inr g' \<and> gl_RoundsStarted g' = gl_RoundsStarted g + int j + 1) [0..<k]"
  using assms
proof (induction k arbitrary: e g)
  case 0
  then show ?case by (simp add: StartGoalRound_eq)
next
  case (Suc k)
  let ?g = "g\<lparr>gl_RoundsStarted := gl_RoundsStarted g + 1\<rparr>"
  have i: "gl_ID g = i" using engine_goal [OF Suc.prems(1)] Suc.prems(3) by (simp add: goal_of_def)
  have s: "StartGoalRound running i e = (Inr ?g, store_goal ?g e)"
    using StartGoalRound_eq [OF Suc.prems(1-3)] Suc.prems(4,5) by auto
  have ok: "engine_ok (store_goal ?g e)" using keeps_StartGoalRound [OF Suc.prems(1), of i] s by simp
  have ih: "fst (start_rounds i k (store_goal ?g e)) = Inl (ErrRoundsExhausted i (gl_MaxRounds ?g)) \<and>
    list_all (\<lambda>j. \<exists>g'. fst (start_rounds i j (store_goal ?g e)) = Inr g' \<and>
      gl_RoundsStarted g' = gl_RoundsStarted ?g + int j + 1) [0..<k]"
    by (rule Suc.IH [OF ok]) (use Suc.prems i in auto)
  have "\<exists>g'. fst (start_rounds i j e) = Inr g' \<and> gl_RoundsStarted g' = gl_RoundsStarted g + int j + 1" if "j < Suc k" for j
  proof (cases j)
    case 0
    then show ?thesis using s by simp
  next
    case (Suc j')
    then have "j' < k" using that by simp
    with ih obtain g' where "fst (start_rounds i j' (store_goal ?g e)) = Inr g'"
      "gl_RoundsStarted g' = gl_RoundsStarted ?g + int j' + 1" by (fastforce simp: list_all_iff)
    then show ?thesis using s Suc by simp
  qed
  then show ?case using ih s by (simp add: list_all_iff)
qed

section \<open>A concrete engine\<close>

definition sample_goal :: Goal where
  "sample_goal = \<lparr>gl_ID = ''goal-1'', gl_Title = ''ship'', gl_Objective = ''ship it'', gl_Status = StatusPending,
     gl_Plans = [], gl_Owner = [], gl_Revision = 1, gl_MaxRounds = 2, gl_RoundsStarted = 0, gl_BlockedReason = [],
     gl_CreatedAt = 5, gl_CompletedAt = None\<rparr>"

definition sample_engine :: plan_engine where
  "sample_engine = \<lparr>en_prov = \<lparr>mp_goals = [(''goal-1'', sample_goal)], mp_plans = [], mp_closed = False\<rparr>,
     en_goalSeq = 1, en_planSeq = 0, en_todoSeq = 0, en_closed = False\<rparr>"

lemma prefixed_one: "prefixed_id ''goal-'' 1 = ''goal-1''"
  by (simp add: prefixed_id_def itoa.simps digit_char_def) code_simp

lemma sample_engine_ok: "engine_ok sample_engine" "is_open sample_engine" "goal_of sample_engine ''goal-1'' = Some sample_goal"
  using prefixed_one issued_self [of 1 1 "''goal-''"]
  by (simp_all add: sample_engine_def sample_goal_def engine_ok_def tree_ok_def goals_inv_def plans_inv_def todos_apart_def
      goal_ok_def is_open_def goal_of_def wf_map_def)


lemma sample_edit:
  "UpdateGoalIfRevision running ''goal-1'' 1 None (Some 9) sample_engine =
     (Inr (edited None (Some 9) sample_goal), store_goal (edited None (Some 9) sample_goal) sample_engine)"
  unfolding UpdateGoalIfRevision_eq [OF sample_engine_ok(1,2)] update_if_read_eq [OF sample_engine_ok(2)] sample_engine_ok(3)
  by (simp add: sample_goal_def)

lemma revision_spent_witness:
  "fst (UpdateGoalIfRevision running ''goal-1'' 1 None (Some 7) (store_goal (edited None (Some 9) sample_goal) sample_engine)) =
     Inl (ErrStaleRevision 1 2)"
  using revision_spent [OF sample_engine_ok(1,2) sample_edit, of None "Some 7"] by (simp add: edit_fields_def)

lemma fence_race_witness:
  "race ''goal-1'' 1 (Some ''first'') None (Some ''second'') None sample_engine =
     (Inr (edited (Some ''first'') None sample_goal), Inr (edited (Some ''second'') None sample_goal),
      store_goal (edited (Some ''second'') None sample_goal) (store_goal (edited (Some ''first'') None sample_goal) sample_engine))"
  using fence_race [OF sample_engine_ok, of "Some ''first''" None "Some ''second''" None]
  by (simp add: sample_goal_def edit_fields_def trim_space_def is_space_def)

lemma rounds_exhausted_witness: "fst (start_rounds ''goal-1'' 2 sample_engine) = Inl (ErrRoundsExhausted ''goal-1'' 2)"
  using rounds_exhausted [OF sample_engine_ok, of 2] by (simp add: sample_goal_def)

end
