(* ===== verification/Plan_Tools.thy ===== *)
theory Plan_Tools
  imports Plan_Restore Plan_Fence
begin

text \<open>
  The planning tools, \<^verbatim>\<open>internal/plan/tools.go\<close>, the edit action of \<^verbatim>\<open>update_goal\<close> and
  the admission of a goal round: each changes the engine and then writes one fact. Decoding of the
  arguments and the texts returned to the model are not modelled, and the sink accepts every fact.
\<close>

section \<open>The tools\<close>

type_synonym tool_result_of = "(plan_error + plan_fact) \<times> plan_engine"

definition PlanGoalTool :: "go_time \<Rightarrow> string \<Rightarrow> string \<Rightarrow> int \<Rightarrow> plan_engine \<Rightarrow> tool_result_of" where
  "PlanGoalTool now title objective maxRounds e =
     (if trim_space title = [] then (Inl ErrInvalidTitle, e)
      else and_then (CreateGoalWithMaxRounds running now title objective maxRounds) (\<lambda>g. ret
        (FactCreate ''goal'' (gl_ID g) (gl_Title g) [] (Detail (zero_snapshot\<lparr>sn_Objective := gl_Objective g,
           sn_Status := gl_Status g, sn_Revision := gl_Revision g, sn_MaxRounds := gl_MaxRounds g,
           sn_RoundsStarted := gl_RoundsStarted g, sn_CreatedAt := gl_CreatedAt g\<rparr>)))) e)"

definition PlanPlanTool :: "go_time \<Rightarrow> string \<Rightarrow> string \<Rightarrow> string list \<Rightarrow> plan_engine \<Rightarrow> tool_result_of" where
  "PlanPlanTool now goalID title steps e =
     (if trim_space title = [] then (Inl ErrInvalidTitle, e)
      else if trim_space goalID = [] then (Inl (ErrUnknownGoal goalID), e)
      else and_then (CreatePlan running now goalID title steps) (\<lambda>p. ret
        (FactCreate ''plan'' (pl_ID p) (pl_Title p) [] (Detail (zero_snapshot\<lparr>sn_GoalID := pl_GoalID p,
           sn_Status := pl_Status p, sn_CreatedAt := pl_CreatedAt p, sn_Steps := pl_Steps p\<rparr>)))) e)"

definition PlanTodoTool :: "go_time \<Rightarrow> string \<Rightarrow> string \<Rightarrow> string list \<Rightarrow> plan_engine \<Rightarrow> tool_result_of" where
  "PlanTodoTool now planID title acceptance e =
     (if trim_space title = [] then (Inl ErrInvalidTitle, e)
      else and_then (AddTodo running now planID title acceptance) (\<lambda>t. ret
        (FactCreate ''todo'' (td_ID t) (td_Title t) (td_Acceptance t) (Detail (zero_snapshot\<lparr>sn_PlanID := planID,
           sn_Status := td_Status t, sn_CreatedAt := td_CreatedAt t\<rparr>)))) e)"

definition validScope :: "string \<Rightarrow> bool" where
  "validScope s \<longleftrightarrow> s = ''goal'' \<or> s = ''plan'' \<or> s = ''todo''"

definition PlanStatusTool ::
    "go_time \<Rightarrow> string \<Rightarrow> string \<Rightarrow> Status \<Rightarrow> string \<Rightarrow> int \<Rightarrow> plan_engine \<Rightarrow> tool_result_of" where
  "PlanStatusTool now scope i st reason revision e =
     (if \<not> validScope scope then (Inl ErrUnknownScope, e)
      else if \<not> validStatus st then (Inl ErrInvalidStatus, e)
      else and_then
        (if scope = ''goal'' \<and> 0 < revision then SetGoalStatusIfRevision running now i revision st
         else SetStatus running now scope i st) (\<lambda>_.
      and_then
        (if scope = ''goal'' \<and> st = StatusBlocked \<and> reason \<noteq> [] then SetGoalBlockedReason running i (trim_space reason)
         else ret ()) (\<lambda>_.
      ret (FactStatus scope i st (trim_space reason)))) e)"

definition PlanRemoveTool :: "string \<Rightarrow> string \<Rightarrow> plan_engine \<Rightarrow> tool_result_of" where
  "PlanRemoveTool scope i e =
     (if \<not> validScope scope then (Inl ErrUnknownScope, e)
      else and_then (RemoveRecord running scope i) (\<lambda>_. ret (FactDelete scope i)) e)"

definition PlanListTool :: "plan_engine \<Rightarrow> tool_result_of" where
  "PlanListTool e = and_then (ListTree running) (\<lambda>_. ret FactOther) e"

definition EditGoalTool :: "string \<Rightarrow> int \<Rightarrow> string option \<Rightarrow> int option \<Rightarrow> plan_engine \<Rightarrow> tool_result_of" where
  "EditGoalTool i revision objective maxRounds e =
     (let objective = (if objective = Some [] then None else objective);
          maxRounds = (if maxRounds = Some 0 then None else maxRounds)
      in and_then (UpdateGoalIfRevision running i revision objective maxRounds) (\<lambda>g. ret
           (FactUpdate ''goal'' (gl_ID g) (gl_Title g) (gl_Objective g) (gl_MaxRounds g))) e)"

text \<open>\<^verbatim>\<open>StartGoalRound\<close> followed by the goal/round_start fact of the goal driver.\<close>

definition StartRoundFact :: "string \<Rightarrow> plan_engine \<Rightarrow> tool_result_of" where
  "StartRoundFact i e = and_then (StartGoalRound running i) (\<lambda>g. ret (FactRound (gl_ID g) (gl_RoundsStarted g))) e"

datatype tool_call =
    TGoal string string int | TPlan string string "string list" | TTodo string string "string list"
  | TStatus string string Status string int | TRemove string string | TList
  | TEdit string int "string option" "int option" | TRound string

primrec tool_exec :: "go_time \<Rightarrow> tool_call \<Rightarrow> plan_engine \<Rightarrow> tool_result_of" where
  "tool_exec now (TGoal t d n) e = PlanGoalTool now t d n e"
| "tool_exec now (TPlan g t ss) e = PlanPlanTool now g t ss e"
| "tool_exec now (TTodo p t a) e = PlanTodoTool now p t a e"
| "tool_exec now (TStatus s i st r n) e = PlanStatusTool now s i st r n e"
| "tool_exec now (TRemove s i) e = PlanRemoveTool s i e"
| "tool_exec now TList e = PlanListTool e"
| "tool_exec now (TEdit i r a n) e = EditGoalTool i r a n e"
| "tool_exec now (TRound i) e = StartRoundFact i e"

text \<open>A session of calls, each with its time and the time of its event; the facts it leaves in the log.\<close>

fun tool_run :: "(go_time \<times> go_time \<times> tool_call) list \<Rightarrow> plan_engine \<Rightarrow> (go_time \<times> plan_fact) list \<times> plan_engine" where
  "tool_run [] e = ([], e)"
| "tool_run ((now, at_time, c) # cs) e =
     (case tool_exec now c e of
        (Inl _, e1) \<Rightarrow> tool_run cs e1
      | (Inr f, e1) \<Rightarrow> (case tool_run cs e1 of (fs, e2) \<Rightarrow> ((at_time, f) # fs, e2)))"

section \<open>Live and restored records\<close>

definition strip_time :: "go_time option \<Rightarrow> go_time option" where
  "strip_time t = map_option (\<lambda>_. 0) t"

definition strip_goal :: "Goal \<Rightarrow> Goal" where
  "strip_goal g = g\<lparr>gl_CompletedAt := strip_time (gl_CompletedAt g)\<rparr>"

definition strip_todo :: "Todo \<Rightarrow> Todo" where
  "strip_todo t = t\<lparr>td_CompletedAt := strip_time (td_CompletedAt t)\<rparr>"

definition strip_plan :: "Plan \<Rightarrow> Plan" where
  "strip_plan p = p\<lparr>pl_Steps := map strip_todo (pl_Steps p)\<rparr>"

text \<open>Equal up to the times of completion.\<close>

definition same_records :: "plan_engine \<Rightarrow> plan_projection \<Rightarrow> bool" where
  "same_records e s \<longleftrightarrow>
     map_option strip_goal \<circ> map_of (mp_goals (en_prov e)) = map_option strip_goal \<circ> map_of (pp_goals s) \<and>
     map_option strip_plan \<circ> map_of (mp_plans (en_prov e)) = map_option strip_plan \<circ> map_of (pp_plans s)"

definition sim :: "plan_engine \<Rightarrow> plan_projection \<Rightarrow> bool" where
  "sim e s \<longleftrightarrow> engine_ok e \<and> same_records e s \<and> wf_map (pp_goals s) \<and> wf_map (pp_plans s)"

lemma sim_goal:
  assumes "sim e s" and "goal_of e i = Some g"
  shows "\<exists>g'. map_of (pp_goals s) i = Some g' \<and> strip_goal g' = strip_goal g"
proof -
  have "map_option strip_goal (goal_of e i) = map_option strip_goal (map_of (pp_goals s) i)"
    using assms(1) unfolding sim_def same_records_def goal_of_def by (metis comp_apply)
  with assms(2) show ?thesis by (cases "map_of (pp_goals s) i") auto
qed

definition plan_of :: "plan_engine \<Rightarrow> string \<Rightarrow> Plan option" where
  "plan_of e i = map_of (mp_plans (en_prov e)) i"

lemma sim_plan:
  assumes "sim e s" and "plan_of e i = Some p"
  shows "\<exists>p'. map_of (pp_plans s) i = Some p' \<and> strip_plan p' = strip_plan p"
proof -
  have "map_option strip_plan (plan_of e i) = map_option strip_plan (map_of (pp_plans s) i)"
    using assms(1) unfolding sim_def same_records_def plan_of_def by (metis comp_apply)
  with assms(2) show ?thesis by (cases "map_of (pp_plans s) i") auto
qed

lemma strip_goal_eq:
  "strip_goal g' = strip_goal g \<longleftrightarrow> gl_ID g' = gl_ID g \<and> gl_Title g' = gl_Title g \<and> gl_Objective g' = gl_Objective g \<and>
     gl_Status g' = gl_Status g \<and> gl_Plans g' = gl_Plans g \<and> gl_Owner g' = gl_Owner g \<and> gl_Revision g' = gl_Revision g \<and>
     gl_MaxRounds g' = gl_MaxRounds g \<and> gl_RoundsStarted g' = gl_RoundsStarted g \<and>
     gl_BlockedReason g' = gl_BlockedReason g \<and> gl_CreatedAt g' = gl_CreatedAt g \<and>
     strip_time (gl_CompletedAt g') = strip_time (gl_CompletedAt g)"
  by (cases g; cases g') (auto simp: strip_goal_def)

lemma strip_plan_eq:
  "strip_plan p' = strip_plan p \<longleftrightarrow> pl_ID p' = pl_ID p \<and> pl_Title p' = pl_Title p \<and> pl_GoalID p' = pl_GoalID p \<and>
     pl_Status p' = pl_Status p \<and> pl_CreatedAt p' = pl_CreatedAt p \<and>
     map strip_todo (pl_Steps p') = map strip_todo (pl_Steps p)"
  by (cases p; cases p') (auto simp: strip_plan_def)

text \<open>The two maps after the same kind of write.\<close>

lemma sim_store_goal:
  assumes "sim e s" and "engine_ok (store_goal g e)" and "strip_goal g' = strip_goal g"
  shows "sim (store_goal g e) (s\<lparr>pp_goals := AList.update (gl_ID g) g' (pp_goals s)\<rparr>)"
  using assms by (auto simp: sim_def same_records_def store_goal_def fun_eq_iff)

lemma sim_store_plan:
  assumes "sim e s" and "engine_ok (store_plan p e)" and "strip_plan p' = strip_plan p"
  shows "sim (store_plan p e) (s\<lparr>pp_plans := AList.update (pl_ID p) p' (pp_plans s)\<rparr>)"
  using assms by (auto simp: sim_def same_records_def store_plan_def fun_eq_iff)

lemma sim_last [simp]: "sim e (s\<lparr>pp_lastGoalID := a\<rparr>) = sim e s" "sim e (s\<lparr>pp_lastPlanID := a\<rparr>) = sim e s"
  by (simp_all add: sim_def same_records_def)

lemma sim_seqs:
  assumes "sim e s" and "engine_ok (e\<lparr>en_goalSeq := a, en_planSeq := b, en_todoSeq := c\<rparr>)"
  shows "sim (e\<lparr>en_goalSeq := a, en_planSeq := b, en_todoSeq := c\<rparr>) s"
  using assms by (simp add: sim_def same_records_def)

section \<open>One call and its fact\<close>

lemma enter_Inr: "enter c e = (Inr x, e') \<longleftrightarrow> \<not> c \<and> \<not> en_closed e \<and> e' = e"
  by (cases c) (auto simp: enter_def and_then_def checkOpen_def)

lemma guard_Inr: "guard_op y b e = (Inr x, e') \<longleftrightarrow> b \<and> e' = e"
  by (auto simp: guard_op_cases)

lemma get_goal_Inr:
  "on_prov (GetGoal False i) e = (Inr g, e') \<longleftrightarrow> \<not> mp_closed (en_prov e) \<and> goal_of e i = Some g \<and> e' = e"
  by (auto simp: GetGoal_engine goal_of_def split: option.splits)

lemma get_plan_Inr:
  "on_prov (GetPlan False i) e = (Inr p, e') \<longleftrightarrow> \<not> mp_closed (en_prov e) \<and> plan_of e i = Some p \<and> e' = e"
  by (auto simp: GetPlan_engine plan_of_def split: option.splits)

lemma list_plans_Inr:
  "on_prov (ListPlans False) e = (Inr ps, e') \<longleftrightarrow>
     \<not> mp_closed (en_prov e) \<and> ps = sort_key pl_ID (vals (mp_plans (en_prov e))) \<and> e' = e"
  by (auto simp: ListPlans_engine)

lemma put_goal_Inr:
  "gl_ID g \<noteq> [] \<Longrightarrow> on_prov (PutGoal False g) e = (Inr x, e') \<longleftrightarrow> \<not> mp_closed (en_prov e) \<and> e' = store_goal g e"
  by (auto simp: PutGoal_engine)

lemma put_plan_Inr:
  "pl_ID p \<noteq> [] \<Longrightarrow> on_prov (PutPlan False p) e = (Inr x, e') \<longleftrightarrow> \<not> mp_closed (en_prov e) \<and> e' = store_plan p e"
  by (auto simp: PutPlan_engine)

lemmas op_Inr = and_then_Inr enter_Inr guard_Inr get_goal_Inr get_plan_Inr list_plans_Inr put_goal_Inr put_plan_Inr

lemma sim_engine: "sim e s \<Longrightarrow> engine_ok e"
  by (simp add: sim_def)

lemma goal_id: "sim e s \<Longrightarrow> goal_of e i = Some g \<Longrightarrow> gl_ID g = i \<and> i \<noteq> [] \<and> goal_ok g"
  using engine_goal sim_engine unfolding goal_of_def by blast

lemma plan_id: "sim e s \<Longrightarrow> plan_of e i = Some p \<Longrightarrow> pl_ID p = i \<and> i \<noteq> [] \<and> plan_ok (en_planSeq e) (en_todoSeq e) i p"
  using engine_plan sim_engine unfolding plan_of_def by blast

text \<open>A goal rewritten live by \<open>f\<close> and restored by \<open>h\<close>.\<close>

lemma sim_rewrite_goal:
  assumes s: "sim e s" and g: "goal_of e i = Some g" and ok: "engine_ok (store_goal (f g) e)" and i: "gl_ID (f g) = gl_ID g"
    and same: "\<And>g'. strip_goal g' = strip_goal g \<Longrightarrow> strip_goal (h g') = strip_goal (f g)"
  shows "sim (store_goal (f g) e) (on_goal i h s)"
proof -
  obtain g' where g': "map_of (pp_goals s) i = Some g'" "strip_goal g' = strip_goal g" using sim_goal [OF s g] by blast
  then show ?thesis
    using sim_store_goal [OF s ok same [OF g'(2)]] i goal_id [OF s g] by (simp add: on_goal_def)
qed

lemma strip_status:
  assumes "strip_goal g' = strip_goal g" and "st \<noteq> StatusBlocked \<Longrightarrow> reason' = []" and "st = StatusBlocked \<Longrightarrow> reason' = reason"
  shows "strip_goal (g'\<lparr>gl_Status := st, gl_Revision := nextRestoreRevision (gl_Revision g'),
      gl_BlockedReason := (if st = StatusBlocked then reason else []),
      gl_CompletedAt := applyRestoreCompletedAt st at_time\<rparr>) =
    strip_goal ((set_status now st g)\<lparr>gl_BlockedReason := reason'\<rparr>)"
  using assms
  by (auto simp: strip_goal_eq set_status_def nextRestoreRevision_def nextRevision_def applyCompletedAt_def
      applyRestoreCompletedAt_def strip_time_def)

lemma sim_goal_tool:
  assumes s: "sim e s" and now: "now \<noteq> 0" and t: "PlanGoalTool now title objective n e = (Inr f, e')"
  shows "\<exists>s'. restore_fact s (at_time, f) = Inr s' \<and> sim e' s'"
proof -
  let ?n = "if n \<le> 0 then DefaultMaxGoalRounds else n"
  let ?g = "\<lparr>gl_ID = prefixed_id ''goal-'' (Suc (en_goalSeq e)), gl_Title = title, gl_Objective = objective,
    gl_Status = StatusPending, gl_Plans = [], gl_Owner = [], gl_Revision = 1, gl_MaxRounds = ?n,
    gl_RoundsStarted = 0, gl_BlockedReason = [], gl_CreatedAt = now, gl_CompletedAt = None\<rparr>"
  let ?e = "e\<lparr>en_goalSeq := Suc (en_goalSeq e)\<rparr>"
  have n: "1 \<le> ?n" by (simp add: DefaultMaxGoalRounds_def)
  from t obtain g where c: "createGoal running now title objective ?n e = (Inr g, e')"
    and f: "f = FactCreate ''goal'' (gl_ID g) (gl_Title g) [] (Detail (zero_snapshot\<lparr>sn_Objective := gl_Objective g,
           sn_Status := gl_Status g, sn_Revision := gl_Revision g, sn_MaxRounds := gl_MaxRounds g,
           sn_RoundsStarted := gl_RoundsStarted g, sn_CreatedAt := gl_CreatedAt g\<rparr>))"
    by (auto simp: PlanGoalTool_def CreateGoalWithMaxRounds_def and_then_Inr split: if_splits)
  from c have g: "g = ?g" "e' = store_goal ?g ?e" "\<not> en_closed e" "title \<noteq> []" "\<not> mp_closed (en_prov e)"
    by (auto simp: createGoal_def Let_def op_Inr)
  have ok: "engine_ok e'" using keeps_createGoal [OF sim_engine [OF s] n, of now title objective] c by simp
  have "sim ?e s" using sim_seqs [OF s, where a = "Suc (en_goalSeq e)" and b = "en_planSeq e" and c = "en_todoSeq e"]
      engine_seq [OF sim_engine [OF s], of "Suc (en_goalSeq e)" "en_planSeq e" "en_todoSeq e"] by simp
  then have "sim e' (s\<lparr>pp_goals := AList.update (gl_ID ?g) ?g (pp_goals s)\<rparr>)"
    using sim_store_goal [of ?e s ?g ?g] ok g(2) by simp
  moreover have "restore_fact s (at_time, f) =
      Inr ((s\<lparr>pp_goals := AList.update (gl_ID ?g) ?g (pp_goals s)\<rparr>)\<lparr>pp_lastGoalID := gl_ID ?g\<rparr>)"
    using now n by (simp add: f g(1) restore_fact_def restore_create_def restore_goal_def status_or_pending_def
        validStatus_def created_or_def zero_snapshot_def)
  ultimately show ?thesis by (metis sim_last(1))
qed

lemma sim_edit:
  assumes s: "sim e s" and u: "UpdateGoalIfRevision running i r a n e = (Inr g1, e')"
  shows "\<exists>s'. restore_fact s (at_time, FactUpdate ''goal'' (gl_ID g1) (gl_Title g1) (gl_Objective g1) (gl_MaxRounds g1)) = Inr s' \<and>
    sim e' s'"
proof -
  from u have o: "is_open e"
    by (auto simp: UpdateGoalIfRevision_def update_if_read_def op_Inr is_open_def)
  have e: "engine_ok e" by (rule sim_engine [OF s])
  obtain g where g: "goal_of e i = Some g" "gl_Revision g = r" "1 \<le> r" "g1 = edited a n g" "e' = store_goal g1 e" "gl_ID g = i"
    using fenced_edit [OF e o u] by blast
  have fields: "edit_fields a n"
    using u unfolding UpdateGoalIfRevision_eq [OF e o] update_if_read_eq [OF o]
    by (auto simp: edit_fields_def split: if_splits option.splits)
  have title: "firstGoalTitle x \<noteq> []" if "trim_space x = x" "x \<noteq> []" for x
  proof -
    have "dropWhile is_space x \<noteq> []"
    proof
      assume "dropWhile is_space x = []"
      then have "trim_space x = []" by (simp only: trim_space_def) simp
      with that show False by simp
    qed
    then have "\<not> is_space (hd (dropWhile is_space x))" by (rule hd_dropWhile)
    then show ?thesis
      using \<open>dropWhile is_space x \<noteq> []\<close>
      by (cases "dropWhile is_space x") (simp_all add: firstGoalTitle_def fields.simps [of x] Let_def)
  qed
  have ok: "engine_ok (store_goal g1 e)" using keeps_UpdateGoalIfRevision [OF e, of i r a n] u g(5) by simp
  let ?h = "\<lambda>g'. g'\<lparr>gl_Title := (if gl_Title g1 \<noteq> [] then gl_Title g1 else gl_Title g'), gl_Objective := gl_Objective g1,
          gl_MaxRounds := (if 0 < gl_MaxRounds g1 then gl_MaxRounds g1 else gl_MaxRounds g'),
          gl_Revision := nextRestoreRevision (gl_Revision g')\<rparr>"
  have "sim (store_goal g1 e) (on_goal i ?h s)"
    unfolding g(4)
  proof (rule sim_rewrite_goal [OF s g(1)])
    show "engine_ok (store_goal (edited a n g) e)" using ok g(4) by simp
    fix g' :: Goal assume g': "strip_goal g' = strip_goal g"
    have "1 \<le> gl_MaxRounds g" using goal_id [OF s g(1)] by (simp add: goal_ok_def)
    then show "strip_goal (g'\<lparr>gl_Title := (if gl_Title (edited a n g) \<noteq> [] then gl_Title (edited a n g) else gl_Title g'),
          gl_Objective := gl_Objective (edited a n g),
          gl_MaxRounds := (if 0 < gl_MaxRounds (edited a n g) then gl_MaxRounds (edited a n g) else gl_MaxRounds g'),
          gl_Revision := nextRestoreRevision (gl_Revision g')\<rparr>) = strip_goal (edited a n g)"
      using g' fields title [OF trim_space_idem]
      by (auto simp: strip_goal_eq edited_def edit_fields_def nextRestoreRevision_def nextRevision_def Let_def
          split: option.splits)
  qed simp
  then show ?thesis unfolding g(4,5) using g(6) by (simp add: restore_fact_def restore_update_def)
qed

lemma sim_edit_tool:
  assumes "sim e s" and "EditGoalTool i r a n e = (Inr f, e')"
  shows "\<exists>s'. restore_fact s (at_time, f) = Inr s' \<and> sim e' s'"
  using assms(2) sim_edit [OF assms(1)] by (auto simp: EditGoalTool_def Let_def and_then_Inr)

lemma sim_round_tool:
  assumes s: "sim e s" and t: "StartRoundFact i e = (Inr f, e')"
  shows "\<exists>s'. restore_fact s (at_time, f) = Inr s' \<and> sim e' s'"
proof -
  have e: "engine_ok e" by (rule sim_engine [OF s])
  from t obtain g1 where u: "StartGoalRound running i e = (Inr g1, e')" and f: "f = FactRound (gl_ID g1) (gl_RoundsStarted g1)"
    by (auto simp: StartRoundFact_def and_then_Inr)
  from u obtain g where g: "goal_of e i = Some g" and o: "is_open e"
    by (auto simp: StartGoalRound_def op_Inr is_open_def)
  let ?g = "g\<lparr>gl_RoundsStarted := gl_RoundsStarted g + 1\<rparr>"
  have g1: "g1 = ?g" "e' = store_goal ?g e" using u StartGoalRound_eq [OF e o g] by (auto split: if_splits)
  have "sim (store_goal ?g e) (on_goal i (\<lambda>g'. if gl_RoundsStarted g' < gl_RoundsStarted g + 1
      then g'\<lparr>gl_RoundsStarted := gl_RoundsStarted g + 1\<rparr> else g') s)"
    by (rule sim_rewrite_goal [OF s g])
      (use keeps_StartGoalRound [OF e, of i] u g1 in \<open>auto simp: strip_goal_eq\<close>)
  moreover have "gl_ID ?g = i" using goal_id [OF s g] by simp
  ultimately show ?thesis unfolding f g1 restore_fact_def by simp
qed

section \<open>Plans and todos\<close>

lemma strip_todo_id [simp]: "td_ID (strip_todo t) = td_ID t"
  by (simp add: strip_todo_def)

lemma strip_steps_ids:
  assumes "map strip_todo ts = map strip_todo us"
  shows "map td_ID ts = map td_ID us"
proof -
  have "td_ID \<circ> strip_todo = td_ID" by (simp add: fun_eq_iff)
  then show ?thesis using arg_cong [OF assms, of "map td_ID"] by simp
qed

lemma step_index_ids: "map td_ID ts = map td_ID us \<Longrightarrow> step_index i ts = step_index i us"
proof (induction ts arbitrary: us)
  case (Cons t ts)
  then obtain u vs where "us = u # vs" "td_ID u = td_ID t" "map td_ID ts = map td_ID vs" by (cases us) auto
  with Cons.IH show ?case by simp
qed simp

lemma step_index_None: "step_index i ts = None \<longleftrightarrow> i \<notin> td_ID ` set ts"
  by (induction i ts rule: step_index.induct) auto

lemma sim_plan_tool:
  assumes s: "sim e s" and now: "now \<noteq> 0" and t: "PlanPlanTool now goalID title steps e = (Inr f, e')"
  shows "\<exists>s'. restore_fact s (at_time, f) = Inr s' \<and> sim e' s'"
proof -
  let ?i = "prefixed_id ''plan-'' (Suc (en_planSeq e))"
  let ?p = "\<lparr>pl_ID = ?i, pl_Title = title, pl_GoalID = goalID, pl_Status = StatusPending,
    pl_Steps = new_steps now (en_todoSeq e) steps, pl_CreatedAt = now\<rparr>"
  let ?e = "e\<lparr>en_planSeq := Suc (en_planSeq e), en_todoSeq := en_todoSeq e + length steps\<rparr>"
  from t have ne: "goalID \<noteq> []" by (auto simp: PlanPlanTool_def split: if_splits)
  from t obtain p where c: "CreatePlan running now goalID title steps e = (Inr p, e')"
    and f: "f = FactCreate ''plan'' (pl_ID p) (pl_Title p) [] (Detail (zero_snapshot\<lparr>sn_GoalID := pl_GoalID p,
           sn_Status := pl_Status p, sn_CreatedAt := pl_CreatedAt p, sn_Steps := pl_Steps p\<rparr>))"
    by (auto simp: PlanPlanTool_def and_then_Inr split: if_splits)
  from c ne obtain g where p: "p = ?p" and g: "goal_of e goalID = Some g" and o: "\<not> mp_closed (en_prov e)"
    and link: "linkPlan running goalID ?i (store_plan ?p ?e) = (Inr (), e')"
    by (auto simp: CreatePlan_def Let_def op_Inr)
  have gid: "gl_ID g = goalID" using goal_id [OF s g] by simp
  let ?g = "g\<lparr>gl_Plans := gl_Plans g @ [?i]\<rparr>"
  have e': "e' = store_goal ?g (store_plan ?p ?e)"
    using link g gid ne by (auto simp: linkPlan_def op_Inr goal_of_def store_plan_def)
  have ok: "engine_ok e'" using keeps_CreatePlan [OF sim_engine [OF s], of now goalID title steps] c by simp
  obtain g' where g': "map_of (pp_goals s) goalID = Some g'" "strip_goal g' = strip_goal g" using sim_goal [OF s g] by blast
  have "?i \<notin> set (gl_Plans g)"
  proof -
    have "plan_of e ?i = None"
      using fresh_plan sim_engine [OF s] unfolding engine_ok_def tree_ok_def plan_of_def by blast
    then show ?thesis
      using sim_engine [OF s] g unfolding engine_ok_def tree_ok_def goals_inv_def goal_of_def plan_of_def by fastforce
  qed
  then have new: "?i \<notin> set (gl_Plans g')" using g'(2) by (simp add: strip_goal_eq)
  let ?g' = "g'\<lparr>gl_Plans := gl_Plans g' @ [?i]\<rparr>"
  let ?s = "s\<lparr>pp_plans := AList.update ?i ?p (pp_plans s), pp_goals := AList.update goalID ?g' (pp_goals s)\<rparr>"
  have "strip_goal ?g' = strip_goal ?g" using g'(2) by (simp add: strip_goal_eq)
  then have "sim e' ?s"
    using s ok gid unfolding e'
    by (auto simp: sim_def same_records_def store_goal_def store_plan_def fun_eq_iff)
  moreover have "restore_fact s (at_time, f) = Inr (?s\<lparr>pp_lastPlanID := ?i\<rparr>)"
    using now ne new g'(1)
    by (simp add: f p restore_fact_def restore_create_def restore_plan_def link_goal_def status_or_pending_def
        validStatus_def created_or_def zero_snapshot_def)
  ultimately show ?thesis by (metis sim_last(2))
qed

lemma sim_todo_tool:
  assumes s: "sim e s" and now: "now \<noteq> 0" and t: "PlanTodoTool now planID title acceptance e = (Inr f, e')"
  shows "\<exists>s'. restore_fact s (at_time, f) = Inr s' \<and> sim e' s'"
proof -
  let ?t = "\<lparr>td_ID = prefixed_id ''todo-'' (Suc (en_todoSeq e)), td_Title = title, td_Status = StatusPending,
    td_Details = [], td_Acceptance = acceptance, td_CreatedAt = now, td_CompletedAt = None\<rparr>"
  let ?e = "e\<lparr>en_todoSeq := Suc (en_todoSeq e)\<rparr>"
  have e: "engine_ok e" by (rule sim_engine [OF s])
  from t obtain d where c: "AddTodo running now planID title acceptance e = (Inr d, e')"
    and f: "f = FactCreate ''todo'' (td_ID d) (td_Title d) (td_Acceptance d) (Detail (zero_snapshot\<lparr>sn_PlanID := planID,
           sn_Status := td_Status d, sn_CreatedAt := td_CreatedAt d\<rparr>))"
    by (auto simp: PlanTodoTool_def and_then_Inr split: if_splits)
  from c obtain p where p: "plan_of e planID = Some p" and o: "\<not> mp_closed (en_prov e)"
    and put: "on_prov (PutPlan False (p\<lparr>pl_Steps := pl_Steps p @ [?t]\<rparr>)) ?e = (Inr (), e')" and d: "d = ?t"
    by (auto simp: AddTodo_def Let_def op_Inr)
  let ?p = "p\<lparr>pl_Steps := pl_Steps p @ [?t]\<rparr>"
  have pid: "pl_ID p = planID" "planID \<noteq> []" "plan_ok (en_planSeq e) (en_todoSeq e) planID p" using plan_id [OF s p] by simp_all
  have e': "e' = store_plan ?p ?e" using put pid by (simp add: put_plan_Inr)
  have ok: "engine_ok e'" using keeps_AddTodo [OF e, of now planID title acceptance] c by simp
  obtain p' where p': "map_of (pp_plans s) planID = Some p'" "strip_plan p' = strip_plan p" using sim_plan [OF s p] by blast
  then have steps: "map strip_todo (pl_Steps p') = map strip_todo (pl_Steps p)" by (simp add: strip_plan_eq)
  have fresh: "td_ID ?t \<notin> td_ID ` set (pl_Steps p)"
  proof
    assume "td_ID ?t \<in> td_ID ` set (pl_Steps p)"
    then obtain x where "x \<in> set (pl_Steps p)" "td_ID x = prefixed_id ''todo-'' (Suc (en_todoSeq e))" by auto
    then have "issued_id ''todo-'' (en_todoSeq e) (prefixed_id ''todo-'' (Suc (en_todoSeq e)))"
      using pid(3) unfolding plan_ok_def by metis
    then show False using not_issued [of "en_todoSeq e" "Suc (en_todoSeq e)"] by simp
  qed
  then have "step_index (td_ID ?t) (pl_Steps p') = None"
    using step_index_ids [OF strip_steps_ids [OF steps]] step_index_None by metis
  then have up: "upsertTodo (pl_Steps p') ?t = pl_Steps p' @ [?t]" by (simp add: upsertTodo_def)
  have "sim ?e s"
    using sim_seqs [OF s, where a = "en_goalSeq e" and b = "en_planSeq e" and c = "Suc (en_todoSeq e)"]
      engine_seq [OF e, of "en_goalSeq e" "en_planSeq e" "Suc (en_todoSeq e)"] by simp
  then have "sim e' (s\<lparr>pp_plans := AList.update (pl_ID ?p) (p'\<lparr>pl_Steps := pl_Steps p' @ [?t]\<rparr>) (pp_plans s)\<rparr>)"
    unfolding e' by (rule sim_store_plan) (use ok e' p'(2) steps in \<open>simp_all add: strip_plan_eq\<close>)
  moreover have "restore_fact s (at_time, f) =
      Inr (s\<lparr>pp_plans := AList.update (pl_ID ?p) (p'\<lparr>pl_Steps := pl_Steps p' @ [?t]\<rparr>) (pp_plans s)\<rparr>)"
    using now pid(1,2) p'(1) up
    by (simp add: f d restore_fact_def restore_create_def restore_todo_def status_or_pending_def validStatus_def
        created_or_def zero_snapshot_def)
  ultimately show ?thesis by blast
qed

lemma found_unique:
  assumes e: "engine_ok e" and f: "find_todo i (sort_key pl_ID (vals (mp_plans (en_prov e)))) = Some (p, n)"
  shows "plan_of e (pl_ID p) = Some p" and "n < length (pl_Steps p)" and "td_ID (pl_Steps p ! n) = i"
    and "distinct (map td_ID (pl_Steps p))"
    and "plan_of e j = Some q \<Longrightarrow> j \<noteq> pl_ID p \<Longrightarrow> i \<notin> td_ID ` set (pl_Steps q)"
proof -
  note x = find_todo_Some [OF f]
  show p: "plan_of e (pl_ID p) = Some p" using listed_plan [OF e] x unfolding plan_of_def by blast
  show n: "n < length (pl_Steps p)" and i: "td_ID (pl_Steps p ! n) = i" using x by simp_all
  show "distinct (map td_ID (pl_Steps p))" using engine_plan [OF e] p by (simp add: plan_of_def plan_ok_def)
  show "i \<notin> td_ID ` set (pl_Steps q)" if "plan_of e j = Some q" "j \<noteq> pl_ID p"
  proof -
    have "td_ID ` set (pl_Steps p) \<inter> td_ID ` set (pl_Steps q) = {}"
      using e p that unfolding engine_ok_def tree_ok_def todos_apart_def plan_of_def by blast
    moreover have "i \<in> td_ID ` set (pl_Steps p)" using n i by auto
    ultimately show ?thesis by blast
  qed
qed

text \<open>A change of one todo's plan live and of every todo with its id in the projection.\<close>

lemma sim_on_todos:
  assumes s: "sim e s" and f: "find_todo i (sort_key pl_ID (vals (mp_plans (en_prov e)))) = Some (p, n)"
    and ok: "engine_ok (store_plan (p\<lparr>pl_Steps := ts\<rparr>) e)"
    and hit: "\<And>us. map strip_todo us = map strip_todo (pl_Steps p) \<Longrightarrow> map strip_todo (F us) = map strip_todo ts"
    and miss: "\<And>us. i \<notin> td_ID ` set us \<Longrightarrow> F us = us"
  shows "sim (store_plan (p\<lparr>pl_Steps := ts\<rparr>) e) (on_todos F s)"
proof -
  note u = found_unique [OF sim_engine [OF s] f]
  have restored: "map_of (pp_plans (on_todos F s)) j = map_option (\<lambda>q. q\<lparr>pl_Steps := F (pl_Steps q)\<rparr>) (map_of (pp_plans s) j)" for j
    by (simp add: on_todos_def map_of_map)
  have "map_option strip_plan (map_of (mp_plans (en_prov (store_plan (p\<lparr>pl_Steps := ts\<rparr>) e))) j) =
      map_option strip_plan (map_of (pp_plans (on_todos F s)) j)" for j
  proof (cases "j = pl_ID p")
    case True
    obtain p' where p': "map_of (pp_plans s) j = Some p'" "strip_plan p' = strip_plan p"
      using sim_plan [OF s u(1)] True by blast
    then have "map strip_todo (F (pl_Steps p')) = map strip_todo ts" by (intro hit) (simp add: strip_plan_eq)
    then show ?thesis using True p' by (simp add: restored store_plan_def strip_plan_eq)
  next
    case False
    show ?thesis
    proof (cases "plan_of e j")
      case None
      have "map_option strip_plan (plan_of e j) = map_option strip_plan (map_of (pp_plans s) j)"
        using s unfolding sim_def same_records_def plan_of_def by (metis comp_apply)
      then show ?thesis using False None by (simp add: restored store_plan_def plan_of_def)
    next
      case (Some q)
      then obtain q' where q': "map_of (pp_plans s) j = Some q'" "strip_plan q' = strip_plan q" using sim_plan [OF s] by blast
      from q'(2) have "map strip_todo (pl_Steps q') = map strip_todo (pl_Steps q)" unfolding strip_plan_eq by blast
      then have "map td_ID (pl_Steps q') = map td_ID (pl_Steps q)" by (rule strip_steps_ids)
      then have "td_ID ` set (pl_Steps q') = td_ID ` set (pl_Steps q)" by (metis list.set_map)
      then have "i \<notin> td_ID ` set (pl_Steps q')" using u(5) [OF Some False] by simp
      then have "F (pl_Steps q') = pl_Steps q'" by (rule miss)
      then show ?thesis using False Some q' by (simp add: restored store_plan_def plan_of_def)
    qed
  qed
  moreover have "wf_map (pp_plans (on_todos F s))"
    using s by (simp add: sim_def on_todos_def wf_map_def comp_def split_beta)
  moreover have "pp_goals (on_todos F s) = pp_goals s" by (simp add: on_todos_def)
  ultimately show ?thesis
    using s ok by (simp add: sim_def same_records_def fun_eq_iff) (simp add: store_plan_def)
qed

lemma status_of_todo:
  assumes d: "distinct (map td_ID ts)" and n: "n < length ts" "td_ID (ts ! n) = i"
    and us: "map strip_todo us = map strip_todo ts"
  shows "map strip_todo (map (\<lambda>t. if td_ID t = i then t\<lparr>td_Status := st, td_CompletedAt := applyRestoreCompletedAt st at_time\<rparr> else t) us) =
    map strip_todo (ts[n := (ts ! n)\<lparr>td_Status := st, td_CompletedAt := applyCompletedAt now st\<rparr>])"
proof (rule nth_equalityI)
  have len: "length us = length ts" using us map_eq_imp_length_eq by blast
  then show "length (map strip_todo (map (\<lambda>t. if td_ID t = i then t\<lparr>td_Status := st,
      td_CompletedAt := applyRestoreCompletedAt st at_time\<rparr> else t) us)) =
    length (map strip_todo (ts[n := (ts ! n)\<lparr>td_Status := st, td_CompletedAt := applyCompletedAt now st\<rparr>]))" by simp
  fix m assume "m < length (map strip_todo (map (\<lambda>t. if td_ID t = i then t\<lparr>td_Status := st,
      td_CompletedAt := applyRestoreCompletedAt st at_time\<rparr> else t) us))"
  then have m: "m < length us" "m < length ts" using len by simp_all
  have eq: "strip_todo (us ! m) = strip_todo (ts ! m)" using us m by (metis nth_map)
  then have ids: "td_ID (us ! m) = td_ID (ts ! m)" by (metis strip_todo_id)
  have "td_ID (ts ! m) = i \<longleftrightarrow> m = n" using d n m by (auto simp: distinct_conv_nth)
  moreover have "strip_todo ((us ! m)\<lparr>td_Status := st, td_CompletedAt := applyRestoreCompletedAt st at_time\<rparr>) =
      strip_todo ((ts ! m)\<lparr>td_Status := st, td_CompletedAt := applyCompletedAt now st\<rparr>)"
    using eq by (cases "us ! m"; cases "ts ! m")
      (auto simp: strip_todo_def applyRestoreCompletedAt_def applyCompletedAt_def strip_time_def)
  ultimately show "map strip_todo (map (\<lambda>t. if td_ID t = i then t\<lparr>td_Status := st,
      td_CompletedAt := applyRestoreCompletedAt st at_time\<rparr> else t) us) ! m =
    map strip_todo (ts[n := (ts ! n)\<lparr>td_Status := st, td_CompletedAt := applyCompletedAt now st\<rparr>]) ! m"
    using m ids eq by (cases "m = n") simp_all
qed

lemma removal_of_todo:
  assumes d: "distinct (map td_ID ts)" and n: "n < length ts" "td_ID (ts ! n) = i"
    and us: "map strip_todo us = map strip_todo ts"
  shows "map strip_todo (removeTodo us i) = map strip_todo (take n ts @ drop (n + 1) ts)"
proof -
  have split: "ts = take n ts @ ts ! n # drop (n + 1) ts" using id_take_nth_drop [OF n(1)] by simp
  have "distinct (map td_ID (take n ts @ ts ! n # drop (n + 1) ts))" using d split by simp
  then have notin: "i \<notin> td_ID ` set (take n ts)" "i \<notin> td_ID ` set (drop (n + 1) ts)" using n(2) by auto
  have "filter (\<lambda>t. td_ID t \<noteq> i) (take n ts) = take n ts" "filter (\<lambda>t. td_ID t \<noteq> i) (drop (n + 1) ts) = drop (n + 1) ts"
    using notin by (auto simp: filter_id_conv)
  then have "filter (\<lambda>t. td_ID t \<noteq> i) (take n ts @ ts ! n # drop (n + 1) ts) = take n ts @ drop (n + 1) ts"
    using n(2) by simp
  then have "filter (\<lambda>t. td_ID t \<noteq> i) ts = take n ts @ drop (n + 1) ts" unfolding split [symmetric] .
  moreover have "map strip_todo (filter (\<lambda>t. td_ID t \<noteq> i) xs) = filter (\<lambda>t. td_ID t \<noteq> i) (map strip_todo xs)" for xs
    by (induction xs) auto
  ultimately show ?thesis unfolding removeTodo_def by (metis us)
qed


lemma plan_store_goal [simp]: "plan_of (store_goal g e) i = plan_of e i" "mp_closed (en_prov (store_goal g e)) = mp_closed (en_prov e)"
  by (simp_all add: plan_of_def store_goal_def)

lemma set_status_fields [simp]: "gl_ID (set_status now st g) = gl_ID g" "gl_Status (set_status now st g) = st"
  by (simp_all add: set_status_def)

lemma store_goal_twice: "gl_ID g' = gl_ID g \<Longrightarrow> store_goal g' (store_goal g e) = store_goal g' e"
  by (simp add: store_goal_def)

text \<open>A status set on a goal, with the reason of a blocked one.\<close>

lemma sim_goal_status:
  assumes s: "sim e s" and g: "goal_of e i = Some g" and v: "validStatus st"
    and reason: "st \<noteq> StatusBlocked \<Longrightarrow> gl_BlockedReason g' = []" "st = StatusBlocked \<Longrightarrow> gl_BlockedReason g' = reason"
    and g': "g' = (set_status now st g)\<lparr>gl_BlockedReason := gl_BlockedReason g'\<rparr>"
    and ok: "engine_ok (store_goal g' e)"
  shows "sim (store_goal g' e) (restore_status s at_time ''goal'' i st reason)"
proof -
  let ?f = "\<lambda>g. (set_status now st g)\<lparr>gl_BlockedReason := gl_BlockedReason g'\<rparr>"
  have "sim (store_goal (?f g) e) (on_goal i (\<lambda>g. g\<lparr>gl_Status := st, gl_Revision := nextRestoreRevision (gl_Revision g),
          gl_BlockedReason := (if st = StatusBlocked then reason else []),
          gl_CompletedAt := applyRestoreCompletedAt st at_time\<rparr>) s)"
    by (rule sim_rewrite_goal [OF s g]) (use ok g' in simp, simp, rule strip_status, use reason in simp_all)
  then show ?thesis using v by (simp add: restore_status_def flip: g')
qed

lemma sim_status_goal_tool:
  assumes s: "sim e s" and t: "PlanStatusTool now ''goal'' i st reason revision e = (Inr f, e')"
    and given: "st = StatusBlocked \<Longrightarrow> reason \<noteq> []"
  shows "\<exists>s'. restore_fact s (at_time, f) = Inr s' \<and> sim e' s'"
proof -
  have e: "engine_ok e" by (rule sim_engine [OF s])
  from t have v: "validStatus st" by (auto simp: PlanStatusTool_def split: if_splits)
  from t obtain e1 where f: "f = FactStatus ''goal'' i st (trim_space reason)"
    and first: "(if 0 < revision then SetGoalStatusIfRevision running now i revision st
         else SetStatus running now ''goal'' i st) e = (Inr (), e1)"
    and snd: "(if st = StatusBlocked then SetGoalBlockedReason running i (trim_space reason) else ret ()) e1 = (Inr (), e')"
    using given by (auto simp: PlanStatusTool_def and_then_Inr validScope_def split: if_splits)
  from first obtain g where g: "goal_of e i = Some g"
    by (auto simp: SetGoalStatusIfRevision_def status_if_read_def SetStatus_def op_Inr split: if_splits)
  have ne: "gl_ID g = i" "i \<noteq> []" using goal_id [OF s g] by simp_all
  have e1: "e1 = store_goal (set_status now st g) e"
    using first g ne
    by (auto simp: SetGoalStatusIfRevision_def status_if_read_def SetStatus_def op_Inr split: if_splits)
  have "engine_ok (store_goal (set_status now st g) e)"
    using g ne goal_id [OF s g] goal_ok_status [of g now st]
    by (intro engine_put_goal [OF e]) (auto simp: goal_of_def set_status_def)
  then have ok1: "engine_ok e1" using e1 by simp
  show ?thesis
  proof (cases "st = StatusBlocked")
    case False
    have "set_status now st g = (set_status now st g)\<lparr>gl_BlockedReason := gl_BlockedReason (set_status now st g)\<rparr>"
      by (cases g) (simp add: set_status_def)
    then have "sim e1 (restore_status s at_time ''goal'' i st (trim_space reason))"
      unfolding e1 using False ok1 e1
      by (intro sim_goal_status [OF s g v, where now = now]) (simp_all add: set_status_def)
    with False snd show ?thesis by (auto simp: f restore_fact_def)
  next
    case True
    let ?g = "(set_status now st g)\<lparr>gl_BlockedReason := trim_space reason\<rparr>"
    have e': "e' = store_goal ?g e"
      using snd True e1 ne by (auto simp: SetGoalBlockedReason_def op_Inr store_goal_twice)
    moreover have "engine_ok e'" using keeps_SetGoalBlockedReason [OF ok1, of i "trim_space reason"] snd True by simp
    ultimately have "sim e' (restore_status s at_time ''goal'' i st (trim_space reason))"
      unfolding e' using True by (intro sim_goal_status [OF s g v, where now = now]) (simp_all add: set_status_def)
    then show ?thesis by (simp add: f restore_fact_def)
  qed
qed

lemma sim_status_tool:
  assumes s: "sim e s" and t: "PlanStatusTool now scope i st reason revision e = (Inr f, e')"
    and given: "scope = ''goal'' \<Longrightarrow> st = StatusBlocked \<Longrightarrow> reason \<noteq> []"
  shows "\<exists>s'. restore_fact s (at_time, f) = Inr s' \<and> sim e' s'"
proof (cases "scope = ''goal''")
  case True
  then show ?thesis using sim_status_goal_tool [OF s] t given by simp
next
  case False
  have e: "engine_ok e" by (rule sim_engine [OF s])
  from t False have v: "validStatus st" "validScope scope" by (auto simp: PlanStatusTool_def split: if_splits)
  from t False v have f: "f = FactStatus scope i st (trim_space reason)" and set: "SetStatus running now scope i st e = (Inr (), e')"
    by (auto simp: PlanStatusTool_def and_then_Inr)
  have ok: "engine_ok e'" using keeps_SetStatus [OF e, of now scope i st] set by simp
  show ?thesis
  proof (cases "scope = ''plan''")
    case True
    from set True obtain p where p: "plan_of e i = Some p" by (auto simp: SetStatus_def op_Inr)
    have pid: "pl_ID p = i" "i \<noteq> []" using plan_id [OF s p] by simp_all
    have e': "e' = store_plan (p\<lparr>pl_Status := st\<rparr>) e" using set True p pid by (auto simp: SetStatus_def op_Inr)
    obtain p' where p': "map_of (pp_plans s) i = Some p'" "strip_plan p' = strip_plan p" using sim_plan [OF s p] by blast
    have "sim e' (s\<lparr>pp_plans := AList.update (pl_ID (p\<lparr>pl_Status := st\<rparr>)) (p'\<lparr>pl_Status := st\<rparr>) (pp_plans s)\<rparr>)"
      unfolding e' by (rule sim_store_plan [OF s]) (use ok e' p'(2) in \<open>auto simp: strip_plan_eq\<close>)
    then show ?thesis using v pid p'(1) True by (simp add: f restore_fact_def restore_status_def on_plan_def)
  next
    case todo: False
    with False v have scope: "scope = ''todo''" by (simp add: validScope_def)
    let ?F = "map (\<lambda>t. if td_ID t = i then t\<lparr>td_Status := st, td_CompletedAt := applyRestoreCompletedAt st at_time\<rparr> else t)"
    from set scope obtain p n where fd: "find_todo i (sort_key pl_ID (vals (mp_plans (en_prov e)))) = Some (p, n)"
      and put: "on_prov (PutPlan False (p\<lparr>pl_Steps := (pl_Steps p)[n := (pl_Steps p ! n)\<lparr>td_Status := st,
        td_CompletedAt := applyCompletedAt now st\<rparr>]\<rparr>)) e = (Inr (), e')"
      by (auto simp: SetStatus_def setTodoStatus_def op_Inr Let_def split: option.splits)
    let ?ts = "(pl_Steps p)[n := (pl_Steps p ! n)\<lparr>td_Status := st, td_CompletedAt := applyCompletedAt now st\<rparr>]"
    note u = found_unique [OF e fd]
    have e': "e' = store_plan (p\<lparr>pl_Steps := ?ts\<rparr>) e" using put plan_id [OF s u(1)] by (simp add: put_plan_Inr)
    have "sim e' (on_todos ?F s)"
      unfolding e'
    proof (rule sim_on_todos [OF s fd])
      show "engine_ok (store_plan (p\<lparr>pl_Steps := ?ts\<rparr>) e)" using ok e' by simp
      show "map strip_todo (?F us) = map strip_todo ?ts" if "map strip_todo us = map strip_todo (pl_Steps p)" for us
        by (rule status_of_todo [OF u(4,2,3) that])
      show "?F us = us" if "i \<notin> td_ID ` set us" for us using that by (auto intro!: map_idI)
    qed
    then show ?thesis using v scope by (simp add: f restore_fact_def restore_status_def)
  qed
qed


lemma delete_goal_Inr:
  "on_prov (DeleteGoal False i) e = (Inr x, e') \<longleftrightarrow> \<not> mp_closed (en_prov e) \<and> goal_of e i \<noteq> None \<and>
     e' = e\<lparr>en_prov := (en_prov e)\<lparr>mp_goals := AList.delete i (mp_goals (en_prov e)),
       mp_plans := filter (\<lambda>(_, p). pl_GoalID p \<noteq> i) (mp_plans (en_prov e))\<rparr>\<rparr>"
  by (auto simp: on_prov_def DeleteGoal_def and_then_def provider_open_def goal_of_def)

definition drop_plan :: "string \<Rightarrow> plan_engine \<Rightarrow> plan_engine" where
  "drop_plan i e = e\<lparr>en_prov := (en_prov e)\<lparr>mp_plans := AList.delete i (mp_plans (en_prov e))\<rparr>\<rparr>"

lemma delete_plan_Inr:
  "on_prov (DeletePlan False i) e = (Inr x, e') \<longleftrightarrow> \<not> mp_closed (en_prov e) \<and> plan_of e i \<noteq> None \<and> e' = drop_plan i e"
  by (auto simp: on_prov_def DeletePlan_def and_then_def provider_open_def plan_of_def drop_plan_def)

lemma drop_plan_fields [simp]:
  "goal_of (drop_plan i e) j = goal_of e j" "mp_closed (en_prov (drop_plan i e)) = mp_closed (en_prov e)"
  by (simp_all add: drop_plan_def goal_of_def)

lemma strip_plan_filter:
  assumes "map_option strip_plan x = map_option strip_plan y"
  shows "map_option strip_plan (case x of None \<Rightarrow> None | Some p \<Rightarrow> if pl_GoalID p \<noteq> i then Some p else None) =
    map_option strip_plan (case y of None \<Rightarrow> None | Some p \<Rightarrow> if pl_GoalID p \<noteq> i then Some p else None)"
  using assms by (cases x; cases y) (simp_all add: strip_plan_eq)

lemma sim_remove_goal:
  assumes s: "sim e s" and ok: "engine_ok e'"
    and e': "e' = e\<lparr>en_prov := (en_prov e)\<lparr>mp_goals := AList.delete i (mp_goals (en_prov e)),
       mp_plans := filter (\<lambda>(_, p). pl_GoalID p \<noteq> i) (mp_plans (en_prov e))\<rparr>\<rparr>"
  shows "sim e' (restore_delete s ''goal'' i)"
proof -
  have wf: "wf_map (mp_plans (en_prov e))" "wf_map (pp_plans s)" "wf_map (pp_goals s)"
    using s by (simp_all add: sim_def engine_ok_def)
  have same: "map_option strip_goal (map_of (mp_goals (en_prov e)) j) = map_option strip_goal (map_of (pp_goals s) j)"
    "map_option strip_plan (map_of (mp_plans (en_prov e)) j) = map_option strip_plan (map_of (pp_plans s) j)" for j
    using s unfolding sim_def same_records_def by (metis comp_apply)+
  have "same_records e' (restore_delete s ''goal'' i)"
    unfolding same_records_def
  proof (intro conjI ext)
    fix j
    show "(map_option strip_goal \<circ> map_of (mp_goals (en_prov e'))) j =
        (map_option strip_goal \<circ> map_of (pp_goals (restore_delete s ''goal'' i))) j"
      using same(1) [of j] by (simp add: e' restore_delete_def delete_conv')
    show "(map_option strip_plan \<circ> map_of (mp_plans (en_prov e'))) j =
        (map_option strip_plan \<circ> map_of (pp_plans (restore_delete s ''goal'' i))) j"
      using strip_plan_filter [where i = i, OF same(2) [of j]]
      by (simp add: e' restore_delete_def map_of_filter_wf wf cong: option.case_cong)
  qed
  then show ?thesis using ok wf by (simp add: sim_def) (simp add: restore_delete_def)
qed

lemma sim_drop_plan:
  assumes "sim e s"
  shows "same_records (drop_plan i e) (s\<lparr>pp_plans := AList.delete i (pp_plans s)\<rparr>)"
  using assms by (auto simp: sim_def same_records_def fun_eq_iff drop_plan_def delete_conv')

lemma sim_remove_plan:
  assumes s: "sim e s" and p: "plan_of e i = Some p" and ok: "engine_ok e'"
    and e': "if pl_GoalID p = [] then e' = drop_plan i e
      else \<exists>g. goal_of e (pl_GoalID p) = Some g \<and>
        e' = store_goal (g\<lparr>gl_Plans := filter (\<lambda>j. j \<noteq> i) (gl_Plans g)\<rparr>) (drop_plan i e)"
  shows "sim e' (restore_delete s ''plan'' i)"
proof -
  obtain p' where p': "map_of (pp_plans s) i = Some p'" "strip_plan p' = strip_plan p" using sim_plan [OF s p] by blast
  then have G: "pl_GoalID p' = pl_GoalID p" by (simp add: strip_plan_eq)
  let ?s = "s\<lparr>pp_plans := AList.delete i (pp_plans s)\<rparr>"
  have d: "same_records (drop_plan i e) ?s" by (rule sim_drop_plan [OF s])
  have wf: "wf_map (pp_goals s)" "wf_map (pp_plans s)" using s by (simp_all add: sim_def)
  show ?thesis
  proof (cases "pl_GoalID p = []")
    case True
    have "goal_of e [] = None" using goal_id [OF s, of "[]"] by (cases "goal_of e []") auto
    moreover have "map_option strip_goal (goal_of e []) = map_option strip_goal (map_of (pp_goals s) [])"
      using s unfolding sim_def same_records_def goal_of_def by (metis comp_apply)
    ultimately have "map_of (pp_goals s) [] = None" by simp
    then show ?thesis using True d wf ok e' p'(1) G by (simp add: restore_delete_def on_goal_def sim_def)
  next
    case False
    with e' obtain g where g: "goal_of e (pl_GoalID p) = Some g"
      and e'': "e' = store_goal (g\<lparr>gl_Plans := filter (\<lambda>j. j \<noteq> i) (gl_Plans g)\<rparr>) (drop_plan i e)" by auto
    obtain g' where g': "map_of (pp_goals s) (pl_GoalID p) = Some g'" "strip_goal g' = strip_goal g" using sim_goal [OF s g] by blast
    have gid: "gl_ID g = pl_GoalID p" using goal_id [OF s g] by simp
    have "strip_goal (g'\<lparr>gl_Plans := removeID (gl_Plans g') i\<rparr>) = strip_goal (g\<lparr>gl_Plans := filter (\<lambda>j. j \<noteq> i) (gl_Plans g)\<rparr>)"
      using g'(2) by (simp add: strip_goal_eq removeID_def)
    then have "same_records e' (on_goal (pl_GoalID p) (\<lambda>g. g\<lparr>gl_Plans := removeID (gl_Plans g) i\<rparr>) ?s)"
      using d g'(1) gid unfolding e'' by (auto simp: same_records_def fun_eq_iff on_goal_def store_goal_def)
    then show ?thesis using wf ok p'(1) G g'(1) by (simp add: restore_delete_def sim_def on_goal_def)
  qed
qed


lemma sim_remove_tool:
  assumes s: "sim e s" and t: "PlanRemoveTool scope i e = (Inr f, e')"
  shows "\<exists>s'. restore_fact s (at_time, f) = Inr s' \<and> sim e' s'"
proof -
  have e: "engine_ok e" by (rule sim_engine [OF s])
  from t have f: "f = FactDelete scope i" and rm: "RemoveRecord running scope i e = (Inr (), e')" and v: "validScope scope"
    by (auto simp: PlanRemoveTool_def and_then_Inr split: if_splits)
  have ok: "engine_ok e'" using keeps_RemoveRecord [OF e, of scope i] rm by simp
  consider "scope = ''goal''" | "scope = ''plan''" | "scope = ''todo''" using v by (auto simp: validScope_def)
  then have "sim e' (restore_delete s scope i)"
  proof cases
    case 1
    with rm show ?thesis using sim_remove_goal [OF s ok] by (auto simp: RemoveRecord_def op_Inr delete_goal_Inr)
  next
    case 2
    with rm obtain p where p: "plan_of e i = Some p" and rest: "(if pl_GoalID p = [] then ret ()
       else and_then (on_prov (GetGoal False (pl_GoalID p))) (\<lambda>g.
         on_prov (PutGoal False (g\<lparr>gl_Plans := filter (\<lambda>pid. pid \<noteq> i) (gl_Plans g)\<rparr>)))) (drop_plan i e) = (Inr (), e')"
      by (auto simp: RemoveRecord_def removePlan_def op_Inr delete_plan_Inr)
    have "if pl_GoalID p = [] then e' = drop_plan i e
      else \<exists>g. goal_of e (pl_GoalID p) = Some g \<and>
        e' = store_goal (g\<lparr>gl_Plans := filter (\<lambda>j. j \<noteq> i) (gl_Plans g)\<rparr>) (drop_plan i e)"
      using rest goal_id [OF s, of "pl_GoalID p"] by (auto simp: and_then_Inr get_goal_Inr put_goal_Inr)
    then show ?thesis using sim_remove_plan [OF s p ok] 2 by simp
  next
    case 3
    with rm obtain p n where fd: "find_todo i (sort_key pl_ID (vals (mp_plans (en_prov e)))) = Some (p, n)"
      and put: "on_prov (PutPlan False (p\<lparr>pl_Steps := take n (pl_Steps p) @ drop (n + 1) (pl_Steps p)\<rparr>)) e = (Inr (), e')"
      by (auto simp: RemoveRecord_def removeTodo_op_def op_Inr split: option.splits)
    let ?ts = "take n (pl_Steps p) @ drop (n + 1) (pl_Steps p)"
    note u = found_unique [OF e fd]
    have e': "e' = store_plan (p\<lparr>pl_Steps := ?ts\<rparr>) e" using put plan_id [OF s u(1)] by (simp add: put_plan_Inr)
    have "sim e' (on_todos (\<lambda>ts. removeTodo ts i) s)"
      unfolding e'
    proof (rule sim_on_todos [OF s fd])
      show "engine_ok (store_plan (p\<lparr>pl_Steps := ?ts\<rparr>) e)" using ok e' by simp
      show "map strip_todo (removeTodo us i) = map strip_todo ?ts" if "map strip_todo us = map strip_todo (pl_Steps p)" for us
        by (rule removal_of_todo [OF u(4,2,3) that])
      show "removeTodo us i = us" if "i \<notin> td_ID ` set us" for us using that by (auto simp: removeTodo_def filter_id_conv)
    qed
    then show ?thesis using 3 by (simp add: restore_delete_def)
  qed
  then show ?thesis by (simp add: f restore_fact_def)
qed

lemma list_goals_Inr: "on_prov (ListGoals False) e = (Inr gs, e') \<Longrightarrow> e' = e"
  by (auto simp: on_prov_def ListGoals_def provider_open_def and_then_def split: if_splits)

lemma sim_list_tool:
  assumes "sim e s" and "PlanListTool e = (Inr f, e')"
  shows "\<exists>s'. restore_fact s (at_time, f) = Inr s' \<and> sim e' s'"
  using assms by (auto simp: PlanListTool_def ListTree_def op_Inr restore_fact_def dest: list_goals_Inr)

text \<open>A blocked goal is given its reason, and no tool runs at the zero time.\<close>

primrec call_ok :: "tool_call \<Rightarrow> bool" where
  "call_ok (TGoal t d n) = True"
| "call_ok (TPlan g t ss) = True"
| "call_ok (TTodo p t a) = True"
| "call_ok (TStatus scope i st reason n) = (scope = ''goal'' \<and> st = StatusBlocked \<longrightarrow> reason \<noteq> [])"
| "call_ok (TRemove s i) = True"
| "call_ok TList = True"
| "call_ok (TEdit i r a n) = True"
| "call_ok (TRound i) = True"

lemma sim_tool:
  assumes "sim e s" and "now \<noteq> 0" and "call_ok c" and "tool_exec now c e = (Inr f, e')"
  shows "\<exists>s'. restore_fact s (at_time, f) = Inr s' \<and> sim e' s'"
  using assms by (cases c) (auto intro: sim_goal_tool sim_plan_tool sim_todo_tool sim_status_tool sim_remove_tool sim_list_tool
      sim_edit_tool sim_round_tool)

section \<open>A tool that fails\<close>

lemma and_then_Inl:
  "and_then m F e = (Inl x, e') \<longleftrightarrow> m e = (Inl x, e') \<or> (\<exists>y e1. m e = (Inr y, e1) \<and> F y e1 = (Inl x, e'))"
  by (auto simp: and_then_def split: prod.splits sum.splits)

lemma enter_Inl: "enter c e = (Inl x, e') \<Longrightarrow> e' = e"
  by (cases c) (auto simp: enter_def and_then_def checkOpen_def split: if_splits)


lemma get_Inl:
  "on_prov (GetGoal False i) e = (Inl x, e') \<Longrightarrow> e' = e" "on_prov (GetPlan False i) e = (Inl x, e') \<Longrightarrow> e' = e"
  "on_prov (ListPlans False) e = (Inl x, e') \<Longrightarrow> e' = e" "guard_op y b e = (Inl x, e') \<Longrightarrow> e' = e"
  "on_prov (DeleteGoal False i) e = (Inl x, e') \<Longrightarrow> e' = e" "on_prov (DeletePlan False i) e = (Inl x, e') \<Longrightarrow> e' = e"
  subgoal by (auto simp: GetGoal_engine split: if_splits option.splits)
  subgoal by (auto simp: GetPlan_engine split: if_splits option.splits)
  subgoal by (auto simp: ListPlans_engine split: if_splits)
  subgoal by (auto simp: guard_op_cases split: if_splits)
  by (auto simp: on_prov_def DeleteGoal_def DeletePlan_def provider_open_def and_then_def split: if_splits)

lemma put_Inl:
  "gl_ID g \<noteq> [] \<Longrightarrow> \<not> mp_closed (en_prov e) \<Longrightarrow> on_prov (PutGoal False g) e = (Inl x, e') \<longleftrightarrow> False"
  "pl_ID p \<noteq> [] \<Longrightarrow> \<not> mp_closed (en_prov e) \<Longrightarrow> on_prov (PutPlan False p) e = (Inl x, e') \<longleftrightarrow> False"
  by (auto simp: PutGoal_engine PutPlan_engine)

lemmas op_Inl = and_then_Inl put_Inl

lemma ok_ids:
  "engine_ok e \<Longrightarrow> goal_of e i = Some g \<Longrightarrow> gl_ID g = i \<and> i \<noteq> []"
  "engine_ok e \<Longrightarrow> plan_of e i = Some p \<Longrightarrow> pl_ID p = i \<and> i \<noteq> []"
  using engine_goal engine_plan unfolding goal_of_def plan_of_def by blast+

lemma fails_createGoal: "is_open e \<Longrightarrow> createGoal running now t d n e = (Inl x, e') \<Longrightarrow> e' = e"
  by (auto simp: createGoal_def Let_def op_Inl op_Inr is_open_def dest: enter_Inl get_Inl)

lemma fails_StartGoalRound: "engine_ok e \<Longrightarrow> is_open e \<Longrightarrow> StartGoalRound running i e = (Inl x, e') \<Longrightarrow> e' = e"
  by (auto simp: StartGoalRound_def Let_def op_Inl op_Inr is_open_def ok_ids dest: enter_Inl get_Inl split: if_splits)

lemma fails_AddTodo: "engine_ok e \<Longrightarrow> is_open e \<Longrightarrow> AddTodo running now i t a e = (Inl x, e') \<Longrightarrow> e' = e"
  by (auto simp: AddTodo_def Let_def op_Inl op_Inr is_open_def ok_ids dest: enter_Inl get_Inl)

lemma fails_UpdateGoalIfRevision:
  "engine_ok e \<Longrightarrow> is_open e \<Longrightarrow> UpdateGoalIfRevision running i r a n e = (Inl x, e') \<Longrightarrow> e' = e"
  by (auto simp: UpdateGoalIfRevision_eq update_if_read_eq split: if_splits option.splits)

lemma fails_SetGoalStatusIfRevision:
  "engine_ok e \<Longrightarrow> is_open e \<Longrightarrow> SetGoalStatusIfRevision running now i r st e = (Inl x, e') \<Longrightarrow> e' = e"
  by (auto simp: SetGoalStatusIfRevision_def status_if_read_def op_Inl op_Inr is_open_def ok_ids dest: enter_Inl get_Inl)

lemma fails_setTodoStatus:
  assumes e: "engine_ok e" and o: "is_open e" and f: "setTodoStatus running now i st e = (Inl x, e')"
  shows "e' = e"
proof (cases "find_todo i (sort_key pl_ID (vals (mp_plans (en_prov e))))")
  case None
  then show ?thesis using f o by (auto simp: setTodoStatus_def op_Inl list_plans_Inr is_open_def dest: get_Inl)
next
  case (Some y)
  then obtain p n where fd: "find_todo i (sort_key pl_ID (vals (mp_plans (en_prov e)))) = Some (p, n)" by (cases y) simp
  have "pl_ID p \<noteq> []" using found_unique(1) [OF e fd] ok_ids(2) [OF e] by blast
  then show ?thesis
    using f o fd by (auto simp: setTodoStatus_def op_Inl list_plans_Inr is_open_def Let_def dest: get_Inl)
qed

lemma fails_removeTodo:
  assumes e: "engine_ok e" and o: "is_open e" and f: "removeTodo_op running i e = (Inl x, e')"
  shows "e' = e"
proof (cases "find_todo i (sort_key pl_ID (vals (mp_plans (en_prov e))))")
  case None
  then show ?thesis using f o by (auto simp: removeTodo_op_def op_Inl list_plans_Inr is_open_def dest: get_Inl)
next
  case (Some y)
  then obtain p n where fd: "find_todo i (sort_key pl_ID (vals (mp_plans (en_prov e)))) = Some (p, n)" by (cases y) simp
  have "pl_ID p \<noteq> []" using found_unique(1) [OF e fd] ok_ids(2) [OF e] by blast
  then show ?thesis
    using f o fd by (auto simp: removeTodo_op_def op_Inl list_plans_Inr is_open_def dest: get_Inl)
qed

lemma fails_SetStatus: "engine_ok e \<Longrightarrow> is_open e \<Longrightarrow> SetStatus running now scope i st e = (Inl x, e') \<Longrightarrow> e' = e"
  by (auto simp: SetStatus_def op_Inl op_Inr is_open_def ok_ids fails_setTodoStatus dest: enter_Inl get_Inl split: if_splits)


lemma store_plan_fields [simp]:
  "goal_of (store_plan p e) i = goal_of e i" "mp_closed (en_prov (store_plan p e)) = mp_closed (en_prov e)"
  by (simp_all add: store_plan_def goal_of_def)

lemma seq_fields [simp]:
  "goal_of (e\<lparr>en_planSeq := m, en_todoSeq := t\<rparr>) i = goal_of e i"
  by (simp add: goal_of_def)

lemmas GetGoal_of = GetGoal_engine [folded goal_of_def]

lemma fails_CreatePlan:
  assumes e: "engine_ok e" and o: "is_open e" and f: "CreatePlan running now goalID title steps e = (Inl x, e')"
  shows "e' = e"
proof (cases "goalID = [] \<or> goal_of e goalID = None")
  case True
  then show ?thesis
    using f o by (auto simp: CreatePlan_def Let_def op_Inl op_Inr is_open_def dest: enter_Inl get_Inl split: if_splits)
next
  case False
  then obtain g where g: "goal_of e goalID = Some g" "goalID \<noteq> []" by blast
  with ok_ids(1) [OF e g(1)] show ?thesis
    using f o by (auto simp: CreatePlan_def linkPlan_def Let_def op_Inl op_Inr is_open_def GetGoal_of
        dest: enter_Inl get_Inl split: if_splits option.splits)
qed

lemma fails_removePlan:
  assumes e: "engine_ok e" and o: "is_open e" and f: "removePlan running i e = (Inl x, e')"
  shows "e' = e"
proof (cases "plan_of e i")
  case None
  then show ?thesis using f by (auto simp: removePlan_def op_Inl op_Inr dest: get_Inl)
next
  case (Some p)
  have "on_prov (DeletePlan False i) e = (Inr (), drop_plan i e)" using Some o by (simp add: delete_plan_Inr is_open_def)
  then have f': "(if pl_GoalID p = [] then ret ()
       else and_then (on_prov (GetGoal False (pl_GoalID p))) (\<lambda>g.
         on_prov (PutGoal False (g\<lparr>gl_Plans := filter (\<lambda>pid. pid \<noteq> i) (gl_Plans g)\<rparr>)))) (drop_plan i e) = (Inl x, e')"
    using f Some o by (auto simp: removePlan_def op_Inl op_Inr is_open_def GetPlan_engine plan_of_def)
  show ?thesis
  proof (cases "pl_GoalID p = []")
    case False
    then obtain g where g: "goal_of e (pl_GoalID p) = Some g"
      using e Some unfolding engine_ok_def tree_ok_def plans_inv_def plan_of_def goal_of_def by blast
    then have "on_prov (GetGoal False (pl_GoalID p)) (drop_plan i e) = (Inr g, drop_plan i e)"
      using o by (simp add: get_goal_Inr is_open_def)
    then show ?thesis using f' False ok_ids(1) [OF e g] o by (simp add: op_Inl is_open_def)
  qed (use f' in simp)
qed

lemma fails_RemoveRecord: "engine_ok e \<Longrightarrow> is_open e \<Longrightarrow> RemoveRecord running scope i e = (Inl x, e') \<Longrightarrow> e' = e"
  by (auto simp: RemoveRecord_def op_Inl op_Inr fails_removePlan fails_removeTodo dest: enter_Inl get_Inl split: if_splits)

lemma fails_PlanStatusTool:
  assumes e: "engine_ok e" and o: "is_open e" and f: "PlanStatusTool now scope i st reason revision e = (Inl x, e')"
  shows "e' = e"
proof (cases "validScope scope \<and> validStatus st")
  case False
  then show ?thesis using f by (auto simp: PlanStatusTool_def split: if_splits)
next
  case True
  let ?first = "if scope = ''goal'' \<and> 0 < revision then SetGoalStatusIfRevision running now i revision st
         else SetStatus running now scope i st"
  let ?second = "if scope = ''goal'' \<and> st = StatusBlocked \<and> reason \<noteq> [] then SetGoalBlockedReason running i (trim_space reason)
         else ret ()"
  from f True consider "?first e = (Inl x, e')" | e1 where "?first e = (Inr (), e1)" "?second e1 = (Inl x, e')"
    by (auto simp: PlanStatusTool_def and_then_Inl)
  then show ?thesis
  proof cases
    case 1
    then show ?thesis
      using fails_SetGoalStatusIfRevision [OF e o] fails_SetStatus [OF e o] by (auto split: if_splits)
  next
    case 2
    then have b: "scope = ''goal''" "st = StatusBlocked" "reason \<noteq> []" by (auto split: if_splits)
    then obtain g where "goal_of e i = Some g" "e1 = store_goal (set_status now st g) e"
      using 2(1) ok_ids(1) [OF e]
      by (auto simp: SetGoalStatusIfRevision_def status_if_read_def SetStatus_def op_Inr split: if_splits)
    then have "?second e1 \<noteq> (Inl x, e')"
      using b o ok_ids(1) [OF e, of i g]
      by (auto simp: SetGoalBlockedReason_def op_Inl op_Inr is_open_def enter_running GetGoal_of)
    with 2(2) show ?thesis by contradiction
  qed
qed


definition keeps_open :: "(plan_engine, 'a) plan_op \<Rightarrow> bool" where
  "keeps_open m \<longleftrightarrow> (\<forall>e. is_open e \<longrightarrow> is_open (snd (m e)))"

named_theorems keeps_open_rules

lemma keeps_open_then [keeps_open_rules]:
  assumes m: "keeps_open m" and F: "\<And>x. keeps_open (F x)"
  shows "keeps_open (and_then m F)"
  unfolding keeps_open_def
proof (intro allI impI)
  fix e assume e: "is_open e"
  obtain r e1 where r: "m e = (r, e1)" by (cases "m e")
  then have "is_open e1" using m e unfolding keeps_open_def by (metis snd_conv)
  then show "is_open (snd (and_then m F e))" using r F unfolding keeps_open_def and_then_def by (cases r) simp_all
qed

lemma keeps_open_prov [keeps_open_rules]:
  "keeps_open (on_prov (GetGoal c i))" "keeps_open (on_prov (GetPlan c i))" "keeps_open (on_prov (ListPlans c))"
  "keeps_open (on_prov (ListGoals c))" "keeps_open (on_prov (PutGoal c g))" "keeps_open (on_prov (PutPlan c p))"
  "keeps_open (on_prov (DeleteGoal c i))" "keeps_open (on_prov (DeletePlan c i))"
  by (auto simp: keeps_open_def is_open_def on_prov_def GetGoal_def GetPlan_def ListPlans_def ListGoals_def PutGoal_def
      PutPlan_def DeleteGoal_def DeletePlan_def and_then_def provider_open_def split: option.splits)

lemma keeps_open_basic [keeps_open_rules]:
  "keeps_open (ret x)" "keeps_open (fail y)" "keeps_open (guard_op y b)" "keeps_open (enter c)"
  "keeps_open (modify_op (\<lambda>e. e\<lparr>en_goalSeq := a e\<rparr>))" "keeps_open (modify_op (\<lambda>e. e\<lparr>en_todoSeq := a e\<rparr>))"
  by (auto simp: keeps_open_def is_open_def enter_def and_then_def checkOpen_def guard_op_cases)

lemma keeps_open_if [keeps_open_rules]: "(b \<Longrightarrow> keeps_open m) \<Longrightarrow> (\<not> b \<Longrightarrow> keeps_open m') \<Longrightarrow> keeps_open (if b then m else m')"
  by simp

lemma keeps_open_find [keeps_open_rules]:
  "keeps_open N \<Longrightarrow> (\<And>p n. keeps_open (S p n)) \<Longrightarrow> keeps_open (case x of None \<Rightarrow> N | Some (p, n) \<Rightarrow> S p n)"
  by (simp split: option.split)

lemma keeps_open_linkPlan: "keeps_open (linkPlan ctx goalID planID)"
  unfolding linkPlan_def by (intro keeps_open_rules)

lemma keeps_open_engine:
  "keeps_open (StartGoalRound ctx i)" "keeps_open (UpdateGoalIfRevision ctx i r obj m)"
  "keeps_open (SetGoalStatusIfRevision ctx now i r st)" "keeps_open (SetGoalBlockedReason ctx i why)"
  "keeps_open (ListTree ctx)" "keeps_open (SetStatus ctx now scope i st)" "keeps_open (RemoveRecord ctx scope i)"
  unfolding StartGoalRound_def UpdateGoalIfRevision_def update_if_read_def SetGoalStatusIfRevision_def status_if_read_def
    SetGoalBlockedReason_def ListTree_def SetStatus_def setTodoStatus_def RemoveRecord_def removePlan_def removeTodo_op_def Let_def
  by (intro keeps_open_rules)+

lemma is_open_seqs [simp]:
  "is_open (e\<lparr>en_goalSeq := n\<rparr>) = is_open e" "is_open (e\<lparr>en_planSeq := n\<rparr>) = is_open e" "is_open (e\<lparr>en_todoSeq := n\<rparr>) = is_open e"
  "is_open (store_plan p e) = is_open e"
  by (simp_all add: is_open_def store_plan_def)

lemma opens_create:
  assumes "is_open e"
  shows "createGoal running now t d n e = (Inr g, e') \<Longrightarrow> is_open e'"
    and "CreatePlan running now goalID t steps e = (Inr p, e') \<Longrightarrow> is_open e'"
    and "engine_ok e \<Longrightarrow> AddTodo running now planID t acc e = (Inr x, e') \<Longrightarrow> is_open e'"
proof -
  show "createGoal running now t d n e = (Inr g, e') \<Longrightarrow> is_open e'"
    using assms by (auto simp: createGoal_def Let_def op_Inr)
  show "engine_ok e \<Longrightarrow> AddTodo running now planID t acc e = (Inr x, e') \<Longrightarrow> is_open e'"
    using assms by (auto simp: AddTodo_def Let_def op_Inr ok_ids)
  have link: "linkPlan running goalID i e1 = (Inr (), e') \<Longrightarrow> is_open e1 \<Longrightarrow> is_open e'" for i e1
    using keeps_open_linkPlan [of running goalID i] unfolding keeps_open_def by (metis snd_conv)
  show "CreatePlan running now goalID t steps e = (Inr p, e') \<Longrightarrow> is_open e'"
    using assms by (auto simp: CreatePlan_def Let_def op_Inr split: if_splits intro: link)
qed

lemma opens_engine: "keeps_open m \<Longrightarrow> m e = (Inr x, e') \<Longrightarrow> is_open e \<Longrightarrow> is_open e'"
  unfolding keeps_open_def by (metis snd_conv)

lemmas opened = keeps_open_engine [THEN opens_engine]

lemma tool_opens:
  assumes "engine_ok e" and "is_open e" and "tool_exec now c e = (Inr f, e')"
  shows "is_open e'"
proof (cases c)
  case (TStatus scope i st reason n)
  then show ?thesis using assms by (auto simp: PlanStatusTool_def and_then_Inr split: if_splits dest: opened)
qed (use assms in \<open>auto simp: PlanGoalTool_def PlanPlanTool_def PlanTodoTool_def PlanRemoveTool_def
   PlanListTool_def EditGoalTool_def StartRoundFact_def CreateGoalWithMaxRounds_def and_then_Inr Let_def
   split: if_splits dest: opened opens_create\<close>)

lemma fails_ListTree: "is_open e \<Longrightarrow> ListTree running e \<noteq> (Inl x, e')"
  unfolding ListTree_def enter_running
  by (auto simp: is_open_def on_prov_def ListGoals_def provider_open_def and_then_def)

lemma tool_fails:
  assumes "engine_ok e" and "is_open e" and "tool_exec now c e = (Inl x, e')"
  shows "e' = e"
proof (cases c)
  case (TStatus scope i st reason n)
  then show ?thesis using assms fails_PlanStatusTool by simp
next
  case (TGoal t d n)
  then show ?thesis
    using assms by (auto simp: PlanGoalTool_def CreateGoalWithMaxRounds_def and_then_Inl split: if_splits dest: fails_createGoal)
next
  case (TPlan g t ss)
  then show ?thesis using assms by (auto simp: PlanPlanTool_def and_then_Inl split: if_splits dest: fails_CreatePlan)
next
  case (TTodo p t a)
  then show ?thesis using assms by (auto simp: PlanTodoTool_def and_then_Inl split: if_splits dest: fails_AddTodo)
next
  case (TRemove s i)
  then show ?thesis using assms by (auto simp: PlanRemoveTool_def and_then_Inl split: if_splits dest: fails_RemoveRecord)
next
  case TList
  then show ?thesis using assms fails_ListTree by (auto simp: PlanListTool_def and_then_Inl)
next
  case (TEdit i r a n)
  then show ?thesis
    using assms by (auto simp: EditGoalTool_def Let_def and_then_Inl dest: fails_UpdateGoalIfRevision)
next
  case (TRound i)
  then show ?thesis using assms by (auto simp: StartRoundFact_def and_then_Inl dest: fails_StartGoalRound)
qed


lemma kept_ops:
  assumes "engine_ok e"
  shows "UpdateGoalIfRevision running i r a n e = (x1, e') \<Longrightarrow> engine_ok e'"
    and "CreatePlan running now g t ss e = (x2, e') \<Longrightarrow> engine_ok e'"
    and "AddTodo running now p t acc e = (x3, e') \<Longrightarrow> engine_ok e'"
    and "SetStatus running now scope i st e = (x4, e') \<Longrightarrow> engine_ok e'"
    and "SetGoalStatusIfRevision running now i r st e = (x5, e') \<Longrightarrow> engine_ok e'"
    and "SetGoalBlockedReason running i why e = (x6, e') \<Longrightarrow> engine_ok e'"
    and "StartGoalRound running i e = (x7, e') \<Longrightarrow> engine_ok e'"
    and "RemoveRecord running scope i e = (x8, e') \<Longrightarrow> engine_ok e'"
  using keeps_UpdateGoalIfRevision [OF assms] keeps_CreatePlan [OF assms] keeps_AddTodo [OF assms] keeps_SetStatus [OF assms]
    keeps_SetGoalStatusIfRevision [OF assms] keeps_SetGoalBlockedReason [OF assms] keeps_StartGoalRound [OF assms]
    keeps_RemoveRecord [OF assms] by (metis snd_conv)+

lemma kept_create:
  "engine_ok e \<Longrightarrow> createGoal running now t d (if n \<le> 0 then DefaultMaxGoalRounds else n) e = (r, e') \<Longrightarrow> engine_ok e'"
  using keeps_createGoal [of e "if n \<le> 0 then DefaultMaxGoalRounds else n" now t d]
  by (simp add: DefaultMaxGoalRounds_def split: if_splits)

lemma tool_keeps:
  assumes "engine_ok e" and "tool_exec now c e = (Inr f, e')"
  shows "engine_ok e'"
proof (cases c)
  case (TStatus scope i st reason n)
  then show ?thesis using assms by (auto simp: PlanStatusTool_def and_then_Inr split: if_splits dest: kept_ops)
next
  case (TGoal t d n)
  then show ?thesis
    using assms by (auto simp: PlanGoalTool_def CreateGoalWithMaxRounds_def and_then_Inr
        simp del: if_split split: if_split_asm dest: kept_create)
next
  case TList
  then show ?thesis using assms by (auto simp: PlanListTool_def ListTree_def op_Inr dest: list_goals_Inr)
qed (use assms in \<open>auto simp: PlanPlanTool_def PlanTodoTool_def PlanRemoveTool_def EditGoalTool_def
   StartRoundFact_def and_then_Inr Let_def split: if_splits dest: kept_ops\<close>)

section \<open>A session and its log\<close>

lemma tool_run_sim:
  assumes "sim e s" and "is_open e" and "list_all (\<lambda>(now, _, c). now \<noteq> 0 \<and> call_ok c) cs"
    and "tool_run cs e = (fs, e')"
  shows "is_open e' \<and> (\<exists>s'. fold_until restore_fact s fs = Inr s' \<and> sim e' s')"
  using assms
proof (induction cs arbitrary: e s fs e')
  case (Cons x cs)
  obtain now at_time c where x: "x = (now, at_time, c)" by (cases x) auto
  obtain r e1 where r: "tool_exec now c e = (r, e1)" by (cases "tool_exec now c e")
  show ?case
  proof (cases r)
    case (Inl y)
    then have "e1 = e" using tool_fails r Cons.prems(1,2) sim_engine by blast
    then show ?thesis using Cons.IH [OF Cons.prems(1,2)] Cons.prems(3,4) r Inl by (simp add: x)
  next
    case (Inr f)
    have c: "now \<noteq> 0" "call_ok c" using Cons.prems(3) x by auto
    obtain s1 where s1: "restore_fact s (at_time, f) = Inr s1" "sim e1 s1"
      using sim_tool [OF Cons.prems(1) c r [unfolded Inr]] by blast
    have o: "is_open e1" using tool_opens sim_engine [OF Cons.prems(1)] Cons.prems(2) r Inr by blast
    obtain fs1 e2 where run: "tool_run cs e1 = (fs1, e2)" by (cases "tool_run cs e1")
    have fs: "fs = (at_time, f) # fs1" "e2 = e'" using Cons.prems(4) r Inr run by (simp_all add: x)
    have "list_all (\<lambda>(now, _, c). now \<noteq> 0 \<and> call_ok c) cs" using Cons.prems(3) by simp
    from Cons.IH [OF s1(2) o this run] show ?thesis using s1(1) by (simp add: fs)
  qed
qed auto

lemma tool_run_open:
  assumes "engine_ok e" and "is_open e" and "tool_run cs e = (fs, e')"
  shows "engine_ok e' \<and> is_open e'"
  using assms
proof (induction cs arbitrary: e fs)
  case (Cons x cs)
  obtain now at_time c where x: "x = (now, at_time, c)" by (cases x) auto
  obtain r e1 where r: "tool_exec now c e = (r, e1)" by (cases "tool_exec now c e")
  have ok1: "engine_ok e1 \<and> is_open e1"
  proof (cases r)
    case (Inl y)
    then show ?thesis using tool_fails Cons.prems(1,2) r by blast
  next
    case (Inr f)
    then show ?thesis using tool_keeps Cons.prems(1,2) r tool_opens by blast
  qed
  then show ?case using Cons.IH [of e1] Cons.prems(3) r by (auto simp: x split: sum.splits prod.splits)
qed auto

lemma sim_new: "sim NewEngine restore_init" "is_open NewEngine"
  using engine_ok_new
  by (simp_all add: sim_def same_records_def restore_init_def NewEngine_def newMemProvider_def is_open_def)

text \<open>
  Fact: a planning tool that fails changes nothing: after any calls, the goals, plans and counters are
  those of before the failed call, so a failure, which leaves no fact, leaves no change either.
\<close>

theorem failed_tool_changes_nothing:
  assumes "tool_run cs NewEngine = (fs, e)" and "tool_exec now c e = (Inl x, e')"
  shows "e' = e"
  using tool_run_open [OF engine_ok_new sim_new(2) assms(1)] tool_fails [OF _ _ assms(2)] by blast



definition restore_demo :: "(go_time \<times> go_time \<times> tool_call) list" where
  "restore_demo = [(1, 1, TGoal ''Ship'' ''ship it'' 0), (2, 2, TPlan ''goal-1'' ''Build'' [''compile'']),
     (3, 3, TStatus ''todo'' ''todo-1'' StatusDone [] 0), (4, 5, TStatus ''goal'' ''goal-1'' StatusBlocked '' ci '' 1)]"


lemma failed_tool_changes_nothing_witness:
  "tool_exec 9 (TTodo ''plan-7'' ''x'' []) (snd (tool_run restore_demo NewEngine)) =
     (Inl (ErrUnknownPlan ''plan-7''), snd (tool_run restore_demo NewEngine))"
proof -
  have err: "fst (tool_exec 9 (TTodo ''plan-7'' ''x'' []) (snd (tool_run restore_demo NewEngine))) = Inl (ErrUnknownPlan ''plan-7'')"
    by code_simp
  then have "tool_exec 9 (TTodo ''plan-7'' ''x'' []) (snd (tool_run restore_demo NewEngine)) =
      (Inl (ErrUnknownPlan ''plan-7''), snd (tool_exec 9 (TTodo ''plan-7'' ''x'' []) (snd (tool_run restore_demo NewEngine))))"
    by (metis prod.collapse)
  from failed_tool_changes_nothing [OF surjective_pairing this] this show ?thesis by simp
qed

definition reblock_demo :: "(go_time \<times> go_time \<times> tool_call) list" where
  "reblock_demo = [(1, 1, TGoal ''Ship'' [] 0), (2, 2, TStatus ''goal'' ''goal-1'' StatusBlocked ''ci'' 0),
    (3, 3, TStatus ''goal'' ''goal-1'' StatusBlocked [] 0)]"

text \<open>
  Fact: the reason of a goal blocked again without a reason is lost at a restart: the live goal keeps
  the reason it was first blocked for, and the goal restored from the log has none.
\<close>

theorem reblocked_reason_lost:
  "\<exists>cs fs e s. tool_run cs NewEngine = (fs, e) \<and> restoreEvents fs = Inr s \<and>
     map_option gl_BlockedReason (goal_of e ''goal-1'') = Some ''ci'' \<and>
     map_option gl_BlockedReason (map_of (pp_goals s) ''goal-1'') = Some []"
proof -
  obtain fs e where run: "tool_run reblock_demo NewEngine = (fs, e)" by (cases "tool_run reblock_demo NewEngine")
  have "case tool_run reblock_demo NewEngine of (fs, e) \<Rightarrow> (case restoreEvents fs of Inl _ \<Rightarrow> False
      | Inr s \<Rightarrow> map_option gl_BlockedReason (goal_of e ''goal-1'') = Some ''ci'' \<and>
          map_option gl_BlockedReason (map_of (pp_goals s) ''goal-1'') = Some [])" by code_simp
  with run obtain s where "restoreEvents fs = Inr s" "map_option gl_BlockedReason (goal_of e ''goal-1'') = Some ''ci''"
    "map_option gl_BlockedReason (map_of (pp_goals s) ''goal-1'') = Some []" by (auto split: sum.splits)
  with run show ?thesis by blast
qed

end
