(* ===== verification/Goal_Driver.thy ===== *)
theory Goal_Driver
  imports Plan_Fence
begin

text \<open>
  The goal round driver, \<^verbatim>\<open>internal/goal/service.go\<close>: \<^verbatim>\<open>Driver.Run\<close> admits rounds one by
  one on the planning engine, logs the start and the end of each and calls the injected runner between
  them. What the driver is given (runner, observer, armed and disarm callbacks, the log's verdict, the
  context, the clock) are fields of the driver, each acting on an environment of any type; the plan
  engine is the model of \<^verbatim>\<open>internal/plan\<close>. The trace keeps what the driver wrote and ran.
\<close>

section \<open>The driver\<close>

datatype goal_row =
    RowStatus string Status
  | RowStart string int string
  | RowEnd string int string string

datatype drive_event = Wrote goal_row | Ran string

datatype goal_error =
    CtxCancelled | ErrNoRunner | ErrPlan plan_error | ErrUnknownRoundGoal string | ErrInvalidRound
  | ErrPersist string | ErrRun string

record 'w goal_world =
  gw_plans :: plan_engine
  gw_trace :: "drive_event list"
  gw_env :: 'w

record Result =
  rs_GoalID :: string
  rs_Rounds :: int
  rs_Status :: Status
  rs_StopReason :: string

text \<open>
  \<open>dr_poll\<close> is \<^verbatim>\<open>ctx.Err() != nil\<close> at its next look, \<open>dr_Append\<close> the verdict of the log
  (no field: no log), \<open>dr_Runner\<close> one turn, which may change the plan engine through the goal tools,
  \<open>dr_cancelText\<close> the text of a cancelled context's error, \<open>dr_quote\<close> is \<^verbatim>\<open>json.Marshal\<close> of a string.
\<close>

record 'w Driver =
  dr_Runner :: "(string \<Rightarrow> plan_engine \<times> 'w \<Rightarrow> string option \<times> plan_engine \<times> 'w) option"
  dr_Append :: "(goal_row \<Rightarrow> 'w \<Rightarrow> string option \<times> 'w) option"
  dr_Observe :: "(Goal \<Rightarrow> 'w \<Rightarrow> (string + string) \<times> 'w) option"
  dr_MaxRounds :: int
  dr_Armed :: "(Goal \<Rightarrow> 'w \<Rightarrow> bool) option"
  dr_Disarm :: "(Goal \<Rightarrow> 'w \<Rightarrow> 'w) option"
  dr_poll :: "'w \<Rightarrow> bool \<times> 'w"
  dr_cancelText :: string
  dr_now :: "'w \<Rightarrow> go_time"
  dr_quote :: "string \<Rightarrow> string"

definition DefaultMaxRounds :: int where
  "DefaultMaxRounds = 256"

definition zero_result :: Result where
  "zero_result = \<lparr>rs_GoalID = [], rs_Rounds = 0, rs_Status = OtherStatus [], rs_StopReason = []\<rparr>"

primrec status_text :: "Status \<Rightarrow> string" where
  "status_text StatusPending = ''pending''"
| "status_text StatusInProgress = ''in-progress''"
| "status_text StatusPaused = ''paused''"
| "status_text StatusBlocked = ''blocked''"
| "status_text StatusDone = ''done''"
| "status_text StatusCancelled = ''cancelled''"
| "status_text (OtherStatus s) = s"

section \<open>Steps that may return\<close>

text \<open>A part of \<^verbatim>\<open>Run\<close> either returns with a result and its joined errors or goes on.\<close>

type_synonym outcome = "Result \<times> goal_error list"
type_synonym ('w, 'a) drive = "'w goal_world \<Rightarrow> (outcome + 'a) \<times> 'w goal_world"

definition stop :: "Result \<Rightarrow> goal_error list \<Rightarrow> ('w, 'a) drive" where
  "stop r errs w = (Inl (r, errs), w)"

definition go :: "'a \<Rightarrow> ('w, 'a) drive" where
  "go x w = (Inr x, w)"

definition next_step :: "('w, 'a) drive \<Rightarrow> ('a \<Rightarrow> ('w, 'b) drive) \<Rightarrow> ('w, 'b) drive" where
  "next_step m f w = (case m w of (Inl out, w') \<Rightarrow> (Inl out, w') | (Inr x, w') \<Rightarrow> f x w')"

definition ctxErr :: "'w Driver \<Rightarrow> ('w, bool) drive" where
  "ctxErr d w = (case dr_poll d (gw_env w) of (c, v) \<Rightarrow> (Inr c, w\<lparr>gw_env := v\<rparr>))"

text \<open>A call of the plan engine with the driver's context, looked at once, or with a background one.\<close>

definition on_plans :: "'w Driver \<Rightarrow> bool \<Rightarrow> ((nat \<Rightarrow> bool) \<Rightarrow> (plan_engine, 'a) plan_op) \<Rightarrow> ('w, plan_error + 'a) drive" where
  "on_plans d background op =
     next_step (if background then go False else ctxErr d) (\<lambda>c w.
       case op (\<lambda>_. c) (gw_plans w) of (r, e) \<Rightarrow> (Inr r, w\<lparr>gw_plans := e\<rparr>))"

definition findGoal :: "'w Driver \<Rightarrow> string \<Rightarrow> ('w, goal_error + Goal) drive" where
  "findGoal d i = next_step (on_plans d False ListTree) (\<lambda>r. go
     (case r of Inl x \<Rightarrow> Inl (ErrPlan x)
      | Inr goals \<Rightarrow> (case find (\<lambda>g. gl_ID g = i) goals of None \<Rightarrow> Inl (ErrUnknownRoundGoal i) | Some g \<Rightarrow> Inr g)))"

definition append_row :: "'w Driver \<Rightarrow> goal_row \<Rightarrow> ('w, goal_error option) drive" where
  "append_row d row w =
     (case dr_Append d of
        None \<Rightarrow> (Inr None, w)
      | Some put \<Rightarrow>
          (case put row (gw_env w) of
             (None, v) \<Rightarrow> (Inr None, w\<lparr>gw_env := v, gw_trace := gw_trace w @ [Wrote row]\<rparr>)
           | (Some x, v) \<Rightarrow> (Inr (Some (ErrPersist x)), w\<lparr>gw_env := v\<rparr>)))"

definition appendStart :: "'w Driver \<Rightarrow> string \<Rightarrow> int \<Rightarrow> string \<Rightarrow> ('w, goal_error option) drive" where
  "appendStart d i n prompt = append_row d (RowStart i n prompt)"

definition appendEnd :: "'w Driver \<Rightarrow> string \<Rightarrow> int \<Rightarrow> string \<Rightarrow> string \<Rightarrow> ('w, goal_error option) drive" where
  "appendEnd d i n status errText = append_row d (RowEnd i n status errText)"

definition setStatus :: "'w Driver \<Rightarrow> bool \<Rightarrow> string \<Rightarrow> Status \<Rightarrow> ('w, goal_error option) drive" where
  "setStatus d background i st =
     next_step (\<lambda>w. on_plans d background (\<lambda>ctx. SetStatus ctx (dr_now d (gw_env w)) ''goal'' i st) w) (\<lambda>r.
       case r of Inl x \<Rightarrow> go (Some (ErrPlan x)) | Inr _ \<Rightarrow> append_row d (RowStatus i st))"

definition disarm :: "'w Driver \<Rightarrow> Goal \<Rightarrow> ('w, unit) drive" where
  "disarm d g w = (case dr_Disarm d of None \<Rightarrow> (Inr (), w) | Some f \<Rightarrow> (Inr (), w\<lparr>gw_env := f g (gw_env w)\<rparr>))"

definition armed :: "'w Driver \<Rightarrow> Goal \<Rightarrow> ('w, bool) drive" where
  "armed d g w = (Inr (case dr_Armed d of None \<Rightarrow> True | Some f \<Rightarrow> f g (gw_env w)), w)"

definition runner :: "'w Driver \<Rightarrow> string \<Rightarrow> ('w, string option) drive" where
  "runner d prompt w =
     (case dr_Runner d of
        None \<Rightarrow> (Inl (zero_result, [ErrNoRunner]), w)
      | Some run \<Rightarrow>
          (case run prompt (gw_plans w, gw_env w) of
             (r, e, v) \<Rightarrow> (Inr r, w\<lparr>gw_plans := e, gw_env := v, gw_trace := gw_trace w @ [Ran prompt]\<rparr>)))"

definition show_int :: "int \<Rightarrow> string" where
  "show_int n = (if n < 0 then ''-'' @ itoa (nat (- n)) else itoa (nat n))"

definition round_text :: string where
  "round_text = ''Continue working toward the objective in this same session. Treat the current workspace, tool results, and durable session state as authoritative; inspect them instead of assuming earlier narration is still current. Make concrete progress and verify the result. Before claiming completion, gather evidence that the whole objective is achieved, read the current goal, and mark it complete. If work remains, leave the goal active for the next round. Follow the configured goal-tool policy before reporting a blocker.''"

definition newline :: string where
  "newline = [CHR 0x0A]"

definition renderPrompt :: "'w Driver \<Rightarrow> Goal \<Rightarrow> int \<Rightarrow> int \<Rightarrow> ('w, string) drive" where
  "renderPrompt d g n mx w =
     (let head = ''<goal_round>'' @ newline @ ''Objective: '' @ dr_quote d (gl_Objective g) @ newline @
            ''Round: '' @ show_int n @ ''/'' @ show_int mx @ newline @ newline @ round_text @ newline;
          tail = ''</goal_round>''
      in case dr_Observe d of
           None \<Rightarrow> (Inr (head @ tail), w)
         | Some obs \<Rightarrow>
             (case obs g (gw_env w) of (r, v) \<Rightarrow>
                let state = (case r of Inl x \<Rightarrow> ''progress observer unavailable: '' @ x | Inr x \<Rightarrow> x)
                in (Inr (head @ (if state = [] then [] else ''Observed progress:'' @ newline @ state @ newline) @ tail),
                    w\<lparr>gw_env := v\<rparr>)))"

section \<open>Run\<close>

definition stopped :: "Status \<Rightarrow> bool" where
  "stopped st \<longleftrightarrow> st = StatusDone \<or> st = StatusBlocked \<or> st = StatusCancelled \<or> st = StatusPaused"

definition stop_reason :: "Status \<Rightarrow> string" where
  "stop_reason st = (if st = StatusDone then ''completed'' else status_text st)"

definition result :: "string \<Rightarrow> int \<Rightarrow> Status \<Rightarrow> string \<Rightarrow> Result" where
  "result i n st reason = \<lparr>rs_GoalID = i, rs_Rounds = n, rs_Status = st, rs_StopReason = reason\<rparr>"

definition opt_errs :: "goal_error option \<Rightarrow> goal_error list" where
  "opt_errs x = (case x of None \<Rightarrow> [] | Some e \<Rightarrow> [e])"

text \<open>\<^verbatim>\<open>findGoal\<close> with the return of its error.\<close>

definition found :: "'w Driver \<Rightarrow> string \<Rightarrow> ('w, Goal) drive" where
  "found d i = next_step (findGoal d i) (\<lambda>r. case r of Inl x \<Rightarrow> stop zero_result [x] | Inr g \<Rightarrow> go g)"

text \<open>The pause written when the context is cancelled, and the end of the round it interrupts.\<close>

definition cancel_run :: "'w Driver \<Rightarrow> Goal \<Rightarrow> int \<Rightarrow> int \<Rightarrow> ('w, 'a) drive" where
  "cancel_run d g n started =
     next_step (setStatus d True (gl_ID g) StatusPaused) (\<lambda>x.
     next_step (appendEnd d (gl_ID g) n ''cancelled'' (dr_cancelText d)) (\<lambda>y.
       stop (result (gl_ID g) started StatusPaused ''cancelled'') (CtxCancelled # opt_errs x @ opt_errs y)))"

text \<open>After a turn of the runner: its failure, or the reading of the goal it left.\<close>

definition failed_turn :: "'w Driver \<Rightarrow> Goal \<Rightarrow> int \<Rightarrow> string \<Rightarrow> ('w, 'a) drive" where
  "failed_turn d g started why =
     next_step (disarm d g) (\<lambda>_.
     next_step (ctxErr d) (\<lambda>c.
       if c then cancel_run d g (gl_RoundsStarted g) started
       else next_step (appendEnd d (gl_ID g) (gl_RoundsStarted g) ''error'' why) (\<lambda>y.
              stop (result (gl_ID g) started StatusInProgress ''error'') (ErrRun why # opt_errs y))))"

definition ended_turn :: "'w Driver \<Rightarrow> string \<Rightarrow> int \<Rightarrow> int \<Rightarrow> ('w, Goal) drive" where
  "ended_turn d i n started =
     next_step (found d i) (\<lambda>g.
     next_step (appendEnd d (gl_ID g) n (status_text (gl_Status g)) []) (\<lambda>y.
       if y \<noteq> None then stop (result (gl_ID g) started (gl_Status g) ''error'') (opt_errs y)
       else if stopped (gl_Status g)
       then stop (result (gl_ID g) started (gl_Status g) (stop_reason (gl_Status g))) []
       else go g))"

text \<open>An admitted round: its start row, the turn and what follows it.\<close>

definition admitted_round :: "'w Driver \<Rightarrow> string \<Rightarrow> int \<Rightarrow> int \<Rightarrow> Goal \<Rightarrow> ('w, Goal) drive" where
  "admitted_round d i mx started g =
     next_step (renderPrompt d g (gl_RoundsStarted g) mx) (\<lambda>prompt.
     next_step (appendStart d (gl_ID g) (gl_RoundsStarted g) prompt) (\<lambda>x.
       if x \<noteq> None then next_step (disarm d g) (\<lambda>_. stop (result (gl_ID g) started (gl_Status g) ''error'') (opt_errs x))
       else
     next_step (runner d prompt) (\<lambda>failure.
       case failure of
         Some why \<Rightarrow> failed_turn d g (started + 1) why
       | None \<Rightarrow> ended_turn d i (gl_RoundsStarted g) (started + 1))))"

text \<open>One turn of the loop, to its end or to the return it takes.\<close>

definition run_round :: "'w Driver \<Rightarrow> string \<Rightarrow> int \<Rightarrow> int \<Rightarrow> Goal \<Rightarrow> ('w, Goal) drive" where
  "run_round d i mx started g =
     next_step (ctxErr d) (\<lambda>c.
       if c then next_step (disarm d g) (\<lambda>_. cancel_run d g (gl_RoundsStarted g) started)
       else
     next_step (found d i) (\<lambda>g.
       if stopped (gl_Status g)
       then stop (result (gl_ID g) started (gl_Status g) (stop_reason (gl_Status g))) []
       else
     next_step (armed d g) (\<lambda>a.
       if \<not> a then stop (result (gl_ID g) started (gl_Status g) ''disarmed'') []
       else
     next_step (on_plans d False (\<lambda>ctx. StartGoalRound ctx (gl_ID g))) (\<lambda>r.
       case r of Inl x \<Rightarrow> stop zero_result [ErrPlan x] | Inr g \<Rightarrow> admitted_round d i mx started g))))"

text \<open>The loop; its first argument is \<^verbatim>\<open>remaining - started\<close>.\<close>

primrec round_loop :: "nat \<Rightarrow> 'w Driver \<Rightarrow> string \<Rightarrow> int \<Rightarrow> int \<Rightarrow> Goal \<Rightarrow> ('w, unit) drive" where
  "round_loop 0 d i mx started g =
     next_step (disarm d g) (\<lambda>_.
     next_step (appendEnd d (gl_ID g) (gl_RoundsStarted g) ''round-limit'' []) (\<lambda>y.
       if y \<noteq> None then stop (result (gl_ID g) started (gl_Status g) ''error'') (opt_errs y)
       else stop (result (gl_ID g) started (gl_Status g) ''round-limit'') []))"
| "round_loop (Suc n) d i mx started g =
     next_step (run_round d i mx started g) (\<lambda>g. round_loop n d i mx (started + 1) g)"

definition round_cap :: "'w Driver \<Rightarrow> Goal \<Rightarrow> int" where
  "round_cap d g =
     (let mx = dr_MaxRounds d;
          mx = (if mx \<le> 0 then gl_MaxRounds g else mx)
      in if mx \<le> 0 then DefaultMaxRounds else mx)"

text \<open>The run of an active goal, and \<^verbatim>\<open>Run\<close> with the returns before it.\<close>

definition run_active :: "'w Driver \<Rightarrow> string \<Rightarrow> Goal \<Rightarrow> ('w, unit) drive" where
  "run_active d i g =
     (if round_cap d g < 1 then stop zero_result [ErrInvalidRound]
      else if round_cap d g \<le> gl_RoundsStarted g
      then next_step (disarm d g) (\<lambda>_. stop (result (gl_ID g) 0 (gl_Status g) ''round-limit'') [])
      else
     next_step (if gl_Status g = StatusPending then setStatus d False (gl_ID g) StatusInProgress else go None) (\<lambda>x.
       if x \<noteq> None then stop zero_result (opt_errs x)
       else round_loop (nat (round_cap d g - gl_RoundsStarted g)) d i (round_cap d g) 0 g))"

definition run_drive :: "'w Driver \<Rightarrow> string \<Rightarrow> ('w, unit) drive" where
  "run_drive d i =
     next_step (ctxErr d) (\<lambda>c.
       if c then stop zero_result [CtxCancelled]
       else if dr_Runner d = None then stop zero_result [ErrNoRunner]
       else
     next_step (found d i) (\<lambda>g.
       if stopped (gl_Status g) then stop (result (gl_ID g) 0 (gl_Status g) (stop_reason (gl_Status g))) []
       else
     next_step (armed d g) (\<lambda>a.
       if \<not> a then stop (result (gl_ID g) 0 (gl_Status g) ''disarmed'') []
       else run_active d i g)))"

text \<open>\<^verbatim>\<open>Run\<close> always returns: the last case does not arise.\<close>

definition Run :: "'w Driver \<Rightarrow> string \<Rightarrow> 'w goal_world \<Rightarrow> outcome \<times> 'w goal_world" where
  "Run d i w = (case run_drive d i w of (Inl out, w') \<Rightarrow> (out, w') | (Inr _, w') \<Rightarrow> ((zero_result, []), w'))"

end
