(* ===== verification/Goal_Rounds.thy ===== *)
theory Goal_Rounds
  imports Goal_Driver
begin

text \<open>
  What \<^verbatim>\<open>Driver.Run\<close> guarantees: every turn of the runner stands between the start and the end
  row of its round, the turns are bounded by the rounds the goal has left, and \<^verbatim>\<open>completed\<close> is
  reported of a stored goal that is done.
\<close>

section \<open>Weakest preconditions of the driver's steps\<close>

definition after :: "('w, 'a) drive \<Rightarrow> 'w goal_world \<Rightarrow> (outcome + 'a \<Rightarrow> 'w goal_world \<Rightarrow> bool) \<Rightarrow> bool" where
  "after m w Q \<longleftrightarrow> Q (fst (m w)) (snd (m w))"

named_theorems after_rules

lemma after_stop [simp]: "after (stop r errs) w Q = Q (Inl (r, errs)) w"
  by (simp add: after_def stop_def)

lemma after_go [simp]: "after (go x) w Q = Q (Inr x) w"
  by (simp add: after_def go_def)

lemma after_next [simp]:
  "after (next_step m f) w Q = after m w (\<lambda>r w'. case r of Inl out \<Rightarrow> Q (Inl out) w' | Inr x \<Rightarrow> after (f x) w' Q)"
  by (cases "m w") (auto simp: after_def next_step_def split: sum.splits)

lemma after_mono: "after m w P \<Longrightarrow> (\<And>r w'. P r w' \<Longrightarrow> Q r w') \<Longrightarrow> after m w Q"
  by (simp add: after_def)

text \<open>Steps that write nothing and leave the plan engine.\<close>

definition quiet :: "'w goal_world \<Rightarrow> 'w goal_world \<Rightarrow> bool" where
  "quiet w w' \<longleftrightarrow> gw_trace w' = gw_trace w \<and> gw_plans w' = gw_plans w"

lemma quiet_refl [simp]: "quiet w w"
  by (simp add: quiet_def)

lemma after_ctxErr: "(\<And>c w'. quiet w w' \<Longrightarrow> Q (Inr c) w') \<Longrightarrow> after (ctxErr d) w Q"
  by (auto simp: after_def ctxErr_def quiet_def split: prod.splits)

lemma after_disarm: "(\<And>w'. quiet w w' \<Longrightarrow> Q (Inr ()) w') \<Longrightarrow> after (disarm d g) w Q"
  by (auto simp: after_def disarm_def quiet_def split: option.splits)

lemma after_armed: "(\<And>a. Q (Inr a) w) \<Longrightarrow> after (armed d g) w Q"
  by (simp add: after_def armed_def)

lemma after_render: "(\<And>p w'. quiet w w' \<Longrightarrow> Q (Inr p) w') \<Longrightarrow> after (renderPrompt d g n mx) w Q"
  by (auto simp: after_def renderPrompt_def quiet_def Let_def split: option.splits prod.splits)

lemma after_plans:
  assumes "\<And>c r e w'. op (\<lambda>_. c) (gw_plans w) = (r, e) \<Longrightarrow> gw_trace w' = gw_trace w \<Longrightarrow> gw_plans w' = e \<Longrightarrow> Q (Inr r) w'"
  shows "after (on_plans d b op) w Q"
proof -
  have "after (\<lambda>w. case op (\<lambda>_. c) (gw_plans w) of (r, e) \<Rightarrow> (Inr r, w\<lparr>gw_plans := e\<rparr>)) w' Q" if "quiet w w'" for c w'
    using that assms [of c] by (auto simp: after_def quiet_def split: prod.splits)
  then show ?thesis by (auto simp: on_plans_def intro!: after_ctxErr)
qed

lemma ListTree_quiet:
  assumes "ListTree (\<lambda>_. c) e = (r, e')"
  shows "e' = e" and "r = Inr goals \<Longrightarrow> goals = sort_key gl_ID (vals (mp_goals (en_prov e)))"
  using assms
  by (auto simp: ListTree_def and_then_def enter_def checkOpen_def on_prov_def ListGoals_def provider_open_def guard_op_cases
      split: if_splits)

definition stored :: "plan_engine \<Rightarrow> string \<Rightarrow> Goal \<Rightarrow> bool" where
  "stored e i g \<longleftrightarrow> g \<in> set (vals (mp_goals (en_prov e))) \<and> gl_ID g = i"

lemma find_stored: "find (\<lambda>g. gl_ID g = i) gs = Some g \<Longrightarrow> g \<in> set gs \<and> gl_ID g = i"
  by (induction gs) (auto split: if_splits)

lemma after_found:
  assumes "\<And>g w'. quiet w w' \<Longrightarrow> stored (gw_plans w) i g \<Longrightarrow> Q (Inr g) w'"
    and "\<And>x w'. quiet w w' \<Longrightarrow> Q (Inl (zero_result, [x])) w'"
  shows "after (found d i) w Q"
proof -
  have "after (on_plans d False ListTree) w (\<lambda>r w'. case r of Inl out \<Rightarrow> Q (Inl out) w'
      | Inr r \<Rightarrow> quiet w w' \<and> (case r of Inl x \<Rightarrow> True | Inr goals \<Rightarrow> set goals = set (vals (mp_goals (en_prov (gw_plans w))))))"
  proof (rule after_plans, goal_cases)
    case (1 c r e w')
    then show ?case using ListTree_quiet [OF 1(1)] by (cases r) (simp_all add: quiet_def)
  qed
  then have "after (findGoal d i) w (\<lambda>r w'. case r of Inl out \<Rightarrow> Q (Inl out) w'
      | Inr r \<Rightarrow> quiet w w' \<and> (case r of Inl x \<Rightarrow> True | Inr g \<Rightarrow> stored (gw_plans w) i g))"
    unfolding findGoal_def after_next
  proof (rule after_mono, goal_cases)
    case (1 r w')
    show ?case
    proof (cases r)
      case (Inr q)
      show ?thesis
      proof (cases q)
        case (Inl x)
        then show ?thesis using 1 Inr by simp
      next
        case (Inr goals)
        then have "quiet w w'" "set goals = set (vals (mp_goals (en_prov (gw_plans w))))" using 1 \<open>r = Inr q\<close> by simp_all
        then show ?thesis
          using Inr \<open>r = Inr q\<close> find_stored [of i goals]
          by (cases "find (\<lambda>g. gl_ID g = i) goals") (simp_all add: stored_def)
      qed
    qed (use 1 in simp)
  qed
  then show ?thesis
    unfolding found_def after_next by (rule after_mono) (auto simp: assms split: sum.splits)
qed


text \<open>Rows are written when the log takes them.\<close>

lemma after_append:
  assumes "\<And>w'. gw_plans w' = gw_plans w \<Longrightarrow> gw_trace w' = gw_trace w @ [Wrote row] \<Longrightarrow> Q (Inr None) w'"
    and "\<And>x w'. quiet w w' \<Longrightarrow> Q (Inr (Some x)) w'" and "dr_Append d = None \<Longrightarrow> Q (Inr None) w"
  shows "after (append_row d row) w Q"
  using assms by (auto simp: after_def append_row_def quiet_def split: option.splits prod.splits)

lemma after_runner:
  assumes "\<And>f r w'. dr_Runner d = Some f \<Longrightarrow> gw_trace w' = gw_trace w @ [Ran prompt] \<Longrightarrow> Q (Inr r) w'"
    and "dr_Runner d = None \<Longrightarrow> Q (Inl (zero_result, [ErrNoRunner])) w"
  shows "after (runner d prompt) w Q"
  using assms by (auto simp: after_def runner_def split: option.splits prod.splits)

lemma after_setStatus:
  assumes "\<And>x w'. gw_trace w' = gw_trace w \<or> gw_trace w' = gw_trace w @ [Wrote (RowStatus i st)] \<Longrightarrow> Q (Inr x) w'"
  shows "after (setStatus d b i st) w Q"
proof -
  have "after (\<lambda>w. on_plans d b (\<lambda>ctx. SetStatus ctx (dr_now d (gw_env w)) ''goal'' i st) w) w
      (\<lambda>r w'. \<exists>x. r = Inr x \<and> gw_trace w' = gw_trace w)"
    by (simp add: after_def [where m = "\<lambda>w. on_plans d b (\<lambda>ctx. SetStatus ctx (dr_now d (gw_env w)) ''goal'' i st) w"])
      (rule after_plans [unfolded after_def], auto)
  then show ?thesis
    unfolding setStatus_def after_next
    by (rule after_mono) (auto simp: quiet_def intro!: after_append assms split: sum.splits)
qed

section \<open>Rounds in the trace\<close>

text \<open>Between rounds, after a start row, and after the turn of the runner with the number of its round.\<close>

datatype round_phase = Between | Announced int string | Running int

fun round_step :: "round_phase \<Rightarrow> drive_event \<Rightarrow> round_phase option" where
  "round_step Between (Wrote (RowStatus i st)) = Some Between"
| "round_step Between (Wrote (RowEnd i n st t)) = Some Between"
| "round_step Between (Wrote (RowStart i n p)) = Some (Announced n p)"
| "round_step (Announced n p) (Ran q) = (if p = q then Some (Running n) else None)"
| "round_step (Running n) (Wrote (RowStatus i st)) = Some (Running n)"
| "round_step (Running n) (Wrote (RowEnd i m st t)) = (if m = n then Some Between else None)"
| "round_step _ _ = None"

definition round_phases :: "round_phase \<Rightarrow> drive_event list \<Rightarrow> round_phase option" where
  "round_phases s es = fold (\<lambda>e r. Option.bind r (\<lambda>s. round_step s e)) es (Some s)"

lemma round_phases_simps [simp]:
  "round_phases s [] = Some s" "round_phases s (es @ fs) = Option.bind (round_phases s es) (\<lambda>s. round_phases s fs)"
proof -
  show "round_phases s [] = Some s" by (simp add: round_phases_def)
  have none: "fold (\<lambda>e r. Option.bind r (\<lambda>s. round_step s e)) es None = None" for es by (induction es) auto
  show "round_phases s (es @ fs) = Option.bind (round_phases s es) (\<lambda>s. round_phases s fs)"
    by (cases "fold (\<lambda>e r. Option.bind r (\<lambda>s. round_step s e)) es (Some s)") (simp_all add: round_phases_def none)
qed

lemma round_phases_one [simp]: "round_phases s [e] = round_step s e"
  by (simp add: round_phases_def)

definition turns :: "drive_event list \<Rightarrow> nat" where
  "turns es = length (filter (\<lambda>e. case e of Ran _ \<Rightarrow> True | Wrote _ \<Rightarrow> False) es)"

lemma turns_simps [simp]: "turns [] = 0" "turns (es @ fs) = turns es + turns fs" "turns [Ran p] = 1" "turns [Wrote r] = 0"
  by (simp_all add: turns_def)

text \<open>The trace of \<open>w'\<close> since \<open>w0\<close>: in phase \<open>s\<close>, with \<open>n\<close> turns.\<close>

definition drove :: "'w Driver \<Rightarrow> drive_event list \<Rightarrow> round_phase \<Rightarrow> nat \<Rightarrow> 'w goal_world \<Rightarrow> bool" where
  "drove d t0 s n w \<longleftrightarrow> (\<exists>es. gw_trace w = t0 @ es \<and> turns es = n \<and>
     (dr_Append d \<noteq> None \<longrightarrow> round_phases Between es = Some s))"

lemma drove_start: "drove d (gw_trace w) Between 0 w"
  by (simp add: drove_def)

lemma drove_quiet: "drove d t0 s n w \<Longrightarrow> gw_trace w' = gw_trace w \<Longrightarrow> drove d t0 s n w'"
  by (simp add: drove_def)

lemma drove_row:
  assumes "drove d t0 s n w" and "gw_trace w' = gw_trace w @ [Wrote row]" and "round_step s (Wrote row) = Some s'"
  shows "drove d t0 s' n w'"
proof -
  from assms(1) obtain es where "gw_trace w = t0 @ es" "turns es = n"
    "dr_Append d \<noteq> None \<longrightarrow> round_phases Between es = Some s" by (auto simp: drove_def)
  then show ?thesis using assms(2,3) by (auto simp: drove_def intro!: exI [of _ "es @ [Wrote row]"])
qed

lemma drove_ran:
  assumes "drove d t0 s n w" and "gw_trace w' = gw_trace w @ [Ran p]"
    and "dr_Append d \<noteq> None \<Longrightarrow> round_step s (Ran p) = Some s'"
  shows "drove d t0 s' (n + 1) w'"
proof -
  from assms(1) obtain es where "gw_trace w = t0 @ es" "turns es = n"
    "dr_Append d \<noteq> None \<longrightarrow> round_phases Between es = Some s" by (auto simp: drove_def)
  then show ?thesis using assms(2,3) by (auto simp: drove_def intro!: exI [of _ "es @ [Ran p]"])
qed


section \<open>The run\<close>

text \<open>What a return of the driver promises, with at most \<open>b\<close> turns so far.\<close>

definition finished :: "'w Driver \<Rightarrow> drive_event list \<Rightarrow> string \<Rightarrow> nat \<Rightarrow> outcome \<Rightarrow> 'w goal_world \<Rightarrow> bool" where
  "finished d t0 i b out w \<longleftrightarrow>
     (\<exists>s k. drove d t0 s k w \<and> k \<le> b \<and> (rs_StopReason (fst out) \<noteq> [] \<longrightarrow> rs_Rounds (fst out) = int k)) \<and>
     (rs_StopReason (fst out) = ''completed'' \<longrightarrow> (\<exists>g. stored (gw_plans w) i g \<and> gl_Status g = StatusDone))"

lemma finished_intro:
  assumes "drove d t0 s k w" and "k \<le> b" and "rs_StopReason r \<noteq> [] \<Longrightarrow> rs_Rounds r = int k"
    and "rs_StopReason r = ''completed'' \<Longrightarrow> \<exists>g. stored (gw_plans w) i g \<and> gl_Status g = StatusDone"
  shows "finished d t0 i b (r, errs) w"
  using assms by (auto simp: finished_def)

lemma bind_ctxErr:
  assumes w: "drove d t0 s n w" and f: "\<And>c w'. drove d t0 s n w' \<Longrightarrow> after (f c) w' Q"
  shows "after (next_step (ctxErr d) f) w Q"
  unfolding after_next by (rule after_ctxErr) (simp add: f drove_quiet [OF w] quiet_def)

lemma bind_disarm:
  assumes w: "drove d t0 s n w" and f: "\<And>w'. drove d t0 s n w' \<Longrightarrow> after (f ()) w' Q"
  shows "after (next_step (disarm d g) f) w Q"
  unfolding after_next by (rule after_disarm) (simp add: f drove_quiet [OF w] quiet_def)

lemma bind_armed:
  "(\<And>a. after (f a) w Q) \<Longrightarrow> after (next_step (armed d g) f) w Q"
  by (auto intro!: after_armed)

lemma bind_render:
  assumes w: "drove d t0 s n w" and f: "\<And>p w'. drove d t0 s n w' \<Longrightarrow> after (f p) w' Q"
  shows "after (next_step (renderPrompt d g m mx) f) w Q"
  unfolding after_next by (rule after_render) (simp add: f drove_quiet [OF w] quiet_def)

lemma bind_plans:
  assumes w: "drove d t0 s n w" and f: "\<And>r w'. drove d t0 s n w' \<Longrightarrow> after (f r) w' Q"
  shows "after (next_step (on_plans d b op) f) w Q"
  unfolding after_next by (rule after_plans) (simp add: f drove_quiet [OF w] quiet_def)

lemma bind_found:
  assumes "drove d t0 s n w" and "\<And>g w'. drove d t0 s n w' \<Longrightarrow> stored (gw_plans w') i g \<Longrightarrow> after (f g) w' Q"
    and "\<And>x w'. drove d t0 s n w' \<Longrightarrow> Q (Inl (zero_result, [x])) w'"
  shows "after (next_step (found d i) f) w Q"
  unfolding after_next
proof (rule after_found, goal_cases)
  case (1 g w')
  then show ?case using assms(2) [of w' g] drove_quiet [OF assms(1), of w'] by (simp add: quiet_def)
next
  case (2 x w')
  then show ?case using assms(3) [of w' x] drove_quiet [OF assms(1), of w'] by (simp add: quiet_def)
qed

lemma bind_append:
  assumes "drove d t0 s n w"
    and "\<And>w' s'. drove d t0 s' n w' \<Longrightarrow> gw_plans w' = gw_plans w \<Longrightarrow> round_step s (Wrote row) = Some s' \<Longrightarrow> after (f None) w' Q"
    and "\<And>x w'. drove d t0 s n w' \<Longrightarrow> gw_plans w' = gw_plans w \<Longrightarrow> after (f (Some x)) w' Q"
    and "round_step s (Wrote row) = Some s1"
  shows "after (next_step (append_row d row) f) w Q"
  unfolding after_next
proof (rule after_append, goal_cases)
  case (1 w')
  then have "drove d t0 s1 n w'" using drove_row [OF assms(1) _ assms(4)] by blast
  then show ?case using assms(2) [OF _ 1(1) assms(4)] by simp
next
  case (2 x w')
  then show ?case using assms(3) drove_quiet [OF assms(1), of w'] by (simp add: quiet_def)
next
  case 3
  then have "drove d t0 s1 n w" using assms(1) by (simp add: drove_def)
  then show ?case using assms(2,4) by simp
qed

lemma bind_setStatus:
  assumes "drove d t0 s n w" and "\<And>x w'. drove d t0 s n w' \<Longrightarrow> after (f x) w' Q"
    and "round_step s (Wrote (RowStatus i st)) = Some s"
  shows "after (next_step (setStatus d b i st) f) w Q"
  unfolding after_next
proof (rule after_setStatus, goal_cases)
  case (1 x w')
  then have "drove d t0 s n w'" using drove_quiet [OF assms(1)] drove_row [OF assms(1) _ assms(3)] by blast
  then show ?case using assms(2) by simp
qed

lemma bind_runner:
  assumes "drove d t0 s n w" and "dr_Append d \<noteq> None \<Longrightarrow> round_step s (Ran p) = Some s'"
    and "\<And>r w'. drove d t0 s' (n + 1) w' \<Longrightarrow> after (f r) w' Q" and "dr_Runner d \<noteq> None"
  shows "after (next_step (runner d p) f) w Q"
  unfolding after_next
proof (rule after_runner, goal_cases)
  case (1 g r w')
  then have "drove d t0 s' (n + 1) w'" using drove_ran [OF assms(1) _ assms(2)] by blast
  then show ?case using assms(3) by simp
qed (use assms(4) in simp)

lemma cancel_finished:
  assumes w: "drove d t0 s n w" and s: "s = Between \<or> s = Running m" and b: "n \<le> b"
  shows "after (cancel_run d g m (int n)) w (\<lambda>r w'. \<exists>out. r = Inl out \<and> finished d t0 i b out w')"
  unfolding cancel_run_def appendEnd_def
proof (rule bind_setStatus [OF w])
  show "round_step s (Wrote (RowStatus (gl_ID g) StatusPaused)) = Some s" using s by auto
  fix x w1 assume w1: "drove d t0 s n w1"
  show "after (next_step (append_row d (RowEnd (gl_ID g) m ''cancelled'' (dr_cancelText d)))
      (\<lambda>y. stop (result (gl_ID g) (int n) StatusPaused ''cancelled'') (CtxCancelled # opt_errs x @ opt_errs y))) w1
      (\<lambda>r w'. \<exists>out. r = Inl out \<and> finished d t0 i b out w')"
    by (rule bind_append [OF w1, where ?s1.0 = Between]) (use s b in \<open>auto intro!: finished_intro simp: result_def\<close>)
qed

lemma stop_reason_completed: "stopped st \<Longrightarrow> stop_reason st = ''completed'' \<longleftrightarrow> st = StatusDone"
  by (auto simp: stopped_def stop_reason_def)


text \<open>One turn of the loop: it goes on after one more turn, between two rounds, or it returns.\<close>

definition round_done :: "'w Driver \<Rightarrow> drive_event list \<Rightarrow> string \<Rightarrow> nat \<Rightarrow> nat \<Rightarrow> outcome + Goal \<Rightarrow> 'w goal_world \<Rightarrow> bool" where
  "round_done d t0 i n b r w \<longleftrightarrow> (case r of Inl out \<Rightarrow> finished d t0 i b out w | Inr _ \<Rightarrow> drove d t0 Between (n + 1) w)"

lemma returned [simp]: "round_done d t0 i n b (Inl out) w = finished d t0 i b out w"
  by (simp add: round_done_def)

lemma cancel_done:
  assumes "drove d t0 s n w" and "s = Between \<or> s = Running m" and "n \<le> b"
  shows "after (cancel_run d g m (int n)) w (round_done d t0 i k b)"
  by (rule after_mono [OF cancel_finished [OF assms]]) auto

lemma ended_done:
  assumes w: "drove d t0 (Running m) (n + 1) w" and b: "n + 1 \<le> b"
  shows "after (ended_turn d i m (int n + 1)) w (round_done d t0 i n b)"
  unfolding ended_turn_def appendEnd_def
proof (rule bind_found [OF w], goal_cases)
  case (1 g' w1)
  then show ?case
    by (intro bind_append [OF 1(1), where ?s1.0 = Between])
      (use b in \<open>auto simp: result_def round_done_def stop_reason_completed intro!: finished_intro\<close>)
next
  case (2 x w1)
  then show ?case using b by (auto intro!: finished_intro simp: zero_result_def)
qed

lemma failed_done:
  assumes w: "drove d t0 (Running (gl_RoundsStarted g)) (n + 1) w" and b: "n + 1 \<le> b"
  shows "after (failed_turn d g (int n + 1) why) w (round_done d t0 i n b)"
  unfolding failed_turn_def appendEnd_def
proof (rule bind_disarm [OF w], rule bind_ctxErr, assumption)
  fix c and w1 :: "'a goal_world" assume w1: "drove d t0 (Running (gl_RoundsStarted g)) (n + 1) w1"
  show "after (if c then cancel_run d g (gl_RoundsStarted g) (int n + 1)
       else next_step (append_row d (RowEnd (gl_ID g) (gl_RoundsStarted g) ''error'' why)) (\<lambda>y.
              stop (result (gl_ID g) (int n + 1) StatusInProgress ''error'') (ErrRun why # opt_errs y))) w1
     (round_done d t0 i n b)"
  proof (cases c)
    case True
    then show ?thesis using cancel_done [OF w1 _ b, of "gl_RoundsStarted g" g] by (simp add: add.commute)
  next
    case False
    show ?thesis
      unfolding if_not_P [OF False]
      by (rule bind_append [OF w1, where ?s1.0 = Between]) (use b in \<open>auto simp: result_def intro!: finished_intro\<close>)
  qed
qed

lemma admitted_done:
  assumes w: "drove d t0 Between n w" and b: "n + 1 \<le> b" and run: "dr_Runner d \<noteq> None"
  shows "after (admitted_round d i mx (int n) g) w (round_done d t0 i n b)"
  unfolding admitted_round_def appendStart_def
proof (rule bind_render [OF w], rule bind_append, assumption, goal_cases)
  case (1 p w1 w2 s)
  then have s: "s = Announced (gl_RoundsStarted g) p" by simp
  show ?case
    by (simp del: after_next, rule bind_runner [OF 1(2) _ _ run, where s' = "Running (gl_RoundsStarted g)"])
      (use s b in \<open>auto simp: ended_done failed_done simp del: after_next split: option.split\<close>)
next
  case (2 p w1 x w2)
  then show ?case
    by (simp del: after_next) (rule bind_disarm [OF 2(2)], use b in \<open>auto simp: result_def intro!: finished_intro\<close>)
qed simp

lemma run_round_done:
  assumes w: "drove d t0 Between n w" and b: "n + 1 \<le> b" and run: "dr_Runner d \<noteq> None"
  shows "after (run_round d i mx (int n) g) w (round_done d t0 i n b)"
  unfolding run_round_def
proof (rule bind_ctxErr [OF w])
  fix c and w1 :: "'a goal_world" assume w1: "drove d t0 Between n w1"
  let ?started = "\<lambda>g. next_step (on_plans d False (\<lambda>ctx. StartGoalRound ctx (gl_ID g))) (\<lambda>r.
       case r of Inl x \<Rightarrow> stop zero_result [ErrPlan x] | Inr g \<Rightarrow> admitted_round d i mx (int n) g)"
  have started: "after (?started g) w2 (round_done d t0 i n b)" if "drove d t0 Between n w2" for g and w2 :: "'a goal_world"
    by (rule bind_plans [OF that])
      (use b run in \<open>auto simp: admitted_done zero_result_def simp del: after_next intro!: finished_intro split: sum.split\<close>)
  show "after (if c then next_step (disarm d g) (\<lambda>_. cancel_run d g (gl_RoundsStarted g) (int n))
       else next_step (found d i) (\<lambda>g.
       if stopped (gl_Status g) then stop (result (gl_ID g) (int n) (gl_Status g) (stop_reason (gl_Status g))) []
       else next_step (armed d g) (\<lambda>a.
       if \<not> a then stop (result (gl_ID g) (int n) (gl_Status g) ''disarmed'') [] else ?started g))) w1
     (round_done d t0 i n b)"
  proof (cases c)
    case True
    show ?thesis
      unfolding if_P [OF True] by (rule bind_disarm [OF w1]) (use b in \<open>auto intro: cancel_done simp del: after_next\<close>)
  next
    case False
    show ?thesis
      unfolding if_not_P [OF False]
    proof (rule bind_found [OF w1], goal_cases)
      case (1 g w2)
      show ?case
      proof (cases "stopped (gl_Status g)")
        case True
        then show ?thesis using 1 b by (auto simp: result_def stop_reason_completed intro!: finished_intro)
      next
        case False
        show ?thesis
          unfolding if_not_P [OF False]
          by (rule bind_armed) (use 1 b started in \<open>auto simp: result_def simp del: after_next intro!: finished_intro\<close>)
      qed
    qed (use b in \<open>auto intro!: finished_intro simp: zero_result_def\<close>)
  qed
qed


definition returns :: "'w Driver \<Rightarrow> drive_event list \<Rightarrow> string \<Rightarrow> nat \<Rightarrow> outcome + 'a \<Rightarrow> 'w goal_world \<Rightarrow> bool" where
  "returns d t0 i b r w \<longleftrightarrow> (case r of Inl out \<Rightarrow> finished d t0 i b out w | Inr _ \<Rightarrow> False)"

lemma returns_Inl [simp]: "returns d t0 i b (Inl out) w = finished d t0 i b out w"
  by (simp add: returns_def)

definition run_ends :: "'w Driver \<Rightarrow> 'w goal_world \<Rightarrow> string \<Rightarrow> outcome + 'a \<Rightarrow> 'w goal_world \<Rightarrow> bool" where
  "run_ends d w i r w' \<longleftrightarrow> (\<exists>b. returns d (gw_trace w) i b r w' \<and>
     (b = 0 \<or> (\<exists>g. stored (gw_plans w) i g \<and> b = nat (round_cap d g - gl_RoundsStarted g))))"

lemma loop_done:
  assumes "drove d t0 Between n w" and "n + k \<le> b" and run: "dr_Runner d \<noteq> None"
  shows "after (round_loop k d i mx (int n) g) w (returns d t0 i b)"
  using assms(1,2)
proof (induction k arbitrary: n w g)
  case 0
  show ?case
    unfolding round_loop.simps appendEnd_def
  proof (rule bind_disarm [OF 0(1)])
    fix w1 :: "'a goal_world" assume w1: "drove d t0 Between n w1"
    show "after (next_step (append_row d (RowEnd (gl_ID g) (gl_RoundsStarted g) ''round-limit'' []))
        (\<lambda>y. if y \<noteq> None then stop (result (gl_ID g) (int n) (gl_Status g) ''error'') (opt_errs y)
             else stop (result (gl_ID g) (int n) (gl_Status g) ''round-limit'') [])) w1
      (returns d t0 i b)"
      by (rule bind_append [OF w1, where ?s1.0 = Between]) (use 0 in \<open>auto simp: result_def intro!: finished_intro\<close>)
  qed
next
  case (Suc k)
  have "after (run_round d i mx (int n) g) w (round_done d t0 i n b)" using Suc.prems by (intro run_round_done run) auto
  then show ?case
    unfolding round_loop.simps after_next
  proof (rule after_mono, goal_cases)
    case (1 r w')
    then show ?case
      using Suc.IH [of "n + 1" w'] Suc.prems(2) by (cases r) (auto simp: round_done_def add.commute)
  qed
qed

lemma active_done:
  assumes w: "drove d t0 Between 0 w" and run: "dr_Runner d \<noteq> None"
  shows "after (run_active d i g) w (returns d t0 i (nat (round_cap d g - gl_RoundsStarted g)))"
proof (cases "round_cap d g < 1 \<or> round_cap d g \<le> gl_RoundsStarted g")
  case True
  have limit: "after (next_step (disarm d g) (\<lambda>_. stop (result (gl_ID g) 0 (gl_Status g) ''round-limit'') [])) w
     (returns d t0 i (nat (round_cap d g - gl_RoundsStarted g)))"
    by (rule bind_disarm [OF w]) (auto simp: result_def intro!: finished_intro)
  show ?thesis
  proof (cases "round_cap d g < 1")
    case True
    then show ?thesis using w by (auto simp: run_active_def zero_result_def intro!: finished_intro)
  qed (use True limit in \<open>simp add: run_active_def del: after_next\<close>)
next
  case False
  let ?b = "nat (round_cap d g - gl_RoundsStarted g)"
  have loop: "after (if x \<noteq> None then stop zero_result (opt_errs x) else round_loop ?b d i (round_cap d g) 0 g) w1
     (returns d t0 i ?b)" if "drove d t0 Between 0 w1" for x and w1 :: "'a goal_world"
    using that loop_done [OF that _ run, of ?b ?b i "round_cap d g" g]
    by (auto simp: zero_result_def intro!: finished_intro)
  show ?thesis
  proof (cases "gl_Status g = StatusPending")
    case True
    then show ?thesis
      using False unfolding run_active_def
      by (simp del: after_next not_None_eq) (rule bind_setStatus [OF w loop], simp_all)
  next
    case other: False
    show ?thesis using loop [OF w, of None] False other by (simp add: run_active_def)
  qed
qed

lemma run_endsI:
  "returns d (gw_trace w) i (nat (round_cap d g - gl_RoundsStarted g)) r w' \<Longrightarrow> stored (gw_plans w) i g \<Longrightarrow> run_ends d w i r w'"
  unfolding run_ends_def by blast

lemma run_ends_early: "finished d (gw_trace w) i 0 out w' \<Longrightarrow> run_ends d w i (Inl out) w'"
  unfolding run_ends_def by (intro exI [of _ 0]) simp

lemma run_done:
  "after (run_drive d i) w (run_ends d w i)"
  (is "after _ _ ?Q")
proof -
  note w = drove_start [of d w]
  have early: "finished d (gw_trace w) i 0 (r, errs) w1" if "drove d (gw_trace w) Between 0 w1"
    "rs_StopReason r \<noteq> [] \<Longrightarrow> rs_Rounds r = 0"
    "rs_StopReason r = ''completed'' \<Longrightarrow> \<exists>g. stored (gw_plans w1) i g \<and> gl_Status g = StatusDone" for r errs w1
    using that by (auto intro!: finished_intro)
  have "after (next_step (found d i) (\<lambda>g.
       if stopped (gl_Status g) then stop (result (gl_ID g) 0 (gl_Status g) (stop_reason (gl_Status g))) []
       else next_step (armed d g) (\<lambda>a.
       if \<not> a then stop (result (gl_ID g) 0 (gl_Status g) ''disarmed'') [] else run_active d i g))) w1 ?Q"
    if w1: "quiet w w1" and run: "dr_Runner d \<noteq> None" for w1
    unfolding after_next
  proof (rule after_found, goal_cases)
    case (1 g w2)
    then have w2: "drove d (gw_trace w) Between 0 w2" and g: "stored (gw_plans w) i g" "stored (gw_plans w2) i g"
      using w1 drove_quiet [OF w, of w2] by (simp_all add: quiet_def)
    have act: "after (run_active d i g) w2 ?Q"
      by (rule after_mono [OF active_done [OF w2 run, of i g]]) (use g in \<open>blast intro: run_endsI\<close>)
    show ?case
    proof (cases "stopped (gl_Status g)")
      case True
      then have "finished d (gw_trace w) i 0 (result (gl_ID g) 0 (gl_Status g) (stop_reason (gl_Status g)), []) w2"
        using g(2) by (intro early [OF w2]) (auto simp: result_def stop_reason_completed)
      then show ?thesis using True by (simp add: run_ends_early)
    next
      case False
      have "finished d (gw_trace w) i 0 (result (gl_ID g) 0 (gl_Status g) ''disarmed'', []) w2"
        by (intro early [OF w2]) (auto simp: result_def)
      then have "after (next_step (armed d g) (\<lambda>a.
         if \<not> a then stop (result (gl_ID g) 0 (gl_Status g) ''disarmed'') [] else run_active d i g)) w2 ?Q"
        using act by (intro bind_armed) (auto simp: run_ends_early simp del: after_next)
      then show ?thesis using False by (simp del: after_next)
    qed
  next
    case (2 x w2)
    then have "drove d (gw_trace w) Between 0 w2" using w1 drove_quiet [OF w, of w2] by (simp add: quiet_def)
    then show ?case by (auto simp: zero_result_def intro!: early run_ends_early)
  qed
  moreover have "finished d (gw_trace w) i 0 (zero_result, errs) w1" if "quiet w w1" for errs w1
    using that drove_quiet [OF w, of w1] by (intro early) (auto simp: zero_result_def quiet_def)
  ultimately show ?thesis
    unfolding run_drive_def after_next [of "ctxErr d"] by (intro after_ctxErr) (auto simp: run_ends_early simp del: after_next)
qed


lemma Run_ends: "Run d i w = (out, w') \<Longrightarrow> run_ends d w i (Inl out :: outcome + unit) w'"
  using run_done [of d i w]
  by (auto simp: Run_def after_def run_ends_def returns_def split: prod.splits sum.splits)

section \<open>The properties\<close>


text \<open>
  C23: a run of a goal ends: it takes at most the rounds the goal has left under the cap of the driver
  or, without one, of the goal.
\<close>

theorem turns_bounded:
  assumes "Run d i w = (out, w')" and "engine_ok (gw_plans w)" and "goal_of (gw_plans w) i = Some g"
  shows "\<exists>es. gw_trace w' = gw_trace w @ es \<and> turns es \<le> nat (round_cap d g - gl_RoundsStarted g)"
proof -
  have "g' = g" if "stored (gw_plans w) i g'" for g'
  proof -
    have wf: "wf_map (mp_goals (en_prov (gw_plans w)))" using assms(2) by (simp add: engine_ok_def)
    obtain k where k: "(k, g') \<in> set (mp_goals (en_prov (gw_plans w)))" "gl_ID g' = i" using \<open>stored _ i g'\<close> by (auto simp: stored_def)
    then have m: "map_of (mp_goals (en_prov (gw_plans w))) k = Some g'" using wf by (simp add: wf_map_in_set)
    then have "gl_ID g' = k" using engine_goal [OF assms(2)] by blast
    then show "g' = g" using m k assms(3) by (simp add: goal_of_def)
  qed
  then show ?thesis
    using Run_ends [OF assms(1)] by (auto simp: run_ends_def finished_def drove_def)
qed

text \<open>
  Fact: \<^verbatim>\<open>completed\<close> is reported only of a goal that is stored as done when the run returns.
\<close>

theorem completed_is_done:
  assumes "Run d i w = ((res, errs), w')" and "rs_StopReason res = ''completed''"
  shows "\<exists>g. stored (gw_plans w') i g \<and> gl_Status g = StatusDone"
  using Run_ends [OF assms(1)] assms(2) by (auto simp: run_ends_def finished_def)


section \<open>A concrete driver\<close>

text \<open>The environment counts the turns and the calls of disarm; the third turn would finish the goal.\<close>

definition demo_driver :: "int \<Rightarrow> (nat \<times> nat) Driver" where
  "demo_driver n = \<lparr>dr_Runner = Some (\<lambda>p (e, t, k). (None,
       if t = 2 then snd (SetStatus running 9 ''goal'' ''goal-1'' StatusDone e) else e, t + 1, k)),
     dr_Append = Some (\<lambda>row v. (None, v)), dr_Observe = None, dr_MaxRounds = n, dr_Armed = None,
     dr_Disarm = Some (\<lambda>g (t, k). (t, k + 1)), dr_poll = (\<lambda>v. (False, v)), dr_cancelText = ''context canceled'',
     dr_now = (\<lambda>v. 7), dr_quote = (\<lambda>s. CHR 0x22 # s @ [CHR 0x22])\<rparr>"

definition demo_world :: "(nat \<times> nat) goal_world" where
  "demo_world = \<lparr>gw_plans = sample_engine, gw_trace = [], gw_env = (0, 0)\<rparr>"

definition demo_run :: "int \<Rightarrow> outcome \<times> (nat \<times> nat) goal_world" where
  "demo_run n = Run (demo_driver n) ''goal-1'' demo_world"

lemma demo_limit:
  "rs_StopReason (fst (fst (demo_run 0))) = ''round-limit'' \<and> rs_Rounds (fst (fst (demo_run 0))) = 2 \<and>
   gw_env (snd (demo_run 0)) = (2, 1)"
  by code_simp

lemma demo_failure:
  "fst (demo_run 3) = (zero_result, [ErrPlan (ErrRoundsExhausted ''goal-1'' 2)]) \<and> gw_env (snd (demo_run 3)) = (2, 0)"
  by code_simp



lemma turns_bounded_witness: "turns (gw_trace (snd (demo_run 0))) \<le> 2"
proof -
  have run: "Run (demo_driver 0) ''goal-1'' demo_world = (fst (demo_run 0), snd (demo_run 0))" by (simp add: demo_run_def)
  have w: "gw_plans demo_world = sample_engine" "gw_trace demo_world = []" by (simp_all add: demo_world_def)
  have cap: "round_cap (demo_driver 0) sample_goal = 2" by (simp add: round_cap_def demo_driver_def sample_goal_def)
  from turns_bounded [OF run, of sample_goal] sample_engine_ok show ?thesis by (simp add: w cap) (simp add: sample_goal_def)
qed

definition demo_done :: "outcome \<times> (nat \<times> nat) goal_world" where
  "demo_done = Run (demo_driver 0) ''goal-1'' (demo_world\<lparr>gw_env := (2, 0)\<rparr>)"

lemma completed_is_done_witness:
  "rs_StopReason (fst (fst demo_done)) = ''completed'' \<and> (\<exists>g. stored (gw_plans (snd demo_done)) ''goal-1'' g \<and> gl_Status g = StatusDone)"
proof -
  have c: "rs_StopReason (fst (fst demo_done)) = ''completed''" by code_simp
  have run: "Run (demo_driver 0) ''goal-1'' (demo_world\<lparr>gw_env := (2, 0)\<rparr>) = ((fst (fst demo_done), snd (fst demo_done)), snd demo_done)"
    by (simp add: demo_done_def)
  from completed_is_done [OF run c] c show ?thesis by blast
qed

text \<open>
  Fact: a goal whose own cap is below the driver's ends a run with an error: of the same goal with two
  rounds left, a driver without a cap stops at the round limit and disarms it, while a driver with the
  cap three returns the engine's refusal with an empty result, although two turns ran, and does not
  disarm the goal.
\<close>

theorem smaller_goal_cap_fails:
  "\<exists>d w (d' :: (nat \<times> nat) Driver). d' = d\<lparr>dr_MaxRounds := 3\<rparr> \<and>
     goal_of (gw_plans w) ''goal-1'' = Some sample_goal \<and>
     rs_StopReason (fst (fst (Run d ''goal-1'' w))) = ''round-limit'' \<and> gw_env (snd (Run d ''goal-1'' w)) = (2, 1) \<and>
     fst (Run d' ''goal-1'' w) = (zero_result, [ErrPlan (ErrRoundsExhausted ''goal-1'' 2)]) \<and>
     gw_env (snd (Run d' ''goal-1'' w)) = (2, 0)"
proof (intro exI conjI)
  show "demo_driver 3 = (demo_driver 0)\<lparr>dr_MaxRounds := 3\<rparr>" by (simp add: demo_driver_def)
  show "goal_of (gw_plans demo_world) ''goal-1'' = Some sample_goal" by (simp add: demo_world_def sample_engine_ok)
qed (use demo_limit demo_failure in \<open>simp_all add: demo_run_def\<close>)

end
