(* ===== verification/Team_Roster.thy ===== *)
theory Team_Roster
  imports Go_Prelude
begin

text \<open>
  The roster of an agent team, \<^verbatim>\<open>internal/team/roster.go\<close>: who belongs to a team, in which phase,
  and with which live agent. The agent registry is outside: what \<^verbatim>\<open>Create\<close> and \<^verbatim>\<open>Start\<close> of an
  agent come to, and the status of a live agent, are arguments; a handle is known by the identity it
  is bound to. The durable allocator of identities is an argument too (none: an in-memory roster).
\<close>

section \<open>Data\<close>

datatype MemberPhase = MemberProvisioning | MemberActive | MemberFailed | OtherMemberPhase string

record MemberSnapshot =
  ms_ID :: string
  ms_Name :: string
  ms_Description :: string
  ms_Provider :: string
  ms_Context :: string
  ms_Phase :: MemberPhase
  ms_Error :: string

datatype AgentStatus = StatusRunning | StatusIdle | StatusClosed

record MemberView =
  mv_row :: MemberSnapshot
  mv_Role :: string
  mv_Status :: AgentStatus

record Roster =
  ro_teamID :: string
  ro_leadID :: string
  ro_maxMembers :: int
  ro_members :: "(string \<times> MemberSnapshot) list"
  ro_handles :: "string list"
  ro_reservedIDs :: "string list"

datatype team_error =
    ErrTaskNotFound string | ErrRevision string int int | ErrInvalidTask | ErrTaskBlocked string | ErrTaskCycle string
  | ErrMessageAbsent string | ErrTeamLimit | ErrUnauthorized | ErrReserve string | ErrNoUniqueID | ErrWriteScope string
  | ErrTeamMismatch | ErrTeamEvent | ErrTaskRevisionGap string | ErrTeamMessage | ErrQueuedTwice string
  | ErrDelivery string | ErrMemberExists string | ErrMemberNotFound | ErrNotLead | ErrMemberName | ErrMemberContext
  | ErrMemberLimit int | ErrMemberID | ErrMemberEvent | ErrMemberImmutable | ErrMemberTransition MemberPhase MemberPhase
  | ErrNoActiveLead | ErrRebind | ErrAgent string | ErrSelfMessage | ErrSink string | ErrDecode

datatype reservation = Claimed | Taken | ReserveError string

text \<open>\<^verbatim>\<open>^[a-z0-9]+(?:-[a-z0-9]+)*$\<close>\<close>

definition name_char :: "char \<Rightarrow> bool" where
  "name_char c \<longleftrightarrow> is_digit c \<or> (CHR ''a'' \<le> c \<and> c \<le> CHR ''z'')"

definition memberNamePattern :: "string \<Rightarrow> bool" where
  "memberNamePattern s \<longleftrightarrow> list_all (\<lambda>seg. seg \<noteq> [] \<and> list_all name_char seg) (split_on CHR ''-'' s)"

definition member_name_ok :: "string \<Rightarrow> bool" where
  "member_name_ok name \<longleftrightarrow> memberNamePattern name \<and> length name \<le> 64 \<and> name \<noteq> ''lead''"

definition known_phase :: "MemberPhase \<Rightarrow> bool" where
  "known_phase p \<longleftrightarrow> p = MemberProvisioning \<or> p = MemberActive \<or> p = MemberFailed"

definition DefaultMaxMembers :: int where
  "DefaultMaxMembers = 8"

definition NewRosterWithLimit :: "string \<Rightarrow> string \<Rightarrow> int \<Rightarrow> Roster option" where
  "NewRosterWithLimit teamID leadID maxMembers =
     (if trim_space teamID = [] \<or> leadID = [] then None
      else if maxMembers < 1 then None
      else Some \<lparr>ro_teamID = teamID, ro_leadID = leadID, ro_maxMembers = maxMembers,
        ro_members = [(leadID, \<lparr>ms_ID = leadID, ms_Name = ''lead'', ms_Description = [], ms_Provider = [],
           ms_Context = ''fresh'', ms_Phase = MemberActive, ms_Error = []\<rparr>)],
        ro_handles = [], ro_reservedIDs = []\<rparr>)"

definition NewRoster :: "string \<Rightarrow> string \<Rightarrow> Roster option" where
  "NewRoster teamID leadID = NewRosterWithLimit teamID leadID DefaultMaxMembers"

type_synonym 'a roster_op = "Roster \<Rightarrow> (team_error + 'a) \<times> Roster"

section \<open>Questions\<close>

definition IsLead :: "Roster \<Rightarrow> string \<Rightarrow> bool" where
  "IsLead r i \<longleftrightarrow> i = ro_leadID r"

definition Authorize :: "Roster \<Rightarrow> string \<Rightarrow> string \<Rightarrow> team_error option" where
  "Authorize r actor target =
     (let active = (\<lambda>i. case map_of (ro_members r) i of None \<Rightarrow> False
                       | Some row \<Rightarrow> i = ro_leadID r \<or> ms_Phase row = MemberActive)
      in if \<not> active actor \<or> (target \<noteq> [] \<and> \<not> active target) then Some ErrUnauthorized else None)"

definition Member :: "(string \<Rightarrow> AgentStatus) \<Rightarrow> Roster \<Rightarrow> string \<Rightarrow> team_error + MemberView" where
  "Member status r i =
     (case map_of (ro_members r) i of
        None \<Rightarrow> Inl ErrMemberNotFound
      | Some row \<Rightarrow> Inr \<lparr>mv_row = row, mv_Role = (if i = ro_leadID r then ''lead'' else ''teammate''),
          mv_Status = (if i \<in> set (ro_handles r) then status i else StatusClosed)\<rparr>)"

fun resolve_in :: "(string \<Rightarrow> AgentStatus) \<Rightarrow> Roster \<Rightarrow> string list \<Rightarrow> team_error + MemberView" where
  "resolve_in status r [] = Inl ErrMemberNotFound"
| "resolve_in status r (i # is) =
     (case Member status r i of
        Inl x \<Rightarrow> resolve_in status r is
      | Inr view \<Rightarrow> if ms_ID (mv_row view) = ro_leadID r \<or> ms_Phase (mv_row view) = MemberActive then Inr view
                    else resolve_in status r is)"

definition ResolveTarget :: "(string \<Rightarrow> AgentStatus) \<Rightarrow> Roster \<Rightarrow> string \<Rightarrow> team_error + MemberView" where
  "ResolveTarget status r target =
     (let t = trim_space target
      in resolve_in status r (map fst (filter (\<lambda>(i, row). i = t \<or> ms_Name row = t) (ro_members r))))"

definition ListMembers :: "(string \<Rightarrow> AgentStatus) \<Rightarrow> Roster \<Rightarrow> MemberView list" where
  "ListMembers status r =
     concat (map (\<lambda>i. case Member status r i of Inl x \<Rightarrow> [] | Inr view \<Rightarrow> [view]) (sort (map fst (ro_members r))))"

definition RosterSnapshot :: "Roster \<Rightarrow> MemberSnapshot list" where
  "RosterSnapshot r = map (\<lambda>i. the (map_of (ro_members r) i)) (sort (map fst (ro_members r)))"

section \<open>Identities\<close>

definition roster_full :: "Roster \<Rightarrow> bool" where
  "roster_full r \<longleftrightarrow> ro_maxMembers r \<le> int (length (ro_members r)) - 1"

definition member_id :: "Roster \<Rightarrow> string \<Rightarrow> string" where
  "member_id r name = ro_teamID r @ '':'' @ name"

definition reserveMemberIDLocked :: "(string \<Rightarrow> reservation) option \<Rightarrow> string \<Rightarrow> string roster_op" where
  "reserveMemberIDLocked reserve name r =
     (let i = member_id r name; claimed = r\<lparr>ro_reservedIDs := i # ro_reservedIDs r\<rparr>
      in if roster_full r then (Inl (ErrMemberLimit (ro_maxMembers r)), r)
         else if map_of (ro_members r) i \<noteq> None then (Inl (ErrMemberExists name), r)
         else if i \<in> set (ro_reservedIDs r) then (Inl (ErrMemberExists name), r)
         else case reserve of
           None \<Rightarrow> (Inr i, claimed)
         | Some ask \<Rightarrow>
             (case ask i of
                ReserveError x \<Rightarrow> (Inl (ErrReserve x), r)
              | Taken \<Rightarrow> (Inl (ErrMemberExists name), r)
              | Claimed \<Rightarrow> (Inr i, claimed)))"

definition ReserveMemberID :: "(string \<Rightarrow> reservation) option \<Rightarrow> string \<Rightarrow> string roster_op" where
  "ReserveMemberID reserve name0 r =
     (let name = trim_space name0
      in if \<not> member_name_ok name then (Inl ErrMemberName, r) else reserveMemberIDLocked reserve name r)"

definition MemberID :: "string \<Rightarrow> Roster \<Rightarrow> team_error + string" where
  "MemberID name0 r =
     (let name = trim_space name0
      in if \<not> member_name_ok name then Inl ErrMemberName
         else if roster_full r then Inl (ErrMemberLimit (ro_maxMembers r))
         else if list_ex (\<lambda>m. ms_Name m = name) (vals (ro_members r)) then Inl (ErrMemberExists name)
         else if member_id r name \<in> set (ro_reservedIDs r) then Inl (ErrMemberExists name)
         else Inr (member_id r name))"

definition AdoptReservedMemberID :: "string \<Rightarrow> unit roster_op" where
  "AdoptReservedMemberID i0 r =
     (let i = trim_space i0
      in if i = [] then (Inl ErrMemberID, r)
         else if map_of (ro_members r) i \<noteq> None then (Inl (ErrMemberExists i), r)
         else (Inr (), r\<lparr>ro_reservedIDs := i # ro_reservedIDs r\<rparr>))"

section \<open>Members\<close>

definition put_member :: "MemberSnapshot \<Rightarrow> Roster \<Rightarrow> Roster" where
  "put_member row r = r\<lparr>ro_members := AList.update (ms_ID row) row (ro_members r)\<rparr>"

definition bind_handle :: "string \<Rightarrow> Roster \<Rightarrow> Roster" where
  "bind_handle i r = r\<lparr>ro_handles := i # removeAll i (ro_handles r)\<rparr>"

text \<open>
  \<open>start i\<close> is what creating and starting an agent under an identity comes to: nothing, or the error
  of either (after which the registry has closed it again).
\<close>

definition Spawn ::
    "(string \<Rightarrow> AgentStatus) \<Rightarrow> (string \<Rightarrow> string option) \<Rightarrow> (string \<Rightarrow> reservation) option \<Rightarrow>
     string \<Rightarrow> string \<Rightarrow> string \<Rightarrow> string \<Rightarrow> string \<Rightarrow> MemberView roster_op" where
  "Spawn status start reserve actor name0 description provider contextKind0 r =
     (let name = trim_space name0; contextKind = (if contextKind0 = [] then ''fresh'' else contextKind0); i = member_id r name
      in if actor \<noteq> ro_leadID r then (Inl ErrNotLead, r)
         else if \<not> member_name_ok name then (Inl ErrMemberName, r)
         else if contextKind \<noteq> ''fresh'' \<and> contextKind \<noteq> ''fork'' then (Inl ErrMemberContext, r)
         else if roster_full r then (Inl (ErrMemberLimit (ro_maxMembers r)), r)
         else if list_ex (\<lambda>m. ms_Name m = name) (vals (ro_members r)) then (Inl (ErrMemberExists name), r)
         else if map_of (ro_members r) i \<noteq> None then (Inl (ErrMemberExists name), r)
         else case (if i \<in> set (ro_reservedIDs r) then (Inr i, r) else reserveMemberIDLocked reserve name r) of
           (Inl x, r) \<Rightarrow> (Inl x, r)
         | (Inr i, r) \<Rightarrow>
             let row = \<lparr>ms_ID = i, ms_Name = name, ms_Description = description, ms_Provider = provider,
                        ms_Context = contextKind, ms_Phase = MemberProvisioning, ms_Error = []\<rparr>;
                 r = put_member row r
             in case start i of
                  Some e \<Rightarrow> (Inl (ErrAgent e), put_member (row\<lparr>ms_Phase := MemberFailed, ms_Error := e\<rparr>) r)
                | None \<Rightarrow>
                    let row = row\<lparr>ms_Phase := MemberActive\<rparr>
                    in (Inr \<lparr>mv_row = row, mv_Role = ''teammate'', mv_Status = status i\<rparr>, bind_handle i (put_member row r)))"

definition Rebind ::
    "(string \<Rightarrow> AgentStatus) \<Rightarrow> (string \<Rightarrow> string option) \<Rightarrow> string \<Rightarrow> MemberView roster_op" where
  "Rebind status start i r =
     (if i = [] then (Inl ErrMemberID, r)
      else case map_of (ro_members r) i of
        None \<Rightarrow> (Inl ErrMemberNotFound, r)
      | Some row \<Rightarrow>
          if i = ro_leadID r \<or> ms_Phase row \<noteq> MemberActive then (Inl ErrRebind, r)
          else if i \<in> set (ro_handles r) then (Member status r i, r)
          else case start i of
            Some e \<Rightarrow> (Inl (ErrAgent e), put_member (row\<lparr>ms_Phase := MemberFailed, ms_Error := e\<rparr>) r)
          | None \<Rightarrow> (Inr \<lparr>mv_row = row, mv_Role = ''teammate'', mv_Status = status i\<rparr>, bind_handle i r))"

definition RebindProvisioning ::
    "(string \<Rightarrow> AgentStatus) \<Rightarrow> (string \<Rightarrow> string option) \<Rightarrow> string \<Rightarrow> MemberView roster_op" where
  "RebindProvisioning status start i r =
     (if i = [] then (Inl ErrMemberID, r)
      else case map_of (ro_members r) i of
        None \<Rightarrow> (Inl ErrMemberNotFound, r)
      | Some row \<Rightarrow>
          if i = ro_leadID r \<or> ms_Phase row \<noteq> MemberProvisioning then (Inl ErrRebind, r)
          else if i \<in> set (ro_handles r) then (Inl ErrRebind, r)
          else case start i of
            Some e \<Rightarrow> (Inl (ErrAgent e), put_member (row\<lparr>ms_Phase := MemberFailed, ms_Error := e\<rparr>) r)
          | None \<Rightarrow>
              let row = row\<lparr>ms_Phase := MemberActive, ms_Error := []\<rparr>
              in (Inr \<lparr>mv_row = row, mv_Role = ''teammate'', mv_Status = status i\<rparr>, bind_handle i (put_member row r)))"

definition MarkFailed :: "string \<Rightarrow> string option \<Rightarrow> unit roster_op" where
  "MarkFailed i cause r =
     (case map_of (ro_members r) i of
        None \<Rightarrow> (Inl ErrMemberNotFound, r)
      | Some row \<Rightarrow>
          if i = ro_leadID r then (Inl ErrNotLead, r)
          else
            let row = row\<lparr>ms_Phase := MemberFailed\<rparr>;
                row = (case cause of None \<Rightarrow> row | Some e \<Rightarrow> row\<lparr>ms_Error := e\<rparr>)
            in (Inr (), (put_member row r)\<lparr>ro_handles := removeAll i (ro_handles r)\<rparr>))"

section \<open>Durable rows\<close>

definition row_name_ok :: "string \<Rightarrow> bool" where
  "row_name_ok name \<longleftrightarrow> name = ''lead'' \<or> (memberNamePattern name \<and> length name \<le> 64)"

definition same_identity :: "MemberSnapshot \<Rightarrow> MemberSnapshot \<Rightarrow> bool" where
  "same_identity a b \<longleftrightarrow> ms_Name a = ms_Name b \<and> ms_Description a = ms_Description b \<and> ms_Provider a = ms_Provider b \<and>
     ms_Context a = ms_Context b"

definition validateMemberEventLocked :: "Roster \<Rightarrow> MemberSnapshot \<Rightarrow> team_error option" where
  "validateMemberEventLocked r row =
     (if ms_ID row = [] \<or> ms_Name row = [] \<or> \<not> known_phase (ms_Phase row) then Some ErrMemberEvent
      else if \<not> row_name_ok (ms_Name row) then Some ErrMemberName
      else case map_of (ro_members r) (ms_ID row) of
        None \<Rightarrow>
          if ms_ID row = ro_leadID r then Some ErrMemberEvent
          else if roster_full r then Some (ErrMemberLimit (ro_maxMembers r))
          else if list_ex (\<lambda>m. ms_Name m = ms_Name row \<and> ms_ID m \<noteq> ms_ID row) (vals (ro_members r))
            then Some (ErrMemberExists (ms_Name row))
          else if ms_Phase row \<noteq> MemberProvisioning then Some ErrMemberEvent
          else None
      | Some prior \<Rightarrow>
          if \<not> same_identity prior row then Some ErrMemberImmutable
          else if ms_Phase prior = MemberProvisioning then
            (if ms_Phase row = MemberProvisioning then Some (ErrMemberTransition (ms_Phase prior) (ms_Phase row)) else None)
          else if ms_Phase prior = MemberActive \<and> ms_Phase row \<noteq> MemberFailed
            then Some (ErrMemberTransition (ms_Phase prior) (ms_Phase row))
          else if ms_Phase prior = MemberFailed then Some (ErrMemberTransition (ms_Phase prior) (ms_Phase row))
          else None)"

definition ApplyMemberEvent :: "MemberSnapshot \<Rightarrow> unit roster_op" where
  "ApplyMemberEvent row r = (case validateMemberEventLocked r row of Some x \<Rightarrow> (Inl x, r) | None \<Rightarrow> (Inr (), put_member row r))"

definition restore_row ::
    "Roster \<Rightarrow> (string \<times> MemberSnapshot) list \<Rightarrow> MemberSnapshot \<Rightarrow> team_error + (string \<times> MemberSnapshot) list" where
  "restore_row r members row =
     (if ms_ID row = [] \<or> ms_Name row = [] \<or> \<not> known_phase (ms_Phase row) then Inl ErrMemberEvent
      else if \<not> row_name_ok (ms_Name row) then Inl ErrMemberName
      else if map_of members (ms_ID row) \<noteq> None then Inl (ErrMemberExists (ms_ID row))
      else if list_ex (\<lambda>m. ms_Name m = ms_Name row \<and> ms_ID m \<noteq> ms_ID row) (vals members) then Inl (ErrMemberExists (ms_Name row))
      else if ms_ID row \<noteq> ro_leadID r \<and> ro_maxMembers r + 1 \<le> int (length members) then Inl (ErrMemberLimit (ro_maxMembers r))
      else Inr (AList.update (ms_ID row) row members))"

definition RosterRestore :: "MemberSnapshot list \<Rightarrow> unit roster_op" where
  "RosterRestore rows r =
     (case fold_until (restore_row r) [] rows of
        Inl x \<Rightarrow> (Inl x, r)
      | Inr members \<Rightarrow>
          (case map_of members (ro_leadID r) of
             None \<Rightarrow> (Inl ErrNoActiveLead, r)
           | Some lead \<Rightarrow>
               if ms_Name lead \<noteq> ''lead'' \<or> ms_Phase lead \<noteq> MemberActive then (Inl ErrNoActiveLead, r)
               else (Inr (), r\<lparr>ro_members := members, ro_handles := []\<rparr>)))"

end
