(* ===== verification/Team_Board.thy ===== *)
theory Team_Board
  imports Session_Content Team_Roster
begin

text \<open>
  The agent team board, \<^verbatim>\<open>internal/team/board.go\<close>: tasks with revisions, owners and
  dependencies, and the operations on them. Identities are reserved through an argument (no argument:
  no durable allocator); the clock is an argument; what \<^verbatim>\<open>emit\<close> is called with is kept in
  order. The roster is the one of \<^verbatim>\<open>Team_Roster\<close>. Paths are those of a Unix system.
\<close>

section \<open>Data\<close>

datatype TaskStatus = TaskPending | TaskInProgress | TaskCompleted | TaskDeleted | OtherTaskStatus string

record Task =
  tk_ID :: string
  tk_Revision :: int
  tk_Subject :: string
  tk_Description :: string
  tk_Status :: TaskStatus
  tk_OwnerID :: string
  tk_BlockedBy :: "string list"
  tk_WriteScopes :: "string list"
  tk_DeletedAt :: go_time

record TaskView =
  tv_Task :: Task
  tv_Ready :: bool
  tv_WriteScopeWarning :: bool

record TeamMessage =
  tm_ID :: string
  tm_SenderID :: string
  tm_SenderName :: string
  tm_TargetID :: string
  tm_Delivery :: string
  tm_Content :: string
  tm_ContentBlocks :: "ContentBlock list"
  tm_CreatedAt :: go_time
  tm_Delivered :: bool

datatype team_emit = TaskCreate Task | TaskUpdate Task | MessageSend TeamMessage | MessageDeliver TeamMessage

record Board =
  bd_teamID :: string
  bd_next :: nat
  bd_msgNext :: nat
  bd_tasks :: "(string \<times> Task) list"
  bd_messages :: "(string \<times> TeamMessage) list"
  bd_memberRows :: "(string \<times> MemberSnapshot) list"
  bd_roster :: "Roster option"
  bd_maxTasks :: int
  bd_maxPending :: int
  bd_maxBytes :: int
  bd_emitted :: "team_emit list"
  bd_notify :: bool

type_synonym 'a team_op = "Board \<Rightarrow> (team_error + 'a) \<times> Board"

definition NewWithLimits :: "string \<Rightarrow> int \<Rightarrow> int \<Rightarrow> int \<Rightarrow> Board option" where
  "NewWithLimits teamID maxTasks maxPending maxBytes =
     (if trim_space teamID = [] then None
      else Some \<lparr>bd_teamID = teamID, bd_next = 0, bd_msgNext = 0, bd_tasks = [], bd_messages = [],
        bd_memberRows = [], bd_roster = None,
        bd_maxTasks = (if maxTasks \<le> 0 then 256 else maxTasks),
        bd_maxPending = (if maxPending \<le> 0 then 64 else maxPending),
        bd_maxBytes = (if maxBytes \<le> 0 then 65536 else maxBytes), bd_emitted = [], bd_notify = False\<rparr>)"

definition NewBoard :: "string \<Rightarrow> Board option" where
  "NewBoard teamID = NewWithLimits teamID 256 64 65536"

text \<open>
  A member the roster does not know is offered to it as a member event; whether the roster takes it is
  not looked at.
\<close>

definition attach_row :: "string \<times> MemberSnapshot \<Rightarrow> Roster \<Rightarrow> Roster" where
  "attach_row row r = (if map_of (ro_members r) (fst row) = None then snd (ApplyMemberEvent (snd row) r) else r)"

definition AttachRoster :: "Roster \<Rightarrow> Board \<Rightarrow> Board" where
  "AttachRoster r b = b\<lparr>bd_roster := Some (fold attach_row (bd_memberRows b) r)\<rparr>"

definition board_member_id :: "Board \<Rightarrow> string \<Rightarrow> string" where
  "board_member_id b name = ''team:'' @ trim_prefix ''team:'' (bd_teamID b) @ '':'' @ name"

definition BoardReserveMemberID :: "(string \<Rightarrow> reservation) option \<Rightarrow> string \<Rightarrow> string team_op" where
  "BoardReserveMemberID reserve name0 b =
     (let name = trim_space name0
      in if \<not> member_name_ok name then (Inl ErrMemberName, b)
         else case bd_roster b of
           Some r \<Rightarrow> (case reserveMemberIDLocked reserve name r of (x, r) \<Rightarrow> (x, b\<lparr>bd_roster := Some r\<rparr>))
         | None \<Rightarrow>
             (case reserve of
                None \<Rightarrow> (Inr (board_member_id b name), b)
              | Some ask \<Rightarrow>
                  (case ask (board_member_id b name) of
                     ReserveError x \<Rightarrow> (Inl (ErrReserve x), b)
                   | Taken \<Rightarrow> (Inl (ErrMemberExists name), b)
                   | Claimed \<Rightarrow> (Inr (board_member_id b name), b))))"

definition BoardMemberID :: "string \<Rightarrow> Board \<Rightarrow> team_error + string" where
  "BoardMemberID name0 b =
     (let name = trim_space name0
      in if \<not> member_name_ok name then Inl ErrMemberName
         else case bd_roster b of Some r \<Rightarrow> MemberID name r | None \<Rightarrow> Inr (board_member_id b name))"

section \<open>Identities and scopes\<close>

text \<open>\<^verbatim>\<open>Sscanf("<prefix>%d")\<close>: spaces but no newline, a sign and digits; anything else leaves zero.\<close>

definition scan_int :: "string \<Rightarrow> int" where
  "scan_int s =
     (let s = dropWhile (\<lambda>c. is_space c \<and> c \<noteq> CHR 0x0A) s;
          neg = (s \<noteq> [] \<and> hd s = CHR ''-'');
          body = (if s \<noteq> [] \<and> (hd s = CHR ''-'' \<or> hd s = CHR ''+'') then tl s else s);
          digits = takeWhile is_digit body;
          n = (if neg then - int (digits_val 0 digits) else int (digits_val 0 digits))
      in if digits = [] then 0 else if min_int64 \<le> n \<and> n \<le> max_int64 then n else 0)"

definition taskNumber :: "string \<Rightarrow> int" where
  "taskNumber i = (if has_prefix i ''task-'' then scan_int (drop 5 i) else 0)"

definition task_id :: "nat \<Rightarrow> string" where
  "task_id n = ''task-'' @ itoa n"

fun cleanIDs :: "string list \<Rightarrow> string list \<Rightarrow> string list" where
  "cleanIDs seen [] = []"
| "cleanIDs seen (i # is) =
     (if trim_space i \<noteq> [] \<and> i \<notin> set seen then i # cleanIDs (i # seen) is else cleanIDs seen is)"

text \<open>\<^verbatim>\<open>filepath.Clean\<close>, by segments.\<close>

fun clean_segments :: "bool \<Rightarrow> string list \<Rightarrow> string list \<Rightarrow> string list" where
  "clean_segments rooted out [] = rev out"
| "clean_segments rooted out (s # ss) =
     (if s = [] \<or> s = ''.'' then clean_segments rooted out ss
      else if s = ''..'' then
        (if out \<noteq> [] \<and> hd out \<noteq> ''..'' then clean_segments rooted (tl out) ss
         else if rooted then clean_segments rooted out ss
         else clean_segments rooted (s # out) ss)
      else clean_segments rooted (s # out) ss)"

fun join_with :: "string \<Rightarrow> string list \<Rightarrow> string" where
  "join_with sep [] = []"
| "join_with sep [s] = s"
| "join_with sep (s # ss) = s @ sep @ join_with sep ss"

definition path_clean :: "string \<Rightarrow> string" where
  "path_clean p =
     (let rooted = (p \<noteq> [] \<and> hd p = CHR ''/'');
          out = (if rooted then ''/'' else []) @ join_with ''/'' (clean_segments rooted [] (split_on CHR ''/'' p))
      in if out = [] then ''.'' else out)"

fun normal_scopes :: "string list \<Rightarrow> string list \<Rightarrow> string list" where
  "normal_scopes seen [] = []"
| "normal_scopes seen (raw # raws) =
     (let scope = path_clean (trim_space raw)
      in if scope = ''.'' \<or> scope = [] \<or> scope \<in> set seen then normal_scopes seen raws
         else scope # normal_scopes (scope # seen) raws)"

definition normalizeScopes :: "string list \<Rightarrow> string list" where
  "normalizeScopes scopes = sort (normal_scopes [] scopes)"

definition scope_valid :: "string \<Rightarrow> bool" where
  "scope_valid raw \<longleftrightarrow>
     (let scope = map (\<lambda>c. if c = CHR 0x5C then CHR ''/'' else c) (trim_space raw);
          scope = (if scope \<noteq> [] \<and> last scope = CHR ''/'' then butlast scope else scope)
      in scope \<noteq> [] \<and> hd scope \<noteq> CHR ''/'' \<and> \<not> (2 \<le> length scope \<and> scope ! 1 = CHR '':'') \<and>
         list_all (\<lambda>seg. seg \<noteq> [] \<and> seg \<noteq> ''.'' \<and> seg \<noteq> ''..'') (split_on CHR ''/'' scope))"

definition validateWriteScopes :: "string list \<Rightarrow> team_error option" where
  "validateWriteScopes scopes =
     (case List.find (\<lambda>s. \<not> scope_valid s) scopes of None \<Rightarrow> None | Some s \<Rightarrow> Some (ErrWriteScope s))"

definition scopesOverlap :: "string \<Rightarrow> string \<Rightarrow> bool" where
  "scopesOverlap a c \<longleftrightarrow> a = c \<or> has_prefix a (c @ ''/'') \<or> has_prefix c (a @ ''/'')"

section \<open>Dependencies\<close>

type_synonym tasks = "(string \<times> Task) list"

definition deps :: "tasks \<Rightarrow> string \<Rightarrow> string list" where
  "deps ts i = (case map_of ts i of None \<Rightarrow> [] | Some t \<Rightarrow> tk_BlockedBy t)"

text \<open>Every call of the walk below either makes one more task seen or has fewer calls left.\<close>

definition unseen :: "tasks \<Rightarrow> string list \<Rightarrow> nat" where
  "unseen ts seen = card (fst ` set ts - set seen)"

text \<open>
  \<^verbatim>\<open>reachesLocked\<close>: the depth-first walk with the shared \<open>seen\<close> map; the calls still to be
  made are a list, the next one first.
\<close>

function reaches :: "tasks \<Rightarrow> string \<Rightarrow> string list \<Rightarrow> string list \<Rightarrow> bool" where
  "reaches ts target [] seen = False"
| "reaches ts target (x # xs) seen =
     (if x = target then True
      else if x \<in> set seen then reaches ts target xs seen
      else reaches ts target (deps ts x @ xs) (x # seen))"
  by pat_completeness auto

termination
proof (relation "measures [\<lambda>(ts, _, _, seen). unseen ts seen, \<lambda>(_, _, xs, _). length xs]", goal_cases)
  case (3 ts target x xs seen)
  show ?case
  proof (cases "x \<in> fst ` set ts")
    case True
    have "fst ` set ts - set (x # seen) \<subset> fst ` set ts - set seen" using 3 True by auto
    then have "unseen ts (x # seen) < unseen ts seen" unfolding unseen_def by (intro psubset_card_mono) auto
    then show ?thesis by simp
  next
    case False
    then have "deps ts x = []" by (auto simp: deps_def map_of_eq_None_iff [symmetric] split: option.splits)
    moreover have "fst ` set ts - set (x # seen) = fst ` set ts - set seen" using False by auto
    ultimately show ?thesis by (simp add: unseen_def)
  qed
qed simp_all

definition reachesLocked :: "tasks \<Rightarrow> string \<Rightarrow> string \<Rightarrow> bool" where
  "reachesLocked ts from_id target = reaches ts target [from_id] []"

fun edge_errors :: "tasks \<Rightarrow> string \<Rightarrow> string list \<Rightarrow> string list \<Rightarrow> team_error option" where
  "edge_errors ts i seen [] = None"
| "edge_errors ts i seen (j # js) =
     (if j = i \<or> j \<in> set seen then Some (ErrTaskCycle j)
      else case map_of ts j of
        None \<Rightarrow> Some ErrInvalidTask
      | Some blocker \<Rightarrow>
          if tk_Status blocker = TaskDeleted then Some ErrInvalidTask
          else if reachesLocked ts j i then Some (ErrTaskCycle j)
          else edge_errors ts i (j # seen) js)"

definition validateEdges :: "tasks \<Rightarrow> string \<Rightarrow> string list \<Rightarrow> team_error option" where
  "validateEdges ts i blockedBy = edge_errors ts i [] blockedBy"

section \<open>Views\<close>

definition task_ready :: "tasks \<Rightarrow> Task \<Rightarrow> bool" where
  "task_ready ts t \<longleftrightarrow> tk_Status t = TaskPending \<and>
     list_all (\<lambda>j. case map_of ts j of None \<Rightarrow> False | Some blocker \<Rightarrow> tk_Status blocker = TaskCompleted) (tk_BlockedBy t)"

definition scope_warning :: "tasks \<Rightarrow> Task \<Rightarrow> bool" where
  "scope_warning ts t \<longleftrightarrow> list_ex (\<lambda>other. tk_ID other \<noteq> tk_ID t \<and> tk_Status other \<noteq> TaskDeleted \<and>
     list_ex (\<lambda>a. list_ex (\<lambda>c. scopesOverlap a c) (tk_WriteScopes other)) (tk_WriteScopes t)) (vals ts)"

definition viewLocked :: "tasks \<Rightarrow> Task \<Rightarrow> TaskView" where
  "viewLocked ts t = \<lparr>tv_Task = t, tv_Ready = task_ready ts t, tv_WriteScopeWarning = scope_warning ts t\<rparr>"

definition GetTask :: "string \<Rightarrow> Board \<Rightarrow> team_error + TaskView" where
  "GetTask i b = (case map_of (bd_tasks b) i of None \<Rightarrow> Inl (ErrTaskNotFound i) | Some t \<Rightarrow> Inr (viewLocked (bd_tasks b) t))"

definition ListTasks :: "Board \<Rightarrow> TaskView list" where
  "ListTasks b = map (\<lambda>(i, t). viewLocked (bd_tasks b) t)
     (sort_key (\<lambda>(i, t). taskNumber i) (filter (\<lambda>(i, t). tk_Status t \<noteq> TaskDeleted) (bd_tasks b)))"

section \<open>Creating a task\<close>

fun reserve_id :: "nat \<Rightarrow> (nat \<Rightarrow> string) \<Rightarrow> (string \<Rightarrow> reservation) option \<Rightarrow> nat \<Rightarrow> (team_error + string) \<times> nat" where
  "reserve_id 0 name reserve n = (Inl ErrNoUniqueID, n)"
| "reserve_id (Suc k) name reserve n =
     (case reserve of
        None \<Rightarrow> (Inr (name (n + 1)), n + 1)
      | Some ask \<Rightarrow>
          (case ask (name (n + 1)) of
             ReserveError x \<Rightarrow> (Inl (ErrReserve x), n + 1)
           | Claimed \<Rightarrow> (Inr (name (n + 1)), n + 1)
           | Taken \<Rightarrow> reserve_id k name reserve (n + 1)))"

definition active_tasks :: "tasks \<Rightarrow> int" where
  "active_tasks ts = int (length (filter (\<lambda>t. tk_Status t \<noteq> TaskDeleted) (vals ts)))"

definition put_task :: "Task \<Rightarrow> team_emit \<Rightarrow> Board \<Rightarrow> Board" where
  "put_task t ev b = b\<lparr>bd_tasks := AList.update (tk_ID t) t (bd_tasks b), bd_emitted := bd_emitted b @ [ev], bd_notify := True\<rparr>"

definition CreateTask ::
    "(string \<Rightarrow> reservation) option \<Rightarrow> string \<Rightarrow> string \<Rightarrow> string \<Rightarrow> string list \<Rightarrow> string list \<Rightarrow> TaskView team_op" where
  "CreateTask reserve subject description ownerID blockedBy writeScopes b =
     (if trim_space subject = [] then (Inl ErrInvalidTask, b)
      else case validateWriteScopes writeScopes of Some x \<Rightarrow> (Inl x, b)
      | None \<Rightarrow>
          if bd_maxTasks b \<le> active_tasks (bd_tasks b) then (Inl ErrTeamLimit, b)
          else case validateEdges (bd_tasks b) [] blockedBy of Some x \<Rightarrow> (Inl x, b)
          | None \<Rightarrow>
              (case reserve_id 32 task_id reserve (bd_next b) of
                 (Inl x, n) \<Rightarrow> (Inl x, b\<lparr>bd_next := n\<rparr>)
               | (Inr i, n) \<Rightarrow>
                   let t = \<lparr>tk_ID = i, tk_Revision = 1, tk_Subject = subject, tk_Description = description,
                            tk_Status = TaskPending, tk_OwnerID = ownerID, tk_BlockedBy = cleanIDs [] blockedBy,
                            tk_WriteScopes = normalizeScopes writeScopes, tk_DeletedAt = 0\<rparr>;
                       b = put_task t (TaskCreate t) (b\<lparr>bd_next := n\<rparr>)
                   in (Inr (viewLocked (bd_tasks b) t), b)))"

section \<open>Updating a task\<close>

text \<open>A nil list is \<^const>\<open>None\<close>.\<close>

record Update =
  up_ID :: string
  up_Revision :: int
  up_Action :: string
  up_OwnerID :: string
  up_ActorID :: string
  up_Subject :: string
  up_Description :: string
  up_BlockedBy :: "string list option"
  up_WriteScopes :: "string list option"

definition put_scopes :: "string list option \<Rightarrow> Task \<Rightarrow> team_error + Task" where
  "put_scopes scopes t =
     (case scopes of
        None \<Rightarrow> Inr t
      | Some ss \<Rightarrow> (case validateWriteScopes ss of Some x \<Rightarrow> Inl x | None \<Rightarrow> Inr (t\<lparr>tk_WriteScopes := normalizeScopes ss\<rparr>)))"

definition put_edges :: "tasks \<Rightarrow> string list option \<Rightarrow> Task \<Rightarrow> team_error + Task" where
  "put_edges ts blockedBy t =
     (case blockedBy of
        None \<Rightarrow> Inr t
      | Some js \<Rightarrow> (case validateEdges ts (tk_ID t) js of Some x \<Rightarrow> Inl x | None \<Rightarrow> Inr (t\<lparr>tk_BlockedBy := cleanIDs [] js\<rparr>)))"

definition edit_task :: "Update \<Rightarrow> Task \<Rightarrow> team_error + Task" where
  "edit_task u t =
     (if up_Subject u = [] \<and> up_Description u = [] \<and> up_WriteScopes u = None then Inl ErrInvalidTask
      else if up_Subject u \<noteq> [] \<and> trim_space (up_Subject u) = [] then Inl ErrInvalidTask
      else
        let t = (if up_Subject u \<noteq> [] then t\<lparr>tk_Subject := trim_space (up_Subject u)\<rparr> else t);
            t = (if up_Description u \<noteq> [] then t\<lparr>tk_Description := trim_space (up_Description u)\<rparr> else t)
        in put_scopes (up_WriteScopes u) t)"

definition reassign_task :: "Board \<Rightarrow> Update \<Rightarrow> Task \<Rightarrow> team_error + Task" where
  "reassign_task b u t =
     (case bd_roster b of
        None \<Rightarrow> Inl ErrUnauthorized
      | Some r \<Rightarrow>
          if \<not> IsLead r (up_ActorID u) then Inl ErrUnauthorized
          else if tk_Status t \<noteq> TaskPending \<and> tk_Status t \<noteq> TaskInProgress then Inl ErrInvalidTask
          else if trim_space (up_OwnerID u) = [] then Inr (t\<lparr>tk_Status := TaskPending, tk_OwnerID := []\<rparr>)
          else if \<not> task_ready (bd_tasks b) t then Inl (ErrTaskBlocked (tk_ID t))
          else if Authorize r (up_OwnerID u) [] \<noteq> None then Inl ErrUnauthorized
          else Inr (t\<lparr>tk_Status := TaskInProgress, tk_OwnerID := trim_space (up_OwnerID u)\<rparr>))"

definition task_action :: "go_time \<Rightarrow> Board \<Rightarrow> Update \<Rightarrow> Task \<Rightarrow> team_error + Task" where
  "task_action now b u t =
     (if up_Action u = ''claim'' then
        (if tk_Status t \<noteq> TaskPending \<or> tk_OwnerID t \<noteq> [] then Inl (ErrTaskBlocked (tk_ID t))
         else if \<not> task_ready (bd_tasks b) t then Inl (ErrTaskBlocked (tk_ID t))
         else if trim_space (up_OwnerID u) = [] then Inl ErrInvalidTask
         else Inr (t\<lparr>tk_Status := TaskInProgress, tk_OwnerID := up_OwnerID u\<rparr>))
      else if up_Action u = ''complete'' then
        (if tk_Status t \<noteq> TaskInProgress then Inl ErrInvalidTask else Inr (t\<lparr>tk_Status := TaskCompleted\<rparr>))
      else if up_Action u = ''release'' then
        (if tk_Status t \<noteq> TaskInProgress then Inl ErrInvalidTask
         else Inr (t\<lparr>tk_Status := TaskPending, tk_OwnerID := []\<rparr>))
      else if up_Action u = ''edit'' then edit_task u t
      else if up_Action u = ''set_dependencies'' then
        (if up_BlockedBy u = None then Inl ErrInvalidTask else put_edges (bd_tasks b) (up_BlockedBy u) t)
      else if up_Action u = ''reopen'' then
        (if tk_Status t \<noteq> TaskCompleted then Inl ErrInvalidTask
         else Inr (t\<lparr>tk_Status := TaskPending, tk_OwnerID := []\<rparr>))
      else if up_Action u = ''reassign'' then reassign_task b u t
      else if up_Action u = ''delete'' then
        (if list_ex (\<lambda>other. tk_Status other \<noteq> TaskDeleted \<and> tk_ID other \<noteq> tk_ID t \<and> tk_ID t \<in> set (tk_BlockedBy other))
              (vals (bd_tasks b))
         then Inl ErrInvalidTask
         else Inr (t\<lparr>tk_Status := TaskDeleted, tk_DeletedAt := now\<rparr>))
      else Inl ErrInvalidTask)"

text \<open>The fields an update carries beside its action.\<close>

definition task_fields :: "Board \<Rightarrow> Update \<Rightarrow> Task \<Rightarrow> team_error + Task" where
  "task_fields b u t =
     (let t = (if up_Subject u \<noteq> [] then t\<lparr>tk_Subject := up_Subject u\<rparr> else t);
          t = (if up_Description u \<noteq> [] then t\<lparr>tk_Description := up_Description u\<rparr> else t)
      in case put_edges (bd_tasks b) (if up_Action u \<noteq> ''set_dependencies'' then up_BlockedBy u else None) t of
           Inl x \<Rightarrow> Inl x
         | Inr t \<Rightarrow> put_scopes (if up_Action u \<noteq> ''edit'' then up_WriteScopes u else None) t)"

definition UpdateTask :: "go_time \<Rightarrow> Update \<Rightarrow> TaskView team_op" where
  "UpdateTask now u b =
     (case map_of (bd_tasks b) (up_ID u) of
        None \<Rightarrow> (Inl (ErrTaskNotFound (up_ID u)), b)
      | Some t \<Rightarrow>
          if up_Revision u \<noteq> tk_Revision t then (Inl (ErrRevision (up_ID u) (tk_Revision t) (up_Revision u)), b)
          else if tk_Status t = TaskDeleted then (Inl ErrInvalidTask, b)
          else case task_action now b u t of
            Inl x \<Rightarrow> (Inl x, b)
          | Inr t1 \<Rightarrow>
              (case task_fields b u t1 of
                 Inl x \<Rightarrow> (Inl x, b)
               | Inr t2 \<Rightarrow>
                   let t = t2\<lparr>tk_Revision := tk_Revision t2 + 1\<rparr>;
                       b = put_task t (TaskUpdate t) b
                   in (Inr (viewLocked (bd_tasks b) t), b)))"

end
