(* ===== verification/Team_Mailbox.thy ===== *)
theory Team_Mailbox
  imports Team_Board
begin

text \<open>
  The mailbox of the team board and its durable forms, \<^verbatim>\<open>internal/team/board.go\<close>: messages and
  their wire content, sending and acknowledging, the journal's events with the fold that replays them,
  and the snapshot with the check that restores it. An event is what decoding its payload gives. Only
  the number of bytes of an encoded message matters to the board: \<open>json_size\<close> counts what
  \<^verbatim>\<open>json.Marshal\<close> writes, for text in valid UTF-8 without the two line separators U+2028/9.
\<close>

section \<open>The size of an encoding\<close>

definition char_size :: "char \<Rightarrow> nat" where
  "char_size c =
     (if c \<in> {CHR 0x22, CHR 0x5C, CHR 0x08, CHR 0x09, CHR 0x0A, CHR 0x0C, CHR 0x0D} then 2
      else if (of_char c :: nat) < 32 \<or> c \<in> {CHR ''<'', CHR ''>'', CHR ''&''} then 6 else 1)"

definition string_size :: "string \<Rightarrow> nat" where
  "string_size s = 2 + sum_list (map char_size s)"

definition int_size :: "int \<Rightarrow> nat" where
  "int_size i = (if i < 0 then 1 + length (itoa (nat (- i))) else length (itoa (nat i)))"

definition commas :: "nat list \<Rightarrow> nat" where
  "commas ns = 2 + sum_list ns + (length ns - 1)"

text \<open>Objects, lists, strings, integers and true: nothing else is written here.\<close>

function json_size :: "json \<Rightarrow> nat" where
  "json_size JNull = 4"
| "json_size (JBool b) = (if b then 4 else 5)"
| "json_size (JInt i) = int_size i"
| "json_size (JDec r) = 0"
| "json_size (JStr s) = string_size s"
| "json_size (JArr xs) = commas (map json_size xs)"
| "json_size (JObj kvs) = commas (map (\<lambda>(k, v). string_size k + 1 + json_size v) kvs)"
  by pat_completeness auto
termination
proof (relation "measure size", goal_cases)
  case (2 xs x)
  show ?case using size_JArr [OF 2] by simp
next
  case (3 kvs kv k v)
  then have "(k, v) \<in> set kvs" by simp
  then have "size v < size (JObj kvs)" by (induction kvs) auto
  then show ?case by simp
qed simp

section \<open>Message content\<close>

datatype messageContentWire = ContentWire
  (cw_Type: string) (cw_Text: string) (cw_ID: string) (cw_ToolCallID: string) (cw_Name: string)
  (cw_Arguments: string) (cw_IsError: bool) (cw_Attachment: "json option") (cw_Content: "messageContentWire list")

record messageEventWire =
  mw_ID :: string
  mw_SenderID :: string
  mw_SenderName :: string
  mw_TargetID :: string
  mw_Delivery :: string
  mw_Content :: "messageContentWire list"

fun messageContentWireFrom :: "ContentBlock \<Rightarrow> messageContentWire" where
  "messageContentWireFrom (ContentBlock kind text img callID name args isErr blocks raw) =
     ContentWire (if kind = [] then BlockText else kind) text
       (if kind = BlockToolResult then [] else callID) (if kind = BlockToolResult then callID else [])
       name args isErr
       (if kind = BlockImage then Some (JObj [(''attachmentId'', JStr (im_ID img)), (''mediaType'', JStr (im_MediaType img)),
          (''bytes'', JInt (im_Bytes img)), (''width'', JInt (im_Width img)), (''height'', JInt (im_Height img))]) else None)
       (map messageContentWireFrom blocks)"

definition messageEventWireFrom :: "TeamMessage \<Rightarrow> messageEventWire" where
  "messageEventWireFrom m =
     (let blocks = (if tm_ContentBlocks m = [] \<and> tm_Content m \<noteq> [] then [Text (tm_Content m)] else tm_ContentBlocks m)
      in \<lparr>mw_ID = tm_ID m, mw_SenderID = tm_SenderID m, mw_SenderName = tm_SenderName m, mw_TargetID = tm_TargetID m,
          mw_Delivery = tm_Delivery m, mw_Content = map messageContentWireFrom blocks\<rparr>)"

definition attachment_number :: "jobject \<Rightarrow> string \<Rightarrow> int" where
  "attachment_number o1 k = (case as_float (jget o1 k) of None \<Rightarrow> 0 | Some x \<Rightarrow> int_of_float x)"

definition attached_image :: "json option \<Rightarrow> ImageRef" where
  "attached_image v =
     (case as_object v of
        None \<Rightarrow> no_image
      | Some o1 \<Rightarrow> no_image\<lparr>im_ID := string_or_empty (jget o1 ''attachmentId''),
          im_MediaType := string_or_empty (jget o1 ''mediaType''), im_Bytes := attachment_number o1 ''bytes'',
          im_Width := attachment_number o1 ''width'', im_Height := attachment_number o1 ''height''\<rparr>)"

function messageContentBlockFrom :: "messageContentWire \<Rightarrow> ContentBlock option" where
  "messageContentBlockFrom (ContentWire ty text i tcid name args isErr att content) =
     (if ty \<notin> set known_block_kinds then None
      else case those (map messageContentBlockFrom content) of
        None \<Rightarrow> None
      | Some blocks \<Rightarrow> Some (ContentBlock ty text (if ty = BlockImage then attached_image att else no_image)
          (if i = [] then tcid else i) name args isErr blocks None))"
  by pat_completeness auto
termination
  by (relation "measure size") (auto simp: less_Suc_eq_le size_list_estimation' trans_le_add1 trans_le_add2)

definition messageBlocksText :: "ContentBlock list \<Rightarrow> string" where
  "messageBlocksText blocks = concat (map cb_Text (filter (\<lambda>c. cb_Kind c = BlockText \<or> cb_Kind c = BlockReasoning) blocks))"

definition messageBlocksHaveNonText :: "ContentBlock list \<Rightarrow> bool" where
  "messageBlocksHaveNonText blocks = list_ex (\<lambda>c. cb_Kind c \<noteq> BlockText \<and> cb_Kind c \<noteq> BlockReasoning) blocks"

definition blocks_empty :: "ContentBlock list \<Rightarrow> bool" where
  "blocks_empty blocks \<longleftrightarrow> blocks = [] \<or> (messageBlocksText blocks = [] \<and> \<not> messageBlocksHaveNonText blocks)"

text \<open>
  \<^verbatim>\<open>DecodeMessageContent\<close>: a string, or the wire blocks a list decodes to (the decoding of one
  element is an argument).
\<close>

definition DecodeMessageContent ::
    "(json \<Rightarrow> messageContentWire option) \<Rightarrow> json option \<Rightarrow> (string \<times> ContentBlock list) option" where
  "DecodeMessageContent dec raw =
     (case raw of
        Some (JStr text) \<Rightarrow> if trim_space text = [] then None else Some (text, [Text text])
      | Some (JArr xs) \<Rightarrow>
          (case those (map dec xs) of
             None \<Rightarrow> None
           | Some wire \<Rightarrow>
               if wire = [] then None
               else case those (map messageContentBlockFrom wire) of
                 None \<Rightarrow> None
               | Some blocks \<Rightarrow> if blocks_empty blocks then None else Some (messageBlocksText blocks, blocks))
      | _ \<Rightarrow> None)"

function encode_content :: "messageContentWire \<Rightarrow> json" where
  "encode_content (ContentWire ty text i tcid name args isErr att content) =
     JObj ([(''type'', JStr ty)] @ omit_string ''text'' text @ omit_string ''id'' i @ omit_string ''toolCallId'' tcid
       @ omit_string ''name'' name @ omit_string ''arguments'' args @ omit_bool ''isError'' isErr
       @ (case att of None \<Rightarrow> [] | Some a \<Rightarrow> [(''attachment'', a)])
       @ (if content = [] then [] else [(''content'', JArr (map encode_content content))]))"
  by pat_completeness auto
termination
  by (relation "measure size") (auto simp: less_Suc_eq_le size_list_estimation' trans_le_add1 trans_le_add2)

definition encode_message :: "messageEventWire \<Rightarrow> json" where
  "encode_message w = JObj [(''id'', JStr (mw_ID w)), (''senderId'', JStr (mw_SenderID w)), (''senderName'', JStr (mw_SenderName w)),
     (''targetId'', JStr (mw_TargetID w)), (''delivery'', JStr (mw_Delivery w)),
     (''content'', JArr (map encode_content (mw_Content w)))]"

text \<open>\<^verbatim>\<open>len(messageEventBytes(m))\<close>\<close>

definition messageEventBytes :: "TeamMessage \<Rightarrow> nat" where
  "messageEventBytes m = json_size (encode_message (messageEventWireFrom m))"

section \<open>Sending and acknowledging\<close>

definition message_id :: "nat \<Rightarrow> string" where
  "message_id n = ''msg-'' @ itoa n"

text \<open>\<^verbatim>\<open>Sscanf("msg-%d")\<close> into an unsigned integer.\<close>

definition messageNumber :: "string \<Rightarrow> nat" where
  "messageNumber i =
     (if has_prefix i ''msg-'' then
        (let body = dropWhile (\<lambda>c. is_space c \<and> c \<noteq> CHR 0x0A) (drop 4 i); n = digits_val 0 (takeWhile is_digit body)
         in if int n \<le> max_uint64 then n else 0)
      else 0)"

type_synonym mailbox = "(string \<times> TeamMessage) list"

definition pending_for :: "string \<Rightarrow> mailbox \<Rightarrow> TeamMessage list" where
  "pending_for target ms = filter (\<lambda>m. tm_TargetID m = target \<and> \<not> tm_Delivered m) (vals ms)"

definition store_message :: "TeamMessage \<Rightarrow> team_emit \<Rightarrow> Board \<Rightarrow> Board" where
  "store_message m ev b = b\<lparr>bd_messages := AList.update (tm_ID m) m (bd_messages b), bd_emitted := bd_emitted b @ [ev], bd_notify := True\<rparr>"

definition SendMessageWithContent ::
    "(string \<Rightarrow> reservation) option \<Rightarrow> go_time \<Rightarrow> string \<Rightarrow> string \<Rightarrow> string \<Rightarrow> ContentBlock list \<Rightarrow> string \<Rightarrow> TeamMessage team_op" where
  "SendMessageWithContent reserve now senderID senderName targetID blocks delivery b =
     (let probe = \<lparr>tm_ID = [], tm_SenderID = senderID, tm_SenderName = senderName, tm_TargetID = targetID, tm_Delivery = delivery,
            tm_Content = messageBlocksText blocks, tm_ContentBlocks = blocks, tm_CreatedAt = 0, tm_Delivered = False\<rparr>
      in if trim_space senderID = [] \<or> trim_space targetID = [] then (Inl ErrTeamMessage, b)
         else if delivery \<noteq> ''quiet'' \<and> delivery \<noteq> ''wakeup'' then (Inl ErrTeamMessage, b)
         else if blocks_empty blocks then (Inl ErrTeamMessage, b)
         else if bd_maxBytes b < int (messageEventBytes probe) then (Inl ErrTeamLimit, b)
         else if bd_maxPending b \<le> int (length (pending_for targetID (bd_messages b))) then (Inl ErrTeamLimit, b)
         else case reserve_id 32 message_id reserve (bd_msgNext b) of
           (Inl x, n) \<Rightarrow> (Inl x, b\<lparr>bd_msgNext := n\<rparr>)
         | (Inr i, n) \<Rightarrow>
             let m = probe\<lparr>tm_ID := i, tm_CreatedAt := now\<rparr>
             in (Inr m, store_message m (MessageSend m) (b\<lparr>bd_msgNext := n\<rparr>)))"

definition SendMessage ::
    "(string \<Rightarrow> reservation) option \<Rightarrow> go_time \<Rightarrow> string \<Rightarrow> string \<Rightarrow> string \<Rightarrow> string \<Rightarrow> string \<Rightarrow> TeamMessage team_op" where
  "SendMessage reserve now senderID senderName targetID content delivery =
     SendMessageWithContent reserve now senderID senderName targetID [Text content] delivery"

definition BoardPending :: "string \<Rightarrow> Board \<Rightarrow> TeamMessage list" where
  "BoardPending targetID b = sort_key tm_ID (pending_for targetID (bd_messages b))"

definition AckMessage :: "string \<Rightarrow> unit team_op" where
  "AckMessage i b =
     (case map_of (bd_messages b) i of
        None \<Rightarrow> (Inl (ErrMessageAbsent i), b)
      | Some m \<Rightarrow>
          if tm_Delivered m then (Inr (), b)
          else let m = m\<lparr>tm_Delivered := True\<rparr> in (Inr (), store_message m (MessageDeliver m) b))"

section \<open>Journal events\<close>

datatype team_event =
    MemberEvent int string MemberSnapshot
  | TaskEvent int string Task
  | MessageQueuedEvent int string messageEventWire
  | MessageDeliveredEvent int string string string
  | UndecodedEvent string
  | OtherTeamEvent string

text \<open>\<^verbatim>\<open>TaskEvent.MarshalJSON\<close> leaves the deletion time out.\<close>

definition task_event :: "string \<Rightarrow> Task \<Rightarrow> team_event" where
  "task_event teamID t = TaskEvent 1 teamID (t\<lparr>tk_DeletedAt := 0\<rparr>)"

definition queued_event :: "string \<Rightarrow> TeamMessage \<Rightarrow> team_event" where
  "queued_event teamID m = MessageQueuedEvent 1 teamID (messageEventWireFrom m)"

text \<open>\<^verbatim>\<open>MessageQueuedEvent.UnmarshalJSON\<close>\<close>

definition decode_queued :: "messageEventWire \<Rightarrow> TeamMessage option" where
  "decode_queued w =
     (if mw_Content w = [] then None
      else case those (map messageContentBlockFrom (mw_Content w)) of
        None \<Rightarrow> None
      | Some blocks \<Rightarrow>
          if blocks_empty blocks then None
          else Some \<lparr>tm_ID = mw_ID w, tm_SenderID = mw_SenderID w, tm_SenderName = mw_SenderName w, tm_TargetID = mw_TargetID w,
            tm_Delivery = mw_Delivery w, tm_Content = messageBlocksText blocks, tm_ContentBlocks = blocks, tm_CreatedAt = 0,
            tm_Delivered = False\<rparr>)"

definition known_status :: "TaskStatus \<Rightarrow> bool" where
  "known_status s \<longleftrightarrow> s = TaskPending \<or> s = TaskInProgress \<or> s = TaskCompleted \<or> s = TaskDeleted"

definition validateMemberSnapshot :: "MemberSnapshot \<Rightarrow> team_error option" where
  "validateMemberSnapshot m =
     (if trim_space (ms_ID m) = [] \<or> trim_space (ms_Name m) = [] \<or> \<not> known_phase (ms_Phase m) then Some ErrMemberEvent
      else if \<not> row_name_ok (ms_Name m) then Some ErrMemberName else None)"

definition validateMemberRowLocked :: "(string \<times> MemberSnapshot) list \<Rightarrow> MemberSnapshot \<Rightarrow> team_error option" where
  "validateMemberRowLocked rows m =
     (case validateMemberSnapshot m of
        Some x \<Rightarrow> Some x
      | None \<Rightarrow>
          (case map_of rows (ms_ID m) of
             None \<Rightarrow>
               if list_ex (\<lambda>row. ms_Name row = ms_Name m \<and> ms_ID row \<noteq> ms_ID m) (vals rows) then Some (ErrMemberExists (ms_Name m))
               else if ms_Phase m \<noteq> MemberProvisioning then Some ErrMemberEvent else None
           | Some prior \<Rightarrow>
               if \<not> same_identity prior m then Some ErrMemberImmutable
               else if ms_Phase prior \<noteq> MemberProvisioning \<or> ms_Phase m = MemberProvisioning
                 then Some (ErrMemberTransition (ms_Phase prior) (ms_Phase m)) else None))"

definition apply_member :: "MemberSnapshot \<Rightarrow> unit team_op" where
  "apply_member m b =
     (case (case bd_roster b of None \<Rightarrow> None | Some r \<Rightarrow> validateMemberEventLocked r m) of
        Some x \<Rightarrow> (Inl x, b)
      | None \<Rightarrow>
          (case validateMemberRowLocked (bd_memberRows b) m of
             Some x \<Rightarrow> (Inl x, b)
           | None \<Rightarrow> (Inr (), b\<lparr>bd_memberRows := AList.update (ms_ID m) m (bd_memberRows b),
               bd_roster := map_option (\<lambda>r. snd (ApplyMemberEvent m r)) (bd_roster b)\<rparr>)))"

definition apply_task :: "Task \<Rightarrow> unit team_op" where
  "apply_task t b =
     (if tk_Revision t \<le> 0 \<or> tk_Subject t = [] then (Inl ErrTeamEvent, b)
      else if (case map_of (bd_tasks b) (tk_ID t) of None \<Rightarrow> tk_Revision t \<noteq> 1 | Some prior \<Rightarrow> tk_Revision t \<noteq> tk_Revision prior + 1)
        then (Inl (ErrTaskRevisionGap (tk_ID t)), b)
      else if \<not> known_status (tk_Status t) then (Inl ErrTeamEvent, b)
      else case validateEdges (bd_tasks b) (tk_ID t) (tk_BlockedBy t) of
        Some x \<Rightarrow> (Inl x, b)
      | None \<Rightarrow> (Inr (), b\<lparr>bd_tasks := AList.update (tk_ID t) t (bd_tasks b), bd_next := nat (max (int (bd_next b)) (taskNumber (tk_ID t)))\<rparr>))"

definition apply_queued :: "TeamMessage \<Rightarrow> unit team_op" where
  "apply_queued m b =
     (if tm_Delivery m \<noteq> ''quiet'' \<and> tm_Delivery m \<noteq> ''wakeup'' then (Inl ErrTeamMessage, b)
      else if bd_maxBytes b < int (messageEventBytes m) then (Inl ErrTeamLimit, b)
      else
        let m = (if tm_ContentBlocks m = [] \<and> tm_Content m \<noteq> [] then m\<lparr>tm_ContentBlocks := [Text (tm_Content m)]\<rparr> else m)
        in if blocks_empty (tm_ContentBlocks m) then (Inl ErrTeamMessage, b)
           else if map_of (bd_messages b) (tm_ID m) \<noteq> None then (Inl (ErrQueuedTwice (tm_ID m)), b)
           else if bd_maxPending b \<le> int (length (pending_for (tm_TargetID m) (bd_messages b))) then (Inl ErrTeamLimit, b)
           else (Inr (), b\<lparr>bd_messages := AList.update (tm_ID m) m (bd_messages b), bd_msgNext := max (bd_msgNext b) (messageNumber (tm_ID m))\<rparr>))"

definition apply_delivered :: "string \<Rightarrow> string \<Rightarrow> unit team_op" where
  "apply_delivered i target b =
     (case map_of (bd_messages b) i of
        None \<Rightarrow> (Inl (ErrDelivery i), b)
      | Some m \<Rightarrow>
          if tm_TargetID m \<noteq> target \<or> tm_Delivered m then (Inl (ErrDelivery i), b)
          else (Inr (), b\<lparr>bd_messages := AList.update i (m\<lparr>tm_Delivered := True\<rparr>) (bd_messages b)\<rparr>))"

fun ApplyEvent :: "team_event \<Rightarrow> unit team_op" where
  "ApplyEvent (MemberEvent version teamID m) b =
     (if version \<noteq> 1 \<or> teamID \<noteq> bd_teamID b then (Inl ErrTeamEvent, b) else apply_member m b)"
| "ApplyEvent (TaskEvent version teamID t) b =
     (if version \<noteq> 1 \<or> teamID \<noteq> bd_teamID b \<or> tk_ID t = [] then (Inl ErrTeamEvent, b) else apply_task t b)"
| "ApplyEvent (MessageQueuedEvent version teamID w) b =
     (case decode_queued w of
        None \<Rightarrow> (Inl ErrTeamEvent, b)
      | Some m \<Rightarrow>
          if version \<noteq> 1 \<or> teamID \<noteq> bd_teamID b \<or> tm_ID m = [] \<or> tm_TargetID m = [] \<or> tm_SenderID m = []
            then (Inl ErrTeamEvent, b) else apply_queued m b)"
| "ApplyEvent (MessageDeliveredEvent version teamID i target) b =
     (if version \<noteq> 1 \<or> teamID \<noteq> bd_teamID b \<or> i = [] \<or> target = [] then (Inl ErrTeamEvent, b) else apply_delivered i target b)"
| "ApplyEvent (UndecodedEvent kind) b = (Inl ErrTeamEvent, b)"
| "ApplyEvent (OtherTeamEvent kind) b = (Inl ErrTeamEvent, b)"

definition replay :: "team_event list \<Rightarrow> Board \<Rightarrow> team_error + Board" where
  "replay es b = fold_until (\<lambda>b e. case ApplyEvent e b of (Inl x, b') \<Rightarrow> Inl x | (Inr u, b') \<Rightarrow> Inr b') b es"

section \<open>Snapshots\<close>

record TeamSnapshot =
  ts_TeamID :: string
  ts_Next :: int
  ts_MsgNext :: nat
  ts_Tasks :: "Task list"
  ts_Messages :: "TeamMessage list"
  ts_Members :: "MemberSnapshot list"

definition BoardSnapshot :: "Board \<Rightarrow> TeamSnapshot" where
  "BoardSnapshot b =
     \<lparr>ts_TeamID = bd_teamID b, ts_Next = int (bd_next b), ts_MsgNext = bd_msgNext b,
      ts_Tasks = sort_key tk_ID (vals (bd_tasks b)), ts_Messages = sort_key tm_ID (vals (bd_messages b)),
      ts_Members = (case bd_roster b of Some r \<Rightarrow> RosterSnapshot r | None \<Rightarrow> sort_key ms_ID (vals (bd_memberRows b)))\<rparr>"

definition restore_task :: "tasks \<Rightarrow> Task \<Rightarrow> team_error + tasks" where
  "restore_task ts t =
     (if taskNumber (tk_ID t) \<le> 0 \<or> tk_Revision t \<le> 0 \<or> tk_Subject t = [] \<or> map_of ts (tk_ID t) \<noteq> None then Inl ErrInvalidTask
      else if \<not> known_status (tk_Status t) then Inl ErrInvalidTask
      else if tk_Status t \<noteq> TaskDeleted \<and> tk_DeletedAt t \<noteq> 0 then Inl ErrInvalidTask
      else if tk_Status t = TaskDeleted \<and> tk_DeletedAt t = 0 then Inl ErrInvalidTask
      else Inr (AList.update (tk_ID t) t ts))"

definition check_blockers :: "tasks \<Rightarrow> team_error option" where
  "check_blockers ts =
     (if list_all (\<lambda>t. list_all (\<lambda>j. case map_of ts j of None \<Rightarrow> False | Some other \<Rightarrow> tk_Status other \<noteq> TaskDeleted) (tk_BlockedBy t))
           (vals ts)
      then None else Some ErrInvalidTask)"

definition check_edges :: "tasks \<Rightarrow> team_error option" where
  "check_edges ts = first_error (map (\<lambda>t. validateEdges ts (tk_ID t) (tk_BlockedBy t)) (vals ts))"

definition restore_tasks :: "int \<Rightarrow> Task list \<Rightarrow> team_error + tasks" where
  "restore_tasks maxTasks rows =
     (case fold_until restore_task [] rows of
        Inl x \<Rightarrow> Inl x
      | Inr ts \<Rightarrow>
          (case first_error [check_blockers ts, check_edges ts,
                 check_that ErrTeamLimit (active_tasks ts \<le> maxTasks)] of
             Some x \<Rightarrow> Inl x
           | None \<Rightarrow> Inr ts))"

definition restore_message :: "Board \<Rightarrow> mailbox \<Rightarrow> TeamMessage \<Rightarrow> team_error + mailbox" where
  "restore_message b ms m0 =
     (if messageNumber (tm_ID m0) \<le> 0 \<or> tm_TargetID m0 = [] \<or> tm_SenderID m0 = [] \<or> map_of ms (tm_ID m0) \<noteq> None then Inl ErrTeamMessage
      else if tm_Delivery m0 \<noteq> ''quiet'' \<and> tm_Delivery m0 \<noteq> ''wakeup'' then Inl ErrTeamMessage
      else if bd_maxBytes b < int (length (tm_Content m0)) then Inl ErrTeamLimit
      else
        let m = (if tm_ContentBlocks m0 = [] \<and> tm_Content m0 \<noteq> [] then m0\<lparr>tm_ContentBlocks := [Text (tm_Content m0)]\<rparr> else m0);
            ms = AList.update (tm_ID m) m ms
        in if blocks_empty (tm_ContentBlocks m) then Inl ErrTeamMessage
           else if \<not> tm_Delivered m \<and> bd_maxPending b < int (length (pending_for (tm_TargetID m) ms)) then Inl ErrTeamLimit
           else Inr ms)"

definition restore_member ::
    "(string \<times> MemberSnapshot) list \<Rightarrow> MemberSnapshot \<Rightarrow> team_error + (string \<times> MemberSnapshot) list" where
  "restore_member rows m =
     (case validateMemberSnapshot m of
        Some x \<Rightarrow> Inl x
      | None \<Rightarrow> if map_of rows (ms_ID m) \<noteq> None then Inl (ErrMemberExists (ms_ID m)) else Inr (AList.update (ms_ID m) m rows))"

text \<open>The roster is restored before the rows of the board are checked.\<close>

definition BoardRestore :: "TeamSnapshot \<Rightarrow> unit team_op" where
  "BoardRestore s b =
     (if ts_TeamID s \<noteq> bd_teamID b \<or> trim_space (ts_TeamID s) = [] then (Inl ErrTeamMismatch, b)
      else case restore_tasks (bd_maxTasks b) (ts_Tasks s) of
        Inl x \<Rightarrow> (Inl x, b)
      | Inr tasks \<Rightarrow>
          (case fold_until (restore_message b) [] (ts_Messages s) of
             Inl x \<Rightarrow> (Inl x, b)
           | Inr messages \<Rightarrow>
               (case (case bd_roster b of
                        None \<Rightarrow> (Inr (), None)
                      | Some r \<Rightarrow> if ts_Members s = [] then (Inr (), Some r)
                                 else (case RosterRestore (ts_Members s) r of (x, r) \<Rightarrow> (x, Some r))) of
                  (Inl x, roster) \<Rightarrow> (Inl x, b)
                | (Inr u, roster) \<Rightarrow>
                    (case fold_until restore_member [] (ts_Members s) of
                       Inl x \<Rightarrow> (Inl x, b\<lparr>bd_roster := roster\<rparr>)
                     | Inr members \<Rightarrow>
                         (Inr (), b\<lparr>bd_tasks := tasks, bd_messages := messages, bd_memberRows := members, bd_roster := roster,
                            bd_next := nat (max (ts_Next s) (foldr max (map (\<lambda>t. taskNumber (tk_ID t)) (ts_Tasks s)) 0)),
                            bd_msgNext := max (ts_MsgNext s) (foldr max (map (\<lambda>m. messageNumber (tm_ID m)) (ts_Messages s)) 0)\<rparr>)))))"

end
