(* ===== verification/Team_Graph.thy ===== *)
theory Team_Graph
  imports Team_Board
begin

text \<open>
  The dependency graph of the team board: the depth-first walk decides reachability, and every run of
  the task operations keeps the graph acyclic, with live tasks depending on live tasks only.
\<close>

section \<open>The walk\<close>

definition dep_edges :: "tasks \<Rightarrow> (string \<times> string) set" where
  "dep_edges ts = {(a, b). b \<in> set (deps ts a)}"

text \<open>The edges that leave an unseen task.\<close>

definition open_edges :: "tasks \<Rightarrow> string list \<Rightarrow> (string \<times> string) set" where
  "open_edges ts seen = {(a, b). a \<notin> set seen \<and> b \<in> set (deps ts a)}"

lemma open_edges_all [simp]: "open_edges ts [] = dep_edges ts"
  by (simp add: open_edges_def dep_edges_def)

lemma open_edges_mono: "(y, t) \<in> (open_edges ts (x # seen))\<^sup>* \<Longrightarrow> (y, t) \<in> (open_edges ts seen)\<^sup>*"
  by (rule rtrancl_mono [THEN subsetD]) (auto simp: open_edges_def)

text \<open>A path either avoids a task or can be entered after it.\<close>

lemma path_after:
  assumes "(y, t) \<in> (open_edges ts seen)\<^sup>*" and "x \<noteq> t"
  shows "(y, t) \<in> (open_edges ts (x # seen))\<^sup>* \<or> (\<exists>d \<in> set (deps ts x). (d, t) \<in> (open_edges ts (x # seen))\<^sup>*)"
  using assms(1)
proof (induction rule: converse_rtrancl_induct)
  case (step y z)
  show ?case
  proof (cases "y = x")
    case True
    then have "z \<in> set (deps ts x)" using step(1) by (simp add: open_edges_def)
    then show ?thesis using step.IH by blast
  next
    case False
    then have "(y, z) \<in> open_edges ts (x # seen)" using step(1) by (simp add: open_edges_def)
    then show ?thesis using step.IH by (meson converse_rtrancl_into_rtrancl)
  qed
qed simp

lemma stuck: "x \<in> set seen \<Longrightarrow> (x, t) \<in> (open_edges ts seen)\<^sup>* \<longleftrightarrow> x = t"
  by (auto simp: open_edges_def elim: converse_rtranclE)

lemma reaches_iff: "reaches ts t xs seen \<longleftrightarrow> (\<exists>x \<in> set xs. (x, t) \<in> (open_edges ts seen)\<^sup>*)"
proof (induction ts t xs seen rule: reaches.induct)
  case (2 ts t x xs seen)
  show ?case
  proof (cases "x = t")
    case False
    show ?thesis
    proof (cases "x \<in> set seen")
      case True
      then show ?thesis using 2(1) False stuck [OF True, of t ts] by simp
    next
      case unseen: False
      have ih: "reaches ts t (deps ts x @ xs) (x # seen) \<longleftrightarrow>
          (\<exists>y \<in> set (deps ts x @ xs). (y, t) \<in> (open_edges ts (x # seen))\<^sup>*)" by (rule 2(2) [OF False unseen])
      have "(\<exists>y \<in> set (x # xs). (y, t) \<in> (open_edges ts seen)\<^sup>*)"
        if y: "y \<in> set (deps ts x @ xs)" "(y, t) \<in> (open_edges ts (x # seen))\<^sup>*" for y
      proof (cases "y \<in> set xs")
        case False
        then have "(x, y) \<in> open_edges ts seen" using y(1) unseen by (simp add: open_edges_def)
        then show ?thesis using open_edges_mono [OF y(2)] by (meson converse_rtrancl_into_rtrancl list.set_intros(1))
      qed (use open_edges_mono [OF y(2)] in auto)
      moreover have "\<exists>y \<in> set (deps ts x @ xs). (y, t) \<in> (open_edges ts (x # seen))\<^sup>*"
        if y: "y \<in> set (x # xs)" "(y, t) \<in> (open_edges ts seen)\<^sup>*" for y
        using path_after [OF y(2) False] y(1) stuck [of x "x # seen" t ts] False by auto
      ultimately show ?thesis using ih False unseen by (metis reaches.simps(2))
    qed
  qed simp
qed simp

lemma reachesLocked_iff: "reachesLocked ts i j \<longleftrightarrow> (i, j) \<in> (dep_edges ts)\<^sup>*"
  by (simp add: reachesLocked_def reaches_iff)

text \<open>
  Fact: the dependency check of the board, a depth-first walk with a shared set of seen tasks, decides
  exactly whether one task depends on another through any number of steps.
\<close>

theorem reaches_spec: "reachesLocked ts i j \<longleftrightarrow> (i, j) \<in> (dep_edges ts)\<^sup>*"
  by (rule reachesLocked_iff)

section \<open>Validated dependencies\<close>

lemma edge_errors_None:
  "edge_errors ts i seen js = None \<longleftrightarrow>
     distinct js \<and> set js \<inter> set seen = {} \<and>
     (\<forall>j \<in> set js. j \<noteq> i \<and> (\<exists>t. map_of ts j = Some t \<and> tk_Status t \<noteq> TaskDeleted) \<and> (j, i) \<notin> (dep_edges ts)\<^sup>*)"
  by (induction ts i seen js rule: edge_errors.induct) (auto simp: reachesLocked_iff split: option.splits)

lemma validateEdges_None:
  "validateEdges ts i js = None \<longleftrightarrow> distinct js \<and>
     (\<forall>j \<in> set js. j \<noteq> i \<and> (\<exists>t. map_of ts j = Some t \<and> tk_Status t \<noteq> TaskDeleted) \<and> (j, i) \<notin> (dep_edges ts)\<^sup>*)"
  by (simp add: validateEdges_def edge_errors_None)

lemma cleanIDs_id:
  "distinct js \<Longrightarrow> set js \<inter> set seen = {} \<Longrightarrow> (\<forall>j \<in> set js. trim_space j \<noteq> []) \<Longrightarrow> cleanIDs seen js = js"
  by (induction seen js rule: cleanIDs.induct) auto

lemma cleanIDs_clean [simp]: "set (cleanIDs seen js) \<subseteq> set js - set seen" "distinct (cleanIDs seen js)"
  by (induction seen js rule: cleanIDs.induct) auto

section \<open>The invariant\<close>

definition live :: "tasks \<Rightarrow> string \<Rightarrow> bool" where
  "live ts j \<longleftrightarrow> (\<exists>t. map_of ts j = Some t \<and> tk_Status t \<noteq> TaskDeleted)"

definition task_ok :: "nat \<Rightarrow> tasks \<Rightarrow> string \<Rightarrow> Task \<Rightarrow> bool" where
  "task_ok n ts i t \<longleftrightarrow> tk_ID t = i \<and> (\<exists>k. 0 < k \<and> k \<le> n \<and> i = task_id k) \<and> 1 \<le> tk_Revision t \<and> tk_Subject t \<noteq> [] \<and>
     (\<forall>s. tk_Status t \<noteq> OtherTaskStatus s) \<and> (tk_DeletedAt t \<noteq> 0 \<longleftrightarrow> tk_Status t = TaskDeleted) \<and>
     distinct (tk_BlockedBy t) \<and> set (tk_BlockedBy t) \<subseteq> fst ` set ts \<and>
     (tk_Status t \<noteq> TaskDeleted \<longrightarrow> (\<forall>j \<in> set (tk_BlockedBy t). live ts j))"

definition tasks_ok :: "nat \<Rightarrow> tasks \<Rightarrow> bool" where
  "tasks_ok n ts \<longleftrightarrow> wf_map ts \<and> acyclic (dep_edges ts) \<and> (\<forall>i t. map_of ts i = Some t \<longrightarrow> task_ok n ts i t)"

definition board_ok :: "Board \<Rightarrow> bool" where
  "board_ok b \<longleftrightarrow> tasks_ok (bd_next b) (bd_tasks b) \<and> active_tasks (bd_tasks b) \<le> bd_maxTasks b"

lemma task_id_inj [simp]: "task_id m = task_id n \<longleftrightarrow> m = n"
  by (simp add: task_id_def)

lemma trim_nonblank: "x \<in> set s \<Longrightarrow> \<not> is_space x \<Longrightarrow> trim_space s \<noteq> []"
proof
  assume x: "x \<in> set s" "\<not> is_space x" and t: "trim_space s = []"
  have "x \<in> set (takeWhile is_space s @ dropWhile is_space s)" using x(1) by (simp only: takeWhile_dropWhile_id)
  then have "x \<in> set (dropWhile is_space s)" using x(2) set_takeWhileD [of x is_space s] unfolding set_append Un_iff by blast
  moreover have "\<forall>y \<in> set (dropWhile is_space s). is_space y"
    using t unfolding trim_space_def by (simp add: dropWhile_eq_Nil_conv)
  ultimately show False using x(2) by blast
qed

lemma trim_task_id: "trim_space (task_id n) \<noteq> []"
  by (rule trim_nonblank [of "CHR ''t''"]) (simp_all add: task_id_def is_space_def)

lemma tasks_okD:
  assumes "tasks_ok n ts"
  shows "wf_map ts" and "acyclic (dep_edges ts)" and "map_of ts i = Some t \<Longrightarrow> task_ok n ts i t"
  using assms by (auto simp: tasks_ok_def)

lemma ok_key:
  assumes "tasks_ok n ts" and "map_of ts j = Some t"
  shows "trim_space j \<noteq> []"
  using tasks_okD(3) [OF assms] trim_task_id by (auto simp: task_ok_def)

lemma deps_update: "deps (AList.update i t ts) j = (if j = i then tk_BlockedBy t else deps ts j)"
  by (simp add: deps_def)

lemma dep_edges_update: "dep_edges (AList.update i t ts) = {(a, b) \<in> dep_edges ts. a \<noteq> i} \<union> {i} \<times> set (tk_BlockedBy t)"
  by (auto simp: dep_edges_def deps_update split: if_splits)

text \<open>New dependencies of one task keep the graph acyclic when none of them reaches it.\<close>

lemma acyclic_redirect:
  assumes "acyclic r" and "\<And>j. j \<in> J \<Longrightarrow> (j, i) \<notin> r\<^sup>*"
  shows "acyclic ({(a, b) \<in> r. a \<noteq> i} \<union> {i} \<times> J)"
proof -
  let ?r = "{(a, b) \<in> r. a \<noteq> i}"
  have sub: "?r\<^sup>* \<subseteq> r\<^sup>*" by (rule rtrancl_mono) auto
  have via: "(x, y) \<in> ?r\<^sup>* \<or> ((x, i) \<in> ?r\<^sup>* \<and> (\<exists>j \<in> J. (j, y) \<in> (?r \<union> {i} \<times> J)\<^sup>*))" if "(x, y) \<in> (?r \<union> {i} \<times> J)\<^sup>*" for x y
    using that
  proof (induction rule: converse_rtrancl_induct)
    case (step x z)
    show ?case
    proof (cases "(x, z) \<in> ?r")
      case True
      then show ?thesis using step.IH by (meson converse_rtrancl_into_rtrancl)
    next
      case False
      then show ?thesis using step(1,2) by auto
    qed
  qed simp
  have no: "(j, i) \<notin> (?r \<union> {i} \<times> J)\<^sup>*" if "j \<in> J" for j
  proof
    assume "(j, i) \<in> (?r \<union> {i} \<times> J)\<^sup>*"
    then have "(j, i) \<in> ?r\<^sup>*" using via [of j i] by auto
    then show False using sub assms(2) [OF that] by blast
  qed
  show ?thesis
  proof (rule acyclicI, rule allI, rule notI)
    fix x assume "(x, x) \<in> (?r \<union> {i} \<times> J)\<^sup>+"
    then obtain z where z: "(x, z) \<in> ?r \<union> {i} \<times> J" "(z, x) \<in> (?r \<union> {i} \<times> J)\<^sup>*" by (meson tranclD)
    show False
    proof (cases "x = i")
      case True
      then show False using z no by auto
    next
      case False
      then have xz: "(x, z) \<in> ?r" using z(1) by auto
      show False
        using via [OF z(2)]
      proof
        assume "(z, x) \<in> ?r\<^sup>*"
        moreover have "(x, z) \<in> r" using xz by simp
        ultimately have "(x, x) \<in> r\<^sup>+" using sub by (blast intro: rtrancl_into_trancl2)
        then show False using assms(1) by (auto simp: acyclic_def)
      next
        assume a: "(z, i) \<in> ?r\<^sup>* \<and> (\<exists>j \<in> J. (j, x) \<in> (?r \<union> {i} \<times> J)\<^sup>*)"
        then obtain j where j: "j \<in> J" "(j, x) \<in> (?r \<union> {i} \<times> J)\<^sup>*" by blast
        have "(x, i) \<in> (?r \<union> {i} \<times> J)\<^sup>*"
        proof (rule converse_rtrancl_into_rtrancl)
          show "(x, z) \<in> ?r \<union> {i} \<times> J" using xz by blast
          show "(z, i) \<in> (?r \<union> {i} \<times> J)\<^sup>*" using a rtrancl_mono [OF Un_upper1 [of ?r "{i} \<times> J"]] by blast
        qed
        then have "(j, i) \<in> (?r \<union> {i} \<times> J)\<^sup>*" using j(2) by (rule rtrancl_trans [rotated])
        then show False using no [OF j(1)] by simp
      qed
    qed
  qed
qed


section \<open>Storing a task\<close>

definition good_edges :: "tasks \<Rightarrow> string \<Rightarrow> string list \<Rightarrow> bool" where
  "good_edges ts i js \<longleftrightarrow> distinct js \<and> (\<forall>j \<in> set js. live ts j \<and> j \<noteq> i \<and> (j, i) \<notin> (dep_edges ts)\<^sup>*)"

lemma live_key: "live ts j \<Longrightarrow> j \<in> fst ` set ts"
  by (auto simp: live_def dest: map_of_SomeD intro: image_eqI [rotated])

lemma validated_edges:
  assumes ok: "tasks_ok n ts" and v: "validateEdges ts i js = None"
  shows "cleanIDs [] js = js" and "good_edges ts i js"
proof -
  have js: "distinct js" "\<forall>j \<in> set js. j \<noteq> i \<and> live ts j \<and> (j, i) \<notin> (dep_edges ts)\<^sup>*"
    using v by (auto simp: validateEdges_None live_def)
  then have "\<forall>j \<in> set js. trim_space j \<noteq> []" using ok_key [OF ok] by (auto simp: live_def)
  then show "cleanIDs [] js = js" using js(1) by (intro cleanIDs_id) auto
  show "good_edges ts i js" using js by (auto simp: good_edges_def)
qed

lemma old_edges:
  assumes ok: "tasks_ok n ts" and t: "map_of ts i = Some t" "tk_Status t \<noteq> TaskDeleted"
  shows "good_edges ts i (tk_BlockedBy t)"
proof -
  note o = tasks_okD(3) [OF ok t(1)]
  have "(i, j) \<in> dep_edges ts" if "j \<in> set (tk_BlockedBy t)" for j using that t(1) by (simp add: dep_edges_def deps_def)
  then have "(j, i) \<notin> (dep_edges ts)\<^sup>*" "j \<noteq> i" if "j \<in> set (tk_BlockedBy t)" for j
    using that tasks_okD(2) [OF ok] by (auto simp: acyclic_def dest: rtrancl_into_trancl2 trancl.r_into_trancl)
  then show ?thesis using o t(2) by (auto simp: good_edges_def task_ok_def)
qed

text \<open>No task depends on an id that is not there.\<close>

lemma fresh_unreached:
  assumes ok: "tasks_ok n ts" and i: "map_of ts i = None" and j: "j \<noteq> i"
  shows "(j, i) \<notin> (dep_edges ts)\<^sup>*"
proof
  assume "(j, i) \<in> (dep_edges ts)\<^sup>*"
  with j obtain k where "(k, i) \<in> dep_edges ts" by (meson rtranclE)
  then have "i \<in> set (deps ts k)" by (simp add: dep_edges_def)
  then obtain t where "map_of ts k = Some t" "i \<in> set (tk_BlockedBy t)"
    by (cases "map_of ts k") (auto simp: deps_def)
  then have "i \<in> fst ` set ts" using tasks_okD(3) [OF ok, of k t] unfolding task_ok_def by blast
  then show False using i by (simp add: map_of_eq_None_iff)
qed

text \<open>What a task to be stored has to satisfy.\<close>

definition storable :: "nat \<Rightarrow> tasks \<Rightarrow> Task \<Rightarrow> bool" where
  "storable n ts t \<longleftrightarrow> (\<exists>k. 0 < k \<and> k \<le> n \<and> tk_ID t = task_id k) \<and> 1 \<le> tk_Revision t \<and> tk_Subject t \<noteq> [] \<and>
     (\<forall>s. tk_Status t \<noteq> OtherTaskStatus s) \<and> (tk_DeletedAt t \<noteq> 0 \<longleftrightarrow> tk_Status t = TaskDeleted) \<and>
     good_edges ts (tk_ID t) (tk_BlockedBy t) \<and>
     (tk_Status t = TaskDeleted \<longrightarrow> (\<forall>i u. map_of ts i = Some u \<longrightarrow> i \<noteq> tk_ID t \<longrightarrow> tk_Status u \<noteq> TaskDeleted \<longrightarrow>
        tk_ID t \<notin> set (tk_BlockedBy u)))"

lemma keys_update: "fst ` set (AList.update i t ts) = insert i (fst ` set ts)"
  by (metis dom_map_of_conv_image_fst dom_fun_upd map_of_update option.distinct(1))

lemma store_task:
  assumes ok: "tasks_ok n ts" and n: "n \<le> n'" and t: "storable n' ts t"
  shows "tasks_ok n' (AList.update (tk_ID t) t ts)"
  unfolding tasks_ok_def
proof (intro conjI allI impI)
  let ?i = "tk_ID t" and ?ts = "AList.update (tk_ID t) t ts"
  show "wf_map ?ts" using tasks_okD(1) [OF ok] by simp
  have edges: "distinct (tk_BlockedBy t)" "\<And>j. j \<in> set (tk_BlockedBy t) \<Longrightarrow> live ts j \<and> j \<noteq> ?i \<and> (j, ?i) \<notin> (dep_edges ts)\<^sup>*"
    using t by (auto simp: storable_def good_edges_def)
  show "acyclic (dep_edges ?ts)"
    unfolding dep_edges_update by (rule acyclic_redirect [OF tasks_okD(2) [OF ok]]) (use edges(2) in blast)
  have live': "live ?ts j" if "live ts j" "j \<noteq> ?i" for j using that by (simp add: live_def)
  fix i u assume u: "map_of ?ts i = Some u"
  show "task_ok n' ?ts i u"
  proof (cases "i = ?i")
    case True
    then have "u = t" using u by simp
    moreover have "set (tk_BlockedBy t) \<subseteq> fst ` set ?ts" using edges(2) live_key unfolding keys_update by blast
    ultimately show ?thesis
      using t True edges live' by (auto simp: task_ok_def storable_def)
  next
    case False
    then have old: "map_of ts i = Some u" using u by simp
    note o = tasks_okD(3) [OF ok old]
    have "live ?ts j" if j: "j \<in> set (tk_BlockedBy u)" and l: "tk_Status u \<noteq> TaskDeleted" for j
    proof (cases "j = ?i")
      case True
      then have "tk_Status t \<noteq> TaskDeleted" using t old False l j by (auto simp: storable_def)
      then show ?thesis using True by (simp add: live_def)
    next
      case False
      then show ?thesis using live' o j l by (auto simp: task_ok_def)
    qed
    moreover have "\<exists>k. 0 < k \<and> k \<le> n' \<and> i = task_id k" using o n by (auto simp: task_ok_def intro: order_trans)
    ultimately show ?thesis using o unfolding task_ok_def keys_update by auto
  qed
qed

section \<open>Live tasks\<close>

lemma active_card: "wf_map ts \<Longrightarrow> active_tasks ts = int (card {i. live ts i})"
proof -
  assume wf: "wf_map ts"
  let ?F = "filter (\<lambda>x. tk_Status (snd x) \<noteq> TaskDeleted) ts"
  have "{i. live ts i} = fst ` set ?F" using wf by (force simp: live_def wf_map_in_set [symmetric])
  moreover have "distinct (map fst ?F)" using wf wf_map_filter unfolding wf_map_def by blast
  ultimately have "card {i. live ts i} = length ?F" by (metis distinct_card length_map set_map)
  moreover have "length (filter (\<lambda>t. tk_Status t \<noteq> TaskDeleted) (vals ts)) = length ?F"
    by (simp add: filter_map comp_def)
  ultimately show ?thesis by (simp add: active_tasks_def)
qed

lemma live_finite: "finite {i. live ts i}"
  by (rule finite_subset [of _ "fst ` set ts"]) (auto dest: live_key)

lemma active_update:
  assumes "wf_map ts" and "live ts (tk_ID t)"
  shows "active_tasks (AList.update (tk_ID t) t ts) \<le> active_tasks ts"
proof -
  have "{i. live (AList.update (tk_ID t) t ts) i} \<subseteq> {i. live ts i}" using assms(2) by (auto simp: live_def split: if_splits)
  then show ?thesis using assms(1) by (simp add: active_card card_mono live_finite)
qed

lemma active_new:
  assumes "wf_map ts"
  shows "active_tasks (AList.update (tk_ID t) t ts) \<le> active_tasks ts + 1"
proof -
  have "{i. live (AList.update (tk_ID t) t ts) i} \<subseteq> insert (tk_ID t) {i. live ts i}" by (auto simp: live_def split: if_splits)
  then have "card {i. live (AList.update (tk_ID t) t ts) i} \<le> card (insert (tk_ID t) {i. live ts i})"
    by (rule card_mono [rotated]) (simp add: live_finite)
  also have "\<dots> \<le> card {i. live ts i} + 1" by (simp add: card_insert_if live_finite)
  finally show ?thesis using assms by (simp add: active_card)
qed


section \<open>The operations\<close>

text \<open>A task on its way to the store.\<close>

definition staged :: "tasks \<Rightarrow> Task \<Rightarrow> Task \<Rightarrow> bool" where
  "staged ts t u \<longleftrightarrow> tk_ID u = tk_ID t \<and> tk_Revision u = tk_Revision t \<and> tk_Subject u \<noteq> [] \<and>
     (\<forall>s. tk_Status u \<noteq> OtherTaskStatus s) \<and> (tk_DeletedAt u \<noteq> 0 \<longleftrightarrow> tk_Status u = TaskDeleted) \<and>
     good_edges ts (tk_ID u) (tk_BlockedBy u) \<and>
     (tk_Status u = TaskDeleted \<longrightarrow> (\<forall>i v. map_of ts i = Some v \<longrightarrow> i \<noteq> tk_ID u \<longrightarrow> tk_Status v \<noteq> TaskDeleted \<longrightarrow>
        tk_ID u \<notin> set (tk_BlockedBy v)))"

lemma staged_fields:
  assumes "staged ts t u"
  shows "s \<noteq> [] \<Longrightarrow> staged ts t (u\<lparr>tk_Subject := s\<rparr>)" and "staged ts t (u\<lparr>tk_Description := d\<rparr>)"
    and "staged ts t (u\<lparr>tk_WriteScopes := ss\<rparr>)" and "staged ts t (u\<lparr>tk_OwnerID := a\<rparr>)"
    and "good_edges ts (tk_ID u) js \<Longrightarrow> staged ts t (u\<lparr>tk_BlockedBy := js\<rparr>)"
    and "tk_DeletedAt u = 0 \<Longrightarrow> st \<in> {TaskPending, TaskInProgress, TaskCompleted} \<Longrightarrow> staged ts t (u\<lparr>tk_Status := st\<rparr>)"
  using assms by (auto simp: staged_def)

lemma put_scopes_staged: "staged ts t u \<Longrightarrow> put_scopes ss u = Inr v \<Longrightarrow> staged ts t v"
  by (auto simp: put_scopes_def staged_fields split: option.splits)

lemma put_edges_staged:
  assumes "tasks_ok n ts" and "staged ts t u" and "put_edges ts js u = Inr v"
  shows "staged ts t v"
  using assms validated_edges [OF assms(1), of "tk_ID u"]
  by (auto simp: put_edges_def staged_fields split: option.splits)

lemma staged_live:
  assumes "tasks_ok n ts" and "map_of ts i = Some t" and "tk_Status t \<noteq> TaskDeleted"
  shows "staged ts t t" and "tk_DeletedAt t = 0"
  using tasks_okD(3) [OF assms(1,2)] old_edges [OF assms] assms(3) by (auto simp: staged_def task_ok_def)

lemma action_staged:
  assumes ok: "tasks_ok n (bd_tasks b)" and t: "map_of (bd_tasks b) i = Some t" "tk_Status t \<noteq> TaskDeleted"
    and now: "now \<noteq> 0" and a: "task_action now b u t = Inr v"
  shows "staged (bd_tasks b) t v"
proof -
  note st = staged_live [OF ok t]
  have status: "staged (bd_tasks b) t (t\<lparr>tk_Status := s, tk_OwnerID := x\<rparr>)" "staged (bd_tasks b) t (t\<lparr>tk_Status := s\<rparr>)"
    if "s \<in> {TaskPending, TaskInProgress, TaskCompleted}" for s x
    using staged_fields(4) [OF staged_fields(6) [OF st that]] staged_fields(6) [OF st that] by simp_all
  have edit: "staged (bd_tasks b) t v" if "edit_task u t = Inr v"
  proof -
    let ?v = "if up_Subject u \<noteq> [] then t\<lparr>tk_Subject := trim_space (up_Subject u)\<rparr> else t"
    let ?w = "if up_Description u \<noteq> [] then ?v\<lparr>tk_Description := trim_space (up_Description u)\<rparr> else ?v"
    have "put_scopes (up_WriteScopes u) ?w = Inr v" and s: "up_Subject u \<noteq> [] \<longrightarrow> trim_space (up_Subject u) \<noteq> []"
      using that by (simp_all add: edit_task_def Let_def split: if_split_asm)
    moreover have "staged (bd_tasks b) t ?w" using st(1) s by (simp add: staged_fields)
    ultimately show ?thesis using put_scopes_staged by blast
  qed
  have reassign: "staged (bd_tasks b) t v" if "reassign_task b u t = Inr v"
    using that status by (auto simp: reassign_task_def split: option.splits if_splits)
  have del: "staged (bd_tasks b) t (t\<lparr>tk_Status := TaskDeleted, tk_DeletedAt := now\<rparr>)"
    if "\<not> list_ex (\<lambda>other. tk_Status other \<noteq> TaskDeleted \<and> tk_ID other \<noteq> tk_ID t \<and> tk_ID t \<in> set (tk_BlockedBy other)) (vals (bd_tasks b))"
  proof -
    have "tk_ID t \<notin> set (tk_BlockedBy w)"
      if w: "map_of (bd_tasks b) k = Some w" "k \<noteq> tk_ID t" "tk_Status w \<noteq> TaskDeleted" for k w
    proof -
      have "tk_ID w = k" using tasks_okD(3) [OF ok w(1)] by (simp add: task_ok_def)
      moreover have "w \<in> snd ` set (bd_tasks b)" using map_of_SomeD [OF w(1)] by (rule image_eqI [rotated]) simp
      ultimately show ?thesis using \<open>\<not> list_ex _ _\<close> w(2,3) by (auto simp: list_ex_iff)
    qed
    then show ?thesis using st(1) now by (simp add: staged_def)
  qed
  show ?thesis
    using a status edit reassign del put_edges_staged [OF ok st(1)]
    by (auto simp: task_action_def split: if_splits)
qed

lemma fields_staged:
  assumes "tasks_ok n (bd_tasks b)" and "staged (bd_tasks b) t v" and "task_fields b u v = Inr w"
  shows "staged (bd_tasks b) t w"
proof -
  let ?v = "if up_Subject u \<noteq> [] then v\<lparr>tk_Subject := up_Subject u\<rparr> else v"
  let ?w = "if up_Description u \<noteq> [] then ?v\<lparr>tk_Description := up_Description u\<rparr> else ?v"
  have "staged (bd_tasks b) t ?w" using assms(2) by (simp add: staged_fields)
  moreover obtain x where "put_edges (bd_tasks b) (if up_Action u \<noteq> ''set_dependencies'' then up_BlockedBy u else None) ?w = Inr x"
    and "put_scopes (if up_Action u \<noteq> ''edit'' then up_WriteScopes u else None) x = Inr w"
    using assms(3) unfolding task_fields_def Let_def by (auto split: sum.splits)
  ultimately show ?thesis using put_edges_staged [OF assms(1)] put_scopes_staged by blast
qed


lemma reserve_id_range:
  "reserve_id k name ask n = (r, n') \<Longrightarrow> n \<le> n' \<and> (\<forall>i. r = Inr i \<longrightarrow> n < n' \<and> i = name n')"
proof (induction k arbitrary: n)
  case (Suc k)
  show ?case
  proof (cases ask)
    case (Some f)
    then show ?thesis using Suc.prems Suc.IH [of "n + 1"] by (cases "f (name (n + 1))") auto
  qed (use Suc.prems in auto)
qed auto

text \<open>An update stores one staged task or changes nothing.\<close>

lemma UpdateTask_cases:
  assumes ok: "tasks_ok n (bd_tasks b)" and now: "now \<noteq> 0"
  shows "(\<exists>x. UpdateTask now u b = (Inl x, b)) \<or>
    (\<exists>t w. map_of (bd_tasks b) (up_ID u) = Some t \<and> tk_Status t \<noteq> TaskDeleted \<and> up_Revision u = tk_Revision t \<and>
       (\<exists>v. task_action now b u t = Inr v \<and> task_fields b u v = Inr w) \<and> staged (bd_tasks b) t w \<and>
       UpdateTask now u b = (Inr (viewLocked (bd_tasks (put_task (w\<lparr>tk_Revision := tk_Revision t + 1\<rparr>)
            (TaskUpdate (w\<lparr>tk_Revision := tk_Revision t + 1\<rparr>)) b)) (w\<lparr>tk_Revision := tk_Revision t + 1\<rparr>)),
          put_task (w\<lparr>tk_Revision := tk_Revision t + 1\<rparr>) (TaskUpdate (w\<lparr>tk_Revision := tk_Revision t + 1\<rparr>)) b))"
proof (cases "map_of (bd_tasks b) (up_ID u)")
  case (Some t)
  show ?thesis
  proof (cases "up_Revision u = tk_Revision t \<and> tk_Status t \<noteq> TaskDeleted")
    case True
    show ?thesis
    proof (cases "task_action now b u t")
      case (Inr v)
      have v: "staged (bd_tasks b) t v" using action_staged [OF ok Some _ now Inr] True by simp
      show ?thesis
      proof (cases "task_fields b u v")
        case (Inr w)
        note w = fields_staged [OF ok v Inr]
        have "tk_Revision w = tk_Revision t" using w by (simp add: staged_def)
        then have "UpdateTask now u b = (Inr (viewLocked (bd_tasks (put_task (w\<lparr>tk_Revision := tk_Revision t + 1\<rparr>)
            (TaskUpdate (w\<lparr>tk_Revision := tk_Revision t + 1\<rparr>)) b)) (w\<lparr>tk_Revision := tk_Revision t + 1\<rparr>)),
          put_task (w\<lparr>tk_Revision := tk_Revision t + 1\<rparr>) (TaskUpdate (w\<lparr>tk_Revision := tk_Revision t + 1\<rparr>)) b)"
          using Some True \<open>task_action now b u t = Inr v\<close> Inr by (simp add: UpdateTask_def Let_def)
        then show ?thesis using Some True \<open>task_action now b u t = Inr v\<close> Inr w by blast
      qed (use Some True Inr in \<open>simp add: UpdateTask_def\<close>)
    qed (use Some True in \<open>simp add: UpdateTask_def\<close>)
  qed (use Some in \<open>auto simp: UpdateTask_def\<close>)
qed (simp add: UpdateTask_def)

lemma put_task_fields [simp]:
  "bd_tasks (put_task t ev b) = AList.update (tk_ID t) t (bd_tasks b)" "bd_next (put_task t ev b) = bd_next b"
  "bd_maxTasks (put_task t ev b) = bd_maxTasks b" "bd_emitted (put_task t ev b) = bd_emitted b @ [ev]"
  "bd_teamID (put_task t ev b) = bd_teamID b"
  by (simp_all add: put_task_def)

lemma staged_storable:
  assumes ok: "tasks_ok n ts" and t: "map_of ts i = Some t" and w: "staged ts t w"
  shows "storable n ts (w\<lparr>tk_Revision := tk_Revision t + 1\<rparr>)"
  using tasks_okD(3) [OF ok t] w by (auto simp: storable_def staged_def task_ok_def)

text \<open>What an operation does to the board: it stores one task, with the revision that follows, and reports it.\<close>

definition stores :: "Board \<Rightarrow> (Task \<Rightarrow> team_emit) \<Rightarrow> nat \<Rightarrow> Task \<Rightarrow> bool" where
  "stores b ev n t \<longleftrightarrow> bd_next b \<le> n \<and> storable n (bd_tasks b) t \<and>
     (case map_of (bd_tasks b) (tk_ID t) of
        None \<Rightarrow> ev = TaskCreate \<and> tk_Revision t = 1 \<and> bd_next b < n \<and> active_tasks (bd_tasks b) < bd_maxTasks b
      | Some prior \<Rightarrow> ev = TaskUpdate \<and> tk_Revision t = tk_Revision prior + 1 \<and> tk_Status prior \<noteq> TaskDeleted)"

lemma board_ok_stores:
  assumes ok: "board_ok b" and st: "stores b ev n t"
  shows "board_ok (put_task t (ev t) (b\<lparr>bd_next := n\<rparr>))"
proof -
  from ok have ts: "tasks_ok (bd_next b) (bd_tasks b)" "active_tasks (bd_tasks b) \<le> bd_maxTasks b" by (simp_all add: board_ok_def)
  have "active_tasks (AList.update (tk_ID t) t (bd_tasks b)) \<le> bd_maxTasks b"
  proof (cases "map_of (bd_tasks b) (tk_ID t)")
    case None
    then show ?thesis using active_new [OF tasks_okD(1) [OF ts(1)], of t] st by (simp add: stores_def)
  next
    case (Some prior)
    then have "live (bd_tasks b) (tk_ID t)" using st by (simp add: stores_def live_def)
    then show ?thesis using active_update [OF tasks_okD(1) [OF ts(1)]] ts(2) by fastforce
  qed
  moreover have "tasks_ok n (AList.update (tk_ID t) t (bd_tasks b))"
    using st by (intro store_task [OF ts(1)]) (simp_all add: stores_def)
  ultimately show ?thesis by (simp add: board_ok_def)
qed

lemma board_ok_next: "board_ok b \<Longrightarrow> bd_next b \<le> n \<Longrightarrow> board_ok (b\<lparr>bd_next := n\<rparr>)"
  unfolding board_ok_def tasks_ok_def task_ok_def by (simp, meson order_trans)

lemma UpdateTask_stores:
  assumes ok: "board_ok b" and now: "now \<noteq> 0"
  shows "(\<exists>x. UpdateTask now u b = (Inl x, b)) \<or>
    (\<exists>t. tk_ID t = up_ID u \<and> stores b TaskUpdate (bd_next b) t \<and>
       UpdateTask now u b = (Inr (viewLocked (AList.update (tk_ID t) t (bd_tasks b)) t), put_task t (TaskUpdate t) b))"
proof -
  from ok have ts: "tasks_ok (bd_next b) (bd_tasks b)" by (simp add: board_ok_def)
  from UpdateTask_cases [OF ts now, of u] show ?thesis
  proof (elim disjE exE conjE)
    fix x assume "UpdateTask now u b = (Inl x, b)"
    then show ?thesis by simp
  next
    fix t w v :: Task
    let ?w = "w\<lparr>tk_Revision := tk_Revision t + 1\<rparr>"
    assume t: "map_of (bd_tasks b) (up_ID u) = Some t" "tk_Status t \<noteq> TaskDeleted" and w: "staged (bd_tasks b) t w"
      and r: "UpdateTask now u b = (Inr (viewLocked (bd_tasks (put_task ?w (TaskUpdate ?w) b)) ?w), put_task ?w (TaskUpdate ?w) b)"
    have id: "tk_ID ?w = up_ID u" using w tasks_okD(3) [OF ts t(1)] by (simp add: staged_def task_ok_def)
    then have "stores b TaskUpdate (bd_next b) ?w" using staged_storable [OF ts t(1) w] t by (simp add: stores_def)
    then show ?thesis using r id by (intro disjI2 exI [of _ ?w]) simp
  qed
qed

lemma UpdateTask_ok:
  assumes ok: "board_ok b" and now: "now \<noteq> 0"
  shows "board_ok (snd (UpdateTask now u b))"
  using UpdateTask_stores [OF assms, of u] board_ok_stores [OF ok, of TaskUpdate "bd_next b"] ok by auto

lemma CreateTask_cases:
  "(\<exists>x n. CreateTask ask subject description ownerID blockedBy scopes b = (Inl x, b\<lparr>bd_next := n\<rparr>) \<and> bd_next b \<le> n) \<or>
   (\<exists>n t. bd_next b < n \<and> active_tasks (bd_tasks b) < bd_maxTasks b \<and> validateEdges (bd_tasks b) [] blockedBy = None \<and>
      trim_space subject \<noteq> [] \<and>
      t = \<lparr>tk_ID = task_id n, tk_Revision = 1, tk_Subject = subject, tk_Description = description, tk_Status = TaskPending,
           tk_OwnerID = ownerID, tk_BlockedBy = cleanIDs [] blockedBy, tk_WriteScopes = normalizeScopes scopes, tk_DeletedAt = 0\<rparr> \<and>
      snd (CreateTask ask subject description ownerID blockedBy scopes b) = put_task t (TaskCreate t) (b\<lparr>bd_next := n\<rparr>))"
proof (cases "trim_space subject = [] \<or> validateWriteScopes scopes \<noteq> None \<or> bd_maxTasks b \<le> active_tasks (bd_tasks b) \<or>
    validateEdges (bd_tasks b) [] blockedBy \<noteq> None")
  case True
  then have "\<exists>x. CreateTask ask subject description ownerID blockedBy scopes b = (Inl x, b)"
    by (cases "validateWriteScopes scopes"; cases "validateEdges (bd_tasks b) [] blockedBy") (auto simp: CreateTask_def)
  then obtain x where "CreateTask ask subject description ownerID blockedBy scopes b = (Inl x, b)" by blast
  then show ?thesis by (intro disjI1 exI [of _ x] exI [of _ "bd_next b"]) simp
next
  case False
  obtain r n where r: "reserve_id 32 task_id ask (bd_next b) = (r, n)" by (cases "reserve_id 32 task_id ask (bd_next b)")
  note range = reserve_id_range [OF r]
  show ?thesis
  proof (cases r)
    case (Inl x)
    then show ?thesis using False r range by (auto simp: CreateTask_def)
  next
    case (Inr i)
    let ?t = "\<lparr>tk_ID = task_id n, tk_Revision = 1, tk_Subject = subject, tk_Description = description, tk_Status = TaskPending,
      tk_OwnerID = ownerID, tk_BlockedBy = cleanIDs [] blockedBy, tk_WriteScopes = normalizeScopes scopes, tk_DeletedAt = 0\<rparr>"
    from Inr range have i: "i = task_id n" "bd_next b < n" by auto
    have "snd (CreateTask ask subject description ownerID blockedBy scopes b) = put_task ?t (TaskCreate ?t) (b\<lparr>bd_next := n\<rparr>)"
      using False r Inr i by (simp add: CreateTask_def Let_def)
    then show ?thesis using False i by (intro disjI2 exI [of _ n] exI [of _ ?t]) simp
  qed
qed

lemma CreateTask_stores:
  assumes ok: "board_ok b"
  shows "(\<exists>x n. CreateTask ask subject description ownerID blockedBy scopes b = (Inl x, b\<lparr>bd_next := n\<rparr>) \<and> bd_next b \<le> n) \<or>
   (\<exists>n t. tk_ID t = task_id n \<and> stores b TaskCreate n t \<and>
      snd (CreateTask ask subject description ownerID blockedBy scopes b) = put_task t (TaskCreate t) (b\<lparr>bd_next := n\<rparr>))"
  using CreateTask_cases [of ask subject description ownerID blockedBy scopes b]
proof (elim disjE exE conjE, goal_cases)
  case (2 n t)
  from ok have ts: "tasks_ok (bd_next b) (bd_tasks b)" by (simp add: board_ok_def)
  note e = validated_edges [OF ts 2(3)]
  have fresh: "map_of (bd_tasks b) (task_id n) = None"
  proof (cases "map_of (bd_tasks b) (task_id n)")
    case (Some u)
    then show ?thesis using tasks_okD(3) [OF ts Some] 2(1) by (auto simp: task_ok_def)
  qed
  have edges: "good_edges (bd_tasks b) (task_id n) blockedBy"
    unfolding good_edges_def
  proof (intro conjI ballI)
    show "distinct blockedBy" using e(2) by (simp add: good_edges_def)
    fix j assume j: "j \<in> set blockedBy"
    show l: "live (bd_tasks b) j" using e(2) j by (simp add: good_edges_def)
    show "j \<noteq> task_id n" using l fresh by (auto simp: live_def)
    then show "(j, task_id n) \<notin> (dep_edges (bd_tasks b))\<^sup>*" by (rule fresh_unreached [OF ts fresh])
  qed
  have "subject \<noteq> []" using 2(4) by auto
  then have "storable n (bd_tasks b) t" using 2(1) edges e(1) by (auto simp: 2(5) storable_def)
  then show ?case using 2 fresh by (intro disjI2 exI [of _ n] exI [of _ t]) (simp add: stores_def)
qed blast

lemma CreateTask_ok:
  assumes ok: "board_ok b"
  shows "board_ok (snd (CreateTask ask subject description ownerID blockedBy scopes b))"
  using CreateTask_stores [OF ok, of ask subject description ownerID blockedBy scopes] board_ok_stores [OF ok, of TaskCreate]
    board_ok_next [OF ok] by auto

section \<open>Runs\<close>

datatype task_call =
    CallCreate "(string \<Rightarrow> reservation) option" string string string "string list" "string list"
  | CallUpdate go_time Update

primrec task_exec :: "task_call \<Rightarrow> Board \<Rightarrow> Board" where
  "task_exec (CallCreate ask s d i js ss) b = snd (CreateTask ask s d i js ss b)"
| "task_exec (CallUpdate now u) b = snd (UpdateTask now u b)"

definition task_run :: "task_call list \<Rightarrow> Board \<Rightarrow> Board" where
  "task_run cs b = fold task_exec cs b"

text \<open>The clock is never at the zero time.\<close>

primrec clock_ok :: "task_call \<Rightarrow> bool" where
  "clock_ok (CallCreate ask s d i js ss) = True"
| "clock_ok (CallUpdate now u) = (now \<noteq> 0)"

definition fresh_board :: "string \<Rightarrow> int \<Rightarrow> Roster option \<Rightarrow> Board" where
  "fresh_board i n r = \<lparr>bd_teamID = i, bd_next = 0, bd_msgNext = 0, bd_tasks = [], bd_messages = [],
     bd_memberRows = [], bd_roster = r,
     bd_maxTasks = n, bd_maxPending = 64, bd_maxBytes = 65536, bd_emitted = [], bd_notify = False\<rparr>"

lemma board_ok_fresh: "0 \<le> n \<Longrightarrow> board_ok (fresh_board i n r)"
  by (auto simp: board_ok_def fresh_board_def tasks_ok_def active_tasks_def dep_edges_def deps_def acyclic_def wf_map_def
      elim: trancl.cases)

lemma board_ok_run: "board_ok b \<Longrightarrow> list_all clock_ok cs \<Longrightarrow> board_ok (task_run cs b)"
  unfolding task_run_def
proof (induction cs arbitrary: b)
  case (Cons c cs)
  then show ?case using CreateTask_ok UpdateTask_ok by (cases c) (simp_all add: Cons.IH)
qed simp

text \<open>
  C32: the dependencies of the team board never form a cycle: after any creates and updates, whatever
  dependencies they name, no task depends on itself through others, every live task depends on live
  tasks of the board, ids are those the board issued, and the live tasks stay within the limit.
\<close>

theorem board_acyclic:
  assumes "list_all clock_ok cs" and "0 \<le> n"
  shows "board_ok (task_run cs (fresh_board i n r))"
  using board_ok_run [OF board_ok_fresh [OF assms(2)] assms(1)] .


definition sample_calls :: "task_call list" where
  "sample_calls =
     (let u = \<lparr>up_ID = ''task-1'', up_Revision = 1, up_Action = ''claim'', up_OwnerID = ''ann'', up_ActorID = [], up_Subject = [],
            up_Description = [], up_BlockedBy = None, up_WriteScopes = None\<rparr>
      in [CallCreate None ''build'' [] [] [] [], CallCreate None ''test'' [] [] [''task-1''] [''src''],
          CallUpdate 5 (u\<lparr>up_Action := ''set_dependencies'', up_BlockedBy := Some [''task-2'']\<rparr>), CallUpdate 6 u])"

lemma board_acyclic_witness:
  "list_all clock_ok sample_calls \<and> board_ok (task_run sample_calls (fresh_board ''t'' 2 None)) \<and>
   map fst (bd_tasks (task_run sample_calls (fresh_board ''t'' 2 None))) = [''task-1'', ''task-2'']"
proof -
  have ok: "list_all clock_ok sample_calls" by (simp add: sample_calls_def Let_def)
  have "map fst (bd_tasks (task_run sample_calls (fresh_board ''t'' 2 None))) = [''task-1'', ''task-2'']" by code_simp
  with ok board_acyclic [OF ok, of 2 "''t''" None] show ?thesis by simp
qed

text \<open>
  Fact: a revision of a task is spent by the update that used it: an accepted update names the current
  revision, advances it by one and touches no other task, and any other update of the same task at the
  same revision is then refused as a conflict.
\<close>

theorem task_revision_spent:
  assumes "board_ok b" and "now \<noteq> 0" and "UpdateTask now u b = (Inr view, b')" and "up_ID v = up_ID u" and "up_Revision v = up_Revision u"
  shows "map_option tk_Revision (map_of (bd_tasks b) (up_ID u)) = Some (up_Revision u) \<and>
    map_option tk_Revision (map_of (bd_tasks b') (up_ID u)) = Some (up_Revision u + 1) \<and>
    (\<forall>j. j \<noteq> up_ID u \<longrightarrow> map_of (bd_tasks b') j = map_of (bd_tasks b) j) \<and>
    UpdateTask now' v b' = (Inl (ErrRevision (up_ID u) (up_Revision u + 1) (up_Revision u)), b')"
proof -
  from assms(1) have ts: "tasks_ok (bd_next b) (bd_tasks b)" by (simp add: board_ok_def)
  from UpdateTask_cases [OF ts assms(2), of u] assms(3) obtain t w where t: "map_of (bd_tasks b) (up_ID u) = Some t"
      "up_Revision u = tk_Revision t" "staged (bd_tasks b) t w"
    and b': "b' = put_task (w\<lparr>tk_Revision := tk_Revision t + 1\<rparr>) (TaskUpdate (w\<lparr>tk_Revision := tk_Revision t + 1\<rparr>)) b"
    by auto
  have "tk_ID w = up_ID u" using t tasks_okD(3) [OF ts t(1)] by (simp add: staged_def task_ok_def)
  then show ?thesis using t(1,2) b' assms(4,5) by (simp add: UpdateTask_def)
qed

definition sample_board :: Board where
  "sample_board = task_run (take 2 sample_calls) (fresh_board ''t'' 2 None)"

definition sample_claim :: Update where
  "sample_claim = \<lparr>up_ID = ''task-1'', up_Revision = 1, up_Action = ''claim'', up_OwnerID = ''ann'', up_ActorID = [], up_Subject = [],
     up_Description = [], up_BlockedBy = None, up_WriteScopes = None\<rparr>"

lemma board_ok_sample: "board_ok sample_board"
  unfolding sample_board_def by (rule board_ok_run [OF board_ok_fresh]) (simp_all add: sample_calls_def Let_def)

lemma sample_claimed: "\<exists>view b. UpdateTask 6 sample_claim sample_board = (Inr view, b)"
proof -
  have "isl (fst (UpdateTask 6 sample_claim sample_board)) = False" by code_simp
  then show ?thesis by (metis isl_def prod.collapse sum.exhaust_sel)
qed

lemma task_revision_spent_witness:
  "\<exists>view b. UpdateTask 6 sample_claim sample_board = (Inr view, b) \<and>
     UpdateTask 7 sample_claim b = (Inl (ErrRevision ''task-1'' 2 1), b)"
proof -
  obtain view b where u: "UpdateTask 6 sample_claim sample_board = (Inr view, b)" using sample_claimed by blast
  from task_revision_spent [OF board_ok_sample _ u, of sample_claim 7] u show ?thesis by (auto simp: sample_claim_def)
qed

text \<open>
  Fact: a task is claimed only when it is free and nothing blocks it: an accepted claim finds it pending,
  without an owner, with every task it depends on completed, names an owner and puts the task in
  progress under that owner.
\<close>

theorem claim_needs_ready:
  assumes "board_ok b" and "now \<noteq> 0" and "UpdateTask now u b = (Inr view, b')" and "up_Action u = ''claim''"
  shows "\<exists>t t'. map_of (bd_tasks b) (up_ID u) = Some t \<and> tk_Status t = TaskPending \<and> tk_OwnerID t = [] \<and>
    (\<forall>j \<in> set (tk_BlockedBy t). \<exists>s. map_of (bd_tasks b) j = Some s \<and> tk_Status s = TaskCompleted) \<and>
    map_of (bd_tasks b') (up_ID u) = Some t' \<and> tk_Status t' = TaskInProgress \<and> tk_OwnerID t' = up_OwnerID u \<and>
    trim_space (up_OwnerID u) \<noteq> []"
proof -
  from assms(1) have ts: "tasks_ok (bd_next b) (bd_tasks b)" by (simp add: board_ok_def)
  from UpdateTask_cases [OF ts assms(2), of u] assms(3) obtain t v w where t: "map_of (bd_tasks b) (up_ID u) = Some t"
      "task_action now b u t = Inr v" "task_fields b u v = Inr w" "staged (bd_tasks b) t w"
    and b': "b' = put_task (w\<lparr>tk_Revision := tk_Revision t + 1\<rparr>) (TaskUpdate (w\<lparr>tk_Revision := tk_Revision t + 1\<rparr>)) b"
    by auto
  have id: "tk_ID w = up_ID u" using t tasks_okD(3) [OF ts t(1)] by (simp add: staged_def task_ok_def)
  have v: "tk_Status t = TaskPending" "tk_OwnerID t = []" "task_ready (bd_tasks b) t" "trim_space (up_OwnerID u) \<noteq> []"
    "v = t\<lparr>tk_Status := TaskInProgress, tk_OwnerID := up_OwnerID u\<rparr>"
    using t(2) assms(4) by (auto simp: task_action_def split: if_splits)
  have "tk_Status w = tk_Status v" "tk_OwnerID w = tk_OwnerID v"
    using t(3) by (auto simp: task_fields_def put_edges_def put_scopes_def Let_def split: sum.splits option.splits if_splits)
  then show ?thesis
    using t(1) id v b' by (auto simp: task_ready_def list_all_iff split: option.splits)
qed

lemma claim_needs_ready_witness:
  "\<exists>t. map_of (bd_tasks sample_board) ''task-1'' = Some t \<and> tk_Status t = TaskPending \<and> tk_OwnerID t = []"
proof -
  obtain view b where u: "UpdateTask 6 sample_claim sample_board = (Inr view, b)" using sample_claimed by blast
  from claim_needs_ready [OF board_ok_sample _ u] show ?thesis by (auto simp: sample_claim_def)
qed

end
