(* ===== verification/Team_Members.thy ===== *)
theory Team_Members
  imports Team_Roster
begin

text \<open>
  What the roster keeps: one row per identity, one identity per name, the lead and the limit, over
  every run of its operations; rows that only move forward; operations that are what their member
  events fold to; and the round trip of a snapshot.
\<close>

section \<open>Well-formed rosters\<close>

definition row_ok :: "string \<Rightarrow> MemberSnapshot \<Rightarrow> bool" where
  "row_ok i m \<longleftrightarrow> ms_ID m = i \<and> i \<noteq> [] \<and> ms_Name m \<noteq> [] \<and> known_phase (ms_Phase m) \<and> row_name_ok (ms_Name m)"

definition rows_ok :: "(string \<times> MemberSnapshot) list \<Rightarrow> bool" where
  "rows_ok ms \<longleftrightarrow> wf_map ms \<and> (\<forall>i m. map_of ms i = Some m \<longrightarrow> row_ok i m) \<and>
     (\<forall>i j m n. map_of ms i = Some m \<longrightarrow> map_of ms j = Some n \<longrightarrow> ms_Name m = ms_Name n \<longrightarrow> i = j)"

definition roster_ok :: "Roster \<Rightarrow> bool" where
  "roster_ok r \<longleftrightarrow> rows_ok (ro_members r) \<and>
     (\<exists>lead. map_of (ro_members r) (ro_leadID r) = Some lead \<and> ms_Name lead = ''lead'') \<and>
     int (length (ro_members r)) \<le> ro_maxMembers r + 1"

lemma rows_okD:
  assumes "rows_ok ms"
  shows "wf_map ms" and "map_of ms i = Some m \<Longrightarrow> row_ok i m"
    and "map_of ms i = Some m \<Longrightarrow> map_of ms j = Some n \<Longrightarrow> ms_Name m = ms_Name n \<Longrightarrow> i = j"
  using assms by (auto simp: rows_ok_def)

lemma rows_ok_update:
  assumes ok: "rows_ok ms" and row: "row_ok i row"
    and names: "\<And>j n. map_of ms j = Some n \<Longrightarrow> ms_Name n = ms_Name row \<Longrightarrow> j = i"
  shows "rows_ok (AList.update i row ms)"
  unfolding rows_ok_def
proof (intro conjI allI impI)
  show "wf_map (AList.update i row ms)" using rows_okD(1) [OF ok] by simp
  show "row_ok k m" if "map_of (AList.update i row ms) k = Some m" for k m
    using that rows_okD(2) [OF ok] row by (auto split: if_splits)
  show "k = j" if "map_of (AList.update i row ms) k = Some m" "map_of (AList.update i row ms) j = Some n" "ms_Name m = ms_Name n"
    for k j m n
    using that rows_okD(3) [OF ok] names [of k m] names [of j n] by (auto split: if_splits)
qed

lemma length_update_old: "map_of ms i = Some m \<Longrightarrow> length (AList.update i row ms) = length ms"
  by (induction ms) auto

section \<open>Moves\<close>

fun phase_rank :: "MemberPhase \<Rightarrow> nat" where
  "phase_rank MemberProvisioning = 0"
| "phase_rank MemberActive = 1"
| "phase_rank MemberFailed = 2"
| "phase_rank (OtherMemberPhase s) = 3"

definition row_forward :: "MemberSnapshot \<Rightarrow> MemberSnapshot \<Rightarrow> bool" where
  "row_forward a b \<longleftrightarrow> ms_ID a = ms_ID b \<and> same_identity a b \<and> phase_rank (ms_Phase a) \<le> phase_rank (ms_Phase b)"

lemma row_forward_refl [simp]: "row_forward a a"
  by (simp add: row_forward_def same_identity_def)

lemma row_forward_trans: "row_forward a b \<Longrightarrow> row_forward b c \<Longrightarrow> row_forward a c"
  by (auto simp: row_forward_def same_identity_def)

text \<open>A row a well-formed roster may take: a new member, or a later state of a member it has.\<close>

definition admits :: "Roster \<Rightarrow> MemberSnapshot \<Rightarrow> bool" where
  "admits r row \<longleftrightarrow> row_ok (ms_ID row) row \<and>
     (case map_of (ro_members r) (ms_ID row) of
        None \<Rightarrow> \<not> roster_full r \<and> (\<forall>j n. map_of (ro_members r) j = Some n \<longrightarrow> ms_Name n \<noteq> ms_Name row)
      | Some prior \<Rightarrow> row_forward prior row)"

definition same_rows :: "Roster \<Rightarrow> Roster \<Rightarrow> bool" where
  "same_rows r r' \<longleftrightarrow> ro_members r' = ro_members r \<and> ro_leadID r' = ro_leadID r \<and> ro_maxMembers r' = ro_maxMembers r \<and>
     ro_teamID r' = ro_teamID r"

inductive moves :: "Roster \<Rightarrow> Roster \<Rightarrow> bool" where
  stay: "same_rows r r' \<Longrightarrow> moves r r'"
| move: "admits r row \<Longrightarrow> moves (put_member row r) r' \<Longrightarrow> moves r r'"

lemma put_member_fields [simp]:
  "ro_members (put_member row r) = AList.update (ms_ID row) row (ro_members r)"
  "ro_leadID (put_member row r) = ro_leadID r" "ro_maxMembers (put_member row r) = ro_maxMembers r"
  "ro_teamID (put_member row r) = ro_teamID r" "ro_reservedIDs (put_member row r) = ro_reservedIDs r"
  "ro_handles (put_member row r) = ro_handles r"
  by (simp_all add: put_member_def)

lemma bind_handle_fields [simp]:
  "ro_members (bind_handle i r) = ro_members r" "ro_leadID (bind_handle i r) = ro_leadID r"
  "ro_maxMembers (bind_handle i r) = ro_maxMembers r" "ro_teamID (bind_handle i r) = ro_teamID r"
  by (simp_all add: bind_handle_def)

lemma roster_ok_put:
  assumes ok: "roster_ok r" and a: "admits r row"
  shows "roster_ok (put_member row r)"
proof (cases "map_of (ro_members r) (ms_ID row)")
  case None
  have "rows_ok (AList.update (ms_ID row) row (ro_members r))"
    using ok a None by (intro rows_ok_update) (auto simp: roster_ok_def admits_def)
  moreover have "ms_ID row \<noteq> ro_leadID r" using ok None by (auto simp: roster_ok_def)
  ultimately show ?thesis
    using ok a None by (auto simp: roster_ok_def admits_def roster_full_def update_new_key)
next
  case (Some prior)
  then have f: "row_forward prior row" and row: "row_ok (ms_ID row) row" using a by (simp_all add: admits_def)
  have rows: "rows_ok (ro_members r)" using ok by (simp add: roster_ok_def)
  have "rows_ok (AList.update (ms_ID row) row (ro_members r))"
    using rows row
  proof (rule rows_ok_update)
    fix j n assume "map_of (ro_members r) j = Some n" "ms_Name n = ms_Name row"
    then show "j = ms_ID row"
      using rows_okD(3) [OF rows _ Some] f by (auto simp: row_forward_def same_identity_def)
  qed
  then show ?thesis
    using ok f Some length_update_old [OF Some] by (auto simp: roster_ok_def row_forward_def same_identity_def)
qed

lemma roster_ok_same_rows: "same_rows r r' \<Longrightarrow> roster_ok r \<Longrightarrow> roster_ok r'"
  by (simp add: roster_ok_def same_rows_def)

lemma roster_ok_moves: "moves r r' \<Longrightarrow> roster_ok r \<Longrightarrow> roster_ok r'"
  by (induction rule: moves.induct) (auto intro: roster_ok_same_rows roster_ok_put)

lemma moves_forward:
  "moves r r' \<Longrightarrow> map_of (ro_members r) i = Some m \<Longrightarrow>
    \<exists>m'. map_of (ro_members r') i = Some m' \<and> row_forward m m'"
proof (induction arbitrary: m rule: moves.induct)
  case (stay r r')
  then show ?case by (simp add: same_rows_def)
next
  case (move r row r')
  show ?case
  proof (cases "i = ms_ID row")
    case True
    then have "row_forward m row" using move by (simp add: admits_def)
    moreover obtain m' where "map_of (ro_members r') i = Some m'" "row_forward row m'" using move.IH [of row] True by auto
    ultimately show ?thesis using row_forward_trans by blast
  next
    case False
    then show ?thesis using move by simp
  qed
qed

lemma moves_lead: "moves r r' \<Longrightarrow> ro_leadID r' = ro_leadID r \<and> ro_maxMembers r' = ro_maxMembers r"
  by (induction rule: moves.induct) (auto simp: same_rows_def)

lemma moves_trans: "moves r s \<Longrightarrow> moves s t \<Longrightarrow> moves r t"
proof (induction rule: moves.induct)
  case (stay r r')
  from stay(2,1) show ?case
  proof (induction arbitrary: r rule: moves.induct)
    case (stay s t)
    then show ?case by (intro moves.stay) (simp add: same_rows_def)
  next
    case (move s row t)
    have "admits r row" using move by (simp add: admits_def same_rows_def roster_full_def cong: option.case_cong)
    moreover have "same_rows (put_member row r) (put_member row s)" using move by (simp add: same_rows_def)
    ultimately show ?case using move.IH moves.move by blast
  qed
qed (blast intro: moves.move)

section \<open>The operations move\<close>

lemma validated_admits:
  assumes ok: "roster_ok r" and v: "validateMemberEventLocked r row = None"
  shows "admits r row"
proof (cases "map_of (ro_members r) (ms_ID row)")
  case None
  have rows: "rows_ok (ro_members r)" using ok by (simp add: roster_ok_def)
  have "ms_Name n \<noteq> ms_Name row" if n: "map_of (ro_members r) j = Some n" for j n
  proof -
    have "n \<in> set (vals (ro_members r))" using map_of_SomeD [OF n] by force
    moreover have "ms_ID n \<noteq> ms_ID row" using rows_okD(2) [OF rows n] n None by (auto simp: row_ok_def)
    ultimately show ?thesis using v None by (auto simp: validateMemberEventLocked_def list_ex_iff split: if_splits)
  qed
  then show ?thesis
    using v None by (auto simp: admits_def row_ok_def validateMemberEventLocked_def split: if_splits)
next
  case (Some prior)
  have "row_ok (ms_ID row) prior" using ok Some rows_okD(2) by (auto simp: roster_ok_def)
  then show ?thesis
    using v Some
    by (auto simp: admits_def row_ok_def validateMemberEventLocked_def row_forward_def known_phase_def split: if_splits)
qed

lemma moves_one: "admits r row \<Longrightarrow> same_rows (put_member row r) r' \<Longrightarrow> moves r r'"
  by (blast intro: moves.intros)

lemma same_rows_simps [simp]:
  "same_rows r r" "same_rows r (r\<lparr>ro_handles := hs\<rparr>)" "same_rows r (r\<lparr>ro_reservedIDs := is\<rparr>)" "same_rows r (bind_handle i r)"
  by (simp_all add: same_rows_def)

lemmas moves_here = moves.stay [OF same_rows_simps(1)]

lemma moves_put:
  assumes "admits r row"
  shows "moves r (put_member row r)" and "moves r (bind_handle i (put_member row r))"
    and "moves r ((put_member row r)\<lparr>ro_handles := hs\<rparr>)"
  by (rule moves_one [OF assms], simp)+

lemma reserve_same_rows: "reserveMemberIDLocked reserve name r = (x, r') \<Longrightarrow> same_rows r r'"
  by (auto simp: reserveMemberIDLocked_def same_rows_def Let_def split: if_splits option.splits reservation.splits)

lemma reserve_id: "reserveMemberIDLocked reserve name r = (Inr i, r') \<Longrightarrow> i = member_id r name"
  by (auto simp: reserveMemberIDLocked_def Let_def split: if_splits option.splits reservation.splits)

text \<open>A failed attempt and a later state of a stored row.\<close>

lemma admits_later:
  assumes "roster_ok r" and "map_of (ro_members r) i = Some m" and "phase_rank (ms_Phase m) \<le> phase_rank p" and "known_phase p"
  shows "admits r (m\<lparr>ms_Phase := p, ms_Error := e\<rparr>)" and "admits r (m\<lparr>ms_Phase := p\<rparr>)"
proof -
  have "row_ok i m" using assms(1,2) rows_okD(2) by (auto simp: roster_ok_def)
  then show "admits r (m\<lparr>ms_Phase := p, ms_Error := e\<rparr>)" "admits r (m\<lparr>ms_Phase := p\<rparr>)"
    using assms(2-4) by (auto simp: admits_def row_ok_def row_forward_def same_identity_def)
qed

lemma known_phase_simps [simp]: "known_phase MemberProvisioning" "known_phase MemberActive" "known_phase MemberFailed"
  by (simp_all add: known_phase_def)

lemma known_rank: "known_phase p \<Longrightarrow> phase_rank p \<le> 2"
  by (auto simp: known_phase_def)

lemma stored_id: "roster_ok r \<Longrightarrow> map_of (ro_members r) i = Some m \<Longrightarrow> ms_ID m = i \<and> known_phase (ms_Phase m)"
  using rows_okD(2) by (auto simp: roster_ok_def row_ok_def)

lemma Rebind_moves:
  assumes ok: "roster_ok r"
  shows "moves r (snd (Rebind status start i r))"
proof (cases "map_of (ro_members r) i")
  case (Some m)
  show ?thesis
  proof (cases "start i")
    case (Some e)
    then show ?thesis
      using \<open>map_of (ro_members r) i = Some m\<close> moves_put(1) [OF admits_later(1) [OF ok \<open>map_of (ro_members r) i = Some m\<close>, of MemberFailed e]]
      by (auto simp: Rebind_def intro: moves_here)
  qed (use Some in \<open>auto simp: Rebind_def intro: moves_here moves.stay\<close>)
qed (auto simp: Rebind_def intro: moves_here)

lemma RebindProvisioning_moves:
  assumes ok: "roster_ok r"
  shows "moves r (snd (RebindProvisioning status start i r))"
proof (cases "map_of (ro_members r) i")
  case (Some m)
  note later = admits_later(1) [OF ok Some]
  show ?thesis
  proof (cases "start i")
    case (Some e)
    then show ?thesis using \<open>map_of (ro_members r) i = Some m\<close> moves_put(1) [OF later [of MemberFailed e]]
      by (auto simp: RebindProvisioning_def intro: moves_here)
  next
    case None
    then show ?thesis using Some moves_put(2) [OF later [of MemberActive "[]"]]
      by (auto simp: RebindProvisioning_def Let_def intro: moves_here)
  qed
qed (auto simp: RebindProvisioning_def intro: moves_here)

lemma MarkFailed_moves:
  assumes ok: "roster_ok r"
  shows "moves r (snd (MarkFailed i cause r))"
proof (cases "map_of (ro_members r) i")
  case (Some m)
  have "phase_rank (ms_Phase m) \<le> phase_rank MemberFailed" using stored_id [OF ok Some] known_rank by auto
  note later = moves_put(3) [OF admits_later(1) [OF ok Some this]] moves_put(3) [OF admits_later(2) [OF ok Some this]]
  show ?thesis using Some later by (cases cause) (auto simp: MarkFailed_def Let_def intro: moves_here)
qed (auto simp: MarkFailed_def intro: moves_here)

lemma ApplyMemberEvent_moves: "roster_ok r \<Longrightarrow> moves r (snd (ApplyMemberEvent row r))"
  by (cases "validateMemberEventLocked r row")
    (auto simp: ApplyMemberEvent_def intro: moves_here moves_put(1) dest: validated_admits)

text \<open>A spawn writes a provisioning row and then the outcome.\<close>

definition spawn_row :: "Roster \<Rightarrow> string \<Rightarrow> string \<Rightarrow> string \<Rightarrow> string \<Rightarrow> MemberSnapshot" where
  "spawn_row r name description provider ctx = \<lparr>ms_ID = member_id r name, ms_Name = name, ms_Description = description,
     ms_Provider = provider, ms_Context = ctx, ms_Phase = MemberProvisioning, ms_Error = []\<rparr>"

lemma same_rows_member_id: "same_rows r s \<Longrightarrow> member_id s name = member_id r name"
  by (simp add: same_rows_def member_id_def)

lemma Spawn_cases:
  "(\<exists>x s. Spawn status start reserve actor name0 description provider ctx r = (Inl x, s) \<and> same_rows r s) \<or>
   (\<exists>s name ctx' row'. same_rows r s \<and> member_name_ok name \<and> \<not> roster_full r \<and>
      \<not> list_ex (\<lambda>m. ms_Name m = name) (vals (ro_members r)) \<and> map_of (ro_members r) (member_id r name) = None \<and>
      (let row = spawn_row r name description provider ctx'
       in row' \<in> {row\<lparr>ms_Phase := MemberActive\<rparr>} \<union> {row\<lparr>ms_Phase := MemberFailed, ms_Error := e\<rparr> | e. True} \<and>
          same_rows (put_member row' (put_member row s))
            (snd (Spawn status start reserve actor name0 description provider ctx r))))"
proof -
  let ?name = "trim_space name0" and ?ctx = "if ctx = [] then ''fresh'' else ctx"
  let ?i = "member_id r ?name"
  consider (refused) "actor \<noteq> ro_leadID r \<or> \<not> member_name_ok ?name \<or> (?ctx \<noteq> ''fresh'' \<and> ?ctx \<noteq> ''fork'') \<or> roster_full r \<or>
      list_ex (\<lambda>m. ms_Name m = ?name) (vals (ro_members r)) \<or> map_of (ro_members r) ?i \<noteq> None"
    | (open_slot) "actor = ro_leadID r" "member_name_ok ?name" "?ctx = ''fresh'' \<or> ?ctx = ''fork''" "\<not> roster_full r"
      "\<not> list_ex (\<lambda>m. ms_Name m = ?name) (vals (ro_members r))" "map_of (ro_members r) ?i = None"
    by blast
  then show ?thesis
  proof cases
    case refused
    then have "\<exists>x. Spawn status start reserve actor name0 description provider ctx r = (Inl x, r)"
      by (auto simp: Spawn_def Let_def)
    then show ?thesis using same_rows_simps(1) [of r] by blast
  next
    case open_slot
    obtain y s where y: "(if ?i \<in> set (ro_reservedIDs r) then (Inr ?i, r) else reserveMemberIDLocked reserve ?name r) = (y, s)"
      by (cases "if ?i \<in> set (ro_reservedIDs r) then (Inr ?i, r) else reserveMemberIDLocked reserve ?name r")
    have s: "same_rows r s" using y reserve_same_rows by (auto simp: same_rows_def split: if_splits)
    show ?thesis
    proof (cases y)
      case (Inl x)
      have "Spawn status start reserve actor name0 description provider ctx r = (Inl x, s)"
        using open_slot y Inl by (cases "ctx = []") (auto simp: Spawn_def Let_def)
      then show ?thesis using s by blast
    next
      case (Inr j)
      have j: "j = ?i" using y Inr reserve_id by (auto split: if_splits)
      let ?row = "spawn_row r ?name description provider ?ctx"
      have "snd (Spawn status start reserve actor name0 description provider ctx r) =
        (case start ?i of
           Some e \<Rightarrow> put_member (?row\<lparr>ms_Phase := MemberFailed, ms_Error := e\<rparr>) (put_member ?row s)
         | None \<Rightarrow> bind_handle ?i (put_member (?row\<lparr>ms_Phase := MemberActive\<rparr>) (put_member ?row s)))"
        using open_slot y Inr j by (cases "ctx = []") (auto simp: Spawn_def Let_def spawn_row_def split: option.split)
      then have "\<exists>row'. row' \<in> {?row\<lparr>ms_Phase := MemberActive\<rparr>} \<union> {?row\<lparr>ms_Phase := MemberFailed, ms_Error := e\<rparr> | e. True} \<and>
          same_rows (put_member row' (put_member ?row s))
            (snd (Spawn status start reserve actor name0 description provider ctx r))"
        by (cases "start ?i") (auto simp: same_rows_def)
      then show ?thesis using s open_slot unfolding Let_def by blast
    qed
  qed
qed

lemma spawn_admits:
  assumes ok: "roster_ok r" and name: "member_name_ok name" and room: "\<not> roster_full r"
    and free: "\<not> list_ex (\<lambda>m. ms_Name m = name) (vals (ro_members r))" "map_of (ro_members r) (member_id r name) = None"
  shows "admits r (spawn_row r name description provider ctx)"
proof -
  have "name \<noteq> []" using name by (auto simp: member_name_ok_def memberNamePattern_def)
  moreover have "ms_Name n \<noteq> name" if n: "map_of (ro_members r) j = Some n" for j n
  proof -
    have "n \<in> set (vals (ro_members r))" using map_of_SomeD [OF n] by force
    then show ?thesis using free(1) by (auto simp: list_ex_iff)
  qed
  ultimately show ?thesis
    using name room free(2) by (auto simp: admits_def spawn_row_def row_ok_def member_name_ok_def row_name_ok_def member_id_def)
qed

lemma Spawn_moves:
  assumes ok: "roster_ok r"
  shows "moves r (snd (Spawn status start reserve actor name0 description provider ctx r))"
  using Spawn_cases [of status start reserve actor name0 description provider ctx r]
proof (elim disjE exE conjE, goal_cases)
  case (1 x s)
  then show ?case by (simp add: moves.stay)
next
  case (2 s name ctx' row')
  let ?row = "spawn_row r name description provider ctx'"
  have s: "roster_ok s" using roster_ok_same_rows [OF 2(1) ok] .
  have a: "admits s ?row"
    using spawn_admits [OF ok 2(2,3,4,5), of description provider ctx'] 2(1)
    by (simp add: admits_def same_rows_def roster_full_def cong: option.case_cong)
  have row': "row' \<in> {?row\<lparr>ms_Phase := MemberActive\<rparr>} \<union> {?row\<lparr>ms_Phase := MemberFailed, ms_Error := e\<rparr> | e. True}"
    and end_rows: "same_rows (put_member row' (put_member ?row s))
            (snd (Spawn status start reserve actor name0 description provider ctx r))"
    using 2(6) by (simp_all add: Let_def)
  have stored: "map_of (ro_members (put_member ?row s)) (ms_ID ?row) = Some ?row" by simp
  note later = admits_later [OF roster_ok_put [OF s a] stored]
  have "admits (put_member ?row s) row'"
    using row' later(1) [of MemberFailed] later(2) [of MemberActive] by (auto simp: spawn_row_def)
  then have "moves s (snd (Spawn status start reserve actor name0 description provider ctx r))"
    using moves.move [OF a moves_one [OF _ end_rows]] by blast
  then show ?case using moves_trans [OF moves.stay [OF 2(1)]] by blast
qed

section \<open>Runs\<close>

datatype roster_call =
    CallSpawn "string \<Rightarrow> string option" "(string \<Rightarrow> reservation) option" string string string string string
  | CallReserve "(string \<Rightarrow> reservation) option" string
  | CallAdopt string
  | CallRebind "string \<Rightarrow> string option" string
  | CallRebindProvisioning "string \<Rightarrow> string option" string
  | CallMarkFailed string "string option"
  | CallApplyMember MemberSnapshot

primrec roster_exec :: "(string \<Rightarrow> AgentStatus) \<Rightarrow> roster_call \<Rightarrow> Roster \<Rightarrow> Roster" where
  "roster_exec status (CallSpawn start reserve actor name description provider ctx) r =
     snd (Spawn status start reserve actor name description provider ctx r)"
| "roster_exec status (CallReserve reserve name) r = snd (ReserveMemberID reserve name r)"
| "roster_exec status (CallAdopt i) r = snd (AdoptReservedMemberID i r)"
| "roster_exec status (CallRebind start i) r = snd (Rebind status start i r)"
| "roster_exec status (CallRebindProvisioning start i) r = snd (RebindProvisioning status start i r)"
| "roster_exec status (CallMarkFailed i cause) r = snd (MarkFailed i cause r)"
| "roster_exec status (CallApplyMember row) r = snd (ApplyMemberEvent row r)"

definition roster_run :: "(string \<Rightarrow> AgentStatus) \<Rightarrow> roster_call list \<Rightarrow> Roster \<Rightarrow> Roster" where
  "roster_run status cs r = fold (roster_exec status) cs r"

lemma exec_moves: "roster_ok r \<Longrightarrow> moves r (roster_exec status c r)"
proof (cases c)
  case (CallReserve reserve name)
  have "same_rows r (snd (ReserveMemberID reserve name r))"
    using reserve_same_rows [of reserve "trim_space name" r]
    by (cases "reserveMemberIDLocked reserve (trim_space name) r") (simp add: ReserveMemberID_def Let_def)
  then show ?thesis using CallReserve by (simp add: moves.stay)
next
  case (CallAdopt i)
  have "same_rows r (snd (AdoptReservedMemberID i r))" by (simp add: AdoptReservedMemberID_def Let_def)
  then show ?thesis using CallAdopt by (simp add: moves.stay)
qed (simp_all add: Spawn_moves Rebind_moves RebindProvisioning_moves MarkFailed_moves ApplyMemberEvent_moves)

lemma run_moves: "roster_ok r \<Longrightarrow> moves r (roster_run status cs r)"
  unfolding roster_run_def
proof (induction cs arbitrary: r)
  case Nil
  then show ?case by (simp add: moves.stay)
next
  case (Cons c cs)
  have m: "moves r (roster_exec status c r)" using exec_moves [OF Cons.prems] .
  then show ?case using moves_trans [OF m Cons.IH [OF roster_ok_moves [OF m Cons.prems]]] by simp
qed

lemma roster_ok_new: "NewRosterWithLimit teamID leadID n = Some r \<Longrightarrow> roster_ok r"
  by (auto simp: NewRosterWithLimit_def roster_ok_def rows_ok_def row_ok_def row_name_ok_def wf_map_def split: if_splits)


definition sample_roster :: Roster where
  "sample_roster = (case NewRosterWithLimit ''t'' ''L'' 1 of Some r \<Rightarrow> r
     | None \<Rightarrow> \<lparr>ro_teamID = [], ro_leadID = [], ro_maxMembers = 0, ro_members = [], ro_handles = [], ro_reservedIDs = []\<rparr>)"

definition sample_spawns :: "roster_call list" where
  "sample_spawns = [CallSpawn (\<lambda>i. None) None ''L'' ''ann'' [] [] [], CallSpawn (\<lambda>i. None) None ''L'' ''bob'' [] [] []]"

lemma sample_roster_new: "NewRosterWithLimit ''t'' ''L'' 1 = Some sample_roster"
  by (simp add: sample_roster_def NewRosterWithLimit_def trim_space_def is_space_def)


text \<open>
  Fact: a member stays who it is: through any run of the roster's operations a row keeps its identity,
  name, description, provider and context, and its phase only moves from provisioning to active to
  failed, so that a failed identity is never revived and a name is never given to another agent.
\<close>

theorem members_move_forward:
  assumes "roster_ok r" and "map_of (ro_members r) i = Some m"
  shows "\<exists>m'. map_of (ro_members (roster_run status cs r)) i = Some m' \<and> ms_ID m' = i \<and> same_identity m m' \<and>
    phase_rank (ms_Phase m) \<le> phase_rank (ms_Phase m')"
proof -
  obtain m' where m': "map_of (ro_members (roster_run status cs r)) i = Some m'" "row_forward m m'"
    using moves_forward [OF run_moves [OF assms(1)] assms(2)] by blast
  then show ?thesis using stored_id [OF assms] by (auto simp: row_forward_def)
qed

lemma members_move_forward_witness:
  "\<exists>m'. map_of (ro_members (roster_run (\<lambda>i. StatusIdle) sample_spawns sample_roster)) ''L'' = Some m' \<and> ms_Name m' = ''lead''"
proof -
  let ?lead = "\<lparr>ms_ID = ''L'', ms_Name = ''lead'', ms_Description = [], ms_Provider = [], ms_Context = ''fresh'',
    ms_Phase = MemberActive, ms_Error = []\<rparr>"
  have "map_of (ro_members sample_roster) ''L'' = Some ?lead" by code_simp
  from members_move_forward [OF roster_ok_new [OF sample_roster_new] this, of "\<lambda>i. StatusIdle" sample_spawns]
  show ?thesis by (auto simp: same_identity_def)
qed

section \<open>Member events\<close>

definition fold_members :: "MemberSnapshot list \<Rightarrow> Roster \<Rightarrow> team_error + Roster" where
  "fold_members rows r = fold_until (\<lambda>r row. case ApplyMemberEvent row r of (Inl x, r') \<Rightarrow> Inl x | (Inr u, r') \<Rightarrow> Inr r') r rows"

lemma fold_members_simps:
  "fold_members [] r = Inr r"
  "fold_members (row # rows) r = (case validateMemberEventLocked r row of Some x \<Rightarrow> Inl x | None \<Rightarrow> fold_members rows (put_member row r))"
  by (simp_all add: fold_members_def ApplyMemberEvent_def split: option.split)

lemma validate_outcome:
  assumes "row_ok (ms_ID row) row" and "ms_Phase row = MemberProvisioning"
    and "ms_ID row' = ms_ID row" and "same_identity row row'" and "ms_Phase row' = MemberActive \<or> ms_Phase row' = MemberFailed"
  shows "validateMemberEventLocked (put_member row r) row' = None"
  using assms by (auto simp: validateMemberEventLocked_def row_ok_def same_identity_def)

text \<open>
  Fact: a spawn is what its member events say: the rows a spawn leaves behind, whether the agent started
  or not, are the rows the journal's two member events, provisioning and outcome, fold to in any roster
  with the same rows; a refused spawn leaves the rows alone.
\<close>

theorem spawn_is_its_events:
  assumes ok: "roster_ok r"
  shows "\<exists>rows r'. length rows \<in> {0, 2} \<and> fold_members rows r = Inr r' \<and>
    ro_members r' = ro_members (snd (Spawn status start reserve actor name0 description provider ctx r))"
  using Spawn_cases [of status start reserve actor name0 description provider ctx r]
proof (elim disjE exE conjE, goal_cases)
  case (1 x s)
  then show ?case by (intro exI [of _ "[]"] exI [of _ r]) (simp add: fold_members_simps same_rows_def)
next
  case (2 s name ctx' row')
  let ?row = "spawn_row r name description provider ctx'"
  have a: "admits r ?row" using spawn_admits [OF ok 2(2,3,4,5)] .
  have lead: "member_id r name \<noteq> ro_leadID r" using ok 2(5) by (auto simp: roster_ok_def)
  have names: "\<not> list_ex (\<lambda>m. ms_Name m = name \<and> ms_ID m \<noteq> member_id r name) (vals (ro_members r))"
    using 2(4) by (auto simp: list_ex_iff)
  have "validateMemberEventLocked r ?row = None"
    using a 2(3,5) lead names by (simp add: validateMemberEventLocked_def admits_def row_ok_def spawn_row_def)
  moreover have "validateMemberEventLocked (put_member ?row r) row' = None"
  proof (rule validate_outcome)
    show "row_ok (ms_ID ?row) ?row" using a by (simp add: admits_def)
    show "ms_ID row' = ms_ID ?row" "same_identity ?row row'" "ms_Phase row' = MemberActive \<or> ms_Phase row' = MemberFailed"
      using 2(6) by (auto simp: Let_def same_identity_def)
  qed (simp add: spawn_row_def)
  ultimately show ?case
    using 2(1,6) by (intro exI [of _ "[?row, row']"] exI [of _ "put_member row' (put_member ?row r)"])
      (simp add: fold_members_simps same_rows_def Let_def)
qed

lemma spawn_is_its_events_witness:
  "\<exists>rows r'. fold_members rows sample_roster = Inr r' \<and>
     ro_members r' = ro_members (snd (Spawn (\<lambda>i. StatusIdle) (\<lambda>i. Some ''down'') None ''L'' ''ann'' [] [] [] sample_roster)) \<and>
     map (\<lambda>m. ms_Phase (snd m)) (ro_members r') = [MemberActive, MemberFailed]"
proof -
  have p: "map (\<lambda>m. ms_Phase (snd m)) (ro_members (snd (Spawn (\<lambda>i. StatusIdle) (\<lambda>i. Some ''down'') None ''L'' ''ann'' [] [] [] sample_roster)))
      = [MemberActive, MemberFailed]" by code_simp
  obtain rows r' where "fold_members rows sample_roster = Inr r'"
    "ro_members r' = ro_members (snd (Spawn (\<lambda>i. StatusIdle) (\<lambda>i. Some ''down'') None ''L'' ''ann'' [] [] [] sample_roster))"
    using spawn_is_its_events [OF roster_ok_new [OF sample_roster_new], of "\<lambda>i. StatusIdle" "\<lambda>i. Some ''down''" None "''L''" "''ann''" "[]" "[]" "[]"]
    by (elim exE conjE) (rule that)
  then show ?thesis using p by (intro exI [of _ rows] exI [of _ r']) simp
qed

section \<open>Snapshots\<close>

lemma restore_rows:
  assumes "list_all (\<lambda>m. row_ok (ms_ID m) m) rows" and "distinct (map ms_ID rows)" and "distinct (map ms_Name rows)"
    and "int (length rows) \<le> ro_maxMembers r + 1"
  shows "fold_until (restore_row r) [] rows = Inr (map (\<lambda>m. (ms_ID m, m)) rows)"
  using assms
proof (induction rows rule: rev_induct)
  case (snoc row rows)
  have "map_of (map (\<lambda>m. (ms_ID m, m)) rows) (ms_ID row) = None" using snoc.prems(2) by (simp add: map_of_eq_None_iff image_image)
  moreover have "\<not> list_ex (\<lambda>m. ms_Name m = ms_Name row \<and> ms_ID m \<noteq> ms_ID row) rows"
    using snoc.prems(3) by (auto simp: list_ex_iff image_iff)
  ultimately have "restore_row r (map (\<lambda>m. (ms_ID m, m)) rows) row = Inr (map (\<lambda>m. (ms_ID m, m)) (rows @ [row]))"
    using snoc.prems(1,4) by (simp add: restore_row_def row_ok_def update_new_key comp_def)
  then show ?case using snoc by (simp add: fold_until_append)
qed simp

lemma map_of_keys: "map_of (map (\<lambda>i. (i, f i)) xs) k = (if k \<in> set xs then Some (f k) else None)"
  by (induction xs) auto

lemma snapshot_rows:
  assumes ok: "rows_ok (ro_members r)"
  shows "list_all (\<lambda>m. row_ok (ms_ID m) m) (RosterSnapshot r)" and "map ms_ID (RosterSnapshot r) = sort (map fst (ro_members r))"
    and "distinct (map ms_Name (RosterSnapshot r))" and "length (RosterSnapshot r) = length (ro_members r)"
    and "map_of (map (\<lambda>m. (ms_ID m, m)) (RosterSnapshot r)) = map_of (ro_members r)"
proof -
  have key: "\<exists>m. map_of (ro_members r) i = Some m \<and> row_ok i m" if "i \<in> keys (ro_members r)" for i
    using that rows_okD(2) [OF ok] by (auto simp: in_keys_iff)
  have ids: "ms_ID (the (map_of (ro_members r) i)) = i" "row_ok i (the (map_of (ro_members r) i))" if "i \<in> keys (ro_members r)" for i
    using key [OF that] by (auto simp: row_ok_def)
  show "list_all (\<lambda>m. row_ok (ms_ID m) m) (RosterSnapshot r)" using ids by (force simp: RosterSnapshot_def list_all_iff)
  show "map ms_ID (RosterSnapshot r) = sort (map fst (ro_members r))"
    using ids(1) by (auto simp: RosterSnapshot_def intro!: map_idI)
  show "length (RosterSnapshot r) = length (ro_members r)" by (simp add: RosterSnapshot_def)
  have "distinct (sort (map fst (ro_members r)))" using rows_okD(1) [OF ok] by (simp add: wf_map_def)
  moreover have "inj_on (\<lambda>i. ms_Name (the (map_of (ro_members r) i))) (keys (ro_members r))"
    using key rows_okD(3) [OF ok] by (intro inj_onI) (metis option.sel)
  ultimately show "distinct (map ms_Name (RosterSnapshot r))" by (simp add: RosterSnapshot_def distinct_map inj_on_def)
  have "map (\<lambda>m. (ms_ID m, m)) (RosterSnapshot r) = map (\<lambda>i. (i, the (map_of (ro_members r) i))) (sort (map fst (ro_members r)))"
    using ids(1) by (auto simp: RosterSnapshot_def)
  then show "map_of (map (\<lambda>m. (ms_ID m, m)) (RosterSnapshot r)) = map_of (ro_members r)"
    using key by (auto simp: fun_eq_iff map_of_keys in_keys_iff)
qed

lemma roster_restores:
  assumes ok: "roster_ok r" and lead: "map_of (ro_members r) (ro_leadID r) = Some lead" "ms_Phase lead = MemberActive"
  shows "\<exists>ms. RosterRestore (RosterSnapshot r) r = (Inr (), r\<lparr>ro_members := ms, ro_handles := []\<rparr>) \<and>
    map_of ms = map_of (ro_members r)"
proof -
  from ok have rows: "rows_ok (ro_members r)" and n: "int (length (ro_members r)) \<le> ro_maxMembers r + 1"
    and name: "ms_Name lead = ''lead''" using lead(1) by (auto simp: roster_ok_def)
  note s = snapshot_rows [OF rows]
  have "distinct (map ms_ID (RosterSnapshot r))" using rows_okD(1) [OF rows] by (simp add: s(2) wf_map_def)
  then have "fold_until (restore_row r) [] (RosterSnapshot r) = Inr (map (\<lambda>m. (ms_ID m, m)) (RosterSnapshot r))"
    using restore_rows [OF s(1) _ s(3)] s(4) n by simp
  then show ?thesis using s(5) lead name
    by (intro exI [of _ "map (\<lambda>m. (ms_ID m, m)) (RosterSnapshot r)"]) (simp add: RosterRestore_def)
qed

text \<open>
  Fact: a roster snapshot comes back whole, without its agents: restoring what the roster itself reports
  gives the same row under every identity, the same lead and limit, and no live handle at all.
\<close>

theorem roster_snapshot_roundtrip:
  assumes "roster_ok r" and "map_of (ro_members r) (ro_leadID r) = Some lead" and "ms_Phase lead = MemberActive"
  shows "\<exists>r'. RosterRestore (RosterSnapshot r) r = (Inr (), r') \<and> map_of (ro_members r') = map_of (ro_members r) \<and>
    ro_handles r' = [] \<and> ro_leadID r' = ro_leadID r \<and> ro_maxMembers r' = ro_maxMembers r"
proof -
  obtain ms where "RosterRestore (RosterSnapshot r) r = (Inr (), r\<lparr>ro_members := ms, ro_handles := []\<rparr>)"
    "map_of ms = map_of (ro_members r)" using roster_restores [OF assms] by blast
  then show ?thesis by simp
qed

lemma roster_snapshot_roundtrip_witness:
  "\<exists>r'. RosterRestore (RosterSnapshot sample_roster) sample_roster = (Inr (), r') \<and> ro_handles r' = []"
proof -
  have "map_of (ro_members sample_roster) ''L'' = Some \<lparr>ms_ID = ''L'', ms_Name = ''lead'', ms_Description = [], ms_Provider = [],
    ms_Context = ''fresh'', ms_Phase = MemberActive, ms_Error = []\<rparr>" "ro_leadID sample_roster = ''L''" by code_simp+
  with roster_snapshot_roundtrip [OF roster_ok_new [OF sample_roster_new]] show ?thesis by fastforce
qed

definition sample_row :: "string \<Rightarrow> string \<Rightarrow> MemberSnapshot" where
  "sample_row i name = \<lparr>ms_ID = i, ms_Name = name, ms_Description = [], ms_Provider = [], ms_Context = ''fresh'',
     ms_Phase = MemberActive, ms_Error = []\<rparr>"

text \<open>
  Fact: the limit of a restored roster depends on the order of the rows: with a limit of one teammate, two
  teammates are refused when the lead comes first and accepted when it comes last.
\<close>

theorem restore_limit_depends_on_order:
  "fst (RosterRestore [sample_row ''L'' ''lead'', sample_row ''A'' ''ann'', sample_row ''B'' ''bob''] sample_roster) = Inl (ErrMemberLimit 1) \<and>
   fst (RosterRestore [sample_row ''A'' ''ann'', sample_row ''B'' ''bob'', sample_row ''L'' ''lead''] sample_roster) = Inr () \<and>
   \<not> roster_ok (snd (RosterRestore [sample_row ''A'' ''ann'', sample_row ''B'' ''bob'', sample_row ''L'' ''lead''] sample_roster))"
proof -
  have "fst (RosterRestore [sample_row ''L'' ''lead'', sample_row ''A'' ''ann'', sample_row ''B'' ''bob''] sample_roster) = Inl (ErrMemberLimit 1)"
    by code_simp
  moreover have "fst (RosterRestore [sample_row ''A'' ''ann'', sample_row ''B'' ''bob'', sample_row ''L'' ''lead''] sample_roster) = Inr ()"
    by code_simp
  moreover have "length (ro_members (snd (RosterRestore [sample_row ''A'' ''ann'', sample_row ''B'' ''bob'', sample_row ''L'' ''lead''] sample_roster))) = 3"
    "ro_maxMembers (snd (RosterRestore [sample_row ''A'' ''ann'', sample_row ''B'' ''bob'', sample_row ''L'' ''lead''] sample_roster)) = 1"
    by code_simp+
  ultimately show ?thesis by (simp add: roster_ok_def)
qed

end
