(* ===== verification/Team_Replay.thy ===== *)
theory Team_Replay
  imports Team_Mailbox Team_Graph Team_Members
begin

text \<open>
  Durability of the team board: the task events of any run rebuild its tasks, its snapshot restores
  it, and the places where the durable forms and the live board disagree.
\<close>

section \<open>Replaying the tasks\<close>

text \<open>What the journal keeps of a task.\<close>

definition erased :: "Task \<Rightarrow> Task" where
  "erased t = t\<lparr>tk_DeletedAt := 0\<rparr>"

lemma erased_fields [simp]:
  "tk_ID (erased t) = tk_ID t" "tk_Revision (erased t) = tk_Revision t" "tk_Subject (erased t) = tk_Subject t"
  "tk_Status (erased t) = tk_Status t" "tk_BlockedBy (erased t) = tk_BlockedBy t"
  by (simp_all add: erased_def)

definition replica :: "tasks \<Rightarrow> tasks \<Rightarrow> bool" where
  "replica ts us \<longleftrightarrow> (\<forall>i. map_of us i = map_option erased (map_of ts i))"

lemma replica_deps: "replica ts us \<Longrightarrow> deps us i = deps ts i"
  by (simp add: replica_def deps_def split: option.split)

lemma replica_reaches: "replica ts us \<Longrightarrow> reaches ts target xs seen = reaches us target xs seen"
  by (induction ts target xs seen rule: reaches.induct) (simp_all add: replica_deps)

lemma replica_edges: "replica ts us \<Longrightarrow> edge_errors us i seen js = edge_errors ts i seen js"
proof (induction js arbitrary: seen)
  case (Cons j js)
  have "reachesLocked us j i = reachesLocked ts j i" by (simp only: reachesLocked_def replica_reaches [OF Cons.prems])
  then show ?case using Cons.IH [OF Cons.prems] Cons.prems by (cases "map_of ts j") (simp_all add: replica_def)
qed simp

lemma replica_update: "replica ts us \<Longrightarrow> replica (AList.update i t ts) (AList.update i (erased t) us)"
  by (simp add: replica_def)

fun task_emits :: "string \<Rightarrow> team_emit list \<Rightarrow> team_event list" where
  "task_emits teamID [] = []"
| "task_emits teamID (TaskCreate t # xs) = task_event teamID t # task_emits teamID xs"
| "task_emits teamID (TaskUpdate t # xs) = task_event teamID t # task_emits teamID xs"
| "task_emits teamID (x # xs) = task_emits teamID xs"

lemma task_emits_append [simp]: "task_emits i (xs @ ys) = task_emits i xs @ task_emits i ys"
  by (induction i xs rule: task_emits.induct) simp_all

lemma replay_simps [simp]:
  "replay [] b = Inr b"
  "replay (es @ fs) b = (case replay es b of Inl x \<Rightarrow> Inl x | Inr b' \<Rightarrow> replay fs b')"
  "replay [e] b = (case ApplyEvent e b of (Inl x, b') \<Rightarrow> Inl x | (Inr u, b') \<Rightarrow> Inr b')"
  by (simp_all add: replay_def fold_until_append split: prod.split sum.split)

lemma good_edges_valid:
  assumes "good_edges ts i js"
  shows "validateEdges ts i js = None"
  using assms by (auto simp: good_edges_def validateEdges_None live_def)

text \<open>A stored task is taken by any replica of the board before it was stored.\<close>

lemma apply_stored:
  assumes r: "replica ts (bd_tasks c)" and s: "storable n ts t"
    and rev: "case map_of ts (tk_ID t) of None \<Rightarrow> tk_Revision t = 1 | Some p \<Rightarrow> tk_Revision t = tk_Revision p + 1"
  shows "apply_task (erased t) c = (Inr (), c\<lparr>bd_tasks := AList.update (tk_ID t) (erased t) (bd_tasks c),
    bd_next := nat (max (int (bd_next c)) (taskNumber (tk_ID t)))\<rparr>)"
proof -
  have "validateEdges (bd_tasks c) (tk_ID t) (tk_BlockedBy t) = None"
    using good_edges_valid [of ts] replica_edges [OF r] s by (simp add: validateEdges_def storable_def)
  moreover have "known_status (tk_Status t)" using s by (cases "tk_Status t") (auto simp: known_status_def storable_def)
  moreover have "map_of (bd_tasks c) (tk_ID t) = map_option erased (map_of ts (tk_ID t))" using r by (simp add: replica_def)
  ultimately show ?thesis
    using s rev by (cases "map_of ts (tk_ID t)") (auto simp: apply_task_def storable_def)
qed

text \<open>The journal of a board rebuilds it on a fresh board of the same team.\<close>

definition journalled :: "Board \<Rightarrow> Board \<Rightarrow> bool" where
  "journalled c0 b \<longleftrightarrow> bd_teamID c0 = bd_teamID b \<and>
     (\<exists>c. replay (task_emits (bd_teamID b) (bd_emitted b)) c0 = Inr c \<and> replica (bd_tasks b) (bd_tasks c) \<and>
        bd_next c \<le> bd_next b \<and> bd_teamID c = bd_teamID b)"

lemma itoa_scan: "takeWhile is_digit (itoa n) = itoa n" "dropWhile (\<lambda>c. is_space c \<and> c \<noteq> CHR 0x0A) (itoa n) = itoa n"
proof -
  show "takeWhile is_digit (itoa n) = itoa n" using itoa_digits [of n] by (simp add: list_all_iff)
  have "\<not> is_space c" if "is_digit c" for c using that by (auto simp: is_digit_def is_space_def)
  then show "dropWhile (\<lambda>c. is_space c \<and> c \<noteq> CHR 0x0A) (itoa n) = itoa n"
    using hd_itoa_digit [of n] by (cases "itoa n") auto
qed

lemma taskNumber_task_id: "taskNumber (task_id n) = (if int n \<le> max_int64 then int n else 0)"
proof -
  have "has_prefix (task_id n) ''task-''" "drop 5 (task_id n) = itoa n" by (simp_all add: task_id_def has_prefix_def)
  moreover have "scan_int (itoa n) = (if int n \<le> max_int64 then int n else 0)"
    unfolding scan_int_def Let_def itoa_scan(2) by (simp add: itoa_scan(1) min_int64_def del: takeWhile_eq_all_conv)
  ultimately show ?thesis by (simp add: taskNumber_def)
qed

lemma taskNumber_le: "taskNumber (task_id n) \<le> int n"
  by (simp add: taskNumber_task_id)

lemma journalled_store:
  assumes j: "journalled c0 b" and st: "stores b ev n t" and ev: "ev \<in> {TaskCreate, TaskUpdate}"
  shows "journalled c0 (put_task t (ev t) (b\<lparr>bd_next := n\<rparr>))"
proof -
  obtain c where c: "replay (task_emits (bd_teamID b) (bd_emitted b)) c0 = Inr c" "replica (bd_tasks b) (bd_tasks c)"
    "bd_next c \<le> bd_next b" "bd_teamID c = bd_teamID b" and team: "bd_teamID c0 = bd_teamID b" using j by (auto simp: journalled_def)
  let ?c = "c\<lparr>bd_tasks := AList.update (tk_ID t) (erased t) (bd_tasks c), bd_next := nat (max (int (bd_next c)) (taskNumber (tk_ID t)))\<rparr>"
  have s: "storable n (bd_tasks b) t" using st by (simp add: stores_def)
  have "case map_of (bd_tasks b) (tk_ID t) of None \<Rightarrow> tk_Revision t = 1 | Some p \<Rightarrow> tk_Revision t = tk_Revision p + 1"
    using st by (simp add: stores_def split: option.splits)
  note a = apply_stored [OF c(2) s this]
  obtain k where k: "k \<le> n" "tk_ID t = task_id k" using s by (auto simp: storable_def)
  have id: "tk_ID t \<noteq> []" using k by (simp add: task_id_def)
  have "ApplyEvent (task_event (bd_teamID b) t) c = (Inr (), ?c)"
    using a c(4) id by (simp add: task_event_def erased_def)
  then have "replay (task_emits (bd_teamID b) (bd_emitted b @ [ev t])) c0 = Inr ?c" using c(1) ev by auto
  moreover have "bd_next ?c \<le> n" using c(3) st taskNumber_le [of k] k by (simp add: stores_def) linarith
  ultimately show ?thesis using replica_update [OF c(2)] c(4) team by (auto simp: journalled_def)
qed

lemma journalled_next: "journalled c0 b \<Longrightarrow> bd_next b \<le> n \<Longrightarrow> journalled c0 (b\<lparr>bd_next := n\<rparr>)"
  by (auto simp: journalled_def)

lemma journalled_run:
  "board_ok b \<Longrightarrow> journalled c0 b \<Longrightarrow> list_all clock_ok cs \<Longrightarrow> journalled c0 (task_run cs b)"
  unfolding task_run_def
proof (induction cs arbitrary: b)
  case (Cons c cs)
  have "journalled c0 (task_exec c b)"
  proof (cases c)
    case (CallCreate ask s d i js ss)
    show ?thesis
      using CreateTask_stores [OF Cons.prems(1), of ask s d i js ss] journalled_store [OF Cons.prems(2), of TaskCreate]
        journalled_next [OF Cons.prems(2)] CallCreate by auto
  next
    case (CallUpdate now u)
    then have "now \<noteq> 0" using Cons.prems(3) by simp
    from UpdateTask_stores [OF Cons.prems(1) this, of u] show ?thesis
      using journalled_store [OF Cons.prems(2), of TaskUpdate "bd_next b"] Cons.prems(2) CallUpdate by auto
  qed
  moreover have "board_ok (task_exec c b)" using board_ok_run [OF Cons.prems(1), of "[c]"] Cons.prems(3) by (simp add: task_run_def)
  ultimately show ?case using Cons.IH Cons.prems(3) by simp
qed simp

text \<open>
  C34: the journal is the board: after any creates and updates, replaying the task events they reported
  on a fresh board of the team succeeds and rebuilds every task as it stands, all but the time of a
  deletion, and never hands out an identity the board had not reached.
\<close>

theorem task_events_replay:
  assumes "list_all clock_ok cs" and "0 \<le> n"
  shows "\<exists>c. replay (task_emits i (bd_emitted (task_run cs (fresh_board i n r)))) (fresh_board i m r') = Inr c \<and>
    (\<forall>j. map_of (bd_tasks c) j = map_option (\<lambda>t. t\<lparr>tk_DeletedAt := 0\<rparr>) (map_of (bd_tasks (task_run cs (fresh_board i n r))) j)) \<and>
    bd_next c \<le> bd_next (task_run cs (fresh_board i n r))"
proof -
  have "journalled (fresh_board i m r') (fresh_board i n r)" by (simp add: journalled_def replica_def fresh_board_def)
  note j = journalled_run [OF board_ok_fresh [OF assms(2)] this assms(1)]
  then have "bd_teamID (task_run cs (fresh_board i n r)) = i" by (simp add: journalled_def fresh_board_def)
  with j show ?thesis by (auto simp: journalled_def replica_def erased_def [abs_def])
qed

lemma task_events_replay_witness:
  "\<exists>c. replay (task_emits ''t'' (bd_emitted (task_run sample_calls (fresh_board ''t'' 2 None)))) (fresh_board ''t'' 9 None) = Inr c"
proof -
  have "list_all clock_ok sample_calls" by (simp add: sample_calls_def Let_def)
  from task_events_replay [OF this, of 2 "''t''" None 9 None] show ?thesis by auto
qed

end
