(* ===== verification/Team_Snapshot.thy ===== *)
theory Team_Snapshot
  imports Team_Replay "HOL-Library.Multiset"
begin

text \<open>
  The snapshot of the team board restores it: which boards come back, task by task, message by message
  and member by member, and what becomes of the others.
\<close>

section \<open>Maps read back from their values\<close>

definition keyed :: "('v \<Rightarrow> 'k) \<Rightarrow> ('k \<times> 'v) list \<Rightarrow> bool" where
  "keyed f m \<longleftrightarrow> wf_map m \<and> (\<forall>k v. map_of m k = Some v \<longrightarrow> f v = k)"

definition index_by :: "('v \<Rightarrow> 'k) \<Rightarrow> 'v list \<Rightarrow> ('k \<times> 'v) list" where
  "index_by f vs = map (\<lambda>v. (f v, v)) vs"

lemma keyed_pairs: "keyed f m \<Longrightarrow> index_by f (vals m) = m"
  unfolding index_by_def map_map comp_def
  by (rule map_idI) (auto simp: keyed_def wf_map_in_set)

lemma index_sorted:
  assumes "keyed f m"
  shows "map_of (index_by f (sort_key f (vals m))) = map_of m" and "wf_map (index_by f (sort_key f (vals m)))"
    and "distinct (map f (sort_key f (vals m)))"
proof -
  let ?s = "index_by f (sort_key f (vals m))"
  have "mset ?s = mset (index_by f (vals m))" by (simp only: index_by_def mset_map mset_sort)
  then have m: "mset ?s = mset m" using keyed_pairs [OF assms] by simp
  then have "mset (map fst ?s) = mset (map fst m)" by (metis mset_map)
  then have d: "distinct (map fst ?s)" using assms by (metis keyed_def mset_eq_imp_distinct_iff wf_map_def)
  then show "wf_map ?s" by (simp add: wf_map_def)
  show "distinct (map f (sort_key f (vals m)))" using d by (simp add: index_by_def comp_def)
  have "distinct (map fst m)" using assms by (simp add: keyed_def wf_map_def)
  with d m show "map_of ?s = map_of m" by (subst map_of_inject_set) (auto dest: mset_eq_setD)
qed

text \<open>A loop that checks each value and indexes it.\<close>

lemma fold_index:
  assumes "\<And>us v. set us \<subseteq> set vs \<Longrightarrow> take (length us) vs = us \<Longrightarrow> v \<in> set vs \<Longrightarrow>
      map_of (index_by f us) (f v) = None \<Longrightarrow> step (index_by f us) v = Inr (AList.update (f v) v (index_by f us))"
    and "distinct (map f vs)"
  shows "fold_until step [] vs = Inr (index_by f vs)"
proof -
  have "fold_until step [] (take n vs) = Inr (index_by f (take n vs))" if "n \<le> length vs" for n
    using that
  proof (induction n)
    case (Suc n)
    let ?us = "take n vs" and ?v = "vs ! n"
    have t: "take (Suc n) vs = ?us @ [?v]" using Suc.prems by (simp add: take_Suc_conv_app_nth)
    have "distinct (map f (?us @ [?v]))" using assms(2) unfolding t [symmetric] by (simp add: take_map [symmetric])
    then have fresh: "map_of (index_by f ?us) (f ?v) = None" by (auto simp: index_by_def map_of_eq_None_iff)
    have "step (index_by f ?us) ?v = Inr (AList.update (f ?v) ?v (index_by f ?us))"
      using Suc.prems fresh by (intro assms(1)) (auto dest: in_set_takeD simp: min_def)
    then show ?case unfolding t using Suc fresh by (simp add: fold_until_append update_new_key) (simp add: index_by_def)
  qed (simp add: index_by_def)
  from this [of "length vs"] show ?thesis by simp
qed

section \<open>Tasks\<close>

text \<open>
  What the restored board insists on beyond what the live board keeps: a deleted task depends on live
  tasks, as the others do.
\<close>

definition deleted_ok :: "tasks \<Rightarrow> bool" where
  "deleted_ok ts \<longleftrightarrow> (\<forall>i t. map_of ts i = Some t \<longrightarrow> tk_Status t = TaskDeleted \<longrightarrow> (\<forall>j \<in> set (tk_BlockedBy t). live ts j))"

lemma restore_tasks_snapshot:
  assumes ok: "tasks_ok n ts" and d: "deleted_ok ts" and n: "int n \<le> max_int64" and a: "active_tasks ts \<le> m"
  shows "restore_tasks m (sort_key tk_ID (vals ts)) = Inr (index_by tk_ID (sort_key tk_ID (vals ts)))"
proof -
  let ?vs = "sort_key tk_ID (vals ts)" and ?us = "index_by tk_ID (sort_key tk_ID (vals ts))"
  have key: "keyed tk_ID ts" using tasks_okD(1,3) [OF ok] by (auto simp: keyed_def task_ok_def)
  note s = index_sorted [OF key]
  have stored: "map_of ts (tk_ID t) = Some t" if "t \<in> set ?vs" for t
    using that key by (auto simp: keyed_def wf_map_in_set)
  have t: "task_ok n ts (tk_ID t) t" if "t \<in> set ?vs" for t using tasks_okD(3) [OF ok stored [OF that]] .
  have "restore_task (index_by tk_ID us) t = Inr (AList.update (tk_ID t) t (index_by tk_ID us))"
    if v: "t \<in> set ?vs" and fresh: "map_of (index_by tk_ID us) (tk_ID t) = None" for us t
  proof -
    obtain k where k: "0 < k" "k \<le> n" "tk_ID t = task_id k" using t [OF v] by (auto simp: task_ok_def)
    have "0 < taskNumber (tk_ID t)" using k n by (simp add: taskNumber_task_id)
    moreover have "known_status (tk_Status t)" using t [OF v] by (cases "tk_Status t") (auto simp: known_status_def task_ok_def)
    ultimately show ?thesis using t [OF v] fresh by (auto simp: restore_task_def task_ok_def)
  qed
  then have "fold_until restore_task [] ?vs = Inr ?us" by (intro fold_index s(3)) simp_all
  moreover have same: "map_of ?us = map_of ts" by (rule s(1))
  have live: "live ts j" if "v \<in> set ?vs" "j \<in> set (tk_BlockedBy v)" for v j
    using t [OF that(1)] d stored [OF that(1)] that(2) by (cases "tk_Status v = TaskDeleted") (auto simp: task_ok_def deleted_ok_def)
  have "check_blockers ?us = None"
    using live same by (fastforce simp: check_blockers_def list_all_iff index_by_def comp_def live_def split: option.splits)
  moreover have "validateEdges ?us (tk_ID v) (tk_BlockedBy v) = None" if v: "v \<in> set ?vs" for v
    unfolding validateEdges_None
  proof (intro conjI ballI)
    have e: "dep_edges ?us = dep_edges ts" by (simp add: dep_edges_def deps_def same)
    show "distinct (tk_BlockedBy v)" using t [OF v] by (simp add: task_ok_def)
    fix j assume j: "j \<in> set (tk_BlockedBy v)"
    show "\<exists>u. map_of ?us j = Some u \<and> tk_Status u \<noteq> TaskDeleted" using live [OF v j] same by (simp add: live_def)
    have "(tk_ID v, j) \<in> dep_edges ts" using j stored [OF v] by (simp add: dep_edges_def deps_def)
    then show "j \<noteq> tk_ID v" "(j, tk_ID v) \<notin> (dep_edges ?us)\<^sup>*"
      using tasks_okD(2) [OF ok] unfolding e by (auto simp: acyclic_def dest: rtrancl_into_trancl2 trancl.r_into_trancl)
  qed
  then have "check_edges ?us = None" by (auto simp: check_edges_def first_error_None_iff index_by_def)
  moreover have "active_tasks ?us \<le> m"
    using a active_card [OF tasks_okD(1) [OF ok]] active_card [OF s(2)] by (simp add: live_def same)
  ultimately show ?thesis by (simp add: restore_tasks_def check_that_def)
qed

lemma foldr_max_le: "\<forall>x \<in> set xs. x \<le> m \<Longrightarrow> (a :: 'a :: linorder) \<le> m \<Longrightarrow> foldr max xs a \<le> m"
  by (induction xs) auto

lemma sorted_member [simp]: "x \<in> set (sort_key f (vals m)) \<longleftrightarrow> x \<in> snd ` set m"
  by simp

section \<open>Messages\<close>

definition message_ok :: "nat \<Rightarrow> int \<Rightarrow> string \<Rightarrow> TeamMessage \<Rightarrow> bool" where
  "message_ok n maxBytes i m \<longleftrightarrow> tm_ID m = i \<and> (\<exists>k. 0 < k \<and> k \<le> n \<and> i = message_id k) \<and> tm_TargetID m \<noteq> [] \<and> tm_SenderID m \<noteq> [] \<and>
     (tm_Delivery m = ''quiet'' \<or> tm_Delivery m = ''wakeup'') \<and> int (length (tm_Content m)) \<le> maxBytes \<and>
     \<not> blocks_empty (tm_ContentBlocks m)"

definition mailbox_ok :: "nat \<Rightarrow> int \<Rightarrow> int \<Rightarrow> mailbox \<Rightarrow> bool" where
  "mailbox_ok n maxBytes maxPending ms \<longleftrightarrow> wf_map ms \<and> (\<forall>i m. map_of ms i = Some m \<longrightarrow> message_ok n maxBytes i m) \<and>
     (\<forall>target. int (length (pending_for target ms)) \<le> maxPending)"

lemma messageNumber_id: "int n \<le> max_uint64 \<Longrightarrow> messageNumber (message_id n) = n"
proof -
  assume n: "int n \<le> max_uint64"
  have "has_prefix (message_id n) ''msg-''" "drop 4 (message_id n) = itoa n" by (simp_all add: message_id_def has_prefix_def)
  then show ?thesis using n unfolding messageNumber_def Let_def
    by (simp add: itoa_scan del: takeWhile_eq_all_conv)
qed

lemma pending_index: "pending_for t (index_by f us) = filter (\<lambda>m. tm_TargetID m = t \<and> \<not> tm_Delivered m) us"
  by (simp add: pending_for_def index_by_def comp_def)

lemma restore_messages_snapshot:
  assumes ok: "mailbox_ok n (bd_maxBytes b) (bd_maxPending b) ms" and n: "int n \<le> max_uint64"
  shows "fold_until (restore_message b) [] (sort_key tm_ID (vals ms)) = Inr (index_by tm_ID (sort_key tm_ID (vals ms)))"
proof (rule fold_index)
  let ?vs = "sort_key tm_ID (vals ms)"
  have key: "keyed tm_ID ms" using ok by (auto simp: mailbox_ok_def keyed_def message_ok_def)
  show d: "distinct (map tm_ID ?vs)" using index_sorted(3) [OF key] .
  fix us m
  assume us: "set us \<subseteq> set ?vs" "take (length us) ?vs = us" and m: "m \<in> set ?vs"
    and fresh: "map_of (index_by tm_ID us) (tm_ID m) = None"
  have "map_of ms (tm_ID m) = Some m" using m key by (auto simp: keyed_def wf_map_in_set)
  then have mo: "message_ok n (bd_maxBytes b) (tm_ID m) m" using ok by (auto simp: mailbox_ok_def)
  obtain k where k: "0 < k" "k \<le> n" "tm_ID m = message_id k" using mo by (auto simp: message_ok_def)
  have num: "messageNumber (tm_ID m) = k" using k n by (simp add: messageNumber_id)
  let ?P = "\<lambda>x. tm_TargetID x = tm_TargetID m \<and> \<not> tm_Delivered x"
  have "m \<notin> set us" using fresh by (auto simp: index_by_def map_of_eq_None_iff image_image)
  moreover have "?vs = us @ drop (length us) ?vs" using us(2) by (metis append_take_drop_id)
  ultimately have "m \<in> set (drop (length us) ?vs)" using m by (metis Un_iff set_append)
  then have "\<not> tm_Delivered m \<Longrightarrow> filter ?P (drop (length us) ?vs) \<noteq> []" by (auto simp: filter_empty_conv)
  then have "\<not> tm_Delivered m \<Longrightarrow> length (filter ?P us) + 1 \<le> length (filter ?P us @ filter ?P (drop (length us) ?vs))"
    by (cases "filter ?P (drop (length us) ?vs)") simp_all
  then have grow: "\<not> tm_Delivered m \<Longrightarrow> length (filter ?P us) + 1 \<le> length (filter ?P ?vs)"
    using \<open>?vs = us @ drop (length us) ?vs\<close> by (metis filter_append)
  have same: "length (filter ?P ?vs) = length (pending_for (tm_TargetID m) ms)"
    by (simp add: pending_for_def filter_sort [symmetric] del: filter_sort) (simp add: filter_sort)
  have most: "int (length (pending_for (tm_TargetID m) ms)) \<le> bd_maxPending b" using ok by (simp add: mailbox_ok_def)
  have pend: "int (length (filter ?P us)) + 1 \<le> bd_maxPending b" if "\<not> tm_Delivered m"
    using grow [OF that] same most by linarith
  have "pending_for (tm_TargetID m) (AList.update (tm_ID m) m (index_by tm_ID us)) =
      filter ?P us @ (if tm_Delivered m then [] else [m])"
    using fresh by (simp add: update_new_key pending_for_def index_by_def comp_def)
  then show "restore_message b (index_by tm_ID us) m = Inr (AList.update (tm_ID m) m (index_by tm_ID us))"
    using mo num k(1) fresh pend by (auto simp: restore_message_def message_ok_def blocks_empty_def Let_def)
qed

section \<open>Members\<close>

lemma name_trims:
  assumes "row_name_ok name" and "name \<noteq> []"
  shows "trim_space name \<noteq> []"
proof (cases "name = ''lead''")
  case False
  have "split_on CHR ''-'' name \<noteq> []" by (cases name) (auto split: list.splits)
  then obtain w ws where w: "split_on CHR ''-'' name = w # ws" by (cases "split_on CHR ''-'' name") auto
  have first: "set w \<subseteq> set name" using w by (induction name arbitrary: w ws) (auto split: if_splits list.splits)
  have "w \<noteq> [] \<and> list_all name_char w" using assms False w by (simp add: row_name_ok_def memberNamePattern_def)
  then have "hd w \<in> set name" "name_char (hd w)" using first by (auto simp: list_all_iff)
  moreover have "\<not> is_space c" if "name_char c" for c
    using that by (auto simp: name_char_def is_digit_def is_space_def less_eq_char_def)
  ultimately show ?thesis using trim_nonblank by blast
qed (simp add: trim_space_def is_space_def)

definition members_ok :: "Board \<Rightarrow> bool" where
  "members_ok b \<longleftrightarrow>
     (case bd_roster b of
        None \<Rightarrow> keyed ms_ID (bd_memberRows b) \<and> (\<forall>m \<in> set (vals (bd_memberRows b)). validateMemberSnapshot m = None)
      | Some r \<Rightarrow> roster_ok r \<and> (\<exists>lead. map_of (ro_members r) (ro_leadID r) = Some lead \<and> ms_Phase lead = MemberActive) \<and>
          (\<forall>m \<in> set (vals (ro_members r)). trim_space (ms_ID m) \<noteq> []))"

lemma restore_members:
  assumes "distinct (map ms_ID rows)" and "\<forall>m \<in> set rows. validateMemberSnapshot m = None"
  shows "fold_until restore_member [] rows = Inr (index_by ms_ID rows)"
  using assms by (intro fold_index) (auto simp: restore_member_def)

lemma roster_rows_valid:
  assumes "roster_ok r" and "\<forall>m \<in> set (vals (ro_members r)). trim_space (ms_ID m) \<noteq> []" and "m \<in> set (RosterSnapshot r)"
  shows "validateMemberSnapshot m = None"
proof -
  have rows: "rows_ok (ro_members r)" using assms(1) by (simp add: roster_ok_def)
  obtain i where i: "i \<in> keys (ro_members r)" "m = the (map_of (ro_members r) i)" using assms(3) by (auto simp: RosterSnapshot_def)
  then have m: "map_of (ro_members r) i = Some m" by (auto simp: in_keys_iff)
  then have "m \<in> set (vals (ro_members r))" using map_of_SomeD [OF m] by force
  then show ?thesis using rows_okD(2) [OF rows m] assms(2) name_trims
    by (auto simp: validateMemberSnapshot_def row_ok_def)
qed

section \<open>The board\<close>

definition restorable :: "Board \<Rightarrow> bool" where
  "restorable b \<longleftrightarrow> trim_space (bd_teamID b) \<noteq> [] \<and> board_ok b \<and> deleted_ok (bd_tasks b) \<and> int (bd_next b) \<le> max_int64 \<and>
     mailbox_ok (bd_msgNext b) (bd_maxBytes b) (bd_maxPending b) (bd_messages b) \<and> int (bd_msgNext b) \<le> max_uint64 \<and> members_ok b"

text \<open>The same board to every reader, but for the agents bound to its roster.\<close>

definition same_board :: "Board \<Rightarrow> Board \<Rightarrow> bool" where
  "same_board b c \<longleftrightarrow> bd_teamID c = bd_teamID b \<and> bd_next c = bd_next b \<and> bd_msgNext c = bd_msgNext b \<and>
     map_of (bd_tasks c) = map_of (bd_tasks b) \<and> map_of (bd_messages c) = map_of (bd_messages b) \<and>
     (case bd_roster b of
        None \<Rightarrow> bd_roster c = None \<and> map_of (bd_memberRows c) = map_of (bd_memberRows b)
      | Some r \<Rightarrow> (\<exists>r'. bd_roster c = Some r' \<and> map_of (ro_members r') = map_of (ro_members r) \<and> ro_handles r' = [] \<and>
          map_of (bd_memberRows c) = map_of (ro_members r)))"

text \<open>The snapshot may come back into a later state of the board.\<close>

definition same_config :: "Board \<Rightarrow> Board \<Rightarrow> bool" where
  "same_config b c \<longleftrightarrow> bd_teamID c = bd_teamID b \<and> bd_roster c = bd_roster b \<and> bd_maxTasks c = bd_maxTasks b \<and>
     bd_maxPending c = bd_maxPending b \<and> bd_maxBytes c = bd_maxBytes b"

lemma restores:
  assumes "restorable b" and conf: "same_config b d"
  shows "\<exists>c. BoardRestore (BoardSnapshot b) d = (Inr (), c) \<and> same_board b c"
proof -
  let ?ts = "sort_key tk_ID (vals (bd_tasks b))" and ?ms = "sort_key tm_ID (vals (bd_messages b))"
  from assms have ok: "tasks_ok (bd_next b) (bd_tasks b)" and tasks: "deleted_ok (bd_tasks b)" "int (bd_next b) \<le> max_int64"
      "active_tasks (bd_tasks b) \<le> bd_maxTasks d"
    and mail: "mailbox_ok (bd_msgNext b) (bd_maxBytes d) (bd_maxPending d) (bd_messages b)" "int (bd_msgNext b) \<le> max_uint64"
    and team: "trim_space (bd_teamID b) \<noteq> []" and members: "members_ok b"
    using conf by (simp_all add: restorable_def board_ok_def same_config_def)
  have tkey: "keyed tk_ID (bd_tasks b)" using tasks_okD(1,3) [OF ok] by (auto simp: keyed_def task_ok_def)
  have mkey: "keyed tm_ID (bd_messages b)" using mail(1) by (auto simp: mailbox_ok_def keyed_def message_ok_def)
  note rt = restore_tasks_snapshot [OF ok tasks] and rm = restore_messages_snapshot [OF mail]
  have tn: "taskNumber (tk_ID t) \<le> int (bd_next b)" if "t \<in> set (vals (bd_tasks b))" for t
  proof -
    have "map_of (bd_tasks b) (tk_ID t) = Some t" using that tkey by (auto simp: keyed_def wf_map_in_set)
    from tasks_okD(3) [OF ok this] obtain k where "k \<le> bd_next b" "tk_ID t = task_id k" by (auto simp: task_ok_def)
    then show ?thesis using taskNumber_le [of k] by simp
  qed
  have mn: "messageNumber (tm_ID m) \<le> bd_msgNext b" if "m \<in> set (vals (bd_messages b))" for m
  proof -
    have "map_of (bd_messages b) (tm_ID m) = Some m" using that mkey by (auto simp: keyed_def wf_map_in_set)
    then have "message_ok (bd_msgNext b) (bd_maxBytes d) (tm_ID m) m" using mail(1) unfolding mailbox_ok_def by blast
    then obtain k where "k \<le> bd_msgNext b" "tm_ID m = message_id k" unfolding message_ok_def by blast
    then show ?thesis using mail(2) by (simp add: messageNumber_id)
  qed
  have next_ok: "nat (max (int (bd_next b)) (foldr max (map (\<lambda>t. taskNumber (tk_ID t)) ?ts) 0)) = bd_next b"
    using foldr_max_le [of "map (\<lambda>t. taskNumber (tk_ID t)) ?ts" "int (bd_next b)" 0] tn by (simp add: max_absorb1)
  have msg_ok: "max (bd_msgNext b) (foldr max (map (\<lambda>m. messageNumber (tm_ID m)) ?ms) 0) = bd_msgNext b"
    using foldr_max_le [of "map (\<lambda>m. messageNumber (tm_ID m)) ?ms" "bd_msgNext b" 0] mn by (simp add: max_absorb1)
  let ?c = "\<lambda>rows roster. d\<lparr>bd_tasks := index_by tk_ID ?ts, bd_messages := index_by tm_ID ?ms, bd_memberRows := index_by ms_ID rows,
      bd_roster := roster, bd_next := bd_next b, bd_msgNext := bd_msgNext b\<rparr>"
  show ?thesis
  proof (cases "bd_roster b")
    case None
    let ?rows = "sort_key ms_ID (vals (bd_memberRows b))"
    have key: "keyed ms_ID (bd_memberRows b)" and v: "\<forall>m \<in> set ?rows. validateMemberSnapshot m = None"
      using members None by (simp_all add: members_ok_def)
    note rows = restore_members [OF index_sorted(3) [OF key] v]
    have "BoardRestore (BoardSnapshot b) d = (Inr (), ?c ?rows None)"
      using team rt rm None rows next_ok msg_ok conf by (simp add: BoardRestore_def BoardSnapshot_def same_config_def)
    then show ?thesis using index_sorted(1) [OF tkey] index_sorted(1) [OF mkey] index_sorted(1) [OF key] None conf
      by (simp add: same_board_def same_config_def)
  next
    case (Some r)
    let ?rows = "RosterSnapshot r"
    obtain lead where r: "roster_ok r" "map_of (ro_members r) (ro_leadID r) = Some lead" "ms_Phase lead = MemberActive"
      and trim: "\<forall>m \<in> set (vals (ro_members r)). trim_space (ms_ID m) \<noteq> []" using members Some by (auto simp: members_ok_def)
    have ro: "rows_ok (ro_members r)" using r(1) by (simp add: roster_ok_def)
    obtain ms where ms: "RosterRestore ?rows r = (Inr (), r\<lparr>ro_members := ms, ro_handles := []\<rparr>)" "map_of ms = map_of (ro_members r)"
      using roster_restores [OF r] by blast
    have "distinct (map ms_ID ?rows)" using snapshot_rows(2) [OF ro] rows_okD(1) [OF ro] by (simp add: wf_map_def)
    then have rows: "fold_until restore_member [] ?rows = Inr (index_by ms_ID ?rows)"
      using roster_rows_valid [OF r(1) trim] by (intro restore_members) auto
    have "length ?rows \<noteq> 0" using snapshot_rows(4) [OF ro] r(2) by (cases "ro_members r") auto
    then have "?rows \<noteq> []" by auto
    then have "BoardRestore (BoardSnapshot b) d = (Inr (), ?c ?rows (Some (r\<lparr>ro_members := ms, ro_handles := []\<rparr>)))"
      using team rt rm Some rows ms(1) next_ok msg_ok conf by (simp add: BoardRestore_def BoardSnapshot_def same_config_def)
    then show ?thesis using index_sorted(1) [OF tkey] index_sorted(1) [OF mkey] snapshot_rows(5) [OF ro] ms(2) Some conf
      by (simp add: same_board_def same_config_def index_by_def)
  qed
qed

end
