(* ===== verification/Team_Delivery.thy ===== *)
theory Team_Delivery
  imports Team_Snapshot
begin

text \<open>
  Runs of the whole board, tasks and mailbox together: what the mailbox keeps, in which order messages
  are sent and delivered, and which reachable boards survive their own snapshot.
\<close>

section \<open>The mailbox operations\<close>

lemma store_message_fields [simp]:
  "bd_messages (store_message m ev b) = AList.update (tm_ID m) m (bd_messages b)" "bd_msgNext (store_message m ev b) = bd_msgNext b"
  "bd_emitted (store_message m ev b) = bd_emitted b @ [ev]" "bd_tasks (store_message m ev b) = bd_tasks b"
  "bd_next (store_message m ev b) = bd_next b" "bd_maxTasks (store_message m ev b) = bd_maxTasks b"
  "bd_maxBytes (store_message m ev b) = bd_maxBytes b" "bd_maxPending (store_message m ev b) = bd_maxPending b"
  "bd_teamID (store_message m ev b) = bd_teamID b" "bd_roster (store_message m ev b) = bd_roster b"
  "bd_memberRows (store_message m ev b) = bd_memberRows b"
  by (simp_all add: store_message_def)

lemma put_task_mail [simp]:
  "bd_messages (put_task t ev b) = bd_messages b" "bd_msgNext (put_task t ev b) = bd_msgNext b"
  "bd_maxBytes (put_task t ev b) = bd_maxBytes b" "bd_maxPending (put_task t ev b) = bd_maxPending b"
  "bd_roster (put_task t ev b) = bd_roster b" "bd_memberRows (put_task t ev b) = bd_memberRows b"
  by (simp_all add: put_task_def)

text \<open>A message as it is sent.\<close>

definition sendable :: "Board \<Rightarrow> nat \<Rightarrow> TeamMessage \<Rightarrow> bool" where
  "sendable b n m \<longleftrightarrow> bd_msgNext b < n \<and> tm_ID m = message_id n \<and> \<not> tm_Delivered m \<and> tm_TargetID m \<noteq> [] \<and> tm_SenderID m \<noteq> [] \<and>
     (tm_Delivery m = ''quiet'' \<or> tm_Delivery m = ''wakeup'') \<and> tm_Content m = messageBlocksText (tm_ContentBlocks m) \<and>
     \<not> blocks_empty (tm_ContentBlocks m) \<and> int (messageEventBytes (m\<lparr>tm_ID := []\<rparr>)) \<le> bd_maxBytes b \<and>
     int (length (pending_for (tm_TargetID m) (bd_messages b))) < bd_maxPending b"

lemma SendMessage_cases:
  "(\<exists>x n. SendMessageWithContent ask now s name target blocks delivery b = (Inl x, b\<lparr>bd_msgNext := n\<rparr>) \<and> bd_msgNext b \<le> n) \<or>
   (\<exists>n m. sendable b n m \<and> tm_SenderID m = s \<and> tm_TargetID m = target \<and> tm_ContentBlocks m = blocks \<and>
      SendMessageWithContent ask now s name target blocks delivery b = (Inr m, store_message m (MessageSend m) (b\<lparr>bd_msgNext := n\<rparr>)))"
proof -
  let ?probe = "\<lparr>tm_ID = [], tm_SenderID = s, tm_SenderName = name, tm_TargetID = target, tm_Delivery = delivery,
            tm_Content = messageBlocksText blocks, tm_ContentBlocks = blocks, tm_CreatedAt = 0, tm_Delivered = False\<rparr>"
  consider (refused) "trim_space s = [] \<or> trim_space target = [] \<or> (delivery \<noteq> ''quiet'' \<and> delivery \<noteq> ''wakeup'') \<or> blocks_empty blocks \<or>
      bd_maxBytes b < int (messageEventBytes ?probe) \<or> bd_maxPending b \<le> int (length (pending_for target (bd_messages b)))"
    | (taken) "trim_space s \<noteq> []" "trim_space target \<noteq> []" "delivery = ''quiet'' \<or> delivery = ''wakeup''" "\<not> blocks_empty blocks"
      "int (messageEventBytes ?probe) \<le> bd_maxBytes b" "int (length (pending_for target (bd_messages b))) < bd_maxPending b"
    by linarith
  then show ?thesis
  proof cases
    case refused
    then have "\<exists>x. SendMessageWithContent ask now s name target blocks delivery b = (Inl x, b)"
      by (auto simp: SendMessageWithContent_def Let_def)
    then obtain x where "SendMessageWithContent ask now s name target blocks delivery b = (Inl x, b)" by blast
    then show ?thesis by (intro disjI1 exI [of _ x] exI [of _ "bd_msgNext b"]) simp
  next
    case taken
    obtain r n where r: "reserve_id 32 message_id ask (bd_msgNext b) = (r, n)" by (cases "reserve_id 32 message_id ask (bd_msgNext b)")
    note range = reserve_id_range [OF r]
    have run: "SendMessageWithContent ask now s name target blocks delivery b =
      (case r of Inl x \<Rightarrow> (Inl x, b\<lparr>bd_msgNext := n\<rparr>)
       | Inr i \<Rightarrow> (Inr (?probe\<lparr>tm_ID := i, tm_CreatedAt := now\<rparr>),
           store_message (?probe\<lparr>tm_ID := i, tm_CreatedAt := now\<rparr>) (MessageSend (?probe\<lparr>tm_ID := i, tm_CreatedAt := now\<rparr>)) (b\<lparr>bd_msgNext := n\<rparr>)))"
      using taken r by (auto simp: SendMessageWithContent_def Let_def split: sum.split)
    show ?thesis
    proof (cases r)
      case (Inl x)
      then show ?thesis using run range by (intro disjI1 exI [of _ x] exI [of _ n]) simp
    next
      case (Inr i)
      let ?m = "?probe\<lparr>tm_ID := i, tm_CreatedAt := now\<rparr>"
      have "s \<noteq> []" "target \<noteq> []" using taken(1,2) by (auto simp: trim_space_def)
      moreover have "messageEventBytes (?m\<lparr>tm_ID := []\<rparr>) = messageEventBytes ?probe"
        using taken(4) by (simp add: messageEventBytes_def messageEventWireFrom_def blocks_empty_def)
      ultimately have "sendable b n ?m" using taken Inr range by (auto simp: sendable_def)
      then show ?thesis using run Inr by (intro disjI2 exI [of _ n] exI [of _ ?m]) simp
    qed
  qed
qed

text \<open>The text of a message is part of its encoding.\<close>

lemma char_size_pos: "1 \<le> char_size c"
  by (simp add: char_size_def)

lemma string_size_ge: "length s \<le> string_size s"
  unfolding string_size_def
proof (induction s)
  case (Cons c s)
  then show ?case using char_size_pos [of c] by simp
qed simp

lemma commas_ge: "sum_list ns \<le> commas ns" "n \<in> set ns \<Longrightarrow> n \<le> commas ns"
proof -
  show s: "sum_list ns \<le> commas ns" by (simp add: commas_def)
  show "n \<le> commas ns" if "n \<in> set ns" using member_le_sum_list [OF that] s by linarith
qed

lemma content_size: "length (cb_Text c) \<le> json_size (encode_content (messageContentWireFrom c))"
proof (cases c)
  case (ContentBlock kind body img callID name args isErr blocks raw)
  show ?thesis
  proof (cases "body = []")
    case False
    obtain kvs where e: "encode_content (messageContentWireFrom c) = JObj kvs" "(''text'', JStr body) \<in> set kvs"
      using False by (simp add: ContentBlock omit_string_def)
    have "string_size ''text'' + 1 + string_size body \<in> set (map (\<lambda>(k, v). string_size k + 1 + json_size v) kvs)"
      using e(2) by force
    then have "string_size body \<le> json_size (JObj kvs)" using commas_ge(2) by fastforce
    then show ?thesis using string_size_ge [of body] e(1) by (simp add: ContentBlock)
  qed (simp add: ContentBlock)
qed

lemma message_size:
  assumes "tm_Content m = messageBlocksText (tm_ContentBlocks m)" and "tm_ContentBlocks m \<noteq> []"
  shows "length (tm_Content m) \<le> messageEventBytes m"
proof -
  let ?es = "map encode_content (map messageContentWireFrom (tm_ContentBlocks m))"
  have "length (messageBlocksText bs) \<le> sum_list (map json_size (map encode_content (map messageContentWireFrom bs)))" for bs
  proof (induction bs)
    case (Cons c bs)
    then show ?case using content_size [of c] by (auto simp: messageBlocksText_def)
  qed (simp add: messageBlocksText_def)
  then have "length (tm_Content m) \<le> json_size (JArr ?es)" using assms(1) commas_ge(1) by (fastforce intro: order_trans)
  also have "\<dots> \<le> messageEventBytes m"
    using assms(2) by (simp add: messageEventBytes_def encode_message_def messageEventWireFrom_def commas_def)
  finally show ?thesis .
qed

definition mail_ok :: "Board \<Rightarrow> bool" where
  "mail_ok b \<longleftrightarrow> mailbox_ok (bd_msgNext b) (bd_maxBytes b) (bd_maxPending b) (bd_messages b)"

lemma pending_fresh:
  "map_of ms (tm_ID m) = None \<Longrightarrow> pending_for t (AList.update (tm_ID m) m ms) =
     pending_for t ms @ (if tm_TargetID m = t \<and> \<not> tm_Delivered m then [m] else [])"
  by (simp add: pending_for_def update_new_key)

lemma message_ok_grow: "message_ok n maxBytes i m \<Longrightarrow> n \<le> n' \<Longrightarrow> message_ok n' maxBytes i m"
  unfolding message_ok_def by (meson order_trans)

lemma message_id_inj [simp]: "message_id m = message_id n \<longleftrightarrow> m = n"
  by (simp add: message_id_def)

lemma sendable_fresh:
  assumes "mail_ok b" and "sendable b n m"
  shows "map_of (bd_messages b) (tm_ID m) = None"
proof (cases "map_of (bd_messages b) (tm_ID m)")
  case (Some x)
  then have "message_ok (bd_msgNext b) (bd_maxBytes b) (tm_ID m) x" using assms(1) by (auto simp: mail_ok_def mailbox_ok_def)
  then show ?thesis using assms(2) by (auto simp: message_ok_def sendable_def)
qed

lemma mail_ok_send:
  assumes ok: "mail_ok b" and s: "sendable b n m"
  shows "mail_ok (store_message m ev (b\<lparr>bd_msgNext := n\<rparr>))"
proof -
  note fresh = sendable_fresh [OF ok s]
  have "tm_ContentBlocks m \<noteq> []" using s by (auto simp: sendable_def blocks_empty_def)
  then have "length (tm_Content m) \<le> messageEventBytes (m\<lparr>tm_ID := []\<rparr>)"
    using message_size [of "m\<lparr>tm_ID := []\<rparr>"] s by (simp add: sendable_def)
  then have new: "message_ok n (bd_maxBytes b) (tm_ID m) m" using s by (auto simp: message_ok_def sendable_def)
  have old: "message_ok n (bd_maxBytes b) i x" if "map_of (bd_messages b) i = Some x" for i x
    using ok s that message_ok_grow [of "bd_msgNext b" _ i x n] by (auto simp: mail_ok_def mailbox_ok_def sendable_def)
  show ?thesis
    unfolding mail_ok_def mailbox_ok_def
  proof (intro conjI allI impI)
    show "wf_map (bd_messages (store_message m ev (b\<lparr>bd_msgNext := n\<rparr>)))" using ok by (simp add: mail_ok_def mailbox_ok_def)
    show "int (length (pending_for t (bd_messages (store_message m ev (b\<lparr>bd_msgNext := n\<rparr>)))))
        \<le> bd_maxPending (store_message m ev (b\<lparr>bd_msgNext := n\<rparr>))" for t
      using pending_fresh [OF fresh, of t] ok s by (auto simp: mail_ok_def mailbox_ok_def sendable_def)
  qed (use new old in \<open>auto split: if_splits\<close>)
qed

lemma pending_update_le:
  assumes "map_of ms i = Some m" and "wf_map ms" and "tm_TargetID m' = tm_TargetID m" and "tm_Delivered m'"
  shows "length (pending_for t (AList.update i m' ms)) \<le> length (pending_for t ms)"
  using assms by (induction ms) (auto simp: pending_for_def wf_map_def)

lemma mail_ok_ack:
  assumes ok: "mail_ok b" and m: "map_of (bd_messages b) i = Some m"
  shows "mail_ok (store_message (m\<lparr>tm_Delivered := True\<rparr>) ev b)"
proof -
  have mo: "message_ok (bd_msgNext b) (bd_maxBytes b) i m" using ok m by (auto simp: mail_ok_def mailbox_ok_def)
  then have id: "tm_ID m = i" by (simp add: message_ok_def)
  have wf: "wf_map (bd_messages b)" using ok by (simp add: mail_ok_def mailbox_ok_def)
  have "int (length (pending_for t (AList.update i (m\<lparr>tm_Delivered := True\<rparr>) (bd_messages b)))) \<le> bd_maxPending b" for t
  proof -
    have "int (length (pending_for t (bd_messages b))) \<le> bd_maxPending b" using ok by (simp add: mail_ok_def mailbox_ok_def)
    then show ?thesis using pending_update_le [OF m wf, of "m\<lparr>tm_Delivered := True\<rparr>" t] by simp
  qed
  then show ?thesis using ok mo id by (auto simp: mail_ok_def mailbox_ok_def message_ok_def split: if_splits)
qed

lemma AckMessage_cases:
  "(\<exists>x. AckMessage i b = (x, b)) \<or>
   (\<exists>m. map_of (bd_messages b) i = Some m \<and> \<not> tm_Delivered m \<and>
      AckMessage i b = (Inr (), store_message (m\<lparr>tm_Delivered := True\<rparr>) (MessageDeliver (m\<lparr>tm_Delivered := True\<rparr>)) b))"
  by (cases "map_of (bd_messages b) i") (auto simp: AckMessage_def Let_def)

section \<open>Order of delivery\<close>

text \<open>What may be reported next: a message is sent once, and delivered once after it was sent.\<close>

definition mail_order :: "team_emit list \<Rightarrow> team_emit \<Rightarrow> bool" where
  "mail_order pre e =
     (case e of
        MessageSend m \<Rightarrow> \<not> tm_Delivered m \<and> (\<forall>m'. MessageSend m' \<in> set pre \<longrightarrow> tm_ID m' \<noteq> tm_ID m)
      | MessageDeliver m \<Rightarrow> (\<exists>m'. MessageSend m' \<in> set pre \<and> m = m'\<lparr>tm_Delivered := True\<rparr>) \<and>
          (\<forall>m'. MessageDeliver m' \<in> set pre \<longrightarrow> tm_ID m' \<noteq> tm_ID m)
      | _ \<Rightarrow> True)"

definition mail_trace :: "Board \<Rightarrow> bool" where
  "mail_trace b \<longleftrightarrow> each_after mail_order (bd_emitted b) \<and>
     (\<forall>i m. map_of (bd_messages b) i = Some m \<longrightarrow> tm_ID m = i \<and> (\<exists>m'. MessageSend m' \<in> set (bd_emitted b) \<and> m = m'\<lparr>tm_Delivered := tm_Delivered m\<rparr>)) \<and>
     (\<forall>m. MessageSend m \<in> set (bd_emitted b) \<longrightarrow> map_of (bd_messages b) (tm_ID m) \<noteq> None) \<and>
     (\<forall>m. MessageDeliver m \<in> set (bd_emitted b) \<longrightarrow> (\<exists>x. map_of (bd_messages b) (tm_ID m) = Some x \<and> tm_Delivered x))"

lemma mail_trace_send:
  assumes t: "mail_trace b" and f: "map_of (bd_messages b) (tm_ID m) = None" and d: "\<not> tm_Delivered m"
  shows "mail_trace (store_message m (MessageSend m) (b\<lparr>bd_msgNext := n\<rparr>))"
proof -
  have "m = m\<lparr>tm_Delivered := tm_Delivered m\<rparr>" by simp
  then show ?thesis using t f d unfolding mail_trace_def
    by (auto simp: mail_order_def split: if_splits) (metis option.distinct(1))+
qed

lemma mail_trace_deliver:
  assumes t: "mail_trace b" and m: "map_of (bd_messages b) i = Some m" and d: "\<not> tm_Delivered m"
  shows "mail_trace (store_message (m\<lparr>tm_Delivered := True\<rparr>) (MessageDeliver (m\<lparr>tm_Delivered := True\<rparr>)) b)"
proof -
  let ?m = "m\<lparr>tm_Delivered := True\<rparr>"
  obtain m' where id: "tm_ID m = i" and m': "MessageSend m' \<in> set (bd_emitted b)" "m = m'\<lparr>tm_Delivered := tm_Delivered m\<rparr>"
    using t m unfolding mail_trace_def by blast
  have sent: "?m = m'\<lparr>tm_Delivered := True\<rparr>" using m'(2) by (metis TeamMessage.fold_congs(9) TeamMessage.surjective TeamMessage.update_convs(9))
  have id': "tm_ID m' = i" using arg_cong [OF sent, of tm_ID] id by simp
  have new: "tm_ID x \<noteq> i" if "MessageDeliver x \<in> set (bd_emitted b)" for x using t that m d by (auto simp: mail_trace_def)
  have "mail_order (bd_emitted b) (MessageDeliver ?m)"
    unfolding mail_order_def team_emit.case using m'(1) sent new id id' by (intro conjI allI impI exI [of _ m']) auto
  then show ?thesis
    unfolding mail_trace_def
  proof (intro conjI allI impI, goal_cases)
    case 1
    then show ?case using t by (simp add: mail_trace_def)
  next
    case (2 j x)
    then show ?case using t id by (auto simp: mail_trace_def split: if_splits)
  next
    case (3 j x)
    then show ?case using t id m'(1) sent by (auto simp: mail_trace_def split: if_splits)
  next
    case (4 x)
    then show ?case using t by (auto simp: mail_trace_def)
  next
    case (5 x)
    then show ?case using t id by (auto simp: mail_trace_def)
  qed
qed

lemma mail_trace_task: "mail_trace b \<Longrightarrow> mail_trace (put_task t (TaskCreate t) (b\<lparr>bd_next := n\<rparr>))"
  "mail_trace b \<Longrightarrow> mail_trace (put_task t (TaskUpdate t) b)"
  by (simp_all add: mail_trace_def mail_order_def)

section \<open>Runs of the board\<close>

datatype board_call =
    TaskCall task_call
  | SendCall "(string \<Rightarrow> reservation) option" go_time string string string "ContentBlock list" string
  | AckCall string

primrec board_exec :: "board_call \<Rightarrow> Board \<Rightarrow> Board" where
  "board_exec (TaskCall c) b = task_exec c b"
| "board_exec (SendCall ask now s name target blocks delivery) b = snd (SendMessageWithContent ask now s name target blocks delivery b)"
| "board_exec (AckCall i) b = snd (AckMessage i b)"

definition board_run :: "board_call list \<Rightarrow> Board \<Rightarrow> Board" where
  "board_run cs b = fold board_exec cs b"

primrec call_ok :: "board_call \<Rightarrow> bool" where
  "call_ok (TaskCall c) = clock_ok c"
| "call_ok (SendCall ask now s name target blocks delivery) = True"
| "call_ok (AckCall i) = True"

definition same_team :: "Board \<Rightarrow> Board \<Rightarrow> bool" where
  "same_team b c \<longleftrightarrow> bd_teamID c = bd_teamID b \<and> bd_roster c = bd_roster b \<and> bd_memberRows c = bd_memberRows b"

lemma task_exec_frame:
  assumes ok: "board_ok b" and c: "clock_ok c"
  shows "\<exists>n t. bd_messages (task_exec c b) = bd_messages b \<and> bd_msgNext (task_exec c b) = bd_msgNext b \<and>
    bd_maxBytes (task_exec c b) = bd_maxBytes b \<and> bd_maxPending (task_exec c b) = bd_maxPending b \<and> same_team b (task_exec c b) \<and>
    (task_exec c b = b\<lparr>bd_next := n\<rparr> \<or> task_exec c b = put_task t (TaskCreate t) (b\<lparr>bd_next := n\<rparr>) \<or> task_exec c b = put_task t (TaskUpdate t) b)"
proof (cases c)
  case (CallCreate ask s d i js ss)
  from CreateTask_stores [OF ok, of ask s d i js ss] show ?thesis
  proof (elim disjE exE conjE)
    fix x n assume "CreateTask ask s d i js ss b = (Inl x, b\<lparr>bd_next := n\<rparr>)"
    then show ?thesis using CallCreate by (intro exI [of _ n]) (simp add: same_team_def)
  next
    fix n t assume "snd (CreateTask ask s d i js ss b) = put_task t (TaskCreate t) (b\<lparr>bd_next := n\<rparr>)"
    then show ?thesis using CallCreate by (intro exI [of _ n] exI [of _ t]) (simp add: same_team_def)
  qed
next
  case (CallUpdate now u)
  then have "now \<noteq> 0" using c by simp
  from UpdateTask_stores [OF ok this, of u] show ?thesis
  proof (elim disjE exE conjE)
    fix x assume "UpdateTask now u b = (Inl x, b)"
    then show ?thesis using CallUpdate by (intro exI [of _ "bd_next b"]) (simp add: same_team_def)
  next
    fix t assume "UpdateTask now u b = (Inr (viewLocked (AList.update (tk_ID t) t (bd_tasks b)) t), put_task t (TaskUpdate t) b)"
    then show ?thesis using CallUpdate by (intro exI [of _ "bd_next b"] exI [of _ t]) (simp add: same_team_def)
  qed
qed

lemma board_exec_ok:
  assumes ok: "board_ok b" "mail_ok b" "mail_trace b" and c: "call_ok c"
  shows "board_ok (board_exec c b) \<and> mail_ok (board_exec c b) \<and> mail_trace (board_exec c b) \<and> same_team b (board_exec c b)"
proof (cases c)
  case (TaskCall d)
  then have d: "clock_ok d" using c by simp
  from task_exec_frame [OF ok(1) d] obtain n t where f: "bd_messages (task_exec d b) = bd_messages b" "bd_msgNext (task_exec d b) = bd_msgNext b"
    "bd_maxBytes (task_exec d b) = bd_maxBytes b" "bd_maxPending (task_exec d b) = bd_maxPending b" "same_team b (task_exec d b)"
    "task_exec d b = b\<lparr>bd_next := n\<rparr> \<or> task_exec d b = put_task t (TaskCreate t) (b\<lparr>bd_next := n\<rparr>) \<or> task_exec d b = put_task t (TaskUpdate t) b"
    by blast
  have "board_ok (task_exec d b)" using board_ok_run [OF ok(1), of "[d]"] d by (simp add: task_run_def)
  moreover have "mail_ok (task_exec d b)" using ok(2) f(1-4) by (simp add: mail_ok_def)
  moreover have "mail_trace (task_exec d b)"
    using f(6) mail_trace_task [OF ok(3)] ok(3) by (elim disjE) (simp_all add: mail_trace_def)
  ultimately show ?thesis using TaskCall f(5) by simp
next
  case (SendCall ask now s name target blocks delivery)
  from SendMessage_cases [of ask now s name target blocks delivery b] show ?thesis
  proof (elim disjE exE conjE)
    fix x n assume r: "SendMessageWithContent ask now s name target blocks delivery b = (Inl x, b\<lparr>bd_msgNext := n\<rparr>)" "bd_msgNext b \<le> n"
    have "mail_ok (b\<lparr>bd_msgNext := n\<rparr>)" using ok(2) r(2) message_ok_grow by (fastforce simp: mail_ok_def mailbox_ok_def)
    then show ?thesis using r(1) ok SendCall by (simp add: board_ok_def mail_trace_def same_team_def)
  next
    fix n m assume m: "sendable b n m"
      and r: "SendMessageWithContent ask now s name target blocks delivery b = (Inr m, store_message m (MessageSend m) (b\<lparr>bd_msgNext := n\<rparr>))"
    have "mail_trace (store_message m (MessageSend m) (b\<lparr>bd_msgNext := n\<rparr>))"
      using mail_trace_send [OF ok(3) sendable_fresh [OF ok(2) m]] m by (simp add: sendable_def)
    then show ?thesis using r mail_ok_send [OF ok(2) m] ok(1) SendCall by (simp add: board_ok_def same_team_def)
  qed
next
  case (AckCall i)
  from AckMessage_cases [of i b] show ?thesis
  proof (elim disjE exE conjE)
    fix x assume "AckMessage i b = (x, b)"
    then show ?thesis using ok AckCall by (simp add: same_team_def)
  next
    fix m assume m: "map_of (bd_messages b) i = Some m" "\<not> tm_Delivered m"
      and r: "AckMessage i b = (Inr (), store_message (m\<lparr>tm_Delivered := True\<rparr>) (MessageDeliver (m\<lparr>tm_Delivered := True\<rparr>)) b)"
    then show ?thesis using mail_ok_ack [OF ok(2) m(1)] mail_trace_deliver [OF ok(3) m] ok(1) AckCall
      by (simp add: board_ok_def same_team_def)
  qed
qed

lemma board_run_ok:
  "board_ok b \<Longrightarrow> mail_ok b \<Longrightarrow> mail_trace b \<Longrightarrow> list_all call_ok cs \<Longrightarrow>
    board_ok (board_run cs b) \<and> mail_ok (board_run cs b) \<and> mail_trace (board_run cs b) \<and> same_team b (board_run cs b)"
  unfolding board_run_def
proof (induction cs arbitrary: b)
  case (Cons c cs)
  have "board_ok (board_exec c b) \<and> mail_ok (board_exec c b) \<and> mail_trace (board_exec c b) \<and> same_team b (board_exec c b)"
    using board_exec_ok [OF Cons.prems(1-3)] Cons.prems(4) by simp
  then show ?case using Cons.IH [of "board_exec c b"] Cons.prems(4) by (simp add: same_team_def)
qed (simp add: same_team_def)

lemma fresh_mail: "mail_ok (fresh_board i n r)" "mail_trace (fresh_board i n r)"
  by (simp_all add: mail_ok_def mailbox_ok_def mail_trace_def fresh_board_def pending_for_def)

lemma sample_calls_clock: "list_all clock_ok sample_calls"
  by (simp add: sample_calls_def Let_def)


definition sample_mail :: "board_call list" where
  "sample_mail = [SendCall None 3 ''L'' ''lead'' ''A'' [Text ''hi''] ''quiet'', AckCall ''msg-1'', AckCall ''msg-1'']"


section \<open>Restoring what was reached\<close>

text \<open>
  C36: a board survives its snapshot: after any run of creates, updates, sends and acknowledgements, if no
  deleted task depends on a deleted task, restoring the snapshot the board takes of itself succeeds and
  gives back every task, every message, both counters and every member; only the agents bound to the
  roster are gone.
\<close>

theorem board_snapshot_roundtrip:
  assumes "list_all call_ok cs" and "0 \<le> n" and "trim_space i \<noteq> []" and "members_ok (fresh_board i n r)"
    and "b = board_run cs (fresh_board i n r)" and "deleted_ok (bd_tasks b)"
    and "int (bd_next b) \<le> max_int64" and "int (bd_msgNext b) \<le> max_uint64"
  shows "\<exists>c. BoardRestore (BoardSnapshot b) b = (Inr (), c) \<and> same_board b c"
proof -
  have ok: "board_ok b \<and> mail_ok b \<and> mail_trace b \<and> same_team (fresh_board i n r) b"
    using board_run_ok [OF board_ok_fresh [OF assms(2)] fresh_mail assms(1)] assms(5) by blast
  then have "bd_teamID b = i" "members_ok b" using assms(4)
    by (cases r; simp add: same_team_def members_ok_def fresh_board_def)+
  then have "restorable b" using ok assms(3,6-8) by (simp add: restorable_def mail_ok_def)
  then show ?thesis by (rule restores) (simp add: same_config_def)
qed

definition sample_run :: Board where
  "sample_run = board_run (sample_mail @ map TaskCall sample_calls) (fresh_board ''t'' 2 None)"

lemma board_snapshot_roundtrip_witness: "\<exists>c. BoardRestore (BoardSnapshot sample_run) sample_run = (Inr (), c) \<and> same_board sample_run c"
proof (rule board_snapshot_roundtrip [OF _ _ _ _ sample_run_def])
  have "list_all (\<lambda>(i, t). tk_Status t \<noteq> TaskDeleted) (bd_tasks sample_run)" by code_simp
  then show "deleted_ok (bd_tasks sample_run)" by (auto simp: deleted_ok_def list_all_iff dest: map_of_SomeD)
  have "bd_next sample_run = 2" "bd_msgNext sample_run = 1" by code_simp+
  then show "int (bd_next sample_run) \<le> max_int64" "int (bd_msgNext sample_run) \<le> max_uint64"
    by (simp_all add: max_int64_def max_uint64_def)
  show "list_all call_ok (sample_mail @ map TaskCall sample_calls)"
    using sample_calls_clock by (simp add: sample_mail_def list.pred_map comp_def)
qed (simp_all add: trim_space_def is_space_def members_ok_def fresh_board_def keyed_def)

end
