(* ===== verification/Team_Tools.thy ===== *)
theory Team_Tools
  imports Team_Mailbox
begin

text \<open>
  The tools through which an agent reaches its team, \<^verbatim>\<open>internal/team/tools.go\<close>: who may do what,
  the journal written after the board changed, and the snapshot put back when the journal refuses. The
  sinks and the dispatcher act on an environment of any type; the session and the member of the caller,
  the board resolved for them and the decoded arguments are given.
\<close>

record 'e Tools =
  tl_reserve :: "(string \<Rightarrow> reservation) option"
  tl_status :: "string \<Rightarrow> AgentStatus"
  tl_event :: "(string \<Rightarrow> team_event \<Rightarrow> 'e \<Rightarrow> string option \<times> 'e) option"
  tl_snapshot :: "(string \<Rightarrow> TeamSnapshot \<Rightarrow> 'e \<Rightarrow> string option \<times> 'e) option"
  tl_dispatch :: "(TeamMessage \<Rightarrow> 'e \<Rightarrow> (string + bool) \<times> 'e) option"

type_synonym ('e, 'a) tool_run = "Board \<times> 'e \<Rightarrow> (team_error + 'a) \<times> Board \<times> 'e"

definition saveEvent :: "'e Tools \<Rightarrow> string \<Rightarrow> team_event \<Rightarrow> 'e \<Rightarrow> string option \<times> 'e" where
  "saveEvent t session ev e = (case tl_event t of None \<Rightarrow> (None, e) | Some f \<Rightarrow> f session ev e)"

definition saveSnapshot :: "'e Tools \<Rightarrow> string \<Rightarrow> Board \<Rightarrow> 'e \<Rightarrow> string option \<times> 'e" where
  "saveSnapshot t session b e =
     (case tl_snapshot t of
        None \<Rightarrow> (None, e)
      | Some f \<Rightarrow> if tl_event t \<noteq> None then (None, e) else f session (BoardSnapshot b) e)"

definition team_authorize :: "Board \<Rightarrow> string \<Rightarrow> string \<Rightarrow> team_error option" where
  "team_authorize b actor target = (case bd_roster b of None \<Rightarrow> None | Some r \<Rightarrow> Authorize r actor target)"

text \<open>\<^verbatim>\<open>_ = b.Restore(before)\<close>: whether it restored anything is not looked at.\<close>

definition rollback :: "TeamSnapshot \<Rightarrow> Board \<Rightarrow> Board" where
  "rollback before b = snd (BoardRestore before b)"

text \<open>The journal entry of a change and, without a journal, the snapshot; either failing undoes the change.\<close>

definition tool_commit :: "'e Tools \<Rightarrow> string \<Rightarrow> TeamSnapshot \<Rightarrow> team_event \<Rightarrow> 'a \<Rightarrow> ('e, 'a) tool_run" where
  "tool_commit t session before ev v = (\<lambda>(b, e).
     case saveEvent t session ev e of
       (Some x, e) \<Rightarrow> (Inl (ErrSink x), rollback before b, e)
     | (None, e) \<Rightarrow>
         (case saveSnapshot t session b e of
            (Some x, e) \<Rightarrow> (Inl (ErrSink x), rollback before b, e)
          | (None, e) \<Rightarrow> (Inr v, b, e)))"

definition member_missing :: "string \<Rightarrow> string \<Rightarrow> bool" where
  "member_missing session member \<longleftrightarrow> trim_space session = [] \<or> trim_space member = []"

definition TaskCreateTool ::
    "'e Tools \<Rightarrow> string \<Rightarrow> string \<Rightarrow> string \<Rightarrow> string \<Rightarrow> string list \<Rightarrow> string list \<Rightarrow> ('e, TaskView) tool_run" where
  "TaskCreateTool t session member subject description blockedBy scopes = (\<lambda>(b, e).
     if member_missing session member then (Inl ErrUnauthorized, b, e)
     else case team_authorize b member [] of
       Some x \<Rightarrow> (Inl x, b, e)
     | None \<Rightarrow>
         (case CreateTask (tl_reserve t) subject description [] blockedBy scopes b of
            (Inl x, b1) \<Rightarrow> (Inl x, b1, e)
          | (Inr view, b1) \<Rightarrow> tool_commit t session (BoardSnapshot b) (task_event (bd_teamID b1) (tv_Task view)) view (b1, e)))"

definition update_refused :: "Board \<Rightarrow> string \<Rightarrow> Update \<Rightarrow> Task \<Rightarrow> team_error option" where
  "update_refused b member u current =
     (let isLead = (case bd_roster b of None \<Rightarrow> False | Some r \<Rightarrow> IsLead r member)
      in if tk_OwnerID current \<noteq> [] \<and> tk_OwnerID current \<noteq> member \<and> \<not> isLead then Some ErrUnauthorized
         else if up_Action u = ''reassign'' \<and> \<not> isLead then Some ErrUnauthorized
         else if up_Action u = ''reassign'' \<and> trim_space (up_OwnerID u) \<noteq> [] then
           (case bd_roster b of None \<Rightarrow> Some ErrUnauthorized | Some r \<Rightarrow> Authorize r (trim_space (up_OwnerID u)) [])
         else None)"

text \<open>The arguments of the tool are those of \<^typ>\<open>Update\<close>; its owner counts for a reassignment only.\<close>

definition TaskUpdateTool :: "'e Tools \<Rightarrow> go_time \<Rightarrow> string \<Rightarrow> string \<Rightarrow> Update \<Rightarrow> ('e, TaskView) tool_run" where
  "TaskUpdateTool t now session member u = (\<lambda>(b, e).
     if member_missing session member then (Inl ErrUnauthorized, b, e)
     else case team_authorize b member [] of
       Some x \<Rightarrow> (Inl x, b, e)
     | None \<Rightarrow>
         (case GetTask (up_ID u) b of
            Inl x \<Rightarrow> (Inl x, b, e)
          | Inr current \<Rightarrow>
              (case update_refused b member u (tv_Task current) of
                 Some x \<Rightarrow> (Inl x, b, e)
               | None \<Rightarrow>
                   (case UpdateTask now (u\<lparr>up_OwnerID := (if up_Action u = ''reassign'' then up_OwnerID u else member), up_ActorID := member\<rparr>) b of
                      (Inl x, b1) \<Rightarrow> (Inl x, b1, e)
                    | (Inr view, b1) \<Rightarrow> tool_commit t session (BoardSnapshot b) (task_event (bd_teamID b1) (tv_Task view)) view (b1, e)))))"

definition TaskListTool :: "string \<Rightarrow> string \<Rightarrow> Board \<Rightarrow> team_error + TaskView list" where
  "TaskListTool session member b =
     (if member_missing session member then Inl ErrUnauthorized
      else case team_authorize b member [] of Some x \<Rightarrow> Inl x | None \<Rightarrow> Inr (ListTasks b))"

definition TaskGetTool :: "string \<Rightarrow> string \<Rightarrow> string \<Rightarrow> Board \<Rightarrow> team_error + TaskView" where
  "TaskGetTool session member i b =
     (if member_missing session member then Inl ErrUnauthorized
      else case team_authorize b member [] of Some x \<Rightarrow> Inl x | None \<Rightarrow> GetTask i b)"

definition message_target :: "'e Tools \<Rightarrow> Board \<Rightarrow> string \<Rightarrow> team_error + string" where
  "message_target t b target0 =
     (let target = trim_space target0
      in case bd_roster b of
           None \<Rightarrow> Inr target
         | Some r \<Rightarrow> (case ResolveTarget (tl_status t) r target of Inl x \<Rightarrow> Inl x | Inr view \<Rightarrow> Inr (ms_ID (mv_row view))))"

definition sender_name :: "'e Tools \<Rightarrow> Board \<Rightarrow> string \<Rightarrow> string" where
  "sender_name t b member =
     (case bd_roster b of
        None \<Rightarrow> member
      | Some r \<Rightarrow> (case Member (tl_status t) r member of Inl x \<Rightarrow> member | Inr view \<Rightarrow> ms_Name (mv_row view)))"

text \<open>
  After the queue event is durable a dispatcher may deliver at once: the delivery is journalled before
  the board takes it.
\<close>

definition dispatch_message :: "'e Tools \<Rightarrow> string \<Rightarrow> TeamMessage \<Rightarrow> ('e, TeamMessage) tool_run" where
  "dispatch_message t session m = (\<lambda>(b, e).
     case tl_dispatch t of
       None \<Rightarrow> (Inr m, b, e)
     | Some dispatch \<Rightarrow>
         (case dispatch m e of
            (Inl x, e) \<Rightarrow> (Inr m, b, e)
          | (Inr False, e) \<Rightarrow> (Inr m, b, e)
          | (Inr True, e) \<Rightarrow>
              (case saveEvent t session (MessageDeliveredEvent 1 (bd_teamID b) (tm_ID m) (tm_TargetID m)) e of
                 (Some x, e) \<Rightarrow> (Inl (ErrSink x), b, e)
               | (None, e) \<Rightarrow>
                   (case AckMessage (tm_ID m) b of
                      (Inl x, b) \<Rightarrow> (Inl x, b, e)
                    | (Inr u, b) \<Rightarrow>
                        (case saveSnapshot t session b e of
                           (Some x, e) \<Rightarrow> (Inl (ErrSink x), b, e)
                         | (None, e) \<Rightarrow> (Inr (m\<lparr>tm_Delivered := True\<rparr>), b, e))))))"

definition MessageTool ::
    "'e Tools \<Rightarrow> go_time \<Rightarrow> string \<Rightarrow> string \<Rightarrow> string \<Rightarrow> ContentBlock list \<Rightarrow> string \<Rightarrow> ('e, TeamMessage) tool_run" where
  "MessageTool t now session member target0 blocks delivery0 = (\<lambda>(b, e).
     let delivery = (if delivery0 = [] then ''wakeup'' else delivery0)
     in if member_missing session member then (Inl ErrUnauthorized, b, e)
        else case message_target t b target0 of
          Inl x \<Rightarrow> (Inl x, b, e)
        | Inr target \<Rightarrow>
            if target = member then (Inl ErrSelfMessage, b, e)
            else case team_authorize b member target of
              Some x \<Rightarrow> (Inl x, b, e)
            | None \<Rightarrow>
                (case SendMessageWithContent (tl_reserve t) now member (sender_name t b member) target blocks delivery b of
                   (Inl x, b1) \<Rightarrow> (Inl x, b1, e)
                 | (Inr m, b1) \<Rightarrow>
                     (case tool_commit t session (BoardSnapshot b) (queued_event (bd_teamID b1) m) m (b1, e) of
                        (Inl x, b2, e) \<Rightarrow> (Inl x, b2, e)
                      | (Inr m, b2, e) \<Rightarrow> dispatch_message t session m (b2, e))))"

end
