(* ===== verification/Team_Divergence.thy ===== *)
theory Team_Divergence
  imports Team_Delivery Team_Tools
begin

text \<open>
  The tools over the board: a refused journal entry undoes the change, and what that undoing costs. Then
  the places where the board and its journal part, each shown on a small run.
\<close>

section \<open>Undoing a change\<close>

lemma send_config: "same_config b (snd (SendMessageWithContent ask now s name target blocks delivery b))"
  using SendMessage_cases [of ask now s name target blocks delivery b] by (auto simp: same_config_def)

lemma create_config: "board_ok b \<Longrightarrow> same_config b (snd (CreateTask ask subject description owner blockedBy scopes b))"
  using CreateTask_stores [of b ask subject description owner blockedBy scopes] by (auto simp: same_config_def)

lemma update_config: "board_ok b \<Longrightarrow> now \<noteq> 0 \<Longrightarrow> same_config b (snd (UpdateTask now u b))"
  using UpdateTask_stores [of b now u] by (auto simp: same_config_def)

lemma rollback_restores:
  assumes "restorable b" and "same_config b d"
  shows "same_board b (rollback (BoardSnapshot b) d)"
  using restores [OF assms] by (auto simp: rollback_def)

lemma commit_refused:
  assumes "\<And>ev e. \<exists>x e'. saveEvent t session ev e = (Some x, e')"
  shows "\<exists>x e'. tool_commit t session before ev v (b, e) = (Inl (ErrSink x), rollback before b, e')"
proof -
  obtain x e' where "saveEvent t session ev e = (Some x, e')" using assms by blast
  then show ?thesis by (simp add: tool_commit_def)
qed

definition journal_down :: "'e Tools \<Rightarrow> bool" where
  "journal_down t \<longleftrightarrow> (\<forall>session ev e. \<exists>x e'. saveEvent t session ev e = (Some x, e'))"

lemma commit_down: "journal_down t \<Longrightarrow> \<exists>x e'. tool_commit t session before ev v (b, e) = (Inl (ErrSink x), rollback before b, e')"
  by (rule commit_refused) (auto simp: journal_down_def)

lemma update_tool_down:
  assumes ok: "restorable b" and down: "journal_down t" and now: "now \<noteq> 0"
  shows "\<exists>x b' e'. TaskUpdateTool t now session member u (b, e) = (Inl x, b', e') \<and> (b' = b \<or> same_board b b')"
proof (cases "member_missing session member \<or> team_authorize b member [] \<noteq> None")
  case True
  then show ?thesis by (cases "team_authorize b member []") (auto simp: TaskUpdateTool_def)
next
  case False
  then have in_team: "\<not> member_missing session member" "team_authorize b member [] = None" by auto
  show ?thesis
  proof (cases "GetTask (up_ID u) b")
    case (Inr current)
    show ?thesis
    proof (cases "update_refused b member u (tv_Task current)")
      case None
      let ?u = "u\<lparr>up_OwnerID := (if up_Action u = ''reassign'' then up_OwnerID u else member), up_ActorID := member\<rparr>"
      have b: "board_ok b" using ok by (simp add: restorable_def)
      obtain r b1 where r: "UpdateTask now ?u b = (r, b1)" by (cases "UpdateTask now ?u b")
      show ?thesis
      proof (cases r)
        case (Inl x)
        then have "b1 = b" using UpdateTask_stores [OF b now, of ?u] r by auto
        then show ?thesis using in_team Inr None r Inl by (simp add: TaskUpdateTool_def)
      next
        case (Inr view)
        have "same_config b b1" using update_config [OF b now, of ?u] r by simp
        then have "same_board b (rollback (BoardSnapshot b) b1)" using ok by (rule rollback_restores [rotated])
        moreover obtain x e' where "tool_commit t session (BoardSnapshot b) (task_event (bd_teamID b1) (tv_Task view)) view (b1, e) =
            (Inl (ErrSink x), rollback (BoardSnapshot b) b1, e')"
          using commit_down [OF down, of session "BoardSnapshot b" "task_event (bd_teamID b1) (tv_Task view)" view b1 e]
          by (elim exE) (rule that)
        ultimately show ?thesis using in_team \<open>GetTask (up_ID u) b = Inr current\<close> None r Inr by (simp add: TaskUpdateTool_def)
      qed
    qed (use in_team Inr in \<open>simp add: TaskUpdateTool_def\<close>)
  qed (use in_team in \<open>simp add: TaskUpdateTool_def\<close>)
qed

text \<open>
  Fact: a change the journal refuses is undone: when the event sink fails, an update through the tool
  reports an error and leaves every task, message, counter and member of a restorable board as it was.
\<close>

theorem refused_update_undone:
  assumes "restorable b" and "journal_down t" and "now \<noteq> 0"
  shows "\<exists>x b' e'. TaskUpdateTool t now session member u (b, e) = (Inl x, b', e') \<and>
    map_of (bd_tasks b') = map_of (bd_tasks b) \<and> map_of (bd_messages b') = map_of (bd_messages b) \<and>
    bd_next b' = bd_next b \<and> bd_msgNext b' = bd_msgNext b \<and>
    map_option (\<lambda>r. map_of (ro_members r)) (bd_roster b') = map_option (\<lambda>r. map_of (ro_members r)) (bd_roster b)"
proof -
  obtain x b' e' where "TaskUpdateTool t now session member u (b, e) = (Inl x, b', e')" "b' = b \<or> same_board b b'"
    using update_tool_down [OF assms] by blast
  then show ?thesis by (intro exI [of _ x] exI [of _ b'] exI [of _ e']) (auto simp: same_board_def split: option.splits)
qed

definition down_tools :: "unit Tools" where
  "down_tools = \<lparr>tl_reserve = None, tl_status = (\<lambda>i. StatusIdle), tl_event = Some (\<lambda>session ev e. (Some ''disk full'', e)),
     tl_snapshot = None, tl_dispatch = None\<rparr>"

lemma down_tools_down: "journal_down down_tools"
  by (simp add: journal_down_def saveEvent_def down_tools_def)

lemma sample_run_restorable: "restorable sample_run"
  unfolding restorable_def
proof (intro conjI)
  have "board_ok sample_run \<and> mail_ok sample_run \<and> mail_trace sample_run \<and> same_team (fresh_board ''t'' 2 None) sample_run"
    unfolding sample_run_def
    by (rule board_run_ok [OF board_ok_fresh fresh_mail])
      (use sample_calls_clock in \<open>simp_all add: sample_mail_def list.pred_map comp_def\<close>)
  then show "board_ok sample_run" "mailbox_ok (bd_msgNext sample_run) (bd_maxBytes sample_run) (bd_maxPending sample_run) (bd_messages sample_run)"
    "trim_space (bd_teamID sample_run) \<noteq> []" "members_ok sample_run"
    by (simp_all add: mail_ok_def same_team_def fresh_board_def members_ok_def keyed_def trim_space_def is_space_def)
  have "list_all (\<lambda>(i, t). tk_Status t \<noteq> TaskDeleted) (bd_tasks sample_run)" by code_simp
  then show "deleted_ok (bd_tasks sample_run)" by (auto simp: deleted_ok_def list_all_iff dest: map_of_SomeD)
  have "bd_next sample_run = 2" "bd_msgNext sample_run = 1" by code_simp+
  then show "int (bd_next sample_run) \<le> max_int64" "int (bd_msgNext sample_run) \<le> max_uint64"
    by (simp_all add: max_int64_def max_uint64_def)
qed

definition sample_complete :: Update where
  "sample_complete = \<lparr>up_ID = ''task-1'', up_Revision = 2, up_Action = ''complete'', up_OwnerID = [], up_ActorID = [], up_Subject = [],
     up_Description = [], up_BlockedBy = None, up_WriteScopes = None\<rparr>"

lemma refused_update_undone_witness:
  "\<exists>x b' e'. TaskUpdateTool down_tools 7 ''s'' ''ann'' sample_complete (sample_run, ()) = (Inl x, b', e') \<and>
     x = ErrSink ''disk full'' \<and> map_of (bd_tasks b') = map_of (bd_tasks sample_run)"
proof -
  have "fst (TaskUpdateTool down_tools 7 ''s'' ''ann'' sample_complete (sample_run, ())) = Inl (ErrSink ''disk full'')" by code_simp
  moreover obtain x b' e' where "TaskUpdateTool down_tools 7 ''s'' ''ann'' sample_complete (sample_run, ()) = (Inl x, b', e')"
      "map_of (bd_tasks b') = map_of (bd_tasks sample_run)"
    using refused_update_undone [OF sample_run_restorable down_tools_down, of 7 "''s''" "''ann''" sample_complete "()"] by auto
  ultimately show ?thesis by simp
qed

section \<open>Where board and journal part\<close>

text \<open>A board with a roster, an agent bound to one teammate, and one task.\<close>

definition staffed_board :: Board where
  "staffed_board = task_run [CallCreate None ''build'' [] [] [] []]
     (fresh_board ''t'' 4 (Some (roster_run (\<lambda>i. StatusIdle) sample_spawns sample_roster)))"

definition bound_agents :: "Board \<Rightarrow> string list" where
  "bound_agents b = (case bd_roster b of None \<Rightarrow> [] | Some r \<Rightarrow> ro_handles r)"

definition failed_create :: "Board \<Rightarrow> Board" where
  "failed_create b = fst (snd (TaskCreateTool down_tools ''s'' ''L'' ''more'' [] [] [] (b, ())))"

text \<open>
  Fact: a refused journal entry costs the team its agents: creating a task through the tool while the event
  sink fails takes the task back, but the roster restored with the board has no live agent left, though
  nothing was wrong with any of them.
\<close>

theorem refused_create_unbinds:
  "bound_agents staffed_board = [''t:ann''] \<and> bound_agents (failed_create staffed_board) = [] \<and>
   map fst (bd_tasks (failed_create staffed_board)) = [''task-1''] \<and> bd_next (failed_create staffed_board) = 1"
proof (intro conjI)
  show "bound_agents staffed_board = [''t:ann'']" by code_simp
  show "bound_agents (failed_create staffed_board) = []" by code_simp
  show "map fst (bd_tasks (failed_create staffed_board)) = [''task-1'']" by code_simp
  show "bd_next (failed_create staffed_board) = 1" by code_simp
qed

text \<open>A task and the task it depended on, deleted one after the other.\<close>

definition delete_call :: "string \<Rightarrow> task_call" where
  "delete_call i = CallUpdate 5 \<lparr>up_ID = i, up_Revision = 1, up_Action = ''delete'', up_OwnerID = [], up_ActorID = [], up_Subject = [],
     up_Description = [], up_BlockedBy = None, up_WriteScopes = None\<rparr>"

definition cleared_board :: Board where
  "cleared_board = task_run [CallCreate None ''build'' [] [] [] [], CallCreate None ''test'' [] [] [''task-1''] [],
     delete_call ''task-2'', delete_call ''task-1''] (fresh_board ''t'' 4 None)"

text \<open>
  Fact: deleting a task and then the task it depended on leaves a board that its own snapshot does not
  restore: the check on restore asks live blockers of deleted tasks too. From then on a refused journal
  entry is not undone: the tool reports an error and the task it created stays.
\<close>

theorem deleted_dependency_unrestorable:
  "fst (BoardRestore (BoardSnapshot cleared_board) cleared_board) = Inl ErrInvalidTask \<and>
   fst (TaskCreateTool down_tools ''s'' ''L'' ''more'' [] [] [] (cleared_board, ())) = Inl (ErrSink ''disk full'') \<and>
   map fst (bd_tasks (failed_create cleared_board)) = [''task-1'', ''task-2'', ''task-3'']"
proof (intro conjI)
  show "fst (BoardRestore (BoardSnapshot cleared_board) cleared_board) = Inl ErrInvalidTask" by code_simp
  show "fst (TaskCreateTool down_tools ''s'' ''L'' ''more'' [] [] [] (cleared_board, ())) = Inl (ErrSink ''disk full'')" by code_simp
  show "map fst (bd_tasks (failed_create cleared_board)) = [''task-1'', ''task-2'', ''task-3'']" by code_simp
qed

text \<open>The journal does not keep the time of a deletion, and a snapshot needs it.\<close>

definition replayed_delete :: "team_error + Board" where
  "replayed_delete = replay (task_emits ''t'' (bd_emitted (task_run [CallCreate None ''build'' [] [] [] [], delete_call ''task-1''] (fresh_board ''t'' 4 None))))
     (fresh_board ''t'' 4 None)"

text \<open>
  Fact: a board rebuilt from its journal after a deletion does not survive its own snapshot: the replay
  succeeds, but the deleted task comes back without the time of its deletion, which the restore refuses.
\<close>

theorem replayed_delete_unrestorable:
  "case replayed_delete of Inl x \<Rightarrow> False | Inr b \<Rightarrow> fst (BoardRestore (BoardSnapshot b) b) = Inl ErrInvalidTask"
  by code_simp

section \<open>Members\<close>

text \<open>
  Fact: the failure of an active member cannot be replayed: the row that marking the member as failed
  writes is one the roster takes as a member event, but the board, which folds the same event into its own
  rows, refuses it as an invalid transition and changes nothing, so the recovery that reads it fails.
\<close>

theorem failed_member_unreplayable:
  assumes "bd_roster b = Some r" and "roster_ok r" and "map_of (ro_members r) i = Some m" and "ms_Phase m = MemberActive"
    and "i \<noteq> ro_leadID r" and "map_of (bd_memberRows b) i = Some m" and "validateMemberSnapshot m = None"
  shows "\<exists>row. map_of (ro_members (snd (MarkFailed i cause r))) i = Some row \<and> ms_Phase row = MemberFailed \<and>
    fst (ApplyMemberEvent row r) = Inr () \<and>
    ApplyEvent (MemberEvent 1 (bd_teamID b) row) b = (Inl (ErrMemberTransition MemberActive MemberFailed), b)"
proof -
  let ?row = "case cause of None \<Rightarrow> m\<lparr>ms_Phase := MemberFailed\<rparr> | Some e \<Rightarrow> m\<lparr>ms_Phase := MemberFailed, ms_Error := e\<rparr>"
  have "row_ok i m" using assms(2,3) rows_okD(2) by (auto simp: roster_ok_def)
  then have id: "ms_ID ?row = i" "ms_Phase ?row = MemberFailed" "same_identity m ?row" "ms_ID ?row \<noteq> []" "ms_Name ?row \<noteq> []"
    "row_name_ok (ms_Name ?row)" "trim_space (ms_ID ?row) \<noteq> []" "trim_space (ms_Name ?row) \<noteq> []"
    using assms(7) by (cases cause; auto simp: row_ok_def same_identity_def validateMemberSnapshot_def split: if_splits)+
  have v: "validateMemberEventLocked r ?row = None" using id assms(3,4) by (simp add: validateMemberEventLocked_def)
  have "validateMemberSnapshot ?row = None" using id by (simp add: validateMemberSnapshot_def)
  then have w: "validateMemberRowLocked (bd_memberRows b) ?row = Some (ErrMemberTransition MemberActive MemberFailed)"
    using id assms(4,6) by (simp add: validateMemberRowLocked_def)
  have "map_of (ro_members (snd (MarkFailed i cause r))) i = Some ?row"
    using assms(3,5) id(1) by (cases cause) (simp_all add: MarkFailed_def Let_def)
  then show ?thesis using v w id(2) assms(1)
    by (intro exI [of _ ?row]) (simp add: ApplyMemberEvent_def apply_member_def)
qed

definition joined_board :: Board where
  "joined_board = (fresh_board ''t'' 4 (Some (roster_run (\<lambda>i. StatusIdle) sample_spawns sample_roster)))
     \<lparr>bd_memberRows := [(''t:ann'', (sample_row ''t:ann'' ''ann''))]\<rparr>"

lemma failed_member_unreplayable_witness:
  "\<exists>row. ms_Phase row = MemberFailed \<and>
     ApplyEvent (MemberEvent 1 ''t'' row) joined_board = (Inl (ErrMemberTransition MemberActive MemberFailed), joined_board)"
proof -
  let ?r = "roster_run (\<lambda>i. StatusIdle) sample_spawns sample_roster" and ?m = "sample_row ''t:ann'' ''ann''"
  have r: "roster_ok ?r" by (rule roster_ok_moves [OF run_moves [OF roster_ok_new [OF sample_roster_new]] roster_ok_new [OF sample_roster_new]])
  have m: "map_of (ro_members ?r) ''t:ann'' = Some ?m" "ro_leadID ?r = ''L''" "validateMemberSnapshot ?m = None" by code_simp+
  have "\<exists>row. map_of (ro_members (snd (MarkFailed ''t:ann'' None ?r))) ''t:ann'' = Some row \<and> ms_Phase row = MemberFailed \<and>
      fst (ApplyMemberEvent row ?r) = Inr () \<and>
      ApplyEvent (MemberEvent 1 (bd_teamID joined_board) row) joined_board = (Inl (ErrMemberTransition MemberActive MemberFailed), joined_board)"
    by (rule failed_member_unreplayable [OF _ r m(1)])
      (use m in \<open>simp_all add: joined_board_def fresh_board_def sample_row_def\<close>)
  then show ?thesis by (auto simp: joined_board_def fresh_board_def)
qed

section \<open>Messages at the limit\<close>

definition limited_board :: Board where
  "limited_board = (fresh_board ''t'' 4 None)\<lparr>bd_maxBytes := 118\<rparr>"

definition limit_send :: "(team_error + TeamMessage) \<times> Board" where
  "limit_send = SendMessage None 3 ''L'' ''lead'' ''A'' ''hi'' ''quiet'' limited_board"

text \<open>
  Fact: a message at the size limit breaks the recovery: the size is checked before the message has an
  identity and checked again with it on replay, so a message of exactly the limit is accepted and
  journalled, and its own queue event is then refused.
\<close>

theorem limit_message_unreplayable:
  "case fst limit_send of Inl x \<Rightarrow> False | Inr m \<Rightarrow> fst (ApplyEvent (queued_event ''t'' m) limited_board) = Inl ErrTeamLimit"
  by code_simp

section \<open>Reassigning\<close>

text \<open>
  Fact: a task in progress cannot be handed over: the lead's reassignment admits pending and in-progress
  tasks, but for a new owner it also asks that the task be ready, which only a pending task is, so on a
  task in progress it always fails as blocked and changes nothing.
\<close>

theorem reassign_in_progress_refused:
  assumes "map_of (bd_tasks b) (up_ID u) = Some t" and "tk_Status t = TaskInProgress" and "up_Revision u = tk_Revision t"
    and "up_Action u = ''reassign''" and "bd_roster b = Some r" and "IsLead r (up_ActorID u)" and "trim_space (up_OwnerID u) \<noteq> []"
  shows "UpdateTask now u b = (Inl (ErrTaskBlocked (tk_ID t)), b)"
  using assms by (simp add: UpdateTask_def task_action_def reassign_task_def task_ready_def)

lemma reassign_in_progress_refused_witness:
  "\<exists>b u. UpdateTask 9 u b = (Inl (ErrTaskBlocked ''task-1''), b) \<and> up_OwnerID u = ''t:ann''"
proof -
  let ?b = "sample_run\<lparr>bd_roster := Some sample_roster\<rparr>"
  let ?u = "sample_claim\<lparr>up_Revision := 2, up_Action := ''reassign'', up_OwnerID := ''t:ann'', up_ActorID := ''L''\<rparr>"
  obtain t where t: "map_of (bd_tasks ?b) (up_ID ?u) = Some t" "tk_Status t = TaskInProgress" "tk_Revision t = 2" "tk_ID t = ''task-1''"
  proof -
    have "map_option (\<lambda>t. (tk_Status t, tk_Revision t, tk_ID t)) (map_of (bd_tasks sample_run) ''task-1'') = Some (TaskInProgress, 2, ''task-1'')"
      by code_simp
    then show ?thesis using that by (auto simp: sample_claim_def)
  qed
  have "IsLead sample_roster ''L''" by code_simp
  then have "UpdateTask 9 ?u ?b = (Inl (ErrTaskBlocked (tk_ID t)), ?b)"
    by (intro reassign_in_progress_refused [OF t(1,2), where r = sample_roster])
      (use t in \<open>simp_all add: trim_space_def is_space_def\<close>)
  then show ?thesis using t(4) by (intro exI [of _ ?b] exI [of _ ?u]) simp
qed

end
