(* ===== verification/Go_Time.thy ===== *)
theory Go_Time
  imports Go_Prelude
begin

text \<open>
  The part of Go's package \<^verbatim>\<open>time\<close> the scheduler uses, in UTC. An instant is the number of
  nanoseconds since the zero time, January 1 of year 1; a duration is a 64-bit number of nanoseconds. The
  calendar follows the standard library: cycles of 400, 100, 4 and 1 years from year 1 on, so that the
  leap year is the last of its group.
\<close>

section \<open>Instants and durations\<close>

type_synonym instant = int

abbreviation (input) second :: int where "second \<equiv> 1000000000"
abbreviation (input) minute :: int where "minute \<equiv> 60000000000"
abbreviation (input) day_ns :: int where "day_ns \<equiv> 86400000000000"

definition max_duration :: int where
  "max_duration = 2 ^ 63 - 1"

text \<open>The difference of two instants saturates.\<close>

definition time_sub :: "instant \<Rightarrow> instant \<Rightarrow> int" where
  "time_sub t u = max (- (2 ^ 63)) (min max_duration (t - u))"

text \<open>The wrap of 64-bit arithmetic.\<close>

definition wrap64 :: "int \<Rightarrow> int" where
  "wrap64 n = (n + 2 ^ 63) mod 2 ^ 64 - 2 ^ 63"

lemma wrap64_id: "- (2 ^ 63) \<le> n \<Longrightarrow> n < 2 ^ 63 \<Longrightarrow> wrap64 n = n"
  by (simp add: wrap64_def)

text \<open>\<^verbatim>\<open>Truncate(time.Minute)\<close> rounds down to a multiple since the zero time, for instants not before it.\<close>

definition truncate_minute :: "instant \<Rightarrow> instant" where
  "truncate_minute t = t - (if t \<ge> 0 then t mod minute else - ((- t) mod minute))"

section \<open>The calendar\<close>

definition leap_year :: "int \<Rightarrow> bool" where
  "leap_year y \<longleftrightarrow> y mod 4 = 0 \<and> (y mod 100 \<noteq> 0 \<or> y mod 400 = 0)"

text \<open>The year and the day of the year of a day since the zero time.\<close>

definition year_day :: "int \<Rightarrow> int \<times> int" where
  "year_day d =
     (let n400 = d div 146097; d = d - 146097 * n400;
          n100 = d div 36524; n100 = n100 - n100 div 4; d = d - 36524 * n100;
          n4 = d div 1461; d = d - 1461 * n4;
          n1 = d div 365; n1 = n1 - n1 div 4; d = d - 365 * n1
      in (400 * n400 + 100 * n100 + 4 * n4 + n1 + 1, d))"

definition days_before :: "int list" where
  "days_before = [0, 31, 59, 90, 120, 151, 181, 212, 243, 273, 304, 334, 365]"

definition month_day :: "bool \<Rightarrow> int \<Rightarrow> nat \<times> nat" where
  "month_day leap yday =
     (if leap \<and> yday = 59 then (2, 29)
      else let day = (if leap \<and> yday > 59 then yday - 1 else yday);
               m = nat (day div 31)
           in if day \<ge> days_before ! (m + 1) then (m + 2, nat (day - days_before ! (m + 1)) + 1)
              else (m + 1, nat (day - days_before ! m) + 1))"

definition day_of :: "instant \<Rightarrow> int" where
  "day_of t = t div day_ns"

definition time_year :: "instant \<Rightarrow> int" where
  "time_year t = fst (year_day (day_of t))"

definition civil_day :: "int \<Rightarrow> nat \<times> nat" where
  "civil_day d = (case year_day d of (y, n) \<Rightarrow> month_day (leap_year y) n)"

definition time_month :: "instant \<Rightarrow> nat" where
  "time_month t = fst (civil_day (day_of t))"

definition time_day :: "instant \<Rightarrow> nat" where
  "time_day t = snd (civil_day (day_of t))"

text \<open>The zero time is a Monday; Sunday is 0.\<close>

definition time_weekday :: "instant \<Rightarrow> nat" where
  "time_weekday t = nat ((day_of t + 1) mod 7)"

definition time_hour :: "instant \<Rightarrow> nat" where
  "time_hour t = nat (t mod day_ns div 3600000000000)"

definition time_minute :: "instant \<Rightarrow> nat" where
  "time_minute t = nat (t mod 3600000000000 div minute)"

definition days_in :: "bool \<Rightarrow> nat \<Rightarrow> nat" where
  "days_in leap m = (if m = 2 then (if leap then 29 else 28) else if m \<in> {4, 6, 9, 11} then 30 else 31)"

section \<open>Dates back to days\<close>

definition year_start :: "int \<Rightarrow> int" where
  "year_start y = 365 * (y - 1) + (y - 1) div 4 - (y - 1) div 100 + (y - 1) div 400"

definition month_start :: "bool \<Rightarrow> nat \<Rightarrow> int" where
  "month_start leap m = days_before ! (m - 1) + (if leap \<and> m > 2 then 1 else 0)"

definition date_day :: "int \<Rightarrow> nat \<Rightarrow> nat \<Rightarrow> int" where
  "date_day y m d = year_start y + month_start (leap_year y) m + int d - 1"

lemma month_day_table:
  "list_all (\<lambda>leap. list_all (\<lambda>m. list_all (\<lambda>d. month_day leap (month_start leap m + int d - 1) = (m, d)) [1..<Suc (days_in leap m)]) [1..<13]) [True, False]"
  by code_simp

lemma month_day_start:
  assumes "1 \<le> m" "m \<le> 12" "1 \<le> d" "d \<le> days_in leap m"
  shows "month_day leap (month_start leap m + int d - 1) = (m, d)"
proof -
  have "leap \<in> set [True, False]" "m \<in> set [1..<13]" "d \<in> set [1..<Suc (days_in leap m)]" using assms by (cases leap; auto)+
  then show ?thesis using month_day_table unfolding list_all_iff by blast
qed

text \<open>A year counted from the zero time, in digits of the cycles.\<close>

lemma quotient_is: "0 \<le> r \<Longrightarrow> r < k \<Longrightarrow> (k * q + r) div k = (q :: int)"
  by (simp add: div_mult_self4)

lemma remainder_is: "0 \<le> r \<Longrightarrow> r < k \<Longrightarrow> (k * q + r) mod k = (r :: int)"
  by simp

lemma year_digits:
  fixes y :: int
  obtains a b c e where "y = 400 * a + 100 * b + 4 * c + e + 1" "0 \<le> b" "b \<le> 3" "0 \<le> c" "c \<le> 24" "0 \<le> e" "e \<le> 3"
proof
  define r where "r = (y - 1) mod 400"
  define s where "s = r mod 100"
  have r: "y - 1 = 400 * ((y - 1) div 400) + r" "0 \<le> r" "r < 400" unfolding r_def by simp_all
  have s: "r = 100 * (r div 100) + s" "0 \<le> s" "s < 100" unfolding s_def by simp_all
  have "s = 4 * (s div 4) + s mod 4" by simp
  then show "y = 400 * ((y - 1) div 400) + 100 * (r div 100) + 4 * (s div 4) + s mod 4 + 1" using r s by linarith
  show "0 \<le> r div 100" "r div 100 \<le> 3" using r by linarith+
  show "0 \<le> s div 4" "s div 4 \<le> 24" "0 \<le> s mod 4" using s by linarith+
  show "s mod 4 \<le> 3" by linarith
qed

lemma year_start_digits:
  assumes "0 \<le> b" "b \<le> 3" "0 \<le> c" "c \<le> 24" "0 \<le> e" "e \<le> (3 :: int)"
  shows "year_start (400 * a + 100 * b + 4 * c + e + 1) = 146097 * a + 36524 * b + 1461 * c + 365 * e"
    and "leap_year (400 * a + 100 * b + 4 * c + e + 1) \<longleftrightarrow> e = 3 \<and> (c \<noteq> 24 \<or> b = 3)"
proof -
  let ?y = "400 * a + 100 * b + 4 * c + e"
  have 1: "?y div 4 = 100 * a + 25 * b + c" using quotient_is [of e 4 "100 * a + 25 * b + c"] assms by (simp add: algebra_simps)
  have 2: "?y div 100 = 4 * a + b" using quotient_is [of "4 * c + e" 100 "4 * a + b"] assms by (simp add: algebra_simps)
  have 3: "?y div 400 = a" using quotient_is [of "100 * b + 4 * c + e" 400 a] assms by (simp add: algebra_simps)
  show "year_start (?y + 1) = 146097 * a + 36524 * b + 1461 * c + 365 * e"
    by (simp add: year_start_def 1 2 3)
  have m4: "(?y + 1) mod 4 = 0 \<longleftrightarrow> e = 3"
  proof (cases "e = 3")
    case True
    then show ?thesis using remainder_is [of 0 4 "100 * a + 25 * b + c + 1"] by (simp add: algebra_simps)
  next
    case False
    then show ?thesis using remainder_is [of "e + 1" 4 "100 * a + 25 * b + c"] assms by (simp add: algebra_simps)
  qed
  have m100: "(?y + 1) mod 100 = 0 \<longleftrightarrow> 4 * c + e = 99"
  proof (cases "4 * c + e = 99")
    case True
    have "(?y + 1) = 100 * (4 * a + b + 1)" using True by simp
    then have "(?y + 1) mod 100 = 0" by (metis mod_mult_self1_is_0)
    then show ?thesis using True by blast
  next
    case False
    then show ?thesis using remainder_is [of "4 * c + e + 1" 100 "4 * a + b"] assms by (simp add: algebra_simps)
  qed
  have m400: "(?y + 1) mod 400 = 0 \<longleftrightarrow> 100 * b + 4 * c + e = 399"
  proof (cases "100 * b + 4 * c + e = 399")
    case True
    have "(?y + 1) = 400 * (a + 1)" using True by simp
    then have "(?y + 1) mod 400 = 0" by (metis mod_mult_self1_is_0)
    then show ?thesis using True by blast
  next
    case False
    then show ?thesis using remainder_is [of "100 * b + 4 * c + e + 1" 400 a] assms by (simp add: algebra_simps)
  qed
  show "leap_year (?y + 1) \<longleftrightarrow> e = 3 \<and> (c \<noteq> 24 \<or> b = 3)"
    unfolding leap_year_def m4 m100 m400 using assms by arith
qed

lemma last_of_group:
  assumes "0 \<le> q" "q < 4" "0 \<le> r" "r \<le> k" "r = k \<Longrightarrow> q = 3" "(0 :: int) < k"
  shows "(k * q + r) div k - (k * q + r) div k div 4 = q"
proof (cases "r = k")
  case True
  then have "(k * q + r) div k = 4" using assms by simp
  then show ?thesis using True assms by simp
next
  case False
  then have "(k * q + r) div k = q" using assms by (intro quotient_is) auto
  then show ?thesis using assms by simp
qed

lemma year_day_start:
  assumes "0 \<le> n" "n < (if leap_year y then 366 else 365)"
  shows "year_day (year_start y + n) = (y, n)"
proof -
  obtain a b c e where y: "y = 400 * a + 100 * b + 4 * c + e + 1"
    and bounds: "0 \<le> b" "b \<le> 3" "0 \<le> c" "c \<le> 24" "0 \<le> e" "e \<le> 3" by (rule year_digits)
  note leap = year_start_digits(2) [OF bounds, of a, folded y]
  define q where "q = 365 * e + n"
  define r where "r = 1461 * c + q"
  have n: "n \<le> 365" "n = 365 \<Longrightarrow> e = 3 \<and> (c \<noteq> 24 \<or> b = 3)" using assms leap by (auto split: if_splits)
  have q: "0 \<le> q" "q \<le> 1460" using n bounds assms(1) unfolding q_def by (cases "n = 365"; simp)+
  have r: "0 \<le> r" "r \<le> 36524" "r = 36524 \<Longrightarrow> b = 3"
    using n bounds assms(1) q unfolding r_def q_def by (cases "n = 365"; auto)+
  have start: "year_start y + n = 146097 * a + (36524 * b + r)"
    using year_start_digits(1) [OF bounds, of a] by (simp add: y r_def q_def)
  have s1: "(146097 * a + (36524 * b + r)) div 146097 = a" using r bounds by (intro quotient_is) auto
  have s2: "(36524 * b + r) div 36524 - (36524 * b + r) div 36524 div 4 = b" using r bounds by (intro last_of_group) auto
  have s3: "(1461 * c + q) div 1461 = c" using q by (intro quotient_is) auto
  have s4: "(365 * e + n) div 365 - (365 * e + n) div 365 div 4 = e" using n bounds assms(1) by (intro last_of_group) auto
  show ?thesis unfolding start year_day_def Let_def s1 add_diff_cancel_left' s2
    unfolding r_def s3 add_diff_cancel_left' unfolding q_def s4 add_diff_cancel_left'
    using y by simp
qed

text \<open>Every day is a day of some year.\<close>

lemma year_of_day:
  obtains y n where "d = year_start y + n" "0 \<le> n" "n < (if leap_year y then 366 else 365)" "year_day d = (y, n)"
proof -
  define a where "a = d div 146097"
  define r0 where "r0 = d mod 146097"
  define b where "b = min 3 (r0 div 36524)"
  define r1 where "r1 = r0 - 36524 * b"
  define c where "c = r1 div 1461"
  define r2 where "r2 = r1 mod 1461"
  define e where "e = min 3 (r2 div 365)"
  define n where "n = r2 - 365 * e"
  have d: "d = 146097 * a + r0" "0 \<le> r0" "r0 < 146097" unfolding a_def r0_def by simp_all
  have b: "0 \<le> b" "b \<le> 3" "0 \<le> r1" "r1 \<le> 36524" "r1 = 36524 \<Longrightarrow> b = 3"
    using d unfolding b_def r1_def by linarith+
  have c: "r1 = 1461 * c + r2" "0 \<le> c" "c \<le> 24" "0 \<le> r2" "r2 < 1461" 
    unfolding c_def r2_def using b by - (simp, linarith, linarith, simp_all)
  have e: "0 \<le> e" "e \<le> 3" "0 \<le> n" "n \<le> 365" "n = 365 \<Longrightarrow> e = 3" using c unfolding e_def n_def by linarith+
  let ?y = "400 * a + 100 * b + 4 * c + e + 1"
  have full: "e = 3 \<and> (c \<noteq> 24 \<or> b = 3)" if "n = 365"
  proof -
    have "e = 3" using e(5) that by blast
    moreover have "b = 3" if "c = 24" using \<open>n = 365\<close> \<open>e = 3\<close> that c(1) b(5) unfolding n_def by linarith
    ultimately show ?thesis by blast
  qed
  have n: "n < (if leap_year ?y then 366 else 365)"
    unfolding year_start_digits(2) [OF b(1,2) c(2,3) e(1,2)] using full e(4) by (cases "n = 365") auto
  have "d = year_start ?y + n"
    unfolding year_start_digits(1) [OF b(1,2) c(2,3) e(1,2)] using d c unfolding n_def r1_def by linarith
  then show ?thesis using that n e year_day_start by metis
qed

lemma month_start_table:
  "list_all (\<lambda>leap. list_all (\<lambda>m. month_start leap m + int (days_in leap m) \<le> (if leap then 366 else 365)) [1..<13]) [True, False]"
  by code_simp

lemma month_start_bound: "1 \<le> m \<Longrightarrow> m \<le> 12 \<Longrightarrow> month_start leap m + int (days_in leap m) \<le> (if leap then 366 else 365)"
  using month_start_table by (cases leap) (auto simp: list_all_iff simp del: upt_Suc)

lemma month_start_nonneg: "1 \<le> m \<Longrightarrow> m \<le> 12 \<Longrightarrow> 0 \<le> month_start leap m"
proof -
  have "list_all (\<lambda>leap. list_all (\<lambda>m. 0 \<le> month_start leap m) [1..<13]) [True, False]" by code_simp
  then show "1 \<le> m \<Longrightarrow> m \<le> 12 \<Longrightarrow> 0 \<le> month_start leap m" by (cases leap) (auto simp: list_all_iff simp del: upt_Suc)
qed

lemma civil_date_day:
  assumes "1 \<le> m" "m \<le> 12" "1 \<le> d" "d \<le> days_in (leap_year y) m"
  shows "civil_day (date_day y m d) = (m, d)"
proof -
  define n where "n = month_start (leap_year y) m + int d - 1"
  have "0 \<le> n" "n < (if leap_year y then 366 else 365)"
    using month_start_bound [OF assms(1,2), of "leap_year y"] month_start_nonneg [OF assms(1,2), of "leap_year y"] assms(3,4)
    unfolding n_def by (auto split: if_splits)
  then have "year_day (year_start y + n) = (y, n)" by (rule year_day_start)
  moreover have "date_day y m d = year_start y + n" by (simp add: date_day_def n_def)
  ultimately show ?thesis using month_day_start [OF assms] by (simp add: civil_day_def n_def)
qed

text \<open>Midnight of a date, and a minute of a day.\<close>

lemma day_ns_parts:
  assumes "h < 24" "m < 60"
  shows "day_of (day_ns * d + 3600000000000 * int h + minute * int m) = d"
    "time_hour (day_ns * d + 3600000000000 * int h + minute * int m) = h"
    "time_minute (day_ns * d + 3600000000000 * int h + minute * int m) = m"
proof -
  have h: "0 \<le> 3600000000000 * int h + minute * int m" "3600000000000 * int h + minute * int m < day_ns" using assms by linarith+
  show "day_of (day_ns * d + 3600000000000 * int h + minute * int m) = d"
    unfolding day_of_def using quotient_is [OF h, of d] by (simp add: algebra_simps)
  have m: "0 \<le> minute * int m" "minute * int m < 3600000000000" using assms by linarith+
  have "(day_ns * d + (3600000000000 * int h + minute * int m)) mod day_ns = 3600000000000 * int h + minute * int m"
    by (rule remainder_is [OF h])
  then show "time_hour (day_ns * d + 3600000000000 * int h + minute * int m) = h"
    unfolding time_hour_def using quotient_is [OF m, of "int h"] by (simp add: algebra_simps)
  have "(3600000000000 * (24 * d + int h) + minute * int m) mod 3600000000000 = minute * int m" by (rule remainder_is [OF m])
  then show "time_minute (day_ns * d + 3600000000000 * int h + minute * int m) = m"
    unfolding time_minute_def by (simp add: algebra_simps)
qed

section \<open>Years in order\<close>

lemma div_pred: "(0 :: int) < k \<Longrightarrow> y div k - (y - 1) div k = (if y mod k = 0 then 1 else 0)"
proof -
  assume k: "0 < k"
  show ?thesis
  proof (cases "y mod k = 0")
    case True
    then obtain q where q: "y = k * q" by auto
    have y1: "y - 1 = k * (q - 1) + (k - 1)" using q by (simp add: algebra_simps)
    have "(y - 1) div k = q - 1" unfolding y1 using k by (intro quotient_is) auto
    moreover have "y div k = q" using q k by simp
    ultimately show ?thesis using True by simp
  next
    case False
    define r where "r = y mod k"
    have r: "0 < r" "r < k" "y = k * (y div k) + r"
      using k False pos_mod_bound [OF k, of y] pos_mod_sign [OF k, of y] unfolding r_def by (linarith, linarith, simp)
    have "(k * (y div k) + (r - 1)) div k = y div k" using r by (intro quotient_is) auto
    then have "(y - 1) div k = y div k" using r(3) by (metis add_diff_eq)
    then show ?thesis using False by simp
  qed
qed

lemma year_start_Suc: "year_start (y + 1) = year_start y + (if leap_year y then 366 else 365)"
proof -
  have "year_start (y + 1) - year_start y = 365 + (y div 4 - (y - 1) div 4) - (y div 100 - (y - 1) div 100) + (y div 400 - (y - 1) div 400)"
    by (simp add: year_start_def)
  also have "\<dots> = 365 + (if y mod 4 = 0 then 1 else 0) - (if y mod 100 = 0 then 1 else 0) + (if y mod 400 = 0 then 1 else 0)"
    by (simp only: div_pred [of 4] div_pred [of 100] div_pred [of 400] zero_less_numeral)
  also have "\<dots> = (if leap_year y then 366 else 365)"
  proof -
    have "4 dvd y" if "100 dvd y" using that by (rule dvd_trans [rotated]) simp
    moreover have "100 dvd y" if "400 dvd y" using that by (rule dvd_trans [rotated]) simp
    ultimately show ?thesis unfolding leap_year_def dvd_eq_mod_eq_0 by (cases "y mod 4 = 0"; cases "y mod 100 = 0"; cases "y mod 400 = 0"; simp)
  qed
  finally show ?thesis by simp
qed

lemma year_start_mono: "y \<le> z \<Longrightarrow> year_start y \<le> year_start z"
proof (induction "nat (z - y)" arbitrary: z)
  case (Suc n)
  then have "year_start y \<le> year_start (z - 1)" by auto
  then show ?case using year_start_Suc [of "z - 1"] by (auto split: if_splits)
qed auto

lemma day_in_year: "year_day d = (y, n) \<Longrightarrow> year_start y \<le> d \<and> d < year_start (y + 1) \<and> d = year_start y + n \<and> 0 \<le> n \<and> n < (if leap_year y then 366 else 365)"
  by (rule year_of_day [of d]) (auto simp: year_start_Suc)

lemma month_start_Suc_table:
  "list_all (\<lambda>leap. list_all (\<lambda>m. month_start leap (Suc m) = month_start leap m + int (days_in leap m)) [1..<12]) [True, False] \<and>
   list_all (\<lambda>leap. month_start leap 1 = 0 \<and> month_start leap 12 + int (days_in leap 12) = (if leap then 366 else 365)) [True, False]"
  by code_simp

lemma month_start_Suc: "1 \<le> m \<Longrightarrow> m < 12 \<Longrightarrow> month_start leap (Suc m) = month_start leap m + int (days_in leap m)"
  and month_start_ends: "month_start leap 1 = 0" "month_start leap 12 + int (days_in leap 12) = (if leap then 366 else 365)"
  using month_start_Suc_table by (cases leap; simp add: list_all_iff del: upt_Suc)+

lemma month_of_day: "1 \<le> j \<Longrightarrow> j \<le> 12 \<Longrightarrow> 0 \<le> n \<Longrightarrow> n < month_start leap j + int (days_in leap j) \<Longrightarrow>
  \<exists>m d. 1 \<le> m \<and> m \<le> 12 \<and> 1 \<le> d \<and> d \<le> days_in leap m \<and> month_start leap m + int d - 1 = n"
proof (induction j)
  case (Suc j)
  show ?case
  proof (cases "month_start leap (Suc j) \<le> n")
    case True
    then show ?thesis using Suc.prems by (intro exI [of _ "Suc j"] exI [of _ "nat (n - month_start leap (Suc j) + 1)"]) auto
  next
    case False
    have "1 \<le> j"
    proof (rule ccontr)
      assume "\<not> 1 \<le> j"
      then have "Suc j = 1" by simp
      then show False using False Suc.prems(3) month_start_ends(1) [of leap] by simp
    qed
    then show ?thesis using Suc False month_start_Suc [of j leap] by simp
  qed
qed simp

lemma month_day_valid:
  assumes "0 \<le> n" "n < (if leap then 366 else 365)" "month_day leap n = (m, d)"
  shows "1 \<le> m \<and> m \<le> 12 \<and> 1 \<le> d \<and> d \<le> days_in leap m \<and> month_start leap m + int d - 1 = n"
proof -
  have "n < month_start leap 12 + int (days_in leap 12)" using assms(2) month_start_ends(2) [of leap] by simp
  from month_of_day [OF _ _ assms(1) this] obtain m' d' where
    md: "1 \<le> m'" "m' \<le> 12" "1 \<le> d'" "d' \<le> days_in leap m'" "month_start leap m' + int d' - 1 = n" by auto
  then have "month_day leap n = (m', d')" using month_day_start by blast
  then show ?thesis using md assms(3) by simp
qed

lemma civil_day_valid:
  assumes "civil_day d = (m, k)"
  obtains y where "1 \<le> m" "m \<le> 12" "1 \<le> k" "k \<le> days_in (leap_year y) m" "d = date_day y m k"
    "year_start y \<le> d" "d < year_start (y + 1)"
proof -
  obtain y n where yn: "year_day d = (y, n)" by fastforce
  note b = day_in_year [OF yn]
  have md: "month_day (leap_year y) n = (m, k)" using assms yn by (simp add: civil_day_def)
  have n: "0 \<le> n" "n < (if leap_year y then 366 else 365)" using b by auto
  note v = month_day_valid [OF n md]
  then have "d = date_day y m k" using b unfolding date_day_def by linarith
  then show ?thesis using that v b by blast
qed

end
