(* ===== verification/Schedule_Cron.thy ===== *)
theory Schedule_Cron
  imports Go_Time "HOL-Library.Word"
begin

unbundle bit_operations_syntax

text \<open>
  Cron expressions, \<^verbatim>\<open>internal/schedule/cron.go\<close>: five fields parsed to bit sets, the check that an
  expression can occur, and the scan for the next minute. Texts of errors are left out; times are UTC.
\<close>

section \<open>Fields\<close>

type_synonym bitset = "64 word"

definition bit_has :: "bitset \<Rightarrow> int \<Rightarrow> bool" where
  "bit_has b i \<longleftrightarrow> 0 \<le> i \<and> i < 64 \<and> (drop_bit (nat i) b) AND 1 = 1"

text \<open>A shift by a converted negative number shifts everything out.\<close>

definition shl1 :: "int \<Rightarrow> bitset" where
  "shl1 v = (if 0 \<le> v \<and> v < 64 then push_bit (nat v) 1 else 0)"

datatype cron_error = CronEmptyValue | CronInvalidStep | CronInvalidRange | CronInvalidValue | CronOutOfRange | CronFieldCount | CronNever

record cronField =
  cf_min :: int
  cf_max :: int

text \<open>The loop variable is a 64-bit \<^verbatim>\<open>int\<close>.\<close>

partial_function (option) range_loop :: "int \<Rightarrow> int \<Rightarrow> int \<Rightarrow> bitset \<Rightarrow> bitset option" where
  [code]: "range_loop hi step v out = (if v \<le> hi then range_loop hi step (wrap64 (v + step)) (out OR shl1 v) else Some out)"

definition rangeSet :: "cronField \<Rightarrow> int \<Rightarrow> int \<Rightarrow> int \<Rightarrow> (cron_error + bitset) option" where
  "rangeSet f lo hi step =
     (if lo < cf_min f \<or> hi > cf_max f \<or> lo > hi then Some (Inl CronOutOfRange)
      else map_option Inr (range_loop hi step lo 0))"

text \<open>The text before and after the first separator.\<close>

definition cut_at :: "char \<Rightarrow> string \<Rightarrow> (string \<times> string) option" where
  "cut_at c s = (if c \<in> set s then Some (takeWhile (\<lambda>x. x \<noteq> c) s, tl (dropWhile (\<lambda>x. x \<noteq> c) s)) else None)"

definition parse_step :: "string \<Rightarrow> int option" where
  "parse_step s = (if s = [] then Some 1 else case atoi s of Some n \<Rightarrow> if n \<le> 0 then None else Some n | None \<Rightarrow> None)"

definition parseItem :: "cronField \<Rightarrow> string \<Rightarrow> (cron_error + bitset) option" where
  "parseItem f item =
     (let (base, stepStr) = (case cut_at CHR ''/'' item of None \<Rightarrow> (item, []) | Some p \<Rightarrow> p)
      in case parse_step stepStr of
           None \<Rightarrow> Some (Inl CronInvalidStep)
         | Some step \<Rightarrow>
             if base = ''*'' then rangeSet f (cf_min f) (cf_max f) step
             else (case cut_at CHR ''-'' base of
                Some (a, b) \<Rightarrow>
                  (case (atoi a, atoi b) of
                     (Some lo, Some hi) \<Rightarrow> rangeSet f lo hi step
                   | _ \<Rightarrow> Some (Inl CronInvalidRange))
              | None \<Rightarrow>
                  (case atoi base of
                     None \<Rightarrow> Some (Inl CronInvalidValue)
                   | Some n \<Rightarrow> rangeSet f n n step)))"

fun parse_parts :: "cronField \<Rightarrow> string list \<Rightarrow> bitset \<Rightarrow> (cron_error + bitset) option" where
  "parse_parts f [] out = Some (Inr out)"
| "parse_parts f (part # parts) out =
     (if part = [] then Some (Inl CronEmptyValue)
      else case parseItem f part of
        None \<Rightarrow> None
      | Some (Inl e) \<Rightarrow> Some (Inl e)
      | Some (Inr b) \<Rightarrow> parse_parts f parts (out OR b))"

definition cron_parse :: "cronField \<Rightarrow> string \<Rightarrow> (cron_error + bitset \<times> bool) option" where
  "cron_parse f s =
     (case parse_parts f (split_on CHR '','' s) 0 of
        None \<Rightarrow> None
      | Some (Inl e) \<Rightarrow> Some (Inl e)
      | Some (Inr b) \<Rightarrow> Some (Inr (b, s \<noteq> ''*'')))"

section \<open>Expressions\<close>

record cronExpr =
  cx_minute :: bitset
  cx_hour :: bitset
  cx_day :: bitset
  cx_month :: bitset
  cx_weekday :: bitset
  cx_dayRestricted :: bool
  cx_weekdayRestricted :: bool

definition cron_defs :: "cronField list" where
  "cron_defs = [\<lparr>cf_min = 0, cf_max = 59\<rparr>, \<lparr>cf_min = 0, cf_max = 23\<rparr>, \<lparr>cf_min = 1, cf_max = 31\<rparr>, \<lparr>cf_min = 1, cf_max = 12\<rparr>, \<lparr>cf_min = 0, cf_max = 6\<rparr>]"

definition days_checked :: "nat \<Rightarrow> nat" where
  "days_checked m = (if m \<in> {4, 6, 9, 11} then 30 else if m = 2 then 28 else 31)"

definition neverMatches :: "cronExpr \<Rightarrow> bool" where
  "neverMatches e =
     (if \<not> cx_dayRestricted e \<or> cx_weekdayRestricted e then False
      else if list_ex (\<lambda>m. bit_has (cx_month e) (int m) \<and> list_ex (\<lambda>d. bit_has (cx_day e) (int d)) [1..<Suc (days_checked m)]) [1..<13]
        then False
      else \<not> (bit_has (cx_month e) 2 \<and> bit_has (cx_day e) 29))"

fun parse_fields :: "(cronField \<times> string) list \<Rightarrow> (cron_error + (bitset \<times> bool) list) option" where
  "parse_fields [] = Some (Inr [])"
| "parse_fields ((f, s) # fs) =
     (case cron_parse f s of
        None \<Rightarrow> None
      | Some (Inl e) \<Rightarrow> Some (Inl e)
      | Some (Inr r) \<Rightarrow>
          (case parse_fields fs of
             None \<Rightarrow> None
           | Some (Inl e) \<Rightarrow> Some (Inl e)
           | Some (Inr rs) \<Rightarrow> Some (Inr (r # rs))))"

definition expr_of :: "(bitset \<times> bool) list \<Rightarrow> cronExpr" where
  "expr_of rs = \<lparr>cx_minute = fst (rs ! 0), cx_hour = fst (rs ! 1), cx_day = fst (rs ! 2), cx_month = fst (rs ! 3),
     cx_weekday = fst (rs ! 4), cx_dayRestricted = snd (rs ! 2), cx_weekdayRestricted = snd (rs ! 4)\<rparr>"

definition parseCronSpec :: "string \<Rightarrow> (cron_error + cronExpr) option" where
  "parseCronSpec spec =
     (let fs = Go_Prelude.fields spec
      in if length fs \<noteq> 5 then Some (Inl CronFieldCount)
         else case parse_fields (zip cron_defs fs) of
           None \<Rightarrow> None
         | Some (Inl e) \<Rightarrow> Some (Inl e)
         | Some (Inr rs) \<Rightarrow> if neverMatches (expr_of rs) then Some (Inl CronNever) else Some (Inr (expr_of rs)))"

definition cron_matches :: "cronExpr \<Rightarrow> instant \<Rightarrow> bool" where
  "cron_matches e t =
     (if \<not> bit_has (cx_month e) (int (time_month t)) then False
      else if \<not> bit_has (cx_minute e) (int (time_minute t)) then False
      else if \<not> bit_has (cx_hour e) (int (time_hour t)) then False
      else
        let domOK = bit_has (cx_day e) (int (time_day t)); dowOK = bit_has (cx_weekday e) (int (time_weekday t))
        in if cx_dayRestricted e \<and> cx_weekdayRestricted e then domOK \<or> dowOK
           else if cx_dayRestricted e then domOK
           else if cx_weekdayRestricted e then dowOK
           else True)"

text \<open>Minutes.\<close>

definition cronScanHorizon :: nat where
  "cronScanHorizon = 8 * 365 * 24 * 60"

fun cron_scan :: "nat \<Rightarrow> cronExpr \<Rightarrow> instant \<Rightarrow> instant option" where
  "cron_scan 0 e cur = None"
| "cron_scan (Suc n) e cur = (if cron_matches e cur then Some cur else cron_scan n e (cur + minute))"

definition cron_next :: "cronExpr \<Rightarrow> instant \<Rightarrow> instant option" where
  "cron_next e after = cron_scan cronScanHorizon e (truncate_minute after + minute)"

section \<open>Ranges\<close>

lemma bit_has_bit: "0 \<le> i \<Longrightarrow> i < 64 \<Longrightarrow> bit_has b i \<longleftrightarrow> bit b (nat i)"
  by (simp add: bit_has_def bit_iff_and_drop_bit_eq_1)

lemma bit_has_or: "bit_has (a OR b) i \<longleftrightarrow> bit_has a i \<or> bit_has b i"
  by (cases "0 \<le> i \<and> i < 64") (auto simp: bit_has_bit bit_or_iff, auto simp: bit_has_def)

lemma bit_has_zero [simp]: "\<not> bit_has 0 i"
  by (simp add: bit_has_def)

lemma bit_has_shl1: "bit_has (shl1 v) i \<longleftrightarrow> i = v \<and> 0 \<le> v \<and> v < 64"
  by (cases "0 \<le> i \<and> i < 64") (auto simp: shl1_def bit_has_bit bit_exp_iff, auto simp: bit_has_def)

lemma loop_stop: "hi < v \<Longrightarrow> range_loop hi step v out = Some out"
  by (subst range_loop.simps) simp

lemma loop_next: "v \<le> hi \<Longrightarrow> range_loop hi step v out = range_loop hi step (wrap64 (v + step)) (out OR shl1 v)"
  by (subst range_loop.simps) simp

text \<open>Without wrap-around: the arithmetic progression.\<close>

lemma range_loop_exact:
  assumes "0 < step" "step \<le> max_duration - hi" "0 \<le> v" "hi < 64"
  shows "\<exists>b. range_loop hi step v out = Some b \<and>
    (\<forall>i. bit_has b i \<longleftrightarrow> bit_has out i \<or> (\<exists>k::nat. i = v + int k * step \<and> i \<le> hi))"
  using assms
proof (induction "nat (hi + 1 - v)" arbitrary: v out rule: less_induct)
  case less
  show ?case
  proof (cases "v \<le> hi")
    case False
    have "\<not> v + int k * step \<le> hi" for k :: nat
    proof -
      have "0 \<le> int k * step" using less.prems(1) by simp
      then show ?thesis using False by linarith
    qed
    then show ?thesis using False by (auto simp: loop_stop)
  next
    case True
    have wrap: "wrap64 (v + step) = v + step"
      using less.prems True by (intro wrap64_id) (auto simp: max_duration_def)
    have "\<exists>b. range_loop hi step (v + step) (out OR shl1 v) = Some b \<and>
      (\<forall>i. bit_has b i \<longleftrightarrow> bit_has (out OR shl1 v) i \<or> (\<exists>k::nat. i = v + step + int k * step \<and> i \<le> hi))"
      using less.prems True by (intro less.hyps) auto
    then obtain b where b: "range_loop hi step (v + step) (out OR shl1 v) = Some b"
      "\<And>i. bit_has b i \<longleftrightarrow> bit_has (out OR shl1 v) i \<or> (\<exists>k::nat. i = v + step + int k * step \<and> i \<le> hi)" by blast
    have "bit_has b i \<longleftrightarrow> bit_has out i \<or> (\<exists>k::nat. i = v + int k * step \<and> i \<le> hi)" for i
    proof -
      have "(\<exists>k::nat. i = v + int k * step \<and> i \<le> hi) \<longleftrightarrow> i = v \<or> (\<exists>k::nat. i = v + step + int k * step \<and> i \<le> hi)"
      proof
        assume "\<exists>k::nat. i = v + int k * step \<and> i \<le> hi"
        then obtain k where k: "i = v + int k * step" "i \<le> hi" by blast
        show "i = v \<or> (\<exists>k::nat. i = v + step + int k * step \<and> i \<le> hi)"
        proof (cases k)
          case (Suc n)
          then have "i = v + step + int n * step" using k(1) by (simp add: algebra_simps)
          then show ?thesis using k(2) by blast
        qed (use k in simp)
      next
        assume "i = v \<or> (\<exists>k::nat. i = v + step + int k * step \<and> i \<le> hi)"
        then show "\<exists>k::nat. i = v + int k * step \<and> i \<le> hi"
        proof
          assume "\<exists>k::nat. i = v + step + int k * step \<and> i \<le> hi"
          then obtain k :: nat where "i = v + int (Suc k) * step" "i \<le> hi" by (auto simp: algebra_simps)
          then show ?thesis by blast
        qed (use True in \<open>auto intro: exI [of _ 0]\<close>)
      qed
      then show ?thesis unfolding b(2) using less.prems(3,4) True by (auto simp: bit_has_or bit_has_shl1)
    qed
    then show ?thesis using b(1) True wrap by (auto simp: loop_next)
  qed
qed

text \<open>With it, a step near the largest integer walks down from the end; the loop still ends.\<close>

definition loop_within :: "int \<Rightarrow> int \<Rightarrow> int \<Rightarrow> bitset \<Rightarrow> bool" where
  "loop_within hi step v out \<longleftrightarrow> (\<exists>b. range_loop hi step v out = Some b \<and> (\<forall>i. bit_has out i \<longrightarrow> bit_has b i) \<and>
     (v \<le> hi \<longrightarrow> 0 \<le> v \<longrightarrow> bit_has b v) \<and> (\<forall>i. bit_has b i \<longrightarrow> bit_has out i \<or> 0 \<le> i \<and> i \<le> hi))"

lemma loop_within_stop: "hi < v \<Longrightarrow> loop_within hi step v out"
  by (simp add: loop_within_def loop_stop)

lemma loop_within_next:
  assumes "v \<le> hi" "hi < 64" "loop_within hi step (wrap64 (v + step)) (out OR shl1 v)"
  shows "loop_within hi step v out"
proof -
  obtain b where b: "range_loop hi step (wrap64 (v + step)) (out OR shl1 v) = Some b" "\<And>i. bit_has (out OR shl1 v) i \<Longrightarrow> bit_has b i"
    "\<And>i. bit_has b i \<Longrightarrow> bit_has (out OR shl1 v) i \<or> 0 \<le> i \<and> i \<le> hi" using assms(3) unfolding loop_within_def by blast
  show ?thesis unfolding loop_within_def loop_next [OF assms(1)] b(1)
    using b(2,3) assms(1,2) by (auto simp: bit_has_or bit_has_shl1)
qed

lemma loop_within_exact:
  assumes "0 < step" "step \<le> max_duration - hi" "0 \<le> v" "hi < 64"
  shows "loop_within hi step v out"
proof -
  obtain b where b: "range_loop hi step v out = Some b"
    "\<And>i. bit_has b i \<longleftrightarrow> bit_has out i \<or> (\<exists>k::nat. i = v + int k * step \<and> i \<le> hi)" using range_loop_exact [OF assms] by blast
  have "0 \<le> v + int k * step" for k :: nat using assms by simp
  moreover have "\<exists>k::nat. v = v + int k * step" by (rule exI [of _ 0]) simp
  ultimately show ?thesis unfolding loop_within_def b(1) using b(2) by auto
qed

lemma loop_always_ends:
  assumes "0 < step" "step \<le> max_duration" "0 \<le> v" "hi < 64"
  shows "loop_within hi step v out"
  using assms
proof (induction "nat v" arbitrary: v out rule: less_induct)
  case less
  show ?case
  proof (cases "step \<le> max_duration - hi \<or> hi < v")
    case True
    then show ?thesis using less.prems loop_within_exact loop_within_stop by blast
  next
    case False
    then have big: "max_duration - hi < step" "v \<le> hi" by auto
    show ?thesis
    proof (cases "v + step \<le> max_duration")
      case True
      then have "wrap64 (v + step) = v + step" using less.prems by (intro wrap64_id) (auto simp: max_duration_def)
      moreover have "hi < v + step" using big less.prems by (simp add: max_duration_def)
      ultimately show ?thesis using loop_within_next [OF big(2) less.prems(4)] loop_within_stop by simp
    next
      case False
      have w1: "wrap64 (v + step) = v + step - 2 ^ 64"
      proof -
        have "(2 ^ 64 * 1 + (v + step - 2 ^ 63)) mod 2 ^ 64 = v + step - 2 ^ 63"
          using False less.prems big by (intro remainder_is) (simp_all add: max_duration_def)
        then show ?thesis by (simp add: wrap64_def algebra_simps)
      qed
      have neg: "v + step - 2 ^ 64 \<le> hi" using less.prems big by (simp add: max_duration_def)
      have w2: "wrap64 (v + step - 2 ^ 64 + step) = v + 2 * step - 2 ^ 64"
        using False less.prems big by (subst wrap64_id) (auto simp: max_duration_def)
      have down: "v + 2 * step - 2 ^ 64 < v" using less.prems by (simp add: max_duration_def)
      have rest: "loop_within hi step (v + 2 * step - 2 ^ 64) out'" for out'
      proof (cases "0 \<le> v + 2 * step - 2 ^ 64")
        case True
        then show ?thesis using less.hyps [of "v + 2 * step - 2 ^ 64"] less.prems down by auto
      next
        case False
        have w3: "wrap64 (v + 2 * step - 2 ^ 64 + step) = v + 3 * step - 2 ^ 64"
          using False less.prems big by (subst wrap64_id) (auto simp: max_duration_def)
        have "hi < v + 3 * step - 2 ^ 64" using big less.prems by (simp add: max_duration_def)
        then show ?thesis using loop_within_next [of "v + 2 * step - 2 ^ 64" hi step] loop_within_stop False less.prems w3 big by simp
      qed
      show ?thesis
        by (rule loop_within_next [OF big(2) less.prems(4)], unfold w1, rule loop_within_next [OF neg less.prems(4)], unfold w2, rule rest)
    qed
  qed
qed

section \<open>What a field parses to\<close>

definition field_ok :: "cronField \<Rightarrow> bitset \<Rightarrow> bool" where
  "field_ok f b \<longleftrightarrow> (\<exists>i. cf_min f \<le> i \<and> i \<le> cf_max f \<and> bit_has b i) \<and> (\<forall>i. bit_has b i \<longrightarrow> 0 \<le> i \<and> i \<le> cf_max f)"

definition cron_field :: "cronField \<Rightarrow> bool" where
  "cron_field f \<longleftrightarrow> 0 \<le> cf_min f \<and> cf_max f < 64"

lemma rangeSet_ends:
  assumes "cron_field f" "0 < step" "step \<le> max_duration"
  shows "\<exists>r. rangeSet f lo hi step = Some r \<and> (\<forall>b. r = Inr b \<longrightarrow> field_ok f b)"
proof (cases "lo < cf_min f \<or> hi > cf_max f \<or> lo > hi")
  case False
  then have "loop_within hi step lo 0" using assms by (intro loop_always_ends) (auto simp: cron_field_def)
  then obtain b where "range_loop hi step lo 0 = Some b" "bit_has b lo" "\<forall>i. bit_has b i \<longrightarrow> 0 \<le> i \<and> i \<le> hi"
    using False assms(1) unfolding loop_within_def cron_field_def by auto
  then show ?thesis using False by (auto simp: rangeSet_def field_ok_def intro!: exI [of _ lo])
qed (auto simp: rangeSet_def)

lemma parse_step_pos: "parse_step s = Some n \<Longrightarrow> 0 < n \<and> n \<le> max_duration"
  by (auto simp: parse_step_def atoi_def Let_def max_duration_def max_int64_def split: if_splits option.splits)

lemma parseItem_ends:
  assumes "cron_field f"
  shows "\<exists>r. parseItem f item = Some r \<and> (\<forall>b. r = Inr b \<longrightarrow> field_ok f b)"
proof -
  obtain base stepStr where bs: "(case cut_at CHR ''/'' item of None \<Rightarrow> (item, []) | Some p \<Rightarrow> p) = (base, stepStr)" by fastforce
  show ?thesis
  proof (cases "parse_step stepStr")
    case None
    then show ?thesis using bs by (simp add: parseItem_def)
  next
    case (Some step)
    note ends = rangeSet_ends [OF assms, of step] parse_step_pos [OF Some]
    show ?thesis using bs Some ends by (auto simp: parseItem_def split: option.split)
  qed
qed

lemma parse_parts_ends:
  assumes "cron_field f"
  shows "\<exists>r. parse_parts f parts out = Some r \<and>
    (\<forall>b. r = Inr b \<longrightarrow> (parts = [] \<longrightarrow> b = out) \<and> (field_ok f out \<or> (parts \<noteq> [] \<and> out = 0) \<longrightarrow> field_ok f b))"
proof (induction parts arbitrary: out)
  case (Cons part parts)
  obtain r where r: "parseItem f part = Some r" "\<And>b. r = Inr b \<Longrightarrow> field_ok f b" using parseItem_ends [OF assms, of part] by blast
  show ?case
  proof (cases "part = [] \<or> isl r")
    case True
    then show ?thesis using r by (cases r) auto
  next
    case False
    then obtain b where b: "r = Inr b" by (cases r) auto
    obtain q where q: "parse_parts f parts (out OR b) = Some q"
      "\<And>b'. q = Inr b' \<Longrightarrow> (parts = [] \<longrightarrow> b' = (out OR b)) \<and> (field_ok f (out OR b) \<longrightarrow> field_ok f b')"
      using Cons.IH [of "out OR b"] by blast
    have "field_ok f (out OR b)" if "field_ok f out \<or> out = 0"
      using r(2) [OF b] that unfolding field_ok_def bit_has_or by auto
    then show ?thesis using False r(1) b q by auto
  qed
qed simp

lemma split_on_nonempty: "split_on c s \<noteq> []"
  by (cases s) (auto split: list.split)

lemma cron_parse_ends:
  assumes "cron_field f"
  shows "\<exists>r. cron_parse f s = Some r \<and> (\<forall>b rest. r = Inr (b, rest) \<longrightarrow> field_ok f b)"
proof -
  obtain r where r: "parse_parts f (split_on CHR '','' s) 0 = Some r" "\<And>b. r = Inr b \<Longrightarrow> field_ok f b"
    using parse_parts_ends [OF assms, of "split_on CHR '','' s" 0] split_on_nonempty by blast
  then show ?thesis by (cases r) (auto simp: cron_parse_def)
qed

lemma parse_fields_ends:
  assumes "list_all cron_field (map fst fs)"
  shows "\<exists>r. parse_fields fs = Some r \<and> (\<forall>rs. r = Inr rs \<longrightarrow> list_all2 (\<lambda>f b. field_ok (fst f) (fst b)) fs rs)"
  using assms
proof (induction fs)
  case (Cons p fs)
  obtain f s where p: "p = (f, s)" by (cases p)
  have f: "cron_field f" "list_all cron_field (map fst fs)" using Cons.prems p by auto
  obtain r where r: "cron_parse f s = Some r" "\<And>b rest. r = Inr (b, rest) \<Longrightarrow> field_ok f b" using cron_parse_ends [OF f(1)] by blast
  obtain q where q: "parse_fields fs = Some q" "\<And>rs. q = Inr rs \<Longrightarrow> list_all2 (\<lambda>f b. field_ok (fst f) (fst b)) fs rs"
    using Cons.IH [OF f(2)] by blast
  show ?case using r q p by (cases r; cases q) auto
qed simp

definition expr_ok :: "cronExpr \<Rightarrow> bool" where
  "expr_ok e \<longleftrightarrow> field_ok (cron_defs ! 0) (cx_minute e) \<and> field_ok (cron_defs ! 1) (cx_hour e) \<and> field_ok (cron_defs ! 2) (cx_day e) \<and>
     field_ok (cron_defs ! 3) (cx_month e) \<and> field_ok (cron_defs ! 4) (cx_weekday e)"

lemma cron_defs_fields: "list_all cron_field cron_defs"
  by (simp add: cron_defs_def cron_field_def)

lemma parse_ends:
  "\<exists>r. parseCronSpec spec = Some r \<and> (\<forall>e. r = Inr e \<longrightarrow> expr_ok e \<and> \<not> neverMatches e)"
proof (cases "length (Go_Prelude.fields spec) = 5")
  case True
  let ?fs = "zip cron_defs (Go_Prelude.fields spec)"
  have five: "length cron_defs = 5" by (simp add: cron_defs_def)
  have len: "length ?fs = 5" using True five by simp
  have "map fst ?fs = cron_defs" using True by (simp add: cron_defs_def)
  then obtain r where r: "parse_fields ?fs = Some r" "\<And>rs. r = Inr rs \<Longrightarrow> list_all2 (\<lambda>f b. field_ok (fst f) (fst b)) ?fs rs"
    using parse_fields_ends [of ?fs] cron_defs_fields by auto
  have "expr_ok (expr_of rs)" if "r = Inr rs" for rs
  proof -
    have "field_ok (cron_defs ! i) (fst (rs ! i))" if "i < 5" for i
    proof -
      have "field_ok (fst (?fs ! i)) (fst (rs ! i))" using list_all2_nthD [OF r(2) [OF \<open>r = Inr rs\<close>], of i] that True five by simp
      moreover have "fst (?fs ! i) = cron_defs ! i" using that True five by simp
      ultimately show ?thesis by simp
    qed
    then show ?thesis by (simp add: expr_ok_def expr_of_def)
  qed
  then show ?thesis using r(1) True by (cases r) (auto simp: parseCronSpec_def)
qed (simp add: parseCronSpec_def)

section \<open>The scan\<close>

lemma scan_found:
  "cron_scan n e cur = Some u \<Longrightarrow> \<exists>k < n. u = cur + minute * int k \<and> cron_matches e u \<and> (\<forall>j < k. \<not> cron_matches e (cur + minute * int j))"
proof (induction n arbitrary: cur)
  case (Suc n)
  show ?case
  proof (cases "cron_matches e cur")
    case True
    then show ?thesis using Suc.prems by (intro exI [of _ 0]) simp
  next
    case False
    then obtain k where k: "k < n" "u = cur + minute + minute * int k" "cron_matches e u"
      "\<forall>j < k. \<not> cron_matches e (cur + minute + minute * int j)" using Suc by auto
    have "\<not> cron_matches e (cur + minute * int j)" if "j < Suc k" for j
      using that False k(4) by (cases j) (auto simp: algebra_simps)
    then show ?thesis using k(1-3) by (intro exI [of _ "Suc k"]) (simp add: algebra_simps)
  qed
qed simp

lemma scan_none: "cron_scan n e cur = None \<longleftrightarrow> (\<forall>k < n. \<not> cron_matches e (cur + minute * int k))"
proof (induction n arbitrary: cur)
  case (Suc n)
  have "(\<forall>k < Suc n. \<not> cron_matches e (cur + minute * int k)) \<longleftrightarrow>
    \<not> cron_matches e cur \<and> (\<forall>k < n. \<not> cron_matches e (cur + minute + minute * int k))"
    by (simp add: All_less_Suc2 algebra_simps)
  then show ?case using Suc by simp
qed simp

text \<open>Minutes after an instant.\<close>

definition first_minute :: "instant \<Rightarrow> instant" where
  "first_minute t = truncate_minute t + minute"

lemma first_minute:
  assumes "0 \<le> t"
  shows "t < first_minute t" "first_minute t \<le> t + minute" "first_minute t mod minute = 0"
proof -
  have "t mod minute < minute" "0 \<le> t mod minute" by simp_all
  moreover have t: "truncate_minute t = minute * (t div minute)"
    using assms mult_div_mod_eq [of minute t] by (simp add: truncate_minute_def algebra_simps)
  ultimately show "t < first_minute t" "first_minute t \<le> t + minute"
    using assms by (simp_all add: first_minute_def truncate_minute_def)
  show "first_minute t mod minute = 0" unfolding first_minute_def t by simp
qed

lemma minute_of:
  assumes "0 \<le> t" "t < v" "v mod minute = 0"
  obtains k where "v = first_minute t + minute * int k"
proof -
  have q: "v = minute * (v div minute)" using assms(3) mult_div_mod_eq [of minute v] by simp
  have p: "first_minute t = minute * (first_minute t div minute)" using first_minute(3) [OF assms(1)] mult_div_mod_eq [of minute "first_minute t"] by simp
  have "first_minute t div minute \<le> v div minute"
  proof (rule ccontr)
    assume "\<not> ?thesis"
    then have "v \<le> first_minute t - minute" using p q by linarith
    then show False using first_minute(2) [OF assms(1)] assms(2) by linarith
  qed
  then have "v = first_minute t + minute * int (nat (v div minute - first_minute t div minute))" using p q by simp
  then show ?thesis by (rule that)
qed

lemma next_found:
  assumes "0 \<le> t" "cron_next e t = Some u"
  shows "t < u" "u mod minute = 0" "cron_matches e u" "\<And>v. t < v \<Longrightarrow> v < u \<Longrightarrow> v mod minute = 0 \<Longrightarrow> \<not> cron_matches e v"
proof -
  have "cron_scan cronScanHorizon e (first_minute t) = Some u" using assms(2) by (simp add: cron_next_def first_minute_def)
  then obtain k where k: "u = first_minute t + minute * int k" "cron_matches e u"
    "\<forall>j < k. \<not> cron_matches e (first_minute t + minute * int j)" using scan_found by blast
  show "t < u" using k(1) first_minute(1) [OF assms(1)] by simp
  show "u mod minute = 0" using k(1) first_minute(3) [OF assms(1)] by simp
  show "cron_matches e u" by (rule k(2))
  show "\<not> cron_matches e v" if v: "t < v" "v < u" "v mod minute = 0" for v
  proof -
    obtain j where "v = first_minute t + minute * int j" using minute_of [OF assms(1) v(1,3)] .
    moreover have "j < k" using calculation v(2) k(1) by simp
    ultimately show ?thesis using k(3) by blast
  qed
qed

lemma next_exists:
  assumes "0 \<le> t" "t < v" "v mod minute = 0" "cron_matches e v" "v \<le> t + minute * int cronScanHorizon"
  shows "\<exists>u. cron_next e t = Some u \<and> u \<le> v"
proof -
  obtain k where k: "v = first_minute t + minute * int k" using minute_of [OF assms(1-3)] .
  have "k < cronScanHorizon" using k assms(5) first_minute(1) [OF assms(1)] by simp
  then have "cron_next e t \<noteq> None" using scan_none [of cronScanHorizon e "first_minute t"] k assms(4)
    by (auto simp: cron_next_def first_minute_def)
  then obtain u where u: "cron_next e t = Some u" by blast
  have "u \<le> v" using next_found(4) [OF assms(1) u assms(2) _ assms(3)] assms(4) by (meson not_le)
  then show ?thesis using u by blast
qed

section \<open>Dates that match\<close>

definition date_time :: "int \<Rightarrow> nat \<Rightarrow> nat \<Rightarrow> nat \<Rightarrow> nat \<Rightarrow> instant" where
  "date_time y m d h mi = day_ns * date_day y m d + 3600000000000 * int h + minute * int mi"

lemma date_time_parts:
  assumes "1 \<le> m" "m \<le> 12" "1 \<le> d" "d \<le> days_in (leap_year y) m" "h < 24" "mi < 60"
  shows "time_month (date_time y m d h mi) = m" "time_day (date_time y m d h mi) = d" "time_hour (date_time y m d h mi) = h"
    "time_minute (date_time y m d h mi) = mi" "time_weekday (date_time y m d h mi) = nat ((date_day y m d + 1) mod 7)"
    "date_time y m d h mi mod minute = 0"
  using day_ns_parts [OF assms(5,6), of "date_day y m d"] civil_date_day [OF assms(1-4)]
  unfolding date_time_def time_month_def time_day_def time_weekday_def by simp_all

lemma field_bit:
  assumes "field_ok f b"
  obtains i where "cf_min f \<le> i" "i \<le> cf_max f" "bit_has b i"
  using assms unfolding field_ok_def by blast

lemma expr_bits:
  assumes "expr_ok e"
  obtains h mi m where "h < 24" "mi < 60" "1 \<le> m" "m \<le> (12 :: nat)" "bit_has (cx_hour e) (int h)" "bit_has (cx_minute e) (int mi)"
    "bit_has (cx_month e) (int m)"
proof -
  obtain h where h: "0 \<le> h" "h \<le> 23" "bit_has (cx_hour e) h" using assms by (auto simp: expr_ok_def cron_defs_def elim!: field_bit)
  obtain mi where mi: "0 \<le> mi" "mi \<le> 59" "bit_has (cx_minute e) mi" using assms by (auto simp: expr_ok_def cron_defs_def elim!: field_bit)
  obtain m where m: "1 \<le> m" "m \<le> 12" "bit_has (cx_month e) m" using assms by (auto simp: expr_ok_def cron_defs_def elim!: field_bit)
  show ?thesis using that [of "nat h" "nat mi" "nat m"] h mi m by auto
qed

definition plain_date :: "cronExpr \<Rightarrow> bool" where
  "plain_date e \<longleftrightarrow> cx_weekdayRestricted e \<or> \<not> cx_dayRestricted e \<or>
     (\<exists>m d. 1 \<le> m \<and> m \<le> 12 \<and> 1 \<le> d \<and> d \<le> days_checked m \<and> bit_has (cx_month e) (int m) \<and> bit_has (cx_day e) (int d))"

lemma days_checked_le: "days_checked m \<le> days_in leap m"
  by (simp add: days_checked_def days_in_def)

lemma days_checked_ge: "28 \<le> days_checked m"
  by (simp add: days_checked_def)

lemma plain_date_matches:
  assumes "expr_ok e" "plain_date e"
  shows "\<exists>m d h mi. 1 \<le> m \<and> m \<le> 12 \<and> 1 \<le> d \<and> d \<le> days_in (leap_year y) m \<and> h < 24 \<and> mi < 60 \<and> cron_matches e (date_time y m d h mi)"
proof -
  obtain h mi m where b: "h < 24" "mi < 60" "1 \<le> m" "m \<le> (12 :: nat)" "bit_has (cx_hour e) (int h)" "bit_has (cx_minute e) (int mi)"
    "bit_has (cx_month e) (int m)" using expr_bits [OF assms(1)] .
  consider "cx_weekdayRestricted e" | "\<not> cx_weekdayRestricted e" "\<not> cx_dayRestricted e"
    | n d where "\<not> cx_weekdayRestricted e" "1 \<le> n" "n \<le> 12" "1 \<le> d" "d \<le> days_checked n" "bit_has (cx_month e) (int n)" "bit_has (cx_day e) (int d)"
    using assms(2) unfolding plain_date_def by blast
  then show ?thesis
  proof cases
    case 1
    obtain w where w: "0 \<le> w" "w \<le> 6" "bit_has (cx_weekday e) w" using assms(1) by (auto simp: expr_ok_def cron_defs_def elim!: field_bit)
    define d where "d = nat ((w - date_day y m 1 - 1) mod 7) + 1"
    have d: "1 \<le> d" "d \<le> days_in (leap_year y) m"
      using days_checked_le [of m "leap_year y"] days_checked_ge [of m] unfolding d_def by simp_all
    have "date_day y m d + 1 = date_day y m 1 + 1 + (w - date_day y m 1 - 1) mod 7" unfolding d_def date_day_def by simp
    then have "(date_day y m d + 1) mod 7 = (date_day y m 1 + 1 + (w - date_day y m 1 - 1) mod 7) mod 7" by (rule arg_cong)
    also have "\<dots> = w mod 7" using mod_add_right_eq [of "date_day y m 1 + 1" "w - date_day y m 1 - 1" 7] by simp
    finally have "(date_day y m d + 1) mod 7 = w mod 7" .
    then have "cron_matches e (date_time y m d h mi)"
      using 1 b w d by (simp add: cron_matches_def date_time_parts Let_def)
    then show ?thesis using b d by blast
  next
    case 2
    have "1 \<le> (1 :: nat)" "1 \<le> days_in (leap_year y) m" using days_checked_le [of m "leap_year y"] days_checked_ge [of m] by simp_all
    then have "cron_matches e (date_time y m 1 h mi)" using 2 b by (simp add: cron_matches_def date_time_parts Let_def)
    then show ?thesis using b \<open>1 \<le> days_in (leap_year y) m\<close> by blast
  next
    case 3
    have d: "d \<le> days_in (leap_year y) n" using 3 days_checked_le [of n "leap_year y"] by simp
    then have "cron_matches e (date_time y n d h mi)" using 3 b by (simp add: cron_matches_def date_time_parts Let_def)
    then show ?thesis using b 3 d by blast
  qed
qed

lemma day_after:
  assumes "t < v" "0 \<le> t"
  shows "day_of t \<le> day_of v"
  using assms unfolding day_of_def by (simp add: zdiv_mono1)

lemma date_day_bounds:
  assumes "1 \<le> m" "m \<le> 12" "1 \<le> d" "d \<le> days_in (leap_year y) m"
  shows "year_start y \<le> date_day y m d" "date_day y m d < year_start (y + 1)"
  using month_start_bound [OF assms(1,2), of "leap_year y"] month_start_nonneg [OF assms(1,2), of "leap_year y"] assms(3,4) year_start_Suc [of y]
  unfolding date_day_def by (auto split: if_splits)

text \<open>A plain date occurs in the year after any instant.\<close>

lemma plain_next:
  assumes "expr_ok e" "plain_date e" "0 \<le> t"
  shows "\<exists>u. cron_next e t = Some u \<and> u < t + 733 * day_ns"
proof -
  obtain y n where yn: "year_day (day_of t) = (y, n)" by fastforce
  note inyear = day_in_year [OF yn]
  obtain m d h mi where v: "1 \<le> m" "m \<le> 12" "1 \<le> d" "d \<le> days_in (leap_year (y + 1)) m" "h < 24" "mi < 60"
    "cron_matches e (date_time (y + 1) m d h mi)" using plain_date_matches [OF assms(1,2), of "y + 1"] by blast
  let ?v = "date_time (y + 1) m d h mi"
  have D: "year_start (y + 1) \<le> date_day (y + 1) m d" "date_day (y + 1) m d < year_start (y + 2)"
    using date_day_bounds [OF v(1-4)] by (simp_all add: add.assoc)
  have "year_start (y + 2) \<le> year_start (y + 1) + 366" using year_start_Suc [of "y + 1"] by (simp add: add.assoc)
  moreover have "year_start (y + 1) \<le> year_start y + 366" using year_start_Suc [of y] by simp
  ultimately have days: "day_of t < date_day (y + 1) m d" "date_day (y + 1) m d < day_of t + 732"
    using D inyear by linarith+
  have t: "day_ns * day_of t \<le> t" "t < day_ns * day_of t + day_ns"
    using mult_div_mod_eq [of day_ns t] pos_mod_bound [of day_ns t] pos_mod_sign [of day_ns t] unfolding day_of_def by linarith+
  have w: "day_ns * date_day (y + 1) m d \<le> ?v" "?v < day_ns * date_day (y + 1) m d + day_ns"
    using v(5,6) unfolding date_time_def by linarith+
  have "t < ?v" using t w days by linarith
  moreover have "?v < t + 733 * day_ns" using t w days by linarith
  moreover have "?v mod minute = 0" using date_time_parts(6) [OF v(1-6)] .
  moreover have "733 * day_ns \<le> minute * int cronScanHorizon" by (simp add: cronScanHorizon_def)
  ultimately obtain u where "cron_next e t = Some u" "u \<le> ?v" using next_exists [OF assms(3) _ _ v(7)] by force
  then show ?thesis using \<open>?v < t + 733 * day_ns\<close> by auto
qed

lemma list_ex_upto: "list_ex Q [1..<Suc n] \<longleftrightarrow> (\<exists>d. 1 \<le> d \<and> d \<le> n \<and> Q d)"
  by (auto simp: list_ex_iff less_Suc_eq_le simp del: upt_Suc)

lemma list_ex_dates:
  "list_ex (\<lambda>m. P m \<and> list_ex Q [1..<Suc (f m)]) [1..<13] \<longleftrightarrow> (\<exists>m d. 1 \<le> m \<and> m \<le> 12 \<and> 1 \<le> d \<and> d \<le> f m \<and> P m \<and> Q d)"
proof -
  have 13: "(13 :: nat) = Suc 12" by simp
  show ?thesis unfolding 13 list_ex_upto by blast
qed

lemma plain_iff: "plain_date e \<longleftrightarrow> cx_weekdayRestricted e \<or> \<not> cx_dayRestricted e \<or>
    list_ex (\<lambda>m. bit_has (cx_month e) (int m) \<and> list_ex (\<lambda>d. bit_has (cx_day e) (int d)) [1..<Suc (days_checked m)]) [1..<13]"
  unfolding list_ex_dates plain_date_def by blast

lemma never_iff: "neverMatches e \<longleftrightarrow> \<not> plain_date e \<and> \<not> (bit_has (cx_month e) 2 \<and> bit_has (cx_day e) 29)"
  unfolding neverMatches_def plain_iff by auto

lemma match_date:
  assumes "cron_matches e t" "\<not> plain_date e"
  shows "time_month t = 2" "time_day t = 29" "bit_has (cx_month e) 2" "bit_has (cx_day e) 29"
proof -
  have r: "cx_dayRestricted e" "\<not> cx_weekdayRestricted e" using assms(2) by (auto simp: plain_date_def)
  then have bits: "bit_has (cx_month e) (int (time_month t))" "bit_has (cx_day e) (int (time_day t))"
    using assms(1) by (auto simp: cron_matches_def Let_def split: if_splits)
  have "civil_day (day_of t) = (time_month t, time_day t)" by (simp add: time_month_def time_day_def)
  from civil_day_valid [OF this] obtain y where
    v: "1 \<le> time_month t" "time_month t \<le> 12" "1 \<le> time_day t" "time_day t \<le> days_in (leap_year y) (time_month t)" .
  have "\<not> time_day t \<le> days_checked (time_month t)" using assms(2) v bits unfolding plain_date_def by blast
  then show md: "time_month t = 2" "time_day t = 29"
    using v(4) by (auto simp: days_checked_def days_in_def split: if_splits)
  show "bit_has (cx_month e) 2" "bit_has (cx_day e) 29" using bits md by simp_all
qed

lemma leap_match:
  assumes "expr_ok e" "cx_dayRestricted e" "\<not> cx_weekdayRestricted e" "bit_has (cx_month e) 2" "bit_has (cx_day e) 29"
  shows "\<exists>t. cron_matches e t"
proof -
  obtain h mi where b: "h < 24" "mi < 60" "bit_has (cx_hour e) (int h)" "bit_has (cx_minute e) (int mi)" using expr_bits [OF assms(1)] .
  have "29 \<le> days_in (leap_year 2000) 2" by (simp add: days_in_def leap_year_def)
  then have "cron_matches e (date_time 2000 2 29 h mi)"
    using b assms by (simp add: cron_matches_def Let_def date_time_parts)
  then show ?thesis by blast
qed

lemma never_is_never: "expr_ok e \<Longrightarrow> neverMatches e \<longleftrightarrow> (\<forall>t. \<not> cron_matches e t)"
proof (cases "plain_date e")
  case True
  assume "expr_ok e"
  then have "\<exists>t. cron_matches e t" using plain_date_matches [of e 1] True by blast
  then show ?thesis using True by (simp add: never_iff)
next
  case False
  assume ok: "expr_ok e"
  have "cx_dayRestricted e" "\<not> cx_weekdayRestricted e" using False by (auto simp: plain_date_def)
  then show ?thesis using leap_match [OF ok] match_date(3,4) [OF _ False] False unfolding never_iff by blast
qed

section \<open>The leap day\<close>

definition leap_day_spec :: string where
  "leap_day_spec = ''0 0 29 2 *''"

definition leap_2096 :: instant where
  "leap_2096 = date_time 2096 2 29 0 0"

lemma leap_day_of:
  assumes "time_month t = 2" "time_day t = 29"
  obtains y where "leap_year y" "day_of t = date_day y 2 29" "year_start y \<le> day_of t" "day_of t < year_start (y + 1)"
proof -
  obtain y where y: "29 \<le> days_in (leap_year y) 2" "day_of t = date_day y 2 29" "year_start y \<le> day_of t" "day_of t < year_start (y + 1)"
    using civil_day_valid [of "day_of t" 2 29] assms by (auto simp: time_month_def time_day_def prod_eq_iff)
  then have "leap_year y" by (auto simp: days_in_def split: if_splits)
  then show ?thesis using that y by blast
qed

lemma leap_gap:
  assumes "time_month t = 2" "time_day t = 29" "date_day 2096 2 29 < day_of t"
  shows "date_day 2096 2 29 + 2921 \<le> day_of t"
proof -
  obtain y where y: "leap_year y" "day_of t = date_day y 2 29" "year_start y \<le> day_of t" "day_of t < year_start (y + 1)"
    using leap_day_of [OF assms(1,2)] .
  have at: "date_day 2104 2 29 = date_day 2096 2 29 + 2921" by code_simp
  have "2096 \<le> y"
  proof (rule ccontr)
    assume "\<not> ?thesis"
    then have "year_start (y + 1) \<le> year_start 2096" by (intro year_start_mono) simp
    moreover have "year_start 2096 \<le> date_day 2096 2 29" by code_simp
    ultimately show False using y(4) assms(3) by simp
  qed
  moreover have "y \<noteq> 2096" using y(2) assms(3) by auto
  moreover have "\<not> (2097 \<le> y \<and> y \<le> 2103)"
  proof
    assume "2097 \<le> y \<and> y \<le> 2103"
    then have "y \<in> {2097, 2098, 2099, 2100, 2101, 2102, 2103}" by auto
    then show False using y(1) by (auto simp: leap_year_def)
  qed
  ultimately have "2104 \<le> y" by simp
  then consider "y = 2104" | "2105 \<le> y" by linarith
  then show ?thesis
  proof cases
    case 2
    then have "year_start 2105 \<le> year_start y" by (intro year_start_mono)
    moreover have "date_day 2096 2 29 + 2921 \<le> year_start 2105" by code_simp
    ultimately show ?thesis using y(3) by simp
  qed (use y(2) at in simp)
qed

definition leap_day_expr :: cronExpr where
  "leap_day_expr = \<lparr>cx_minute = 1, cx_hour = 1, cx_day = shl1 29, cx_month = 4, cx_weekday = 127, cx_dayRestricted = True,
     cx_weekdayRestricted = False\<rparr>"

lemma leap_day_parse: "parseCronSpec leap_day_spec = Some (Inr leap_day_expr)"
  by code_simp

lemma leap_day_not_plain: "\<not> plain_date leap_day_expr"
  unfolding plain_iff by code_simp

lemma leap_day_time:
  assumes "cron_matches leap_day_expr t"
  shows "time_month t = 2" "time_day t = 29" "time_hour t = 0" "time_minute t = 0"
proof -
  show "time_month t = 2" "time_day t = 29" using match_date [OF assms leap_day_not_plain] by blast+
  have "shl1 0 = 1" by (simp add: shl1_def)
  then have one: "bit_has 1 i \<longleftrightarrow> i = 0" for i using bit_has_shl1 [of 0 i] by simp
  have "bit_has 1 (int (time_hour t))" "bit_has 1 (int (time_minute t))"
    using assms by (auto simp: cron_matches_def leap_day_expr_def split: if_splits)
  then show "time_hour t = 0" "time_minute t = 0" by (simp_all add: one)
qed

lemma midnight:
  assumes "0 \<le> t" "t mod minute = 0" "time_hour t = 0" "time_minute t = 0"
  shows "t = day_ns * day_of t"
proof -
  define r where "r = t mod day_ns"
  have t: "t = day_ns * day_of t + r" "0 \<le> r" "r < day_ns" unfolding r_def day_of_def by simp_all
  have h: "r div 3600000000000 \<le> 0" using assms(3) unfolding time_hour_def r_def by simp
  have hour: "r < 3600000000000" using h pos_imp_zdiv_pos_iff [of 3600000000000 r] by simp
  have "(3600000000000 * (24 * day_of t) + r) mod 3600000000000 = r" by (rule remainder_is [OF t(2) hour])
  then have "t mod 3600000000000 = r" using t(1) by simp
  then have "r div minute \<le> 0" using assms(4) unfolding time_minute_def by simp
  then have less: "r < minute" using pos_imp_zdiv_pos_iff [of minute r] by simp
  have "(minute * (1440 * day_of t) + r) mod minute = r" by (rule remainder_is [OF t(2) less])
  then have "t mod minute = r" using t(1) by simp
  then show ?thesis using t(1) assms(2) by simp
qed

lemma leap_day_none: "cron_next leap_day_expr leap_2096 = None"
proof -
  have at: "leap_2096 = day_ns * date_day 2096 2 29" by (simp add: leap_2096_def date_time_def)
  have first: "first_minute leap_2096 = leap_2096 + minute" by code_simp
  have "\<not> cron_matches leap_day_expr (leap_2096 + minute + minute * int k)" if k: "k < cronScanHorizon" for k
  proof
    assume m: "cron_matches leap_day_expr (leap_2096 + minute + minute * int k)" (is "cron_matches _ ?t")
    have leap: "leap_2096 = minute * (leap_2096 div minute)" "0 \<le> leap_2096" by code_simp+
    have "?t = minute * (leap_2096 div minute + 1 + int k)" unfolding distrib_left leap(1) [symmetric] by simp
    then obtain q where "?t = minute * q" by blast
    then have whole: "?t mod minute = 0" by (simp only: mod_mult_self1_is_0)
    have "0 \<le> ?t" using leap(2) by linarith
    then have mid: "?t = day_ns * day_of ?t" using midnight [OF _ whole] leap_day_time [OF m] by blast
    have "leap_2096 < ?t" by simp
    then have "date_day 2096 2 29 < day_of ?t" using mid at by linarith
    then have "date_day 2096 2 29 + 2921 \<le> day_of ?t" using leap_gap leap_day_time [OF m] by blast
    then have "leap_2096 + day_ns * 2921 \<le> ?t" using mid at by linarith
    moreover have "minute + minute * int k \<le> day_ns * 2920" using k by (simp add: cronScanHorizon_def)
    ultimately show False by simp
  qed
  then show ?thesis
    using scan_none [of cronScanHorizon leap_day_expr "first_minute leap_2096"] first by (simp add: cron_next_def first_minute_def)
qed

section \<open>What the parser and the scan promise\<close>

text \<open>
  C28: parsing a cron specification always returns, also where a step near the largest integer makes the
  range loop wrap around, and an expression it accepts matches some minute.
\<close>

theorem cron_parse_occurs:
  "\<exists>r. parseCronSpec spec = Some r \<and> (\<forall>e. r = Inr e \<longrightarrow> (\<exists>t. cron_matches e t))"
proof -
  obtain r where r: "parseCronSpec spec = Some r" "\<And>e. r = Inr e \<Longrightarrow> expr_ok e \<and> \<not> neverMatches e" using parse_ends by blast
  then show ?thesis using never_is_never by blast
qed

lemma cron_parse_occurs_witness: "\<exists>t. cron_matches leap_day_expr t"
  using cron_parse_occurs [of leap_day_spec] leap_day_parse by auto

text \<open>
  C27: the next occurrence is the first minute after the given instant that matches: none in between does.
\<close>

theorem cron_next_least:
  assumes "0 \<le> t" "cron_next e t = Some u"
  shows "t < u \<and> u mod minute = 0 \<and> cron_matches e u \<and> (\<forall>v. t < v \<longrightarrow> v < u \<longrightarrow> v mod minute = 0 \<longrightarrow> \<not> cron_matches e v)"
  using next_found [OF assms] by blast

definition every_minute :: cronExpr where
  "every_minute = \<lparr>cx_minute = - 1, cx_hour = - 1, cx_day = - 1, cx_month = - 1, cx_weekday = - 1, cx_dayRestricted = False,
     cx_weekdayRestricted = False\<rparr>"

lemma every_minute_next: "cron_next every_minute 5 = Some minute"
proof -
  have scan: "cron_scan (Suc n) every_minute minute = Some minute" for n by simp code_simp
  have "cronScanHorizon = Suc 4204799" by (simp add: cronScanHorizon_def)
  then have "cron_scan cronScanHorizon every_minute minute = Some minute" using scan [of 4204799] by metis
  then show ?thesis by (simp add: cron_next_def truncate_minute_def)
qed

lemma cron_next_least_witness: "cron_matches every_minute minute \<and> (5 :: int) < minute"
  using cron_next_least [OF _ every_minute_next] by simp

text \<open>
  Fact: unless it can only fall on a leap day, an accepted expression has a next occurrence after every
  instant, less than 733 days away.
\<close>

theorem cron_next_plain:
  assumes "parseCronSpec spec = Some (Inr e)" "plain_date e" "0 \<le> t"
  shows "\<exists>u. cron_next e t = Some u \<and> u < t + 733 * day_ns"
proof -
  have "expr_ok e" using parse_ends [of spec] assms(1) by auto
  then show ?thesis using plain_next assms(2,3) by blast
qed

definition daily_expr :: cronExpr where
  "daily_expr = \<lparr>cx_minute = shl1 30, cx_hour = shl1 9, cx_day = 4294967294, cx_month = 8190, cx_weekday = 127, cx_dayRestricted = False,
     cx_weekdayRestricted = False\<rparr>"

lemma daily_parse: "parseCronSpec ''30 9 * * *'' = Some (Inr daily_expr)"
  by code_simp

lemma cron_next_plain_witness: "\<exists>u. cron_next daily_expr 0 = Some u \<and> u < 733 * day_ns"
  using cron_next_plain [OF daily_parse, of 0] by (simp add: plain_date_def daily_expr_def)

text \<open>
  C37: the horizon of the scan is a day short of the longest gap between leap days: after February 29, 2096
  an accepted expression that matched that day, and will match again, has no next occurrence.
\<close>

theorem leap_day_missed:
  "\<exists>e. parseCronSpec leap_day_spec = Some (Inr e) \<and> cron_matches e leap_2096 \<and> cron_next e leap_2096 = None \<and>
     (\<exists>v > leap_2096. cron_matches e v)"
proof -
  have "cron_matches leap_day_expr leap_2096" "cron_matches leap_day_expr (date_time 2104 2 29 0 0)"
    "leap_2096 < date_time 2104 2 29 0 0" by code_simp+
  then show ?thesis using leap_day_parse leap_day_none by blast
qed

text \<open>
  Fact: a range gives exactly the values from its start in steps up to its end, as long as the step cannot
  carry the loop variable past the largest integer.
\<close>

theorem range_exact:
  assumes "0 \<le> cf_min f" "cf_max f < 64" "cf_min f \<le> lo" "lo \<le> hi" "hi \<le> cf_max f" "0 < step" "step \<le> max_duration - hi"
  shows "\<exists>b. rangeSet f lo hi step = Some (Inr b) \<and> (\<forall>i. bit_has b i \<longleftrightarrow> (\<exists>k::nat. i = lo + int k * step \<and> i \<le> hi))"
proof -
  obtain b where "range_loop hi step lo 0 = Some b" "\<forall>i. bit_has b i \<longleftrightarrow> bit_has 0 i \<or> (\<exists>k::nat. i = lo + int k * step \<and> i \<le> hi)"
    using range_loop_exact [of step hi lo 0] assms by auto
  then show ?thesis using assms by (auto simp: rangeSet_def)
qed

lemma range_exact_witness: "\<exists>b. rangeSet (cron_defs ! 0) 0 59 15 = Some (Inr b) \<and> bit_has b 45 \<and> \<not> bit_has b 50"
proof -
  have "\<exists>b. rangeSet (cron_defs ! 0) 0 59 15 = Some (Inr b) \<and> (\<forall>i. bit_has b i \<longleftrightarrow> (\<exists>k::nat. i = 0 + int k * 15 \<and> i \<le> 59))"
    by (rule range_exact) (simp_all add: cron_defs_def max_duration_def)
  moreover have "\<exists>k::nat. 45 = 0 + int k * 15 \<and> (45 :: int) \<le> 59" by (rule exI [of _ 3]) simp
  moreover have "\<not> (\<exists>k::nat. 50 = 0 + int k * 15)" by presburger
  ultimately show ?thesis by blast
qed

text \<open>
  Fact: with the largest step the loop variable wraps around, and minute 59 with that step also selects
  minute 57.
\<close>

theorem range_step_wraps:
  "\<exists>b. parseItem (cron_defs ! 0) ''59/9223372036854775807'' = Some (Inr b) \<and> bit_has b 59 \<and> bit_has b 57"
proof -
  have "parse_step ''9223372036854775807'' = Some 9223372036854775807"
    by (simp add: parse_step_def atoi_def is_digit_def digit_val_def max_int64_def min_int64_def)
  moreover have "cut_at CHR ''/'' ''59/9223372036854775807'' = Some (''59'', ''9223372036854775807'')" "cut_at CHR ''-'' ''59'' = None"
    "atoi ''59'' = Some 59" by code_simp+
  ultimately have "parseItem (cron_defs ! 0) ''59/9223372036854775807'' = rangeSet (cron_defs ! 0) 59 59 9223372036854775807"
    by (simp add: parseItem_def)
  also have "\<dots> = map_option Inr (range_loop 59 9223372036854775807 59 0)" by (simp add: rangeSet_def cron_defs_def)
  finally have item: "parseItem (cron_defs ! 0) ''59/9223372036854775807'' = map_option Inr (range_loop 59 9223372036854775807 59 0)" .
  have w: "wrap64 (59 + 9223372036854775807) = -9223372036854775750" "wrap64 (-9223372036854775750 + 9223372036854775807) = 57"
    by (simp_all add: wrap64_def)
  have loop: "range_loop 59 9223372036854775807 59 0 = range_loop 59 9223372036854775807 57 (0 OR shl1 59 OR shl1 (-9223372036854775750))"
    using loop_next [of 59 59 9223372036854775807 0] loop_next [of "-9223372036854775750" 59 9223372036854775807 "0 OR shl1 59"] w by simp
  have "loop_within 59 9223372036854775807 57 (0 OR shl1 59 OR shl1 (-9223372036854775750))"
    by (rule loop_always_ends) (simp_all add: max_duration_def)
  then obtain b where b: "range_loop 59 9223372036854775807 57 (0 OR shl1 59 OR shl1 (-9223372036854775750)) = Some b"
    "\<And>i. bit_has (0 OR shl1 59 OR shl1 (-9223372036854775750)) i \<Longrightarrow> bit_has b i" "bit_has b 57" unfolding loop_within_def by auto
  have "bit_has b 59" by (rule b(2)) (simp add: bit_has_or bit_has_shl1)
  then show ?thesis using item loop b(1,3) by simp
qed

end
