(* ===== verification/Schedule_Engine.thy ===== *)
theory Schedule_Engine
  imports Schedule_Cron
begin

text \<open>
  The schedule engine, \<^verbatim>\<open>internal/schedule/engine.go\<close> and \<^verbatim>\<open>interval.go\<close>, over the
  in-memory provider of \<^verbatim>\<open>mem.go\<close>: adding, removing and listing schedules, and the clock that
  advances the due ones. The time of a call is an argument, contexts are not cancelled. Parsing a cron
  specification always returns, so the engine takes its value. The fraction of a duration, which Go
  computes in floating point, is the argument \<open>fr\<close> of the functions that parse one.
\<close>

section \<open>Durations\<close>

type_synonym fraction = "int \<Rightarrow> int \<Rightarrow> int \<Rightarrow> int"

fun leading_int :: "string \<Rightarrow> int \<Rightarrow> (int \<times> string) option" where
  "leading_int [] x = Some (x, [])"
| "leading_int (c # s) x =
     (if \<not> is_digit c then Some (x, c # s)
      else if x > 2 ^ 63 div 10 then None
      else let y = x * 10 + int (digit_val c) in if y > 2 ^ 63 then None else leading_int s y)"

fun leading_fraction :: "string \<Rightarrow> int \<Rightarrow> int \<Rightarrow> bool \<Rightarrow> int \<times> int \<times> string" where
  "leading_fraction [] x scale over = (x, scale, [])"
| "leading_fraction (c # s) x scale over =
     (if \<not> is_digit c then (x, scale, c # s)
      else if over then leading_fraction s x scale True
      else if x > (2 ^ 63 - 1) div 10 then leading_fraction s x scale True
      else let y = x * 10 + int (digit_val c)
           in if y > 2 ^ 63 then leading_fraction s x scale True else leading_fraction s y (scale * 10) False)"

definition unit_ns :: "string \<Rightarrow> int option" where
  "unit_ns = map_of [(''ns'', 1), (''us'', 1000), ([CHR 0xC2, CHR 0xB5, CHR ''s''], 1000), ([CHR 0xCE, CHR 0xBC, CHR ''s''], 1000),
     (''ms'', 1000000), (''s'', 1000000000), (''m'', 60000000000), (''h'', 3600000000000)]"

definition unit_char :: "char \<Rightarrow> bool" where
  "unit_char c \<longleftrightarrow> c \<noteq> CHR ''.'' \<and> \<not> is_digit c"

lemma leading_int_length: "leading_int s x = Some (v, r) \<Longrightarrow> length r \<le> length s"
  by (induction s x rule: leading_int.induct) (auto simp: Let_def split: if_splits)

lemma leading_fraction_length: "leading_fraction s x sc over = (f, scale, r) \<Longrightarrow> length r \<le> length s"
  by (induction s x sc over rule: leading_fraction.induct) (auto simp: Let_def split: if_splits)

text \<open>The value and unit in front: its nanoseconds, and the rest.\<close>

definition duration_part :: "fraction \<Rightarrow> string \<Rightarrow> (int \<times> string) option" where
  "duration_part fr s =
     (if s = [] \<or> \<not> (hd s = CHR ''.'' \<or> is_digit (hd s)) then None
      else case leading_int s 0 of
        None \<Rightarrow> None
      | Some (v, s1) \<Rightarrow>
          (let dot = (s1 \<noteq> [] \<and> hd s1 = CHR ''.'');
               (f, scale, s2) = (if dot then leading_fraction (tl s1) 0 1 False else (0, 1, s1));
               post = (dot \<and> length s2 \<noteq> length (tl s1))
           in if length s1 = length s \<and> \<not> post then None
              else case unit_ns (takeWhile unit_char s2) of
                None \<Rightarrow> None
              | Some unit \<Rightarrow>
                  if v > 2 ^ 63 div unit then None
                  else let v = v * unit + (if f > 0 then fr f scale unit else 0)
                       in if f > 0 \<and> v > 2 ^ 63 then None else Some (v, dropWhile unit_char s2)))"

lemma duration_part_shorter:
  assumes "duration_part fr s = Some (v, r)"
  shows "length r < length s"
proof -
  obtain w s1 where 1: "leading_int s 0 = Some (w, s1)"
    using assms by (auto simp: duration_part_def split: if_splits option.splits)
  define dot where "dot = (s1 \<noteq> [] \<and> hd s1 = CHR ''.'')"
  obtain f scale s2 where 2: "(if dot then leading_fraction (tl s1) 0 1 False else (0, 1, s1)) = (f, scale, s2)"
    by (cases "if dot then leading_fraction (tl s1) 0 1 False else (0, 1, s1)") auto
  have r: "r = dropWhile unit_char s2" "unit_ns (takeWhile unit_char s2) \<noteq> None"
    using assms 1 2 unfolding dot_def by (auto simp: duration_part_def Let_def split: if_splits option.splits)
  have "takeWhile unit_char s2 \<noteq> []" using r(2) by (auto simp: unit_ns_def)
  then have "length r < length s2" unfolding r(1)
    by (metis length_append length_greater_0_conv less_add_same_cancel2 takeWhile_dropWhile_id)
  moreover have "length s2 \<le> length s1"
    using 2 leading_fraction_length [of "tl s1" 0 1 False f scale s2] by (auto split: if_splits)
  ultimately show ?thesis using leading_int_length [OF 1] by simp
qed

function duration_loop :: "fraction \<Rightarrow> string \<Rightarrow> int \<Rightarrow> int option" where
  "duration_loop fr s d =
     (if s = [] then Some d
      else case duration_part fr s of
        None \<Rightarrow> None
      | Some (v, r) \<Rightarrow> let d = (d + v) mod 2 ^ 64 in if d > 2 ^ 63 then None else duration_loop fr r d)"
  by pat_completeness auto
termination
  by (relation "measure (\<lambda>(fr, s, d). length s)") (auto dest: duration_part_shorter)

definition parse_duration :: "fraction \<Rightarrow> string \<Rightarrow> int option" where
  "parse_duration fr s =
     (let neg = (s \<noteq> [] \<and> hd s = CHR ''-'');
          s = (if s \<noteq> [] \<and> (hd s = CHR ''-'' \<or> hd s = CHR ''+'') then tl s else s)
      in if s = ''0'' then Some 0
         else if s = [] then None
         else case duration_loop fr s 0 of
           None \<Rightarrow> None
         | Some d \<Rightarrow> if neg then Some (- d) else if d > 2 ^ 63 - 1 then None else Some d)"

section \<open>Records and the provider\<close>

record Schedule =
  sc_ID :: string
  sc_Kind :: string
  sc_Spec :: string
  sc_Payload :: string
  sc_Enabled :: bool
  sc_CreatedAt :: instant
  sc_LastFire :: "instant option"
  sc_NextFire :: instant

datatype schedule_error = ErrInvalidSpec | ErrNoOccurrence | ErrUnknownKind | ErrUnknownSchedule | ErrEngineClosed | ErrProviderClosed

record memProvider =
  pv_schedules :: "(string \<times> Schedule) list"
  pv_nextID :: nat
  pv_closed :: bool

definition newScheduleProvider :: memProvider where
  "newScheduleProvider = \<lparr>pv_schedules = [], pv_nextID = 0, pv_closed = False\<rparr>"

definition ProviderList :: "memProvider \<Rightarrow> schedule_error + Schedule list" where
  "ProviderList m = (if pv_closed m then Inl ErrProviderClosed else Inr (sort_key sc_ID (vals (pv_schedules m))))"

definition sched_id :: "nat \<Rightarrow> string" where
  "sched_id n = ''sched-'' @ itoa n"

definition ProviderCreate :: "Schedule \<Rightarrow> memProvider \<Rightarrow> (schedule_error + Schedule) \<times> memProvider" where
  "ProviderCreate s m =
     (if pv_closed m then (Inl ErrProviderClosed, m)
      else let n = pv_nextID m + 1; s = s\<lparr>sc_ID := sched_id n\<rparr>
           in (Inr s, m\<lparr>pv_nextID := n, pv_schedules := AList.update (sc_ID s) s (pv_schedules m)\<rparr>))"

definition ProviderUpdate :: "Schedule \<Rightarrow> memProvider \<Rightarrow> (schedule_error + Schedule) \<times> memProvider" where
  "ProviderUpdate s m =
     (if pv_closed m then (Inl ErrProviderClosed, m)
      else if map_of (pv_schedules m) (sc_ID s) = None then (Inl ErrUnknownSchedule, m)
      else (Inr s, m\<lparr>pv_schedules := AList.update (sc_ID s) s (pv_schedules m)\<rparr>))"

definition ProviderDelete :: "string \<Rightarrow> memProvider \<Rightarrow> schedule_error option \<times> memProvider" where
  "ProviderDelete i m =
     (if pv_closed m then (Some ErrProviderClosed, m)
      else if map_of (pv_schedules m) i = None then (Some ErrUnknownSchedule, m)
      else (None, m\<lparr>pv_schedules := AList.delete i (pv_schedules m)\<rparr>))"

definition ProviderClose :: "memProvider \<Rightarrow> memProvider" where
  "ProviderClose m = m\<lparr>pv_closed := True\<rparr>"

section \<open>The engine\<close>

record engine =
  eg_prov :: memProvider
  eg_exprs :: "(string \<times> cronExpr) list"
  eg_closed :: bool

definition NewScheduleEngine :: engine where
  "NewScheduleEngine = \<lparr>eg_prov = newScheduleProvider, eg_exprs = [], eg_closed = False\<rparr>"

definition parse_cron :: "string \<Rightarrow> cron_error + cronExpr" where
  "parse_cron spec = the (parseCronSpec spec)"

definition parseIntervalSpec :: "fraction \<Rightarrow> string \<Rightarrow> schedule_error + int" where
  "parseIntervalSpec fr spec =
     (case parse_duration fr spec of
        None \<Rightarrow> Inl ErrInvalidSpec
      | Some d \<Rightarrow> if d \<le> 0 then Inl ErrInvalidSpec else Inr d)"

text \<open>The first fire time of a new schedule, and the expression to cache.\<close>

definition first_fire :: "fraction \<Rightarrow> instant \<Rightarrow> string \<Rightarrow> string \<Rightarrow> schedule_error + instant \<times> cronExpr option" where
  "first_fire fr now kind spec =
     (if kind = ''interval'' then
        (case parseIntervalSpec fr spec of Inl e \<Rightarrow> Inl e | Inr d \<Rightarrow> Inr (now + d, None))
      else if kind = ''cron'' then
        (case parse_cron spec of
           Inl e \<Rightarrow> Inl ErrInvalidSpec
         | Inr expr \<Rightarrow> (case cron_next expr now of None \<Rightarrow> Inl ErrInvalidSpec | Some t \<Rightarrow> Inr (t, Some expr)))
      else Inl ErrUnknownKind)"

definition EngineAdd ::
    "fraction \<Rightarrow> instant \<Rightarrow> string \<Rightarrow> string \<Rightarrow> string \<Rightarrow> engine \<Rightarrow> (schedule_error + Schedule) \<times> engine" where
  "EngineAdd fr now kind spec payload e =
     (if eg_closed e then (Inl ErrEngineClosed, e)
      else case first_fire fr now kind spec of
        Inl x \<Rightarrow> (Inl x, e)
      | Inr (t, expr) \<Rightarrow>
          (case ProviderCreate \<lparr>sc_ID = [], sc_Kind = kind, sc_Spec = spec, sc_Payload = payload, sc_Enabled = True,
                 sc_CreatedAt = now, sc_LastFire = None, sc_NextFire = t\<rparr> (eg_prov e) of
             (Inl x, m) \<Rightarrow> (Inl x, e\<lparr>eg_prov := m\<rparr>)
           | (Inr s, m) \<Rightarrow>
               (Inr s, e\<lparr>eg_prov := m, eg_exprs := (case expr of None \<Rightarrow> eg_exprs e | Some x \<Rightarrow> AList.update (sc_ID s) x (eg_exprs e))\<rparr>)))"

definition EngineRemove :: "string \<Rightarrow> engine \<Rightarrow> schedule_error option \<times> engine" where
  "EngineRemove i e =
     (if eg_closed e then (Some ErrEngineClosed, e)
      else case ProviderDelete i (eg_prov e) of
        (Some x, m) \<Rightarrow> (Some x, e\<lparr>eg_prov := m\<rparr>)
      | (None, m) \<Rightarrow> (None, e\<lparr>eg_prov := m, eg_exprs := AList.delete i (eg_exprs e)\<rparr>))"

definition EngineList :: "engine \<Rightarrow> schedule_error + Schedule list" where
  "EngineList e = (if eg_closed e then Inl ErrEngineClosed else ProviderList (eg_prov e))"

definition exprFor :: "string \<Rightarrow> string \<Rightarrow> engine \<Rightarrow> (schedule_error + cronExpr) \<times> engine" where
  "exprFor i spec e =
     (case map_of (eg_exprs e) i of
        Some x \<Rightarrow> (Inr x, e)
      | None \<Rightarrow>
          (case parse_cron spec of
             Inl err \<Rightarrow> (Inl ErrInvalidSpec, e)
           | Inr x \<Rightarrow> (Inr x, e\<lparr>eg_exprs := AList.update i x (eg_exprs e)\<rparr>)))"

definition nextAfter :: "fraction \<Rightarrow> Schedule \<Rightarrow> instant \<Rightarrow> engine \<Rightarrow> (schedule_error + instant) \<times> engine" where
  "nextAfter fr s after e =
     (if sc_Kind s = ''interval'' then
        ((case parseIntervalSpec fr (sc_Spec s) of Inl x \<Rightarrow> Inl x | Inr d \<Rightarrow> Inr (after + d)), e)
      else if sc_Kind s = ''cron'' then
        (case exprFor (sc_ID s) (sc_Spec s) e of
           (Inl x, e) \<Rightarrow> (Inl x, e)
         | (Inr x, e) \<Rightarrow> ((case cron_next x after of None \<Rightarrow> Inl ErrNoOccurrence | Some t \<Rightarrow> Inr t), e))
      else (Inl ErrUnknownKind, e))"

definition is_due :: "instant \<Rightarrow> Schedule \<Rightarrow> bool" where
  "is_due now s \<longleftrightarrow> sc_Enabled s \<and> \<not> (sc_NextFire s = 0 \<or> sc_NextFire s > now)"

fun tick_loop :: "fraction \<Rightarrow> instant \<Rightarrow> Schedule list \<Rightarrow> string list \<Rightarrow> engine \<Rightarrow> (schedule_error + string list) \<times> engine" where
  "tick_loop fr now [] fired e = (Inr (sort fired), e)"
| "tick_loop fr now (s # ss) fired e =
     (if \<not> is_due now s then tick_loop fr now ss fired e
      else case nextAfter fr s now e of
        (Inl x, e) \<Rightarrow> (Inl x, e)
      | (Inr t, e) \<Rightarrow>
          (case ProviderUpdate (s\<lparr>sc_LastFire := Some now, sc_NextFire := t\<rparr>) (eg_prov e) of
             (Inl x, m) \<Rightarrow> (Inl x, e\<lparr>eg_prov := m\<rparr>)
           | (Inr _, m) \<Rightarrow> tick_loop fr now ss (fired @ [sc_ID s]) (e\<lparr>eg_prov := m\<rparr>)))"

definition EngineTick :: "fraction \<Rightarrow> instant \<Rightarrow> engine \<Rightarrow> (schedule_error + string list) \<times> engine" where
  "EngineTick fr now e =
     (if eg_closed e then (Inl ErrEngineClosed, e)
      else case ProviderList (eg_prov e) of
        Inl x \<Rightarrow> (Inl x, e)
      | Inr all \<Rightarrow> tick_loop fr now all [] e)"

definition EngineClose :: "engine \<Rightarrow> engine" where
  "EngineClose e = (if eg_closed e then e else e\<lparr>eg_closed := True, eg_prov := ProviderClose (eg_prov e)\<rparr>)"

section \<open>Well-formed engines\<close>

definition cache_ok :: "(string \<times> Schedule) list \<Rightarrow> (string \<times> cronExpr) list \<Rightarrow> bool" where
  "cache_ok ss xs \<longleftrightarrow> (\<forall>i x. map_of xs i = Some x \<longrightarrow>
     (\<exists>s. map_of ss i = Some s \<and> sc_Kind s = ''cron'' \<and> parse_cron (sc_Spec s) = Inr x))"

definition ids_ok :: "(string \<times> Schedule) list \<Rightarrow> nat \<Rightarrow> bool" where
  "ids_ok ss n \<longleftrightarrow> wf_map ss \<and> (\<forall>i s. map_of ss i = Some s \<longrightarrow> sc_ID s = i \<and> (\<exists>k. 1 \<le> k \<and> k \<le> n \<and> i = sched_id k))"

definition engine_wf :: "engine \<Rightarrow> bool" where
  "engine_wf e \<longleftrightarrow> ids_ok (pv_schedules (eg_prov e)) (pv_nextID (eg_prov e)) \<and> cache_ok (pv_schedules (eg_prov e)) (eg_exprs e)"

lemma engine_wf_new: "engine_wf NewScheduleEngine"
  by (simp add: engine_wf_def ids_ok_def cache_ok_def NewScheduleEngine_def newScheduleProvider_def)

lemma ids_ok_fresh: "ids_ok ss n \<Longrightarrow> map_of ss (sched_id (Suc n)) = None"
proof (rule ccontr)
  assume "ids_ok ss n" "map_of ss (sched_id (Suc n)) \<noteq> None"
  then obtain k where "k \<le> n" "sched_id (Suc n) = sched_id k" unfolding ids_ok_def by blast
  then show False by (simp add: sched_id_def)
qed

lemma ids_ok_add:
  assumes "ids_ok ss n" "sc_ID s = sched_id (Suc n)"
  shows "ids_ok (AList.update (sched_id (Suc n)) s ss) (Suc n)"
  unfolding ids_ok_def
proof (intro conjI allI impI)
  show "wf_map (AList.update (sched_id (Suc n)) s ss)" using assms(1) by (simp add: ids_ok_def)
  fix i q
  assume q: "map_of (AList.update (sched_id (Suc n)) s ss) i = Some q"
  show "sc_ID q = i" using q assms by (cases "i = sched_id (Suc n)") (auto simp: ids_ok_def)
  show "\<exists>k. 1 \<le> k \<and> k \<le> Suc n \<and> i = sched_id k"
  proof (cases "i = sched_id (Suc n)")
    case False
    then have "map_of ss i = Some q" using q by simp
    then obtain k where "1 \<le> k" "k \<le> n" "i = sched_id k" using assms(1) unfolding ids_ok_def by blast
    then show ?thesis by (intro exI [of _ k]) simp
  qed (intro exI [of _ "Suc n"], simp)
qed

lemma ids_ok_update:
  assumes "ids_ok ss n" "map_of ss i = Some s" "sc_ID q = i"
  shows "ids_ok (AList.update i q ss) n"
  unfolding ids_ok_def
proof (intro conjI allI impI)
  show "wf_map (AList.update i q ss)" using assms(1) by (simp add: ids_ok_def)
  fix j r
  assume r: "map_of (AList.update i q ss) j = Some r"
  show "sc_ID r = j" using r assms by (cases "j = i") (auto simp: ids_ok_def)
  have "\<exists>r'. map_of ss j = Some r'" using r assms(2) by (cases "j = i") auto
  then show "\<exists>k. 1 \<le> k \<and> k \<le> n \<and> j = sched_id k" using assms(1) unfolding ids_ok_def by blast
qed

lemma ids_ok_delete: "ids_ok ss n \<Longrightarrow> ids_ok (AList.delete i ss) n"
  by (simp add: ids_ok_def)

lemma ids_ok_id: "ids_ok ss n \<Longrightarrow> map_of ss i = Some s \<Longrightarrow> sc_ID s = i"
  by (simp add: ids_ok_def)

lemma cache_ok_I:
  "(\<And>i x. map_of xs i = Some x \<Longrightarrow> \<exists>s. map_of ss i = Some s \<and> sc_Kind s = ''cron'' \<and> parse_cron (sc_Spec s) = Inr x) \<Longrightarrow> cache_ok ss xs"
  unfolding cache_ok_def by blast

lemma cache_ok_D:
  assumes "cache_ok ss xs" "map_of xs i = Some x"
  obtains s where "map_of ss i = Some s" "sc_Kind s = ''cron''" "parse_cron (sc_Spec s) = Inr x"
  using assms unfolding cache_ok_def by blast

lemma cache_ok_add:
  assumes "cache_ok ss xs" "map_of ss i = None"
  shows "cache_ok (AList.update i s ss) xs"
proof (rule cache_ok_I)
  fix j x
  assume "map_of xs j = Some x"
  then obtain r where r: "map_of ss j = Some r" "sc_Kind r = ''cron''" "parse_cron (sc_Spec r) = Inr x" using cache_ok_D [OF assms(1)] by blast
  then have "j \<noteq> i" using assms(2) by auto
  then show "\<exists>s'. map_of (AList.update i s ss) j = Some s' \<and> sc_Kind s' = ''cron'' \<and> parse_cron (sc_Spec s') = Inr x" using r by simp
qed

lemma cache_ok_learn:
  "cache_ok ss xs \<Longrightarrow> map_of ss i = Some s \<Longrightarrow> sc_Kind s = ''cron'' \<Longrightarrow> parse_cron (sc_Spec s) = Inr x \<Longrightarrow> cache_ok ss (AList.update i x xs)"
  by (simp add: cache_ok_def)

lemma cache_ok_update:
  "cache_ok ss xs \<Longrightarrow> map_of ss i = Some s \<Longrightarrow> sc_Kind q = sc_Kind s \<Longrightarrow> sc_Spec q = sc_Spec s \<Longrightarrow> cache_ok (AList.update i q ss) xs"
proof (rule cache_ok_I)
  fix j x
  assume a: "cache_ok ss xs" "map_of ss i = Some s" "sc_Kind q = sc_Kind s" "sc_Spec q = sc_Spec s" "map_of xs j = Some x"
  then obtain r where "map_of ss j = Some r" "sc_Kind r = ''cron''" "parse_cron (sc_Spec r) = Inr x" using cache_ok_D by blast
  then show "\<exists>s'. map_of (AList.update i q ss) j = Some s' \<and> sc_Kind s' = ''cron'' \<and> parse_cron (sc_Spec s') = Inr x"
    using a by (cases "j = i") auto
qed

lemma cache_ok_delete: "cache_ok ss xs \<Longrightarrow> cache_ok (AList.delete i ss) (AList.delete i xs)"
  by (simp add: cache_ok_def)

lemma first_fire_kind: "first_fire fr now kind spec = Inr (t, Some x) \<Longrightarrow> kind = ''cron'' \<and> parse_cron spec = Inr x"
  by (auto simp: first_fire_def split: if_splits sum.splits option.splits)

lemma wf_add:
  assumes "engine_wf e"
  shows "engine_wf (snd (EngineAdd fr now kind spec payload e))"
proof (cases "eg_closed e \<or> isl (first_fire fr now kind spec) \<or> pv_closed (eg_prov e)")
  case True
  then show ?thesis using assms
    by (auto simp: EngineAdd_def ProviderCreate_def split: sum.splits prod.splits)
next
  case False
  obtain t x where f: "first_fire fr now kind spec = Inr (t, x)" using False by (cases "first_fire fr now kind spec") auto
  let ?ss = "pv_schedules (eg_prov e)" and ?n = "pv_nextID (eg_prov e)"
  define s where "s = \<lparr>sc_ID = sched_id (Suc ?n), sc_Kind = kind, sc_Spec = spec, sc_Payload = payload, sc_Enabled = True,
    sc_CreatedAt = now, sc_LastFire = None, sc_NextFire = t\<rparr>"
  define xs where "xs = (case x of None \<Rightarrow> eg_exprs e | Some c \<Rightarrow> AList.update (sched_id (Suc ?n)) c (eg_exprs e))"
  have e: "snd (EngineAdd fr now kind spec payload e) =
    e\<lparr>eg_prov := (eg_prov e)\<lparr>pv_nextID := Suc ?n, pv_schedules := AList.update (sched_id (Suc ?n)) s ?ss\<rparr>, eg_exprs := xs\<rparr>"
    using False f by (cases x) (simp_all add: EngineAdd_def ProviderCreate_def s_def xs_def Let_def)
  have wf: "ids_ok ?ss ?n" "cache_ok ?ss (eg_exprs e)" using assms by (simp_all add: engine_wf_def)
  note added = cache_ok_add [OF wf(2) ids_ok_fresh [OF wf(1)], of s]
  have "cache_ok (AList.update (sched_id (Suc ?n)) s ?ss) xs"
  proof (cases x)
    case None
    then show ?thesis using added by (simp add: xs_def)
  next
    case (Some c)
    then have "kind = ''cron''" "parse_cron spec = Inr c" using first_fire_kind f by blast+
    then have "sc_Kind s = ''cron''" "parse_cron (sc_Spec s) = Inr c" by (simp_all add: s_def)
    moreover have "map_of (AList.update (sched_id (Suc ?n)) s ?ss) (sched_id (Suc ?n)) = Some s" by simp
    ultimately show ?thesis using Some cache_ok_learn [OF added] by (simp add: xs_def del: map_of_update)
  qed
  moreover have "ids_ok (AList.update (sched_id (Suc ?n)) s ?ss) (Suc ?n)" by (rule ids_ok_add [OF wf(1)]) (simp add: s_def)
  ultimately show ?thesis unfolding e by (simp add: engine_wf_def)
qed

lemma wf_remove: "engine_wf e \<Longrightarrow> engine_wf (snd (EngineRemove i e))"
  by (auto simp: EngineRemove_def ProviderDelete_def engine_wf_def intro: ids_ok_delete cache_ok_delete)

lemma exprFor_spec:
  assumes "engine_wf e" "map_of (pv_schedules (eg_prov e)) i = Some s" "sc_Kind s = ''cron''"
  shows "fst (exprFor i (sc_Spec s) e) = (case parse_cron (sc_Spec s) of Inl _ \<Rightarrow> Inl ErrInvalidSpec | Inr x \<Rightarrow> Inr x) \<and>
    eg_prov (snd (exprFor i (sc_Spec s) e)) = eg_prov e \<and> eg_closed (snd (exprFor i (sc_Spec s) e)) = eg_closed e \<and>
    engine_wf (snd (exprFor i (sc_Spec s) e))"
proof (cases "map_of (eg_exprs e) i")
  case None
  then show ?thesis using assms
    by (cases "parse_cron (sc_Spec s)") (auto simp: exprFor_def engine_wf_def intro: cache_ok_learn)
next
  case (Some x)
  then have "parse_cron (sc_Spec s) = Inr x" using assms unfolding engine_wf_def cache_ok_def by fastforce
  then show ?thesis using Some assms(1) by (simp add: exprFor_def)
qed

text \<open>The next fire time of a schedule, without the cache.\<close>

definition next_fire :: "fraction \<Rightarrow> Schedule \<Rightarrow> instant \<Rightarrow> schedule_error + instant" where
  "next_fire fr s now =
     (if sc_Kind s = ''interval'' then (case parseIntervalSpec fr (sc_Spec s) of Inl x \<Rightarrow> Inl x | Inr d \<Rightarrow> Inr (now + d))
      else if sc_Kind s = ''cron'' then
        (case parse_cron (sc_Spec s) of
           Inl _ \<Rightarrow> Inl ErrInvalidSpec
         | Inr x \<Rightarrow> (case cron_next x now of None \<Rightarrow> Inl ErrNoOccurrence | Some t \<Rightarrow> Inr t))
      else Inl ErrUnknownKind)"

lemma nextAfter_spec:
  assumes "engine_wf e" "map_of (pv_schedules (eg_prov e)) (sc_ID s) = Some s"
  shows "\<exists>e'. nextAfter fr s now e = (next_fire fr s now, e') \<and> eg_prov e' = eg_prov e \<and> eg_closed e' = eg_closed e \<and> engine_wf e'"
proof (cases "sc_Kind s = ''cron''")
  case True
  obtain r e' where r: "exprFor (sc_ID s) (sc_Spec s) e = (r, e')" by fastforce
  note spec = exprFor_spec [OF assms True, unfolded r]
  then show ?thesis using True r by (cases "parse_cron (sc_Spec s)") (auto simp: nextAfter_def next_fire_def)
next
  case False
  then show ?thesis using assms(1) by (simp add: nextAfter_def next_fire_def)
qed

lemma next_fire_later: "next_fire fr s now = Inr t \<Longrightarrow> 0 \<le> now \<Longrightarrow> now < t"
  by (auto simp: next_fire_def parseIntervalSpec_def dest: next_found(1) split: if_splits sum.splits option.splits)

text \<open>A schedule that fired.\<close>

definition fired_at :: "fraction \<Rightarrow> instant \<Rightarrow> Schedule \<Rightarrow> Schedule \<Rightarrow> bool" where
  "fired_at fr now s s' \<longleftrightarrow> (\<exists>t. next_fire fr s now = Inr t \<and> s' = s\<lparr>sc_LastFire := Some now, sc_NextFire := t\<rparr>)"

definition ticked :: "fraction \<Rightarrow> instant \<Rightarrow> Schedule list \<Rightarrow> (string \<Rightarrow> Schedule option) \<Rightarrow> (string \<Rightarrow> Schedule option) \<Rightarrow> bool" where
  "ticked fr now ss f g \<longleftrightarrow> (\<forall>i. i \<notin> sc_ID ` set (filter (is_due now) ss) \<longrightarrow> g i = f i) \<and>
     (\<forall>s \<in> set ss. is_due now s \<longrightarrow> (\<exists>s'. g (sc_ID s) = Some s' \<and> fired_at fr now s s'))"

lemma wf_update:
  assumes "engine_wf e" "map_of (pv_schedules (eg_prov e)) (sc_ID s) = Some s"
  shows "engine_wf (e\<lparr>eg_prov := (eg_prov e)\<lparr>pv_schedules :=
    AList.update (sc_ID s) (s\<lparr>sc_LastFire := l, sc_NextFire := t\<rparr>) (pv_schedules (eg_prov e))\<rparr>\<rparr>)"
  using assms ids_ok_update [OF _ assms(2)] cache_ok_update [OF _ assms(2)] by (simp add: engine_wf_def)

definition tick_ok :: "fraction \<Rightarrow> instant \<Rightarrow> Schedule list \<Rightarrow> string list \<Rightarrow> engine \<Rightarrow> schedule_error + string list \<Rightarrow> engine \<Rightarrow> bool" where
  "tick_ok fr now ss fired e r e' \<longleftrightarrow> engine_wf e' \<and> eg_closed e' = eg_closed e \<and> pv_closed (eg_prov e') = pv_closed (eg_prov e) \<and>
     (\<forall>out. r = Inr out \<longrightarrow> out = sort (fired @ map sc_ID (filter (is_due now) ss)) \<and>
       ticked fr now ss (map_of (pv_schedules (eg_prov e))) (map_of (pv_schedules (eg_prov e'))))"

lemma tick_loop_spec:
  assumes "engine_wf e" "\<not> pv_closed (eg_prov e)" "distinct (map sc_ID ss)"
    "\<forall>s \<in> set ss. map_of (pv_schedules (eg_prov e)) (sc_ID s) = Some s"
  shows "\<exists>r e'. tick_loop fr now ss fired e = (r, e') \<and> tick_ok fr now ss fired e r e'"
  using assms
proof (induction ss arbitrary: fired e)
  case Nil
  then show ?case by (simp add: tick_ok_def ticked_def)
next
  case (Cons s ss)
  show ?case
  proof (cases "is_due now s")
    case False
    have "\<exists>r e'. tick_loop fr now ss fired e = (r, e') \<and> tick_ok fr now ss fired e r e'"
      by (rule Cons.IH [OF Cons.prems(1,2)]) (use Cons.prems(3,4) in simp_all)
    moreover have "tick_ok fr now (s # ss) fired e r e' = tick_ok fr now ss fired e r e'" for r e'
      using False by (simp add: tick_ok_def ticked_def)
    ultimately show ?thesis using False by simp
  next
    case True
    have s: "map_of (pv_schedules (eg_prov e)) (sc_ID s) = Some s" using Cons.prems(4) by simp
    obtain e1 where e1: "nextAfter fr s now e = (next_fire fr s now, e1)" "eg_prov e1 = eg_prov e" "eg_closed e1 = eg_closed e" "engine_wf e1"
      using nextAfter_spec [OF Cons.prems(1) s] by blast
    show ?thesis
    proof (cases "next_fire fr s now")
      case (Inl x)
      then show ?thesis using True e1 by (simp add: tick_ok_def)
    next
      case (Inr t)
      define s' where "s' = s\<lparr>sc_LastFire := Some now, sc_NextFire := t\<rparr>"
      define e2 where "e2 = e1\<lparr>eg_prov := (eg_prov e1)\<lparr>pv_schedules := AList.update (sc_ID s) s' (pv_schedules (eg_prov e1))\<rparr>\<rparr>"
      have step: "tick_loop fr now (s # ss) fired e = tick_loop fr now ss (fired @ [sc_ID s]) e2"
        using True e1(1,2) Inr Cons.prems(2) s by (simp add: ProviderUpdate_def s'_def e2_def)
      have wf: "engine_wf e2" unfolding e2_def s'_def using wf_update [OF e1(4)] s e1(2) by simp
      have maps: "map_of (pv_schedules (eg_prov e2)) = (map_of (pv_schedules (eg_prov e)))(sc_ID s \<mapsto> s')"
        by (simp add: e2_def e1(2))
      have "\<exists>r e'. tick_loop fr now ss (fired @ [sc_ID s]) e2 = (r, e') \<and> tick_ok fr now ss (fired @ [sc_ID s]) e2 r e'"
      proof (rule Cons.IH [OF wf])
        show "\<not> pv_closed (eg_prov e2)" "distinct (map sc_ID ss)" using Cons.prems(2,3) by (simp_all add: e2_def e1(2))
        show "\<forall>q \<in> set ss. map_of (pv_schedules (eg_prov e2)) (sc_ID q) = Some q"
        proof
          fix q
          assume q: "q \<in> set ss"
          then have "sc_ID q \<noteq> sc_ID s" using Cons.prems(3) by (metis distinct.simps(2) image_eqI list.map(2) list.set_map)
          moreover have "map_of (pv_schedules (eg_prov e)) (sc_ID q) = Some q" using Cons.prems(4) q by simp
          ultimately show "map_of (pv_schedules (eg_prov e2)) (sc_ID q) = Some q" unfolding maps by simp
        qed
      qed
      then obtain r e' where r: "tick_loop fr now ss (fired @ [sc_ID s]) e2 = (r, e')" "tick_ok fr now ss (fired @ [sc_ID s]) e2 r e'"
        by blast
      have keep: "ticked fr now (s # ss) (map_of (pv_schedules (eg_prov e))) g"
        if t: "ticked fr now ss ((map_of (pv_schedules (eg_prov e)))(sc_ID s \<mapsto> s')) g" for g
      proof -
        have "sc_ID s \<notin> sc_ID ` set (filter (is_due now) ss)" using Cons.prems(3) by auto
        then have "g (sc_ID s) = Some s'" using t unfolding ticked_def by simp
        moreover have "fired_at fr now s s'" using Inr by (simp add: fired_at_def s'_def)
        ultimately show ?thesis using t True unfolding ticked_def by auto
      qed
      have keys: "fired @ map sc_ID (filter (is_due now) (s # ss)) = (fired @ [sc_ID s]) @ map sc_ID (filter (is_due now) ss)"
        using True by simp
      have flags: "eg_closed e2 = eg_closed e" "pv_closed (eg_prov e2) = pv_closed (eg_prov e)" by (simp_all add: e2_def e1(2,3))
      have "tick_ok fr now (s # ss) fired e r e'"
        unfolding tick_ok_def
      proof (intro conjI allI impI)
        show "engine_wf e'" "eg_closed e' = eg_closed e" "pv_closed (eg_prov e') = pv_closed (eg_prov e)"
          using r(2) unfolding tick_ok_def flags by blast+
        fix out
        assume "r = Inr out"
        then have "out = sort ((fired @ [sc_ID s]) @ map sc_ID (filter (is_due now) ss))"
          "ticked fr now ss (map_of (pv_schedules (eg_prov e2))) (map_of (pv_schedules (eg_prov e')))"
          using r(2) unfolding tick_ok_def by blast+
        then show "out = sort (fired @ map sc_ID (filter (is_due now) (s # ss)))"
          "ticked fr now (s # ss) (map_of (pv_schedules (eg_prov e))) (map_of (pv_schedules (eg_prov e')))"
          using keep unfolding maps keys by blast+
      qed
      then show ?thesis unfolding step r(1) by blast
    qed
  qed
qed

end
