(* ===== verification/Schedule_Clock.thy ===== *)
theory Schedule_Clock
  imports Schedule_Engine "HOL-Library.Multiset"
begin

text \<open>
  Runs of the schedule engine: what every engine keeps, what a tick of the clock does, and the tick that
  loses what it fired.
\<close>

section \<open>Runs\<close>

datatype sched_op = SchedAdd instant string string string | SchedRemove string | SchedTick instant | SchedClose

fun sched_run :: "fraction \<Rightarrow> sched_op \<Rightarrow> engine \<Rightarrow> engine" where
  "sched_run fr (SchedAdd now kind spec payload) e = snd (EngineAdd fr now kind spec payload e)"
| "sched_run fr (SchedRemove i) e = snd (EngineRemove i e)"
| "sched_run fr (SchedTick now) e = snd (EngineTick fr now e)"
| "sched_run fr SchedClose e = EngineClose e"

definition engine_after :: "fraction \<Rightarrow> sched_op list \<Rightarrow> engine" where
  "engine_after fr ops = fold (sched_run fr) ops NewScheduleEngine"

definition listed :: "engine \<Rightarrow> Schedule list" where
  "listed e = sort_key sc_ID (vals (pv_schedules (eg_prov e)))"

lemma listed_ok:
  assumes "engine_wf e"
  shows "distinct (map sc_ID (listed e))" "s \<in> set (listed e) \<longleftrightarrow> map_of (pv_schedules (eg_prov e)) (sc_ID s) = Some s"
    "map_of (pv_schedules (eg_prov e)) i = Some s \<Longrightarrow> s \<in> set (listed e) \<and> sc_ID s = i"
proof -
  let ?ss = "pv_schedules (eg_prov e)"
  have wf: "wf_map ?ss" "\<And>i s. map_of ?ss i = Some s \<Longrightarrow> sc_ID s = i" using assms by (simp_all add: engine_wf_def ids_ok_def)
  have "map sc_ID (vals ?ss) = map fst ?ss"
    using wf by (auto simp: wf_map_def intro!: map_cong)
  then have "distinct (map sc_ID (vals ?ss))" using wf(1) unfolding wf_map_def by (simp only:)
  then show "distinct (map sc_ID (listed e))" unfolding listed_def
    by (metis mset_map mset_sort mset_eq_imp_distinct_iff)
  show in_list: "s \<in> set (listed e) \<longleftrightarrow> map_of ?ss (sc_ID s) = Some s" for s
  proof
    assume "s \<in> set (listed e)"
    then obtain k where "(k, s) \<in> set ?ss" by (auto simp: listed_def)
    then have "map_of ?ss k = Some s" using wf(1) by (simp add: wf_map_def)
    then show "map_of ?ss (sc_ID s) = Some s" using wf(2) by simp
  next
    assume "map_of ?ss (sc_ID s) = Some s"
    then have "(sc_ID s, s) \<in> set ?ss" by (rule map_of_SomeD)
    then show "s \<in> set (listed e)" unfolding listed_def set_sort set_map by (rule rev_image_eqI) simp
  qed
  show "s \<in> set (listed e) \<and> sc_ID s = i" if "map_of ?ss i = Some s" for s i
    using wf(2) [OF that] in_list that by simp
qed

lemma tick_spec:
  assumes "engine_wf e" "EngineTick fr now e = (r, e')"
  shows "engine_wf e' \<and> eg_closed e' = eg_closed e \<and> (\<forall>out. r = Inr out \<longrightarrow> \<not> eg_closed e \<and> \<not> pv_closed (eg_prov e) \<and> tick_ok fr now (listed e) [] e r e')"
proof (cases "eg_closed e \<or> pv_closed (eg_prov e)")
  case True
  obtain x where "EngineTick fr now e = (Inl x, e)"
  proof (cases "eg_closed e")
    case True
    then show ?thesis using that [of ErrEngineClosed] by (simp add: EngineTick_def)
  next
    case False
    then have "pv_closed (eg_prov e)" using \<open>eg_closed e \<or> pv_closed (eg_prov e)\<close> by blast
    then show ?thesis using that [of ErrProviderClosed] False by (simp add: EngineTick_def ProviderList_def)
  qed
  then have "r = Inl x" "e' = e" using assms(2) by simp_all
  then show ?thesis using assms(1) by simp
next
  case False
  then have "tick_loop fr now (listed e) [] e = (r, e')"
    using assms(2) by (simp add: EngineTick_def ProviderList_def listed_def)
  moreover have "\<exists>r e'. tick_loop fr now (listed e) [] e = (r, e') \<and> tick_ok fr now (listed e) [] e r e'"
    by (rule tick_loop_spec [OF assms(1) _ listed_ok(1) [OF assms(1)]]) (use False listed_ok(2) [OF assms(1)] in blast)+
  ultimately have ok: "tick_ok fr now (listed e) [] e r e'" by auto
  then show ?thesis using False by (simp add: tick_ok_def)
qed

lemma run_wf: "engine_wf e \<Longrightarrow> engine_wf (sched_run fr op e)"
proof (cases op)
  case (SchedTick now)
  obtain r e' where "EngineTick fr now e = (r, e')" by fastforce
  then show "engine_wf e \<Longrightarrow> ?thesis" using SchedTick tick_spec by auto
next
  case SchedClose
  then show "engine_wf e \<Longrightarrow> ?thesis" by (simp add: EngineClose_def ProviderClose_def engine_wf_def)
qed (simp_all add: wf_add wf_remove)

lemma after_wf: "engine_wf (engine_after fr ops)"
proof -
  have "engine_wf e \<Longrightarrow> engine_wf (fold (sched_run fr) ops e)" for e
    by (induction ops arbitrary: e) (simp_all add: run_wf)
  then show ?thesis using engine_wf_new by (simp add: engine_after_def)
qed

lemma sort_filter_ids: "sort (map sc_ID (filter P (sort_key sc_ID xs))) = sort (map sc_ID (filter P xs))"
  by (rule properties_for_sort) simp_all

lemma no_due: "\<forall>s \<in> set ss. \<not> is_due now s \<Longrightarrow> tick_loop fr now ss fired e = (Inr (sort fired), e)"
  by (induction ss) simp_all

text \<open>
  C29: after any run a tick that succeeds reports exactly the enabled schedules due at its time, sorted; it
  marks each as fired now and moves it past now, leaves every other schedule alone, and a second tick at
  that time reports nothing.
\<close>

theorem tick_fires_due_once:
  assumes "e = engine_after fr ops" "0 \<le> now" "EngineTick fr now e = (Inr fired, e')"
  shows "fired = sort (map sc_ID (filter (is_due now) (vals (pv_schedules (eg_prov e))))) \<and>
    (\<forall>i s. map_of (pv_schedules (eg_prov e)) i = Some s \<longrightarrow> (\<exists>s'. map_of (pv_schedules (eg_prov e')) i = Some s' \<and>
       (if is_due now s then sc_LastFire s' = Some now \<and> now < sc_NextFire s' else s' = s))) \<and>
    fst (EngineTick fr now e') = Inr []"
proof -
  let ?f = "map_of (pv_schedules (eg_prov e))" and ?g = "map_of (pv_schedules (eg_prov e'))"
  have wf: "engine_wf e" using assms(1) after_wf by simp
  have ok: "tick_ok fr now (listed e) [] e (Inr fired) e'" and op: "\<not> eg_closed e" "\<not> pv_closed (eg_prov e)"
    using tick_spec [OF wf assms(3)] by blast+
  have t: "ticked fr now (listed e) ?f ?g" "fired = sort (map sc_ID (filter (is_due now) (listed e)))"
    and wf': "engine_wf e'" "\<not> eg_closed e'" "\<not> pv_closed (eg_prov e')"
    using ok op by (auto simp: tick_ok_def)
  have kept: "\<exists>s'. ?g i = Some s' \<and> (if is_due now s then sc_LastFire s' = Some now \<and> now < sc_NextFire s' else s' = s)"
    if "?f i = Some s" for i s
  proof -
    have s: "s \<in> set (listed e)" "sc_ID s = i" using listed_ok(3) [OF wf that] by blast+
    show ?thesis
    proof (cases "is_due now s")
      case True
      then obtain s' where "?g i = Some s'" "fired_at fr now s s'" using t(1) s unfolding ticked_def by blast
      then show ?thesis using True next_fire_later [OF _ assms(2)] by (auto simp: fired_at_def)
    next
      case False
      have "i \<notin> sc_ID ` set (filter (is_due now) (listed e))"
      proof
        assume "i \<in> sc_ID ` set (filter (is_due now) (listed e))"
        then obtain q where "q \<in> set (listed e)" "is_due now q" "sc_ID q = i" by auto
        then show False using listed_ok(2) [OF wf, of q] that False by simp
      qed
      then show ?thesis using t(1) that False unfolding ticked_def by simp
    qed
  qed
  have "\<not> is_due now s'" if "s' \<in> set (listed e')" for s'
  proof -
    have g: "?g (sc_ID s') = Some s'" using listed_ok(2) [OF wf'(1)] that by blast
    show ?thesis
    proof (cases "?f (sc_ID s')")
      case (Some s)
      then show ?thesis using kept [OF Some] g by (auto simp: is_due_def split: if_splits)
    next
      case None
      have "sc_ID s' \<notin> sc_ID ` set (filter (is_due now) (listed e))"
      proof
        assume "sc_ID s' \<in> sc_ID ` set (filter (is_due now) (listed e))"
        then obtain q where "q \<in> set (listed e)" "sc_ID q = sc_ID s'" by auto
        then show False using listed_ok(2) [OF wf, of q] None by simp
      qed
      then show ?thesis using t(1) None g unfolding ticked_def by simp
    qed
  qed
  then have "fst (EngineTick fr now e') = Inr []"
    using wf' no_due [of "listed e'" now fr "[]" e'] by (simp add: EngineTick_def ProviderList_def listed_def)
  moreover have "fired = sort (map sc_ID (filter (is_due now) (vals (pv_schedules (eg_prov e)))))"
    unfolding t(2) listed_def by (rule sort_filter_ids)
  ultimately show ?thesis using kept by blast
qed

text \<open>
  Fact: in every run the provider's records carry the ids they are stored under, all of them issued, and
  a cached expression is the one the record's specification parses to.
\<close>

theorem engine_cache_coherent:
  "\<forall>i s. map_of (pv_schedules (eg_prov (engine_after fr ops))) i = Some s \<longrightarrow> sc_ID s = i \<and>
     (\<forall>x. map_of (eg_exprs (engine_after fr ops)) i = Some x \<longrightarrow> parseCronSpec (sc_Spec s) = Some (Inr x))"
proof (intro allI impI conjI)
  fix i s
  assume s: "map_of (pv_schedules (eg_prov (engine_after fr ops))) i = Some s"
  note wf = after_wf [of fr ops]
  show "sc_ID s = i" using listed_ok(3) [OF wf s] by blast
  fix x
  assume x: "map_of (eg_exprs (engine_after fr ops)) i = Some x"
  obtain q where "map_of (pv_schedules (eg_prov (engine_after fr ops))) i = Some q" "parse_cron (sc_Spec q) = Inr x"
    using cache_ok_D [OF _ x] wf unfolding engine_wf_def by blast
  moreover obtain r where "parseCronSpec (sc_Spec s) = Some r" using parse_ends by blast
  ultimately show "parseCronSpec (sc_Spec s) = Some (Inr x)" using s by (simp add: parse_cron_def)
qed

section \<open>A tick that fails\<close>

definition before_leap :: instant where
  "before_leap = leap_2096 - minute"

definition two_schedules :: "sched_op list" where
  "two_schedules = [SchedAdd before_leap ''interval'' ''1m'' ''poll'', SchedAdd before_leap ''cron'' leap_day_spec ''leap'']"

lemma one_minute: "parse_duration fr ''1m'' = Some minute"
  by (simp add: parse_duration_def duration_part_def is_digit_def digit_val_def unit_char_def unit_ns_def)

lemma leap_first: "cron_next leap_day_expr before_leap = Some leap_2096"
proof -
  have "cron_scan (Suc n) leap_day_expr leap_2096 = Some leap_2096" for n by simp code_simp
  moreover have "cronScanHorizon = Suc 4204799" by (simp add: cronScanHorizon_def)
  ultimately have "cron_scan cronScanHorizon leap_day_expr leap_2096 = Some leap_2096" by metis
  moreover have "truncate_minute before_leap + minute = leap_2096" by code_simp
  ultimately show ?thesis by (simp add: cron_next_def)
qed

definition poll_schedule :: Schedule where
  "poll_schedule = \<lparr>sc_ID = ''sched-1'', sc_Kind = ''interval'', sc_Spec = ''1m'', sc_Payload = ''poll'', sc_Enabled = True,
     sc_CreatedAt = before_leap, sc_LastFire = None, sc_NextFire = leap_2096\<rparr>"

definition leap_schedule :: Schedule where
  "leap_schedule = \<lparr>sc_ID = ''sched-2'', sc_Kind = ''cron'', sc_Spec = leap_day_spec, sc_Payload = ''leap'', sc_Enabled = True,
     sc_CreatedAt = before_leap, sc_LastFire = None, sc_NextFire = leap_2096\<rparr>"

definition two_due :: engine where
  "two_due = \<lparr>eg_prov = \<lparr>pv_schedules = [(''sched-1'', poll_schedule), (''sched-2'', leap_schedule)], pv_nextID = 2, pv_closed = False\<rparr>,
     eg_exprs = [(''sched-2'', leap_day_expr)], eg_closed = False\<rparr>"

lemma sched_ids: "sched_id (Suc 0) = ''sched-1''" "sched_id 2 = ''sched-2''" "sched_id (Suc (Suc 0)) = ''sched-2''"
  by code_simp+

lemma two_after: "engine_after fr two_schedules = two_due"
proof -
  have parse: "parse_cron leap_day_spec = Inr leap_day_expr" by (simp add: parse_cron_def leap_day_parse)
  have "before_leap + minute = leap_2096" by (simp add: before_leap_def)
  then have first: "first_fire fr before_leap ''interval'' ''1m'' = Inr (leap_2096, None)"
    "first_fire fr before_leap ''cron'' leap_day_spec = Inr (leap_2096, Some leap_day_expr)"
    by (simp_all add: first_fire_def parseIntervalSpec_def one_minute parse leap_first)
  show ?thesis
    by (simp add: engine_after_def two_schedules_def EngineAdd_def first ProviderCreate_def NewScheduleEngine_def newScheduleProvider_def sched_ids
        two_due_def poll_schedule_def leap_schedule_def Let_def)
qed

lemma two_listed: "listed two_due = [poll_schedule, leap_schedule]"
proof -
  have "''sched-1'' < (''sched-2'' :: string)" by code_simp
  then show ?thesis by (simp add: listed_def two_due_def poll_schedule_def leap_schedule_def)
qed

definition polled :: Schedule where
  "polled = poll_schedule\<lparr>sc_LastFire := Some leap_2096, sc_NextFire := leap_2096 + minute\<rparr>"

lemma leap_2096_pos: "0 < leap_2096"
  by code_simp

lemma two_tick:
  "fst (EngineTick fr leap_2096 two_due) = Inl ErrNoOccurrence"
  "map_of (pv_schedules (eg_prov (snd (EngineTick fr leap_2096 two_due)))) ''sched-1'' = Some polled"
proof -
  have due: "is_due leap_2096 poll_schedule" "is_due leap_2096 leap_schedule"
    using leap_2096_pos by (simp_all add: is_due_def poll_schedule_def leap_schedule_def)
  have open_ids: "sc_ID poll_schedule = ''sched-1''" "sc_ID polled = ''sched-1''" "sc_Kind leap_schedule = ''cron''" "sc_ID leap_schedule = ''sched-2''"
    by (simp_all add: poll_schedule_def polled_def leap_schedule_def)
  have poll: "nextAfter fr poll_schedule leap_2096 two_due = (Inr (leap_2096 + minute), two_due)"
    by (simp add: nextAfter_def poll_schedule_def parseIntervalSpec_def one_minute)
  define e1 where "e1 = two_due\<lparr>eg_prov := (eg_prov two_due)\<lparr>pv_schedules := AList.update ''sched-1'' polled (pv_schedules (eg_prov two_due))\<rparr>\<rparr>"
  have up: "ProviderUpdate polled (eg_prov two_due) = (Inr polled, eg_prov e1)"
    by (simp add: ProviderUpdate_def open_ids e1_def two_due_def)
  have e1: "two_due\<lparr>eg_prov := eg_prov e1\<rparr> = e1" "map_of (eg_exprs e1) ''sched-2'' = Some leap_day_expr"
    by (simp_all add: e1_def two_due_def)
  have leap: "nextAfter fr leap_schedule leap_2096 e1 = (Inl ErrNoOccurrence, e1)"
    by (simp add: nextAfter_def open_ids exprFor_def e1(2) leap_day_none)
  have "tick_loop fr leap_2096 [poll_schedule, leap_schedule] [] two_due = (Inl ErrNoOccurrence, e1)"
    using due by (simp add: poll polled_def [symmetric] up e1(1) leap)
  moreover have "EngineTick fr leap_2096 two_due = tick_loop fr leap_2096 (listed two_due) [] two_due"
    by (simp add: EngineTick_def ProviderList_def listed_def two_due_def)
  ultimately have "EngineTick fr leap_2096 two_due = (Inl ErrNoOccurrence, e1)" by (simp add: two_listed)
  then show "fst (EngineTick fr leap_2096 two_due) = Inl ErrNoOccurrence"
    "map_of (pv_schedules (eg_prov (snd (EngineTick fr leap_2096 two_due)))) ''sched-1'' = Some polled"
    by (simp_all add: e1_def)
qed

text \<open>
  Fact: a tick stopped by one schedule loses what it fired before: the earlier schedule is marked as fired at
  that time and is no longer due, but the call returns an error and no ids.
\<close>

theorem tick_error_loses_firing:
  "\<exists>ops now s. fst (EngineTick fr now (engine_after fr ops)) = Inl ErrNoOccurrence \<and>
     map_of (pv_schedules (eg_prov (snd (EngineTick fr now (engine_after fr ops))))) ''sched-1'' = Some s \<and>
     sc_LastFire s = Some now \<and> \<not> is_due now s"
proof -
  have "sc_LastFire polled = Some leap_2096" "\<not> is_due leap_2096 polled" by (simp_all add: polled_def is_due_def)
  then show ?thesis using two_tick two_after by metis
qed

definition one_schedule :: "sched_op list" where
  "one_schedule = [SchedAdd 5 ''interval'' ''1m'' ''poll'']"

lemma one_tick: "fst (EngineTick fr 70000000000 (engine_after fr one_schedule)) = Inr [''sched-1'']"
  by (simp add: engine_after_def one_schedule_def EngineAdd_def first_fire_def parseIntervalSpec_def one_minute ProviderCreate_def
      NewScheduleEngine_def newScheduleProvider_def sched_ids Let_def EngineTick_def ProviderList_def is_due_def nextAfter_def ProviderUpdate_def)

definition scaled :: fraction where
  "scaled unit f scale = unit * f div scale"

lemma tick_fires_due_once_witness:
  "\<exists>s'. map_of (pv_schedules (eg_prov (snd (EngineTick scaled 70000000000 (engine_after scaled one_schedule))))) ''sched-1'' = Some s' \<and>
     sc_LastFire s' = Some 70000000000 \<and> 70000000000 < sc_NextFire s'"
proof -
  let ?e = "engine_after scaled one_schedule"
  obtain e' where t: "EngineTick scaled 70000000000 ?e = (Inr [''sched-1''], e')" using one_tick [of scaled] by (metis prod.collapse)
  obtain s where s: "map_of (pv_schedules (eg_prov ?e)) ''sched-1'' = Some s" "is_due 70000000000 s"
    by (simp add: engine_after_def one_schedule_def EngineAdd_def first_fire_def parseIntervalSpec_def one_minute ProviderCreate_def
        NewScheduleEngine_def newScheduleProvider_def sched_ids Let_def is_due_def)
  show ?thesis using tick_fires_due_once [OF refl _ t] s by (fastforce simp: t)
qed

end
