(* ===== verification/Schedule_Durable.thy ===== *)
theory Schedule_Durable
  imports Go_Time "HOL-Library.Product_Lexorder"
begin

text \<open>
  The durable reminders of a session, \<^verbatim>\<open>internal/schedule/durable.go\<close>: creating, deleting,
  listing, the due batch and its dispatch, all through one fold over changes, and the restore that folds
  the journal again. The journal is a verdict \<open>ok\<close> on each change, as for the inbox; what it accepted is
  kept in \<^verbatim>\<open>ds_log\<close> as history. Decoding the JSON of a change is the argument \<open>decode\<close>, and the
  time zones of the system are the argument \<open>zones\<close>: the offset at an instant and the span it holds for,
  in seconds.
\<close>

section \<open>Records and changes\<close>

record DurableRecord =
  dr_ID :: string
  dr_Kind :: string
  dr_Prompt :: string
  dr_AfterSeconds :: int
  dr_EverySeconds :: int
  dr_ScheduledAt :: instant

record LocalAtInput =
  la_Date :: string
  la_Time :: string
  la_TimeZone :: string

record DurableCreateRequest =
  cq_Prompt :: string
  cq_AfterSeconds :: "int option"
  cq_At :: string
  cq_AtLocal :: "LocalAtInput option"
  cq_EverySeconds :: "int option"

record DurableChange =
  dc_Version :: int
  dc_Operation :: string
  dc_Schedule :: "DurableRecord option"
  dc_ID :: string
  dc_AcceptedAt :: "instant option"

record DurableDue =
  du_Kind :: string
  du_Records :: "DurableRecord list"
  du_AcceptedAt :: instant

datatype durable_error =
    ErrDurableClosed | ErrInvalidPrompt | ErrInvalidSelector | ErrNotFuture | ErrInvalidTimeZone | ErrFrequencyTooHigh
  | ErrScheduleNotFound | ErrCorruptScheduleLog | ErrInvalidRule | ErrJournalRefused | DivideByZero

definition MinEverySeconds :: int where
  "MinEverySeconds = 300"

definition max_seconds :: int where
  "max_seconds = max_duration div second"

record DurableScheduler =
  ds_active :: "(string \<times> DurableRecord) list"
  ds_seen :: "string list"
  ds_order :: "string list"
  ds_nextID :: int
  ds_closed :: bool
  ds_log :: "DurableChange list"

definition NewDurableScheduler :: DurableScheduler where
  "NewDurableScheduler = \<lparr>ds_active = [], ds_seen = [], ds_order = [], ds_nextID = 0, ds_closed = False, ds_log = []\<rparr>"

section \<open>Times in text\<close>

definition digits_at :: "string \<Rightarrow> nat list \<Rightarrow> bool" where
  "digits_at s is \<longleftrightarrow> list_all (\<lambda>i. is_digit (s ! i)) is"

definition allDigits :: "string \<Rightarrow> bool" where
  "allDigits s \<longleftrightarrow> s \<noteq> [] \<and> list_all is_digit s"

definition sub_text :: "nat \<Rightarrow> nat \<Rightarrow> string \<Rightarrow> string" where
  "sub_text a b s = take (b - a) (drop a s)"

definition validOffsetDateTime :: "string \<Rightarrow> bool" where
  "validOffsetDateTime s =
     (if length s < 20 \<or> s ! 4 \<noteq> CHR ''-'' \<or> s ! 7 \<noteq> CHR ''-'' \<or> s ! 10 \<noteq> CHR ''T'' \<or> s ! 13 \<noteq> CHR '':'' \<or> s ! 16 \<noteq> CHR '':''
        then False
      else if \<not> digits_at s [0, 1, 2, 3, 5, 6, 8, 9, 11, 12, 14, 15, 17, 18] then False
      else
        let rest = drop 19 s; frac = takeWhile (\<lambda>c. c \<notin> {CHR ''Z'', CHR ''+'', CHR ''-''}) rest; zone = drop (length frac) rest
        in if zone = [] then False
           else if frac \<noteq> [] \<and> (hd frac \<noteq> CHR ''.'' \<or> length (tl frac) < 1 \<or> length (tl frac) > 3 \<or> \<not> allDigits (tl frac)) then False
           else if zone = ''Z'' then True
           else length zone = 6 \<and> (zone ! 0 = CHR ''+'' \<or> zone ! 0 = CHR ''-'') \<and> zone ! 3 = CHR '':'' \<and>
             allDigits (sub_text 1 3 zone) \<and> allDigits (sub_text 4 6 zone))"

definition num :: "nat \<Rightarrow> nat \<Rightarrow> string \<Rightarrow> nat" where
  "num a b s = digits_val 0 (sub_text a b s)"

text \<open>The digits after the point, to nanoseconds.\<close>

definition frac_ns :: "string \<Rightarrow> int" where
  "frac_ns digits = int (digits_val 0 digits) * 10 ^ (9 - length digits)"

text \<open>
  Seconds of a civil date and time from the zero time, when \<^verbatim>\<open>time.Parse\<close> takes its fields: a real
  date and a time below 24:00:00.
\<close>

definition civil_seconds :: "string \<Rightarrow> string \<Rightarrow> int option" where
  "civil_seconds date time =
     (let y = int (num 0 4 date); m = num 5 7 date; d = num 8 10 date; h = num 0 2 time; mi = num 3 5 time; s = num 6 8 time
      in if 1 \<le> m \<and> m \<le> 12 \<and> 1 \<le> d \<and> d \<le> days_in (leap_year y) m \<and> h < 24 \<and> mi < 60 \<and> s < 60
         then Some (date_day y m d * 86400 + int (h * 3600 + mi * 60 + s)) else None)"

text \<open>
  \<^verbatim>\<open>time.Parse(time.RFC3339Nano, _)\<close> on a text of the valid shape; the general parser allows an
  offset of 24 hours and of 60 minutes.
\<close>

definition parse_rfc3339 :: "string \<Rightarrow> instant option" where
  "parse_rfc3339 s =
     (let rest = drop 19 s; frac = takeWhile (\<lambda>c. c \<notin> {CHR ''Z'', CHR ''+'', CHR ''-''}) rest; zone = drop (length frac) rest;
          off = (if zone = ''Z'' then 0
                 else (if zone ! 0 = CHR ''-'' then -1 else 1) * (int (num 1 3 zone) * 3600 + int (num 4 6 zone) * 60))
      in case civil_seconds (take 10 s) (sub_text 11 19 s) of
           None \<Rightarrow> None
         | Some secs \<Rightarrow>
             if zone \<noteq> ''Z'' \<and> (num 1 3 zone > 24 \<or> num 4 6 zone > 60) then None
             else Some ((secs - off) * second + (if frac = [] then 0 else frac_ns (tl frac))))"

definition year_in_range :: "instant \<Rightarrow> bool" where
  "year_in_range t \<longleftrightarrow> \<not> (time_year t < 1 \<or> time_year t > 9999)"

definition parseFutureInstant :: "string \<Rightarrow> instant \<Rightarrow> durable_error + instant" where
  "parseFutureInstant value now =
     (let value = trim_space value
      in if \<not> validOffsetDateTime value then Inl ErrInvalidRule
         else case parse_rfc3339 value of
           None \<Rightarrow> Inl ErrInvalidRule
         | Some t \<Rightarrow>
             if \<not> year_in_range t then Inl ErrInvalidRule
             else if \<not> t > now then Inl ErrNotFuture
             else Inr t)"

type_synonym zones = "string \<Rightarrow> (int \<Rightarrow> int \<times> int \<times> int) option"

text \<open>\<^verbatim>\<open>time.Date\<close> in a zone: the offset in force at the civil seconds read as UTC, or at the guess it gives.\<close>

definition zone_instant :: "(int \<Rightarrow> int \<times> int \<times> int) \<Rightarrow> int \<Rightarrow> int" where
  "zone_instant zone unix =
     (case zone unix of (off, start, stop) \<Rightarrow>
        if off = 0 then unix
        else let utc = unix - off
             in if utc < start \<or> utc \<ge> stop then unix - fst (zone utc) else utc)"

definition parseFutureLocalInstant :: "zones \<Rightarrow> LocalAtInput \<Rightarrow> instant \<Rightarrow> durable_error + instant" where
  "parseFutureLocalInstant zones input now =
     (let date = la_Date input; time = la_Time input; tz = la_TimeZone input
      in if length date \<noteq> 10 \<or> date ! 4 \<noteq> CHR ''-'' \<or> date ! 7 \<noteq> CHR ''-'' \<or> \<not> digits_at date [0, 1, 2, 3, 5, 6, 8, 9]
           then Inl ErrInvalidRule
         else if length time < 8 \<or> length time > 12 \<or> time ! 2 \<noteq> CHR '':'' \<or> time ! 5 \<noteq> CHR '':'' \<or>
             (length time > 8 \<and> time ! 8 \<noteq> CHR ''.'') \<or> \<not> digits_at time [0, 1, 3, 4, 6, 7]
           then Inl ErrInvalidRule
         else if length time > 8 \<and> (length (drop 9 time) < 1 \<or> length (drop 9 time) > 3 \<or> \<not> allDigits (drop 9 time))
           then Inl ErrInvalidRule
         else if tz = [] \<or> trim_space tz \<noteq> tz \<or> (tz \<noteq> ''UTC'' \<and> CHR ''/'' \<notin> set tz) then Inl ErrInvalidTimeZone
         else case zones tz of
           None \<Rightarrow> Inl ErrInvalidTimeZone
         | Some zone \<Rightarrow>
             (case civil_seconds date time of
                None \<Rightarrow> Inl ErrInvalidRule
              | Some secs \<Rightarrow>
                  let unix = zone_instant zone secs
                  in if unix + fst (zone unix) \<noteq> secs then Inl ErrInvalidRule
                     else
                       let t = unix * second + (if length time > 8 then frac_ns (drop 9 time) else 0)
                       in if \<not> year_in_range t then Inl ErrInvalidRule
                          else if \<not> t > now then Inl ErrNotFuture
                          else Inr t))"

section \<open>The fold\<close>

text \<open>\<^verbatim>\<open>fmt.Sscanf(id, "schedule-%d", &n)\<close>: an integer after the prefix, whatever follows it.\<close>

definition scheduleSequence :: "string \<Rightarrow> int" where
  "scheduleSequence i =
     (if \<not> has_prefix i ''schedule-'' then 0
      else
        let r = dropWhile (\<lambda>c. is_space c \<and> c \<noteq> CHR 0x0A) (trim_prefix ''schedule-'' i);
            neg = (r \<noteq> [] \<and> hd r = CHR ''-'');
            r = (if r \<noteq> [] \<and> (hd r = CHR ''-'' \<or> hd r = CHR ''+'') then tl r else r);
            ds = takeWhile is_digit r
        in case atoi ((if neg then ''-'' else []) @ ds) of None \<Rightarrow> 0 | Some n \<Rightarrow> if ds = [] then 0 else n)"

text \<open>Division of 64-bit integers rounds towards zero.\<close>

definition go_div :: "int \<Rightarrow> int \<Rightarrow> int" where
  "go_div a b = sgn a * sgn b * (\<bar>a\<bar> div \<bar>b\<bar>)"

definition next_occurrence :: "DurableRecord \<Rightarrow> instant \<Rightarrow> durable_error + instant" where
  "next_occurrence r accepted =
     (let interval = wrap64 (dr_EverySeconds r * second); elapsed = time_sub accepted (dr_ScheduledAt r)
      in if interval = 0 then Inl DivideByZero
         else Inr (dr_ScheduledAt r + wrap64 (wrap64 (go_div elapsed interval + 1) * interval)))"

definition apply_create :: "DurableRecord \<Rightarrow> DurableScheduler \<Rightarrow> durable_error option \<times> DurableScheduler" where
  "apply_create r s =
     (if dr_ID r = [] \<or> trim_space (dr_Prompt r) = [] then (Some ErrCorruptScheduleLog, s)
      else if dr_ID r \<in> set (ds_seen s) then (Some ErrCorruptScheduleLog, s)
      else if dr_Kind r \<noteq> ''after'' \<and> dr_Kind r \<noteq> ''at'' \<and> dr_Kind r \<noteq> ''every'' then (Some ErrCorruptScheduleLog, s)
      else if dr_Kind r = ''every'' \<and> dr_EverySeconds r < MinEverySeconds then (Some ErrCorruptScheduleLog, s)
      else (None, s\<lparr>ds_seen := dr_ID r # ds_seen s, ds_order := ds_order s @ [dr_ID r],
                    ds_active := AList.update (dr_ID r) r (ds_active s),
                    ds_nextID := max (ds_nextID s) (scheduleSequence (dr_ID r))\<rparr>))"

definition apply_dispatch :: "string \<Rightarrow> instant option \<Rightarrow> DurableScheduler \<Rightarrow> durable_error option \<times> DurableScheduler" where
  "apply_dispatch i acceptedAt s =
     (case map_of (ds_active s) i of
        None \<Rightarrow> (Some ErrCorruptScheduleLog, s)
      | Some r \<Rightarrow>
          if dr_Kind r \<noteq> ''every'' then
            (if acceptedAt \<noteq> None then (Some ErrCorruptScheduleLog, s) else (None, s\<lparr>ds_active := AList.delete i (ds_active s)\<rparr>))
          else (case acceptedAt of
             None \<Rightarrow> (Some ErrCorruptScheduleLog, s)
           | Some t \<Rightarrow>
               if t < dr_ScheduledAt r then (Some ErrCorruptScheduleLog, s)
               else (case next_occurrence r t of
                  Inl x \<Rightarrow> (Some x, s)
                | Inr next \<Rightarrow> (None, s\<lparr>ds_active := AList.update i (r\<lparr>dr_ScheduledAt := next\<rparr>) (ds_active s)\<rparr>))))"

definition applyLocked :: "DurableChange \<Rightarrow> DurableScheduler \<Rightarrow> durable_error option \<times> DurableScheduler" where
  "applyLocked c s =
     (if dc_Version c \<noteq> 1 then (Some ErrCorruptScheduleLog, s)
      else if dc_Operation c = ''create'' then
        (case dc_Schedule c of None \<Rightarrow> (Some ErrCorruptScheduleLog, s) | Some r \<Rightarrow> apply_create r s)
      else if dc_Operation c = ''delete'' then
        (if map_of (ds_active s) (dc_ID c) = None then (Some ErrCorruptScheduleLog, s)
         else (None, s\<lparr>ds_active := AList.delete (dc_ID c) (ds_active s)\<rparr>))
      else if dc_Operation c = ''dispatch'' then apply_dispatch (dc_ID c) (dc_AcceptedAt c) s
      else (Some ErrCorruptScheduleLog, s))"

section \<open>Operations\<close>

definition appendLocked :: "(DurableChange \<Rightarrow> bool) \<Rightarrow> DurableChange \<Rightarrow> DurableScheduler \<Rightarrow> durable_error option \<times> DurableScheduler" where
  "appendLocked ok c s = (if ok c then (None, s\<lparr>ds_log := ds_log s @ [c]\<rparr>) else (Some ErrJournalRefused, s))"

text \<open>Append, then apply.\<close>

definition durable_change :: "(DurableChange \<Rightarrow> bool) \<Rightarrow> DurableChange \<Rightarrow> DurableScheduler \<Rightarrow> durable_error option \<times> DurableScheduler" where
  "durable_change ok c s = (case appendLocked ok c s of (Some x, s) \<Rightarrow> (Some x, s) | (None, s) \<Rightarrow> applyLocked c s)"

definition create_change :: "DurableRecord \<Rightarrow> DurableChange" where
  "create_change r = \<lparr>dc_Version = 1, dc_Operation = ''create'', dc_Schedule = Some r, dc_ID = [], dc_AcceptedAt = None\<rparr>"

definition delete_change :: "string \<Rightarrow> DurableChange" where
  "delete_change i = \<lparr>dc_Version = 1, dc_Operation = ''delete'', dc_Schedule = None, dc_ID = i, dc_AcceptedAt = None\<rparr>"

definition dispatch_change :: "string \<Rightarrow> instant option \<Rightarrow> DurableChange" where
  "dispatch_change i t = \<lparr>dc_Version = 1, dc_Operation = ''dispatch'', dc_Schedule = None, dc_ID = i, dc_AcceptedAt = t\<rparr>"

text \<open>The record a request asks for, still without an id.\<close>

definition requested :: "zones \<Rightarrow> DurableCreateRequest \<Rightarrow> instant \<Rightarrow> durable_error + DurableRecord" where
  "requested zones q now =
     (let prompt = trim_space (cq_Prompt q);
          at = trim_space (cq_At q) \<noteq> [];
          selectors = (if cq_AfterSeconds q \<noteq> None then 1 else 0) + (if at then 1 else 0) +
            (if cq_AtLocal q \<noteq> None then 1 else 0) + (if cq_EverySeconds q \<noteq> None then 1 else (0 :: nat));
          record = \<lparr>dr_ID = [], dr_Kind = ''after'', dr_Prompt = prompt, dr_AfterSeconds = 0, dr_EverySeconds = 0, dr_ScheduledAt = 0\<rparr>
      in if prompt = [] then Inl ErrInvalidPrompt
         else if selectors \<noteq> 1 then Inl ErrInvalidSelector
         else case cq_AfterSeconds q of
           Some n \<Rightarrow>
             if n \<le> 0 \<or> n > max_seconds then Inl ErrInvalidRule
             else Inr (record\<lparr>dr_AfterSeconds := n, dr_ScheduledAt := now + n * second\<rparr>)
         | None \<Rightarrow>
             if at then
               (case parseFutureInstant (cq_At q) now of
                  Inl e \<Rightarrow> Inl e | Inr t \<Rightarrow> Inr (record\<lparr>dr_Kind := ''at'', dr_ScheduledAt := t\<rparr>))
             else (case cq_AtLocal q of
                Some input \<Rightarrow>
                  (case parseFutureLocalInstant zones input now of
                     Inl e \<Rightarrow> Inl e | Inr t \<Rightarrow> Inr (record\<lparr>dr_Kind := ''at'', dr_ScheduledAt := t\<rparr>))
              | None \<Rightarrow>
                  (case cq_EverySeconds q of
                     Some n \<Rightarrow>
                       if n < MinEverySeconds \<or> n > max_seconds then Inl ErrFrequencyTooHigh
                       else Inr (record\<lparr>dr_Kind := ''every'', dr_EverySeconds := n, dr_ScheduledAt := now + n * second\<rparr>)
                   | None \<Rightarrow> Inr record)))"

text \<open>Counting up to an id not seen; one more try than ids seen is enough.\<close>

fun allocate_from :: "nat \<Rightarrow> string list \<Rightarrow> int \<Rightarrow> (string \<times> int) option" where
  "allocate_from 0 seen n = None"
| "allocate_from (Suc fuel) seen n =
     (let i = ''schedule-'' @ itoa (nat (n + 1)) in if i \<in> set seen then allocate_from fuel seen (n + 1) else Some (i, n + 1))"

definition DurableCreate ::
    "(DurableChange \<Rightarrow> bool) \<Rightarrow> zones \<Rightarrow> DurableCreateRequest \<Rightarrow> instant \<Rightarrow> DurableScheduler \<Rightarrow>
     ((durable_error + DurableRecord) \<times> DurableScheduler) option" where
  "DurableCreate ok zones q now s =
     (case requested zones q now of
        Inl e \<Rightarrow> Some (Inl e, s)
      | Inr r \<Rightarrow>
          if \<not> year_in_range (dr_ScheduledAt r) then Some (Inl ErrInvalidRule, s)
          else if ds_closed s then Some (Inl ErrDurableClosed, s)
          else case allocate_from (Suc (length (ds_seen s))) (ds_seen s) (ds_nextID s) of
            None \<Rightarrow> None
          | Some (i, n) \<Rightarrow>
              (case durable_change ok (create_change (r\<lparr>dr_ID := i\<rparr>)) (s\<lparr>ds_nextID := n\<rparr>) of
                 (Some e, s) \<Rightarrow> Some (Inl e, s)
               | (None, s) \<Rightarrow> Some (Inr (r\<lparr>dr_ID := i\<rparr>), s)))"

definition DurableDelete :: "(DurableChange \<Rightarrow> bool) \<Rightarrow> string \<Rightarrow> DurableScheduler \<Rightarrow> (durable_error + bool) \<times> DurableScheduler" where
  "DurableDelete ok i s =
     (if ds_closed s then (Inl ErrDurableClosed, s)
      else if map_of (ds_active s) i = None then (Inr False, s)
      else case durable_change ok (delete_change i) s of (Some e, s) \<Rightarrow> (Inl e, s) | (None, s) \<Rightarrow> (Inr True, s))"

definition active_in_order :: "DurableScheduler \<Rightarrow> DurableRecord list" where
  "active_in_order s = List.map_filter (map_of (ds_active s)) (ds_order s)"

definition DurableList :: "instant \<Rightarrow> DurableScheduler \<Rightarrow> durable_error + (DurableRecord \<times> string) list" where
  "DurableList now s =
     (if ds_closed s then Inl ErrDurableClosed
      else Inr (map (\<lambda>r. (r, if dr_ScheduledAt r > now then ''scheduled'' else ''overdue'')) (active_in_order s)))"

definition NextWake :: "DurableScheduler \<Rightarrow> durable_error + instant option" where
  "NextWake s =
     (if ds_closed s then Inl ErrDurableClosed
      else let next = fold (\<lambda>r next. if next = 0 \<or> dr_ScheduledAt r < next then dr_ScheduledAt r else next) (active_in_order s) 0
           in Inr (if next = 0 then None else Some next))"

fun indexOf :: "string list \<Rightarrow> string \<Rightarrow> nat" where
  "indexOf [] i = 0"
| "indexOf (x # xs) i = (if x = i then 0 else Suc (indexOf xs i))"

definition by_target :: "DurableScheduler \<Rightarrow> DurableRecord list \<Rightarrow> DurableRecord list" where
  "by_target s = sort_key (\<lambda>r. (dr_ScheduledAt r, indexOf (ds_order s) (dr_ID r)))"

definition Due :: "instant \<Rightarrow> DurableScheduler \<Rightarrow> durable_error + DurableDue option" where
  "Due now s =
     (if ds_closed s then Inl ErrDurableClosed
      else
        let overdue = filter (\<lambda>r. \<not> dr_ScheduledAt r > now) (active_in_order s);
            every = by_target s (filter (\<lambda>r. dr_Kind r = ''every'') overdue);
            oneShots = by_target s (filter (\<lambda>r. dr_Kind r \<noteq> ''every'') overdue)
        in if oneShots \<noteq> [] then Inr (Some \<lparr>du_Kind = dr_Kind (hd oneShots), du_Records = take 1 oneShots, du_AcceptedAt = now\<rparr>)
           else if every \<noteq> [] then Inr (Some \<lparr>du_Kind = ''every'', du_Records = every, du_AcceptedAt = now\<rparr>)
           else Inr None)"

fun dispatch_loop :: "(DurableChange \<Rightarrow> bool) \<Rightarrow> instant \<Rightarrow> DurableRecord list \<Rightarrow> DurableScheduler \<Rightarrow> durable_error option \<times> DurableScheduler" where
  "dispatch_loop ok accepted [] s = (None, s)"
| "dispatch_loop ok accepted (r # rs) s =
     (case map_of (ds_active s) (dr_ID r) of
        None \<Rightarrow> (Some ErrScheduleNotFound, s)
      | Some current \<Rightarrow>
          if dr_Kind current \<noteq> dr_Kind r \<or> dr_ScheduledAt current \<noteq> dr_ScheduledAt r then (Some ErrScheduleNotFound, s)
          else case durable_change ok (dispatch_change (dr_ID r) (if dr_Kind r = ''every'' then Some accepted else None)) s of
            (Some e, s) \<Rightarrow> (Some e, s)
          | (None, s) \<Rightarrow> dispatch_loop ok accepted rs s)"

definition Dispatch :: "(DurableChange \<Rightarrow> bool) \<Rightarrow> DurableDue \<Rightarrow> DurableScheduler \<Rightarrow> durable_error option \<times> DurableScheduler" where
  "Dispatch ok due s = (if ds_closed s then (Some ErrDurableClosed, s) else dispatch_loop ok (du_AcceptedAt due) (du_Records due) s)"

definition DurableClose :: "DurableScheduler \<Rightarrow> DurableScheduler" where
  "DurableClose s = s\<lparr>ds_closed := True\<rparr>"

fun restore_loop :: "('d \<Rightarrow> DurableChange option) \<Rightarrow> (string \<times> 'd) list \<Rightarrow> DurableScheduler \<Rightarrow> durable_error option \<times> DurableScheduler" where
  "restore_loop decode [] s = (None, s)"
| "restore_loop decode ((kind, data) # evs) s =
     (if kind \<noteq> ''schedule/change'' then restore_loop decode evs s
      else case decode data of
        None \<Rightarrow> (Some ErrCorruptScheduleLog, s)
      | Some c \<Rightarrow> (case applyLocked c s of (Some e, s) \<Rightarrow> (Some e, s) | (None, s) \<Rightarrow> restore_loop decode evs s))"

definition DurableRestore ::
    "('d \<Rightarrow> DurableChange option) \<Rightarrow> (string \<times> 'd) list \<Rightarrow> DurableScheduler \<Rightarrow> durable_error option \<times> DurableScheduler" where
  "DurableRestore decode evs s =
     (if ds_closed s then (Some ErrDurableClosed, s)
      else restore_loop decode evs (s\<lparr>ds_active := [], ds_seen := [], ds_order := [], ds_nextID := 0\<rparr>))"

end
