(* ===== verification/Journal.thy ===== *)
theory Journal
  imports Main
begin

text \<open>
  The contract of a projection kept by writing ahead: a change is noted in the journal before it is applied,
  and applying it reads and changes the projection only. Then the journal of a run folds to what the run
  has made of the projection, whatever else the state holds.
\<close>

locale journaled =
  fixes step :: "'c \<Rightarrow> 's \<Rightarrow> 'e option \<times> 's"
    and note_change :: "'c \<Rightarrow> 's \<Rightarrow> 's"
    and journal_of :: "'s \<Rightarrow> 'c list"
    and same :: "'s \<Rightarrow> 's \<Rightarrow> bool"
    and init :: 's
  assumes journal_init: "journal_of init = []"
    and same_init: "same init init"
    and journal_note: "journal_of (note_change c s) = journal_of s @ [c]"
    and journal_step: "journal_of (snd (step c s)) = journal_of s"
    and same_note: "same s t \<Longrightarrow> same (note_change c s) t"
    and same_step: "same s t \<Longrightarrow> step c s = (None, s') \<Longrightarrow> \<exists>t'. step c t = (None, t') \<and> same s' t'"
begin

primrec replays :: "'c list \<Rightarrow> 's \<Rightarrow> 's option" where
  "replays [] t = Some t"
| "replays (c # cs) t = (case step c t of (Some e, t') \<Rightarrow> None | (None, t') \<Rightarrow> replays cs t')"

lemma replays_snoc: "replays (cs @ [c]) t =
  (case replays cs t of None \<Rightarrow> None | Some u \<Rightarrow> (case step c u of (Some e, u') \<Rightarrow> None | (None, u') \<Rightarrow> Some u'))"
  by (induction cs arbitrary: t) (auto split: prod.split option.split)

definition replayed :: "'s \<Rightarrow> bool" where
  "replayed s \<longleftrightarrow> (\<exists>t. replays (journal_of s) init = Some t \<and> same s t)"

lemma replayed_init: "replayed init"
  by (simp add: replayed_def journal_init same_init)

lemma replayed_change:
  assumes "replayed s" "step c (note_change c s) = (None, s')"
  shows "replayed s'"
proof -
  obtain t where t: "replays (journal_of s) init = Some t" "same s t" using assms(1) by (auto simp: replayed_def)
  from same_step [OF same_note [OF t(2)] assms(2)] obtain t' where t': "step c t = (None, t')" "same s' t'" by blast
  have "journal_of s' = journal_of s @ [c]" using journal_step [of c "note_change c s"] assms(2) by (simp add: journal_note)
  then show ?thesis using t(1) t' by (simp add: replayed_def replays_snoc)
qed

lemma replayed_same: "replayed s \<Longrightarrow> journal_of s' = journal_of s \<Longrightarrow> (\<And>t. same s t \<Longrightarrow> same s' t) \<Longrightarrow> replayed s'"
  by (auto simp: replayed_def)

end

end
