(* ===== verification/Schedule_Reminders.thy ===== *)
theory Schedule_Reminders
  imports Schedule_Durable Journal "HOL-Library.Multiset"
begin

text \<open>
  Runs of the durable scheduler: the journal of every run folds back to its projection, a due batch can be
  dispatched and is then no longer due, and a recurring reminder keeps to its anchor.
\<close>

section \<open>Arithmetic of a recurring reminder\<close>

lemma go_div_pos: "0 \<le> a \<Longrightarrow> 0 < b \<Longrightarrow> go_div a b = a div b"
  by (cases "a = 0") (simp_all add: go_div_def)

lemma every_interval:
  assumes "MinEverySeconds \<le> n" "n \<le> max_seconds"
  shows "wrap64 (n * second) = n * second" "0 < n * second"
proof -
  have "n \<le> 9223372036" "300 \<le> n" using assms by (simp_all add: max_seconds_def max_duration_def MinEverySeconds_def)
  then show "wrap64 (n * second) = n * second" "0 < n * second" by (simp_all add: wrap64_id)
qed

lemma next_occurrence_exact:
  assumes "MinEverySeconds \<le> dr_EverySeconds r" "dr_EverySeconds r \<le> max_seconds" "dr_ScheduledAt r \<le> t"
    "t - dr_ScheduledAt r + dr_EverySeconds r * second < 2 ^ 63"
  shows "next_occurrence r t = Inr (dr_ScheduledAt r + ((t - dr_ScheduledAt r) div (dr_EverySeconds r * second) + 1) * (dr_EverySeconds r * second))"
proof -
  define k where "k = dr_EverySeconds r * second"
  define e where "e = t - dr_ScheduledAt r"
  have k: "wrap64 k = k" "0 < k" using every_interval [OF assms(1,2)] by (simp_all add: k_def)
  have e: "0 \<le> e" "e + k < 2 ^ 63" using assms(3,4) by (simp_all add: e_def k_def)
  have sub: "time_sub t (dr_ScheduledAt r) = e" using e k(2) by (simp add: time_sub_def max_duration_def e_def)
  have q: "0 \<le> e div k" using e(1) k(2) by (simp add: pos_imp_zdiv_nonneg_iff)
  have le: "e div k * k \<le> e" using div_mult_mod_eq [of e k] pos_mod_sign [OF k(2), of e] by linarith
  have "e div k * 1 \<le> e div k * k" using q k(2) by (intro mult_left_mono) simp_all
  then have qle: "e div k \<le> e" "0 \<le> e div k * k" using le q by linarith+
  have w1: "wrap64 (e div k + 1) = e div k + 1" using q qle e k(2) by (intro wrap64_id) linarith+
  moreover have "(e div k + 1) * k = e div k * k + k" by (simp add: distrib_right)
  ultimately have w2: "wrap64 ((e div k + 1) * k) = (e div k + 1) * k" using e k(2) le qle by (intro wrap64_id) linarith+
  show ?thesis using k sub w1 w2 go_div_pos [OF e(1) k(2)] unfolding next_occurrence_def e_def [symmetric] k_def [symmetric] by simp
qed

section \<open>Projections\<close>

definition record_ok :: "string \<Rightarrow> DurableRecord \<Rightarrow> bool" where
  "record_ok i r \<longleftrightarrow> dr_ID r = i \<and> (dr_Kind r = ''every'' \<longrightarrow> MinEverySeconds \<le> dr_EverySeconds r \<and> dr_EverySeconds r \<le> max_seconds)"

definition durable_wf :: "DurableScheduler \<Rightarrow> bool" where
  "durable_wf s \<longleftrightarrow> wf_map (ds_active s) \<and> (\<forall>i r. map_of (ds_active s) i = Some r \<longrightarrow> i \<in> set (ds_seen s) \<and> record_ok i r) \<and>
     set (ds_order s) = set (ds_seen s) \<and> distinct (ds_order s) \<and> 0 \<le> ds_nextID s"

definition same_projection :: "DurableScheduler \<Rightarrow> DurableScheduler \<Rightarrow> bool" where
  "same_projection s t \<longleftrightarrow> ds_active t = ds_active s \<and> ds_seen t = ds_seen s \<and> ds_order t = ds_order s \<and> ds_nextID t \<le> ds_nextID s"

lemma apply_same:
  assumes "same_projection s t" "applyLocked c s = (None, s')"
  shows "\<exists>t'. applyLocked c t = (None, t') \<and> same_projection s' t'"
proof -
  have eqs: "ds_active t = ds_active s" "ds_seen t = ds_seen s" "ds_order t = ds_order s" "ds_nextID t \<le> ds_nextID s"
    using assms(1) by (simp_all add: same_projection_def)
  show ?thesis
  proof (cases "dc_Operation c = ''create''")
    case True
    obtain r where r: "dc_Schedule c = Some r" "dc_Version c = 1" "apply_create r s = (None, s')"
      using assms(2) True by (auto simp: applyLocked_def split: if_splits option.splits)
    then show ?thesis using True eqs
      by (auto simp: applyLocked_def apply_create_def same_projection_def split: if_splits)
  next
    case False
    then show ?thesis using assms(2) eqs
      by (auto simp: applyLocked_def apply_dispatch_def same_projection_def split: if_splits option.splits sum.splits)
  qed
qed

lemma apply_log: "ds_log (snd (applyLocked c s)) = ds_log s" "ds_closed (snd (applyLocked c s)) = ds_closed s"
  by (simp_all add: applyLocked_def apply_create_def apply_dispatch_def split: option.split sum.split)

interpretation reminders: journaled applyLocked "\<lambda>c s. s\<lparr>ds_log := ds_log s @ [c]\<rparr>" ds_log same_projection NewDurableScheduler
proof unfold_locales
  show "\<exists>t'. applyLocked c t = (None, t') \<and> same_projection s' t'"
    if "same_projection s t" "applyLocked c s = (None, s')" for s t s' c
    by (rule apply_same [OF that])
qed (simp_all add: apply_log NewDurableScheduler_def same_projection_def)

text \<open>Restoring reads the schedule events of a session only.\<close>

lemma restore_filter: "restore_loop decode (filter (\<lambda>(k, _). k = ''schedule/change'') evs) s = restore_loop decode evs s"
  by (induction evs arbitrary: s) (auto split: prod.split option.split)

lemma restore_replays:
  assumes "\<And>c. decode (enc c) = Some c" "reminders.replays cs t = Some u"
  shows "restore_loop decode (map (\<lambda>c. (''schedule/change'', enc c)) cs) t = (None, u)"
  using assms(2) by (induction cs arbitrary: t) (auto simp: assms(1) split: prod.splits option.splits)

lemma change_replayed:
  assumes "reminders.replayed s" "durable_change ok c s = (None, s')"
  shows "reminders.replayed s'"
  by (rule reminders.replayed_change [OF assms(1), of c])
    (use assms(2) in \<open>auto simp: durable_change_def appendLocked_def split: if_splits\<close>)

lemma change_cases:
  assumes "fst (applyLocked c (s\<lparr>ds_log := ds_log s @ [c]\<rparr>)) = None"
  obtains "durable_change ok c s = (Some ErrJournalRefused, s)"
  | s' where "durable_change ok c s = (None, s')" "applyLocked c (s\<lparr>ds_log := ds_log s @ [c]\<rparr>) = (None, s')"
proof (cases "ok c")
  case True
  obtain s' where "applyLocked c (s\<lparr>ds_log := ds_log s @ [c]\<rparr>) = (None, s')" using assms by (metis prod.collapse)
  then show thesis using True that(2) by (simp add: durable_change_def appendLocked_def)
next
  case False
  then show thesis using that(1) by (simp add: durable_change_def appendLocked_def)
qed

section \<open>Operations keep it\<close>

lemma requested_ok:
  assumes "requested zones q now = Inr r"
  shows "trim_space (dr_Prompt r) = dr_Prompt r" "dr_Prompt r \<noteq> []" "dr_Kind r \<in> {''after'', ''at'', ''every''}"
    "dr_Kind r = ''every'' \<Longrightarrow> MinEverySeconds \<le> dr_EverySeconds r \<and> dr_EverySeconds r \<le> max_seconds"
  using assms by (auto simp: requested_def Let_def trim_space_idem split: if_splits option.splits sum.splits)

lemma allocate_fresh: "allocate_from fuel seen n = Some (i, m) \<Longrightarrow> i \<notin> set seen \<and> i \<noteq> [] \<and> n < m"
  by (induction fuel seen n rule: allocate_from.induct) (auto simp: Let_def split: if_splits)

lemma allocate_none: "allocate_from fuel seen n = None \<Longrightarrow> 0 \<le> n \<Longrightarrow> k < fuel \<Longrightarrow> ''schedule-'' @ itoa (nat (n + 1) + k) \<in> set seen"
proof (induction fuel seen n arbitrary: k rule: allocate_from.induct)
  case (2 fuel seen n)
  then have "''schedule-'' @ itoa (nat (n + 1)) \<in> set seen" "allocate_from fuel seen (n + 1) = None"
    by (auto simp: Let_def split: if_splits)
  then show ?case using 2 by (cases k) (auto simp: nat_add_distrib)
qed simp

lemma allocate_ends:
  assumes "0 \<le> n"
  shows "\<exists>i m. allocate_from (Suc (length seen)) seen n = Some (i, m)"
proof (rule ccontr)
  assume "\<not> ?thesis"
  then have none: "allocate_from (Suc (length seen)) seen n = None" by (cases "allocate_from (Suc (length seen)) seen n") auto
  let ?f = "\<lambda>k. ''schedule-'' @ itoa (nat (n + 1) + k)"
  have "?f ` {..<Suc (length seen)} \<subseteq> set seen" using allocate_none [OF none assms] by auto
  then have "card (?f ` {..<Suc (length seen)}) \<le> card (set seen)" by (rule card_mono [rotated]) simp
  moreover have "card (?f ` {..<Suc (length seen)}) = Suc (length seen)" by (subst card_image) (auto simp: inj_on_def)
  ultimately show False using card_length [of seen] by simp
qed

lemma wf_log: "durable_wf (s\<lparr>ds_log := l\<rparr>) = durable_wf s" "durable_wf (s\<lparr>ds_closed := b\<rparr>) = durable_wf s"
  by (simp_all add: durable_wf_def)

lemma apply_create_wf:
  assumes "durable_wf s" "dr_ID r \<notin> set (ds_seen s)" "dr_ID r \<noteq> []" "trim_space (dr_Prompt r) \<noteq> []"
    "dr_Kind r \<in> {''after'', ''at'', ''every''}" "dr_Kind r = ''every'' \<Longrightarrow> MinEverySeconds \<le> dr_EverySeconds r \<and> dr_EverySeconds r \<le> max_seconds"
  shows "\<exists>s'. applyLocked (create_change r) s = (None, s') \<and> durable_wf s'"
proof -
  define s' where "s' = s\<lparr>ds_seen := dr_ID r # ds_seen s, ds_order := ds_order s @ [dr_ID r],
    ds_active := AList.update (dr_ID r) r (ds_active s), ds_nextID := max (ds_nextID s) (scheduleSequence (dr_ID r))\<rparr>"
  have "applyLocked (create_change r) s = (None, s')"
    using assms by (auto simp: applyLocked_def create_change_def apply_create_def s'_def)
  moreover have "durable_wf s'" using assms unfolding durable_wf_def s'_def by (auto simp: record_ok_def)
  ultimately show ?thesis by blast
qed

lemma apply_delete_wf:
  assumes "durable_wf s" "map_of (ds_active s) i \<noteq> None"
  shows "\<exists>s'. applyLocked (delete_change i) s = (None, s') \<and> durable_wf s'"
proof -
  define s' where "s' = s\<lparr>ds_active := AList.delete i (ds_active s)\<rparr>"
  have "applyLocked (delete_change i) s = (None, s')"
    using assms(2) by (auto simp: applyLocked_def delete_change_def s'_def)
  moreover have "durable_wf s'" using assms(1) unfolding durable_wf_def s'_def by auto
  ultimately show ?thesis by blast
qed

lemma next_occurrence_some: "record_ok i r \<Longrightarrow> dr_Kind r = ''every'' \<Longrightarrow> \<exists>n. next_occurrence r t = Inr n"
  using every_interval [of "dr_EverySeconds r"] by (auto simp: record_ok_def next_occurrence_def Let_def)

lemma apply_dispatch_wf:
  assumes "durable_wf s" "map_of (ds_active s) i = Some r" "dr_Kind r = ''every'' \<Longrightarrow> dr_ScheduledAt r \<le> t"
  shows "\<exists>s'. applyLocked (dispatch_change i (if dr_Kind r = ''every'' then Some t else None)) s = (None, s') \<and> durable_wf s' \<and>
    ds_active s' = (if dr_Kind r = ''every'' then AList.update i (r\<lparr>dr_ScheduledAt := projr (next_occurrence r t)\<rparr>) (ds_active s) else AList.delete i (ds_active s))"
proof (cases "dr_Kind r = ''every''")
  case True
  have r: "record_ok i r" "i \<in> set (ds_seen s)" using assms(1,2) by (auto simp: durable_wf_def)
  obtain n where n: "next_occurrence r t = Inr n" using next_occurrence_some [OF r(1) True] by blast
  define s' where "s' = s\<lparr>ds_active := AList.update i (r\<lparr>dr_ScheduledAt := n\<rparr>) (ds_active s)\<rparr>"
  have "applyLocked (dispatch_change i (Some t)) s = (None, s')"
    using True n assms(2) assms(3) [OF True] by (simp add: applyLocked_def dispatch_change_def apply_dispatch_def s'_def)
  moreover have "durable_wf s'" using assms(1) r unfolding durable_wf_def s'_def by (auto simp: record_ok_def)
  ultimately show ?thesis using True n by (simp add: s'_def)
next
  case False
  define s' where "s' = s\<lparr>ds_active := AList.delete i (ds_active s)\<rparr>"
  have "applyLocked (dispatch_change i None) s = (None, s')"
    using False assms(2) by (simp add: applyLocked_def dispatch_change_def apply_dispatch_def s'_def)
  moreover have "durable_wf s'" using assms(1) unfolding durable_wf_def s'_def by auto
  ultimately show ?thesis using False by (simp add: s'_def)
qed

definition durable_inv :: "DurableScheduler \<Rightarrow> bool" where
  "durable_inv s \<longleftrightarrow> durable_wf s \<and> reminders.replayed s"

lemma durable_inv_new: "durable_inv NewDurableScheduler"
proof -
  have "durable_wf NewDurableScheduler" by (simp add: durable_wf_def NewDurableScheduler_def)
  then show ?thesis using reminders.replayed_init unfolding durable_inv_def by blast
qed

lemma durable_inv_bump: "durable_inv s \<Longrightarrow> ds_nextID s \<le> n \<Longrightarrow> durable_inv (s\<lparr>ds_nextID := n\<rparr>)"
  by (force simp: durable_inv_def durable_wf_def reminders.replayed_def same_projection_def)

lemma change_inv:
  assumes "durable_inv s" "\<And>u. ds_active u = ds_active s \<Longrightarrow> ds_seen u = ds_seen s \<Longrightarrow> durable_wf u \<Longrightarrow> \<exists>u'. applyLocked c u = (None, u') \<and> durable_wf u' \<and> P u'"
  obtains "durable_change ok c s = (Some ErrJournalRefused, s)" | s' where "durable_change ok c s = (None, s')" "durable_inv s'" "P s'"
proof -
  let ?u = "s\<lparr>ds_log := ds_log s @ [c]\<rparr>"
  have "durable_wf ?u" using assms(1) by (simp add: durable_inv_def wf_log)
  then obtain u' where u: "applyLocked c ?u = (None, u')" "durable_wf u'" "P u'" using assms(2) [of ?u] by auto
  then have "fst (applyLocked c ?u) = None" by simp
  then show thesis
  proof (cases rule: change_cases [of c s ok])
    case 1
    then show ?thesis by (rule that(1))
  next
    case (2 s')
    have "reminders.replayed s'" using change_replayed 2(1) assms(1) by (auto simp: durable_inv_def)
    then show ?thesis using that(2) 2 u by (auto simp: durable_inv_def)
  qed
qed

lemma create_inv:
  assumes "durable_inv s"
  obtains res s' where "DurableCreate ok zones q now s = Some (res, s')" "durable_inv s'"
    "\<And>r. res = Inr r \<Longrightarrow> dr_ID r \<notin> set (ds_seen s) \<and> map_of (ds_active s') (dr_ID r) = Some r"
proof (cases "requested zones q now")
  case (Inl e)
  then show ?thesis using that [of "Inl e" s] assms by (simp add: DurableCreate_def)
next
  case (Inr r)
  note req = requested_ok [OF Inr]
  consider "\<not> year_in_range (dr_ScheduledAt r)" | "ds_closed s" "year_in_range (dr_ScheduledAt r)" | "\<not> ds_closed s" "year_in_range (dr_ScheduledAt r)" by blast
  then show ?thesis
  proof cases
    case 1
    then show ?thesis using that [of "Inl ErrInvalidRule" s] assms Inr by (simp add: DurableCreate_def)
  next
    case 2
    then show ?thesis using that [of "Inl ErrDurableClosed" s] assms Inr by (simp add: DurableCreate_def)
  next
    case 3
    have "0 \<le> ds_nextID s" using assms by (simp add: durable_inv_def durable_wf_def)
    then obtain i n where a: "allocate_from (Suc (length (ds_seen s))) (ds_seen s) (ds_nextID s) = Some (i, n)" using allocate_ends by blast
    then have i: "i \<notin> set (ds_seen s)" "i \<noteq> []" "ds_nextID s < n" using allocate_fresh by blast+
    define r' where "r' = r\<lparr>dr_ID := i\<rparr>"
    have inv1: "durable_inv (s\<lparr>ds_nextID := n\<rparr>)" using durable_inv_bump [OF assms] i(3) by simp
    have run: "DurableCreate ok zones q now s = (case durable_change ok (create_change r') (s\<lparr>ds_nextID := n\<rparr>) of
        (Some e, s) \<Rightarrow> Some (Inl e, s) | (None, s) \<Rightarrow> Some (Inr r', s))"
      using 3 Inr a unfolding DurableCreate_def r'_def by (simp del: allocate_from.simps)
    have ap: "\<exists>u'. applyLocked (create_change r') u = (None, u') \<and> durable_wf u' \<and> map_of (ds_active u') i = Some r'"
      if u: "ds_seen u = ds_seen s" "durable_wf u" for u
    proof -
      have "\<exists>u'. applyLocked (create_change r') u = (None, u') \<and> durable_wf u'"
        using u i(1,2) req by (intro apply_create_wf) (auto simp: r'_def)
      then obtain u' where u': "applyLocked (create_change r') u = (None, u')" "durable_wf u'" by blast
      then have "map_of (ds_active u') i = Some r'"
        by (auto simp: applyLocked_def create_change_def apply_create_def r'_def split: if_splits)
      then show ?thesis using u' by blast
    qed
    show ?thesis
    proof (rule change_inv [OF inv1, of "create_change r'" "\<lambda>u. map_of (ds_active u) i = Some r'" ok])
      show "\<exists>u'. applyLocked (create_change r') u = (None, u') \<and> durable_wf u' \<and> map_of (ds_active u') i = Some r'"
        if "ds_active u = ds_active (s\<lparr>ds_nextID := n\<rparr>)" "ds_seen u = ds_seen (s\<lparr>ds_nextID := n\<rparr>)" "durable_wf u" for u
        using that ap by simp
    next
      assume "durable_change ok (create_change r') (s\<lparr>ds_nextID := n\<rparr>) = (Some ErrJournalRefused, s\<lparr>ds_nextID := n\<rparr>)"
      then show ?thesis using that [of "Inl ErrJournalRefused" "s\<lparr>ds_nextID := n\<rparr>"] run inv1 by simp
    next
      fix s'
      assume "durable_change ok (create_change r') (s\<lparr>ds_nextID := n\<rparr>) = (None, s')" "durable_inv s'" "map_of (ds_active s') i = Some r'"
      then show ?thesis using that [of "Inr r'" s'] run i(1) by (simp add: r'_def)
    qed
  qed
qed

lemma delete_inv: "durable_inv s \<Longrightarrow> durable_inv (snd (DurableDelete ok i s))"
proof (cases "ds_closed s \<or> map_of (ds_active s) i = None")
  case False
  assume inv: "durable_inv s"
  have "\<exists>u'. applyLocked (delete_change i) u = (None, u') \<and> durable_wf u' \<and> True" if "ds_active u = ds_active s" "durable_wf u" for u
    using apply_delete_wf [of u i] that False by auto
  then show ?thesis
    by (rule change_inv [OF inv, of "delete_change i" "\<lambda>_. True" ok]) (use False inv in \<open>auto simp: DurableDelete_def\<close>)
qed (auto simp: DurableDelete_def)

lemma dispatch_loop_inv:
  assumes "durable_inv s" "\<forall>r \<in> set rs. dr_ScheduledAt r \<le> t"
  shows "durable_inv (snd (dispatch_loop ok t rs s))"
  using assms
proof (induction rs arbitrary: s)
  case (Cons r rs)
  show ?case
  proof (cases "map_of (ds_active s) (dr_ID r)")
    case (Some cur)
    show ?thesis
    proof (cases "dr_Kind cur \<noteq> dr_Kind r \<or> dr_ScheduledAt cur \<noteq> dr_ScheduledAt r")
      case False
      let ?c = "dispatch_change (dr_ID r) (if dr_Kind r = ''every'' then Some t else None)"
      have ap: "\<exists>u'. applyLocked ?c u = (None, u') \<and> durable_wf u' \<and> True" if "ds_active u = ds_active s" "durable_wf u" for u
        using apply_dispatch_wf [of u "dr_ID r" cur t] that Some False Cons.prems(2) by auto
      show ?thesis
      proof (rule change_inv [OF Cons.prems(1), of ?c "\<lambda>_. True" ok])
        show "\<exists>u'. applyLocked ?c u = (None, u') \<and> durable_wf u' \<and> True" if "ds_active u = ds_active s" "ds_seen u = ds_seen s" "durable_wf u" for u
          using ap that by blast
      next
        assume "durable_change ok ?c s = (Some ErrJournalRefused, s)"
        then show ?thesis using Some False Cons.prems(1) by simp
      next
        fix s'
        assume "durable_change ok ?c s = (None, s')" "durable_inv s'"
        then show ?thesis using Some False Cons.IH Cons.prems(2) by simp
      qed
    qed (use Some Cons.prems(1) in simp)
  qed (use Cons.prems(1) in simp)
qed simp

section \<open>Runs\<close>

datatype durable_op = DurCreate DurableCreateRequest instant | DurDelete string | DurDispatch DurableDue | DurClose

fun durable_run :: "zones \<Rightarrow> (DurableChange \<Rightarrow> bool) \<times> durable_op \<Rightarrow> DurableScheduler \<Rightarrow> DurableScheduler" where
  "durable_run zones (ok, DurCreate q now) s = (case DurableCreate ok zones q now s of None \<Rightarrow> s | Some (_, s) \<Rightarrow> s)"
| "durable_run zones (ok, DurDelete i) s = snd (DurableDelete ok i s)"
| "durable_run zones (ok, DurDispatch due) s = snd (Dispatch ok due s)"
| "durable_run zones (ok, DurClose) s = DurableClose s"

text \<open>A batch that was due at the time it was accepted, as \<^verbatim>\<open>Due\<close> returns it.\<close>

definition due_batch :: "DurableDue \<Rightarrow> bool" where
  "due_batch d \<longleftrightarrow> list_all (\<lambda>r. dr_ScheduledAt r \<le> du_AcceptedAt d) (du_Records d)"

fun op_due :: "durable_op \<Rightarrow> bool" where
  "op_due (DurDispatch d) = due_batch d" | "op_due _ = True"

definition durable_after :: "zones \<Rightarrow> ((DurableChange \<Rightarrow> bool) \<times> durable_op) list \<Rightarrow> DurableScheduler" where
  "durable_after zones ops = fold (durable_run zones) ops NewDurableScheduler"

lemma run_inv:
  assumes "durable_inv s" "op_due (snd p)"
  shows "durable_inv (durable_run zones p s)"
proof -
  obtain ok x where p: "p = (ok, x)" by fastforce
  show ?thesis
  proof (cases x)
    case (DurCreate q now)
    then show ?thesis using p by (auto intro: create_inv [OF assms(1), of ok zones q now])
  next
    case (DurDelete i)
    then show ?thesis using p delete_inv [OF assms(1)] by simp
  next
    case (DurDispatch d)
    then show ?thesis using p assms dispatch_loop_inv [of s "du_Records d" "du_AcceptedAt d" ok]
      by (simp add: Dispatch_def due_batch_def list_all_iff)
  next
    case DurClose
    then show ?thesis using p assms(1) by (simp add: DurableClose_def durable_inv_def durable_wf_def reminders.replayed_def same_projection_def)
  qed
qed

lemma after_inv: "list_all (\<lambda>p. op_due (snd p)) ops \<Longrightarrow> durable_inv (durable_after zones ops)"
proof -
  have "durable_inv s \<Longrightarrow> list_all (\<lambda>p. op_due (snd p)) ops \<Longrightarrow> durable_inv (fold (durable_run zones) ops s)" for s
    by (induction ops arbitrary: s) (simp_all add: run_inv)
  then show "list_all (\<lambda>p. op_due (snd p)) ops \<Longrightarrow> ?thesis" using durable_inv_new by (simp add: durable_after_def)
qed

section \<open>The due batch\<close>

lemma in_active: "durable_wf s \<Longrightarrow> r \<in> set (active_in_order s) \<longleftrightarrow> map_of (ds_active s) (dr_ID r) = Some r"
proof
  assume wf: "durable_wf s" and "r \<in> set (active_in_order s)"
  then obtain i where i: "map_of (ds_active s) i = Some r" by (auto simp: active_in_order_def List.map_filter_def)
  then have "dr_ID r = i" using wf by (auto simp: durable_wf_def record_ok_def)
  then show "map_of (ds_active s) (dr_ID r) = Some r" using i by simp
next
  assume wf: "durable_wf s" and r: "map_of (ds_active s) (dr_ID r) = Some r"
  then have "dr_ID r \<in> set (ds_order s)" unfolding durable_wf_def by blast
  then show "r \<in> set (active_in_order s)" using r by (force simp: active_in_order_def List.map_filter_def)
qed

lemma active_distinct: "durable_wf s \<Longrightarrow> distinct (map dr_ID (active_in_order s))"
proof -
  assume wf: "durable_wf s"
  have "distinct is \<Longrightarrow> distinct (map dr_ID (List.map_filter (map_of (ds_active s)) is)) \<and>
    dr_ID ` set (List.map_filter (map_of (ds_active s)) is) \<subseteq> set is" for "is"
  proof (induction "is")
    case (Cons i "is")
    then show ?case
    proof (cases "map_of (ds_active s) i")
      case (Some r)
      then have "dr_ID r = i" using wf by (auto simp: durable_wf_def record_ok_def)
      then show ?thesis using Cons Some by (auto simp: map_filter_simps)
    qed (auto simp: map_filter_simps)
  qed (simp add: map_filter_simps)
  then show ?thesis using wf by (simp add: active_in_order_def durable_wf_def)
qed

lemma by_target_set [simp]: "set (by_target s rs) = set rs"
  by (simp add: by_target_def)

lemma by_target_empty: "by_target s rs = [] \<longleftrightarrow> rs = []"
  by (metis by_target_set set_empty)

lemma by_target_distinct: "distinct (map dr_ID rs) \<Longrightarrow> distinct (map dr_ID (by_target s rs))"
  unfolding by_target_def distinct_map distinct_sort set_sort .

definition overdue :: "instant \<Rightarrow> DurableScheduler \<Rightarrow> DurableRecord list" where
  "overdue now s = filter (\<lambda>r. dr_ScheduledAt r \<le> now) (active_in_order s)"

lemma due_some:
  assumes "Due now s = Inr (Some d)"
  shows "du_AcceptedAt d = now" "\<not> ds_closed s"
    "(\<exists>r. du_Records d = [r] \<and> r \<in> set (overdue now s) \<and> dr_Kind r \<noteq> ''every'' \<and>
        (\<forall>q \<in> set (overdue now s). dr_Kind q \<noteq> ''every'' \<longrightarrow>
           (dr_ScheduledAt r, indexOf (ds_order s) (dr_ID r)) \<le> (dr_ScheduledAt q, indexOf (ds_order s) (dr_ID q)))) \<or>
     (\<forall>q \<in> set (overdue now s). dr_Kind q = ''every'') \<and> du_Records d \<noteq> [] \<and> du_Records d = by_target s (overdue now s)"
proof -
  have open': "\<not> ds_closed s" using assms by (auto simp: Due_def)
  define one where "one = by_target s (filter (\<lambda>r. dr_Kind r \<noteq> ''every'') (overdue now s))"
  define ev where "ev = by_target s (filter (\<lambda>r. dr_Kind r = ''every'') (overdue now s))"
  have due: "Due now s = (if one \<noteq> [] then Inr (Some \<lparr>du_Kind = dr_Kind (hd one), du_Records = take 1 one, du_AcceptedAt = now\<rparr>)
      else if ev \<noteq> [] then Inr (Some \<lparr>du_Kind = ''every'', du_Records = ev, du_AcceptedAt = now\<rparr>) else Inr None)"
    using open' unfolding Due_def Let_def one_def ev_def overdue_def by (simp add: not_less)
  show "du_AcceptedAt d = now"
  proof (cases "one \<noteq> []")
    case True
    then have "d = \<lparr>du_Kind = dr_Kind (hd one), du_Records = take 1 one, du_AcceptedAt = now\<rparr>" using assms unfolding due by simp
    then show ?thesis by simp
  next
    case False
    then have "ev \<noteq> [] \<and> d = \<lparr>du_Kind = ''every'', du_Records = ev, du_AcceptedAt = now\<rparr>"
      using assms unfolding due by (cases "ev = []") simp_all
    then show ?thesis by simp
  qed
  show "\<not> ds_closed s" by (rule open')
  show "(\<exists>r. du_Records d = [r] \<and> r \<in> set (overdue now s) \<and> dr_Kind r \<noteq> ''every'' \<and>
        (\<forall>q \<in> set (overdue now s). dr_Kind q \<noteq> ''every'' \<longrightarrow>
           (dr_ScheduledAt r, indexOf (ds_order s) (dr_ID r)) \<le> (dr_ScheduledAt q, indexOf (ds_order s) (dr_ID q)))) \<or>
     (\<forall>q \<in> set (overdue now s). dr_Kind q = ''every'') \<and> du_Records d \<noteq> [] \<and> du_Records d = by_target s (overdue now s)"
  proof (cases one)
    case (Cons r rs)
    have "d = \<lparr>du_Kind = dr_Kind r, du_Records = [r], du_AcceptedAt = now\<rparr>" using assms Cons unfolding due by simp
    then have recs: "du_Records d = [r]" by simp
    have mem: "set (r # rs) = {q \<in> set (overdue now s). dr_Kind q \<noteq> ''every''}" unfolding Cons [symmetric] one_def by auto
    have "sorted (map (\<lambda>r. (dr_ScheduledAt r, indexOf (ds_order s) (dr_ID r))) (r # rs))"
      unfolding Cons [symmetric] one_def by_target_def by (rule sorted_sort_key)
    then have first: "(dr_ScheduledAt r, indexOf (ds_order s) (dr_ID r)) \<le> (dr_ScheduledAt q, indexOf (ds_order s) (dr_ID q))"
      if "q \<in> set (r # rs)" for q
    proof (cases "q = r")
      case False
      then have "q \<in> set rs" using that by simp
      then show ?thesis using \<open>sorted _\<close> by (simp del: less_eq_prod_simp)
    qed simp
    have "r \<in> set (overdue now s)" "dr_Kind r \<noteq> ''every''" using mem by auto
    moreover have "\<forall>q \<in> set (overdue now s). dr_Kind q \<noteq> ''every'' \<longrightarrow>
        (dr_ScheduledAt r, indexOf (ds_order s) (dr_ID r)) \<le> (dr_ScheduledAt q, indexOf (ds_order s) (dr_ID q))"
      using first mem by blast
    ultimately show ?thesis using recs by blast
  next
    case Nil
    then have "set (by_target s (filter (\<lambda>r. dr_Kind r \<noteq> ''every'') (overdue now s))) = {}" by (simp add: one_def)
    then have all: "\<forall>q \<in> set (overdue now s). dr_Kind q = ''every''" by simp
    then have "ev = by_target s (overdue now s)" unfolding ev_def by (simp only: filter_True)
    moreover have "ev \<noteq> [] \<and> d = \<lparr>du_Kind = ''every'', du_Records = ev, du_AcceptedAt = now\<rparr>"
      using assms Nil unfolding due by (cases "ev = []") simp_all
    then have "du_Records d = ev" "ev \<noteq> []" by simp_all
    ultimately show ?thesis using all by metis
  qed
qed

lemma due_records:
  assumes "durable_wf s" "Due now s = Inr (Some d)"
  shows "distinct (map dr_ID (du_Records d))" "\<And>r. r \<in> set (du_Records d) \<Longrightarrow> map_of (ds_active s) (dr_ID r) = Some r \<and> dr_ScheduledAt r \<le> now"
    "due_batch d"
proof -
  have two: "(\<exists>r. du_Records d = [r] \<and> r \<in> set (overdue now s)) \<or> du_Records d = by_target s (overdue now s)"
    using due_some(3) [OF assms(2)] by blast
  have sub: "set (du_Records d) \<subseteq> set (overdue now s)"
    using two by (elim disjE exE conjE) (simp_all add: by_target_set)
  have "distinct (map dr_ID (overdue now s))" using active_distinct [OF assms(1)] by (simp add: overdue_def distinct_map_filter)
  then show "distinct (map dr_ID (du_Records d))" using two by (elim disjE exE conjE) (simp_all add: by_target_distinct)
  show in_s: "map_of (ds_active s) (dr_ID r) = Some r \<and> dr_ScheduledAt r \<le> now" if "r \<in> set (du_Records d)" for r
  proof -
    have "r \<in> set (overdue now s)" using that sub by blast
    then have "r \<in> set (active_in_order s)" "dr_ScheduledAt r \<le> now" by (simp_all add: overdue_def)
    then show ?thesis using in_active [OF assms(1)] by blast
  qed
  then show "due_batch d" using due_some(1) [OF assms(2)] by (simp add: due_batch_def list_all_iff)
qed

definition dispatched :: "instant \<Rightarrow> DurableRecord \<Rightarrow> DurableRecord option" where
  "dispatched now r = (if dr_Kind r = ''every'' then Some (r\<lparr>dr_ScheduledAt := projr (next_occurrence r now)\<rparr>) else None)"

lemma dispatch_loop_all:
  assumes "durable_wf s" "distinct (map dr_ID rs)" "\<forall>r \<in> set rs. map_of (ds_active s) (dr_ID r) = Some r \<and> dr_ScheduledAt r \<le> t"
  shows "\<exists>s'. dispatch_loop (\<lambda>_. True) t rs s = (None, s') \<and>
    (\<forall>i. i \<notin> dr_ID ` set rs \<longrightarrow> map_of (ds_active s') i = map_of (ds_active s) i) \<and>
    (\<forall>r \<in> set rs. map_of (ds_active s') (dr_ID r) = dispatched t r)"
  using assms
proof (induction rs arbitrary: s)
  case (Cons r rs)
  have r: "map_of (ds_active s) (dr_ID r) = Some r" "dr_ScheduledAt r \<le> t" using Cons.prems(3) by auto
  let ?c = "dispatch_change (dr_ID r) (if dr_Kind r = ''every'' then Some t else None)"
  let ?u = "s\<lparr>ds_log := ds_log s @ [?c]\<rparr>"
  have "\<exists>s'. applyLocked ?c ?u = (None, s') \<and> durable_wf s' \<and>
    ds_active s' = (if dr_Kind r = ''every'' then AList.update (dr_ID r) (r\<lparr>dr_ScheduledAt := projr (next_occurrence r t)\<rparr>) (ds_active ?u)
      else AList.delete (dr_ID r) (ds_active ?u))"
    by (rule apply_dispatch_wf) (use Cons.prems(1) r in \<open>simp_all add: wf_log\<close>)
  then obtain s1 where s1: "applyLocked ?c ?u = (None, s1)" "durable_wf s1"
    "ds_active s1 = (if dr_Kind r = ''every'' then AList.update (dr_ID r) (r\<lparr>dr_ScheduledAt := projr (next_occurrence r t)\<rparr>) (ds_active s)
      else AList.delete (dr_ID r) (ds_active s))" by auto
  have upd: "map_of (ds_active s1) i = (if i = dr_ID r then dispatched t r else map_of (ds_active s) i)" for i
    by (simp add: s1(3) dispatched_def)
  have step: "dispatch_loop (\<lambda>_. True) t (r # rs) s = dispatch_loop (\<lambda>_. True) t rs s1"
    using r(1) s1(1) by (simp add: durable_change_def appendLocked_def)
  have notin: "dr_ID r \<notin> dr_ID ` set rs" using Cons.prems(2) by auto
  have rest: "\<forall>q \<in> set rs. map_of (ds_active s1) (dr_ID q) = Some q \<and> dr_ScheduledAt q \<le> t"
  proof
    fix q
    assume q: "q \<in> set rs"
    then have "dr_ID q \<noteq> dr_ID r" using notin by (metis image_eqI)
    then show "map_of (ds_active s1) (dr_ID q) = Some q \<and> dr_ScheduledAt q \<le> t" using Cons.prems(3) q by (simp add: upd)
  qed
  have "distinct (map dr_ID rs)" using Cons.prems(2) by simp
  from Cons.IH [OF s1(2) this rest] obtain s' where s': "dispatch_loop (\<lambda>_. True) t rs s1 = (None, s')"
    "\<forall>i. i \<notin> dr_ID ` set rs \<longrightarrow> map_of (ds_active s') i = map_of (ds_active s1) i"
    "\<forall>r \<in> set rs. map_of (ds_active s') (dr_ID r) = dispatched t r" by blast
  have "map_of (ds_active s') (dr_ID r) = dispatched t r" using s'(2) notin by (simp add: upd)
  moreover have "map_of (ds_active s') i = map_of (ds_active s) i" if "i \<notin> dr_ID ` set (r # rs)" for i
    using s'(2) that by (simp add: upd)
  ultimately show ?case unfolding step using s'(1,3) by (intro exI [of _ s']) simp
qed simp


lemma due_none:
  "Due now s = Inl e \<Longrightarrow> ds_closed s"
  "Due now s = Inr None \<Longrightarrow> \<not> ds_closed s \<and> overdue now s = []"
proof -
  show "Due now s = Inl e \<Longrightarrow> ds_closed s" by (rule ccontr) (simp add: Due_def Let_def split: if_split_asm)
next
  assume none: "Due now s = Inr None"
  have "\<not> ds_closed s" using none by (cases "ds_closed s") (simp_all add: Due_def)
  moreover from this none have "filter (\<lambda>r. dr_Kind r \<noteq> ''every'') (overdue now s) = []" "filter (\<lambda>r. dr_Kind r = ''every'') (overdue now s) = []"
    by (simp_all add: Due_def Let_def overdue_def by_target_empty not_less split: if_split_asm)
  ultimately show "\<not> ds_closed s \<and> overdue now s = []" by (simp add: filter_empty_conv)
qed

lemma grid_step: "0 < k \<Longrightarrow> t < a + ((t - a) div k + 1) * k \<and> a + ((t - a) div k + 1) * k - k \<le> (t :: int)"
proof -
  assume k: "0 < k"
  have "(t - a) div k * k + (t - a) mod k = t - a" "0 \<le> (t - a) mod k" "(t - a) mod k < k"
    using k by (simp_all add: div_mult_mod_eq)
  then show ?thesis unfolding distrib_right by linarith
qed

section \<open>Properties of the reminders\<close>

text \<open>
  C30: After any sequence of creates, deletes, dispatches of due batches and closes, whatever the journal
  refuses, restoring a new scheduler from a session whose schedule events are those of the journal succeeds
  and gives the same active reminders, the same ids ever used and the same order; its id counter is not
  ahead of the running one.
\<close>

theorem durable_replays:
  assumes "list_all (\<lambda>p. op_due (snd p)) ops" "\<And>c. decode (enc c) = Some c"
    "filter (\<lambda>(k, _). k = ''schedule/change'') evs = map (\<lambda>c. (''schedule/change'', enc c)) (ds_log (durable_after zones ops))"
  shows "\<exists>t. DurableRestore decode evs NewDurableScheduler = (None, t) \<and>
    ds_active t = ds_active (durable_after zones ops) \<and> ds_seen t = ds_seen (durable_after zones ops) \<and>
    ds_order t = ds_order (durable_after zones ops) \<and> ds_nextID t \<le> ds_nextID (durable_after zones ops)"
proof -
  let ?s = "durable_after zones ops"
  have "reminders.replayed ?s" using after_inv [OF assms(1)] by (simp add: durable_inv_def)
  then obtain t where t: "reminders.replays (ds_log ?s) NewDurableScheduler = Some t" "same_projection ?s t" by (auto simp: reminders.replayed_def)
  have "NewDurableScheduler\<lparr>ds_active := [], ds_seen := [], ds_order := [], ds_nextID := 0\<rparr> = NewDurableScheduler" "\<not> ds_closed NewDurableScheduler"
    by (simp_all add: NewDurableScheduler_def)
  moreover have "restore_loop decode evs NewDurableScheduler = (None, t)"
    using restore_replays [of decode enc, OF assms(2) t(1)] restore_filter [of decode evs] assms(3) by simp
  ultimately have "DurableRestore decode evs NewDurableScheduler = (None, t)" unfolding DurableRestore_def by simp
  then show ?thesis using t(2) unfolding same_projection_def by blast
qed

definition ask_every :: "int \<Rightarrow> DurableCreateRequest" where
  "ask_every n = \<lparr>cq_Prompt = ''water'', cq_AfterSeconds = None, cq_At = [], cq_AtLocal = None, cq_EverySeconds = Some n\<rparr>"

lemma durable_replays_witness: "\<exists>t. DurableRestore Some ((''turn/start'', delete_change [])
      # map (\<lambda>c. (''schedule/change'', c)) (ds_log (durable_after (\<lambda>_. None) [(\<lambda>_. True, DurCreate (ask_every 600) 0), (\<lambda>_. True, DurClose)]))) NewDurableScheduler = (None, t) \<and>
    ds_active t = ds_active (durable_after (\<lambda>_. None) [(\<lambda>_. True, DurCreate (ask_every 600) 0), (\<lambda>_. True, DurClose)])"
proof -
  let ?ops = "[(\<lambda>_. True, DurCreate (ask_every 600) 0), (\<lambda>_. True, DurClose)]"
  have "filter (\<lambda>(k, _). k = ''schedule/change'') ((''turn/start'', delete_change [])
      # map (\<lambda>c. (''schedule/change'', c)) (ds_log (durable_after (\<lambda>_. None) ?ops))) = map (\<lambda>c. (''schedule/change'', c)) (ds_log (durable_after (\<lambda>_. None) ?ops))"
    by (simp add: filter_map comp_def)
  from durable_replays [OF _ _ this, of Some] show ?thesis by auto
qed

text \<open>
  C31: A batch that \<^verbatim>\<open>Due\<close> returned can be dispatched at once on a journal that accepts: each one-shot in it
  is gone afterwards, each recurring reminder of it is at the first instant of its grid after the
  acceptance, none of them is due any more, and every other reminder is untouched.
\<close>

theorem due_batch_dispatched:
  assumes "list_all (\<lambda>p. op_due (snd p)) ops" "Due now (durable_after zones ops) = Inr (Some d)"
    "list_all (\<lambda>r. now - dr_ScheduledAt r + dr_EverySeconds r * second < 2 ^ 63) (du_Records d)"
  shows "\<exists>s'. Dispatch (\<lambda>_. True) d (durable_after zones ops) = (None, s') \<and>
    (\<forall>i. i \<notin> dr_ID ` set (du_Records d) \<longrightarrow> map_of (ds_active s') i = map_of (ds_active (durable_after zones ops)) i) \<and>
    (\<forall>r \<in> set (du_Records d). dr_Kind r \<noteq> ''every'' \<longrightarrow> map_of (ds_active s') (dr_ID r) = None) \<and>
    (\<forall>r \<in> set (du_Records d). dr_Kind r = ''every'' \<longrightarrow> (\<exists>k n. map_of (ds_active s') (dr_ID r) = Some (r\<lparr>dr_ScheduledAt := n\<rparr>) \<and>
       n = dr_ScheduledAt r + k * (dr_EverySeconds r * second) \<and> now < n \<and> n - dr_EverySeconds r * second \<le> now))"
proof -
  let ?s = "durable_after zones ops"
  have wf: "durable_wf ?s" using after_inv [OF assms(1)] by (simp add: durable_inv_def)
  note due = due_some(1,2) [OF assms(2)] due_records [OF wf assms(2)]
  have all: "\<forall>r \<in> set (du_Records d). map_of (ds_active ?s) (dr_ID r) = Some r \<and> dr_ScheduledAt r \<le> now" using due(4) by blast
  from dispatch_loop_all [OF wf due(3) this] obtain s' where s': "dispatch_loop (\<lambda>_. True) now (du_Records d) ?s = (None, s')"
    "\<forall>i. i \<notin> dr_ID ` set (du_Records d) \<longrightarrow> map_of (ds_active s') i = map_of (ds_active ?s) i"
    "\<forall>r \<in> set (du_Records d). map_of (ds_active s') (dr_ID r) = dispatched now r" by blast
  have "Dispatch (\<lambda>_. True) d ?s = (None, s')" using s'(1) due(1,2) by (simp add: Dispatch_def)
  moreover have "\<forall>r \<in> set (du_Records d). dr_Kind r \<noteq> ''every'' \<longrightarrow> map_of (ds_active s') (dr_ID r) = None"
    using s'(3) by (simp add: dispatched_def)
  moreover have "\<exists>k n. map_of (ds_active s') (dr_ID r) = Some (r\<lparr>dr_ScheduledAt := n\<rparr>) \<and>
       n = dr_ScheduledAt r + k * (dr_EverySeconds r * second) \<and> now < n \<and> n - dr_EverySeconds r * second \<le> now"
    if r: "r \<in> set (du_Records d)" "dr_Kind r = ''every''" for r
  proof -
    have act: "map_of (ds_active ?s) (dr_ID r) = Some r" "dr_ScheduledAt r \<le> now" using all r(1) by blast+
    then have "record_ok (dr_ID r) r" using wf unfolding durable_wf_def by blast
    then have ev: "MinEverySeconds \<le> dr_EverySeconds r" "dr_EverySeconds r \<le> max_seconds" using r(2) by (simp_all add: record_ok_def)
    have small: "now - dr_ScheduledAt r + dr_EverySeconds r * second < 2 ^ 63" using assms(3) r(1) by (simp add: list_all_iff)
    let ?k = "(now - dr_ScheduledAt r) div (dr_EverySeconds r * second) + 1"
    have next_r: "next_occurrence r now = Inr (dr_ScheduledAt r + ?k * (dr_EverySeconds r * second))"
      by (rule next_occurrence_exact [OF ev act(2) small])
    then have "map_of (ds_active s') (dr_ID r) = Some (r\<lparr>dr_ScheduledAt := dr_ScheduledAt r + ?k * (dr_EverySeconds r * second)\<rparr>)"
      using s'(3) r by (simp add: dispatched_def)
    moreover note grid_step [OF every_interval(2) [OF ev], of now "dr_ScheduledAt r"]
    ultimately show ?thesis by blast
  qed
  ultimately show ?thesis using s'(2) by blast
qed

definition one_reminder :: "((DurableChange \<Rightarrow> bool) \<times> durable_op) list" where
  "one_reminder = [(\<lambda>_. True, DurCreate (ask_every 600) 0)]"

definition water :: "instant \<Rightarrow> DurableRecord" where
  "water t = \<lparr>dr_ID = ''schedule-1'', dr_Kind = ''every'', dr_Prompt = ''water'', dr_AfterSeconds = 0, dr_EverySeconds = 600, dr_ScheduledAt = t\<rparr>"

definition water_due :: DurableDue where
  "water_due = \<lparr>du_Kind = ''every'', du_Records = [water (600 * second)], du_AcceptedAt = 2000 * second\<rparr>"

lemma water_is_due: "Due (2000 * second) (durable_after (\<lambda>_. None) one_reminder) = Inr (Some water_due)"
  by code_simp

lemma due_batch_dispatched_witness:
  "\<exists>s'. Dispatch (\<lambda>_. True) water_due (durable_after (\<lambda>_. None) one_reminder) = (None, s') \<and>
    (\<exists>k n. map_of (ds_active s') ''schedule-1'' = Some ((water (600 * second))\<lparr>dr_ScheduledAt := n\<rparr>) \<and>
       n = 600 * second + k * (600 * second) \<and> 2000 * second < n \<and> n - 600 * second \<le> 2000 * second)"
proof -
  have "list_all (\<lambda>p. op_due (snd p)) one_reminder" by (simp add: one_reminder_def)
  moreover have "list_all (\<lambda>r. 2000 * second - dr_ScheduledAt r + dr_EverySeconds r * second < 2 ^ 63) (du_Records water_due)"
    by (simp add: water_due_def water_def)
  ultimately have "\<exists>s'. Dispatch (\<lambda>_. True) water_due (durable_after (\<lambda>_. None) one_reminder) = (None, s') \<and>
    (\<forall>r \<in> set (du_Records water_due). dr_Kind r = ''every'' \<longrightarrow> (\<exists>k n. map_of (ds_active s') (dr_ID r) = Some (r\<lparr>dr_ScheduledAt := n\<rparr>) \<and>
       n = dr_ScheduledAt r + k * (dr_EverySeconds r * second) \<and> 2000 * second < n \<and> n - dr_EverySeconds r * second \<le> 2000 * second))"
    using due_batch_dispatched [OF _ water_is_due] by blast
  then show ?thesis by (simp add: water_due_def water_def)
qed

text \<open>
  Fact: \<^verbatim>\<open>Due\<close> never mixes the two kinds and never leaves a one-shot behind a recurring one: it returns the
  single one-shot reminder that is earliest, ties broken by creation order, or, when no one-shot is
  overdue, all overdue recurring reminders in that order.
\<close>

theorem due_selects:
  "case Due now s of
     Inl e \<Rightarrow> ds_closed s
   | Inr None \<Rightarrow> \<not> ds_closed s \<and> overdue now s = []
   | Inr (Some d) \<Rightarrow> \<not> ds_closed s \<and> du_AcceptedAt d = now \<and>
       (if filter (\<lambda>r. dr_Kind r \<noteq> ''every'') (overdue now s) \<noteq> []
        then \<exists>r. du_Records d = [r] \<and> r \<in> set (overdue now s) \<and> dr_Kind r \<noteq> ''every'' \<and>
          list_all (\<lambda>q. dr_Kind q = ''every'' \<or>
            (dr_ScheduledAt r, indexOf (ds_order s) (dr_ID r)) \<le> (dr_ScheduledAt q, indexOf (ds_order s) (dr_ID q))) (overdue now s)
        else mset (du_Records d) = mset (overdue now s) \<and>
          sorted (map (\<lambda>q. (dr_ScheduledAt q, indexOf (ds_order s) (dr_ID q))) (du_Records d)))"
proof (cases "Due now s")
  case (Inl e)
  then show ?thesis using due_none(1) by simp
next
  case (Inr sel)
  show ?thesis
  proof (cases sel)
    case None
    then show ?thesis using due_none(2) Inr by simp
  next
    case (Some d)
    note due = due_some [OF Inr [unfolded Some]]
    have "if filter (\<lambda>r. dr_Kind r \<noteq> ''every'') (overdue now s) \<noteq> []
        then \<exists>r. du_Records d = [r] \<and> r \<in> set (overdue now s) \<and> dr_Kind r \<noteq> ''every'' \<and>
          list_all (\<lambda>q. dr_Kind q = ''every'' \<or>
            (dr_ScheduledAt r, indexOf (ds_order s) (dr_ID r)) \<le> (dr_ScheduledAt q, indexOf (ds_order s) (dr_ID q))) (overdue now s)
        else mset (du_Records d) = mset (overdue now s) \<and>
          sorted (map (\<lambda>q. (dr_ScheduledAt q, indexOf (ds_order s) (dr_ID q))) (du_Records d))"
    proof (cases "filter (\<lambda>r. dr_Kind r \<noteq> ''every'') (overdue now s) = []")
      case True
      then have none: "\<forall>q \<in> set (overdue now s). dr_Kind q = ''every''" unfolding filter_empty_conv by blast
      then have "du_Records d = by_target s (overdue now s)" using due(3) by blast
      then show ?thesis using True by (simp add: by_target_def)
    next
      case False
      then have "\<not> (\<forall>q \<in> set (overdue now s). dr_Kind q = ''every'')" unfolding filter_empty_conv by blast
      then have one: "\<exists>r. du_Records d = [r] \<and> r \<in> set (overdue now s) \<and> dr_Kind r \<noteq> ''every'' \<and>
        (\<forall>q \<in> set (overdue now s). dr_Kind q \<noteq> ''every'' \<longrightarrow>
           (dr_ScheduledAt r, indexOf (ds_order s) (dr_ID r)) \<le> (dr_ScheduledAt q, indexOf (ds_order s) (dr_ID q)))"
        using due(3) by blast
      show ?thesis unfolding if_P [OF False] list_all_iff using one by blast
    qed
    then show ?thesis unfolding Inr Some sum.case option.case using due(1,2) by blast
  qed
qed


text \<open>
  Fact: The fold checks a recurring interval against the minimum only. A journal whose create event asks for
  2^55 seconds is accepted, its interval in nanoseconds wraps to zero, and folding the dispatch that
  follows divides by zero instead of reporting a corrupt log.
\<close>

theorem restore_divides_by_zero:
  "fst (DurableRestore Some
     [(''schedule/change'', create_change ((water 0)\<lparr>dr_EverySeconds := 36028797018963968\<rparr>))] NewDurableScheduler) = None \<and>
   fst (DurableRestore Some
     [(''schedule/change'', create_change ((water 0)\<lparr>dr_EverySeconds := 36028797018963968\<rparr>)),
      (''schedule/change'', dispatch_change ''schedule-1'' (Some (600 * second)))] NewDurableScheduler) = Some DivideByZero"
  by (rule conjI; code_simp)

end
