(* ===== verification/Loop_Tools.thy ===== *)
theory Loop_Tools
  imports Session_Content
begin

text \<open>
  How the turn loop runs the tool calls of a step, \<^verbatim>\<open>internal/loop/loop.go\<close>: exclusive calls one by one,
  concurrency-safe ones in a bounded rolling pool, every result committed to the log in the order of the
  model. The goroutines of the pool are the calls still running; which of them settles next, and with what,
  is the answer of the host, as are the log, the registry and the context. The turn and step number,
  the same in all rows, spans and metrics are left out.
\<close>

section \<open>Rows and results\<close>

record tool_failure =
  tf_Message :: string
  tf_Code :: string

record context_message =
  cm_Content :: "ContentBlock list"
  cm_SourceKind :: string

record ToolResult =
  rt_Output :: string
  rt_SpillPath :: string
  rt_SpillBytes :: int
  rt_Content :: "ContentBlock list"
  rt_Meta :: "json option"
  rt_Contexts :: "string list"
  rt_ContextMessages :: "context_message list"
  rt_ConcludesTurn :: bool
  rt_IsError :: bool
  rt_ErrorCode :: "string option"

definition no_result :: ToolResult where
  "no_result = \<lparr>rt_Output = [], rt_SpillPath = [], rt_SpillBytes = 0, rt_Content = [], rt_Meta = None, rt_Contexts = [],
     rt_ContextMessages = [], rt_ConcludesTurn = False, rt_IsError = False, rt_ErrorCode = None\<rparr>"

type_synonym spill = "(string \<times> int) option"

datatype tool_payload =
    PayFailure string string
  | PayErrorContent string "ContentBlock list" string "json option"
  | PayErrorOutput string spill string "json option"
  | PayOutput string spill "json option"
  | PayContent string "ContentBlock list" "json option"
  | PayAborted

datatype tool_row =
    RowCall ToolCall
  | RowResult ToolCall nat tool_payload
  | RowContext context_message

datatype loop_error = ErrAppend string | ErrCancelled

text \<open>The log of a run: the rows it took, with the positions it gave them; a cancelled context stays cancelled.\<close>

record 'w tool_log =
  tl_rows :: "(nat \<times> tool_row) list"
  tl_cancelled :: bool
  tl_world :: 'w

record 'w tool_host =
  lp_append :: "tool_row \<Rightarrow> 'w \<Rightarrow> (string + nat) \<times> 'w"
  lp_poll :: "'w \<Rightarrow> bool \<times> 'w"
  lp_parse :: "string \<Rightarrow> json option"
  lp_safe :: "string \<Rightarrow> json \<Rightarrow> 'w \<Rightarrow> bool \<times> 'w"
  lp_prepare :: "ToolCall \<Rightarrow> json option \<Rightarrow> 'w \<Rightarrow> tool_failure option \<times> 'w"
  lp_execute :: "ToolCall \<Rightarrow> 'w \<Rightarrow> (ToolResult \<times> tool_failure option) \<times> 'w"
  lp_settle :: "nat list \<Rightarrow> 'w \<Rightarrow> (nat \<times> ToolResult \<times> tool_failure option) \<times> 'w"
  lp_maxParallel :: int
  lp_maxParallelFn :: "('w \<Rightarrow> int) option"

definition maxParallelToolCalls :: "int \<Rightarrow> int" where
  "maxParallelToolCalls n = (if n \<le> 0 then 10 else n)"

definition effectiveMaxParallelToolCalls :: "'w tool_host \<Rightarrow> 'w \<Rightarrow> int" where
  "effectiveMaxParallelToolCalls H w =
     maxParallelToolCalls (case lp_maxParallelFn H of None \<Rightarrow> lp_maxParallel H | Some f \<Rightarrow> f w)"

definition tool_cancelled :: "'w tool_host \<Rightarrow> 'w tool_log \<Rightarrow> bool \<times> 'w tool_log" where
  "tool_cancelled H l =
     (if tl_cancelled l then (True, l)
      else case lp_poll H (tl_world l) of (c, w) \<Rightarrow> (c, l\<lparr>tl_cancelled := c, tl_world := w\<rparr>))"

definition tool_append :: "'w tool_host \<Rightarrow> tool_row \<Rightarrow> 'w tool_log \<Rightarrow> (loop_error + nat) \<times> 'w tool_log" where
  "tool_append H row l =
     (case lp_append H row (tl_world l) of
        (Inl e, w) \<Rightarrow> (Inl (ErrAppend e), l\<lparr>tl_world := w\<rparr>)
      | (Inr q, w) \<Rightarrow> (Inr q, l\<lparr>tl_world := w, tl_rows := tl_rows l @ [(q, row)]\<rparr>))"

section \<open>Committing an outcome\<close>

record toolCallOutcome =
  oc_call :: ToolCall
  oc_callSeq :: nat
  oc_res :: ToolResult
  oc_err :: "tool_failure option"

definition outcome_payload :: "toolCallOutcome \<Rightarrow> tool_payload" where
  "outcome_payload oc =
     (let res = oc_res oc; spill = (if rt_SpillPath res = [] then None else Some (rt_SpillPath res, rt_SpillBytes res))
      in case oc_err oc of
        Some e \<Rightarrow> PayFailure (tf_Message e) (tf_Code e)
      | None \<Rightarrow>
          if rt_IsError res then
            (let code = (case rt_ErrorCode res of None \<Rightarrow> ''TOOL_RESULT_ERROR'' | Some c \<Rightarrow> if c = [] then ''TOOL_RESULT_ERROR'' else c)
             in if rt_Content res \<noteq> [] then PayErrorContent (rt_Output res) (rt_Content res) code (rt_Meta res)
                else PayErrorOutput (rt_Output res) spill code (rt_Meta res))
          else if rt_Content res \<noteq> [] then PayContent (rt_Output res) (rt_Content res) (rt_Meta res)
          else PayOutput (rt_Output res) spill (rt_Meta res))"

definition additional_contexts :: "ToolResult \<Rightarrow> context_message list" where
  "additional_contexts res =
     filter (\<lambda>m. cm_Content m \<noteq> [])
       (map (\<lambda>m. if cm_SourceKind m = [] then m\<lparr>cm_SourceKind := ''plugin''\<rparr> else m) (rt_ContextMessages res) @
        map (\<lambda>t. \<lparr>cm_Content = [Text t], cm_SourceKind = ''plugin''\<rparr>) (filter (\<lambda>t. t \<noteq> []) (rt_Contexts res)))"

fun append_contexts :: "'w tool_host \<Rightarrow> context_message list \<Rightarrow> 'w tool_log \<Rightarrow> loop_error option \<times> 'w tool_log" where
  "append_contexts H [] l = (None, l)"
| "append_contexts H (m # ms) l =
     (case tool_append H (RowContext m) l of (Inl e, l) \<Rightarrow> (Some e, l) | (Inr _, l) \<Rightarrow> append_contexts H ms l)"

definition commitToolOutcome :: "'w tool_host \<Rightarrow> toolCallOutcome \<Rightarrow> 'w tool_log \<Rightarrow> (loop_error + nat) \<times> 'w tool_log" where
  "commitToolOutcome H oc l =
     (case tool_append H (RowResult (oc_call oc) (oc_callSeq oc) (outcome_payload oc)) l of
        (Inl e, l) \<Rightarrow> (Inl e, l)
      | (Inr q, l) \<Rightarrow>
          (case append_contexts H (additional_contexts (oc_res oc)) l of (Some e, l) \<Rightarrow> (Inl e, l) | (None, l) \<Rightarrow> (Inr q, l)))"

fun appendAbortedCalls :: "'w tool_host \<Rightarrow> ToolCall list \<Rightarrow> 'w tool_log \<Rightarrow> loop_error option \<times> 'w tool_log" where
  "appendAbortedCalls H [] l = (None, l)"
| "appendAbortedCalls H (c # cs) l =
     (case tool_append H (RowCall c) l of
        (Inl e, l) \<Rightarrow> (Some e, l)
      | (Inr q, l) \<Rightarrow>
          (case tool_append H (RowResult c q PayAborted) l of (Inl e, l) \<Rightarrow> (Some e, l) | (Inr _, l) \<Rightarrow> appendAbortedCalls H cs l))"

definition startToolCall :: "'w tool_host \<Rightarrow> ToolCall \<Rightarrow> 'w tool_log \<Rightarrow> (loop_error + toolCallOutcome) \<times> 'w tool_log" where
  "startToolCall H c l =
     (case tool_append H (RowCall c) l of
        (Inl e, l) \<Rightarrow> (Inl e, l)
      | (Inr q, l) \<Rightarrow>
          (case lp_prepare H c (lp_parse H (tc_Arguments c)) (tl_world l) of
             (Some e, w) \<Rightarrow> (Inr \<lparr>oc_call = c, oc_callSeq = q, oc_res = no_result, oc_err = Some e\<rparr>, l\<lparr>tl_world := w\<rparr>)
           | (None, w) \<Rightarrow>
               (case lp_execute H c w of
                  ((res, err), w) \<Rightarrow> (Inr \<lparr>oc_call = c, oc_callSeq = q, oc_res = res, oc_err = err\<rparr>, l\<lparr>tl_world := w\<rparr>))))"

section \<open>The rolling pool\<close>

record 'w tool_group =
  gr_next :: nat
  gr_started :: nat
  gr_committed :: nat
  gr_ready :: "(nat \<times> toolCallOutcome) list"
  gr_running :: "(nat \<times> ToolCall \<times> nat) list"
  gr_concludes :: bool
  gr_boundary :: nat
  gr_log :: "'w tool_log"

function commitReady :: "'w tool_host \<Rightarrow> 'w tool_group \<Rightarrow> loop_error option \<times> 'w tool_group" where
  "commitReady H g =
     (if gr_committed g < gr_started g then
        (case map_of (gr_ready g) (gr_committed g) of
           None \<Rightarrow> (None, g)
         | Some oc \<Rightarrow>
             (case commitToolOutcome H oc (gr_log g) of
                (Inl e, l) \<Rightarrow> (Some e, g\<lparr>gr_log := l\<rparr>)
              | (Inr q, l) \<Rightarrow>
                  commitReady H (g\<lparr>gr_log := l, gr_boundary := q, gr_concludes := gr_concludes g \<or> rt_ConcludesTurn (oc_res oc),
                    gr_ready := AList.delete (gr_committed g) (gr_ready g), gr_committed := gr_committed g + 1\<rparr>)))
      else (None, g))"
  by pat_completeness auto
termination
  by (relation "measure (\<lambda>(H, g). gr_started g - gr_committed g)") auto

text \<open>One receive from the channel of settled calls; the host says which of the running ones it is.\<close>

definition settle_one :: "'w tool_host \<Rightarrow> 'w tool_group \<Rightarrow> 'w tool_group" where
  "settle_one H g =
     (case lp_settle H (map fst (gr_running g)) (tl_world (gr_log g)) of
        ((k, res, err), w) \<Rightarrow>
          (let (i, c, q) = gr_running g ! (k mod length (gr_running g))
           in g\<lparr>gr_log := (gr_log g)\<lparr>tl_world := w\<rparr>, gr_running := AList.delete i (gr_running g),
                gr_ready := AList.update i \<lparr>oc_call = c, oc_callSeq = q, oc_res = res, oc_err = err\<rparr> (gr_ready g)\<rparr>))"

lemma settle_shrinks: "gr_running g \<noteq> [] \<Longrightarrow> length (gr_running (settle_one H g)) < length (gr_running g)"
proof -
  assume ne: "gr_running g \<noteq> []"
  obtain k res err w where s: "lp_settle H (map fst (gr_running g)) (tl_world (gr_log g)) = ((k, res, err), w)"
    by (metis prod.collapse)
  let ?x = "gr_running g ! (k mod length (gr_running g))"
  have mem: "?x \<in> set (gr_running g)" using ne by simp
  have "length (AList.delete (fst ?x) (gr_running g)) < length (gr_running g)"
    unfolding AList.delete_eq by (rule length_filter_less [OF mem]) (simp add: split_beta)
  then show ?thesis using s by (simp add: settle_one_def Let_def split_beta)
qed

lemma settle_next: "gr_next (settle_one H g) = gr_next g" "gr_started (settle_one H g) = gr_started g"
    "gr_committed (settle_one H g) = gr_committed g" "tl_rows (gr_log (settle_one H g)) = tl_rows (gr_log g)"
  by (simp_all add: settle_one_def Let_def split: prod.split)

function drain :: "'w tool_host \<Rightarrow> 'w tool_group \<Rightarrow> 'w tool_group" where
  "drain H g = (if gr_running g = [] then g else drain H (settle_one H g))"
  by pat_completeness auto
termination
  by (relation "measure (\<lambda>(H, g). length (gr_running g))") (auto simp: settle_shrinks)

text \<open>What the filling loop reads before it starts a call: the context, the pool and the class of the call.\<close>

definition may_start :: "'w tool_host \<Rightarrow> ToolCall list \<Rightarrow> 'w tool_group \<Rightarrow> bool \<times> 'w tool_group" where
  "may_start H calls g =
     (case tool_cancelled H (gr_log g) of
        (True, l) \<Rightarrow> (False, g\<lparr>gr_log := l\<rparr>)
      | (False, l) \<Rightarrow>
          if \<not> gr_next g < length calls \<or>
              \<not> int (length (gr_running g) + length (gr_ready g)) < effectiveMaxParallelToolCalls H (tl_world l)
            then (False, g\<lparr>gr_log := l\<rparr>)
          else case lp_parse H (tc_Arguments (calls ! gr_next g)) of
            None \<Rightarrow> (False, g\<lparr>gr_log := l\<rparr>)
          | Some args \<Rightarrow>
              (case lp_safe H (tc_Name (calls ! gr_next g)) args (tl_world l) of
                 (s, w) \<Rightarrow> (s, g\<lparr>gr_log := l\<lparr>tl_world := w\<rparr>\<rparr>)))"

text \<open>Starting the next call: its row, then the ordered preparation; one that fails is ready at once.\<close>

definition begun :: "'w tool_log \<Rightarrow> 'w tool_group \<Rightarrow> 'w tool_group" where
  "begun l g = g\<lparr>gr_log := l, gr_next := gr_next g + 1, gr_started := gr_started g + 1\<rparr>"

definition start_next :: "'w tool_host \<Rightarrow> ToolCall list \<Rightarrow> 'w tool_group \<Rightarrow> loop_error option \<times> 'w tool_group" where
  "start_next H calls g =
     (let i = gr_next g; c = calls ! i
      in case tool_append H (RowCall c) (gr_log g) of
           (Inl e, l) \<Rightarrow> (Some e, g\<lparr>gr_log := l\<rparr>)
         | (Inr q, l) \<Rightarrow>
             (case lp_prepare H c (lp_parse H (tc_Arguments c)) (tl_world l) of
                (Some e, w) \<Rightarrow>
                  commitReady H ((begun (l\<lparr>tl_world := w\<rparr>) g)\<lparr>gr_ready :=
                    AList.update i \<lparr>oc_call = c, oc_callSeq = q, oc_res = no_result, oc_err = Some e\<rparr> (gr_ready g)\<rparr>)
              | (None, w) \<Rightarrow>
                  (case commitReady H ((begun (l\<lparr>tl_world := w\<rparr>) g)\<lparr>gr_running := AList.update i (c, q) (gr_running g)\<rparr>) of
                     (Some e, g) \<Rightarrow> (Some e, drain H g)
                   | (None, g) \<Rightarrow> (None, g))))"

declare commitReady.simps [simp del] drain.simps [simp del]

text \<open>One turn of the committing loop.\<close>

lemma commitReady_stop:
  "\<not> gr_committed g < gr_started g \<Longrightarrow> commitReady H g = (None, g)"
  "map_of (gr_ready g) (gr_committed g) = None \<Longrightarrow> commitReady H g = (None, g)"
  by (subst commitReady.simps; simp)+

definition committed :: "toolCallOutcome \<Rightarrow> nat \<Rightarrow> 'w tool_log \<Rightarrow> 'w tool_group \<Rightarrow> 'w tool_group" where
  "committed oc q l g = g\<lparr>gr_log := l, gr_boundary := q, gr_concludes := gr_concludes g \<or> rt_ConcludesTurn (oc_res oc),
     gr_ready := AList.delete (gr_committed g) (gr_ready g), gr_committed := gr_committed g + 1\<rparr>"

lemma commitReady_step:
  assumes "gr_committed g < gr_started g" "map_of (gr_ready g) (gr_committed g) = Some oc"
  shows "commitToolOutcome H oc (gr_log g) = (Inl e, l) \<Longrightarrow> commitReady H g = (Some e, g\<lparr>gr_log := l\<rparr>)"
    "commitToolOutcome H oc (gr_log g) = (Inr q, l) \<Longrightarrow> commitReady H g = commitReady H (committed oc q l g)"
  by (subst commitReady.simps; simp add: assms committed_def)+

lemma commitReady_induct [consumes 1, case_names stop failed step]:
  assumes "commitReady H g = (e, g')"
    and "\<And>g. \<not> gr_committed g < gr_started g \<or> map_of (gr_ready g) (gr_committed g) = None \<Longrightarrow> P g None g"
    and "\<And>g oc x l. gr_committed g < gr_started g \<Longrightarrow> map_of (gr_ready g) (gr_committed g) = Some oc \<Longrightarrow>
      commitToolOutcome H oc (gr_log g) = (Inl x, l) \<Longrightarrow> P g (Some x) (g\<lparr>gr_log := l\<rparr>)"
    and "\<And>g oc q l e g'. gr_committed g < gr_started g \<Longrightarrow> map_of (gr_ready g) (gr_committed g) = Some oc \<Longrightarrow>
      commitToolOutcome H oc (gr_log g) = (Inr q, l) \<Longrightarrow> commitReady H (committed oc q l g) = (e, g') \<Longrightarrow> P (committed oc q l g) e g' \<Longrightarrow> P g e g'"
  shows "P g e g'"
  using assms(1)
proof (induction "gr_started g - gr_committed g" arbitrary: g e g' rule: less_induct)
  case less
  show ?case
  proof (cases "\<not> gr_committed g < gr_started g \<or> map_of (gr_ready g) (gr_committed g) = None")
    case True
    then have "commitReady H g = (None, g)" using commitReady_stop by blast
    then show ?thesis using less.prems assms(2) [OF True] by simp
  next
    case False
    then obtain oc where lt: "gr_committed g < gr_started g" and oc: "map_of (gr_ready g) (gr_committed g) = Some oc" by blast
    obtain r l where c: "commitToolOutcome H oc (gr_log g) = (r, l)" by fastforce
    show ?thesis
    proof (cases r)
      case (Inl x)
      then have "commitReady H g = (Some x, g\<lparr>gr_log := l\<rparr>)" using commitReady_step(1) [OF lt oc] c by blast
      then show ?thesis using less.prems assms(3) [OF lt oc] c Inl by simp
    next
      case (Inr q)
      then have st: "commitReady H (committed oc q l g) = (e, g')" using commitReady_step(2) [OF lt oc] c less.prems by simp
      have "gr_started (committed oc q l g) - gr_committed (committed oc q l g) < gr_started g - gr_committed g"
        using lt by (simp add: committed_def)
      from less.hyps [OF this st] show ?thesis using assms(4) [OF lt oc _ st] c Inr by simp
    qed
  qed
qed

lemma commitReady_keeps: "commitReady H g = (e, g') \<Longrightarrow>
  gr_next g' = gr_next g \<and> gr_started g' = gr_started g \<and> gr_running g' = gr_running g"
  by (induction rule: commitReady_induct) (simp_all add: committed_def)

lemma tool_cancelled_log: "tl_rows (snd (tool_cancelled H l)) = tl_rows l"
  by (simp add: tool_cancelled_def split: prod.split)

lemma may_start_keeps:
  assumes "may_start H calls g = (b, g1)"
  shows "gr_next g1 = gr_next g \<and> gr_started g1 = gr_started g \<and> gr_running g1 = gr_running g \<and> gr_ready g1 = gr_ready g \<and>
    gr_committed g1 = gr_committed g \<and> tl_rows (gr_log g1) = tl_rows (gr_log g)" "b \<Longrightarrow> gr_next g < length calls"
proof -
  obtain c l where c: "tool_cancelled H (gr_log g) = (c, l)" by fastforce
  then have rows: "tl_rows l = tl_rows (gr_log g)" using tool_cancelled_log [of H "gr_log g"] by simp
  have "gr_next g1 = gr_next g \<and> gr_started g1 = gr_started g \<and> gr_running g1 = gr_running g \<and> gr_ready g1 = gr_ready g \<and>
    gr_committed g1 = gr_committed g \<and> tl_rows (gr_log g1) = tl_rows (gr_log g) \<and> (b \<longrightarrow> gr_next g < length calls)"
    using assms c rows by (auto simp: may_start_def split: if_splits option.splits prod.splits bool.splits)
  then show "gr_next g1 = gr_next g \<and> gr_started g1 = gr_started g \<and> gr_running g1 = gr_running g \<and> gr_ready g1 = gr_ready g \<and>
    gr_committed g1 = gr_committed g \<and> tl_rows (gr_log g1) = tl_rows (gr_log g)" "b \<Longrightarrow> gr_next g < length calls" by blast+
qed

lemma start_next_counts:
  assumes "start_next H calls g = (None, g1)"
  shows "gr_next g1 = gr_next g + 1 \<and> length (gr_running g1) \<le> length (gr_running g) + 1"
proof -
  obtain r l where a: "tool_append H (RowCall (calls ! gr_next g)) (gr_log g) = (r, l)" by fastforce
  obtain q where q: "r = Inr q" using assms a by (cases r) (auto simp: start_next_def Let_def)
  obtain p w where p: "lp_prepare H (calls ! gr_next g) (lp_parse H (tc_Arguments (calls ! gr_next g))) (tl_world l) = (p, w)" by fastforce
  have up: "length (AList.update k v xs) \<le> length xs + 1" for k v and xs :: "(nat \<times> ToolCall \<times> nat) list"
    by (induction xs) auto
  let ?g = "begun (l\<lparr>tl_world := w\<rparr>) g"
  have g: "gr_next ?g = gr_next g + 1" "gr_running ?g = gr_running g" by (simp_all add: begun_def)
  show ?thesis
  proof (cases p)
    case (Some x)
    let ?r = "AList.update (gr_next g) \<lparr>oc_call = calls ! gr_next g, oc_callSeq = q, oc_res = no_result, oc_err = Some x\<rparr> (gr_ready g)"
    have "commitReady H (?g\<lparr>gr_ready := ?r\<rparr>) = (None, g1)" using assms a q p Some by (simp add: start_next_def Let_def)
    from commitReady_keeps [OF this] show ?thesis using g by simp
  next
    case None
    let ?g2 = "?g\<lparr>gr_running := AList.update (gr_next g) (calls ! gr_next g, q) (gr_running g)\<rparr>"
    obtain x g3 where c: "commitReady H ?g2 = (x, g3)" by fastforce
    have "start_next H calls g = (case (x, g3) of (Some e, g) \<Rightarrow> (Some e, drain H g) | (None, g) \<Rightarrow> (None, g))"
      using a q p None c by (simp add: start_next_def Let_def)
    then have "x = None" "g3 = g1" using assms by (cases x; simp)+
    then show ?thesis using commitReady_keeps [OF c] up [of "gr_next g" "(calls ! gr_next g, q)" "gr_running g"] g by simp
  qed
qed

lemma fill_step:
  assumes "(True, g1) = may_start H calls g" "(None, g2) = start_next H calls g1"
  shows "length calls - gr_next g2 < length calls - gr_next g"
  using may_start_keeps [OF assms(1) [symmetric]] start_next_counts [OF assms(2) [symmetric]] by simp

function fill :: "'w tool_host \<Rightarrow> ToolCall list \<Rightarrow> 'w tool_group \<Rightarrow> loop_error option \<times> 'w tool_group" where
  "fill H calls g =
     (case may_start H calls g of
        (False, g) \<Rightarrow> (None, g)
      | (True, g) \<Rightarrow> (case start_next H calls g of (Some e, g) \<Rightarrow> (Some e, g) | (None, g) \<Rightarrow> fill H calls g))"
  by pat_completeness auto
termination
  by (relation "measure (\<lambda>(H, calls, g). length calls - gr_next g)") (auto dest: fill_step)

declare fill.simps [simp del]

text \<open>Filling only moves on: no more calls are waiting or running than before, and one more runs only for one started.\<close>

lemma fill_counts:
  assumes "fill H calls g = (None, g')"
  shows "gr_next g \<le> gr_next g' \<and>
    2 * (length calls - gr_next g') + length (gr_running g') \<le> 2 * (length calls - gr_next g) + length (gr_running g)"
  using assms
proof (induction H calls g arbitrary: g' rule: fill.induct)
  case (1 H calls g)
  obtain b g1 where m: "may_start H calls g = (b, g1)" by fastforce
  note keep = may_start_keeps [OF m]
  show ?case
  proof (cases b)
    case False
    then have "g' = g1" using "1.prems" m by (simp add: fill.simps [of H calls g])
    then show ?thesis using keep(1) by simp
  next
    case True
    obtain e g2 where s: "start_next H calls g1 = (e, g2)" by fastforce
    then have e: "e = None" "fill H calls g2 = (None, g')" using "1.prems" m True by (cases e; simp add: fill.simps [of H calls g])+
    note cnt = start_next_counts [OF s [unfolded e(1)]]
    have "(True, g1) = may_start H calls g" "(None, g2) = start_next H calls g1" using m s True e(1) by simp_all
    from "1.IH" [OF this(1) refl this(2) refl e(2)]
    have ih: "gr_next g2 \<le> gr_next g'" "2 * (length calls - gr_next g') + length (gr_running g') \<le> 2 * (length calls - gr_next g2) + length (gr_running g2)"
      by blast+
    have c: "gr_next g2 = gr_next g + 1" "length (gr_running g2) \<le> length (gr_running g) + 1" using cnt keep(1) by simp_all
    have "length calls - gr_next g = (length calls - gr_next g2) + 1" using keep(2) [OF True] c(1) by simp
    then show ?thesis using ih c by linarith
  qed
qed

text \<open>The pool: fill it, commit what is ready, and wait for a call until none runs.\<close>

definition pool_cancelled :: "'w tool_host \<Rightarrow> ToolCall list \<Rightarrow> 'w tool_group \<Rightarrow> loop_error option \<times> 'w tool_group" where
  "pool_cancelled H calls g =
     (case commitReady H (drain H g) of
        (Some e, g) \<Rightarrow> (Some e, g)
      | (None, g) \<Rightarrow>
          (case appendAbortedCalls H (drop (gr_next g) calls) (gr_log g) of
             (Some e, l) \<Rightarrow> (Some e, g\<lparr>gr_log := l\<rparr>)
           | (None, l) \<Rightarrow> (Some ErrCancelled, g\<lparr>gr_log := l\<rparr>)))"

definition pool_turn :: "'w tool_host \<Rightarrow> ToolCall list \<Rightarrow> 'w tool_group \<Rightarrow> loop_error option \<times> 'w tool_group" where
  "pool_turn H calls g =
     (case fill H calls g of
        (Some e, g) \<Rightarrow> (Some e, drain H g)
      | (None, g) \<Rightarrow>
          (case commitReady H g of
             (Some e, g) \<Rightarrow> (Some e, drain H g)
           | (None, g) \<Rightarrow>
               (case tool_cancelled H (gr_log g) of
                  (True, l) \<Rightarrow> pool_cancelled H calls (g\<lparr>gr_log := l\<rparr>)
                | (False, l) \<Rightarrow> (None, g\<lparr>gr_log := l\<rparr>))))"

definition pool_size :: "ToolCall list \<Rightarrow> 'w tool_group \<Rightarrow> nat" where
  "pool_size calls g = 2 * (length calls - gr_next g) + length (gr_running g)"

lemma pool_cancelled_stops: "fst (pool_cancelled H calls g) \<noteq> None"
  by (simp add: pool_cancelled_def split: prod.split option.split)

lemma pool_turn_counts:
  assumes "pool_turn H calls g = (None, g')"
  shows "pool_size calls g' \<le> pool_size calls g" "gr_next g \<le> gr_next g'"
proof -
  obtain e g1 where f: "fill H calls g = (e, g1)" by fastforce
  then have e: "e = None" using assms(1) by (cases e) (simp_all add: pool_turn_def)
  obtain x g2 where c: "commitReady H g1 = (x, g2)" by fastforce
  then have x: "x = None" using assms f e by (cases x) (simp_all add: pool_turn_def)
  obtain b l where t: "tool_cancelled H (gr_log g2) = (b, l)" by fastforce
  have "\<not> b"
  proof
    assume b
    then have "pool_turn H calls g = pool_cancelled H calls (g2\<lparr>gr_log := l\<rparr>)" using f e c x t by (simp add: pool_turn_def)
    then show False using assms(1) pool_cancelled_stops [of H calls "g2\<lparr>gr_log := l\<rparr>"] by (metis fst_conv)
  qed
  then have "g' = g2\<lparr>gr_log := l\<rparr>" using assms(1) f e c x t by (simp add: pool_turn_def)
  then show "pool_size calls g' \<le> pool_size calls g" "gr_next g \<le> gr_next g'"
    using fill_counts [OF f [unfolded e]] commitReady_keeps [OF c] by (simp_all add: pool_size_def)
qed

function pool_loop :: "'w tool_host \<Rightarrow> ToolCall list \<Rightarrow> 'w tool_group \<Rightarrow> loop_error option \<times> 'w tool_group" where
  "pool_loop H calls g =
     (case pool_turn H calls g of
        (Some e, g) \<Rightarrow> (Some e, g)
      | (None, g) \<Rightarrow> if gr_running g = [] then (None, g) else pool_loop H calls (settle_one H g))"
  by pat_completeness auto
termination
proof (relation "measure (\<lambda>(H, calls, g). pool_size calls g)", simp, clarsimp)
  fix H :: "'w tool_host" and calls g g1
  assume "(None, g1) = pool_turn H calls g" "gr_running g1 \<noteq> []"
  then show "pool_size calls (settle_one H g1) < pool_size calls g"
    using pool_turn_counts(1) [of H calls g g1] settle_shrinks [of g1 H] by (simp add: pool_size_def settle_next)
qed


declare pool_loop.simps [simp del]

definition pool_start :: "nat \<Rightarrow> 'w tool_log \<Rightarrow> 'w tool_group" where
  "pool_start n l = \<lparr>gr_next = n, gr_started = n, gr_committed = n, gr_ready = [], gr_running = [], gr_concludes = False,
     gr_boundary = 0, gr_log = l\<rparr>"

text \<open>The result of the pool: the position of the next call, whether a result concludes the turn, the last result.\<close>

definition executeParallelGroup ::
    "'w tool_host \<Rightarrow> ToolCall list \<Rightarrow> nat \<Rightarrow> 'w tool_log \<Rightarrow> (loop_error + nat \<times> bool \<times> nat) \<times> 'w tool_log" where
  "executeParallelGroup H calls n l =
     (case pool_loop H calls (pool_start n l) of
        (Some e, g) \<Rightarrow> (Inl e, gr_log g)
      | (None, g) \<Rightarrow> (Inr (gr_next g, gr_concludes g, gr_boundary g), gr_log g))"

section \<open>The calls of a step\<close>

text \<open>Whether the next call goes to the pool.\<close>

definition goes_parallel :: "'w tool_host \<Rightarrow> ToolCall \<Rightarrow> 'w tool_log \<Rightarrow> bool \<times> 'w tool_log" where
  "goes_parallel H c l =
     (case lp_parse H (tc_Arguments c) of
        None \<Rightarrow> (False, l)
      | Some args \<Rightarrow>
          (case lp_safe H (tc_Name c) args (tl_world l) of
             (s, w) \<Rightarrow> (s \<and> \<not> effectiveMaxParallelToolCalls H w \<le> 1, l\<lparr>tl_world := w\<rparr>)))"

text \<open>
  The registry is asked again when the pool starts, and may answer differently; a call it keeps moving
  between the two would keep the loop, so the number of turns is fuel.
\<close>

fun call_loop ::
    "nat \<Rightarrow> 'w tool_host \<Rightarrow> ToolCall list \<Rightarrow> nat \<Rightarrow> bool \<Rightarrow> nat \<Rightarrow> 'w tool_log \<Rightarrow> ((loop_error + bool \<times> nat) \<times> 'w tool_log) option" where
  "call_loop 0 H calls n concludes boundary l = None"
| "call_loop (Suc fuel) H calls n concludes boundary l =
     (if \<not> n < length calls then Some (Inr (concludes, boundary), l)
      else case tool_cancelled H l of
        (True, l) \<Rightarrow>
          (case appendAbortedCalls H (drop n calls) l of (Some e, l) \<Rightarrow> Some (Inl e, l) | (None, l) \<Rightarrow> Some (Inl ErrCancelled, l))
      | (False, l) \<Rightarrow>
          (case goes_parallel H (calls ! n) l of
             (False, l) \<Rightarrow>
               (case startToolCall H (calls ! n) l of
                  (Inl e, l) \<Rightarrow> Some (Inl e, l)
                | (Inr oc, l) \<Rightarrow>
                    (case commitToolOutcome H oc l of
                       (Inl e, l) \<Rightarrow> Some (Inl e, l)
                     | (Inr q, l) \<Rightarrow> call_loop fuel H calls (n + 1) (concludes \<or> rt_ConcludesTurn (oc_res oc)) q l))
           | (True, l) \<Rightarrow>
               (case executeParallelGroup H calls n l of
                  (Inl e, l) \<Rightarrow> Some (Inl e, l)
                | (Inr (n', c, q), l) \<Rightarrow> call_loop fuel H calls n' (concludes \<or> c) (max boundary q) l)))"

definition executeCalls :: "nat \<Rightarrow> 'w tool_host \<Rightarrow> ToolCall list \<Rightarrow> 'w tool_log \<Rightarrow> ((loop_error + bool \<times> nat) \<times> 'w tool_log) option" where
  "executeCalls fuel H calls l = call_loop fuel H calls 0 False 0 l"

end
