(* ===== verification/Loop_Protocol.thy ===== *)
theory Loop_Protocol
  imports Loop_Tools
begin

text \<open>
  The protocol of the tool rows of a step, and that the loop keeps it whatever the registry, the log, the
  context and the order in which calls settle: calls and results stand in the order of the model, a result
  cites its own call, and no more calls are open than the pool may hold.
\<close>

section \<open>The protocol\<close>

text \<open>The state is the positions of the calls so far and how many of them are answered.\<close>

fun proto_step :: "int \<Rightarrow> ToolCall list \<Rightarrow> nat \<times> tool_row \<Rightarrow> nat list \<times> nat \<Rightarrow> (nat list \<times> nat) option" where
  "proto_step m cs (q, RowCall c) (sq, r) =
     (if length sq < length cs \<and> c = cs ! length sq \<and> int (length sq) - int r < m then Some (sq @ [q], r) else None)"
| "proto_step m cs (q, RowResult c src p) (sq, r) =
     (if r < length sq \<and> c = cs ! r \<and> src = sq ! r then Some (sq, r + 1) else None)"
| "proto_step m cs (q, RowContext x) (sq, r) = Some (sq, r)"

fun protocol :: "int \<Rightarrow> ToolCall list \<Rightarrow> (nat \<times> tool_row) list \<Rightarrow> nat list \<times> nat \<Rightarrow> (nat list \<times> nat) option" where
  "protocol m cs [] s = Some s"
| "protocol m cs (x # xs) s = (case proto_step m cs x s of None \<Rightarrow> None | Some s \<Rightarrow> protocol m cs xs s)"

lemma protocol_snoc:
  "protocol m cs (xs @ [x]) s = (case protocol m cs xs s of None \<Rightarrow> None | Some s \<Rightarrow> proto_step m cs x s)"
  by (induction xs arbitrary: s) (simp_all split: option.split)

text \<open>The rows a log took after \<open>P\<close> follow the protocol up to a state.\<close>

definition tracks :: "int \<Rightarrow> ToolCall list \<Rightarrow> (nat \<times> tool_row) list \<Rightarrow> 'w tool_log \<Rightarrow> nat list \<Rightarrow> nat \<Rightarrow> bool" where
  "tracks m cs P l sq r \<longleftrightarrow> (\<exists>R. tl_rows l = P @ R \<and> protocol m cs R ([], 0) = Some (sq, r))"

lemma tracks_rows: "tl_rows l' = tl_rows l \<Longrightarrow> tracks m cs P l' sq r = tracks m cs P l sq r"
  by (simp add: tracks_def)

lemma tracks_row: "tracks m cs P l sq r \<Longrightarrow> proto_step m cs x (sq, r) = Some (sq', r') \<Longrightarrow> tl_rows l' = tl_rows l @ [x] \<Longrightarrow>
    tracks m cs P l' sq' r'"
  unfolding tracks_def by (metis append_assoc option.simps(5) protocol_snoc)

lemma tool_append_cases:
  obtains (refused) e l' where "tool_append H row l = (Inl (ErrAppend e), l')" "tl_rows l' = tl_rows l"
  | (taken) q l' where "tool_append H row l = (Inr q, l')" "tl_rows l' = tl_rows l @ [(q, row)]"
proof -
  obtain v w where v: "lp_append H row (tl_world l) = (v, w)" by fastforce
  show thesis
  proof (cases v)
    case (Inl e)
    then show thesis using v that(1) [of e "l\<lparr>tl_world := w\<rparr>"] by (simp add: tool_append_def)
  next
    case (Inr q)
    then show thesis using v that(2) [of q "l\<lparr>tl_world := w, tl_rows := tl_rows l @ [(q, row)]\<rparr>"] by (simp add: tool_append_def)
  qed
qed

lemma append_contexts_tracks:
  assumes "append_contexts H ms l = (e, l')" "tracks m cs P l sq r"
  shows "tracks m cs P l' sq r" "e \<noteq> Some ErrCancelled"
proof -
  have "tracks m cs P l' sq r \<and> e \<noteq> Some ErrCancelled" using assms
  proof (induction ms arbitrary: l)
    case (Cons x ms)
    show ?case
    proof (cases rule: tool_append_cases [of H "RowContext x" l])
      case (refused f l1)
      then have "e = Some (ErrAppend f)" "l' = l1" using Cons.prems(1) by simp_all
      then show ?thesis using Cons.prems(2) refused(2) tracks_rows by blast
    next
      case (taken q l1)
      have "tracks m cs P l1 sq r" using tracks_row [OF Cons.prems(2) _ taken(2)] by simp
      then show ?thesis using Cons.IH [of l1] Cons.prems(1) taken(1) by simp
    qed
  qed simp
  then show "tracks m cs P l' sq r" "e \<noteq> Some ErrCancelled" by blast+
qed

text \<open>Committing answers the oldest open call, or the log refused a row.\<close>

definition answers :: "ToolCall list \<Rightarrow> nat list \<Rightarrow> nat \<Rightarrow> toolCallOutcome \<Rightarrow> bool" where
  "answers cs sq i oc \<longleftrightarrow> i < length sq \<and> oc_call oc = cs ! i \<and> oc_callSeq oc = sq ! i"

lemma commit_tracks:
  assumes "tracks m cs P l sq r" "answers cs sq r oc" "commitToolOutcome H oc l = (v, l')"
  shows "(\<exists>q. v = Inr q \<and> tracks m cs P l' sq (r + 1)) \<or>
    (\<exists>e. v = Inl e \<and> e \<noteq> ErrCancelled \<and> (\<exists>r'. tracks m cs P l' sq r'))"
proof (cases rule: tool_append_cases [of H "RowResult (oc_call oc) (oc_callSeq oc) (outcome_payload oc)" l])
  case (refused e l1)
  then have "v = Inl (ErrAppend e)" "l' = l1" using assms(3) by (simp_all add: commitToolOutcome_def)
  then show ?thesis using assms(1) refused(2) tracks_rows by blast
next
  case (taken q l1)
  have t: "tracks m cs P l1 sq (r + 1)" using tracks_row [OF assms(1) _ taken(2)] assms(2) by (simp add: answers_def)
  obtain x l2 where c: "append_contexts H (additional_contexts (oc_res oc)) l1 = (x, l2)" by fastforce
  note ct = append_contexts_tracks [OF c t]
  show ?thesis
  proof (cases x)
    case None
    then have "v = Inr q" "l' = l2" using assms(3) taken(1) c by (simp_all add: commitToolOutcome_def)
    then show ?thesis using ct(1) by blast
  next
    case (Some e)
    then have "v = Inl e" "l' = l2" using assms(3) taken(1) c by (simp_all add: commitToolOutcome_def)
    then show ?thesis using ct Some by blast
  qed
qed

lemma aborted_tracks:
  assumes "appendAbortedCalls H (drop n cs) l = (v, l')" "tracks m cs P l sq n" "length sq = n" "0 < m"
  shows "(v = None \<and> n \<le> length cs \<longrightarrow> (\<exists>sq. length sq = length cs \<and> tracks m cs P l' sq (length cs))) \<and>
    (\<exists>sq r. tracks m cs P l' sq r) \<and> v \<noteq> Some ErrCancelled"
  using assms
proof (induction "length cs - n" arbitrary: n l sq)
  case 0
  then have "drop n cs = []" by simp
  then have "v = None" "l' = l" using 0 by simp_all
  moreover have "n \<le> length cs \<Longrightarrow> n = length cs" using 0 by simp
  ultimately show ?case using 0 by blast
next
  case (Suc k)
  then have n: "n < length cs" by simp
  then have d: "drop n cs = cs ! n # drop (n + 1) cs" by (simp add: Cons_nth_drop_Suc)
  show ?case
  proof (cases rule: tool_append_cases [of H "RowCall (cs ! n)" l])
    case (refused e l1)
    then have "v = Some (ErrAppend e)" "l' = l1" using Suc.prems(1) d by simp_all
    then show ?thesis using Suc.prems(2) refused(2) tracks_rows by blast
  next
    case (taken q l1)
    have t1: "tracks m cs P l1 (sq @ [q]) n" using tracks_row [OF Suc.prems(2) _ taken(2)] Suc.prems(3,4) n by simp
    show ?thesis
    proof (cases rule: tool_append_cases [of H "RowResult (cs ! n) q PayAborted" l1])
      case (refused e l2)
      then have "v = Some (ErrAppend e)" "l' = l2" using Suc.prems(1) d taken(1) by simp_all
      then show ?thesis using t1 refused(2) tracks_rows by blast
    next
      case r: (taken q' l2)
      have t2: "tracks m cs P l2 (sq @ [q]) (n + 1)" using tracks_row [OF t1 _ r(2)] Suc.prems(3) by (simp add: nth_append)
      have run: "appendAbortedCalls H (drop (n + 1) cs) l2 = (v, l')" using Suc.prems(1) d taken(1) r(1) by simp
      have "k = length cs - (n + 1)" "length (sq @ [q]) = n + 1" using Suc.hyps(2) Suc.prems(3) by simp_all
      from Suc.hyps(1) [OF this(1) run t2 this(2) Suc.prems(4)] n show ?thesis by auto
    qed
  qed
qed


section \<open>The pool\<close>

definition open_calls :: "'w tool_group \<Rightarrow> nat set" where
  "open_calls g = {gr_committed g..<gr_started g}"

definition pool_ok :: "ToolCall list \<Rightarrow> nat list \<Rightarrow> 'w tool_group \<Rightarrow> bool" where
  "pool_ok cs sq g \<longleftrightarrow> gr_started g = length sq \<and> gr_next g = length sq \<and> gr_committed g \<le> length sq \<and> length sq \<le> length cs \<and>
     distinct (map fst (gr_running g)) \<and> distinct (map fst (gr_ready g)) \<and>
     keys (gr_running g) \<inter> keys (gr_ready g) = {} \<and> keys (gr_running g) \<union> keys (gr_ready g) = open_calls g \<and>
     (\<forall>(i, oc) \<in> set (gr_ready g). answers cs sq i oc) \<and>
     (\<forall>(i, c, q) \<in> set (gr_running g). i < length sq \<and> c = cs ! i \<and> q = sq ! i)"

lemma pool_okD:
  assumes "pool_ok cs sq g"
  shows "gr_started g = length sq" "gr_next g = length sq" "gr_committed g \<le> length sq" "length sq \<le> length cs"
    "distinct (map fst (gr_running g))" "distinct (map fst (gr_ready g))"
    "keys (gr_running g) \<inter> keys (gr_ready g) = {}" "keys (gr_running g) \<union> keys (gr_ready g) = open_calls g"
    "\<forall>(i, oc) \<in> set (gr_ready g). answers cs sq i oc"
    "\<forall>(i, c, q) \<in> set (gr_running g). i < length sq \<and> c = cs ! i \<and> q = sq ! i"
  using assms unfolding pool_ok_def by blast+

definition pool_inv :: "int \<Rightarrow> ToolCall list \<Rightarrow> (nat \<times> tool_row) list \<Rightarrow> nat list \<Rightarrow> 'w tool_group \<Rightarrow> bool" where
  "pool_inv m cs P sq g \<longleftrightarrow> pool_ok cs sq g \<and> tracks m cs P (gr_log g) sq (gr_committed g)"

text \<open>After a row the log refused the protocol still holds, wherever it stands.\<close>

definition stopped :: "int \<Rightarrow> ToolCall list \<Rightarrow> (nat \<times> tool_row) list \<Rightarrow> 'w tool_log \<Rightarrow> bool" where
  "stopped m cs P l \<longleftrightarrow> (\<exists>sq r. tracks m cs P l sq r)"

lemma pool_width:
  assumes "pool_ok cs sq g"
  shows "length (gr_running g) + length (gr_ready g) = gr_started g - gr_committed g"
proof -
  note d = pool_okD(5-8) [OF assms]
  have "length (gr_running g) = card (keys (gr_running g))" "length (gr_ready g) = card (keys (gr_ready g))"
    using distinct_card [OF d(1)] distinct_card [OF d(2)] by simp_all
  then have "length (gr_running g) + length (gr_ready g) = card (open_calls g)" using d(3,4) card_Un_disjoint by (metis List.finite_set finite_imageI)
  then show ?thesis by (simp add: open_calls_def)
qed

lemma key_leaves: "A \<inter> B = {} \<Longrightarrow> A \<union> B = C \<Longrightarrow> x \<in> B \<Longrightarrow> A \<union> (B - {x}) = C - {x}"
  by blast

lemma key_joins:
  "A \<inter> B = {} \<Longrightarrow> x \<notin> B \<Longrightarrow> insert x A \<inter> B = {}" "A \<union> B = C \<Longrightarrow> insert x A \<union> B = insert x C"
  "A \<inter> B = {} \<Longrightarrow> x \<notin> A \<Longrightarrow> A \<inter> insert x B = {}" "A \<union> B = C \<Longrightarrow> A \<union> insert x B = insert x C"
  by blast+

lemma key_moves: "A \<inter> B = {} \<Longrightarrow> A \<union> B = C \<Longrightarrow> x \<in> A \<Longrightarrow> (A - {x}) \<inter> insert x B = {} \<and> (A - {x}) \<union> insert x B = C"
  by blast

lemma keys_delete: "keys (AList.delete k xs) = keys xs - {k}"
  by (induction xs) auto

lemma pool_commit:
  assumes ok: "pool_ok cs sq g" and lt: "gr_committed g < gr_started g" and oc: "map_of (gr_ready g) (gr_committed g) = Some oc"
  shows "answers cs sq (gr_committed g) oc" "pool_ok cs sq (committed oc q l g)"
proof -
  have mem: "(gr_committed g, oc) \<in> set (gr_ready g)" using oc by (rule map_of_SomeD)
  note d = pool_okD [OF ok]
  show "answers cs sq (gr_committed g) oc" using d(9) mem by blast
  let ?r = "AList.delete (gr_committed g) (gr_ready g)" and ?g = "committed oc q l g"
  have g: "gr_running ?g = gr_running g" "gr_ready ?g = ?r" "gr_started ?g = gr_started g" "gr_next ?g = gr_next g" "gr_committed ?g = gr_committed g + 1"
    by (simp_all add: committed_def)
  have keys: "keys ?r = keys (gr_ready g) - {gr_committed g}" by (rule keys_delete)
  have "gr_committed g \<in> keys (gr_ready g)" using mem by force
  from key_leaves [OF d(7,8) this] have un: "keys (gr_running g) \<union> keys ?r = open_calls g - {gr_committed g}" unfolding keys .
  have "open_calls g - {gr_committed g} = open_calls ?g" by (auto simp: open_calls_def g)
  then have un': "keys (gr_running ?g) \<union> keys (gr_ready ?g) = open_calls ?g" using un g(1,2) by simp
  have dis: "keys (gr_running ?g) \<inter> keys (gr_ready ?g) = {}" using d(7) keys g(1,2) by auto
  have dr: "distinct (map fst (gr_ready ?g))" using distinct_delete [OF d(6)] g(2) by simp
  have an: "\<forall>(i, oc) \<in> set (gr_ready ?g). answers cs sq i oc" using d(9) unfolding g(2) AList.delete_eq by auto
  have c: "gr_committed ?g \<le> length sq" using lt d(1) g(5) by simp
  show "pool_ok cs sq ?g" unfolding pool_ok_def
    using d(1-5,10) un' dis dr an c g by simp
qed

lemma commitReady_inv:
  assumes "commitReady H g = (e, g')" "pool_inv m cs P sq g"
  shows "case e of None \<Rightarrow> pool_inv m cs P sq g' \<and> (gr_committed g' < gr_started g' \<longrightarrow> map_of (gr_ready g') (gr_committed g') = None)
    | Some x \<Rightarrow> x \<noteq> ErrCancelled \<and> stopped m cs P (gr_log g')"
  using assms
proof (induction rule: commitReady_induct)
  case (stop g)
  then show ?case by auto
next
  case (failed g oc x l)
  have "answers cs sq (gr_committed g) oc" using failed.prems pool_commit(1) [OF _ failed(1,2)] by (simp add: pool_inv_def)
  moreover have "tracks m cs P (gr_log g) sq (gr_committed g)" using failed.prems by (simp add: pool_inv_def)
  ultimately have "x \<noteq> ErrCancelled \<and> (\<exists>r'. tracks m cs P l sq r')" using commit_tracks [OF _ _ failed(3)] by fastforce
  then show ?case by (auto simp: stopped_def)
next
  case (step g oc q l e g')
  have ok: "answers cs sq (gr_committed g) oc" "pool_ok cs sq (committed oc q l g)"
    using step.prems pool_commit [OF _ step(1,2)] by (simp_all add: pool_inv_def)
  have "tracks m cs P l sq (gr_committed g + 1)" using commit_tracks [OF _ ok(1) step(3)] step.prems by (auto simp: pool_inv_def)
  then have "pool_inv m cs P sq (committed oc q l g)" using ok(2) by (simp add: pool_inv_def committed_def)
  then show ?case by (rule step.IH)
qed

lemma update_members: "set (AList.update k v xs) \<subseteq> insert (k, v) (set xs)"
  by (induction xs) auto

lemma settle_inv:
  assumes "pool_inv m cs P sq g" "gr_running g \<noteq> []"
  shows "pool_inv m cs P sq (settle_one H g)"
proof -
  obtain k res err w where s: "lp_settle H (map fst (gr_running g)) (tl_world (gr_log g)) = ((k, res, err), w)" by (metis prod.collapse)
  obtain i c q where x: "gr_running g ! (k mod length (gr_running g)) = (i, c, q)" by (metis prod.collapse)
  have "k mod length (gr_running g) < length (gr_running g)" using assms(2) by simp
  then have mem: "(i, c, q) \<in> set (gr_running g)" using nth_mem x by metis
  define oc where "oc = \<lparr>oc_call = c, oc_callSeq = q, oc_res = res, oc_err = err\<rparr>"
  let ?run = "AList.delete i (gr_running g)" and ?rdy = "AList.update i oc (gr_ready g)" and ?g = "settle_one H g"
  have "?g = g\<lparr>gr_log := (gr_log g)\<lparr>tl_world := w\<rparr>, gr_running := ?run, gr_ready := ?rdy\<rparr>"
    using s x by (simp add: settle_one_def Let_def oc_def)
  then have g: "gr_running ?g = ?run" "gr_ready ?g = ?rdy" by simp_all
  have ok: "pool_ok cs sq g" and tr: "tracks m cs P (gr_log g) sq (gr_committed g)" using assms(1) by (simp_all add: pool_inv_def)
  note d = pool_okD [OF ok]
  have i: "i \<in> keys (gr_running g)" using mem by force
  have run: "keys ?run = keys (gr_running g) - {i}" by (rule keys_delete)
  have rdy: "keys ?rdy = insert i (keys (gr_ready g))" using dom_update [of i oc "gr_ready g"] by simp
  have "answers cs sq i oc" using d(10) mem by (auto simp: answers_def oc_def)
  then have an: "\<forall>(j, oc) \<in> set ?rdy. answers cs sq j oc" using d(9) update_members [of i oc "gr_ready g"] by blast
  have rn: "\<forall>(j, c, q) \<in> set ?run. j < length sq \<and> c = cs ! j \<and> q = sq ! j" using d(10) unfolding AList.delete_eq by auto
  have op: "open_calls ?g = open_calls g" by (simp add: open_calls_def settle_next)
  have sets: "keys ?run \<inter> keys ?rdy = {}" "keys ?run \<union> keys ?rdy = open_calls ?g" unfolding run rdy op using key_moves [OF d(7,8) i] by simp_all
  have "pool_ok cs sq ?g" unfolding pool_ok_def settle_next g
    using d(1-4) distinct_delete [OF d(5)] distinct_update [OF d(6)] sets an rn by simp
  moreover have "tracks m cs P (gr_log ?g) sq (gr_committed ?g)" using tr by (simp add: settle_next tracks_def)
  ultimately show ?thesis by (simp add: pool_inv_def)
qed

lemma drain_inv:
  assumes "pool_inv m cs P sq g"
  shows "pool_inv m cs P sq (drain H g) \<and> gr_running (drain H g) = []"
  using assms
proof (induction H g rule: drain.induct)
  case (1 H g)
  show ?case
  proof (cases "gr_running g = []")
    case True
    then show ?thesis using "1.prems" by (simp add: drain.simps [of H g])
  next
    case False
    then show ?thesis using "1.IH" [OF False settle_inv [OF "1.prems" False]] by (simp add: drain.simps [of H g])
  qed
qed

lemma drain_rows: "tl_rows (gr_log (drain H g)) = tl_rows (gr_log g)"
proof (induction H g rule: drain.induct)
  case (1 H g)
  then show ?case by (cases "gr_running g = []") (simp_all add: drain.simps [of H g] settle_next)
qed

lemma stopped_drain: "stopped m cs P (gr_log (drain H g)) = stopped m cs P (gr_log g)"
  by (simp add: stopped_def tracks_def drain_rows)

text \<open>What the filling loop has seen before it starts a call.\<close>

lemma may_start_inv:
  assumes "may_start H cs g = (b, g1)" "pool_inv m cs P sq g"
  shows "pool_inv m cs P sq g1"
    "b \<Longrightarrow> \<exists>w. int (length (gr_running g1) + length (gr_ready g1)) < effectiveMaxParallelToolCalls H w"
proof -
  note k = may_start_keeps(1) [OF assms(1)]
  then show "pool_inv m cs P sq g1" using assms(2) by (simp add: pool_inv_def pool_ok_def open_calls_def tracks_def)
  assume b
  obtain c l where c: "tool_cancelled H (gr_log g) = (c, l)" by fastforce
  have "int (length (gr_running g) + length (gr_ready g)) < effectiveMaxParallelToolCalls H (tl_world l)"
    using assms(1) c \<open>b\<close> by (cases c) (auto simp: may_start_def split: if_splits)
  then show "\<exists>w. int (length (gr_running g1) + length (gr_ready g1)) < effectiveMaxParallelToolCalls H w" using k by auto
qed

text \<open>A call that has just begun is one more key, among the running or among the ready.\<close>

lemma begun_ok:
  assumes "pool_ok cs sq g" "length sq < length cs"
  shows "pool_ok cs (sq @ [q]) ((begun l g)\<lparr>gr_running := AList.update (gr_next g) (cs ! gr_next g, q) (gr_running g)\<rparr>)" (is ?R)
    "oc_call oc = cs ! gr_next g \<Longrightarrow> oc_callSeq oc = q \<Longrightarrow>
      pool_ok cs (sq @ [q]) ((begun l g)\<lparr>gr_ready := AList.update (gr_next g) oc (gr_ready g)\<rparr>)"
proof -
  let ?n = "gr_next g"
  note d = pool_okD [OF assms(1)]
  have n: "?n = length sq" by (rule d(2))
  have fresh: "?n \<notin> keys (gr_running g)" "?n \<notin> keys (gr_ready g)"
  proof -
    have "?n \<notin> open_calls g" using d(1,2) by (simp add: open_calls_def)
    then show "?n \<notin> keys (gr_running g)" "?n \<notin> keys (gr_ready g)" unfolding d(8) [symmetric] Un_iff de_Morgan_disj by (rule conjunct1, rule conjunct2)
  qed
  have b: "gr_started (begun l g) = length (sq @ [q])" "gr_next (begun l g) = length (sq @ [q])" "gr_committed (begun l g) = gr_committed g"
    "gr_running (begun l g) = gr_running g" "gr_ready (begun l g) = gr_ready g"
    using d(1,2) by (simp_all add: begun_def)
  have le: "gr_committed g \<le> length (sq @ [q])" "length (sq @ [q]) \<le> length cs" using d(3) assms(2) by simp_all
  have opens: "{gr_committed g..<length (sq @ [q])} = insert ?n {gr_committed g..<gr_started g}" using d(1-3) by auto
  have old: "\<forall>(i, oc) \<in> set (gr_ready g). answers cs (sq @ [q]) i oc"
    "\<forall>(i, c, q') \<in> set (gr_running g). i < length (sq @ [q]) \<and> c = cs ! i \<and> q' = (sq @ [q]) ! i"
    using d(9,10) by (auto simp: answers_def nth_append)
  have run: "\<forall>(i, c, q') \<in> set (AList.update ?n (cs ! ?n, q) (gr_running g)). i < length (sq @ [q]) \<and> c = cs ! i \<and> q' = (sq @ [q]) ! i"
  proof
    fix x
    assume "x \<in> set (AList.update ?n (cs ! ?n, q) (gr_running g))"
    then have "x = (?n, cs ! ?n, q) \<or> x \<in> set (gr_running g)" using update_members by fast
    then show "case x of (i, c, q') \<Rightarrow> i < length (sq @ [q]) \<and> c = cs ! i \<and> q' = (sq @ [q]) ! i" using old(2) n by auto
  qed
  have kr: "keys (AList.update ?n (cs ! ?n, q) (gr_running g)) = insert ?n (keys (gr_running g))"
    using dom_update [of ?n "(cs ! ?n, q)" "gr_running g"] by simp
  have "insert ?n (keys (gr_running g)) \<inter> keys (gr_ready g) = {}" "insert ?n (keys (gr_running g)) \<union> keys (gr_ready g) = insert ?n {gr_committed g..<gr_started g}"
    by (rule key_joins(1) [OF d(7) fresh(2)], rule key_joins(2) [OF d(8) [unfolded open_calls_def]])
  then show ?R unfolding pool_ok_def open_calls_def
    using b le opens old(1) run kr d(6) distinct_update [OF d(5)] by simp
  assume oc: "oc_call oc = cs ! ?n" "oc_callSeq oc = q"
  have rdy: "\<forall>(i, oc) \<in> set (AList.update ?n oc (gr_ready g)). answers cs (sq @ [q]) i oc"
  proof
    fix x
    assume "x \<in> set (AList.update ?n oc (gr_ready g))"
    then have "x = (?n, oc) \<or> x \<in> set (gr_ready g)" using update_members by fast
    then show "case x of (i, oc) \<Rightarrow> answers cs (sq @ [q]) i oc" using old(1) n oc by (auto simp: answers_def)
  qed
  have kd: "keys (AList.update ?n oc (gr_ready g)) = insert ?n (keys (gr_ready g))" using dom_update [of ?n oc "gr_ready g"] by simp
  have "keys (gr_running g) \<inter> insert ?n (keys (gr_ready g)) = {}" "keys (gr_running g) \<union> insert ?n (keys (gr_ready g)) = insert ?n {gr_committed g..<gr_started g}"
    by (rule key_joins(3) [OF d(7) fresh(1)], rule key_joins(4) [OF d(8) [unfolded open_calls_def]])
  then show "pool_ok cs (sq @ [q]) ((begun l g)\<lparr>gr_ready := AList.update ?n oc (gr_ready g)\<rparr>)" unfolding pool_ok_def open_calls_def
    using b le opens old(2) rdy kd d(5) distinct_update [OF d(6)] by simp
qed


lemma start_next_inv:
  assumes "start_next H cs g = (e, g')" "pool_inv m cs P sq g" "gr_next g < length cs"
    "int (length (gr_running g) + length (gr_ready g)) < m"
  shows "case e of None \<Rightarrow> (\<exists>sq. pool_inv m cs P sq g') | Some x \<Rightarrow> x \<noteq> ErrCancelled \<and> stopped m cs P (gr_log g')"
proof -
  have ok: "pool_ok cs sq g" and tr: "tracks m cs P (gr_log g) sq (gr_committed g)" using assms(2) by (simp_all add: pool_inv_def)
  note d = pool_okD(1-4) [OF ok]
  let ?n = "gr_next g" and ?c = "cs ! gr_next g"
  have lt: "length sq < length cs" using assms(3) d(2) by simp
  have "int (length sq) - int (gr_committed g) < m" using assms(4) pool_width [OF ok] d(1,3) by linarith
  then have st: "proto_step m cs (q, RowCall ?c) (sq, gr_committed g) = Some (sq @ [q], gr_committed g)" for q using lt d(2) by simp
  show ?thesis
  proof (cases rule: tool_append_cases [of H "RowCall ?c" "gr_log g"])
    case (refused x l)
    then have "e = Some (ErrAppend x)" "g' = g\<lparr>gr_log := l\<rparr>" using assms(1) by (simp_all add: start_next_def Let_def)
    then show ?thesis using tr refused(2) by (auto simp: stopped_def tracks_def)
  next
    case (taken q l)
    obtain p w where p: "lp_prepare H ?c (lp_parse H (tc_Arguments ?c)) (tl_world l) = (p, w)" by fastforce
    let ?b = "begun (l\<lparr>tl_world := w\<rparr>) g"
    have tb: "tracks m cs P (l\<lparr>tl_world := w\<rparr>) (sq @ [q]) (gr_committed g)" using tracks_row [OF tr st, of "l\<lparr>tl_world := w\<rparr>"] taken(2) by simp
    show ?thesis
    proof (cases p)
      case (Some x)
      let ?oc = "\<lparr>oc_call = ?c, oc_callSeq = q, oc_res = no_result, oc_err = Some x\<rparr>"
      let ?g = "?b\<lparr>gr_ready := AList.update ?n ?oc (gr_ready g)\<rparr>"
      have run: "commitReady H ?g = (e, g')" using assms(1) taken(1) p Some by (simp add: start_next_def Let_def)
      have "pool_inv m cs P (sq @ [q]) ?g" using begun_ok(2) [OF ok lt] tb by (simp add: pool_inv_def begun_def)
      from commitReady_inv [OF run this] show ?thesis by (cases e) auto
    next
      case None
      let ?g = "?b\<lparr>gr_running := AList.update ?n (?c, q) (gr_running g)\<rparr>"
      have inv: "pool_inv m cs P (sq @ [q]) ?g" using begun_ok(1) [OF ok lt] tb by (simp add: pool_inv_def begun_def)
      obtain x g2 where run: "commitReady H ?g = (x, g2)" by fastforce
      have "start_next H cs g = (case (x, g2) of (Some e, g) \<Rightarrow> (Some e, drain H g) | (None, g) \<Rightarrow> (None, g))"
        using taken(1) p None run by (simp add: start_next_def Let_def)
      then have "e = x \<and> (x = None \<longrightarrow> g' = g2) \<and> (x \<noteq> None \<longrightarrow> g' = drain H g2)" using assms(1) by (cases x) simp_all
      with commitReady_inv [OF run inv] show ?thesis by (cases x) (auto simp: stopped_drain)
    qed
  qed
qed

lemma fill_inv:
  assumes "fill H cs g = (e, g')" "pool_inv m cs P sq g" "\<And>w. effectiveMaxParallelToolCalls H w \<le> m"
  shows "case e of None \<Rightarrow> (\<exists>sq. pool_inv m cs P sq g') | Some x \<Rightarrow> x \<noteq> ErrCancelled \<and> stopped m cs P (gr_log g')"
  using assms(1,2)
proof (induction "length cs - gr_next g" arbitrary: g sq rule: less_induct)
  case less
  obtain b g1 where b: "may_start H cs g = (b, g1)" by fastforce
  note inv1 = may_start_inv [OF b less.prems(2)]
  show ?case
  proof (cases b)
    case False
    then have "e = None" "g' = g1" using less.prems(1) b by (simp_all add: fill.simps [of H cs g])
    then show ?thesis using inv1(1) by auto
  next
    case True
    have next1: "gr_next g1 < length cs" "gr_next g1 = gr_next g" using may_start_keeps [OF b] True by simp_all
    have width: "int (length (gr_running g1) + length (gr_ready g1)) < m" using inv1(2) [OF True] assms(3) order_less_le_trans by blast
    obtain x g2 where s: "start_next H cs g1 = (x, g2)" by fastforce
    note inv2 = start_next_inv [OF s inv1(1) next1(1) width]
    show ?thesis
    proof (cases x)
      case (Some y)
      then have "e = Some y" "g' = g2" using less.prems(1) b True s by (simp_all add: fill.simps [of H cs g])
      then show ?thesis using inv2 Some by simp
    next
      case None
      have run: "fill H cs g2 = (e, g')" using less.prems(1) b True s None by (simp add: fill.simps [of H cs g])
      obtain sq2 where "pool_inv m cs P sq2 g2" using inv2 None by auto
      moreover have "length cs - gr_next g2 < length cs - gr_next g"
        using start_next_counts [OF s [unfolded None]] next1 by simp
      ultimately show ?thesis using less.hyps [OF _ run] by blast
    qed
  qed
qed

text \<open>What a stop of the loop leaves: cancelled, every call is answered; otherwise the log refused a row.\<close>

definition answered :: "int \<Rightarrow> ToolCall list \<Rightarrow> (nat \<times> tool_row) list \<Rightarrow> 'w tool_log \<Rightarrow> bool" where
  "answered m cs P l \<longleftrightarrow> (\<exists>sq. length sq = length cs \<and> tracks m cs P l sq (length cs))"

definition stops_well :: "int \<Rightarrow> ToolCall list \<Rightarrow> (nat \<times> tool_row) list \<Rightarrow> loop_error \<Rightarrow> 'w tool_log \<Rightarrow> bool" where
  "stops_well m cs P x l \<longleftrightarrow> stopped m cs P l \<and> (x = ErrCancelled \<longrightarrow> answered m cs P l)"

text \<open>A pool with nothing running commits everything.\<close>

lemma commitReady_all:
  assumes "commitReady H g = (None, g')" "pool_inv m cs P sq g" "gr_running g = []"
  shows "pool_inv m cs P sq g'" "gr_committed g' = length sq" "gr_next g' = length sq"
proof -
  have inv: "pool_inv m cs P sq g'" and stop: "gr_committed g' < gr_started g' \<longrightarrow> map_of (gr_ready g') (gr_committed g') = None"
    using commitReady_inv [OF assms(1,2)] by simp_all
  show "pool_inv m cs P sq g'" by (rule inv)
  have d: "gr_started g' = length sq" "gr_next g' = length sq" "gr_committed g' \<le> length sq" "keys (gr_running g') \<union> keys (gr_ready g') = open_calls g'"
    using inv unfolding pool_inv_def pool_ok_def by blast+
  have "gr_running g' = []" using commitReady_keeps [OF assms(1)] assms(3) by simp
  then have "keys (gr_ready g') = open_calls g'" using d(4) by simp
  then have "\<not> gr_committed g' < gr_started g'"
    using stop by (metis atLeastLessThan_iff map_of_eq_None_iff open_calls_def order_refl)
  then show "gr_committed g' = length sq" "gr_next g' = length sq" using d by simp_all
qed

lemma pool_cancelled_inv:
  assumes "pool_cancelled H cs g = (e, g')" "pool_inv m cs P sq g" "0 < m"
  shows "\<exists>x. e = Some x \<and> stops_well m cs P x (gr_log g')"
proof -
  have inv: "pool_inv m cs P sq (drain H g)" "gr_running (drain H g) = []" using drain_inv [OF assms(2)] by blast+
  obtain x g1 where c: "commitReady H (drain H g) = (x, g1)" by fastforce
  show ?thesis
  proof (cases x)
    case (Some y)
    then have "e = Some y" "g' = g1" using assms(1) c by (simp_all add: pool_cancelled_def)
    then show ?thesis using commitReady_inv [OF c inv(1)] Some by (simp add: stops_well_def)
  next
    case None
    note all = commitReady_all [OF c [unfolded None] inv]
    obtain y l where a: "appendAbortedCalls H (drop (gr_next g1) cs) (gr_log g1) = (y, l)" by fastforce
    have n: "length sq \<le> length cs" "tracks m cs P (gr_log g1) sq (length sq)"
      using all(1,2) unfolding pool_inv_def pool_ok_def by simp_all
    note ab = aborted_tracks [OF a [unfolded all(3)] n(2) refl assms(3)]
    have "e = Some (case y of None \<Rightarrow> ErrCancelled | Some z \<Rightarrow> z)" "gr_log g' = l"
      using assms(1) c None a by (cases y; auto simp: pool_cancelled_def)+
    then show ?thesis using ab n(1) by (cases y) (auto simp: stops_well_def stopped_def answered_def)
  qed
qed


lemma cancelled_rows: "tool_cancelled H l = (b, l') \<Longrightarrow> tl_rows l' = tl_rows l"
  using tool_cancelled_log [of H l] by simp

lemma pool_inv_rows: "pool_inv m cs P sq g \<Longrightarrow> tl_rows l = tl_rows (gr_log g) \<Longrightarrow> pool_inv m cs P sq (g\<lparr>gr_log := l\<rparr>)"
  by (simp add: pool_inv_def pool_ok_def open_calls_def tracks_def)

lemma pool_turn_inv:
  assumes "pool_turn H cs g = (e, g')" "pool_inv m cs P sq g" "0 < m" "\<And>w. effectiveMaxParallelToolCalls H w \<le> m"
  shows "case e of None \<Rightarrow> (\<exists>sq. pool_inv m cs P sq g' \<and> (gr_running g' = [] \<longrightarrow> gr_committed g' = length sq)) | Some x \<Rightarrow> stops_well m cs P x (gr_log g')"
proof -
  obtain x g1 where f: "fill H cs g = (x, g1)" by fastforce
  note fi = fill_inv [OF f assms(2,4)]
  show ?thesis
  proof (cases x)
    case (Some y)
    then have "e = Some y" "g' = drain H g1" using assms(1) f by (simp_all add: pool_turn_def)
    then show ?thesis using fi Some by (simp add: stops_well_def stopped_drain)
  next
    case None
    then obtain sq1 where inv1: "pool_inv m cs P sq1 g1" using fi by auto
    obtain y g2 where c: "commitReady H g1 = (y, g2)" by fastforce
    note ci = commitReady_inv [OF c inv1]
    show ?thesis
    proof (cases y)
      case (Some z)
      then have "e = Some z" "g' = drain H g2" using assms(1) f None c by (simp_all add: pool_turn_def)
      then show ?thesis using ci Some by (simp add: stops_well_def stopped_drain)
    next
      case y: None
      then have inv2: "pool_inv m cs P sq1 g2" using ci by simp
      obtain b l where t: "tool_cancelled H (gr_log g2) = (b, l)" by fastforce
      have inv3: "pool_inv m cs P sq1 (g2\<lparr>gr_log := l\<rparr>)" using pool_inv_rows [OF inv2 cancelled_rows [OF t]] .
      show ?thesis
      proof (cases b)
        case True
        then have "pool_cancelled H cs (g2\<lparr>gr_log := l\<rparr>) = (e, g')" using assms(1) f None c y t by (simp add: pool_turn_def)
        from pool_cancelled_inv [OF this inv3 assms(3)] show ?thesis by auto
      next
        case False
        then have r: "e = None" "g' = g2\<lparr>gr_log := l\<rparr>" using assms(1) f None c y t by (simp_all add: pool_turn_def)
        have "gr_committed g2 = length sq1" if "gr_running g2 = []"
        proof -
          have "gr_running g1 = []" using commitReady_keeps [OF c] that by simp
          from commitReady_all(2) [OF c [unfolded y] inv1 this] show ?thesis .
        qed
        then show ?thesis using r inv3 by auto
      qed
    qed
  qed
qed

lemma pool_loop_inv:
  assumes "pool_loop H cs g = (e, g')" "pool_inv m cs P sq g" "0 < m" "\<And>w. effectiveMaxParallelToolCalls H w \<le> m"
  shows "case e of None \<Rightarrow> (\<exists>sq. length sq = gr_next g' \<and> gr_next g' \<le> length cs \<and> tracks m cs P (gr_log g') sq (gr_next g'))
    | Some x \<Rightarrow> stops_well m cs P x (gr_log g')"
  using assms(1,2)
proof (induction "pool_size cs g" arbitrary: g sq rule: less_induct)
  case less
  obtain x g1 where t: "pool_turn H cs g = (x, g1)" by fastforce
  note ti = pool_turn_inv [OF t less.prems(2) assms(3,4)]
  show ?case
  proof (cases x)
    case (Some y)
    then have "e = Some y" "g' = g1" using less.prems(1) t by (simp_all add: pool_loop.simps [of H cs g])
    then show ?thesis using ti Some by simp
  next
    case None
    then obtain sq1 where inv: "pool_inv m cs P sq1 g1" "gr_running g1 = [] \<longrightarrow> gr_committed g1 = length sq1" using ti by auto
    show ?thesis
    proof (cases "gr_running g1 = []")
      case True
      then have "e = None" "g' = g1" using less.prems(1) t None by (simp_all add: pool_loop.simps [of H cs g])
      then show ?thesis using inv True unfolding pool_inv_def pool_ok_def by auto
    next
      case False
      have run: "pool_loop H cs (settle_one H g1) = (e, g')" using less.prems(1) t None False by (simp add: pool_loop.simps [of H cs g])
      have "pool_size cs (settle_one H g1) < pool_size cs g"
        using pool_turn_counts(1) [OF t [unfolded None]] settle_shrinks [OF False, of H] by (simp add: pool_size_def settle_next)
      from less.hyps [OF this run settle_inv [OF inv(1) False]] show ?thesis .
    qed
  qed
qed

lemma group_inv:
  assumes "executeParallelGroup H cs n l = (v, l')" "tracks m cs P l sq n" "length sq = n" "n \<le> length cs" "0 < m"
    "\<And>w. effectiveMaxParallelToolCalls H w \<le> m"
  shows "case v of Inr (n', c, q) \<Rightarrow> n' \<le> length cs \<and> (\<exists>sq. length sq = n' \<and> tracks m cs P l' sq n') | Inl x \<Rightarrow> stops_well m cs P x l'"
proof -
  have inv: "pool_inv m cs P sq (pool_start n l)"
    using assms(2-4) by (simp add: pool_inv_def pool_ok_def pool_start_def open_calls_def)
  obtain e g where p: "pool_loop H cs (pool_start n l) = (e, g)" by fastforce
  show ?thesis using pool_loop_inv [OF p inv assms(5,6)] assms(1) p by (cases e) (auto simp: executeParallelGroup_def)
qed

section \<open>The calls of a step\<close>

lemma goes_parallel_rows: "goes_parallel H c l = (b, l') \<Longrightarrow> tl_rows l' = tl_rows l"
  by (auto simp: goes_parallel_def split: option.splits prod.splits)

lemma start_call_tracks:
  assumes "startToolCall H (cs ! n) l = (v, l')" "tracks m cs P l sq n" "length sq = n" "n < length cs" "0 < m"
  shows "case v of Inl x \<Rightarrow> stops_well m cs P x l' | Inr oc \<Rightarrow> \<exists>q. tracks m cs P l' (sq @ [q]) n \<and> answers cs (sq @ [q]) n oc"
proof (cases rule: tool_append_cases [of H "RowCall (cs ! n)" l])
  case (refused e l1)
  then have "v = Inl (ErrAppend e)" "l' = l1" using assms(1) by (simp_all add: startToolCall_def)
  then show ?thesis using assms(2) refused(2) by (auto simp: stops_well_def stopped_def tracks_def)
next
  case (taken q l1)
  have t: "tracks m cs P l1 (sq @ [q]) n" using tracks_row [OF assms(2) _ taken(2)] assms(3-5) by simp
  obtain p w where p: "lp_prepare H (cs ! n) (lp_parse H (tc_Arguments (cs ! n))) (tl_world l1) = (p, w)" by fastforce
  obtain res err w2 where x: "lp_execute H (cs ! n) w = ((res, err), w2)" by (metis prod.collapse)
  have "\<exists>oc. v = Inr oc \<and> oc_call oc = cs ! n \<and> oc_callSeq oc = q \<and> tl_rows l' = tl_rows l1"
    using assms(1) taken(1) p x by (cases p) (auto simp: startToolCall_def)
  then show ?thesis using t assms(3) by (auto simp: answers_def tracks_def)
qed

lemma call_loop_inv:
  assumes "call_loop fuel H cs n c b l = Some (v, l')" "tracks m cs P l sq n" "length sq = n" "n \<le> length cs" "0 < m"
    "\<And>w. effectiveMaxParallelToolCalls H w \<le> m"
  shows "case v of Inr _ \<Rightarrow> answered m cs P l' | Inl x \<Rightarrow> stops_well m cs P x l'"
  using assms(1-4)
proof (induction fuel arbitrary: n c b l sq)
  case (Suc fuel)
  show ?case
  proof (cases "n < length cs")
    case False
    then have "v = Inr (c, b)" "l' = l" using Suc.prems(1) by simp_all
    then show ?thesis using Suc.prems False by (auto simp: answered_def)
  next
    case True
    obtain k l1 where k: "tool_cancelled H l = (k, l1)" by fastforce
    have t1: "tracks m cs P l1 sq n" using Suc.prems(2) tracks_rows [OF cancelled_rows [OF k]] by simp
    show ?thesis
    proof (cases k)
      case kt: True
      obtain y l2 where a: "appendAbortedCalls H (drop n cs) l1 = (y, l2)" by fastforce
      have "v = Inl (case y of None \<Rightarrow> ErrCancelled | Some z \<Rightarrow> z)" "l' = l2"
        using Suc.prems(1) True k kt a by (cases y; auto)+
      then show ?thesis using aborted_tracks [OF a t1 Suc.prems(3) assms(5)] Suc.prems(4)
        by (cases y) (auto simp: stops_well_def stopped_def answered_def)
    next
      case kf: False
      obtain p l2 where p: "goes_parallel H (cs ! n) l1 = (p, l2)" by fastforce
      have t2: "tracks m cs P l2 sq n" using t1 tracks_rows [OF goes_parallel_rows [OF p]] by simp
      show ?thesis
      proof (cases p)
        case pt: True
        obtain r l3 where g: "executeParallelGroup H cs n l2 = (r, l3)" by fastforce
        note gi = group_inv [OF g t2 Suc.prems(3,4) assms(5,6)]
        show ?thesis
        proof (cases r)
          case (Inl x)
          then show ?thesis using Suc.prems(1) True k kf p pt g gi by auto
        next
          case (Inr y)
          obtain n' c' q where y: "y = (n', c', q)" using prod_cases3 by blast
          then show ?thesis using Suc.prems(1) True k kf p pt g gi Inr Suc.IH by auto
        qed
      next
        case pf: False
        obtain r l3 where s: "startToolCall H (cs ! n) l2 = (r, l3)" by fastforce
        note si = start_call_tracks [OF s t2 Suc.prems(3) True assms(5)]
        show ?thesis
        proof (cases r)
          case (Inl x)
          then show ?thesis using Suc.prems(1) True k kf p pf s si by auto
        next
          case (Inr oc)
          then obtain q where q: "tracks m cs P l3 (sq @ [q]) n" "answers cs (sq @ [q]) n oc" using si by auto
          obtain u l4 where u: "commitToolOutcome H oc l3 = (u, l4)" by fastforce
          note ct = commit_tracks [OF q u]
          show ?thesis
          proof (cases u)
            case (Inl x)
            then have "v = Inl x" "l' = l4" using Suc.prems(1) True k kf p pf s Inr u by auto
            moreover have "x \<noteq> ErrCancelled" "stopped m cs P l4" using ct Inl unfolding stopped_def by blast+
            ultimately show ?thesis by (simp add: stops_well_def)
          next
            case ur: (Inr q')
            have t4: "tracks m cs P l4 (sq @ [q]) (n + 1)" using ct ur by auto
            have "call_loop fuel H cs (n + 1) (c \<or> rt_ConcludesTurn (oc_res oc)) q' l4 = Some (v, l')"
              using Suc.prems(1) True k kf p pf s Inr u ur by simp
            from Suc.IH [OF this t4] Suc.prems(3) True show ?thesis by simp
          qed
        qed
      qed
    qed
  qed
qed simp


lemma limit_pos: "0 < effectiveMaxParallelToolCalls H w"
  by (simp add: effectiveMaxParallelToolCalls_def maxParallelToolCalls_def)

section \<open>Ending\<close>

text \<open>A pool whose first call is safe starts it, unless the context is cancelled.\<close>

lemma pool_starts:
  assumes "pool_turn H cs (pool_start n l) = (None, g')" "n < length cs" "lp_parse H (tc_Arguments (cs ! n)) = Some args"
    "\<And>w. fst (lp_safe H (tc_Name (cs ! n)) args w)"
  shows "n < gr_next g'"
proof -
  let ?g = "pool_start n l"
  obtain e g1 where f: "fill H cs ?g = (e, g1)" by fastforce
  then have e: "e = None" using assms(1) by (cases e) (simp_all add: pool_turn_def)
  obtain b g0 where m: "may_start H cs ?g = (b, g0)" by fastforce
  obtain c l1 where t: "tool_cancelled H l = (c, l1)" by fastforce
  show ?thesis
  proof (cases c)
    case True
    then have st: "b = False" "g0 = ?g\<lparr>gr_log := l1\<rparr>" using m t by (simp_all add: may_start_def pool_start_def)
    then have g1: "g1 = ?g\<lparr>gr_log := l1\<rparr>" using f m by (simp add: fill.simps [of H cs])
    have "commitReady H g1 = (None, g1)" by (rule commitReady_stop(1)) (simp add: g1 pool_start_def)
    moreover have "tl_cancelled l1" using t True by (auto simp: tool_cancelled_def split: if_splits prod.splits)
    then have "tool_cancelled H (gr_log g1) = (True, l1)" by (simp add: g1 tool_cancelled_def)
    ultimately have "pool_turn H cs ?g = pool_cancelled H cs (g1\<lparr>gr_log := l1\<rparr>)" using f e by (simp add: pool_turn_def)
    then show ?thesis using assms(1) pool_cancelled_stops [of H cs "g1\<lparr>gr_log := l1\<rparr>"] by (metis fst_conv)
  next
    case False
    have "int 0 < effectiveMaxParallelToolCalls H (tl_world l1)" using limit_pos [of H "tl_world l1"] by simp
    then have b: "b" using m t False assms(2,3,4) by (auto simp: may_start_def pool_start_def split: prod.splits) (metis fst_conv)+
    obtain x g2 where s: "start_next H cs g0 = (x, g2)" by fastforce
    then have x: "x = None" "fill H cs g2 = (None, g1)" using f e m b by (cases x; simp add: fill.simps [of H cs ?g])+
    have "gr_next g2 = n + 1" using start_next_counts [OF s [unfolded x(1)]] may_start_keeps(1) [OF m] by (simp add: pool_start_def)
    then have "n < gr_next g1" using fill_counts [OF x(2)] by simp
    moreover obtain y g3 where c: "commitReady H g1 = (y, g3)" by fastforce
    moreover have "y = None" using assms(1) f e c by (cases y) (simp_all add: pool_turn_def)
    moreover obtain k l3 where k: "tool_cancelled H (gr_log g3) = (k, l3)" by fastforce
    moreover have "\<not> k"
    proof
      assume k
      then have "pool_turn H cs ?g = pool_cancelled H cs (g3\<lparr>gr_log := l3\<rparr>)" using f e c \<open>y = None\<close> \<open>tool_cancelled H (gr_log g3) = (k, l3)\<close> by (simp add: pool_turn_def)
      then show False using assms(1) pool_cancelled_stops [of H cs "g3\<lparr>gr_log := l3\<rparr>"] by (metis fst_conv)
    qed
    ultimately have "g' = g3\<lparr>gr_log := l3\<rparr>" "n < gr_next g1" using assms(1) f e by (simp_all add: pool_turn_def)
    then show ?thesis using commitReady_keeps [OF c] by auto
  qed
qed

lemma pool_loop_next: "pool_loop H cs g = (None, g') \<Longrightarrow> gr_next g \<le> gr_next g'"
proof (induction "pool_size cs g" arbitrary: g rule: less_induct)
  case less
  obtain x g1 where t: "pool_turn H cs g = (x, g1)" by fastforce
  then have x: "x = None" using less.prems by (cases x) (simp_all add: pool_loop.simps [of H cs g])
  note cnt = pool_turn_counts [OF t [unfolded x]]
  show ?case
  proof (cases "gr_running g1 = []")
    case True
    then show ?thesis using less.prems t x cnt(2) by (simp add: pool_loop.simps [of H cs g])
  next
    case False
    then have "pool_loop H cs (settle_one H g1) = (None, g')" using less.prems t x by (simp add: pool_loop.simps [of H cs g])
    moreover have "pool_size cs (settle_one H g1) < pool_size cs g" using cnt(1) settle_shrinks [OF False, of H] by (simp add: pool_size_def settle_next)
    ultimately show ?thesis using less.hyps cnt(2) settle_next(1) [of H g1] by fastforce
  qed
qed

lemma group_advances:
  assumes "executeParallelGroup H cs n l = (Inr (n', c, q), l')" "n < length cs" "lp_parse H (tc_Arguments (cs ! n)) = Some args"
    "\<And>w. fst (lp_safe H (tc_Name (cs ! n)) args w)"
  shows "n < n'"
proof -
  obtain e g where p: "pool_loop H cs (pool_start n l) = (e, g)" by fastforce
  then have e: "e = None" "n' = gr_next g" using assms(1) by (cases e; simp add: executeParallelGroup_def)+
  obtain x g1 where t: "pool_turn H cs (pool_start n l) = (x, g1)" by fastforce
  then have x: "x = None" using p e by (cases x) (simp_all add: pool_loop.simps [of H cs "pool_start n l"])
  have lt: "n < gr_next g1" by (rule pool_starts [OF t [unfolded x] assms(2-4)])
  show ?thesis
  proof (cases "gr_running g1 = []")
    case True
    then show ?thesis using p e t x lt by (simp add: pool_loop.simps [of H cs "pool_start n l"])
  next
    case False
    then have "pool_loop H cs (settle_one H g1) = (None, g)" using p e t x by (simp add: pool_loop.simps [of H cs "pool_start n l"])
    from pool_loop_next [OF this] show ?thesis using lt e(2) by (simp add: settle_next)
  qed
qed

lemma call_loop_ends:
  assumes "\<And>name args w. fst (lp_safe H name args w) = safe name args"
  shows "length cs - n < fuel \<Longrightarrow> call_loop fuel H cs n c b l \<noteq> None"
proof (induction fuel arbitrary: n c b l)
  case (Suc fuel)
  show ?case
  proof (cases "n < length cs")
    case True
    have less: "n < n' \<Longrightarrow> length cs - n' < fuel" for n' using Suc.prems True by simp
    obtain k l1 where k: "tool_cancelled H l = (k, l1)" by fastforce
    obtain p l2 where p: "goes_parallel H (cs ! n) l1 = (p, l2)" by fastforce
    show ?thesis
    proof (cases k)
      case kf: False
      show ?thesis
      proof (cases p)
        case pt: True
        obtain args where args: "lp_parse H (tc_Arguments (cs ! n)) = Some args" "safe (tc_Name (cs ! n)) args"
          using p pt assms [of "tc_Name (cs ! n)"] by (auto simp: goes_parallel_def split: option.splits prod.splits) (metis fst_conv)
        obtain r l3 where g: "executeParallelGroup H cs n l2 = (r, l3)" by fastforce
        show ?thesis
        proof (cases r)
          case (Inr y)
          obtain n' c' q where y: "y = (n', c', q)" using prod_cases3 by blast
          have "n < n'" using group_advances [OF _ True args(1)] g Inr y args(2) assms by blast
          from Suc.IH [OF less [OF this]] show ?thesis using True k kf p pt g Inr y by simp
        qed (use True k kf p pt g in simp)
      next
        case pf: False
        obtain r l3 where s: "startToolCall H (cs ! n) l2 = (r, l3)" by fastforce
        have step: "call_loop fuel H cs (n + 1) c b l \<noteq> None" for c b l using Suc.IH [OF less [of "n + 1"]] by simp
        show ?thesis
        proof (cases r)
          case (Inr oc)
          obtain u l4 where u: "commitToolOutcome H oc l3 = (u, l4)" by fastforce
          then show ?thesis using step True k kf p pf s Inr by (cases u) auto
        qed (use True k kf p pf s in simp)
      qed
    qed (use True k in \<open>auto split: prod.splits option.splits\<close>)
  qed simp
qed simp


section \<open>The tool calls of a step\<close>

definition calls_of :: "(nat \<times> tool_row) list \<Rightarrow> (nat \<times> ToolCall) list" where
  "calls_of R = List.map_filter (\<lambda>(q, row). case row of RowCall c \<Rightarrow> Some (q, c) | _ \<Rightarrow> None) R"

definition results_of :: "(nat \<times> tool_row) list \<Rightarrow> (nat \<times> ToolCall) list" where
  "results_of R = List.map_filter (\<lambda>(q, row). case row of RowResult c src p \<Rightarrow> Some (src, c) | _ \<Rightarrow> None) R"

lemma protocol_rows: "protocol m cs R ([], 0) = Some (sq, r) \<Longrightarrow>
  length sq \<le> length cs \<and> r \<le> length sq \<and> calls_of R = zip sq (take (length sq) cs) \<and> results_of R = take r (calls_of R)"
proof (induction R arbitrary: sq r rule: rev_induct)
  case (snoc x R)
  then obtain sq0 r0 where p: "protocol m cs R ([], 0) = Some (sq0, r0)" "proto_step m cs x (sq0, r0) = Some (sq, r)"
    by (auto simp: protocol_snoc split: option.splits)
  note ih = snoc.IH [OF p(1)]
  obtain q row where x: "x = (q, row)" by fastforce
  have len: "length (calls_of R) = length sq0" using ih by simp
  show ?case
  proof (cases row)
    case (RowCall c)
    then have s: "length sq0 < length cs" "c = cs ! length sq0" "sq = sq0 @ [q]" "r = r0" using p(2) x by (auto split: if_splits)
    have "calls_of (R @ [x]) = calls_of R @ [(q, c)]" "results_of (R @ [x]) = results_of R"
      using x RowCall by (simp_all add: calls_of_def results_of_def List.map_filter_def)
    moreover have "zip sq (take (length sq) cs) = zip sq0 (take (length sq0) cs) @ [(q, c)]"
      using s by (simp add: take_Suc_conv_app_nth)
    ultimately show ?thesis using ih s len by simp
  next
    case (RowResult c src pay)
    then have s: "r0 < length sq0" "c = cs ! r0" "src = sq0 ! r0" "sq = sq0" "r = r0 + 1" using p(2) x by (auto split: if_splits)
    have "calls_of (R @ [x]) = calls_of R" "results_of (R @ [x]) = results_of R @ [(src, c)]"
      using x RowResult by (simp_all add: calls_of_def results_of_def List.map_filter_def)
    moreover have "calls_of R ! r0 = (src, c)" using ih s by simp
    ultimately show ?thesis using ih s len by (simp add: take_Suc_conv_app_nth)
  next
    case (RowContext y)
    then have "sq = sq0" "r = r0" using p(2) x by simp_all
    moreover have "calls_of (R @ [x]) = calls_of R" "results_of (R @ [x]) = results_of R"
      using x RowContext by (simp_all add: calls_of_def results_of_def List.map_filter_def)
    ultimately show ?thesis using ih by simp
  qed
qed (simp add: calls_of_def results_of_def List.map_filter_def)

text \<open>
  C11: However the tools settle and whatever the registry, the log and the context answer, the rows a step
  writes for its tool calls follow the protocol: calls and results in the order of the model, a result only
  after its call and citing it, never more calls open than the pool holds. Unless the log refused a row, also
  when the step is cancelled, every call has its row and its result.
\<close>

theorem tool_rows_protocol:
  assumes "executeCalls fuel H cs l = Some (v, l')" "\<And>w. effectiveMaxParallelToolCalls H w \<le> m"
  shows "\<exists>R sq r. tl_rows l' = tl_rows l @ R \<and> protocol m cs R ([], 0) = Some (sq, r) \<and>
    results_of R = take r (calls_of R) \<and>
    (v = Inl ErrCancelled \<or> isl v = False \<longrightarrow> map snd (calls_of R) = cs \<and> results_of R = calls_of R)"
proof -
  have m: "0 < m" using limit_pos [of H "tl_world l"] assms(2) [of "tl_world l"] by simp
  have start: "tracks m cs (tl_rows l) l [] 0" by (simp add: tracks_def)
  have inv: "case v of Inr _ \<Rightarrow> answered m cs (tl_rows l) l' | Inl x \<Rightarrow> stops_well m cs (tl_rows l) x l'"
    using call_loop_inv [OF assms(1) [unfolded executeCalls_def] start _ _ m assms(2)] by simp
  have full: "\<exists>R sq r. tl_rows l' = tl_rows l @ R \<and> protocol m cs R ([], 0) = Some (sq, r) \<and> results_of R = take r (calls_of R) \<and>
      map snd (calls_of R) = cs \<and> results_of R = calls_of R" if a: "answered m cs (tl_rows l) l'"
  proof -
    obtain R sq where R: "tl_rows l' = tl_rows l @ R" "protocol m cs R ([], 0) = Some (sq, length cs)" "length sq = length cs"
      using a unfolding answered_def tracks_def by blast
    note pr = protocol_rows [OF R(2)]
    have "calls_of R = zip sq cs" using pr R(3) by simp
    then have "map snd (calls_of R) = cs" "results_of R = calls_of R" using pr R(3) by simp_all
    then show ?thesis using R pr by blast
  qed
  show ?thesis
  proof (cases "v = Inl ErrCancelled \<or> isl v = False")
    case True
    then have "answered m cs (tl_rows l) l'" using inv by (cases v) (simp_all add: stops_well_def)
    then show ?thesis using full by blast
  next
    case False
    then obtain x where "v = Inl x" by (cases v) simp_all
    then have "stopped m cs (tl_rows l) l'" using inv by (simp add: stops_well_def)
    then obtain R sq r where "tl_rows l' = tl_rows l @ R" "protocol m cs R ([], 0) = Some (sq, r)" by (auto simp: stopped_def tracks_def)
    then show ?thesis using protocol_rows False by blast
  qed
qed

text \<open>
  C12: The tool calls of a step always come to an end, one more turn than calls being enough, when the
  registry's answer whether a call is safe does not change while they run.
\<close>

theorem tool_calls_end:
  assumes "\<And>name args w. fst (lp_safe H name args w) = safe name args"
  shows "\<exists>v l'. executeCalls (length cs + 1) H cs l = Some (v, l')"
  using call_loop_ends [of H safe cs 0 "length cs + 1" False 0 l] assms by (auto simp: executeCalls_def)

text \<open>Two safe calls and an exclusive one; the second settles first, and its result waits for the first.\<close>

definition sample_host :: "nat tool_host" where
  "sample_host = \<lparr>lp_append = (\<lambda>row w. (Inr w, w + 1)), lp_poll = (\<lambda>w. (False, w)), lp_parse = (\<lambda>s. Some (JObj [])),
     lp_safe = (\<lambda>name args w. (name = ''read'', w)), lp_prepare = (\<lambda>c args w. (None, w)),
     lp_execute = (\<lambda>c w. ((no_result, None), w)), lp_settle = (\<lambda>is w. ((length is - 1, no_result, None), w)),
     lp_maxParallel = 4, lp_maxParallelFn = None\<rparr>"

definition sample_calls :: "ToolCall list" where
  "sample_calls = [\<lparr>tc_ID = ''a'', tc_Name = ''read'', tc_Arguments = ''{}''\<rparr>, \<lparr>tc_ID = ''b'', tc_Name = ''read'', tc_Arguments = ''{}''\<rparr>,
     \<lparr>tc_ID = ''c'', tc_Name = ''write'', tc_Arguments = ''{}''\<rparr>]"

definition sample_log :: "nat tool_log" where
  "sample_log = \<lparr>tl_rows = [], tl_cancelled = False, tl_world = 1\<rparr>"

lemma sample_run: "map_option (\<lambda>(v, l). (v, map fst (calls_of (tl_rows l)), map fst (results_of (tl_rows l)))) (executeCalls 4 sample_host sample_calls sample_log) =
    Some (Inr (False, 6), [1, 2, 5], [1, 2, 5])"
  by code_simp

lemma sample_limit: "effectiveMaxParallelToolCalls sample_host w \<le> 4"
  by (simp add: effectiveMaxParallelToolCalls_def sample_host_def maxParallelToolCalls_def)

lemma tool_rows_protocol_witness:
  "\<exists>l' R. executeCalls 4 sample_host sample_calls sample_log = Some (Inr (False, 6), l') \<and> tl_rows l' = R \<and>
     map snd (calls_of R) = sample_calls \<and> results_of R = calls_of R"
proof -
  obtain l' where r: "executeCalls 4 sample_host sample_calls sample_log = Some (Inr (False, 6), l')"
    using sample_run by (auto simp: map_option_case split: option.splits)
  from tool_rows_protocol [OF r sample_limit] show ?thesis using r by (auto simp: sample_log_def)
qed

lemma tool_calls_end_witness: "\<exists>v l'. executeCalls (length sample_calls + 1) sample_host sample_calls sample_log = Some (v, l')"
proof (rule tool_calls_end)
  show "fst (lp_safe sample_host name args w) = (name = ''read'')" for name args w by (simp add: sample_host_def)
qed

end
