(* ===== verification/Compaction_Select.thy ===== *)
theory Compaction_Select
  imports Session_History
begin

text \<open>
  The choice of the range a compaction replaces, \<^verbatim>\<open>internal/compaction\<close>: which prefixes of
  the log keep every tool call with its result, the prefix before the retained turns or tokens, the
  correction of a requested region, and the choice over the nodes of a meter. Positions are far below
  2^63, where the source converts them to signed integers.
\<close>

section \<open>Payloads\<close>

record assistantPayload =
  ap_Text :: string
  ap_Reasoning :: string
  ap_ToolCalls :: "ToolCall list"

definition dec_assistantPayload :: "jobject \<Rightarrow> assistantPayload option" where
  "dec_assistantPayload o1 = do {
     t \<leftarrow> dec_string (jfield o1 ''text'');
     r \<leftarrow> dec_string (jfield o1 ''reasoning'');
     tc \<leftarrow> dec_slice (dec_struct dec_ToolCall) (jfield o1 ''toolCalls'');
     Some \<lparr>ap_Text = t, ap_Reasoning = r, ap_ToolCalls = tc\<rparr> }"

record toolResultPayload =
  rp_CallID :: string
  rp_Output :: string
  rp_Code :: string
  rp_Message :: "json option"

definition dec_toolResultPayload :: "jobject \<Rightarrow> toolResultPayload option" where
  "dec_toolResultPayload o1 = do {
     i \<leftarrow> dec_string (jfield o1 ''callId'');
     _ \<leftarrow> dec_string (jfield o1 ''name'');
     out \<leftarrow> dec_string (jfield o1 ''output'');
     c \<leftarrow> dec_string (jfield o1 ''code'');
     m \<leftarrow> dec_any (jfield o1 ''message'');
     Some \<lparr>rp_CallID = i, rp_Output = out, rp_Code = c, rp_Message = m\<rparr> }"

definition eventCallID :: "event \<Rightarrow> string" where
  "eventCallID ev =
     (let legacy = (case unmarshal_struct dec_toolError (ev_Data ev) of None \<Rightarrow> [] | Some (i, e) \<Rightarrow> i)
      in case unmarshal_struct dec_toolResultPayload (ev_Data ev) of
           None \<Rightarrow> legacy
         | Some r \<Rightarrow> if rp_CallID r \<noteq> [] then rp_CallID r else legacy)"

text \<open>The marks of a row for the pairing: the calls it issues or the call it answers.\<close>

datatype pair_mark = Issued string | Settled string

definition row_marks :: "event \<Rightarrow> pair_mark list" where
  "row_marks ev =
     (if ev_Type ev = EventAssistantMessage then
        (case unmarshal_struct dec_assistantPayload (ev_Data ev) of
           None \<Rightarrow> []
         | Some d \<Rightarrow> map (\<lambda>tc. Issued (tc_ID tc)) (filter (\<lambda>tc. tc_ID tc \<noteq> []) (ap_ToolCalls d)))
      else if ev_Type ev = EventToolResult \<or> ev_Type ev = EventLegacyToolError then
        (if eventCallID ev = [] then [] else [Settled (eventCallID ev)])
      else [])"

section \<open>Pairing\<close>

text \<open>The open calls and whether no result came without a call.\<close>

fun mark_step :: "pair_mark \<Rightarrow> string list \<times> bool \<Rightarrow> string list \<times> bool" where
  "mark_step (Issued i) (opens, clean) = (if i \<in> set opens then opens else i # opens, clean)"
| "mark_step (Settled i) (opens, clean) = (if i \<in> set opens then (removeAll i opens, clean) else (opens, False))"

definition pair_step :: "event \<Rightarrow> string list \<times> bool \<Rightarrow> string list \<times> bool" where
  "pair_step ev s = fold mark_step (row_marks ev) s"

fun pair_scan :: "event list \<Rightarrow> string list \<times> bool \<Rightarrow> bool list" where
  "pair_scan [] s = []"
| "pair_scan (ev # es) s = (let s = pair_step ev s in (snd s \<and> fst s = []) # pair_scan es s)"

definition pairingBalancedAfter :: "event list \<Rightarrow> bool list" where
  "pairingBalancedAfter es = pair_scan es ([], True)"

definition ev_pos :: "event \<Rightarrow> int" where
  "ev_pos ev = int (ev_Seq ev)"

definition firstIndexSeqGE :: "event list \<Rightarrow> int \<Rightarrow> nat" where
  "firstIndexSeqGE es q = length (takeWhile (\<lambda>ev. \<not> ev_pos ev \<ge> q) es)"

definition lastIndexSeqLE :: "event list \<Rightarrow> int \<Rightarrow> nat option" where
  "lastIndexSeqLE es q = List.find (\<lambda>i. ev_pos (es ! i) \<le> q) (rev [0..<length es])"

definition ToolPairingBalancedBefore :: "event list \<Rightarrow> int \<Rightarrow> bool" where
  "ToolPairingBalancedBefore es q =
     (let j = firstIndexSeqGE es q in if j = 0 then True else pairingBalancedAfter es ! (j - 1))"

definition ToolPairingBalancedAfter :: "event list \<Rightarrow> int \<Rightarrow> bool" where
  "ToolPairingBalancedAfter es q =
     (case lastIndexSeqLE es q of None \<Rightarrow> True | Some i \<Rightarrow> pairingBalancedAfter es ! i)"

section \<open>Rows of a range\<close>

definition isSurfaceReplacement :: "event \<Rightarrow> bool" where
  "isSurfaceReplacement ev \<longleftrightarrow> ev_Type ev = EventUserMessage \<and>
     (case unmarshal_struct (\<lambda>o1. dec_ptr (dec_struct (\<lambda>o2. dec_string (jfield o2 ''op''))) (jfield o1 ''surfaceOp'')) (ev_Data ev) of
        Some (Some op) \<Rightarrow> op = ''replace'' | _ \<Rightarrow> False)"

definition user_turn :: "event \<Rightarrow> bool" where
  "user_turn ev \<longleftrightarrow> ev_Type ev = EventUserMessage \<and> \<not> isSurfaceReplacement ev"

definition in_span :: "int \<Rightarrow> int \<Rightarrow> event \<Rightarrow> bool" where
  "in_span start stop ev \<longleftrightarrow> start \<le> ev_pos ev \<and> ev_pos ev \<le> stop"

definition userMessageSeqs :: "event list \<Rightarrow> int list" where
  "userMessageSeqs es = map ev_pos (filter user_turn es)"

definition seqsInRange :: "event list \<Rightarrow> int \<Rightarrow> int \<Rightarrow> int list" where
  "seqsInRange es start stop = map ev_pos (filter (in_span start stop) es)"

definition rangeHasUser :: "event list \<Rightarrow> int \<Rightarrow> int \<Rightarrow> bool" where
  "rangeHasUser es start stop \<longleftrightarrow> list_ex (\<lambda>ev. in_span start stop ev \<and> user_turn ev) es"

text \<open>The messages of a range, folded without replacements.\<close>

definition shadowed_message :: "event \<Rightarrow> llm_message list" where
  "shadowed_message ev =
     (if ev_Type ev = EventUserMessage then
        (case unmarshal_struct (\<lambda>o1. dec_string (jfield o1 ''text'')) (ev_Data ev) of
           None \<Rightarrow> [] | Some t \<Rightarrow> [user_text t])
      else if ev_Type ev = EventAssistantMessage then
        (case unmarshal_struct dec_assistantPayload (ev_Data ev) of
           None \<Rightarrow> []
         | Some d \<Rightarrow>
             [\<lparr>lm_Role = RoleAssistant,
               lm_Content = (if ap_Reasoning d \<noteq> [] then [simple_block BlockReasoning (ap_Reasoning d)] else []) @ [Text (ap_Text d)],
               lm_ToolCallID = [], lm_ToolCalls = ap_ToolCalls d\<rparr>])
      else if ev_Type ev = EventToolResult then
        (let legacy = unmarshal_struct dec_toolError (ev_Data ev); failed = (\<lambda>(i, e). tool_message i [Text (''Error: '' @ e)])
         in case unmarshal_struct dec_toolResultPayload (ev_Data ev) of
              None \<Rightarrow> (case legacy of Some (i, e) \<Rightarrow> if i \<noteq> [] then [failed (i, e)] else [] | None \<Rightarrow> [])
            | Some d \<Rightarrow>
                (case (if rp_Output d = [] \<and> rp_Message d = None then legacy else None) of
                   Some (i, e) \<Rightarrow> if e \<noteq> [] then [failed (i, e)] else [tool_message (rp_CallID d) [Text (rp_Output d)]]
                 | None \<Rightarrow> [tool_message (rp_CallID d) [Text (rp_Output d)]]))
      else if ev_Type ev = EventLegacyToolError then
        (case unmarshal_struct dec_toolError (ev_Data ev) of
           None \<Rightarrow> [] | Some (i, e) \<Rightarrow> [tool_message i [Text (''Error: '' @ e)]])
      else [])"

definition shadowedHistory :: "event list \<Rightarrow> int \<Rightarrow> int \<Rightarrow> llm_message list" where
  "shadowedHistory es start stop = concat (map shadowed_message (filter (in_span start stop) es))"

section \<open>Options and prices\<close>

record SurfaceNode =
  sn_Seq :: nat
  sn_Tokens :: int

record SurfaceMeasurement =
  sm_TotalTokens :: int
  sm_Nodes :: "SurfaceNode list"

record BasicOpts =
  bo_Meter :: "(event list \<Rightarrow> SurfaceMeasurement) option"
  bo_Tokenizer :: "string \<Rightarrow> int"
  bo_TokenThreshold :: int
  bo_RetainTurns :: int
  bo_RetainTokens :: int
  bo_FrameSummary :: bool
  bo_RequireSmallerSummary :: bool
  bo_SummaryInputTokens :: int

text \<open>The tokenizer used when none is given.\<close>

definition defaultTokenEstimate :: "string \<Rightarrow> int" where
  "defaultTokenEstimate t = int (length t) div 4"

definition message_text :: "llm_message \<Rightarrow> string" where
  "message_text m = concat (map cb_Text (filter (\<lambda>b. cb_Kind b = BlockText) (lm_Content m)))"

definition estimateMessages :: "(string \<Rightarrow> int) \<Rightarrow> llm_message list \<Rightarrow> int" where
  "estimateMessages est ms =
     sum_list (map (\<lambda>m. est (message_text m) + sum_list (map (\<lambda>tc. est (tc_Name tc) + est (tc_Arguments tc)) (lm_ToolCalls m))) ms)"

section \<open>The prefix to replace\<close>

type_synonym range_choice = "(int \<times> int \<times> int list) option"

definition prefix_choice :: "event list \<Rightarrow> int \<Rightarrow> range_choice" where
  "prefix_choice es stop = (let first = ev_pos (hd es) in Some (first, stop, seqsInRange es first stop))"

text \<open>The last balanced row at or before a position.\<close>

definition last_balanced :: "event list \<Rightarrow> int \<Rightarrow> nat option" where
  "last_balanced es limit = List.find (\<lambda>i. ev_pos (es ! i) \<le> limit \<and> pairingBalancedAfter es ! i) (rev [0..<length es])"

definition choosePrefixByMeasuredTokens :: "BasicOpts \<Rightarrow> (event list \<Rightarrow> SurfaceMeasurement) \<Rightarrow> event list \<Rightarrow> (int \<times> int) option" where
  "choosePrefixByMeasuredTokens opts meter es =
     (let nodes = sm_Nodes (meter es);
          tail = \<lambda>k. sum_list (map sn_Tokens (drop k nodes))
      in if nodes = [] then None
         else
           let keep = (case List.find (\<lambda>k. tail k \<ge> bo_RetainTokens opts) (rev [0..<length nodes]) of None \<Rightarrow> 0 | Some k \<Rightarrow> k)
           in if keep = 0 then None
              else case List.find (\<lambda>k. k = 0 \<or> ToolPairingBalancedBefore es (int (sn_Seq (nodes ! k)))) (rev [0..<Suc keep]) of
                None \<Rightarrow> None
              | Some k \<Rightarrow>
                  if k = 0 then None
                  else
                    let start = int (sn_Seq (nodes ! 0)); stop = int (sn_Seq (nodes ! (k - 1)))
                    in if \<not> rangeHasUser es start stop then None else Some (start, stop))"

text \<open>
  The walk back over the rows until the tail is worth its tokens: the number of rows before the tail, less
  one (the source steps once more); \<^const>\<open>None\<close> when it runs off the front.
\<close>

fun keep_from :: "BasicOpts \<Rightarrow> event list \<Rightarrow> nat \<Rightarrow> int \<Rightarrow> nat option" where
  "keep_from opts es k retained =
     (if \<not> retained < bo_RetainTokens opts then (if k = 0 then None else Some (k - 1))
      else case k of
        0 \<Rightarrow> None
      | Suc k \<Rightarrow> keep_from opts es k (retained + estimateMessages (bo_Tokenizer opts) (shadowedHistory es (ev_pos (es ! k)) (ev_pos (es ! k)))))"

definition choosePrefixByTokens :: "BasicOpts \<Rightarrow> event list \<Rightarrow> range_choice" where
  "choosePrefixByTokens opts es =
     (case (case bo_Meter opts of None \<Rightarrow> None | Some meter \<Rightarrow> choosePrefixByMeasuredTokens opts meter es) of
        Some (start, stop) \<Rightarrow> Some (start, stop, seqsInRange es start stop)
      | None \<Rightarrow>
          (case keep_from opts es (length es) 0 of
             None \<Rightarrow> None
           | Some k \<Rightarrow>
               (case List.find (\<lambda>k. ToolPairingBalancedBefore es (ev_pos (es ! k))) (rev [0..<Suc k]) of
                  None \<Rightarrow> None
                | Some k \<Rightarrow>
                    (case List.find (\<lambda>i. ev_pos (es ! i) \<le> ev_pos (es ! k) - 1 \<and> pairingBalancedAfter es ! i \<and>
                             rangeHasUser es (ev_pos (hd es)) (ev_pos (es ! i))) (rev [0..<Suc k]) of
                       None \<Rightarrow> None
                     | Some i \<Rightarrow> prefix_choice es (ev_pos (es ! i))))))"

definition choosePrefixRange :: "BasicOpts \<Rightarrow> event list \<Rightarrow> range_choice" where
  "choosePrefixRange opts es =
     (if es = [] \<or> userMessageSeqs es = [] then None
      else if bo_RetainTokens opts > 0 then choosePrefixByTokens opts es
      else
        let users = userMessageSeqs es; keep = nat (bo_RetainTurns opts)
        in if keep \<ge> length users then None
           else
             let maxEnd = (if keep = 0 then ev_pos (last es) else users ! (length users - keep) - 1)
             in case last_balanced es maxEnd of
                  None \<Rightarrow> None
                | Some i \<Rightarrow>
                    if ev_pos (es ! i) < ev_pos (hd es) \<or> \<not> rangeHasUser es (ev_pos (hd es)) (ev_pos (es ! i)) then None
                    else prefix_choice es (ev_pos (es ! i)))"

definition correctRegionRange :: "event list \<Rightarrow> int \<Rightarrow> int \<Rightarrow> range_choice" where
  "correctRegionRange es start stop =
     (if es = [] then None
      else
        let first = ev_pos (hd es); lst = ev_pos (last es)
        in if start > stop \<or> stop < first \<or> start > lst then None
           else
             let start = max start first; stop = min stop lst; bal = pairingBalancedAfter es
             in case List.find (\<lambda>j. ev_pos (es ! j) \<ge> start \<and> (j = 0 \<or> bal ! (j - 1))) [0..<length es] of
                  None \<Rightarrow> None
                | Some s \<Rightarrow>
                    (case last_balanced es stop of
                       None \<Rightarrow> None
                     | Some e \<Rightarrow>
                         if e < s then None
                         else
                           let start = ev_pos (es ! s); stop = ev_pos (es ! e)
                           in if start > stop \<or> \<not> rangeHasUser es start stop then None
                              else Some (start, stop, seqsInRange es start stop)))"

end
