(* ===== verification/Compaction_Pairs.thy ===== *)
theory Compaction_Pairs
  imports Compaction_Select
begin

text \<open>
  What a chosen range promises: it ends, and a corrected region also begins, where every tool call before
  has its result; the prefix of the turn mode is the longest that leaves the retained user turns.
\<close>

section \<open>Balanced prefixes\<close>

text \<open>A call is open when it was issued and no result came since.\<close>

definition open_at :: "pair_mark list \<Rightarrow> string \<Rightarrow> bool" where
  "open_at ms i \<longleftrightarrow> (\<exists>xs ys. ms = xs @ Issued i # ys \<and> Settled i \<notin> set ys)"

text \<open>Every result answers an open call, and no call is left open.\<close>

definition balanced_marks :: "pair_mark list \<Rightarrow> bool" where
  "balanced_marks ms \<longleftrightarrow> (\<forall>xs i ys. ms = xs @ Settled i # ys \<longrightarrow> open_at xs i) \<and> (\<forall>i. \<not> open_at ms i)"

definition marks :: "event list \<Rightarrow> pair_mark list" where
  "marks es = concat (map row_marks es)"

lemma open_at_Nil: "\<not> open_at [] i"
  by (simp add: open_at_def)

lemma open_at_snoc: "open_at (ms @ [m]) i \<longleftrightarrow> (if m = Issued i then True else m \<noteq> Settled i \<and> open_at ms i)"
proof (cases "m = Issued i")
  case True
  have "open_at (ms @ [Issued i]) i" unfolding open_at_def by (rule exI [of _ ms], rule exI [of _ "[]"]) simp
  then show ?thesis using True by simp
next
  case False
  have "open_at (ms @ [m]) i \<longleftrightarrow> m \<noteq> Settled i \<and> open_at ms i"
  proof
    assume "open_at (ms @ [m]) i"
    then obtain xs ys where s: "ms @ [m] = xs @ Issued i # ys" "Settled i \<notin> set ys" by (auto simp: open_at_def)
    then have "ys \<noteq> []" using False by auto
    then obtain zs z where ys: "ys = zs @ [z]" by (metis append_butlast_last_id)
    then have "ms = xs @ Issued i # zs" "m = z" using s(1) by auto
    then show "m \<noteq> Settled i \<and> open_at ms i" using s(2) ys unfolding open_at_def by auto
  next
    assume "m \<noteq> Settled i \<and> open_at ms i"
    then obtain xs ys where "ms = xs @ Issued i # ys" "Settled i \<notin> set ys" "m \<noteq> Settled i" by (auto simp: open_at_def)
    then have "ms @ [m] = xs @ Issued i # (ys @ [m])" "Settled i \<notin> set (ys @ [m])" by auto
    then show "open_at (ms @ [m]) i" unfolding open_at_def by blast
  qed
  then show ?thesis using False by simp
qed

definition orphan_free :: "pair_mark list \<Rightarrow> bool" where
  "orphan_free ms \<longleftrightarrow> (\<forall>xs i ys. ms = xs @ Settled i # ys \<longrightarrow> open_at xs i)"

lemma orphan_free_Nil: "orphan_free []"
  by (simp add: orphan_free_def)

lemma orphan_free_snoc: "orphan_free (ms @ [m]) \<longleftrightarrow> orphan_free ms \<and> (\<forall>i. m = Settled i \<longrightarrow> open_at ms i)"
proof (intro iffI conjI allI impI)
  assume "orphan_free (ms @ [m])"
  then show "orphan_free ms" unfolding orphan_free_def by (metis append_assoc append_Cons)
next
  fix i
  assume "orphan_free (ms @ [m])" "m = Settled i"
  then show "open_at ms i" unfolding orphan_free_def by blast
next
  assume a: "orphan_free ms \<and> (\<forall>i. m = Settled i \<longrightarrow> open_at ms i)"
  show "orphan_free (ms @ [m])" unfolding orphan_free_def
  proof (intro allI impI)
    fix xs i ys
    assume s: "ms @ [m] = xs @ Settled i # ys"
    show "open_at xs i"
    proof (cases ys rule: rev_cases)
      case Nil
      then have "ms = xs" "m = Settled i" using s by auto
      then show ?thesis using a by blast
    next
      case (snoc zs z)
      then have "ms = xs @ Settled i # zs" using s by auto
      then show ?thesis using a unfolding orphan_free_def by blast
    qed
  qed
qed

lemma mark_step_open:
  "set (fst (mark_step m s)) = (case m of Issued i \<Rightarrow> insert i (set (fst s)) | Settled i \<Rightarrow> set (fst s) - {i})"
  "snd (mark_step m s) \<longleftrightarrow> snd s \<and> (case m of Issued i \<Rightarrow> True | Settled i \<Rightarrow> i \<in> set (fst s))"
  by (cases s; cases m; auto)+

lemma marks_fold:
  "(i \<in> set (fst (fold mark_step ms ([], True))) \<longleftrightarrow> open_at ms i) \<and> (snd (fold mark_step ms ([], True)) \<longleftrightarrow> orphan_free ms)"
proof (induction ms arbitrary: i rule: rev_induct)
  case Nil
  then show ?case by (simp add: open_at_Nil orphan_free_Nil)
next
  case (snoc m ms)
  let ?s = "fold mark_step ms ([], True)"
  have f: "fold mark_step (ms @ [m]) ([], True) = mark_step m ?s" by simp
  have o: "k \<in> set (fst ?s) \<longleftrightarrow> open_at ms k" for k using snoc.IH by blast
  have c: "snd ?s \<longleftrightarrow> orphan_free ms" using snoc.IH by blast
  show ?case unfolding f mark_step_open open_at_snoc orphan_free_snoc c
    by (cases m) (simp_all add: o, metis)
qed

lemma balanced_fold: "(case fold mark_step ms ([], True) of (opens, clean) \<Rightarrow> clean \<and> opens = []) \<longleftrightarrow> balanced_marks ms"
proof -
  let ?s = "fold mark_step ms ([], True)"
  have "fst ?s = [] \<longleftrightarrow> (\<forall>i. \<not> open_at ms i)" using marks_fold [of _ ms] by (metis empty_iff list.set(1) list.set_intros(1) neq_Nil_conv)
  moreover have "snd ?s \<longleftrightarrow> orphan_free ms" using marks_fold by blast
  ultimately show ?thesis by (simp add: balanced_marks_def orphan_free_def split_beta)
qed

lemma pair_scan_nth: "k < length es \<Longrightarrow> pair_scan es s ! k = (case fold mark_step (marks (take (Suc k) es)) s of (opens, clean) \<Rightarrow> clean \<and> opens = [])"
proof (induction es arbitrary: k s)
  case (Cons ev es)
  then show ?case
  proof (cases k)
    case 0
    then show ?thesis by (simp add: marks_def pair_step_def Let_def split_beta)
  next
    case (Suc j)
    then show ?thesis using Cons by (simp add: marks_def pair_step_def Let_def)
  qed
qed simp

lemma balanced_after: "k < length es \<Longrightarrow> pairingBalancedAfter es ! k \<longleftrightarrow> balanced_marks (marks (take (Suc k) es))"
  using pair_scan_nth [of k es "([], True)"] balanced_fold [of "marks (take (Suc k) es)"] by (simp add: pairingBalancedAfter_def)

lemma balanced_Nil: "balanced_marks (marks [])"
  by (simp add: balanced_marks_def marks_def open_at_Nil)

section \<open>Searching a log\<close>

lemma find_last: "List.find P (rev [0..<n]) = Some i \<longleftrightarrow> i < n \<and> P i \<and> (\<forall>j. i < j \<and> j < n \<longrightarrow> \<not> P j)"
proof (induction n)
  case (Suc n)
  show ?case
  proof (cases "P n")
    case True
    then show ?thesis by (auto simp: less_Suc_eq)
  next
    case False
    then show ?thesis using Suc by (auto simp: less_Suc_eq)
  qed
qed simp

lemma find_first: "List.find P [0..<n] = Some i \<longleftrightarrow> i < n \<and> P i \<and> (\<forall>j < i. \<not> P j)"
proof
  assume "List.find P [0..<n] = Some i"
  then show "i < n \<and> P i \<and> (\<forall>j < i. \<not> P j)" by (auto simp: find_Some_iff)
next
  assume "i < n \<and> P i \<and> (\<forall>j < i. \<not> P j)"
  then show "List.find P [0..<n] = Some i" by (auto simp: find_Some_iff)
qed

text \<open>On a contiguous log positions and indices agree.\<close>

lemma pos_le: "contiguous es \<Longrightarrow> i < length es \<Longrightarrow> j < length es \<Longrightarrow> ev_pos (es ! i) \<le> ev_pos (es ! j) \<longleftrightarrow> i \<le> j"
  by (auto simp: contiguous_def contiguous_from_nth ev_pos_def)

lemma span_rows:
  assumes c: "contiguous es" and ij: "i \<le> j" "j < length es"
  shows "filter (in_span (ev_pos (es ! i)) (ev_pos (es ! j))) es = take (Suc j - i) (drop i es)"
proof -
  have idx: "in_span (ev_pos (es ! i)) (ev_pos (es ! j)) (es ! k) \<longleftrightarrow> i \<le> k \<and> k \<le> j" if "k < length es" for k
    using pos_le [OF c] that ij by (auto simp: in_span_def)
  have three: "es = take i es @ take (Suc j - i) (drop i es) @ drop (Suc j) es"
    using ij(1) by (metis append_take_drop_id add_diff_cancel_left' drop_drop le_SucI le_add_diff_inverse2 add.commute)
  have "filter (in_span (ev_pos (es ! i)) (ev_pos (es ! j))) (take i es) = []"
    using ij by (auto simp: filter_empty_conv in_set_conv_nth idx)
  moreover have "filter (in_span (ev_pos (es ! i)) (ev_pos (es ! j))) (drop (Suc j) es) = []"
    using ij by (auto simp: filter_empty_conv in_set_conv_nth idx)
  moreover have "filter (in_span (ev_pos (es ! i)) (ev_pos (es ! j))) (take (Suc j - i) (drop i es)) = take (Suc j - i) (drop i es)"
    using ij by (auto simp: filter_id_conv in_set_conv_nth idx)
  ultimately show ?thesis by (metis filter_append append_Nil append_Nil2 three)
qed


lemma first_span: "contiguous es \<Longrightarrow> j < length es \<Longrightarrow> filter (in_span (ev_pos (hd es)) (ev_pos (es ! j))) es = take (Suc j) es"
  using span_rows [of es 0 j] by (cases es) simp_all

lemma has_user: "rangeHasUser es a b \<longleftrightarrow> (\<exists>ev \<in> set (filter (in_span a b) es). user_turn ev)"
  by (auto simp: rangeHasUser_def list_ex_iff)

section \<open>The prefix before the retained turns\<close>

text \<open>The users after a cut, counted against the position of the first retained one.\<close>

lemma users_nth: "k < length (filter user_turn es) \<Longrightarrow>
  \<exists>i < length es. es ! i = filter user_turn es ! k \<and> length (filter user_turn (take i es)) = k"
proof (induction es arbitrary: k)
  case (Cons ev es)
  show ?case
  proof (cases "user_turn ev")
    case True
    show ?thesis
    proof (cases k)
      case 0
      then show ?thesis using True by (intro exI [of _ 0]) simp
    next
      case (Suc j)
      then obtain i where "i < length es" "es ! i = filter user_turn es ! j" "length (filter user_turn (take i es)) = j"
        using Cons True by auto
      then show ?thesis using True Suc by (intro exI [of _ "Suc i"]) simp
    qed
  next
    case False
    then obtain i where "i < length es" "es ! i = filter user_turn es ! k" "length (filter user_turn (take i es)) = k"
      using Cons by auto
    then show ?thesis using False by (intro exI [of _ "Suc i"]) simp
  qed
qed simp

lemma users_split: "length (filter user_turn (take n es)) + length (filter user_turn (drop n es)) = length (filter user_turn es)"
  by (metis append_take_drop_id filter_append length_append)

lemma users_mono: "m \<le> n \<Longrightarrow> length (filter user_turn (take m es)) \<le> length (filter user_turn (take n es))"
proof -
  assume "m \<le> n"
  then have "take n es = take m es @ take (n - m) (drop m es)" by (metis le_add_diff_inverse take_add)
  then show ?thesis by simp
qed

text \<open>The bound on the end of the prefix, and what it leaves behind the cut.\<close>

definition turn_limit :: "nat \<Rightarrow> event list \<Rightarrow> int" where
  "turn_limit keep es = (if keep = 0 then ev_pos (last es) else userMessageSeqs es ! (length (userMessageSeqs es) - keep) - 1)"

lemma limit_keeps:
  assumes c: "contiguous es" and keep: "keep < length (userMessageSeqs es)" and i: "i < length es"
  shows "ev_pos (es ! i) \<le> turn_limit keep es \<longleftrightarrow> keep \<le> length (filter user_turn (drop (Suc i) es))"
proof (cases "keep = 0")
  case True
  have "es ! (length es - 1) = last es" using i by (intro last_conv_nth [symmetric]) auto
  then show ?thesis using True pos_le [OF c i, of "length es - 1"] i by (simp add: turn_limit_def)
next
  case False
  let ?us = "filter user_turn es" and ?k = "length (filter user_turn es) - keep"
  have k: "?k < length ?us" "length ?us = ?k + keep" using keep False by (simp_all add: userMessageSeqs_def)
  obtain u where u: "u < length es" "es ! u = ?us ! ?k" "length (filter user_turn (take u es)) = ?k"
    using users_nth [OF k(1)] by blast
  have ut: "user_turn (es ! u)" using u(2) nth_mem [OF k(1)] by simp
  have lim: "turn_limit keep es = ev_pos (es ! u) - 1" using False k(1) u(2) by (simp add: turn_limit_def userMessageSeqs_def)
  have "ev_pos (es ! i) \<le> turn_limit keep es \<longleftrightarrow> i < u" using pos_le [OF c u(1) i] lim by linarith
  moreover have "i < u \<longleftrightarrow> keep \<le> length (filter user_turn (drop (Suc i) es))"
  proof
    assume "i < u"
    then have "length (filter user_turn (take (Suc i) es)) \<le> ?k" using users_mono [of "Suc i" u es] u(3) by simp
    then show "keep \<le> length (filter user_turn (drop (Suc i) es))" using users_split [of "Suc i" es] k(2) by linarith
  next
    assume a: "keep \<le> length (filter user_turn (drop (Suc i) es))"
    show "i < u"
    proof (rule ccontr)
      assume "\<not> i < u"
      then have "length (filter user_turn (take (Suc u) es)) \<le> length (filter user_turn (take (Suc i) es))" by (intro users_mono) simp
      moreover have "length (filter user_turn (take (Suc u) es)) = ?k + 1" using u(1,3) ut by (simp add: take_Suc_conv_app_nth)
      ultimately show False using users_split [of "Suc i" es] k(2) a by linarith
    qed
  qed
  ultimately show ?thesis by simp
qed

text \<open>What is asked of the prefix of \<open>n\<close> rows.\<close>

definition replaceable :: "nat \<Rightarrow> event list \<Rightarrow> nat \<Rightarrow> bool" where
  "replaceable keep es n \<longleftrightarrow> balanced_marks (marks (take n es)) \<and> keep \<le> length (filter user_turn (drop n es))"

lemma chosen_prefix:
  assumes "contiguous es" "choosePrefixRange opts es = Some (start, stop, seqs)" "bo_RetainTokens opts \<le> 0"
  shows "\<exists>n. 0 < n \<and> n \<le> length es \<and> start = ev_pos (hd es) \<and> stop = ev_pos (es ! (n - 1)) \<and> seqs = map ev_pos (take n es) \<and>
    replaceable (nat (bo_RetainTurns opts)) es n \<and> (\<exists>ev \<in> set (take n es). user_turn ev) \<and>
    (\<forall>m \<le> length es. replaceable (nat (bo_RetainTurns opts)) es m \<longrightarrow> m \<le> n)"
proof -
  let ?keep = "nat (bo_RetainTurns opts)"
  have keep: "?keep < length (userMessageSeqs es)" and ne: "es \<noteq> []"
    using assms(2,3) by (auto simp: choosePrefixRange_def Let_def split: if_splits)
  have ch: "(case last_balanced es (turn_limit ?keep es) of None \<Rightarrow> None
      | Some i \<Rightarrow> if ev_pos (es ! i) < ev_pos (hd es) \<or> \<not> rangeHasUser es (ev_pos (hd es)) (ev_pos (es ! i)) then None
                  else prefix_choice es (ev_pos (es ! i))) = Some (start, stop, seqs)"
    using assms(2,3) keep ne by (simp add: choosePrefixRange_def Let_def turn_limit_def split: if_splits)
  then obtain i where i: "last_balanced es (turn_limit ?keep es) = Some i" "rangeHasUser es (ev_pos (hd es)) (ev_pos (es ! i))"
    "prefix_choice es (ev_pos (es ! i)) = Some (start, stop, seqs)" by (auto split: option.splits if_splits)
  have at: "i < length es" "ev_pos (es ! i) \<le> turn_limit ?keep es" "pairingBalancedAfter es ! i"
    and after: "\<forall>j. i < j \<and> j < length es \<longrightarrow> \<not> (ev_pos (es ! j) \<le> turn_limit ?keep es \<and> pairingBalancedAfter es ! j)"
    using i(1) unfolding last_balanced_def find_last by blast+
  have rep: "replaceable ?keep es (Suc j) \<longleftrightarrow> ev_pos (es ! j) \<le> turn_limit ?keep es \<and> pairingBalancedAfter es ! j" if "j < length es" for j
    using limit_keeps [OF assms(1) keep that] balanced_after [OF that] by (auto simp: replaceable_def)
  have span: "filter (in_span (ev_pos (hd es)) (ev_pos (es ! i))) es = take (Suc i) es" by (rule first_span [OF assms(1) at(1)])
  have "start = ev_pos (hd es)" "stop = ev_pos (es ! i)" "seqs = map ev_pos (take (Suc i) es)"
    using i(3) span by (auto simp: prefix_choice_def seqsInRange_def)
  moreover have "\<exists>ev \<in> set (take (Suc i) es). user_turn ev" using i(2) span unfolding has_user by simp
  moreover have "replaceable ?keep es (Suc i)" using rep [OF at(1)] at(2,3) by blast
  moreover have "m \<le> Suc i" if m: "m \<le> length es" "replaceable ?keep es m" for m
  proof (rule ccontr)
    assume "\<not> m \<le> Suc i"
    then obtain j where j: "m = Suc j" "i < j" by (cases m) auto
    then show False using after rep [of j] m by auto
  qed
  ultimately show ?thesis using at(1) by (intro exI [of _ "Suc i"]) auto
qed

section \<open>The corrected region\<close>

lemma corrected_region:
  assumes "contiguous es" "correctRegionRange es start stop = Some (a, b, seqs)"
  shows "\<exists>m n. m < n \<and> n \<le> length es \<and> a = ev_pos (es ! m) \<and> b = ev_pos (es ! (n - 1)) \<and> start \<le> a \<and> b \<le> stop \<and>
    seqs = map ev_pos (take (n - m) (drop m es)) \<and> balanced_marks (marks (take m es)) \<and> balanced_marks (marks (take n es)) \<and>
    (\<exists>ev \<in> set (take (n - m) (drop m es)). user_turn ev)"
proof -
  let ?f = "ev_pos (hd es)" and ?l = "ev_pos (last es)"
  define lo where "lo = max start ?f"
  define hi where "hi = min stop ?l"
  let ?bal = "pairingBalancedAfter es"
  have ch: "(case List.find (\<lambda>j. ev_pos (es ! j) \<ge> lo \<and> (j = 0 \<or> ?bal ! (j - 1))) [0..<length es] of None \<Rightarrow> None
      | Some s \<Rightarrow> (case last_balanced es hi of None \<Rightarrow> None
          | Some e \<Rightarrow> if e < s then None
                      else if ev_pos (es ! s) > ev_pos (es ! e) \<or> \<not> rangeHasUser es (ev_pos (es ! s)) (ev_pos (es ! e)) then None
                      else Some (ev_pos (es ! s), ev_pos (es ! e), seqsInRange es (ev_pos (es ! s)) (ev_pos (es ! e))))) = Some (a, b, seqs)"
    using assms(2) unfolding correctRegionRange_def Let_def lo_def [symmetric] hi_def [symmetric] by (simp only: split: if_split_asm) simp_all
  then obtain s e where s: "List.find (\<lambda>j. ev_pos (es ! j) \<ge> lo \<and> (j = 0 \<or> ?bal ! (j - 1))) [0..<length es] = Some s"
    and e: "last_balanced es hi = Some e" and le: "\<not> e < s" and user: "rangeHasUser es (ev_pos (es ! s)) (ev_pos (es ! e))"
    and r: "a = ev_pos (es ! s)" "b = ev_pos (es ! e)" "seqs = seqsInRange es (ev_pos (es ! s)) (ev_pos (es ! e))"
    by (auto split: option.splits if_splits)
  have s': "s < length es" "lo \<le> ev_pos (es ! s)" "s = 0 \<or> ?bal ! (s - 1)" using s unfolding find_first by blast+
  have e': "e < length es" "ev_pos (es ! e) \<le> hi" "?bal ! e" using e unfolding last_balanced_def find_last by blast+
  have span: "filter (in_span (ev_pos (es ! s)) (ev_pos (es ! e))) es = take (Suc e - s) (drop s es)"
    using span_rows [OF assms(1) _ e'(1)] le by simp
  have "balanced_marks (marks (take s es))"
  proof (cases s)
    case 0
    then show ?thesis using balanced_Nil by simp
  next
    case (Suc k)
    then show ?thesis using s'(1,3) balanced_after [of k es] by simp
  qed
  moreover have "balanced_marks (marks (take (Suc e) es))" using balanced_after [OF e'(1)] e'(3) by blast
  moreover have "seqs = map ev_pos (take (Suc e - s) (drop s es))" using r(3) span by (simp add: seqsInRange_def)
  moreover have "\<exists>ev \<in> set (take (Suc e - s) (drop s es)). user_turn ev" using user span unfolding has_user by simp
  moreover have "start \<le> a" "b \<le> stop" using s'(2) e'(2) r by (simp_all add: lo_def hi_def)
  ultimately show ?thesis using r(1,2) le e'(1) by (intro exI [of _ s] exI [of _ "Suc e"]) auto
qed

section \<open>What a chosen range promises\<close>

text \<open>
  C14: The prefix of the turn mode is the longest one that leaves the retained user turns behind it and in
  which no call is open and no result comes without its call; it holds at least one user turn, and the rows it cites are exactly its
  rows.
\<close>

theorem prefix_is_longest:
  assumes "contiguous es" "choosePrefixRange opts es = Some (start, stop, seqs)" "bo_RetainTokens opts \<le> 0"
  shows "\<exists>n. 0 < n \<and> n \<le> length es \<and> start = ev_pos (hd es) \<and> stop = ev_pos (es ! (n - 1)) \<and> seqs = map ev_pos (take n es) \<and>
    replaceable (nat (bo_RetainTurns opts)) es n \<and> (\<exists>ev \<in> set (take n es). user_turn ev) \<and>
    (\<forall>m \<le> length es. replaceable (nat (bo_RetainTurns opts)) es m \<longrightarrow> m \<le> n)"
  by (rule chosen_prefix [OF assms])

text \<open>
  Fact: A requested region shrinks to one inside the request that begins and ends where every call has its
  result, holds a user turn, and cites exactly its rows.
\<close>

theorem region_is_balanced:
  assumes "contiguous es" "correctRegionRange es start stop = Some (a, b, seqs)"
  shows "\<exists>m n. m < n \<and> n \<le> length es \<and> a = ev_pos (es ! m) \<and> b = ev_pos (es ! (n - 1)) \<and> start \<le> a \<and> b \<le> stop \<and>
    seqs = map ev_pos (take (n - m) (drop m es)) \<and> balanced_marks (marks (take m es)) \<and> balanced_marks (marks (take n es)) \<and>
    (\<exists>ev \<in> set (take (n - m) (drop m es)). user_turn ev)"
  by (rule corrected_region [OF assms])

text \<open>Two turns with a tool call each, the second still open, and a third user message.\<close>

definition paired_row :: "nat \<Rightarrow> event_type \<Rightarrow> (string \<times> json) list \<Rightarrow> event" where
  "paired_row q t fs = \<lparr>ev_Seq = q, ev_Type = t, ev_At = 5, ev_Version = 1, ev_Data = Some (JObj fs)\<rparr>"

definition paired_log :: "event list" where
  "paired_log =
     [paired_row 1 EventUserMessage [(''text'', JStr ''a'')],
      paired_row 2 EventAssistantMessage [(''toolCalls'', JArr [JObj [(''ID'', JStr ''c1'')]])],
      paired_row 3 EventToolResult [(''callId'', JStr ''c1''), (''output'', JStr ''ok'')],
      paired_row 4 EventUserMessage [(''text'', JStr ''b'')],
      paired_row 5 EventAssistantMessage [(''toolCalls'', JArr [JObj [(''ID'', JStr ''c2'')]])],
      paired_row 6 EventUserMessage [(''text'', JStr ''c'')]]"

definition keep_one :: BasicOpts where
  "keep_one = \<lparr>bo_Meter = None, bo_Tokenizer = defaultTokenEstimate, bo_TokenThreshold = 0, bo_RetainTurns = 1,
     bo_RetainTokens = 0, bo_FrameSummary = False, bo_RequireSmallerSummary = False, bo_SummaryInputTokens = 0\<rparr>"

lemma paired_contiguous: "contiguous paired_log"
  unfolding contiguous_def by (rule exI [of _ 1]) (simp add: paired_log_def paired_row_def)

lemma prefix_is_longest_witness:
  "\<exists>n. 0 < n \<and> n \<le> 6 \<and> [1, 2, 3, 4] = map ev_pos (take n paired_log) \<and> replaceable 1 paired_log n"
proof -
  have c: "choosePrefixRange keep_one paired_log = Some (1, 4, [1, 2, 3, 4])" by code_simp
  have opt: "bo_RetainTokens keep_one \<le> 0" "nat (bo_RetainTurns keep_one) = 1" "length paired_log = 6"
    by (simp_all add: keep_one_def paired_log_def)
  show ?thesis using prefix_is_longest [OF paired_contiguous c opt(1)] unfolding opt(2,3)
    by - (elim exE conjE, intro exI conjI; assumption)
qed

lemma region_is_balanced_witness:
  "\<exists>m n. m < n \<and> [1, 2, 3, 4] = map ev_pos (take (n - m) (drop m paired_log)) \<and> balanced_marks (marks (take n paired_log))"
proof -
  have "correctRegionRange paired_log 0 5 = Some (1, 4, [1, 2, 3, 4])" by code_simp
  from region_is_balanced [OF paired_contiguous this] show ?thesis by - (elim exE conjE, intro exI conjI; assumption)
qed

end
