(* ===== verification/Compaction_Summary.thy ===== *)
theory Compaction_Summary
  imports Compaction_Select
begin

text \<open>
  The summary of a range, \<^verbatim>\<open>internal/compaction/basic.go\<close>: splitting the messages into chunks that fit
  one request, cutting what does not, and reducing the partial summaries recursively. The model is asked
  through \<open>ask\<close> (the whole streamed answer, or an error), the context through \<open>poll\<close>; the requests made
  are kept in order.
\<close>

section \<open>UTF-8\<close>

definition byte :: "char \<Rightarrow> nat" where
  "byte c = of_char c"

text \<open>For a first byte, the length of the rune and the range of the second byte.\<close>

definition rune_head :: "nat \<Rightarrow> (nat \<times> nat \<times> nat) option" where
  "rune_head b =
     (if b < 0x80 then Some (1, 0, 0)
      else if b < 0xC2 then None
      else if b < 0xE0 then Some (2, 0x80, 0xBF)
      else if b = 0xE0 then Some (3, 0xA0, 0xBF)
      else if b = 0xED then Some (3, 0x80, 0x9F)
      else if b < 0xF0 then Some (3, 0x80, 0xBF)
      else if b = 0xF0 then Some (4, 0x90, 0xBF)
      else if b < 0xF4 then Some (4, 0x80, 0xBF)
      else if b = 0xF4 then Some (4, 0x80, 0x8F)
      else None)"

definition in_bytes :: "nat \<Rightarrow> nat \<Rightarrow> char \<Rightarrow> bool" where
  "in_bytes lo hi c \<longleftrightarrow> lo \<le> byte c \<and> byte c \<le> hi"

text \<open>The length of the valid rune in front, if there is one.\<close>

definition rune_len :: "string \<Rightarrow> nat option" where
  "rune_len s =
     (case s of
        [] \<Rightarrow> None
      | c # cs \<Rightarrow>
          (case rune_head (byte c) of
             None \<Rightarrow> None
           | Some (n, lo, hi) \<Rightarrow>
               if n = 1 then Some 1
               else if length s < n then None
               else if in_bytes lo hi (hd cs) \<and> list_all (in_bytes 0x80 0xBF) (take (n - 2) (tl cs)) then Some n else None))"

definition rune_error :: string where
  "rune_error = [CHR 0xEF, CHR 0xBF, CHR 0xBD]"

lemma rune_len_pos: "rune_len s = Some n \<Longrightarrow> 0 < n"
  by (auto simp: rune_len_def rune_head_def split: list.splits option.splits if_splits)

text \<open>\<^verbatim>\<open>[]rune(s)\<close>, each rune as the bytes \<^verbatim>\<open>string\<close> gives back for it.\<close>

function utf8_runes :: "string \<Rightarrow> string list" where
  "utf8_runes s =
     (if s = [] then []
      else case rune_len s of None \<Rightarrow> rune_error # utf8_runes (tl s) | Some n \<Rightarrow> take n s # utf8_runes (drop n s))"
  by pat_completeness auto
termination
  by (relation "measure length") (auto dest: rune_len_pos)

function utf8_valid :: "string \<Rightarrow> bool" where
  "utf8_valid s = (if s = [] then True else case rune_len s of None \<Rightarrow> False | Some n \<Rightarrow> utf8_valid (drop n s))"
  by pat_completeness auto
termination
  by (relation "measure length") (auto dest: rune_len_pos)

declare utf8_runes.simps [simp del] utf8_valid.simps [simp del]

section \<open>Bounding the input\<close>

definition defaultSummaryInputTokens :: int where
  "defaultSummaryInputTokens = 12000"

definition maxSummaryReductionDepth :: nat where
  "maxSummaryReductionDepth = 8"

definition summaryInputBudget :: "BasicOpts \<Rightarrow> int" where
  "summaryInputBudget opts = (if bo_SummaryInputTokens opts > 0 then bo_SummaryInputTokens opts else defaultSummaryInputTokens)"

definition summaryTokens :: "(string \<Rightarrow> int) \<Rightarrow> llm_message \<Rightarrow> int" where
  "summaryTokens est m = est (lm_ToolCallID m) + sum_list (map (\<lambda>b. est (cb_Text b)) (lm_Content m)) +
     sum_list (map (\<lambda>tc. est (tc_Name tc) + est (tc_Arguments tc)) (lm_ToolCalls m))"

definition summaryInputTokensFor :: "(string \<Rightarrow> int) \<Rightarrow> llm_message list \<Rightarrow> int" where
  "summaryInputTokensFor est ms = sum_list (map (summaryTokens est) ms)"

text \<open>The longest prefix of runes within the budget, by bisection.\<close>

function bisect :: "(string \<Rightarrow> int) \<Rightarrow> int \<Rightarrow> string list \<Rightarrow> nat \<Rightarrow> nat \<Rightarrow> nat" where
  "bisect est budget rs lo hi =
     (if \<not> lo < hi then lo
      else
        let mid = lo + (hi - lo + 1) div 2
        in if est (concat (take mid rs)) \<le> budget then bisect est budget rs mid hi else bisect est budget rs lo (mid - 1))"
  by pat_completeness auto
termination
  by (relation "measure (\<lambda>(est, budget, rs, lo, hi). hi - lo)") auto

declare bisect.simps [simp del]

definition limitSummaryText :: "(string \<Rightarrow> int) \<Rightarrow> string \<Rightarrow> int \<Rightarrow> string" where
  "limitSummaryText est t budget =
     (if budget \<le> 0 \<or> t = [] then []
      else if est t \<le> budget then t
      else let rs = utf8_runes t; r = concat (take (bisect est budget rs 0 (length rs)) rs) in if utf8_valid r then r else [])"

fun bound_blocks :: "(string \<Rightarrow> int) \<Rightarrow> ContentBlock list \<Rightarrow> int \<Rightarrow> ContentBlock list \<times> int" where
  "bound_blocks est [] remaining = ([], remaining)"
| "bound_blocks est (b # bs) remaining =
     (let t = (if cb_Text b = [] \<or> remaining \<le> 0 then [] else limitSummaryText est (cb_Text b) remaining);
          left = (if cb_Text b = [] \<or> remaining \<le> 0 then remaining else remaining - est t);
          (out, left) = bound_blocks est bs left
      in (ContentBlock (cb_Kind b) t (cb_Image b) (cb_CallID b) (cb_Name b) (cb_Arguments b) (cb_IsError b) (cb_Blocks b) (cb_Raw b) # out, left))"

fun bound_calls :: "(string \<Rightarrow> int) \<Rightarrow> ToolCall list \<Rightarrow> int \<Rightarrow> ToolCall list" where
  "bound_calls est [] remaining = []"
| "bound_calls est (c # cs) remaining =
     (if remaining \<le> 0 then c\<lparr>tc_Name := [], tc_Arguments := []\<rparr> # bound_calls est cs remaining
      else
        let n = limitSummaryText est (tc_Name c) remaining; left = remaining - est n;
            a = limitSummaryText est (tc_Arguments c) left
        in c\<lparr>tc_Name := n, tc_Arguments := a\<rparr> # bound_calls est cs (left - est a))"

definition boundSummaryMessage :: "(string \<Rightarrow> int) \<Rightarrow> llm_message \<Rightarrow> int \<Rightarrow> llm_message" where
  "boundSummaryMessage est m budget =
     (if budget \<le> 0 then \<lparr>lm_Role = lm_Role m, lm_Content = [], lm_ToolCallID = [], lm_ToolCalls = []\<rparr>
      else let (bs, left) = bound_blocks est (lm_Content m) budget
           in m\<lparr>lm_Content := bs, lm_ToolCalls := bound_calls est (lm_ToolCalls m) left\<rparr>)"

fun bound_group :: "(string \<Rightarrow> int) \<Rightarrow> llm_message list \<Rightarrow> int \<Rightarrow> llm_message list" where
  "bound_group est [] remaining = []"
| "bound_group est (m # ms) remaining =
     (if remaining \<le> 0 then []
      else
        let c = boundSummaryMessage est m remaining
        in if summaryTokens est c > 0 then c # bound_group est ms (remaining - summaryTokens est c) else bound_group est ms remaining)"

text \<open>A message with tool calls and the results that follow it stay together.\<close>

definition group_of :: "llm_message \<Rightarrow> llm_message list \<Rightarrow> llm_message list" where
  "group_of m ms =
     m # (if lm_ToolCalls m = [] then []
          else takeWhile (\<lambda>r. lm_Role r = RoleTool \<and> lm_ToolCallID r \<in> tc_ID ` set (lm_ToolCalls m)) ms)"

function split_chunks :: "(string \<Rightarrow> int) \<Rightarrow> int \<Rightarrow> llm_message list \<Rightarrow> llm_message list \<Rightarrow> llm_message list list" where
  "split_chunks est limit [] current = (if current = [] then [] else [current])"
| "split_chunks est limit (m # ms) current =
     (let g = group_of m ms; rest = drop (length g - 1) ms; n = summaryInputTokensFor est g;
          flushed = (if current \<noteq> [] \<and> summaryInputTokensFor est current + n > limit then [current] else []);
          current = (if flushed = [] then current else [])
      in if n > limit then
           (let b = bound_group est g limit
            in flushed @ (if current = [] then [] else [current]) @ (if b = [] then [] else [b]) @ split_chunks est limit rest [])
         else flushed @ split_chunks est limit rest (current @ g))"
  by pat_completeness auto
termination
  by (relation "measure (\<lambda>(est, limit, ms, current). length ms)") auto

declare split_chunks.simps(2) [simp del]

definition splitSummaryChunks :: "BasicOpts \<Rightarrow> llm_message list \<Rightarrow> llm_message list list" where
  "splitSummaryChunks opts ms = split_chunks (bo_Tokenizer opts) (summaryInputBudget opts) ms []"

text \<open>Bounding the partial summaries of one round.\<close>

fun bound_partials :: "(string \<Rightarrow> int) \<Rightarrow> string list \<Rightarrow> int \<Rightarrow> string list" where
  "bound_partials est [] remaining = []"
| "bound_partials est (t # ts) remaining =
     (if remaining \<le> 0 then []
      else
        let left = int (length (t # ts)); allocation = max 1 (remaining div left); t = limitSummaryText est t allocation
        in t # bound_partials est ts (remaining - est t))"

section \<open>Asking for summaries\<close>

datatype summary_error =
    SumCancelled | SumNoMessages | SumTooDeep | SumUnsplittable | SumAllEmpty | SumNoLLM | SumProvider string

record 'w summary_run =
  sr_requests :: "llm_message list list"
  sr_world :: 'w

record 'w summarizer =
  sz_ask :: "(llm_message list \<Rightarrow> 'w \<Rightarrow> (string + string) \<times> 'w) option"
  sz_poll :: "'w \<Rightarrow> bool \<times> 'w"

definition sum_cancelled :: "'w summarizer \<Rightarrow> 'w summary_run \<Rightarrow> bool \<times> 'w summary_run" where
  "sum_cancelled S u = (case sz_poll S (sr_world u) of (c, w) \<Rightarrow> (c, u\<lparr>sr_world := w\<rparr>))"

text \<open>One request; the fixed instruction the source appends as the last message is left out.\<close>

definition summarizeDirect :: "'w summarizer \<Rightarrow> llm_message list \<Rightarrow> 'w summary_run \<Rightarrow> (summary_error + string) \<times> 'w summary_run" where
  "summarizeDirect S ms u =
     (case sz_ask S of
        None \<Rightarrow> (Inl SumNoLLM, u)
      | Some ask \<Rightarrow>
          (case ask ms (sr_world u) of
             (Inl e, w) \<Rightarrow> (Inl (SumProvider e), u\<lparr>sr_requests := sr_requests u @ [ms], sr_world := w\<rparr>)
           | (Inr t, w) \<Rightarrow> (Inr (trim_space t), u\<lparr>sr_requests := sr_requests u @ [ms], sr_world := w\<rparr>)))"

fun summarize_chunks ::
    "'w summarizer \<Rightarrow> (llm_message list \<Rightarrow> 'w summary_run \<Rightarrow> (summary_error + string) \<times> 'w summary_run) \<Rightarrow>
     llm_message list list \<Rightarrow> 'w summary_run \<Rightarrow> (summary_error + string list) \<times> 'w summary_run" where
  "summarize_chunks S f [] u = (Inr [], u)"
| "summarize_chunks S f (c # cs) u =
     (case sum_cancelled S u of
        (True, u) \<Rightarrow> (Inl SumCancelled, u)
      | (False, u) \<Rightarrow>
          (case f c u of
             (Inl e, u) \<Rightarrow> (Inl e, u)
           | (Inr t, u) \<Rightarrow>
               (case summarize_chunks S f cs u of
                  (Inl e, u) \<Rightarrow> (Inl e, u)
                | (Inr ts, u) \<Rightarrow> (Inr (if trim_space t = [] then ts else t # ts), u))))"

definition summary_step ::
    "'w summarizer \<Rightarrow> BasicOpts \<Rightarrow> (llm_message list \<Rightarrow> 'w summary_run \<Rightarrow> (summary_error + string) \<times> 'w summary_run) option \<Rightarrow>
     llm_message list \<Rightarrow> 'w summary_run \<Rightarrow> (summary_error + string) \<times> 'w summary_run" where
  "summary_step S opts deeper ms u =
     (let est = bo_Tokenizer opts; budget = summaryInputBudget opts
      in case sum_cancelled S u of
        (True, u) \<Rightarrow> (Inl SumCancelled, u)
      | (False, u) \<Rightarrow>
          if ms = [] then (Inl SumNoMessages, u)
          else if summaryInputTokensFor est ms \<le> budget then summarizeDirect S ms u
          else case deeper of
            None \<Rightarrow> (Inl SumTooDeep, u)
          | Some f \<Rightarrow>
              (case splitSummaryChunks opts ms of
                 [] \<Rightarrow> (Inl SumUnsplittable, u)
               | [c] \<Rightarrow> if summaryInputTokensFor est c \<le> budget then summarizeDirect S c u else (Inl SumUnsplittable, u)
               | cs \<Rightarrow>
                   (case summarize_chunks S f cs u of
                      (Inl e, u) \<Rightarrow> (Inl e, u)
                    | (Inr [], u) \<Rightarrow> (Inl SumAllEmpty, u)
                    | (Inr ts, u) \<Rightarrow>
                        f (map user_text (if summaryInputTokensFor est (map user_text ts) > budget then bound_partials est ts budget else ts)) u)))"

text \<open>The levels left below the depth limit.\<close>

fun summarizeBounded ::
    "nat \<Rightarrow> 'w summarizer \<Rightarrow> BasicOpts \<Rightarrow> llm_message list \<Rightarrow> 'w summary_run \<Rightarrow> (summary_error + string) \<times> 'w summary_run" where
  "summarizeBounded 0 S opts = summary_step S opts None"
| "summarizeBounded (Suc n) S opts = summary_step S opts (Some (summarizeBounded n S opts))"

definition summarize :: "'w summarizer \<Rightarrow> BasicOpts \<Rightarrow> llm_message list \<Rightarrow> 'w summary_run \<Rightarrow> (summary_error + string) \<times> 'w summary_run" where
  "summarize S opts ms u = summarizeBounded maxSummaryReductionDepth S opts ms u"

end
