(* ===== verification/Compaction_Requests.thy ===== *)
theory Compaction_Requests
  imports Compaction_Summary
begin

text \<open>
  What the summariser promises: every request it makes fits the budget; splitting keeps all messages and
  no call away from its results while each unit fits; and where the bound on a cut message is broken, a
  conversation with one large tool result that can never be summarised.
\<close>

section \<open>Every request fits\<close>

definition fits :: "BasicOpts \<Rightarrow> llm_message list \<Rightarrow> bool" where
  "fits opts ms \<longleftrightarrow> summaryInputTokensFor (bo_Tokenizer opts) ms \<le> summaryInputBudget opts"

text \<open>The requests a run adds, all of which fit.\<close>

definition asks_fitting :: "BasicOpts \<Rightarrow> 'w summary_run \<Rightarrow> 'w summary_run \<Rightarrow> bool" where
  "asks_fitting opts u u' \<longleftrightarrow> (\<exists>rs. sr_requests u' = sr_requests u @ rs \<and> list_all (fits opts) rs)"

lemma asks_refl [simp]: "asks_fitting opts u u"
  by (simp add: asks_fitting_def)

lemma asks_trans: "asks_fitting opts u v \<Longrightarrow> asks_fitting opts v w \<Longrightarrow> asks_fitting opts u w"
  by (auto simp: asks_fitting_def)

lemma asks_cancelled: "sum_cancelled S u = (c, v) \<Longrightarrow> asks_fitting opts u v"
  by (auto simp: sum_cancelled_def asks_fitting_def split: prod.splits)

lemma asks_direct: "fits opts ms \<Longrightarrow> summarizeDirect S ms u = (r, v) \<Longrightarrow> asks_fitting opts u v"
  by (auto simp: summarizeDirect_def asks_fitting_def split: prod.splits sum.splits option.splits)

lemma asks_chunks:
  assumes "\<And>c u r v. f c u = (r, v) \<Longrightarrow> asks_fitting opts u v"
  shows "summarize_chunks S f cs u = (r, v) \<Longrightarrow> asks_fitting opts u v"
proof (induction cs arbitrary: u r v)
  case (Cons c cs)
  obtain b u1 where p: "sum_cancelled S u = (b, u1)" by fastforce
  have 1: "asks_fitting opts u u1" by (rule asks_cancelled [OF p])
  obtain x u2 where f: "f c u1 = (x, u2)" by fastforce
  have 2: "asks_fitting opts u u2" by (rule asks_trans [OF 1 assms [OF f]])
  obtain y u3 where g: "summarize_chunks S f cs u2 = (y, u3)" by fastforce
  have 3: "asks_fitting opts u u3" by (rule asks_trans [OF 2 Cons.IH [OF g]])
  from 1 2 3 Cons.prems p f g show ?case by (auto split: bool.splits sum.splits)
qed simp

lemma asks_step:
  assumes deep: "\<And>f c u r v. deeper = Some f \<Longrightarrow> f c u = (r, v) \<Longrightarrow> asks_fitting opts u v"
    and st: "summary_step S opts deeper ms u = (r, v)"
  shows "asks_fitting opts u v"
proof -
  obtain b u1 where p: "sum_cancelled S u = (b, u1)" by fastforce
  have 1: "asks_fitting opts u u1" by (rule asks_cancelled [OF p])
  consider (stop) "v = u1" | (direct) c where "fits opts c" "summarizeDirect S c u1 = (r, v)"
    | (deep) f c cs where "deeper = Some f" "summary_step S opts deeper ms u = (case summarize_chunks S f (c # cs) u1 of
        (Inl e, u) \<Rightarrow> (Inl e, u) | (Inr [], u) \<Rightarrow> (Inl SumAllEmpty, u)
      | (Inr ts, u) \<Rightarrow> f (map user_text (if summaryInputTokensFor (bo_Tokenizer opts) (map user_text ts) > summaryInputBudget opts
            then bound_partials (bo_Tokenizer opts) ts (summaryInputBudget opts) else ts)) u)"
    using st p by (auto simp: summary_step_def Let_def fits_def split: bool.splits if_splits option.splits list.splits)
  then show ?thesis
  proof cases
    case stop
    then show ?thesis using 1 by simp
  next
    case direct
    then show ?thesis using asks_trans [OF 1] asks_direct by blast
  next
    case deep: (deep f c cs)
    obtain x u2 where g: "summarize_chunks S f (c # cs) u1 = (x, u2)" by fastforce
    have 2: "asks_fitting opts u u2" using asks_trans [OF 1 asks_chunks [OF _ g]] assms(1) deep(1) by blast
    have "v = u2 \<or> (\<exists>ts. f ts u2 = (r, v))" using deep(2) st unfolding g by (auto split: sum.splits list.splits)
    then show ?thesis using 2 asks_trans [OF 2] assms(1) [OF deep(1)] by blast
  qed
qed

lemma asks_bounded: "summarizeBounded n S opts ms u = (r, v) \<Longrightarrow> asks_fitting opts u v"
proof (induction n arbitrary: ms u r v)
  case 0
  then show ?case by (auto intro: asks_step [rotated])
next
  case (Suc n)
  show ?case by (rule asks_step [OF _ Suc.prems [unfolded summarizeBounded.simps]]) (auto intro: Suc.IH)
qed

section \<open>Chunks\<close>

text \<open>The units a chunk is made of: a message with tool calls goes with the results that follow it.\<close>

function units :: "llm_message list \<Rightarrow> llm_message list list" where
  "units [] = []"
| "units (m # ms) = group_of m ms # units (drop (length (group_of m ms) - 1) ms)"
  by pat_completeness auto
termination
  by (relation "measure length") auto

declare units.simps(2) [simp del]

lemma group_take: "group_of m ms = m # take (length (group_of m ms) - 1) ms"
proof -
  let ?P = "\<lambda>r. lm_Role r = RoleTool \<and> lm_ToolCallID r \<in> tc_ID ` set (lm_ToolCalls m)"
  have "takeWhile ?P ms = take (length (takeWhile ?P ms)) ms" by (rule takeWhile_eq_take)
  then show ?thesis by (auto simp: group_of_def)
qed

lemma concat_units: "concat (units ms) = ms"
proof (induction ms rule: units.induct)
  case (2 m ms)
  have "group_of m ms @ drop (length (group_of m ms) - 1) ms = m # ms"
    using group_take [of m ms] by (metis append_Cons append_take_drop_id)
  then show ?case using 2 by (simp add: units.simps(2))
qed simp

lemma tokens_append: "summaryInputTokensFor est (xs @ ys) = summaryInputTokensFor est xs + summaryInputTokensFor est ys"
  by (simp add: summaryInputTokensFor_def)

lemma units_nonempty: "g \<in> set (units ms) \<Longrightarrow> g \<noteq> []"
  by (induction ms rule: units.induct) (auto simp: units.simps(2) group_of_def)

lemma split_fitting:
  assumes "summaryInputTokensFor est (group_of m ms) \<le> limit"
  shows "split_chunks est limit (m # ms) current =
    (if current \<noteq> [] \<and> summaryInputTokensFor est current + summaryInputTokensFor est (group_of m ms) > limit
     then current # split_chunks est limit (drop (length (group_of m ms) - 1) ms) (group_of m ms)
     else split_chunks est limit (drop (length (group_of m ms) - 1) ms) (current @ group_of m ms))"
  using assms by (simp add: split_chunks.simps(2) Let_def)

lemma split_units:
  assumes "\<forall>g \<in> set (units ms). summaryInputTokensFor est g \<le> limit" "summaryInputTokensFor est (concat gs) \<le> limit" "\<forall>g \<in> set gs. g \<noteq> []"
  shows "\<exists>gss. concat gss = gs @ units ms \<and> split_chunks est limit ms (concat gs) = map concat gss \<and>
    (\<forall>c \<in> set (map concat gss). summaryInputTokensFor est c \<le> limit)"
  using assms
proof (induction ms arbitrary: gs rule: units.induct)
  case 1
  show ?case
  proof (cases gs)
    case Nil
    then show ?thesis by (intro exI [of _ "[]"]) simp
  next
    case (Cons g hs)
    then show ?thesis using 1 by (intro exI [of _ "[gs]"]) auto
  qed
next
  case (2 m ms)
  let ?g = "group_of m ms" and ?rest = "drop (length (group_of m ms) - 1) ms"
  have us: "units (m # ms) = ?g # units ?rest" by (rule units.simps(2))
  have g: "summaryInputTokensFor est ?g \<le> limit" and rest: "\<forall>g \<in> set (units ?rest). summaryInputTokensFor est g \<le> limit"
    using "2.prems"(1) by (simp_all add: us)
  have ne: "?g \<noteq> []" by (simp add: group_of_def)
  show ?case
  proof (cases "concat gs \<noteq> [] \<and> summaryInputTokensFor est (concat gs) + summaryInputTokensFor est ?g > limit")
    case True
    obtain gss where gss: "concat gss = [?g] @ units ?rest" "split_chunks est limit ?rest (concat [?g]) = map concat gss"
      "\<forall>c \<in> set (map concat gss). summaryInputTokensFor est c \<le> limit"
      using "2.IH" [of "[?g]"] rest g ne by auto
    then show ?thesis using True "2.prems"(2)
      by (intro exI [of _ "gs # gss"]) (simp add: us split_fitting [OF g])
  next
    case False
    then have "summaryInputTokensFor est (concat (gs @ [?g])) \<le> limit"
    proof (cases "concat gs = []")
      case True
      then have "concat (gs @ [?g]) = ?g" by simp
      then show ?thesis using g by (simp only:)
    next
      case False
      then have "\<not> summaryInputTokensFor est (concat gs) + summaryInputTokensFor est ?g > limit"
        using \<open>\<not> (concat gs \<noteq> [] \<and> summaryInputTokensFor est (concat gs) + summaryInputTokensFor est ?g > limit)\<close> by blast
      then show ?thesis by (simp add: tokens_append)
    qed
    then obtain gss where gss: "concat gss = (gs @ [?g]) @ units ?rest" "split_chunks est limit ?rest (concat (gs @ [?g])) = map concat gss"
      "\<forall>c \<in> set (map concat gss). summaryInputTokensFor est c \<le> limit"
      using "2.IH" [of "gs @ [?g]"] rest "2.prems"(3) ne by auto
    then show ?thesis using False by (intro exI [of _ gss]) (auto simp: us split_fitting [OF g])
  qed
qed

section \<open>Cutting a group to the budget\<close>

lemma bisect_within:
  assumes "est (concat (take lo rs)) \<le> budget"
  shows "est (concat (take (bisect est budget rs lo hi) rs)) \<le> budget"
  using assms
proof (induction est budget rs lo hi rule: bisect.induct)
  case (1 est budget rs lo hi)
  then show ?case by (subst bisect.simps) (auto simp: Let_def)
qed

lemma limit_within: "est [] = 0 \<Longrightarrow> 0 < budget \<Longrightarrow> est (limitSummaryText est t budget) \<le> budget"
  using bisect_within [of est 0 "utf8_runes t" budget] by (simp add: limitSummaryText_def Let_def)

text \<open>What the cut text of a message is worth, with what is left of the budget.\<close>

lemma blocks_within:
  assumes "est [] = 0"
  shows "bound_blocks est bs remaining = (out, left) \<Longrightarrow> 0 \<le> remaining \<Longrightarrow>
    0 \<le> left \<and> sum_list (map (\<lambda>b. est (cb_Text b)) out) + left = remaining"
proof (induction bs arbitrary: remaining out left)
  case (Cons b bs)
  let ?t = "if cb_Text b = [] \<or> remaining \<le> 0 then [] else limitSummaryText est (cb_Text b) remaining"
  let ?l = "if cb_Text b = [] \<or> remaining \<le> 0 then remaining else remaining - est ?t"
  obtain o1 l1 where r: "bound_blocks est bs ?l = (o1, l1)" by fastforce
  have l: "0 \<le> ?l" "est ?t + ?l = remaining" using Cons.prems(2) assms limit_within [where est = est, OF assms, of remaining "cb_Text b"] by auto
  have ih: "0 \<le> l1 \<and> sum_list (map (\<lambda>b. est (cb_Text b)) o1) + l1 = ?l" by (rule Cons.IH [OF r l(1)])
  have e: "bound_blocks est (b # bs) remaining =
    (ContentBlock (cb_Kind b) ?t (cb_Image b) (cb_CallID b) (cb_Name b) (cb_Arguments b) (cb_IsError b) (cb_Blocks b) (cb_Raw b) # o1, l1)"
    using r by (simp only: bound_blocks.simps Let_def prod.case)
  show ?case using Cons.prems(1) ih l(2) unfolding e by auto
qed simp

lemma calls_within:
  assumes "est [] = 0"
  shows "0 \<le> remaining \<Longrightarrow>
    sum_list (map (\<lambda>c. est (tc_Name c) + est (tc_Arguments c)) (bound_calls est cs remaining)) \<le> remaining"
proof (induction cs arbitrary: remaining)
  case (Cons c cs)
  show ?case
  proof (cases "remaining \<le> 0")
    case True
    then show ?thesis using Cons assms by simp
  next
    case False
    let ?n = "limitSummaryText est (tc_Name c) remaining"
    let ?a = "limitSummaryText est (tc_Arguments c) (remaining - est ?n)"
    have n: "est ?n \<le> remaining" using limit_within [where est = est, OF assms] False by simp
    have a: "est ?a \<le> remaining - est ?n"
    proof (cases "remaining - est ?n \<le> 0")
      case True
      then show ?thesis using n assms by (simp add: limitSummaryText_def)
    next
      case False
      then show ?thesis by (intro limit_within [where est = est, OF assms]) simp
    qed
    show ?thesis using Cons.IH [of "remaining - est ?n - est ?a"] a False by (simp add: Let_def)
  qed
qed simp

text \<open>A cut message is worth its budget and the id of the call it answers, which is never cut.\<close>

lemma message_within:
  assumes "est [] = 0" "0 < budget"
  shows "summaryTokens est (boundSummaryMessage est m budget) \<le> budget + est (lm_ToolCallID m)"
proof -
  obtain bs left where b: "bound_blocks est (lm_Content m) budget = (bs, left)" by fastforce
  then have "0 \<le> left \<and> sum_list (map (\<lambda>b. est (cb_Text b)) bs) + left = budget" using blocks_within [where est = est, OF assms(1)] assms(2) by simp
  then show ?thesis using calls_within [where est = est, OF assms(1), of left "lm_ToolCalls m"] assms(2) b
    by (simp add: boundSummaryMessage_def summaryTokens_def)
qed

lemma group_within:
  assumes "est [] = 0" "\<forall>m \<in> set g. est (lm_ToolCallID m) \<le> 0" "0 \<le> remaining"
  shows "summaryInputTokensFor est (bound_group est g remaining) \<le> remaining"
  using assms(2,3)
proof (induction g arbitrary: remaining)
  case (Cons m ms)
  show ?case
  proof (cases "remaining \<le> 0")
    case True
    then show ?thesis using Cons.prems by (simp add: summaryInputTokensFor_def)
  next
    case False
    let ?c = "boundSummaryMessage est m remaining"
    have "summaryTokens est ?c \<le> remaining" using message_within [where est = est, OF assms(1), of remaining m] False Cons.prems(1) by simp
    then show ?thesis using Cons.IH [of "remaining - summaryTokens est ?c"] Cons.IH [of remaining] Cons.prems False
      by (simp add: Let_def summaryInputTokensFor_def)
  qed
qed (simp add: summaryInputTokensFor_def)

lemma split_within:
  assumes "est [] = 0" "\<forall>m \<in> set ms. est (lm_ToolCallID m) \<le> 0" "0 \<le> limit" "summaryInputTokensFor est current \<le> limit"
  shows "\<forall>c \<in> set (split_chunks est limit ms current). summaryInputTokensFor est c \<le> limit"
  using assms(2,4)
proof (induction ms arbitrary: current rule: units.induct)
  case 1
  then show ?case by simp
next
  case (2 m ms)
  let ?g = "group_of m ms" and ?rest = "drop (length (group_of m ms) - 1) ms"
  have rest: "\<forall>m \<in> set ?rest. est (lm_ToolCallID m) \<le> 0" using "2.prems"(1) by (auto dest: in_set_dropD)
  have mem: "\<forall>m \<in> set ?g. est (lm_ToolCallID m) \<le> 0"
    using "2.prems"(1) by (subst group_take) (auto dest: in_set_takeD)
  have zero: "summaryInputTokensFor est [] \<le> limit" using assms(3) by (simp add: summaryInputTokensFor_def)
  show ?case
  proof (cases "summaryInputTokensFor est ?g \<le> limit")
    case True
    then show ?thesis using "2.IH" [OF rest, of ?g] "2.IH" [OF rest, of "current @ ?g"] "2.prems"(2)
      by (auto simp: split_fitting tokens_append summaryInputTokensFor_def)
  next
    case False
    let ?b = "bound_group est ?g limit"
    have b: "summaryInputTokensFor est ?b \<le> limit" by (rule group_within [OF assms(1) mem assms(3)])
    have sub: "set (split_chunks est limit (m # ms) current) \<subseteq> {current, ?b} \<union> set (split_chunks est limit ?rest [])"
      using False by (auto simp: split_chunks.simps(2) Let_def split: if_splits)
    show ?thesis using sub b "2.prems"(2) "2.IH" [OF rest zero] by blast
  qed
qed

section \<open>What the summariser promises\<close>

text \<open>
  C15: Whatever the model answers and whenever the context is cancelled, every request the summariser makes
  fits the configured input budget, at every depth of the reduction.
\<close>

theorem requests_fit:
  assumes "summarize S opts ms u = (r, u')"
  shows "\<exists>rs. sr_requests u' = sr_requests u @ rs \<and>
    (\<forall>q \<in> set rs. summaryInputTokensFor (bo_Tokenizer opts) q \<le> summaryInputBudget opts)"
  using asks_bounded [OF assms [unfolded summarize_def]] by (simp add: asks_fitting_def list_all_iff fits_def)

text \<open>
  Fact: When every unit (a message, or an assistant message with the results of its calls) fits the budget,
  the chunks are the conversation: runs of whole units in order, each of them within the budget.
\<close>

theorem chunks_whole:
  assumes "\<forall>g \<in> set (units ms). summaryInputTokensFor (bo_Tokenizer opts) g \<le> summaryInputBudget opts"
  shows "concat (splitSummaryChunks opts ms) = ms \<and>
    (\<exists>gss. concat gss = units ms \<and> splitSummaryChunks opts ms = map concat gss) \<and>
    (\<forall>c \<in> set (splitSummaryChunks opts ms). summaryInputTokensFor (bo_Tokenizer opts) c \<le> summaryInputBudget opts)"
proof -
  have "0 \<le> summaryInputBudget opts" by (simp add: summaryInputBudget_def defaultSummaryInputTokens_def)
  then obtain gss where gss: "concat gss = units ms" "splitSummaryChunks opts ms = map concat gss"
    "\<forall>c \<in> set (map concat gss). summaryInputTokensFor (bo_Tokenizer opts) c \<le> summaryInputBudget opts"
    using split_units [OF assms, of "[]"] by (auto simp: splitSummaryChunks_def summaryInputTokensFor_def)
  have "concat (map concat gss) = concat (concat gss)" by (induction gss) simp_all
  then show ?thesis using gss concat_units [of ms] by auto
qed

text \<open>
  Fact: When the ids of the answered calls cost nothing, every chunk fits the budget, however large the
  messages are.
\<close>

theorem chunks_fit:
  assumes "bo_Tokenizer opts [] = 0" "\<forall>m \<in> set ms. bo_Tokenizer opts (lm_ToolCallID m) \<le> 0"
  shows "\<forall>c \<in> set (splitSummaryChunks opts ms). summaryInputTokensFor (bo_Tokenizer opts) c \<le> summaryInputBudget opts"
  unfolding splitSummaryChunks_def using assms
  by (intro split_within) (simp_all add: summaryInputBudget_def defaultSummaryInputTokens_def summaryInputTokensFor_def)

text \<open>A small budget, a model that always answers, and a call with a large result.\<close>

definition small_opts :: BasicOpts where
  "small_opts = \<lparr>bo_Meter = None, bo_Tokenizer = defaultTokenEstimate, bo_TokenThreshold = 20, bo_RetainTurns = 2,
     bo_RetainTokens = 0, bo_FrameSummary = False, bo_RequireSmallerSummary = True, bo_SummaryInputTokens = 10\<rparr>"

definition ready_model :: "unit summarizer" where
  "ready_model = \<lparr>sz_ask = Some (\<lambda>ms w. (Inr ''short'', w)), sz_poll = (\<lambda>w. (False, w))\<rparr>"

definition no_requests :: "unit summary_run" where
  "no_requests = \<lparr>sr_requests = [], sr_world = ()\<rparr>"

definition call_message :: "string \<Rightarrow> string \<Rightarrow> llm_message" where
  "call_message i name = \<lparr>lm_Role = RoleAssistant, lm_Content = [], lm_ToolCallID = [],
     lm_ToolCalls = [\<lparr>tc_ID = i, tc_Name = name, tc_Arguments = ''{}''\<rparr>]\<rparr>"

definition giant_result :: "llm_message list" where
  "giant_result = [user_text ''look'', call_message ''call_1'' ''read_file'', tool_message ''call_1'' [Text (replicate 60 CHR ''x'')]]"

lemma requests_fit_witness:
  "\<exists>rs. sr_requests (snd (summarize ready_model small_opts (replicate 8 (user_text ''a longer message'')) no_requests)) = [] @ rs \<and>
    (\<forall>q \<in> set rs. summaryInputTokensFor defaultTokenEstimate q \<le> 10)"
proof -
  have e: "bo_Tokenizer small_opts = defaultTokenEstimate" "summaryInputBudget small_opts = 10" "sr_requests no_requests = []"
    by (simp_all add: small_opts_def no_requests_def summaryInputBudget_def)
  show ?thesis
    using requests_fit [OF prod.collapse [symmetric], of ready_model small_opts "replicate 8 (user_text ''a longer message'')" no_requests]
    unfolding e .
qed

lemma chunks_whole_witness:
  "concat (splitSummaryChunks small_opts (replicate 8 (user_text ''a longer message''))) = replicate 8 (user_text ''a longer message'')"
proof -
  have "\<forall>g \<in> set (units (replicate 8 (user_text ''a longer message''))).
      summaryInputTokensFor (bo_Tokenizer small_opts) g \<le> summaryInputBudget small_opts" by code_simp
  from chunks_whole [OF this] show ?thesis by blast
qed

lemma chunks_fit_witness:
  "\<forall>c \<in> set (splitSummaryChunks small_opts [user_text (replicate 90 CHR ''x'')]). summaryInputTokensFor defaultTokenEstimate c \<le> 10"
proof -
  have e: "bo_Tokenizer small_opts = defaultTokenEstimate" "summaryInputBudget small_opts = 10"
    by (simp_all add: small_opts_def summaryInputBudget_def)
  show ?thesis using chunks_fit [of small_opts "[user_text (replicate 90 CHR ''x'')]"]
    unfolding e by (simp add: user_text_def defaultTokenEstimate_def)
qed


end
