(* ===== verification/Session_Surface.thy ===== *)
theory Session_Surface
  imports Session_Projection Session_Log
begin

text \<open>
  The priced surface: \<^verbatim>\<open>foldSurface\<close> of \<^verbatim>\<open>internal/projection/projection.go\<close> keeps the model-visible
  messages with the rows they come from, and the token meter (\<^verbatim>\<open>internal/meter/meter.go\<close>) prices them. It
  is a second fold beside \<^verbatim>\<open>derive\<close>; the theorem says when the two agree.
\<close>

record SurfaceEntry =
  se_Seq :: nat
  se_Message :: llm_message

definition in_replaced :: "SurfaceReplace \<Rightarrow> SurfaceEntry \<Rightarrow> bool" where
  "in_replaced op e \<longleftrightarrow> sr_Start op \<le> int (se_Seq e) \<and> int (se_Seq e) \<le> sr_End op"

definition surface_step :: "event \<Rightarrow> SurfaceEntry list \<Rightarrow> SurfaceEntry list" where
  "surface_step ev entries =
     (case DeriveEventMessage ev of
        None \<Rightarrow> entries
      | Some m \<Rightarrow>
          let entry = \<lparr>se_Seq = ev_Seq ev, se_Message = m\<rparr>
          in case SurfaceReplacement ev of
               None \<Rightarrow> entries @ [entry]
             | Some op \<Rightarrow>
                 if list_ex (in_replaced op) entries
                 then takeWhile (\<lambda>e. \<not> in_replaced op e) entries @ [entry] @ rev (takeWhile (\<lambda>e. \<not> in_replaced op e) (rev entries))
                 else entries @ [entry])"

definition foldSurface :: "event list \<Rightarrow> SurfaceEntry list" where
  "foldSurface es = fold surface_step es []"

section \<open>The two folds\<close>

definition surface_tag :: "SurfaceEntry \<Rightarrow> tagged" where
  "surface_tag e = (se_Message e, se_Seq e)"

lemma surface_tag_entry [simp]: "surface_tag \<lparr>se_Seq = q, se_Message = m\<rparr> = (m, q)"
  by (simp add: surface_tag_def)

text \<open>Replacements with a range of positions that ends before the row.\<close>

definition surfaces_past :: "event list \<Rightarrow> bool" where
  "surfaces_past es \<longleftrightarrow> (\<forall>ev \<in> set es. \<forall>op. SurfaceReplacement ev = Some op \<longrightarrow> 0 \<le> sr_Start op \<and> nat (sr_End op) < ev_Seq ev)"

lemma row_replacement_iff: "row_replacement ev = Some (op, t) \<Longrightarrow> SurfaceReplacement ev = Some op"
  by (auto simp: row_replacement_def SurfaceReplacement_def split: if_splits option.splits)

lemma surface_malformed: "SurfaceReplacement ev = Some op \<Longrightarrow> row_replacement ev = None \<Longrightarrow> 0 \<le> sr_Start op \<Longrightarrow> sr_End op < sr_Start op"
  by (auto simp: row_replacement_def SurfaceReplacement_def split: if_splits option.splits)

lemma surfaces_replacements: "surfaces_past es \<Longrightarrow> replacements_past es"
  by (auto simp: surfaces_past_def replacements_past_def dest: row_replacement_iff)

lemma plain_at_most_one: "plain_messages ev = [] \<or> (\<exists>m. plain_messages ev = [m])"
  by (auto simp: plain_messages_def split: option.split)

lemma derive_replacing: "row_replacement ev = Some (op, t) \<Longrightarrow> derive [ev] = [user_text t]"
  using derive_state_snoc [of "[]" ev] by (simp add: derive_def derive_state_Nil derive_step_def replace_range_def)

lemma take_tag: "takeWhile (\<lambda>t. \<not> in_range op t) (map surface_tag xs) = map surface_tag (takeWhile (\<lambda>e. \<not> in_replaced op e) xs)"
  by (simp add: takeWhile_map comp_def in_range_def in_replaced_def surface_tag_def)

lemma ex_tag: "list_ex (in_range op) (map surface_tag xs) = list_ex (in_replaced op) xs"
  by (induction xs) (simp_all add: in_range_def in_replaced_def surface_tag_def)

lemma surface_replaces:
  assumes "SurfaceReplacement ev = Some op" "DeriveEventMessage ev = Some m"
  shows "map surface_tag (surface_step ev xs) = replace_range op (map surface_tag xs) (m, ev_Seq ev)"
  using assms take_tag [of op xs] take_tag [of op "rev xs"] ex_tag [of op xs]
  by (simp add: surface_step_def replace_range_def rev_map)

lemma fold_surface_snoc: "foldSurface (es @ [ev]) = surface_step ev (foldSurface es)"
  by (simp add: foldSurface_def)

lemma surface_tags:
  assumes "contiguous es" "surfaces_past es"
  shows "map surface_tag (foldSurface es) = dv_out (derive_state_of es)"
  using assms
proof (induction es rule: rev_induct)
  case Nil
  then show ?case by (simp add: foldSurface_def derive_state_Nil)
next
  case (snoc ev es)
  have c: "contiguous es" using contiguous_prefix [OF snoc.prems(1)] .
  have p: "surfaces_past es" using snoc.prems(2) by (simp add: surfaces_past_def)
  have ih: "map surface_tag (foldSurface es) = dv_out (derive_state_of es)" by (rule snoc.IH [OF c p])
  have skip: "\<not> (dv_skipUntil (derive_state_of es) \<noteq> 0 \<and> ev_Seq ev \<le> dv_skipUntil (derive_state_of es))"
    using skip_before_next [OF snoc.prems(1) surfaces_replacements [OF p]] by auto
  show ?case
  proof (cases "row_replacement ev")
    case (Some x)
    obtain op t where x: "x = (op, t)" by fastforce
    have m: "DeriveEventMessage ev = Some (user_text t)" using derive_replacing Some x by (simp add: DeriveEventMessage_def)
    have r: "SurfaceReplacement ev = Some op" using row_replacement_iff Some x by blast
    show ?thesis using surface_replaces [OF r m, of "foldSurface es"] Some x ih skip
      by (auto simp: fold_surface_snoc derive_state_snoc derive_step_def)
  next
    case None
    have d: "dv_out (derive_state_of (es @ [ev])) = dv_out (derive_state_of es) @ tag_messages ev"
      using derive_step_plain [OF skip_before_next [OF snoc.prems(1) surfaces_replacements [OF p]] None]
      by (simp add: derive_state_snoc)
    show ?thesis
    proof (cases "DeriveEventMessage ev")
      case None
      then have "plain_messages ev = []" using derive_single [OF \<open>row_replacement ev = None\<close>]
        by (auto simp: DeriveEventMessage_def split: list.splits)
      then show ?thesis using d ih None by (simp add: fold_surface_snoc surface_step_def tag_messages_def)
    next
      case (Some m)
      then have "plain_messages ev = [m]" using derive_single [OF \<open>row_replacement ev = None\<close>] plain_at_most_one [of ev]
        by (auto simp: DeriveEventMessage_def split: list.splits)
      then have t: "tag_messages ev = [(m, ev_Seq ev)]" by (simp add: tag_messages_def)
      show ?thesis
      proof (cases "SurfaceReplacement ev")
        case None
        then show ?thesis using d ih t Some by (simp add: fold_surface_snoc surface_step_def Let_def)
      next
        case op: (Some op)
        have "0 \<le> sr_Start op" using snoc.prems(2) op by (auto simp: surfaces_past_def)
        then have "sr_End op < sr_Start op" using surface_malformed [OF op \<open>row_replacement ev = None\<close>] by blast
        then have "\<not> in_range op x" for x by (auto simp: in_range_def)
        then have "\<not> list_ex (in_range op) xs" for xs by (auto simp: list_ex_iff)
        then show ?thesis using surface_replaces [OF op Some, of "foldSurface es"] d ih t
          by (simp add: fold_surface_snoc replace_range_def)
      qed
    qed
  qed
qed


fun surface_past :: "event \<Rightarrow> bool" where
  "surface_past ev = (case SurfaceReplacement ev of None \<Rightarrow> True | Some op \<Rightarrow> 0 \<le> sr_Start op \<and> nat (sr_End op) < ev_Seq ev)"

lemma surfaces_past_code: "surfaces_past es \<longleftrightarrow> list_all surface_past es"
  by (auto simp: surfaces_past_def list_all_iff split: option.splits)


text \<open>
  Fact: A replacement that cites no sources is not checked: with a negative start the history keeps it as a
  plain message behind the ones before, while the surface drops them.
\<close>

definition negative_log :: session_log where
  "negative_log = append_all New
     [(EventUserMessage, user_row ''a''), (EventUserMessage, user_row ''b''), (EventUserMessage, marker_row ''s'' (- 1) 2)]"

theorem negative_range_diverges:
  "derive (lg_events negative_log) = map user_text [''a'', ''b'', ''s''] \<and>
   map se_Message (foldSurface (lg_events negative_log)) = [user_text ''s'']"
  by code_simp

end
