(* ===== verification/Compaction_Engine.thy ===== *)
theory Compaction_Engine
  imports Compaction_Pairs Compaction_Requests Session_Surface
begin

text \<open>
  One compaction over the session log, \<^verbatim>\<open>internal/compaction/basic.go\<close>: choose a range, summarise it,
  check that the log did not change meanwhile and that the summary is smaller, and append the marker that
  replaces the range. What others append while the model answers is the function \<open>meanwhile\<close>, the strict
  projection of the log the argument \<open>project\<close>. The id of a result, a time stamp, is left out.
\<close>

section \<open>The stored summary\<close>

definition checkpointPreamble :: string where
  "checkpointPreamble = ''This is an automatically generated checkpoint condensing an earlier span of the conversation to free up context. Treat the captured context as established background and build on it without restating it. Continue the task directly from the messages that follow, without acknowledging this checkpoint.''"

definition frameSummary :: "string \<Rightarrow> string" where
  "frameSummary s = checkpointPreamble @ ''\<newline>\<newline><compacted-summary>\<newline>'' @ trim_space s @ ''\<newline></compacted-summary>''"

definition NewUserMessageReplaceWithSources :: "string \<Rightarrow> int \<Rightarrow> int \<Rightarrow> nat list \<Rightarrow> json" where
  "NewUserMessageReplaceWithSources t start stop qs =
     JObj ((if t = [] then [] else [(''text'', JStr t)]) @
       [(''surfaceOp'', JObj [(''op'', JStr surfaceReplaceOp), (''start'', JInt start), (''end'', JInt stop)]),
        (''sourceEventSeqs'', JArr (map (\<lambda>q. JInt (int q)) qs))])"

section \<open>Checks\<close>

definition sameEvent :: "event \<Rightarrow> event \<Rightarrow> bool" where
  "sameEvent a b \<longleftrightarrow> ev_Seq a = ev_Seq b \<and> ev_Type a = ev_Type b \<and> ev_Version a = ev_Version b \<and> ev_Data a = ev_Data b"

definition snapshotStable :: "event list \<Rightarrow> event list \<Rightarrow> int \<Rightarrow> int \<Rightarrow> bool \<Rightarrow> bool" where
  "snapshotStable before after start stop wholeSurface =
     (if wholeSurface then list_all2 sameEvent before after
      else list_all (\<lambda>ev. \<not> in_span start stop ev \<or>
             (case map_of (rev (map (\<lambda>e. (ev_Seq e, e)) after)) (ev_Seq ev) of None \<Rightarrow> False | Some e \<Rightarrow> sameEvent ev e)) before)"

definition measuredRangeTokens :: "SurfaceMeasurement \<Rightarrow> int \<Rightarrow> int \<Rightarrow> int" where
  "measuredRangeTokens m start stop =
     (let found = filter (\<lambda>n. start \<le> int (sn_Seq n) \<and> int (sn_Seq n) \<le> stop) (sm_Nodes m)
      in if found = [] then -1 else sum_list (map sn_Tokens found))"

section \<open>The engine\<close>

datatype compaction_error =
    CompProjection | CompSummarize summary_error | CompEmptySummary | CompHistoryChanged
  | CompNotSmaller | CompNegativeSeq | CompAppend session_error

record CompactionResult =
  cr_Summary :: string
  cr_ShadowedRange :: "int \<times> int"
  cr_ShadowedSeqs :: "int list"
  cr_ShadowedTokens :: int
  cr_Measurement :: "SurfaceMeasurement option"

datatype trigger = TriggerPressure | TriggerContextOverflow

type_synonym 'w compaction_run = "(compaction_error + CompactionResult option) \<times> session_log \<times> 'w summary_run"

definition shadowed_price :: "BasicOpts \<Rightarrow> event list \<Rightarrow> llm_message list \<Rightarrow> int \<Rightarrow> int \<Rightarrow> int" where
  "shadowed_price opts es ms start stop =
     (case bo_Meter opts of
        None \<Rightarrow> estimateMessages (bo_Tokenizer opts) ms
      | Some meter \<Rightarrow>
          let measured = measuredRangeTokens (meter es) start stop
          in if measured \<ge> 0 then measured else estimateMessages (bo_Tokenizer opts) ms)"

definition doCompact ::
    "'w summarizer \<Rightarrow> BasicOpts \<Rightarrow> (session_log \<Rightarrow> session_log) \<Rightarrow> go_time \<Rightarrow> int \<Rightarrow> int \<Rightarrow> int list \<Rightarrow> bool \<Rightarrow>
     session_log \<Rightarrow> 'w summary_run \<Rightarrow> 'w compaction_run" where
  "doCompact S opts meanwhile now start stop seqs wholeSurface l u =
     (if seqs = [] then (Inr None, l, u)
      else
        let snapshot = Events l; ms = shadowedHistory snapshot start stop
        in case summarize S opts ms u of
             (Inl e, u) \<Rightarrow> (Inl (CompSummarize e), meanwhile l, u)
           | (Inr summary, u) \<Rightarrow>
               let l = meanwhile l
               in if trim_space summary = [] then (Inl CompEmptySummary, l, u)
                  else if \<not> snapshotStable snapshot (Events l) start stop wholeSurface then (Inl CompHistoryChanged, l, u)
                  else
                    let stored = (if bo_FrameSummary opts then frameSummary summary else summary);
                        tokens = shadowed_price opts (Events l) ms start stop
                    in if bo_RequireSmallerSummary opts \<and> bo_Tokenizer opts stored \<ge> tokens then (Inl CompNotSmaller, l, u)
                       else if list_ex (\<lambda>q. q < 0) seqs then (Inl CompNegativeSeq, l, u)
                       else case Append l now EventUserMessage (Some (NewUserMessageReplaceWithSources stored start stop (map nat seqs))) of
                              (Inl e, l) \<Rightarrow> (Inl (CompAppend e), l, u)
                            | (Inr ev, l') \<Rightarrow>
                                (Inr (Some \<lparr>cr_Summary = summary, cr_ShadowedRange = (start, stop), cr_ShadowedSeqs = seqs,
                                   cr_ShadowedTokens = tokens, cr_Measurement = map_option (\<lambda>meter. meter (Events l)) (bo_Meter opts)\<rparr>), l', u))"

definition compactPrefix ::
    "'w summarizer \<Rightarrow> BasicOpts \<Rightarrow> (session_log \<Rightarrow> session_log) \<Rightarrow> go_time \<Rightarrow> bool \<Rightarrow> session_log \<Rightarrow> 'w summary_run \<Rightarrow> 'w compaction_run" where
  "compactPrefix S opts meanwhile now wholeSurface l u =
     (case choosePrefixRange opts (Events l) of
        None \<Rightarrow> (Inr None, l, u)
      | Some (start, stop, seqs) \<Rightarrow> doCompact S opts meanwhile now start stop seqs wholeSurface l u)"

definition CompactNow ::
    "'w summarizer \<Rightarrow> BasicOpts \<Rightarrow> (session_log \<Rightarrow> session_log) \<Rightarrow> go_time \<Rightarrow> session_log \<Rightarrow> 'w summary_run \<Rightarrow> 'w compaction_run" where
  "CompactNow S opts meanwhile now l u = compactPrefix S opts meanwhile now False l u"

definition CompactRegion ::
    "'w summarizer \<Rightarrow> BasicOpts \<Rightarrow> (session_log \<Rightarrow> session_log) \<Rightarrow> go_time \<Rightarrow> int \<Rightarrow> int \<Rightarrow> session_log \<Rightarrow> 'w summary_run \<Rightarrow> 'w compaction_run" where
  "CompactRegion S opts meanwhile now start stop l u =
     (case correctRegionRange (Events l) start stop of
        None \<Rightarrow> (Inr None, l, u)
      | Some (start, stop, seqs) \<Rightarrow> doCompact S opts meanwhile now start stop seqs False l u)"

definition estimateTokens :: "BasicOpts \<Rightarrow> (event list \<Rightarrow> llm_message list option) \<Rightarrow> event list \<Rightarrow> int option" where
  "estimateTokens opts project es =
     (case bo_Meter opts of
        Some meter \<Rightarrow>
          if sm_TotalTokens (meter es) \<ge> 0 then Some (sm_TotalTokens (meter es))
          else map_option (estimateMessages (bo_Tokenizer opts)) (project es)
      | None \<Rightarrow> map_option (estimateMessages (bo_Tokenizer opts)) (project es))"

definition CompactIfNeeded ::
    "'w summarizer \<Rightarrow> BasicOpts \<Rightarrow> (event list \<Rightarrow> llm_message list option) \<Rightarrow> (session_log \<Rightarrow> session_log) \<Rightarrow> go_time \<Rightarrow> trigger \<Rightarrow>
     session_log \<Rightarrow> 'w summary_run \<Rightarrow> 'w compaction_run" where
  "CompactIfNeeded S opts project meanwhile now trig l u =
     (case estimateTokens opts project (Events l) of
        None \<Rightarrow> (Inl CompProjection, l, u)
      | Some tokens \<Rightarrow>
          if \<not> (bo_TokenThreshold opts > 0 \<and> tokens > bo_TokenThreshold opts) \<and> trig = TriggerPressure then (Inr None, l, u)
          else compactPrefix S opts meanwhile now True l u)"

end
