(* ===== verification/Compaction_Effect.thy ===== *)
theory Compaction_Effect
  imports Compaction_Engine
begin

text \<open>
  What a compaction does to the history of the model: on a log without earlier markers it keeps everything
  behind the chosen prefix, the retained turns among it, and puts the summary in front. After that the
  choice of the range and the fold of the log no longer agree, which two runs show.
\<close>

section \<open>The marker\<close>

lemma those_ints: "\<forall>q \<in> set qs. int q \<le> max_int64 \<Longrightarrow> those (map (\<lambda>x. dec_uint64 (Some x)) (map (\<lambda>q. JInt (int q)) qs)) = Some qs"
  by (induction qs) (auto simp: max_int64_def max_uint64_def)

text \<open>The row of a compaction is read back as the replacement of its range by the summary.\<close>

lemma marker_replaces:
  assumes "ev_Type ev = EventUserMessage" "ev_Data ev = Some (NewUserMessageReplaceWithSources t start stop qs)"
    "0 \<le> start" "start \<le> stop" "stop \<le> max_int64" "\<forall>q \<in> set qs. int q \<le> max_int64"
  shows "row_replacement ev = Some (\<lparr>sr_Op = surfaceReplaceOp, sr_Start = start, sr_End = stop\<rparr>, t)"
proof -
  have "dec_ptr (dec_slice dec_uint64) (Some (JArr (map (\<lambda>q. JInt (int q)) qs))) = Some (Some qs)"
    using those_ints [OF assms(6)] by simp
  moreover have "min_int64 \<le> start" "min_int64 \<le> stop" "start \<le> max_int64" using assms(3-5) by (simp_all add: min_int64_def)
  ultimately show ?thesis using assms
    by (simp add: row_replacement_def NewUserMessageReplaceWithSources_def dec_userMessage_def dec_surface_replace_def dec_blocks_def jfield_def)
qed

section \<open>Rows before and behind a cut\<close>

lemma rows_before: "contiguous es \<Longrightarrow> filter (\<lambda>ev. int (ev_Seq ev) < ev_pos (hd es)) es = []"
proof -
  assume c: "contiguous es"
  have "\<not> int (ev_Seq ev) < ev_pos (hd es)" if "ev \<in> set es" for ev
  proof -
    obtain i where "i < length es" "ev = es ! i" using \<open>ev \<in> set es\<close> by (metis in_set_conv_nth)
    then show ?thesis using pos_le [OF c, of 0 i] by (cases es) (auto simp: ev_pos_def)
  qed
  then show ?thesis by (simp add: filter_empty_conv)
qed

lemma rows_behind:
  assumes c: "contiguous es" and n: "0 < n" "n \<le> length es"
  shows "filter (\<lambda>ev. ev_pos (es ! (n - 1)) < int (ev_Seq ev)) es = drop n es"
proof -
  have idx: "ev_pos (es ! (n - 1)) < int (ev_Seq (es ! i)) \<longleftrightarrow> n \<le> i" if "i < length es" for i
  proof -
    have "ev_pos (es ! i) \<le> ev_pos (es ! (n - 1)) \<longleftrightarrow> i \<le> n - 1" using pos_le [OF c that, of "n - 1"] n by simp
    then show ?thesis using n by (simp add: ev_pos_def) linarith
  qed
  have "filter (\<lambda>ev. ev_pos (es ! (n - 1)) < int (ev_Seq ev)) (take n es) = []"
    using idx by (auto simp: filter_empty_conv in_set_conv_nth)
  moreover have "filter (\<lambda>ev. ev_pos (es ! (n - 1)) < int (ev_Seq ev)) (drop n es) = drop n es"
    using idx by (auto simp: filter_id_conv in_set_conv_nth)
  ultimately show ?thesis by (metis append_take_drop_id filter_append append_Nil)
qed

section \<open>A successful compaction\<close>

lemma doCompact_appends:
  assumes "doCompact S opts meanwhile now start stop seqs whole l u = (Inr (Some r), l', u')"
  shows "\<exists>ev. Append (meanwhile l) now EventUserMessage
      (Some (NewUserMessageReplaceWithSources (if bo_FrameSummary opts then frameSummary (cr_Summary r) else cr_Summary r) start stop (map nat seqs)))
      = (Inr ev, l') \<and> cr_ShadowedSeqs r = seqs \<and> snapshotStable (Events l) (Events (meanwhile l)) start stop whole"
proof -
  obtain x u1 where s: "summarize S opts (shadowedHistory (Events l) start stop) u = (x, u1)" by fastforce
  obtain summary where x: "x = Inr summary" using assms s by (cases x) (auto simp: doCompact_def Let_def split: if_splits)
  let ?d = "Some (NewUserMessageReplaceWithSources (if bo_FrameSummary opts then frameSummary summary else summary) start stop (map nat seqs))"
  obtain y l1 where a: "Append (meanwhile l) now EventUserMessage ?d = (y, l1)" by fastforce
  have "y \<noteq> Inl e" for e using assms s x a by (auto simp: doCompact_def Let_def split: if_splits)
  then obtain ev where y: "y = Inr ev" by (cases y) auto
  have "cr_Summary r = summary \<and> cr_ShadowedSeqs r = seqs \<and> l1 = l' \<and> snapshotStable (Events l) (Events (meanwhile l)) start stop whole"
    using assms s x a y by (auto simp: doCompact_def Let_def split: if_splits)
  then show ?thesis using a y by blast
qed

lemma appended_row:
  "Append l now ty data = (Inr ev, l') \<Longrightarrow> lg_events l' = lg_events l @ [ev] \<and> ev_Type ev = ty \<and> ev_Data ev = data"
  by (cases rule: Append_cases [of l now ty data]) auto

text \<open>
  C13: A compaction of the turn mode on a log without earlier markers puts its summary in front of the
  history and keeps the messages of every row behind the cut, also of those appended while the model
  answered. The cut is the last one that leaves the retained user turns behind it and no call open.
\<close>

theorem compaction_keeps_tail:
  assumes run: "CompactNow S opts meanwhile now l u = (Inr (Some r), l', u')"
    and log: "log_reachable (meanwhile l)" "lg_events (meanwhile l) = lg_events l @ extra" "plain_log (lg_events l @ extra)"
    and turns: "bo_RetainTokens opts \<le> 0"
    and ints: "\<forall>ev \<in> set (lg_events l). int (ev_Seq ev) \<le> max_int64"
    and users: "\<forall>ev \<in> set (lg_events l). user_turn ev \<longrightarrow> plain_messages ev \<noteq> []"
  shows "\<exists>n. 0 < n \<and> n \<le> length (lg_events l) \<and> cr_ShadowedSeqs r = map ev_pos (take n (lg_events l)) \<and>
    replaceable (nat (bo_RetainTurns opts)) (lg_events l) n \<and>
    (\<forall>m \<le> length (lg_events l). replaceable (nat (bo_RetainTurns opts)) (lg_events l) m \<longrightarrow> m \<le> n) \<and>
    derive (lg_events l') = user_text (if bo_FrameSummary opts then frameSummary (cr_Summary r) else cr_Summary r) #
      derive (drop n (lg_events l @ extra))"
proof -
  let ?es = "lg_events l"
  obtain start stop seqs where ch: "choosePrefixRange opts ?es = Some (start, stop, seqs)"
    and dc: "doCompact S opts meanwhile now start stop seqs False l u = (Inr (Some r), l', u')"
    using run by (auto simp: CompactNow_def compactPrefix_def Events_def split: option.splits)
  let ?t = "if bo_FrameSummary opts then frameSummary (cr_Summary r) else cr_Summary r"
  obtain ev where ap: "Append (meanwhile l) now EventUserMessage (Some (NewUserMessageReplaceWithSources ?t start stop (map nat seqs))) = (Inr ev, l')"
    and sq: "cr_ShadowedSeqs r = seqs" using doCompact_appends [OF dc] by blast
  have wf: "log_wf (meanwhile l)" using reachable_inv [OF log(1)] by (simp add: log_inv_def)
  have "log_wf l'" using append_wf [OF wf] ap by (metis snd_conv)
  moreover have ev: "lg_events l' = (?es @ extra) @ [ev]" "ev_Type ev = EventUserMessage"
    "ev_Data ev = Some (NewUserMessageReplaceWithSources ?t start stop (map nat seqs))"
    using appended_row [OF ap] log(2) by simp_all
  ultimately have c3: "contiguous ((?es @ extra) @ [ev])" using log_wf_contiguous by metis
  have c2: "contiguous (?es @ extra)" using contiguous_prefix [OF c3] .
  have c1: "contiguous ?es" using contiguous_prefix [OF c2] .
  obtain n where n: "0 < n" "n \<le> length ?es" "start = ev_pos (hd ?es)" "stop = ev_pos (?es ! (n - 1))" "seqs = map ev_pos (take n ?es)"
    "replaceable (nat (bo_RetainTurns opts)) ?es n" "\<exists>ev \<in> set (take n ?es). user_turn ev"
    "\<forall>m \<le> length ?es. replaceable (nat (bo_RetainTurns opts)) ?es m \<longrightarrow> m \<le> n"
    using chosen_prefix [OF c1 ch turns] by blast
  have ne: "?es \<noteq> []" using n(1,2) by auto
  have hd: "hd ?es = ?es ! 0" using ne by (rule hd_conv_nth)
  have bounds: "0 \<le> start" "start \<le> stop" "stop \<le> max_int64"
    using n(1-4) pos_le [OF c1, of 0 "n - 1"] ints hd ne by (auto simp: ev_pos_def)
  have "\<forall>q \<in> set (map nat seqs). int q \<le> max_int64" using n(5) ints by (auto simp: ev_pos_def dest: in_set_takeD)
  from marker_replaces [OF ev(2,3) bounds this]
  have rr: "row_replacement ev = Some (\<lparr>sr_Op = surfaceReplaceOp, sr_Start = start, sr_End = stop\<rparr>, ?t)" .
  obtain w where w: "w \<in> set (take n ?es)" "user_turn w" using n(7) by blast
  obtain i where i: "i < n" "w = ?es ! i" using w(1) n(2) by (auto simp: in_set_conv_nth)
  have "start \<le> int (ev_Seq w) \<and> int (ev_Seq w) \<le> stop"
    using pos_le [OF c1, of 0 i] pos_le [OF c1, of i "n - 1"] i n(1-4) hd ne by (auto simp: ev_pos_def)
  moreover have "plain_messages w \<noteq> []" using users w by (meson in_set_takeD)
  moreover have "w \<in> set (?es @ extra)" using w(1) by (auto dest: in_set_takeD)
  ultimately have "derive (lg_events l') = derive (filter (\<lambda>ev. int (ev_Seq ev) < start) (?es @ extra)) @ [user_text ?t] @
      derive (filter (\<lambda>ev. stop < int (ev_Seq ev)) (?es @ extra))"
    using marker_on_plain [OF c3 log(3) rr] ev(1) by auto
  moreover have "filter (\<lambda>ev. int (ev_Seq ev) < start) (?es @ extra) = []"
    using rows_before [OF c2] n(3) ne by simp
  moreover have "filter (\<lambda>ev. stop < int (ev_Seq ev)) (?es @ extra) = drop n (?es @ extra)"
  proof -
    have "n - 1 < length ?es" using n(1,2) by linarith
    then have "stop = ev_pos ((?es @ extra) ! (n - 1))" using n(4) by (simp add: nth_append)
    moreover have "n \<le> length (?es @ extra)" using n(2) by simp
    ultimately show ?thesis using rows_behind [OF c2 n(1)] by blast
  qed
  ultimately show ?thesis using n sq by (intro exI [of _ n]) (simp add: derive_def derive_state_Nil)
qed

section \<open>Runs\<close>

text \<open>Turns of one user message and one answer each.\<close>

definition turn_rows :: "string list \<Rightarrow> (event_type \<times> json option) list" where
  "turn_rows ts = concat (map (\<lambda>t. [(EventUserMessage, user_row t), (EventAssistantMessage, user_row (t @ ''!''))]) ts)"

definition turns_log :: "session_log \<Rightarrow> string list \<Rightarrow> session_log" where
  "turns_log l ts = append_all l (turn_rows ts)"

definition turn_opts :: BasicOpts where
  "turn_opts = small_opts\<lparr>bo_SummaryInputTokens := 1000\<rparr>"

definition three_turns :: session_log where
  "three_turns = turns_log New [''what is in this repository?'', ''b'', ''c'']"

definition once_compacted :: "unit compaction_run" where
  "once_compacted = CompactNow ready_model turn_opts (\<lambda>l. l) 5 three_turns no_requests"

definition texts :: "llm_message list \<Rightarrow> string list" where
  "texts ms = map message_text ms"

fun turn_past :: "event \<Rightarrow> bool" where
  "turn_past ev = (row_replacement ev = None \<and> int (ev_Seq ev) \<le> max_int64 \<and> (user_turn ev \<longrightarrow> plain_messages ev \<noteq> []))"

lemma compaction_keeps_tail_witness:
  "\<exists>n. 0 < n \<and> n \<le> 6 \<and> texts (derive (lg_events (fst (snd once_compacted)))) = ''short'' # texts (derive (drop n (lg_events three_turns)))"
proof -
  let ?r = "the (projr (fst once_compacted))"
  have "\<not> isl (fst once_compacted) \<and> \<not> Option.is_none (projr (fst once_compacted))" by code_simp
  then have "fst once_compacted = Inr (Some ?r)" by (simp add: Option.is_none_def)
  then have run: "CompactNow ready_model turn_opts (\<lambda>l. l) 5 three_turns no_requests = (Inr (Some ?r), fst (snd once_compacted), snd (snd once_compacted))"
    unfolding once_compacted_def [symmetric] by (metis prod.collapse)
  have reach: "log_reachable three_turns" unfolding three_turns_def turns_log_def by (rule append_all_reachable [OF reach_New])
  have all: "list_all turn_past (lg_events three_turns)" by code_simp
  have "\<exists>n. 0 < n \<and> n \<le> length (lg_events three_turns) \<and> cr_ShadowedSeqs ?r = map ev_pos (take n (lg_events three_turns)) \<and>
    replaceable (nat (bo_RetainTurns turn_opts)) (lg_events three_turns) n \<and>
    (\<forall>m \<le> length (lg_events three_turns). replaceable (nat (bo_RetainTurns turn_opts)) (lg_events three_turns) m \<longrightarrow> m \<le> n) \<and>
    derive (lg_events (fst (snd once_compacted))) = user_text (if bo_FrameSummary turn_opts then frameSummary (cr_Summary ?r) else cr_Summary ?r) #
      derive (drop n (lg_events three_turns @ []))"
  proof (rule compaction_keeps_tail [OF run])
    show "log_reachable ((\<lambda>l. l) three_turns)" using reach by simp
    show "plain_log (lg_events three_turns @ [])" using all by (auto simp: plain_log_def list_all_iff)
    show "bo_RetainTokens turn_opts \<le> 0" by (simp add: turn_opts_def small_opts_def)
    show "\<forall>ev \<in> set (lg_events three_turns). int (ev_Seq ev) \<le> max_int64" using all by (auto simp: list_all_iff)
    show "\<forall>ev \<in> set (lg_events three_turns). user_turn ev \<longrightarrow> plain_messages ev \<noteq> []" using all by (auto simp: list_all_iff)
  qed simp
  moreover have "length (lg_events three_turns) = 6" by code_simp
  moreover have "user_text (if bo_FrameSummary turn_opts then frameSummary (cr_Summary ?r) else cr_Summary ?r) = user_text ''short''" by code_simp
  moreover have "message_text (user_text ''short'') = ''short''" by code_simp
  ultimately show ?thesis by (auto simp: texts_def)
qed


text \<open>The meter of the application: the surface, each node at the same price here.\<close>

definition surface_meter :: "event list \<Rightarrow> SurfaceMeasurement" where
  "surface_meter es = \<lparr>sm_TotalTokens = 10 * int (length (foldSurface es)),
     sm_Nodes = map (\<lambda>e. \<lparr>sn_Seq = se_Seq e, sn_Tokens = 10\<rparr>) (foldSurface es)\<rparr>"

definition token_opts :: BasicOpts where
  "token_opts = turn_opts\<lparr>bo_Meter := Some surface_meter, bo_RetainTokens := 20\<rparr>"

definition metered_once :: session_log where
  "metered_once = turns_log (fst (snd (CompactNow ready_model token_opts (\<lambda>l. l) 5 three_turns no_requests))) [''d'', ''e'']"


end
