(* ===== verification/Compaction_Prune.thy ===== *)
theory Compaction_Prune
  imports Compaction_Summary
begin

text \<open>
  The truncation plan of \<^verbatim>\<open>internal/compaction/pruner.go\<close>: which tool results are over their byte budget
  and the head, marker and tail they would keep.
\<close>

section \<open>Cutting a text\<close>

text \<open>The longest valid prefix of at most \<open>k\<close> bytes, found by backing off.\<close>

fun back_off :: "string \<Rightarrow> nat \<Rightarrow> string" where
  "back_off s 0 = []"
| "back_off s (Suc k) = (if utf8_valid (take (Suc k) s) then take (Suc k) s else back_off s k)"

definition truncateUTF8 :: "string \<Rightarrow> int \<Rightarrow> string" where
  "truncateUTF8 s maxBytes = (if maxBytes < 0 \<or> int (length s) \<le> maxBytes then s else back_off s (nat maxBytes))"

definition rune_start :: "char \<Rightarrow> bool" where
  "rune_start c \<longleftrightarrow> \<not> in_bytes 0x80 0xBF c"

definition lastBytes :: "string \<Rightarrow> int \<Rightarrow> string" where
  "lastBytes s maxBytes =
     (if maxBytes < 0 \<or> int (length s) \<le> maxBytes then s
      else dropWhile (\<lambda>c. \<not> rune_start c) (drop (length s - nat maxBytes) s))"

definition prune_marker :: "nat \<Rightarrow> string" where
  "prune_marker n = ''\<newline>'' @ [CHR 0xE2, CHR 0x80, CHR 0xA6] @ ''[truncated: '' @ itoa n @ '' bytes omitted]\<newline>''"

definition pruneResultText :: "string \<Rightarrow> int \<Rightarrow> string" where
  "pruneResultText out maxBytes =
     (if maxBytes \<le> 0 \<or> int (length out) \<le> maxBytes then out
      else
        let remaining = max 0 (maxBytes - int (length (prune_marker (length out))));
            headBytes = remaining div 2; tailBytes = remaining - headBytes;
            hd = truncateUTF8 out headBytes; tl = lastBytes out tailBytes
        in hd @ prune_marker (length out - length hd - length tl) @ tl)"

section \<open>The plan\<close>

record PruneResult =
  pr_Replaced :: "int list"
  pr_SavedBytes :: int

text \<open>The output of a row that counts: legacy errors do not.\<close>

definition prunable :: "event \<Rightarrow> string option" where
  "prunable ev =
     (if ev_Type ev \<noteq> EventToolResult then None
      else case unmarshal_struct dec_toolResultPayload (ev_Data ev) of
        None \<Rightarrow> None
      | Some d \<Rightarrow>
          if rp_Code d \<noteq> [] \<and> rp_Message d = None then None
          else case unmarshal_struct (\<lambda>o1. dec_string (jfield o1 ''error'')) (ev_Data ev) of
                 Some e \<Rightarrow> if e \<noteq> [] then None else Some (rp_Output d)
               | None \<Rightarrow> Some (rp_Output d))"

definition prune_step :: "int \<Rightarrow> PruneResult \<Rightarrow> event \<Rightarrow> PruneResult" where
  "prune_step maxBytes r ev =
     (case prunable ev of
        None \<Rightarrow> r
      | Some out \<Rightarrow>
          if int (length out) \<le> maxBytes then r
          else r\<lparr>pr_Replaced := pr_Replaced r @ [ev_pos ev],
                 pr_SavedBytes := pr_SavedBytes r + (int (length out) - int (length (pruneResultText out maxBytes)))\<rparr>)"

definition PruneToolResults :: "event list \<Rightarrow> int \<Rightarrow> PruneResult option" where
  "PruneToolResults es maxBytes =
     (if maxBytes \<le> 0 then None else Some (foldl (prune_step maxBytes) \<lparr>pr_Replaced = [], pr_SavedBytes = 0\<rparr> es))"

section \<open>What is kept\<close>

lemma back_off_prefix: "k \<le> length s \<Longrightarrow> \<exists>h \<le> k. back_off s k = take h s \<and> utf8_valid (take h s)"
proof (induction k)
  case 0
  then show ?case by (simp add: utf8_valid.simps [of "[]"])
next
  case (Suc k)
  then show ?case by (cases "utf8_valid (take (Suc k) s)") (auto intro: le_SucI)
qed

lemma itoa_mono: "m \<le> n \<Longrightarrow> length (itoa m) \<le> length (itoa n)"
proof (induction n arbitrary: m rule: less_induct)
  case (less n)
  show ?case
  proof (cases "m < 10")
    case True
    have "0 < length (itoa n)" by simp
    then show ?thesis using True by (subst itoa.simps) (simp add: Suc_leI)
  next
    case False
    then have "n div 10 < n" "m div 10 \<le> n div 10" using less.prems by (simp_all add: div_le_mono)
    then have "length (itoa (m div 10)) \<le> length (itoa (n div 10))" using less.IH by blast
    then show ?thesis using False less.prems by (subst (1 2) itoa.simps) simp
  qed
qed

lemma marker_mono: "m \<le> n \<Longrightarrow> length (prune_marker m) \<le> length (prune_marker n)"
  using itoa_mono by (simp add: prune_marker_def)

lemma drop_while_drop: "dropWhile P (drop k s) = drop (k + length (takeWhile P (drop k s))) s"
  by (simp add: dropWhile_eq_drop add.commute)

text \<open>
  Fact: Where the budget has room for the marker, the pruned text fits it: a valid prefix and a suffix of
  the output that starts at a rune, with the exact number of bytes between them.
\<close>

theorem pruned_text_fits:
  assumes "maxBytes < int (length out)" "int (length (prune_marker (length out))) \<le> maxBytes"
  shows "\<exists>h t. h + t \<le> length out \<and> utf8_valid (take h out) \<and> (t = 0 \<or> rune_start (out ! (length out - t))) \<and>
    pruneResultText out maxBytes = take h out @ prune_marker (length out - h - t) @ drop (length out - t) out \<and>
    int (length (pruneResultText out maxBytes)) \<le> maxBytes"
proof -
  let ?n = "length out" and ?m = "length (prune_marker (length out))"
  define a where "a = nat ((maxBytes - int ?m) div 2)"
  define b where "b = nat (maxBytes - int ?m - (maxBytes - int ?m) div 2)"
  have pos: "0 < maxBytes" using assms(2) by (simp add: prune_marker_def)
  have ab: "a + b + ?m = nat maxBytes" "a + b < ?n" using assms by (auto simp: a_def b_def)
  obtain h where h: "h \<le> a" "truncateUTF8 out (int a) = take h out" "utf8_valid (take h out)"
    using back_off_prefix [of a out] ab(2) by (auto simp: truncateUTF8_def)
  let ?k = "?n - b + length (takeWhile (\<lambda>c. \<not> rune_start c) (drop (?n - b) out))"
  have tw: "length (takeWhile (\<lambda>c. \<not> rune_start c) (drop (?n - b) out)) \<le> b"
    using length_takeWhile_le [of "\<lambda>c. \<not> rune_start c" "drop (?n - b) out"] ab(2) by simp
  define t where "t = ?n - ?k"
  have t: "t \<le> b" "?k = ?n - t" using tw ab(2) by (auto simp: t_def)
  have last: "lastBytes out (int b) = drop (?n - t) out" using ab(2) drop_while_drop [of _ "?n - b" out] t(2) by (simp add: lastBytes_def)
  have start: "t = 0 \<or> rune_start (out ! (?n - t))"
  proof (cases "t = 0")
    case False
    then have "length (takeWhile (\<lambda>c. \<not> rune_start c) (drop (?n - b) out)) < length (drop (?n - b) out)" using t_def by auto
    from nth_length_takeWhile [OF this] show ?thesis using t(2) ab(2) by (simp add: nth_drop)
  qed simp
  have rem: "max 0 (maxBytes - int ?m) = maxBytes - int ?m" using assms(2) by simp
  have "0 \<le> x \<Longrightarrow> x div 2 \<le> x" for x :: int by presburger
  then have half: "(maxBytes - int ?m) div 2 \<le> maxBytes - int ?m" using assms(2) by simp
  have ia: "(maxBytes - int ?m) div 2 = int a" and ib: "maxBytes - int ?m - int a = int b" using assms(2) half by (simp_all add: a_def b_def)
  have lens: "length (take h out) = h" "length (drop (?n - t) out) = t" using h(1) t(1) ab(2) by simp_all
  have "pruneResultText out maxBytes =
      truncateUTF8 out (int a) @ prune_marker (?n - length (truncateUTF8 out (int a)) - length (lastBytes out (int b))) @ lastBytes out (int b)"
    using pos assms(1) unfolding pruneResultText_def Let_def rem ia ib by simp
  then have e: "pruneResultText out maxBytes = take h out @ prune_marker (?n - h - t) @ drop (?n - t) out"
    unfolding h(2) last lens .
  have "length (prune_marker (?n - h - t)) \<le> ?m" by (rule marker_mono) simp
  then have "int (length (pruneResultText out maxBytes)) \<le> maxBytes" using e h(1) t(1) ab lens pos by simp
  then show ?thesis using e h t start ab(2) by (intro exI [of _ h] exI [of _ t]) simp
qed

lemma pruned_text_fits_witness:
  "length (pruneResultText (replicate 80 CHR ''x'') 60) \<le> 60"
proof -
  have "60 < int (length (replicate 80 CHR ''x''))" "int (length (prune_marker (length (replicate 80 CHR ''x'')))) \<le> 60"
    by code_simp+
  from pruned_text_fits [OF this] show ?thesis by auto
qed

text \<open>
  Fact: The marker is reserved but not refused: under a budget smaller than the marker the pruned text is
  longer than the budget, and longer than the output it replaces.
\<close>

definition small_result :: event where
  "small_result = \<lparr>ev_Seq = 3, ev_Type = EventToolResult, ev_At = 5, ev_Version = 1,
     ev_Data = Some (JObj [(''callId'', JStr ''c''), (''output'', JStr ''twelve bytes'')])\<rparr>"

theorem pruned_text_grows:
  "PruneToolResults [small_result] 10 = Some \<lparr>pr_Replaced = [3], pr_SavedBytes = - 22\<rparr>"
  by code_simp

end
