(* ===== verification/Spec2Isabelle.thy ===== *)
theory Spec2Isabelle
  imports Session_Log Session_Recovery Session_Projection Agent_Inbox_Replay Agent_Runtime Plan_Tools Goal_Rounds Team_Divergence
    Schedule_Clock Schedule_Reminders Loop_Protocol Compaction_Effect Compaction_Prune
begin

text \<open>
  A verification library for shutu-agent, a coding agent written in Go. The agent keeps a durable log of
  everything that happens in a session, and most of what it knows is a fold over that log: the history the
  model sees, its plans, its reminders, its team and its inbox are journals and projections, rebuilt by
  replay after a crash. The library models that core and proves what makes it trustworthy: the logs stay
  well formed, folds and live state agree, replay gives back what was lost, and nothing is delivered twice.

  \<^bold>\<open>The program.\<close> The parts below, with the files they model under \<^verbatim>\<open>src/internal\<close>, interact as follows.
  The loop of an agent appends rows to the session log (\<^verbatim>\<open>session\<close>), which validates each row against
  the log so far before it reaches the sink. The loop runs the tool calls of a step (\<^verbatim>\<open>loop\<close>) and has the
  log compacted when the history grows too large (\<^verbatim>\<open>compaction\<close>). Messages come in through the inbox of the agent
  (\<^verbatim>\<open>agent/inbox.go\<close>); its driver (\<^verbatim>\<open>agent/agent.go\<close>) claims them turn by turn. The planning engine
  (\<^verbatim>\<open>plan\<close>) keeps goals, plans and todos; the goal driver (\<^verbatim>\<open>goal\<close>) runs rounds of turns for a goal
  within the budget the engine admits. A team (\<^verbatim>\<open>team\<close>) shares a board of tasks and a mailbox between agents.
  The scheduler (\<^verbatim>\<open>schedule\<close>) turns time into due triggers and durable reminders. Planning, team and
  reminders write their changes into the session log and are restored from it.

  \<^bold>\<open>Theories.\<close>
  \<^item> \<^verbatim>\<open>Go_Prelude\<close>, \<^verbatim>\<open>Json\<close>, \<^verbatim>\<open>Go_Time\<close>, \<^verbatim>\<open>Journal\<close>: strings, maps, folds that stop at the first error, the interfaces
    \<^verbatim>\<open>event_fold\<close>, \<^verbatim>\<open>event_checker\<close> and \<^verbatim>\<open>journaled\<close>; the decoding of \<^verbatim>\<open>encoding/json\<close> the sources
    rely on; calendar, instants and 64-bit arithmetic.
  \<^item> \<^verbatim>\<open>Event_Model\<close>, \<^verbatim>\<open>Session_Contract\<close>: the row type with its discriminators (\<^verbatim>\<open>session.go\<close>) and the
    encodings the durable log takes (\<^verbatim>\<open>contract.go\<close>).
  \<^item> \<^verbatim>\<open>Session_Commands\<close>, \<^verbatim>\<open>Session_Workflow\<close>, \<^verbatim>\<open>Session_Retry\<close>, \<^verbatim>\<open>Session_Provenance\<close>,
    \<^verbatim>\<open>Session_Lifecycle\<close>: the validators of \<^verbatim>\<open>lifecycle.go\<close>, \<^verbatim>\<open>workflow_record.go\<close> and \<^verbatim>\<open>session.go\<close>. Each
    is a fold with the errors of the source; its lemmas say exactly which logs it accepts.
  \<^item> \<^verbatim>\<open>Session_Content\<close>, \<^verbatim>\<open>Session_History\<close>: content blocks and their wire form (\<^verbatim>\<open>llm/content.go\<close>), and
    the fold of the log into model messages with compaction.
  \<^item> \<^verbatim>\<open>Session_Log\<close>: append, batch append, restore, observers and the history cache. The lemmas show an
    invariant of every reachable log, that the cached history is the pure fold, that a failed append
    changes nothing, and the round trip of a restore.
  \<^item> \<^verbatim>\<open>Session_Recovery\<close>, \<^verbatim>\<open>Session_Projection\<close>: the rows that close an interrupted turn (\<^verbatim>\<open>recovery.go\<close>)
    and the read-only projections.
  \<^item> \<^verbatim>\<open>Session_Surface\<close>: the second fold of the log, into the surface the token meter prices
    (\<^verbatim>\<open>foldSurface\<close> of \<^verbatim>\<open>projection.go\<close>), which agrees with the history on well-formed replacements.
  \<^item> \<^verbatim>\<open>Compaction_Select\<close>, \<^verbatim>\<open>Compaction_Pairs\<close>, \<^verbatim>\<open>Compaction_Summary\<close>, \<^verbatim>\<open>Compaction_Requests\<close>,
    \<^verbatim>\<open>Compaction_Engine\<close>, \<^verbatim>\<open>Compaction_Effect\<close>, \<^verbatim>\<open>Compaction_Prune\<close>: \<^verbatim>\<open>basic.go\<close>, \<^verbatim>\<open>service.go\<close> and
    \<^verbatim>\<open>pruner.go\<close> of \<^verbatim>\<open>compaction\<close>: the choice of the range, the bounded recursive summary, the operations over
    the log. A chosen range separates no call from its result, every request fits its budget, and a first
    compaction keeps the retained turns; three runs show where later ones do not.
  \<^item> \<^verbatim>\<open>Loop_Tools\<close>, \<^verbatim>\<open>Loop_Protocol\<close>: the tool calls of a step (\<^verbatim>\<open>executeCalls\<close>, \<^verbatim>\<open>executeParallelGroup\<close> of
    \<^verbatim>\<open>loop.go\<close>): whatever the pool interleaves, the rows follow the protocol, and the calls come to an end.
  \<^item> \<^verbatim>\<open>Agent_Inbox\<close>, \<^verbatim>\<open>Agent_Inbox_Replay\<close>: the queues of \<^verbatim>\<open>inbox.go\<close>; the journal replays to the live queues and a
    message is handed out once.
  \<^item> \<^verbatim>\<open>Agent_Driver\<close>, \<^verbatim>\<open>Agent_Lifecycle\<close>, \<^verbatim>\<open>Agent_Runtime\<close>: \<^verbatim>\<open>agent.go\<close> as a step relation: the driver
    goroutine, callers, a maintenance task and closers are threads with a program counter, and a step is a
    section of code between two releases of the lock. Invariants are by rule induction over all
    interleavings; a close can be finished from every reachable state.
  \<^item> \<^verbatim>\<open>Plan_Engine\<close>, \<^verbatim>\<open>Plan_Invariant\<close>, \<^verbatim>\<open>Plan_Fence\<close>, \<^verbatim>\<open>Plan_Restore\<close>, \<^verbatim>\<open>Plan_Tools\<close>: the engine over its in-memory
    provider (\<^verbatim>\<open>engine.go\<close>, \<^verbatim>\<open>mem.go\<close>), the consistency of the goal tree, the revision fence, the fold
    of planning facts, and the tools. The facts of any run of the tools fold to the live engine.
  \<^item> \<^verbatim>\<open>Goal_Driver\<close>, \<^verbatim>\<open>Goal_Rounds\<close>: \<^verbatim>\<open>goal/service.go\<close>; turns run inside recorded rounds, and no more than
    the budget allows.
  \<^item> \<^verbatim>\<open>Team_Roster\<close>, \<^verbatim>\<open>Team_Members\<close>, \<^verbatim>\<open>Team_Board\<close>, \<^verbatim>\<open>Team_Graph\<close>, \<^verbatim>\<open>Team_Mailbox\<close>, \<^verbatim>\<open>Team_Delivery\<close>,
    \<^verbatim>\<open>Team_Replay\<close>, \<^verbatim>\<open>Team_Snapshot\<close>, \<^verbatim>\<open>Team_Tools\<close>, \<^verbatim>\<open>Team_Divergence\<close>: roster, board, mailbox and tools of
    \<^verbatim>\<open>team\<close>. Names are unique, dependencies stay acyclic, messages are delivered once, events and
    snapshots rebuild the board, and the places where they do not are shown on small runs.
  \<^item> \<^verbatim>\<open>Schedule_Cron\<close>, \<^verbatim>\<open>Schedule_Engine\<close>, \<^verbatim>\<open>Schedule_Clock\<close>: cron expressions (\<^verbatim>\<open>cron.go\<close>) and the
    trigger engine over its memory provider; parsing ends, the next occurrence is the least one, a tick
    fires what is due exactly once.
  \<^item> \<^verbatim>\<open>Schedule_Durable\<close>, \<^verbatim>\<open>Schedule_Reminders\<close>: the reminders of \<^verbatim>\<open>durable.go\<close>: the journal folds back to
    the live projection, and a dispatched batch is no longer due.

  \<^bold>\<open>Conventions.\<close> A struct is a record with a two-letter prefix, a Go map an association list with distinct
  keys, a payload a \<^verbatim>\<open>json\<close> value, an error a constructor of the datatype of its component; texts of
  errors are left out. An operation takes the state and returns its result with the new state, also when
  it fails. Where the code asks something outside, such as a journal, a clock, a context, a model or a
  time zone, the answer is an argument, so a theorem holds for all answers. Integers that can overflow are kept at 64
  bits with the wrap written out; counters of ids and rows are unbounded, which no run reaches.

  \<^bold>\<open>Bounds and fuel.\<close> \<^verbatim>\<open>cron_scan\<close> takes the horizon of the source as its fuel and fails where the source
  does. \<^verbatim>\<open>allocate_from\<close> gets one more try than there are ids in use, which \<^verbatim>\<open>allocate_ends\<close> proves enough;
  the 32 attempts of the team id reservation are the limit of the source. The goal driver recurses on the rounds
  the engine can still admit. \<^verbatim>\<open>executeCalls\<close> takes the number of loop turns as fuel, and \<^verbatim>\<open>tool_calls_end\<close> shows
  that one more than the calls is enough; \<^verbatim>\<open>summarizeBounded\<close> recurses on the levels left of the depth limit
  of the source. The range loop of a cron field and \<^verbatim>\<open>time.ParseDuration\<close> are total functions
  with a measure.

  \<^bold>\<open>Not modelled.\<close> Everything whose work is input and output: the web server and its native RPC, the
  commands of \<^verbatim>\<open>cmd/sta\<close>, the model providers, the SQLite and JSONL stores, MCP, LSP, terminals, sandboxes, the
  file system tools and the SDK client call other systems, and there is little to state of them but those
  calls. The rest of the turn loop (requests, streaming, hooks and retries in \<^verbatim>\<open>loop\<close>), subagents, workflows
  and extensions hang together from these and from the parts above; their own logic is left for later. Of the parts modelled, the tool argument schemas, the
  rendering of results, panics of callbacks and the text of errors are left out; cron triggers are read in UTC.
\<close>

end
